(* ===== verification/Prelude.thy ===== *)
theory Prelude
  imports Main "HOL-Library.Monad_Syntax" "HOL-Library.Multiset"
begin

text \<open>
  Shared vocabulary of the development.

  Rust code that panics (an out-of-range index, a failed arithmetic check, a reached
  \<open>unreachable!()\<close>, an explicit \<open>panic!\<close>) is modelled by the value
  \<open>None\<close> of an option; code that returns is \<open>Some\<close> of its result.  A Rust
  \<open>Option<T>\<close> inside such a result is a second option, a Rust \<open>Result<T, E>\<close> is
  the sum type \<open>'e + 'a\<close> with \<open>Inl\<close> for \<open>Err\<close>.  Arithmetic follows the overflow-checked
  build: an operation that leaves its type's range panics.
\<close>

section \<open>Machine arithmetic with panics\<close>

definition U32_MAX :: nat where
  "U32_MAX = 4294967295"

definition U64_MAX :: nat where
  "U64_MAX = 18446744073709551615"

definition checked_add :: "nat \<Rightarrow> nat \<Rightarrow> nat \<Rightarrow> nat option" where
  "checked_add mx a b = (if a + b \<le> mx then Some (a + b) else None)"

definition checked_sub :: "nat \<Rightarrow> nat \<Rightarrow> nat option" where
  "checked_sub a b = (if b \<le> a then Some (a - b) else None)"

definition checked_pow :: "nat \<Rightarrow> nat \<Rightarrow> nat \<Rightarrow> nat option" where
  "checked_pow mx b e = (if b ^ e \<le> mx then Some (b ^ e) else None)"

definition checked_div :: "nat \<Rightarrow> nat \<Rightarrow> nat option" where
  "checked_div a b = (if b = 0 then None else Some (a div b))"

definition checked_mod :: "nat \<Rightarrow> nat \<Rightarrow> nat option" where
  "checked_mod a b = (if b = 0 then None else Some (a mod b))"

definition saturating_add :: "nat \<Rightarrow> nat \<Rightarrow> nat \<Rightarrow> nat" where
  "saturating_add mx a b = min mx (a + b)"

text \<open>Subtraction on \<^typ>\<open>nat\<close> stops at zero, which is Rust's \<open>saturating_sub\<close>.\<close>

definition saturating_sub :: "nat \<Rightarrow> nat \<Rightarrow> nat" where
  "saturating_sub a b = a - b"

named_theorems checked_simps \<open>definitions of the checked machine operations\<close>

declare checked_add_def [checked_simps] checked_sub_def [checked_simps]
  checked_pow_def [checked_simps] checked_div_def [checked_simps]
  checked_mod_def [checked_simps] saturating_add_def [checked_simps]
  saturating_sub_def [checked_simps]

section \<open>Results of code that can panic\<close>

text \<open>The \<open>?\<close> operator: a panic and an \<open>Err\<close> both leave the function.\<close>

definition res_bind :: "('e + 'a) option \<Rightarrow> ('a \<Rightarrow> ('e + 'b) option) \<Rightarrow> ('e + 'b) option" where
  "res_bind m f = (case m of None \<Rightarrow> None | Some (Inl e) \<Rightarrow> Some (Inl e) | Some (Inr x) \<Rightarrow> f x)"

lemma res_bind_simps [simp]:
  "res_bind None f = None" "res_bind (Some (Inl e)) f = Some (Inl e)" "res_bind (Some (Inr x)) f = f x"
  by (simp_all add: res_bind_def)

lemma res_bind_Ok: "res_bind m f = Some (Inr y) \<longleftrightarrow> (\<exists>x. m = Some (Inr x) \<and> f x = Some (Inr y))"
  by (auto simp: res_bind_def split: option.splits sum.splits)

lemma res_bind_None: "res_bind m f = None \<longleftrightarrow> m = None \<or> (\<exists>x. m = Some (Inr x) \<and> f x = None)"
  by (auto simp: res_bind_def split: option.splits sum.splits)

lemma res_bind_split:
  "P (res_bind m f) \<longleftrightarrow> (m = None \<longrightarrow> P None) \<and> (\<forall>e. m = Some (Inl e) \<longrightarrow> P (Some (Inl e))) \<and>
     (\<forall>x. m = Some (Inr x) \<longrightarrow> P (f x))"
  by (auto simp: res_bind_def split: option.splits sum.splits)

section \<open>Indexing that can panic\<close>

definition nth_opt :: "'a list \<Rightarrow> nat \<Rightarrow> 'a option" where
  "nth_opt xs i = (if i < length xs then Some (xs ! i) else None)"

lemma nth_opt_Some [simp]: "i < length xs \<Longrightarrow> nth_opt xs i = Some (xs ! i)"
  by (simp add: nth_opt_def)

lemma nth_opt_None [simp]: "length xs \<le> i \<Longrightarrow> nth_opt xs i = None"
  by (simp add: nth_opt_def)

lemma nth_opt_eq_Some: "nth_opt xs i = Some x \<longleftrightarrow> i < length xs \<and> xs ! i = x"
  by (auto simp: nth_opt_def)

lemma nth_list_update_if: "j < length xs \<Longrightarrow> xs[i := x] ! j = (if i = j then x else xs ! j)"
  by auto

lemma find_SomeD: "find P xs = Some x \<Longrightarrow> x \<in> set xs \<and> P x"
  by (induction xs) (auto split: if_splits)

section \<open>Modular positions\<close>

lemma mod_add_less: "a < (n::nat) \<Longrightarrow> b < n \<Longrightarrow> (a + b) mod n = (if a + b < n then a + b else a + b - n)"
  by (auto simp: le_mod_geq)

lemma Suc_mod_cases: "p < (n::nat) \<Longrightarrow> Suc p mod n = (if Suc p = n then 0 else Suc p)"
  by auto

end
