(* ===== verification/Tw_Timer.thy ===== *)
theory Tw_Timer
  imports Prelude
begin

text \<open>
  The hierarchical timer wheel of \<open>vpp-plugin/src/vppinfra/tw_timer.rs\<close>: a pool of timer
  entries (a \<open>Slab\<close>) linked into one doubly linked list per slot of each level.

  The \<open>Slab\<close> of the third-party crate \<open>slab\<close> is a map from keys to entries; which vacant key an
  insertion returns is the crate's choice, so every operation that inserts takes that key as
  an argument.  The theorems assume of it what the crate documents: the key is vacant (and
  below \<open>u32::MAX\<close>, which the code silently relies on when it narrows keys to \<open>u32\<close>).

  \<open>NUM_LEVELS\<close> and \<open>NUM_SLOTS\<close> are const generics of the code; here they are the record
  \<open>wheel_dims\<close>.  An operation returns \<open>None\<close> where the code panics (vacant or out-of-range index,
  \<open>unreachable!()\<close>, overflow); a loop along a list that never meets \<open>EMPTY_INDEX\<close> is also
  \<open>None\<close>.
\<close>

section \<open>State\<close>

definition EMPTY_INDEX :: nat where
  "EMPTY_INDEX = U32_MAX"

datatype 'c start_timer_error = Expired 'c

datatype 'c timer_entry_data =
    Head
  | Timer (entry_expire_time: nat) (entry_context: 'c)

record 'c timer_entry =
  te_next :: nat
  te_previous :: nat
  te_data :: "'c timer_entry_data"

record level =
  slots :: "nat list"
  position :: nat

record wheel_dims =
  num_levels :: nat
  num_slots :: nat

record 'c timer_wheel =
  timers :: "nat \<rightharpoonup> 'c timer_entry"
  levels :: "level list"
  current_time :: nat

section \<open>Operations\<close>

definition level_position :: "'c timer_wheel \<Rightarrow> nat \<Rightarrow> nat option" where
  "level_position w l = map_option position (nth_opt (levels w) l)"

definition slot_head :: "'c timer_wheel \<Rightarrow> nat \<Rightarrow> nat \<Rightarrow> nat option" where
  "slot_head w l s = Option.bind (nth_opt (levels w) l) (\<lambda>lv. nth_opt (slots lv) s)"

definition uninit_wheel :: "wheel_dims \<Rightarrow> 'c timer_wheel" where
  "uninit_wheel d = \<lparr>timers = Map.empty,
     levels = replicate (num_levels d) \<lparr>slots = replicate (num_slots d) EMPTY_INDEX, position = 0\<rparr>,
     current_time = 0\<rparr>"

text \<open>The second loop of \<open>init\<close>: one head entry per slot; \<open>keys i\<close> is the key of the \<open>i\<close>-th insertion.\<close>

fun init_heads :: "(nat \<Rightarrow> nat) \<Rightarrow> nat \<Rightarrow> (nat \<times> nat) list \<Rightarrow> 'c timer_wheel \<Rightarrow> 'c timer_wheel" where
  "init_heads keys i [] w = w"
| "init_heads keys i ((l, s) # ps) w =
     init_heads keys (Suc i) ps
       (w\<lparr>timers := (timers w)(keys i \<mapsto>
            \<lparr>te_next = EMPTY_INDEX, te_previous = EMPTY_INDEX, te_data = Head\<rparr>),
          levels := (levels w)[l := (levels w ! l)\<lparr>slots :=
            (slots (levels w ! l))[s := keys i mod 2 ^ 32]\<rparr>]\<rparr>)"

definition init :: "wheel_dims \<Rightarrow> (nat \<Rightarrow> nat) \<Rightarrow> 'c timer_wheel" where
  "init d keys = init_heads keys 0 (List.product [0..<num_levels d] [0..<num_slots d]) (uninit_wheel d)"

fun choose_slot_loop :: "wheel_dims \<Rightarrow> 'c timer_wheel \<Rightarrow> nat \<Rightarrow> nat \<Rightarrow> nat \<Rightarrow> nat list \<Rightarrow> (nat \<times> nat) option" where
  "choose_slot_loop d w delta lv slot [] = Some (lv, slot)"
| "choose_slot_loop d w delta lv slot (l # ls) = do {
     hi \<leftarrow> checked_pow U64_MAX (num_slots d) (l + 1);
     if delta < hi then do {
       p \<leftarrow> level_position w l;
       lo \<leftarrow> checked_pow U64_MAX (num_slots d) l;
       q \<leftarrow> checked_div delta lo;
       s \<leftarrow> checked_mod (saturating_sub (p + q) 1) (num_slots d);
       Some (l, s)
     } else choose_slot_loop d w delta lv slot ls
   }"

definition choose_slot :: "wheel_dims \<Rightarrow> 'c timer_wheel \<Rightarrow> nat \<Rightarrow> (nat \<times> nat) option" where
  "choose_slot d w delta = do {
     lv \<leftarrow> checked_sub (num_levels d) 1;
     p \<leftarrow> level_position w lv;
     s0 \<leftarrow> checked_sub (p + num_slots d) 1;
     s \<leftarrow> checked_mod s0 (num_slots d);
     choose_slot_loop d w delta lv s [0..<num_levels d]
   }"

definition start_timer_unchecked :: "wheel_dims \<Rightarrow> 'c timer_wheel \<Rightarrow> nat \<Rightarrow> 'c timer_wheel option" where
  "start_timer_unchecked d w index = do {
     timer \<leftarrow> timers w index;
     delta \<leftarrow> (case te_data timer of
                Timer expire_time _ \<Rightarrow> checked_sub expire_time (current_time w)
              | Head \<Rightarrow> None);
     (l, s) \<leftarrow> choose_slot d w delta;
     h \<leftarrow> slot_head w l s;
     head \<leftarrow> timers w h;
     let old_head_next = te_next head;
     let w1 = w\<lparr>timers := (timers w)(h \<mapsto> head\<lparr>te_next := index\<rparr>)\<rparr>;
     t1 \<leftarrow> timers w1 index;
     let w2 = w1\<lparr>timers := (timers w1)(index \<mapsto> t1\<lparr>te_next := old_head_next\<rparr>)\<rparr>;
     t2 \<leftarrow> timers w2 index;
     let w3 = w2\<lparr>timers := (timers w2)(index \<mapsto> t2\<lparr>te_previous := h\<rparr>)\<rparr>;
     if old_head_next \<noteq> EMPTY_INDEX then do {
       n \<leftarrow> timers w3 old_head_next;
       Some (w3\<lparr>timers := (timers w3)(old_head_next \<mapsto> n\<lparr>te_previous := index\<rparr>)\<rparr>)
     } else Some w3
   }"

definition new_entry :: "nat \<Rightarrow> 'c \<Rightarrow> 'c timer_entry" where
  "new_entry expire_time c =
     \<lparr>te_next = EMPTY_INDEX, te_previous = EMPTY_INDEX, te_data = Timer expire_time c\<rparr>"

definition start_timer :: "wheel_dims \<Rightarrow> nat \<Rightarrow> nat \<Rightarrow> 'c \<Rightarrow> 'c timer_wheel \<Rightarrow> (nat \<times> 'c timer_wheel) option" where
  "start_timer d key interval c w = do {
     let expire_time = saturating_add U64_MAX (current_time w) interval;
     let handle = key mod 2 ^ 32;
     w' \<leftarrow> start_timer_unchecked d (w\<lparr>timers := (timers w)(key \<mapsto> new_entry expire_time c)\<rparr>) handle;
     Some (handle, w')
   }"

definition start_timer_absolute ::
  "wheel_dims \<Rightarrow> nat \<Rightarrow> nat \<Rightarrow> 'c \<Rightarrow> 'c timer_wheel
    \<Rightarrow> (('c start_timer_error + nat) \<times> 'c timer_wheel) option" where
  "start_timer_absolute d key expire_time c w =
     (if expire_time \<le> current_time w then Some (Inl (Expired c), w)
      else do {
        let handle = key mod 2 ^ 32;
        w' \<leftarrow> start_timer_unchecked d (w\<lparr>timers := (timers w)(key \<mapsto> new_entry expire_time c)\<rparr>) handle;
        Some (Inr handle, w')
      })"

definition stop_timer :: "nat \<Rightarrow> 'c timer_wheel \<Rightarrow> ('c option \<times> 'c timer_wheel) option" where
  "stop_timer handle w =
     (case timers w handle of
        None \<Rightarrow> Some (None, w)
      | Some timer \<Rightarrow>
          (case te_data timer of
             Head \<Rightarrow> Some (None, w)
           | Timer _ c \<Rightarrow> do {
               let timer_next = te_next timer;
               let timer_previous = te_previous timer;
               p \<leftarrow> timers w timer_previous;
               let w1 = w\<lparr>timers := (timers w)(timer_previous \<mapsto> p\<lparr>te_next := timer_next\<rparr>)\<rparr>;
               w2 \<leftarrow> (if timer_next \<noteq> EMPTY_INDEX then do {
                        n \<leftarrow> timers w1 timer_next;
                        Some (w1\<lparr>timers := (timers w1)(timer_next \<mapsto> n\<lparr>te_previous := timer_previous\<rparr>)\<rparr>)
                      } else Some w1);
               removed \<leftarrow> timers w2 handle;
               case te_data removed of
                 Timer _ c' \<Rightarrow> Some (Some c', w2\<lparr>timers := (timers w2)(handle := None)\<rparr>)
               | Head \<Rightarrow> None
             }))"

text \<open>The \<open>while\<close> loop of \<open>process_level\<close> over the list taken out of the current slot.\<close>

partial_function (option) process_slot ::
  "wheel_dims \<Rightarrow> nat \<Rightarrow> 'c list \<Rightarrow> 'c timer_wheel \<Rightarrow> ('c list \<times> 'c timer_wheel) option" where
  "process_slot d timer_index expired_contexts w =
     (if timer_index = EMPTY_INDEX then Some (expired_contexts, w)
      else Option.bind (timers w timer_index) (\<lambda>timer.
        (case te_data timer of
           Head \<Rightarrow> None
         | Timer expire_time c \<Rightarrow>
             (if expire_time \<le> current_time w then
                process_slot d (te_next timer) (expired_contexts @ [c])
                  (w\<lparr>timers := (timers w)(timer_index := None)\<rparr>)
              else Option.bind (start_timer_unchecked d w timer_index)
                (\<lambda>w'. process_slot d (te_next timer) expired_contexts w')))))"

declare process_slot.simps [code]

definition advance_position :: "wheel_dims \<Rightarrow> nat \<Rightarrow> 'c timer_wheel \<Rightarrow> 'c timer_wheel option" where
  "advance_position d l w = do {
     lv \<leftarrow> nth_opt (levels w) l;
     p \<leftarrow> checked_mod (position lv + 1) (num_slots d);
     Some (w\<lparr>levels := (levels w)[l := lv\<lparr>position := p\<rparr>]\<rparr>)
   }"

function process_level :: "wheel_dims \<Rightarrow> nat \<Rightarrow> 'c timer_wheel \<Rightarrow> ('c list \<times> 'c timer_wheel) option" where
  "process_level d l w =
     (if num_levels d \<le> l then Some ([], w)
      else do {
        slot \<leftarrow> level_position w l;
        h \<leftarrow> slot_head w l slot;
        head \<leftarrow> timers w h;
        (expired, w1) \<leftarrow> process_slot d (te_next head) []
            (w\<lparr>timers := (timers w)(h \<mapsto> head\<lparr>te_next := EMPTY_INDEX\<rparr>)\<rparr>);
        w2 \<leftarrow> advance_position d l w1;
        p \<leftarrow> level_position w2 l;
        if p = 0 then do {
          (cascaded, w3) \<leftarrow> process_level d (l + 1) w2;
          Some (expired @ cascaded, w3)
        } else Some (expired, w2)
      })"
  by pat_completeness auto
termination
  by (relation "measure (\<lambda>(d, l, w). num_levels d - l)") auto

declare process_level.simps [simp del]

definition tick :: "wheel_dims \<Rightarrow> 'c timer_wheel \<Rightarrow> ('c list \<times> 'c timer_wheel) option" where
  "tick d w = do {
     t \<leftarrow> checked_add U64_MAX (current_time w) 1;
     process_level d 0 (w\<lparr>current_time := t\<rparr>)
   }"

fun expire_timers :: "wheel_dims \<Rightarrow> nat \<Rightarrow> 'c timer_wheel \<Rightarrow> ('c list \<times> 'c timer_wheel) option" where
  "expire_timers d 0 w = Some ([], w)"
| "expire_timers d (Suc n) w = do {
     (e1, w1) \<leftarrow> tick d w;
     (e2, w2) \<leftarrow> expire_timers d n w1;
     Some (e1 @ e2, w2)
   }"

text \<open>The inner loop of \<open>next_expiration\<close>: the least expire time along one slot's list.\<close>

partial_function (option) min_expire_from :: "'c timer_wheel \<Rightarrow> nat \<Rightarrow> nat option \<Rightarrow> nat option option" where
  "min_expire_from w timer_index m =
     (if timer_index = EMPTY_INDEX then Some m
      else Option.bind (timers w timer_index) (\<lambda>timer.
        (case te_data timer of
           Head \<Rightarrow> None
         | Timer expire_time c \<Rightarrow>
             min_expire_from w (te_next timer)
               (case m of None \<Rightarrow> Some expire_time | Some p \<Rightarrow> Some (min p expire_time)))))"

declare min_expire_from.simps [code]

fun next_expiration_slots :: "wheel_dims \<Rightarrow> 'c timer_wheel \<Rightarrow> (nat \<times> nat) list \<Rightarrow> nat option option" where
  "next_expiration_slots d w [] = Some None"
| "next_expiration_slots d w ((l, i) # ps) = do {
     start_slot \<leftarrow> level_position w l;
     slot \<leftarrow> checked_mod (start_slot + i) (num_slots d);
     h \<leftarrow> slot_head w l slot;
     head \<leftarrow> timers w h;
     if te_next head \<noteq> EMPTY_INDEX then min_expire_from w (te_next head) None
     else next_expiration_slots d w ps
   }"

definition next_expiration :: "wheel_dims \<Rightarrow> 'c timer_wheel \<Rightarrow> nat option option" where
  "next_expiration d w = next_expiration_slots d w (List.product [0..<num_levels d] [0..<num_slots d])"

end
