(* ===== verification/Slot_Wheel.thy ===== *)
theory Slot_Wheel
  imports Tw_Timer
begin

text \<open>
  The timer wheel without its pointers: every slot holds a list of (handle, expire time,
  context) triples.  This is the middle layer between the entry pool of \<open>Tw_Timer\<close> and the
  statements about which timers fire when; \<open>Tw_Timer_Refine\<close> shows that the code's operations
  compute exactly the operations of this theory and never panic.
\<close>

record 'c slot_wheel =
  sw_slots :: "nat \<Rightarrow> nat \<Rightarrow> (nat \<times> nat \<times> 'c) list"
  sw_pos :: "nat \<Rightarrow> nat"
  sw_time :: nat

definition dims_ok :: "wheel_dims \<Rightarrow> bool" where
  "dims_ok d \<longleftrightarrow> 0 < num_levels d \<and> 0 < num_slots d \<and> num_slots d ^ num_levels d \<le> U64_MAX"

definition place :: "wheel_dims \<Rightarrow> (nat \<Rightarrow> nat) \<Rightarrow> nat \<Rightarrow> nat \<times> nat" where
  "place d pos delta =
     (case find (\<lambda>l. delta < num_slots d ^ (l + 1)) [0..<num_levels d] of
        Some l \<Rightarrow> (l, (pos l + delta div num_slots d ^ l - 1) mod num_slots d)
      | None \<Rightarrow> (num_levels d - 1, (pos (num_levels d - 1) + num_slots d - 1) mod num_slots d))"

definition sw_put :: "nat \<Rightarrow> nat \<Rightarrow> (nat \<times> nat \<times> 'c) list \<Rightarrow> 'c slot_wheel \<Rightarrow> 'c slot_wheel" where
  "sw_put l s xs S = S\<lparr>sw_slots := (sw_slots S)(l := (sw_slots S l)(s := xs))\<rparr>"

definition sw_add :: "wheel_dims \<Rightarrow> nat \<times> nat \<times> 'c \<Rightarrow> 'c slot_wheel \<Rightarrow> 'c slot_wheel" where
  "sw_add d x S =
     (let (l, s) = place d (sw_pos S) (fst (snd x) - sw_time S)
      in sw_put l s (x # sw_slots S l s) S)"

definition sw_remove :: "nat \<Rightarrow> 'c slot_wheel \<Rightarrow> 'c slot_wheel" where
  "sw_remove h S = S\<lparr>sw_slots := \<lambda>l s. filter (\<lambda>x. fst x \<noteq> h) (sw_slots S l s)\<rparr>"

fun sw_drain :: "wheel_dims \<Rightarrow> (nat \<times> nat \<times> 'c) list \<Rightarrow> 'c list \<Rightarrow> 'c slot_wheel \<Rightarrow> 'c list \<times> 'c slot_wheel" where
  "sw_drain d [] expired S = (expired, S)"
| "sw_drain d ((h, e, c) # xs) expired S =
     (if e \<le> sw_time S then sw_drain d xs (expired @ [c]) S
      else sw_drain d xs expired (sw_add d (h, e, c) S))"

definition sw_advance :: "wheel_dims \<Rightarrow> nat \<Rightarrow> 'c slot_wheel \<Rightarrow> 'c slot_wheel" where
  "sw_advance d l S = S\<lparr>sw_pos := (sw_pos S)(l := (sw_pos S l + 1) mod num_slots d)\<rparr>"

text \<open>One level: empty its current slot, expire or re-add what was there, and move on.\<close>

definition sw_level_step :: "wheel_dims \<Rightarrow> nat \<Rightarrow> 'c slot_wheel \<Rightarrow> 'c list \<times> 'c slot_wheel" where
  "sw_level_step d l S =
     (let (expired, S') = sw_drain d (sw_slots S l (sw_pos S l)) [] (sw_put l (sw_pos S l) [] S)
      in (expired, sw_advance d l S'))"

function sw_process :: "wheel_dims \<Rightarrow> nat \<Rightarrow> 'c slot_wheel \<Rightarrow> 'c list \<times> 'c slot_wheel" where
  "sw_process d l S =
     (if num_levels d \<le> l then ([], S)
      else let (expired, S1) = sw_level_step d l S
           in if sw_pos S1 l = 0
              then let (cascaded, S2) = sw_process d (l + 1) S1 in (expired @ cascaded, S2)
              else (expired, S1))"
  by pat_completeness auto
termination
  by (relation "measure (\<lambda>(d, l, w). num_levels d - l)") auto

declare sw_process.simps [simp del]

definition sw_tick :: "wheel_dims \<Rightarrow> 'c slot_wheel \<Rightarrow> 'c list \<times> 'c slot_wheel" where
  "sw_tick d S = sw_process d 0 (S\<lparr>sw_time := sw_time S + 1\<rparr>)"

definition sw_new :: "'c slot_wheel" where
  "sw_new = \<lparr>sw_slots = (\<lambda>_ _. []), sw_pos = (\<lambda>_. 0), sw_time = 0\<rparr>"

definition sw_next_expiration :: "wheel_dims \<Rightarrow> 'c slot_wheel \<Rightarrow> nat option" where
  "sw_next_expiration d S =
     (case find (\<lambda>(l, i). sw_slots S l ((sw_pos S l + i) mod num_slots d) \<noteq> [])
             (List.product [0..<num_levels d] [0..<num_slots d]) of
        None \<Rightarrow> None
      | Some (l, i) \<Rightarrow> Some (Min ((fst \<circ> snd) ` set (sw_slots S l ((sw_pos S l + i) mod num_slots d)))))"

section \<open>Frame facts\<close>

lemma sw_put_simps [simp]:
  "sw_slots (sw_put l s xs S) l' s' = (if l' = l \<and> s' = s then xs else sw_slots S l' s')"
  "sw_pos (sw_put l s xs S) = sw_pos S" "sw_time (sw_put l s xs S) = sw_time S"
  by (auto simp: sw_put_def)

lemma sw_add_pos [simp]: "sw_pos (sw_add d x S) = sw_pos S" "sw_time (sw_add d x S) = sw_time S"
  by (auto simp: sw_add_def Let_def split: prod.splits)

lemma sw_add_slots:
  "sw_slots (sw_add d x S) l s =
     (if (l, s) = place d (sw_pos S) (fst (snd x) - sw_time S) then x # sw_slots S l s else sw_slots S l s)"
  by (auto simp: sw_add_def Let_def split: prod.splits)

lemma sw_drain_frame [simp]:
  "sw_pos (snd (sw_drain d xs ex S)) = sw_pos S" "sw_time (snd (sw_drain d xs ex S)) = sw_time S"
  by (induction d xs ex S rule: sw_drain.induct) auto

lemma sw_advance_simps [simp]:
  "sw_slots (sw_advance d l S) = sw_slots S" "sw_time (sw_advance d l S) = sw_time S"
  "sw_pos (sw_advance d l S) l' = (if l' = l then (sw_pos S l + 1) mod num_slots d else sw_pos S l')"
  by (auto simp: sw_advance_def)

lemma sw_level_step_frame [simp]:
  "sw_time (snd (sw_level_step d l S)) = sw_time S"
  "sw_pos (snd (sw_level_step d l S)) l' =
     (if l' = l then (sw_pos S l + 1) mod num_slots d else sw_pos S l')"
  by (auto simp: sw_level_step_def Let_def split_beta)

lemma sw_process_time [simp]: "sw_time (snd (sw_process d l S)) = sw_time S"
proof (induction d l S rule: sw_process.induct)
  case (1 d l S)
  show ?case
  proof (cases "num_levels d \<le> l")
    case True
    then show ?thesis by (simp add: sw_process.simps)
  next
    case False
    have "sw_time (snd (sw_level_step d l S)) = sw_time S" by simp
    with False 1 show ?thesis
      by (subst sw_process.simps) (auto simp: split_beta Let_def prod_eq_iff)
  qed
qed

lemma sw_tick_time [simp]: "sw_time (snd (sw_tick d S)) = sw_time S + 1"
  by (simp add: sw_tick_def)

lemma find_Some_least:
  "find P [0..<n] = Some l \<longleftrightarrow> l < n \<and> P l \<and> (\<forall>k<l. \<not> P k)"
  by (force simp: find_Some_iff)

lemma find_None_upt: "find P [0..<n] = None \<longleftrightarrow> (\<forall>l<n. \<not> P l)"
  by (auto simp: find_None_iff)

lemma place_cases:
  assumes "place d pos delta = (l, s)"
  obtains (near) "l < num_levels d" "delta < num_slots d ^ (l + 1)"
      "\<forall>k<l. num_slots d ^ (k + 1) \<le> delta" "s = (pos l + delta div num_slots d ^ l - 1) mod num_slots d"
    | (far) "\<forall>k<num_levels d. num_slots d ^ (k + 1) \<le> delta" "l = num_levels d - 1"
      "s = (pos l + num_slots d - 1) mod num_slots d"
proof (cases "find (\<lambda>l. delta < num_slots d ^ (l + 1)) [0..<num_levels d]")
  case None
  then have "\<forall>k<num_levels d. num_slots d ^ (k + 1) \<le> delta"
    by (simp add: find_None_upt not_less)
  with None assms far show ?thesis by (auto simp: place_def)
next
  case (Some k)
  then have "k < num_levels d" "delta < num_slots d ^ (k + 1)"
    "\<forall>j<k. num_slots d ^ (j + 1) \<le> delta"
    by (auto simp: find_Some_least not_less)
  with Some assms near show ?thesis by (auto simp: place_def)
qed

lemma place_bounds:
  assumes "dims_ok d" "place d pos delta = (l, s)"
  shows "l < num_levels d" "s < num_slots d"
  using assms by (auto elim!: place_cases simp: dims_ok_def)

end
