(* ===== verification/Tw_Timer_Refine.thy ===== *)
theory Tw_Timer_Refine
  imports Slot_Wheel
begin

text \<open>
  The entry pool implements the slot lists: in every state related to a \<open>slot_wheel\<close> each
  operation of \<open>Tw_Timer\<close> returns (no index is vacant, no \<open>unreachable!()\<close> is reached, every
  list walk ends) and its result is related to the result of the slot operation.
\<close>

section \<open>Doubly linked lists in the entry pool\<close>

text \<open>
  \<open>chain T i xs\<close>: following \<open>next\<close> from \<open>i\<close> meets exactly the entries \<open>xs\<close> and then
  \<open>EMPTY_INDEX\<close>; \<open>backlink T p xs\<close>: their \<open>previous\<close> fields lead back to \<open>p\<close>.
\<close>

fun chain :: "(nat \<rightharpoonup> 'c timer_entry) \<Rightarrow> nat \<Rightarrow> (nat \<times> nat \<times> 'c) list \<Rightarrow> bool" where
  "chain T i [] \<longleftrightarrow> i = EMPTY_INDEX"
| "chain T i ((h, e, c) # xs) \<longleftrightarrow>
     i = h \<and> (\<exists>t. T h = Some t \<and> te_data t = Timer e c \<and> chain T (te_next t) xs)"

fun backlink :: "(nat \<rightharpoonup> 'c timer_entry) \<Rightarrow> nat \<Rightarrow> (nat \<times> nat \<times> 'c) list \<Rightarrow> bool" where
  "backlink T p [] \<longleftrightarrow> True"
| "backlink T p ((h, e, c) # xs) \<longleftrightarrow> (\<exists>t. T h = Some t \<and> te_previous t = p) \<and> backlink T h xs"

definition handles :: "(nat \<times> nat \<times> 'c) list \<Rightarrow> nat set" where
  "handles xs = fst ` set xs"

definition payload :: "(nat \<rightharpoonup> 'c timer_entry) \<Rightarrow> nat \<times> nat \<times> 'c \<Rightarrow> bool" where
  "payload T x \<longleftrightarrow> (\<exists>t. T (fst x) = Some t \<and> te_data t = Timer (fst (snd x)) (snd (snd x)))"

lemma handles_simps [simp]:
  "handles [] = {}" "handles (x # xs) = insert (fst x) (handles xs)"
  "handles (xs @ ys) = handles xs \<union> handles ys"
  by (auto simp: handles_def)

lemma chain_frame:
  "chain T i xs \<Longrightarrow> (\<And>h. h \<in> handles xs \<Longrightarrow>
      map_option te_next (T' h) = map_option te_next (T h) \<and>
      map_option te_data (T' h) = map_option te_data (T h)) \<Longrightarrow> chain T' i xs"
proof (induction T i xs rule: chain.induct)
  case (2 T i h e c xs)
  then obtain t where t: "T h = Some t" "te_data t = Timer e c" "chain T (te_next t) xs" "i = h"
    by auto
  from "2.prems"(2)[of h] t obtain t' where "T' h = Some t'" "te_next t' = te_next t"
    "te_data t' = te_data t" by auto
  with t "2.IH"[of t] "2.prems"(2) show ?case by auto
qed simp

lemma backlink_frame:
  "backlink T p xs \<Longrightarrow> (\<And>h. h \<in> handles xs \<Longrightarrow>
      map_option te_previous (T' h) = map_option te_previous (T h)) \<Longrightarrow> backlink T' p xs"
proof (induction T p xs rule: backlink.induct)
  case (2 T p h e c xs)
  from "2.prems" obtain t where "T h = Some t" "te_previous t = p" by auto
  with "2.prems"(2)[of h] obtain t' where "T' h = Some t'" "te_previous t' = p" by auto
  with 2 show ?case by auto
qed simp

lemma chain_payload: "chain T i xs \<Longrightarrow> x \<in> set xs \<Longrightarrow> payload T x"
  by (induction T i xs rule: chain.induct) (auto simp: payload_def)

lemma chain_data:
  "chain T i xs \<Longrightarrow> h \<in> handles xs \<Longrightarrow> \<exists>t e c. T h = Some t \<and> te_data t = Timer e c"
  by (induction T i xs rule: chain.induct) auto

lemma chain_det: "chain T i xs \<Longrightarrow> chain T i ys \<Longrightarrow> \<forall>h\<in>handles xs. h \<noteq> EMPTY_INDEX \<Longrightarrow>
    \<forall>h\<in>handles ys. h \<noteq> EMPTY_INDEX \<Longrightarrow> xs = ys"
proof (induction T i xs arbitrary: ys rule: chain.induct)
  case (1 T i)
  then show ?case by (cases ys) auto
next
  case (2 T i h e c xs)
  then show ?case by (cases ys) auto
qed

section \<open>The relation between the two layers\<close>

definition head_ix :: "'c timer_wheel \<Rightarrow> nat \<Rightarrow> nat \<Rightarrow> nat" where
  "head_ix w l s = slots (levels w ! l) ! s"

lemma head_ix_frame [simp]:
  "head_ix (w\<lparr>timers := T\<rparr>) = head_ix w" "head_ix (w\<lparr>current_time := n\<rparr>) = head_ix w"
  by (auto simp: head_ix_def fun_eq_iff)

definition shape_rel :: "wheel_dims \<Rightarrow> 'c timer_wheel \<Rightarrow> 'c slot_wheel \<Rightarrow> bool" where
  "shape_rel d w S \<longleftrightarrow> length (levels w) = num_levels d \<and> current_time w = sw_time S \<and>
     (\<forall>l<num_levels d. length (slots (levels w ! l)) = num_slots d \<and>
        position (levels w ! l) = sw_pos S l \<and> sw_pos S l < num_slots d)"

text \<open>
  \<open>R\<close> are entries of the pool that are in no slot list at the moment: the timer being
  started, or the timers of the slot that \<open>process_level\<close> has taken out.
\<close>

definition slot_linked ::
  "(nat \<rightharpoonup> 'c timer_entry) \<Rightarrow> nat \<Rightarrow> (nat \<times> nat \<times> 'c) list \<Rightarrow> bool" where
  "slot_linked T h xs \<longleftrightarrow>
     (\<exists>t. T h = Some t \<and> te_data t = Head \<and> chain T (te_next t) xs \<and> backlink T h xs)"

definition heads_distinct :: "wheel_dims \<Rightarrow> (nat \<Rightarrow> nat \<Rightarrow> nat) \<Rightarrow> bool" where
  "heads_distinct d H \<longleftrightarrow>
     (\<forall>l<num_levels d. \<forall>s<num_slots d. \<forall>l'<num_levels d. \<forall>s'<num_slots d.
        H l s = H l' s' \<longrightarrow> l = l' \<and> s = s')"

definition slots_disjoint :: "wheel_dims \<Rightarrow> (nat \<Rightarrow> nat \<Rightarrow> (nat \<times> nat \<times> 'c) list) \<Rightarrow> bool" where
  "slots_disjoint d G \<longleftrightarrow>
     (\<forall>l<num_levels d. \<forall>s<num_slots d. \<forall>l'<num_levels d. \<forall>s'<num_slots d.
        \<forall>i. i \<in> handles (G l s) \<longrightarrow> i \<in> handles (G l' s') \<longrightarrow> l = l' \<and> s = s')"

definition flight_ok ::
  "wheel_dims \<Rightarrow> (nat \<rightharpoonup> 'c timer_entry) \<Rightarrow> (nat \<times> nat \<times> 'c) list
    \<Rightarrow> (nat \<Rightarrow> nat \<Rightarrow> (nat \<times> nat \<times> 'c) list) \<Rightarrow> bool" where
  "flight_ok d T R G \<longleftrightarrow> distinct (map fst R) \<and> (\<forall>x\<in>set R. payload T x) \<and>
     (\<forall>l<num_levels d. \<forall>s<num_slots d. handles (G l s) \<inter> handles R = {})"

definition pool_ok ::
  "wheel_dims \<Rightarrow> (nat \<Rightarrow> nat \<Rightarrow> nat) \<Rightarrow> (nat \<rightharpoonup> 'c timer_entry) \<Rightarrow> (nat \<times> nat \<times> 'c) list
    \<Rightarrow> (nat \<Rightarrow> nat \<Rightarrow> (nat \<times> nat \<times> 'c) list) \<Rightarrow> bool" where
  "pool_ok d H T R G \<longleftrightarrow> (\<forall>i\<in>dom T. i < EMPTY_INDEX \<and>
     (i \<in> handles R \<or> (\<exists>l<num_levels d. \<exists>s<num_slots d. i = H l s \<or> i \<in> handles (G l s))))"

definition linked ::
  "wheel_dims \<Rightarrow> (nat \<Rightarrow> nat \<Rightarrow> nat) \<Rightarrow> (nat \<rightharpoonup> 'c timer_entry) \<Rightarrow> (nat \<times> nat \<times> 'c) list
    \<Rightarrow> (nat \<Rightarrow> nat \<Rightarrow> (nat \<times> nat \<times> 'c) list) \<Rightarrow> bool" where
  "linked d H T R G \<longleftrightarrow>
     (\<forall>l<num_levels d. \<forall>s<num_slots d. slot_linked T (H l s) (G l s)) \<and>
     heads_distinct d H \<and> slots_disjoint d G \<and> flight_ok d T R G \<and> pool_ok d H T R G"

definition wheel_rel :: "wheel_dims \<Rightarrow> 'c timer_wheel \<Rightarrow> (nat \<times> nat \<times> 'c) list \<Rightarrow> 'c slot_wheel \<Rightarrow> bool" where
  "wheel_rel d w R S \<longleftrightarrow> dims_ok d \<and> shape_rel d w S \<and> linked d (head_ix w) (timers w) R (sw_slots S)"

lemma linked_slot:
  assumes "linked d H T R G" "l < num_levels d" "s < num_slots d"
  obtains t where "T (H l s) = Some t" "te_data t = Head" "chain T (te_next t) (G l s)" "backlink T (H l s) (G l s)"
proof -
  from assms have "slot_linked T (H l s) (G l s)" by (simp add: linked_def)
  then show thesis using that unfolding slot_linked_def by blast
qed

lemma linked_small: "linked d H T R G \<Longrightarrow> T i = Some t \<Longrightarrow> i < EMPTY_INDEX"
  by (auto simp: linked_def pool_ok_def dom_def)

lemma linked_disj:
  "linked d H T R G \<Longrightarrow> l < num_levels d \<Longrightarrow> s < num_slots d \<Longrightarrow> i \<in> handles (G l s) \<Longrightarrow> i \<notin> handles R"
  unfolding linked_def flight_ok_def by (meson disjoint_iff)

lemma linked_cross:
  "linked d H T R G \<Longrightarrow> l < num_levels d \<Longrightarrow> s < num_slots d \<Longrightarrow> l' < num_levels d \<Longrightarrow> s' < num_slots d \<Longrightarrow>
   i \<in> handles (G l s) \<Longrightarrow> i \<in> handles (G l' s') \<Longrightarrow> l = l' \<and> s = s'"
  by (simp add: linked_def slots_disjoint_def)

lemma linked_head_inj:
  "linked d H T R G \<Longrightarrow> l < num_levels d \<Longrightarrow> s < num_slots d \<Longrightarrow> l' < num_levels d \<Longrightarrow> s' < num_slots d \<Longrightarrow>
   H l s = H l' s' \<Longrightarrow> l = l' \<and> s = s'"
  by (simp add: linked_def heads_distinct_def)

lemma linked_in_slot:
  assumes "linked d H T R G" "l < num_levels d" "s < num_slots d" "i \<in> handles (G l s)"
  obtains t e c where "T i = Some t" "te_data t = Timer e c"
  using assms by (meson chain_data linked_slot)

lemma linked_in_flight:
  assumes "linked d H T R G" "i \<in> handles R"
  obtains t e c where "T i = Some t" "te_data t = Timer e c"
  using assms by (auto simp: linked_def flight_ok_def payload_def handles_def)

lemma linked_head_not_timer:
  assumes "linked d H T R G" "l < num_levels d" "s < num_slots d"
  shows "H l s \<notin> handles R" "l' < num_levels d \<Longrightarrow> s' < num_slots d \<Longrightarrow> H l s \<notin> handles (G l' s')"
proof -
  from assms obtain t where t: "T (H l s) = Some t" "te_data t = Head" by (rule linked_slot)
  show "H l s \<notin> handles R"
  proof
    assume "H l s \<in> handles R"
    with assms(1) show False by (rule linked_in_flight) (use t in simp)
  qed
  show "H l s \<notin> handles (G l' s')" if "l' < num_levels d" "s' < num_slots d"
  proof
    assume "H l s \<in> handles (G l' s')"
    with assms(1) that show False by (rule linked_in_slot) (use t in simp)
  qed
qed

text \<open>A slot's list is untouched by a change to entries outside it.\<close>

lemma slot_linked_frame:
  "slot_linked T h xs \<Longrightarrow> (\<And>i. i = h \<or> i \<in> handles xs \<Longrightarrow> T' i = T i) \<Longrightarrow> slot_linked T' h xs"
  unfolding slot_linked_def by (metis chain_frame backlink_frame)

section \<open>Linking a timer into a slot\<close>

definition relink ::
  "nat \<Rightarrow> nat \<Rightarrow> 'c timer_entry \<Rightarrow> 'c timer_entry \<Rightarrow> (nat \<rightharpoonup> 'c timer_entry) \<Rightarrow> (nat \<rightharpoonup> 'c timer_entry)" where
  "relink hh h he t T = (\<lambda>i.
     if i = hh then Some (he\<lparr>te_next := h\<rparr>)
     else if i = h then Some (t\<lparr>te_next := te_next he, te_previous := hh\<rparr>)
     else if i = te_next he then map_option (\<lambda>n. n\<lparr>te_previous := h\<rparr>) (T i)
     else T i)"

lemma chain_first:
  assumes "chain T i xs" "xs \<noteq> []"
  shows "i \<in> handles xs" "i = fst (hd xs)"
proof -
  obtain h e c ys where "xs = (h, e, c) # ys" using assms(2) by (metis prod_cases3 list.exhaust)
  with assms(1) show "i \<in> handles xs" "i = fst (hd xs)" by auto
qed

lemma chain_none: "chain T EMPTY_INDEX xs \<Longrightarrow> \<forall>h\<in>handles xs. h < EMPTY_INDEX \<Longrightarrow> xs = []"
  by (cases xs) auto

lemma relink_chain:
  assumes "chain T i xs" "hh \<notin> handles xs" "h \<notin> handles xs"
  shows "chain (relink hh h he t T) i xs"
  using assms(1) by (rule chain_frame) (use assms(2,3) in \<open>auto simp: relink_def option.map_comp comp_def\<close>)

lemma relink_backlink:
  assumes "backlink T p xs" "hh \<notin> handles xs" "h \<notin> handles xs" "te_next he \<notin> handles xs"
  shows "backlink (relink hh h he t T) p xs"
  using assms(1) by (rule backlink_frame) (use assms(2,3,4) in \<open>auto simp: relink_def\<close>)

lemma chain_distinct:
  "chain T i xs \<Longrightarrow> \<forall>h\<in>handles xs. h < EMPTY_INDEX \<Longrightarrow> distinct (map fst xs)"
proof (induction xs arbitrary: i)
  case (Cons x xs)
  obtain h e c where x: "x = (h, e, c)" by (cases x)
  with Cons.prems obtain t where t: "T h = Some t" "chain T (te_next t) xs" by auto
  have "h \<notin> handles xs"
  proof
    assume "h \<in> handles xs"
    then obtain ys e' c' zs where xs: "xs = ys @ (h, e', c') # zs"
      unfolding handles_def by (metis imageE prod.collapse split_list)
    have suffix: "chain T (te_next t) (zs)" if "chain T j (us @ (h, e', c') # zs)" for j us
      using that t(1) by (induction us arbitrary: j) auto
    from t(2) xs have "chain T (te_next t) zs" using suffix by auto
    moreover have "chain T j us \<Longrightarrow> chain T j vs \<Longrightarrow> \<forall>h\<in>handles us. h < EMPTY_INDEX \<Longrightarrow>
        \<forall>h\<in>handles vs. h < EMPTY_INDEX \<Longrightarrow> us = vs" for j and us vs :: "(nat \<times> nat \<times> 'a) list"
      by (rule chain_det) auto
    ultimately have "xs = zs" using t(2) Cons.prems(2) x xs by (metis Un_iff handles_simps(2,3) insert_iff)
    then have "length xs = length zs" by simp
    with xs show False by simp
  qed
  with Cons t x show ?case by (auto simp: handles_def)
qed simp

text \<open>
  Putting the first in-flight timer at the front of a slot's list: the pool after the four
  field writes of \<open>start_timer_unchecked\<close> is again linked.
\<close>

lemma slot_linked_put:
  assumes he: "T hh = Some he" "te_data he = Head" "chain T (te_next he) xs" "backlink T hh xs"
    and t: "T h = Some t" "te_data t = Timer e c"
    and small: "\<forall>i\<in>handles xs. i < EMPTY_INDEX"
    and new: "h \<notin> handles xs" "hh \<notin> handles xs"
  shows "slot_linked (relink hh h he t T) hh ((h, e, c) # xs)"
proof -
  let ?T = "relink hh h he t T"
  have ne: "hh \<noteq> h" using he t by auto
  have Thh: "?T hh = Some (he\<lparr>te_next := h\<rparr>)" by (simp add: relink_def)
  have Th: "?T h = Some (t\<lparr>te_next := te_next he, te_previous := hh\<rparr>)" using ne by (simp add: relink_def)
  have ch: "chain ?T (te_next he) xs" using he(3) new by (auto intro: relink_chain)
  have bl: "backlink ?T h xs"
  proof (cases xs)
    case Nil
    then show ?thesis by simp
  next
    case (Cons x ys)
    obtain h1 e1 c1 where x: "x = (h1, e1, c1)" by (cases x)
    have n1: "te_next he = h1" and d: "distinct (map fst xs)"
      using he(3) Cons x chain_distinct[OF he(3) small] by auto
    from he(4) Cons x obtain t1 where "T h1 = Some t1" "backlink T h1 ys" by auto
    moreover have "h1 \<noteq> hh" "h1 \<noteq> h" "h1 \<notin> handles ys" "hh \<notin> handles ys" "h \<notin> handles ys"
      using new Cons x d by (auto simp: handles_def)
    ultimately show ?thesis using Cons x n1 by (auto simp: relink_def intro: relink_backlink[unfolded relink_def])
  qed
  show ?thesis using Thh Th ch bl he(2) t(2) by (auto simp: slot_linked_def)
qed

lemma linked_put:
  assumes lk: "linked d H T ((h, e, c) # R) G"
    and ls: "l < num_levels d" "s < num_slots d"
    and he: "T (H l s) = Some he" and t: "T h = Some t"
  defines "G' \<equiv> G(l := (G l)(s := (h, e, c) # G l s))"
  shows "linked d H (relink (H l s) h he t T) R G'"
proof -
  let ?T = "relink (H l s) h he t T"
  obtain he' where "T (H l s) = Some he'" "te_data he' = Head" "chain T (te_next he') (G l s)"
    "backlink T (H l s) (G l s)" using lk ls by (rule linked_slot)
  with he have heh: "te_data he = Head" "chain T (te_next he) (G l s)" "backlink T (H l s) (G l s)"
    by auto
  have td: "te_data t = Timer e c" and hR: "h \<notin> handles R" and dR: "distinct (map fst R)"
    and pay: "\<forall>x\<in>set R. payload T x"
    using lk t by (auto simp: linked_def flight_ok_def payload_def handles_def)
  have small: "\<forall>i\<in>handles (G l' s'). i < EMPTY_INDEX" if "l' < num_levels d" "s' < num_slots d" for l' s'
    using lk that by (meson linked_in_slot linked_small)
  have hG: "h \<notin> handles (G l' s')" if "l' < num_levels d" "s' < num_slots d" for l' s'
    using linked_disj[OF lk that] by auto
  have ne: "H l s \<noteq> h" using heh he t td by auto
  have first: "te_next he = EMPTY_INDEX \<or> te_next he \<in> handles (G l s)"
    using heh(2) chain_first by (cases "G l s = []") auto
  have emp: "T EMPTY_INDEX = None" using linked_small[OF lk] by fastforce
  have other: "?T i = T i" if "i \<noteq> H l s" "i \<noteq> h" "i \<notin> handles (G l s)" for i
    using that first emp by (auto simp: relink_def)

  have slots: "slot_linked ?T (H l' s') (G' l' s')" if l': "l' < num_levels d" "s' < num_slots d" for l' s'
  proof (cases "l' = l \<and> s' = s")
    case True
    then show ?thesis
      using slot_linked_put[where T = T, OF he heh t td small[OF ls] hG[OF ls]]
        linked_head_not_timer(2)[OF lk ls ls] by (simp add: G'_def)
  next
    case False
    have "slot_linked T (H l' s') (G l' s')" using lk l' by (simp add: linked_def)
    then have "slot_linked ?T (H l' s') (G l' s')"
    proof (rule slot_linked_frame)
      fix i assume i: "i = H l' s' \<or> i \<in> handles (G l' s')"
      have "i \<noteq> H l s"
        using i False linked_head_inj[OF lk l' ls] linked_head_not_timer(2)[OF lk ls l'] by auto
      moreover have "i \<noteq> h"
        using i hG[OF l'] linked_head_not_timer(1)[OF lk l'] by auto
      moreover have "i \<notin> handles (G l s)"
        using i False linked_cross[OF lk l' ls] linked_head_not_timer(2)[OF lk l' ls] by auto
      ultimately show "?T i = T i" by (rule other)
    qed
    with False show ?thesis by (auto simp: G'_def)
  qed
  have disj: "slots_disjoint d G'"
    unfolding slots_disjoint_def
  proof (intro allI impI)
    fix l1 s1 l2 s2 i
    assume b: "l1 < num_levels d" "s1 < num_slots d" "l2 < num_levels d" "s2 < num_slots d"
      and i: "i \<in> handles (G' l1 s1)" "i \<in> handles (G' l2 s2)"
    have pick: "i \<in> handles (G' l' s') \<Longrightarrow> i = h \<and> l' = l \<and> s' = s \<or> i \<in> handles (G l' s')" for l' s'
      by (auto simp: G'_def split: if_splits)
    show "l1 = l2 \<and> s1 = s2"
      using pick[OF i(1)] pick[OF i(2)] hG[OF b(1,2)] hG[OF b(3,4)] linked_cross[OF lk b] by auto
  qed
  have flight: "flight_ok d ?T R G'"
  proof -
    have "payload ?T x" if "x \<in> set R" for x
    proof -
      have "fst x \<in> handles R" using that by (auto simp: handles_def)
      then have "fst x \<noteq> H l s" "fst x \<noteq> h" "fst x \<notin> handles (G l s)"
        using hR linked_head_not_timer(1)[OF lk ls] linked_disj[OF lk ls] by auto
      then have "?T (fst x) = T (fst x)" by (rule other)
      with pay that show ?thesis by (auto simp: payload_def)
    qed
    moreover have "handles (G' l' s') \<inter> handles R = {}" if "l' < num_levels d" "s' < num_slots d" for l' s'
      using linked_disj[OF lk that] hR by (auto simp: G'_def)
    ultimately show ?thesis using dR by (simp add: flight_ok_def)
  qed
  have pool: "pool_ok d H ?T R G'"
    unfolding pool_ok_def
  proof
    fix i assume "i \<in> dom ?T"
    then have "i \<in> dom T" using he t by (auto simp: relink_def dom_def split: if_splits)
    with lk have "i < EMPTY_INDEX" "i \<in> handles ((h, e, c) # R) \<or>
        (\<exists>l<num_levels d. \<exists>s<num_slots d. i = H l s \<or> i \<in> handles (G l s))"
      unfolding linked_def pool_ok_def by blast+
    moreover have "i \<in> handles (G l' s') \<Longrightarrow> i \<in> handles (G' l' s')" for l' s' by (auto simp: G'_def)
    moreover have "h \<in> handles (G' l s)" by (simp add: G'_def)
    ultimately show "i < EMPTY_INDEX \<and> (i \<in> handles R \<or>
        (\<exists>l<num_levels d. \<exists>s<num_slots d. i = H l s \<or> i \<in> handles (G' l s)))"
      using ls by (metis fst_conv handles_simps(2) insert_iff)
  qed
  show ?thesis using slots lk disj flight pool by (simp add: linked_def)
qed

section \<open>The operations refine the slot operations\<close>

lemma dims_ok_pow: "dims_ok d \<Longrightarrow> l \<le> num_levels d \<Longrightarrow> num_slots d ^ l \<le> U64_MAX"
  unfolding dims_ok_def using power_increasing[of l "num_levels d" "num_slots d"] by auto

lemma choose_slot_loop_find:
  assumes d: "dims_ok d" and sh: "shape_rel d w S" and ls: "\<forall>l\<in>set ls. l < num_levels d"
  shows "choose_slot_loop d w delta lv s ls =
     Some (case find (\<lambda>l. delta < num_slots d ^ (l + 1)) ls of
        Some l \<Rightarrow> (l, (sw_pos S l + delta div num_slots d ^ l - 1) mod num_slots d)
      | None \<Rightarrow> (lv, s))"
  using ls
proof (induction ls)
  case (Cons l ls)
  then have l: "l < num_levels d" by simp
  then have "num_slots d ^ (l + 1) \<le> U64_MAX" "num_slots d ^ l \<le> U64_MAX"
    using dims_ok_pow[OF d, of "l + 1"] dims_ok_pow[OF d, of l] by auto
  moreover have "level_position w l = Some (sw_pos S l)"
    using sh l by (simp add: level_position_def shape_rel_def)
  moreover have "0 < num_slots d" using d by (simp add: dims_ok_def)
  ultimately show ?case using Cons by (simp add: checked_simps del: power_Suc)
qed simp

lemma choose_slot_place:
  assumes d: "dims_ok d" and sh: "shape_rel d w S"
  shows "choose_slot d w delta = Some (place d (sw_pos S) delta)"
proof -
  have L: "0 < num_levels d" and N: "0 < num_slots d" using d by (auto simp: dims_ok_def)
  then have "level_position w (num_levels d - 1) = Some (sw_pos S (num_levels d - 1))"
    using sh by (simp add: level_position_def shape_rel_def)
  then show ?thesis
    using L N choose_slot_loop_find[OF d sh, of "[0..<num_levels d]"]
    by (simp add: choose_slot_def checked_simps place_def split: option.split)
qed

lemma wheel_rel_heads:
  assumes "wheel_rel d w R S" "l < num_levels d" "s < num_slots d"
  shows "slot_head w l s = Some (head_ix w l s)"
  using assms by (simp add: wheel_rel_def shape_rel_def slot_head_def head_ix_def)

lemma wheel_rel_position:
  assumes "wheel_rel d w R S" "l < num_levels d"
  shows "level_position w l = Some (sw_pos S l)" "sw_pos S l < num_slots d"
  using assms by (auto simp: wheel_rel_def shape_rel_def level_position_def)

lemma start_timer_unchecked_refines:
  assumes rel: "wheel_rel d w ((h, e, c) # R) S" and due: "sw_time S \<le> e"
  shows "\<exists>w'. start_timer_unchecked d w h = Some w' \<and> wheel_rel d w' R (sw_add d (h, e, c) S) \<and>
    (\<forall>i. chain (timers w) i R \<longrightarrow> chain (timers w') i R)"
proof -
  have d: "dims_ok d" and sh: "shape_rel d w S"
    and lk: "linked d (head_ix w) (timers w) ((h, e, c) # R) (sw_slots S)"
    using rel by (auto simp: wheel_rel_def)
  obtain l s where pl: "place d (sw_pos S) (e - sw_time S) = (l, s)" by fastforce
  note ls = place_bounds[OF d pl]
  define hh where "hh = head_ix w l s"
  obtain t where t: "timers w h = Some t" "te_data t = Timer e c"
    using lk by (auto simp: linked_def flight_ok_def payload_def)
  obtain he where he: "timers w hh = Some he" "te_data he = Head" "chain (timers w) (te_next he) (sw_slots S l s)"
    unfolding hh_def using lk ls by (rule linked_slot)
  let ?T = "relink hh h he t (timers w)"
  have ne: "hh \<noteq> h" using he t by auto
  have hG: "h \<notin> handles (sw_slots S l s)" using linked_disj[OF lk ls] by auto
  have hhG: "hh \<notin> handles (sw_slots S l s)"
    unfolding hh_def using linked_head_not_timer(2)[OF lk ls ls] .
  have emp: "timers w EMPTY_INDEX = None" using linked_small[OF lk] by fastforce
  have old: "te_next he \<noteq> EMPTY_INDEX \<Longrightarrow>
      te_next he \<noteq> h \<and> te_next he \<noteq> hh \<and> (\<exists>n. timers w (te_next he) = Some n)"
    using he(3) hG hhG chain_first chain_data
    by (metis chain.simps(1))
  have cs: "choose_slot d w (e - sw_time S) = Some (l, s)"
    using choose_slot_place[OF d sh] pl by simp
  have hd: "slot_head w l s = Some hh" unfolding hh_def using rel ls by (rule wheel_rel_heads)
  have ct: "current_time w = sw_time S" using sh by (simp add: shape_rel_def)
  have run: "start_timer_unchecked d w h = Some (w\<lparr>timers := ?T\<rparr>)"
  proof (cases "te_next he = EMPTY_INDEX")
    case True
    have "?T = (timers w)(hh \<mapsto> he\<lparr>te_next := h\<rparr>, h \<mapsto> t\<lparr>te_next := te_next he, te_previous := hh\<rparr>)"
      using ne emp True by (auto simp: relink_def fun_eq_iff)
    then show ?thesis
      using t ct cs hd he(1) ne due True
      by (simp add: start_timer_unchecked_def checked_simps Let_def)
  next
    case False
    with old obtain n where n: "timers w (te_next he) = Some n" "te_next he \<noteq> h" "te_next he \<noteq> hh" by auto
    then have "?T = (timers w)(hh \<mapsto> he\<lparr>te_next := h\<rparr>, h \<mapsto> t\<lparr>te_next := te_next he, te_previous := hh\<rparr>,
        te_next he \<mapsto> n\<lparr>te_previous := h\<rparr>)"
      using ne by (auto simp: relink_def fun_eq_iff)
    then show ?thesis
      using t ct cs hd he(1) ne due False n
      by (simp add: start_timer_unchecked_def checked_simps Let_def)
  qed
  have "linked d (head_ix w) ?T R ((sw_slots S)(l := (sw_slots S l)(s := (h, e, c) # sw_slots S l s)))"
    unfolding hh_def using lk ls he(1)[unfolded hh_def] t(1) by (rule linked_put)
  then have "wheel_rel d (w\<lparr>timers := ?T\<rparr>) R (sw_add d (h, e, c) S)"
    using d sh pl by (simp add: wheel_rel_def shape_rel_def head_ix_def sw_add_def sw_put_def)
  moreover have "chain ?T i R" if "chain (timers w) i R" for i
    using that linked_head_not_timer(1)[OF lk ls] lk
    by (intro relink_chain) (auto simp: hh_def linked_def flight_ok_def handles_def)
  ultimately show ?thesis using run by auto
qed

text \<open>A vacant key joins the pool; a finished in-flight timer leaves it.\<close>

lemma linked_new:
  assumes lk: "linked d H T [] G" and key: "key \<notin> dom T" "key < EMPTY_INDEX"
  shows "linked d H (T(key \<mapsto> new_entry e c)) [(key, e, c)] G"
proof -
  have vac: "key \<noteq> H l s" "key \<notin> handles (G l s)" if "l < num_levels d" "s < num_slots d" for l s
    using key(1) linked_slot[OF lk that] linked_in_slot[OF lk that] by (metis domI)+
  have "slot_linked (T(key \<mapsto> new_entry e c)) (H l s) (G l s)" if "l < num_levels d" "s < num_slots d" for l s
  proof (rule slot_linked_frame)
    show "slot_linked T (H l s) (G l s)" using lk that by (simp add: linked_def)
  qed (use vac[OF that] in auto)
  moreover have "flight_ok d (T(key \<mapsto> new_entry e c)) [(key, e, c)] G"
    using vac by (auto simp: flight_ok_def payload_def new_entry_def)
  moreover have "pool_ok d H (T(key \<mapsto> new_entry e c)) [(key, e, c)] G"
    using lk key(2) by (auto simp: linked_def pool_ok_def)
  ultimately show ?thesis using lk by (simp add: linked_def)
qed

lemma linked_done:
  assumes lk: "linked d H T ((h, e, c) # R) G"
  shows "linked d H (T(h := None)) R G"
proof -
  have vac: "h \<noteq> H l s" "h \<notin> handles (G l s)" if "l < num_levels d" "s < num_slots d" for l s
    using linked_head_not_timer(1)[OF lk that] linked_disj[OF lk that] by auto
  have "slot_linked (T(h := None)) (H l s) (G l s)" if "l < num_levels d" "s < num_slots d" for l s
  proof (rule slot_linked_frame)
    show "slot_linked T (H l s) (G l s)" using lk that by (simp add: linked_def)
  qed (use vac[OF that] in auto)
  moreover have "flight_ok d (T(h := None)) R G"
  proof -
    have "flight_ok d T ((h, e, c) # R) G" using lk by (simp add: linked_def)
    moreover from this have "fst x \<noteq> h" if "x \<in> set R" for x
      using that by (auto simp: flight_ok_def)
    ultimately show ?thesis by (auto simp: flight_ok_def payload_def)
  qed
  moreover have "pool_ok d H (T(h := None)) R G"
  proof -
    have "pool_ok d H T ((h, e, c) # R) G" using lk by (simp add: linked_def)
    then show ?thesis by (auto simp: pool_ok_def)
  qed
  ultimately show ?thesis using lk by (simp add: linked_def)
qed

lemma wheel_rel_done:
  "wheel_rel d w ((h, e, c) # R) S \<Longrightarrow> wheel_rel d (w\<lparr>timers := (timers w)(h := None)\<rparr>) R S"
  by (auto simp: wheel_rel_def shape_rel_def intro: linked_done)

lemma start_timer_refines:
  fixes interval :: nat
  assumes rel: "wheel_rel d w [] S" and key: "key \<notin> dom (timers w)" "key < EMPTY_INDEX"
    and t: "sw_time S \<le> U64_MAX"
  defines "e \<equiv> min U64_MAX (sw_time S + interval)"
  shows "\<exists>w'. start_timer d key interval c w = Some (key, w') \<and> wheel_rel d w' [] (sw_add d (key, e, c) S)"
proof -
  have "key mod 2 ^ 32 = key" using key(2) by (simp add: EMPTY_INDEX_def U32_MAX_def)
  moreover have "wheel_rel d (w\<lparr>timers := (timers w)(key \<mapsto> new_entry e c)\<rparr>) [(key, e, c)] S"
    using rel key by (auto simp: wheel_rel_def shape_rel_def intro: linked_new)
  moreover have "sw_time S \<le> e" using t by (simp add: e_def)
  moreover have "current_time w = sw_time S" using rel by (simp add: wheel_rel_def shape_rel_def)
  ultimately show ?thesis
    using start_timer_unchecked_refines[of d "w\<lparr>timers := (timers w)(key \<mapsto> new_entry e c)\<rparr>" key e c "[]" S]
    by (auto simp: start_timer_def saturating_add_def e_def Let_def)
qed

lemma start_timer_absolute_refines:
  assumes rel: "wheel_rel d w [] S" and key: "key \<notin> dom (timers w)" "key < EMPTY_INDEX"
  shows "if e \<le> sw_time S then start_timer_absolute d key e c w = Some (Inl (Expired c), w)
    else \<exists>w'. start_timer_absolute d key e c w = Some (Inr key, w') \<and> wheel_rel d w' [] (sw_add d (key, e, c) S)"
proof -
  have "key mod 2 ^ 32 = key" using key(2) by (simp add: EMPTY_INDEX_def U32_MAX_def)
  moreover have "wheel_rel d (w\<lparr>timers := (timers w)(key \<mapsto> new_entry e c)\<rparr>) [(key, e, c)] S"
    using rel key by (auto simp: wheel_rel_def shape_rel_def intro: linked_new)
  moreover have "current_time w = sw_time S" using rel by (simp add: wheel_rel_def shape_rel_def)
  ultimately show ?thesis
    using start_timer_unchecked_refines[of d "w\<lparr>timers := (timers w)(key \<mapsto> new_entry e c)\<rparr>" key e c "[]" S]
    by (auto simp: start_timer_absolute_def Let_def)
qed

text \<open>Taking a slot's list out: its timers are in flight, linked by their \<open>next\<close> fields only.\<close>

lemma linked_take:
  assumes lk: "linked d H T [] G" and ls: "l < num_levels d" "s < num_slots d"
    and he: "T (H l s) = Some he"
  shows "linked d H (T(H l s \<mapsto> he\<lparr>te_next := EMPTY_INDEX\<rparr>)) (G l s) (G(l := (G l)(s := [])))"
    (is "linked d H ?T _ ?G")
    and "chain (T(H l s \<mapsto> he\<lparr>te_next := EMPTY_INDEX\<rparr>)) (te_next he) (G l s)"
proof -
  have heh: "te_data he = Head" "chain T (te_next he) (G l s)"
    using lk ls he by (metis linked_slot option.sel)+
  have nh: "H l s \<notin> handles (G l' s')" if "l' < num_levels d" "s' < num_slots d" for l' s'
    using lk ls that by (rule linked_head_not_timer(2))
  show ch: "chain ?T (te_next he) (G l s)"
    using heh(2) by (rule chain_frame) (use nh[OF ls] in auto)
  have "slot_linked ?T (H l' s') (?G l' s')" if l': "l' < num_levels d" "s' < num_slots d" for l' s'
  proof (cases "l' = l \<and> s' = s")
    case True
    then show ?thesis using heh(1) by (auto simp: slot_linked_def)
  next
    case False
    have "slot_linked T (H l' s') (G l' s')" using lk l' by (simp add: linked_def)
    then have "slot_linked ?T (H l' s') (G l' s')"
      by (rule slot_linked_frame) (use False nh[OF l'] linked_head_inj[OF lk l' ls] in auto)
    with False show ?thesis by auto
  qed
  moreover have "slots_disjoint d ?G"
    using lk unfolding linked_def slots_disjoint_def by (auto split: if_splits)
  moreover have "flight_ok d ?T (G l s) ?G"
  proof -
    have "\<forall>i\<in>handles (G l s). i < EMPTY_INDEX" using lk ls by (meson linked_in_slot linked_small)
    then have "distinct (map fst (G l s))" using heh(2) chain_distinct by blast
    moreover have "handles (?G l' s') \<inter> handles (G l s) = {}" if "l' < num_levels d" "s' < num_slots d" for l' s'
      using linked_cross[OF lk that ls] by auto
    ultimately show ?thesis using chain_payload[OF ch] by (simp add: flight_ok_def)
  qed
  moreover have "pool_ok d H ?T (G l s) ?G"
  proof -
    have "i < EMPTY_INDEX \<and> (i \<in> handles (G l s) \<or>
        (\<exists>l'<num_levels d. \<exists>s'<num_slots d. i = H l' s' \<or> i \<in> handles (?G l' s')))" if "i \<in> dom ?T" for i
    proof -
      from that have "i \<in> dom T" using he by auto
      with lk have "i < EMPTY_INDEX" and
        ex: "\<exists>l'<num_levels d. \<exists>s'<num_slots d. i = H l' s' \<or> i \<in> handles (G l' s')"
        unfolding linked_def pool_ok_def by auto
      from ex obtain l' s' where "l' < num_levels d" "s' < num_slots d" "i = H l' s' \<or> i \<in> handles (G l' s')"
        by blast
      moreover have "i \<in> handles (G l' s') \<Longrightarrow> i \<in> handles (G l s) \<or> i \<in> handles (?G l' s')" by auto
      ultimately show ?thesis using \<open>i < EMPTY_INDEX\<close> by blast
    qed
    then show ?thesis by (simp add: pool_ok_def)
  qed
  ultimately show "linked d H ?T (G l s) ?G" using lk by (simp add: linked_def)
qed

lemma process_slot_refines:
  assumes "wheel_rel d w xs S" "chain (timers w) i xs"
  shows "\<exists>w'. process_slot d i ex w = Some (fst (sw_drain d xs ex S), w') \<and>
    wheel_rel d w' [] (snd (sw_drain d xs ex S))"
  using assms
proof (induction xs arbitrary: i ex w S)
  case Nil
  then show ?case by (subst process_slot.simps) simp
next
  case (Cons x xs)
  obtain h e c where x: "x = (h, e, c)" by (cases x)
  from Cons.prems(2) x obtain t where t: "timers w h = Some t" "te_data t = Timer e c" "i = h"
    "chain (timers w) (te_next t) xs" by auto
  have rel: "wheel_rel d w ((h, e, c) # xs) S" using Cons.prems(1) x by simp
  have ne: "h \<noteq> EMPTY_INDEX" using rel t(1) linked_small unfolding wheel_rel_def by blast
  have ct: "current_time w = sw_time S" using rel by (simp add: wheel_rel_def shape_rel_def)
  have hx: "h \<notin> handles xs" using rel by (auto simp: wheel_rel_def linked_def flight_ok_def handles_def)
  show ?case
  proof (cases "e \<le> sw_time S")
    case True
    let ?w = "w\<lparr>timers := (timers w)(h := None)\<rparr>"
    have "chain (timers ?w) (te_next t) xs"
      using t(4) by (rule chain_frame) (use hx in auto)
    from Cons.IH[OF wheel_rel_done[OF rel] this, of "ex @ [c]"] True t ne ct x show ?thesis
      by (subst process_slot.simps) auto
  next
    case False
    then obtain w' where w': "start_timer_unchecked d w h = Some w'"
      "wheel_rel d w' xs (sw_add d (h, e, c) S)" "chain (timers w') (te_next t) xs"
      using start_timer_unchecked_refines[OF rel] t(4) by auto
    from Cons.IH[OF w'(2,3), of ex] False t ne ct x w'(1) show ?thesis
      by (subst process_slot.simps) auto
  qed
qed

lemma advance_refines:
  assumes rel: "wheel_rel d w R S" and l: "l < num_levels d"
  shows "\<exists>w'. advance_position d l w = Some w' \<and> wheel_rel d w' R (sw_advance d l S)"
proof -
  have N: "0 < num_slots d" and len: "length (levels w) = num_levels d" and
    pos: "position (levels w ! l) = sw_pos S l"
    using rel l by (auto simp: wheel_rel_def dims_ok_def shape_rel_def)
  define w' where "w' = w\<lparr>levels := (levels w)[l := (levels w ! l)\<lparr>position := (sw_pos S l + 1) mod num_slots d\<rparr>]\<rparr>"
  have "advance_position d l w = Some w'"
    using N l len pos by (simp add: advance_position_def checked_simps w'_def)
  moreover have "head_ix w' = head_ix w"
  proof (intro ext)
    fix l' s
    show "head_ix w' l' s = head_ix w l' s"
      using l len by (cases "l' = l") (simp_all add: head_ix_def w'_def)
  qed
  moreover have "shape_rel d w' (sw_advance d l S)"
    using rel N l by (auto simp: wheel_rel_def shape_rel_def w'_def nth_list_update)
  ultimately show ?thesis using rel by (auto simp: wheel_rel_def w'_def)
qed

lemma process_level_refines:
  assumes "wheel_rel d w [] S"
  shows "\<exists>w'. process_level d l w = Some (fst (sw_process d l S), w') \<and> wheel_rel d w' [] (snd (sw_process d l S))"
  using assms
proof (induction d l S arbitrary: w rule: sw_process.induct)
  case (1 d l S)
  show ?case
  proof (cases "num_levels d \<le> l")
    case True
    with "1.prems" show ?thesis by (simp add: process_level.simps sw_process.simps)
  next
    case False
    then have l: "l < num_levels d" by simp
    let ?p = "sw_pos S l"
    have p: "level_position w l = Some ?p" "?p < num_slots d"
      using wheel_rel_position[OF "1.prems" l] by auto
    have lk: "linked d (head_ix w) (timers w) [] (sw_slots S)" using "1.prems" by (simp add: wheel_rel_def)
    obtain he where he: "timers w (head_ix w l ?p) = Some he" using lk l p(2) by (rule linked_slot)
    let ?w0 = "w\<lparr>timers := (timers w)(head_ix w l ?p \<mapsto> he\<lparr>te_next := EMPTY_INDEX\<rparr>)\<rparr>"
    have "wheel_rel d ?w0 (sw_slots S l ?p) (sw_put l ?p [] S)"
      using "1.prems" linked_take(1)[OF lk l p(2) he]
      by (auto simp: wheel_rel_def shape_rel_def sw_put_def)
    moreover have "chain (timers ?w0) (te_next he) (sw_slots S l ?p)"
      using linked_take(2)[OF lk l p(2) he] by simp
    ultimately obtain w1 where w1: "process_slot d (te_next he) [] ?w0
        = Some (fst (sw_drain d (sw_slots S l ?p) [] (sw_put l ?p [] S)), w1)"
      "wheel_rel d w1 [] (snd (sw_drain d (sw_slots S l ?p) [] (sw_put l ?p [] S)))"
      using process_slot_refines by blast
    then obtain w2 where w2: "advance_position d l w1 = Some w2"
      "wheel_rel d w2 [] (snd (sw_level_step d l S))"
      using advance_refines[OF w1(2) l] by (auto simp: sw_level_step_def split_beta)
    have ex: "fst (sw_drain d (sw_slots S l ?p) [] (sw_put l ?p [] S)) = fst (sw_level_step d l S)"
      by (simp add: sw_level_step_def split_beta)
    have p2: "level_position w2 l = Some (sw_pos (snd (sw_level_step d l S)) l)"
      using wheel_rel_position[OF w2(2) l] by simp
    have hd: "slot_head w l ?p = Some (head_ix w l ?p)" using "1.prems" l p(2) by (rule wheel_rel_heads)
    show ?thesis
    proof (cases "sw_pos (snd (sw_level_step d l S)) l = 0")
      case True
      obtain w3 where w3: "process_level d (l + 1) w2 = Some (fst (sw_process d (l + 1) (snd (sw_level_step d l S))), w3)"
        "wheel_rel d w3 [] (snd (sw_process d (l + 1) (snd (sw_level_step d l S))))"
        using "1.IH"[OF False refl prod.collapse True w2(2)] by auto
      have "process_level d l w = Some (fst (sw_process d l S), w3)"
        using l p(1) hd he w1(1) w2(1) p2 True w3(1) ex
        by (subst process_level.simps, subst sw_process.simps) (simp add: split_beta Let_def)
      moreover have "snd (sw_process d l S) = snd (sw_process d (l + 1) (snd (sw_level_step d l S)))"
        using False True by (subst sw_process.simps) (simp add: split_beta Let_def)
      ultimately show ?thesis using w3(2) by auto
    next
      case no: False
      have "process_level d l w = Some (fst (sw_process d l S), w2)"
        using l p(1) hd he w1(1) w2(1) p2 no ex
        by (subst process_level.simps, subst sw_process.simps) (simp add: split_beta Let_def)
      moreover have "snd (sw_process d l S) = snd (sw_level_step d l S)"
        using False no by (subst sw_process.simps) (simp add: split_beta Let_def)
      ultimately show ?thesis using w2(2) by auto
    qed
  qed
qed

lemma tick_refines:
  assumes rel: "wheel_rel d w [] S" and t: "sw_time S < U64_MAX"
  shows "\<exists>w'. tick d w = Some (fst (sw_tick d S), w') \<and> wheel_rel d w' [] (snd (sw_tick d S))"
proof -
  have ct: "current_time w = sw_time S" using rel by (simp add: wheel_rel_def shape_rel_def)
  have "wheel_rel d (w\<lparr>current_time := sw_time S + 1\<rparr>) [] (S\<lparr>sw_time := sw_time S + 1\<rparr>)"
    using rel by (auto simp: wheel_rel_def shape_rel_def)
  from process_level_refines[OF this, of 0] show ?thesis
    using ct t by (simp add: tick_def sw_tick_def checked_simps)
qed

section \<open>Unlinking a timer\<close>

definition unlink :: "nat \<Rightarrow> 'c timer_entry \<Rightarrow> (nat \<rightharpoonup> 'c timer_entry) \<Rightarrow> (nat \<rightharpoonup> 'c timer_entry)" where
  "unlink h t T = (\<lambda>i.
     if i = h then None
     else if i = te_previous t then map_option (\<lambda>p. p\<lparr>te_next := te_next t\<rparr>) (T i)
     else if i = te_next t then map_option (\<lambda>n. n\<lparr>te_previous := te_previous t\<rparr>) (T i)
     else T i)"

lemma chain_link:
  "chain T i xs \<Longrightarrow> i = EMPTY_INDEX \<and> xs = [] \<or> i \<in> handles xs"
  by (cases xs) auto

lemma unlink_segment:
  assumes "chain T i (xs @ (h, e, c) # ys)" "backlink T p (xs @ (h, e, c) # ys)"
    and "distinct (p # map fst (xs @ (h, e, c) # ys))" "EMPTY_INDEX \<notin> insert p (handles (xs @ (h, e, c) # ys))"
    and "T h = Some t"
  shows "te_previous t = (if xs = [] then p else fst (last xs)) \<and>
    chain (unlink h t T) (if xs = [] then te_next t else i) (xs @ ys) \<and> backlink (unlink h t T) p (xs @ ys)"
  using assms
proof (induction xs arbitrary: i p)
  case Nil
  then have prev: "te_previous t = p" and ch: "chain T (te_next t) ys" and bl: "backlink T h ys" by auto
  have h: "h \<notin> handles ys" "p \<notin> handles ys" "distinct (map fst ys)" using Nil.prems(3) by (auto simp: handles_def)
  have "chain (unlink h t T) (te_next t) ys"
    using ch by (rule chain_frame) (use h prev in \<open>auto simp: unlink_def option.map_comp comp_def\<close>)
  moreover have "backlink (unlink h t T) p ys"
  proof (cases ys)
    case (Cons y zs)
    obtain h1 e1 c1 where y: "y = (h1, e1, c1)" by (cases y)
    with ch bl Cons obtain t1 where t1: "te_next t = h1" "T h1 = Some t1" "backlink T h1 zs" by auto
    have hz: "h \<notin> handles zs" "p \<notin> handles zs" "h1 \<notin> handles zs" "h1 \<noteq> h" "h1 \<noteq> p"
      using h Cons y by (auto simp: handles_def)
    have "backlink (unlink h t T) h1 zs"
      using t1(3) by (rule backlink_frame) (use hz prev t1 in \<open>auto simp: unlink_def\<close>)
    with t1 h prev Cons y show ?thesis by (auto simp: unlink_def)
  qed simp
  ultimately show ?case using prev by simp
next
  case (Cons x xs)
  obtain h0 e0 c0 where x: "x = (h0, e0, c0)" by (cases x)
  with Cons.prems(1) obtain t0 where t0: "T h0 = Some t0" "te_data t0 = Timer e0 c0" "i = h0"
    "chain T (te_next t0) (xs @ (h, e, c) # ys)" by auto
  have bl: "backlink T h0 (xs @ (h, e, c) # ys)" "te_previous t0 = p" using Cons.prems(2) x t0 by auto
  have d: "distinct (h0 # map fst (xs @ (h, e, c) # ys))" "EMPTY_INDEX \<notin> insert h0 (handles (xs @ (h, e, c) # ys))"
    using Cons.prems(3,4) x by auto
  note IH = Cons.IH[OF t0(4) bl(1) d Cons.prems(5)]
  have hy: "h \<in> handles (xs @ (h, e, c) # ys)" by simp
  have nxt: "te_next t \<noteq> h0"
  proof -
    have "chain T (te_next t) ys" using t0(4) Cons.prems(5)
    proof (induction xs arbitrary: t0)
      case (Cons z zs)
      then show ?case by (cases z) auto
    qed auto
    then show ?thesis using chain_link[of T "te_next t" ys] d by (auto simp: handles_def)
  qed
  have h0: "h0 \<noteq> h" using d by auto
  have "unlink h t T h0 = Some (if xs = [] then t0\<lparr>te_next := te_next t\<rparr> else t0)"
    using IH t0(1) h0 nxt d(1) by (auto simp: unlink_def)
  moreover have "xs = [] \<Longrightarrow> te_next t0 = h" using t0(4) by simp
  ultimately show ?case using IH t0 bl x by auto
qed

lemma filter_out_none: "h \<notin> handles xs \<Longrightarrow> filter (\<lambda>x. fst x \<noteq> h) xs = xs"
  by (rule filter_True) (auto simp: handles_def)

lemma filter_out_one:
  "distinct (map fst (xs @ (h::nat, e::nat, c) # ys)) \<Longrightarrow> filter (\<lambda>x. fst x \<noteq> h) (xs @ (h, e, c) # ys) = xs @ ys"
  using filter_out_none[of h xs] filter_out_none[of h ys] by (simp add: handles_def)

lemma linked_unlink:
  assumes lk: "linked d H T [] G" and ls: "l < num_levels d" "s < num_slots d"
    and G: "G l s = xs @ (h, e, c) # ys" and t: "T h = Some t"
  shows "linked d H (unlink h t T) [] (\<lambda>l s. filter (\<lambda>x. fst x \<noteq> h) (G l s))"
    and "\<exists>p. T (te_previous t) = Some p"
    and "te_previous t \<noteq> h" "te_next t \<noteq> h" "te_previous t \<noteq> te_next t"
    and "te_next t \<noteq> EMPTY_INDEX \<Longrightarrow> \<exists>n. T (te_next t) = Some n"
proof -
  obtain he where he: "T (H l s) = Some he" "te_data he = Head" "chain T (te_next he) (G l s)"
    "backlink T (H l s) (G l s)" using lk ls by (rule linked_slot)
  have small: "\<forall>i\<in>handles (G l s). i < EMPTY_INDEX" using lk ls by (meson linked_in_slot linked_small)
  have hh: "H l s \<notin> handles (G l s)" using lk ls ls by (rule linked_head_not_timer(2))
  have d: "distinct (H l s # map fst (G l s))" using chain_distinct[OF he(3) small] hh by (auto simp: handles_def)
  have em: "EMPTY_INDEX \<notin> insert (H l s) (handles (G l s))" using small linked_small[OF lk he(1)] by auto
  note seg = unlink_segment[OF he(3)[unfolded G] he(4)[unfolded G] d[unfolded G] em[unfolded G] t]
  have prev: "te_previous t = (if xs = [] then H l s else fst (last xs))"
    and ch: "chain (unlink h t T) (if xs = [] then te_next t else te_next he) (xs @ ys)"
    and bl: "backlink (unlink h t T) (H l s) (xs @ ys)" using seg by auto
  have chy: "chain T (te_next t) ys"
    using he(3) t unfolding G
  proof (induction xs arbitrary: he)
    case (Cons z zs)
    then show ?case by (cases z) auto
  qed auto
  have prev_in: "te_previous t = H l s \<or> te_previous t \<in> handles xs"
    using prev by (auto simp: handles_def)
  have nxt_in: "te_next t = EMPTY_INDEX \<or> te_next t \<in> handles ys" using chain_link[OF chy] by auto
  have inG: "handles (G l s) = handles xs \<union> insert h (handles ys)" by (auto simp: G)
  show "\<exists>p. T (te_previous t) = Some p"
    using prev_in he(1) inG linked_in_slot[OF lk ls] by (metis UnI1)
  show "te_previous t \<noteq> h" using prev_in hh inG d G by (auto simp: handles_def)
  show "te_next t \<noteq> h" using nxt_in d em G by (auto simp: handles_def)
  show "te_next t \<noteq> EMPTY_INDEX \<Longrightarrow> \<exists>n. T (te_next t) = Some n"
    using nxt_in inG linked_in_slot[OF lk ls] by (metis UnI2 insertI2)
  have "handles xs \<inter> handles ys = {}" using d G by (auto simp: handles_def)
  then show pn: "te_previous t \<noteq> te_next t"
    using prev_in nxt_in hh em inG by auto
  let ?T = "unlink h t T" and ?G = "\<lambda>l s. filter (\<lambda>x. fst x \<noteq> h) (G l s)"
  have emp: "T EMPTY_INDEX = None" using linked_small[OF lk] by fastforce
  have other: "?T i = T i" if "i \<noteq> H l s" "i \<notin> handles (G l s)" for i
  proof -
    have "i \<noteq> h" "i \<noteq> te_previous t" using that prev_in inG by auto
    moreover have "i = te_next t \<Longrightarrow> T i = None" using that nxt_in inG emp by auto
    ultimately show ?thesis by (simp add: unlink_def)
  qed
  have sub: "handles (?G l' s') \<subseteq> handles (G l' s')" for l' s' by (auto simp: handles_def)
  have "slot_linked ?T (H l' s') (?G l' s')" if l': "l' < num_levels d" "s' < num_slots d" for l' s'
  proof (cases "l' = l \<and> s' = s")
    case True
    have "?T (H l s) = Some (if xs = [] then he\<lparr>te_next := te_next t\<rparr> else he)"
    proof -
      have "h \<in> handles (G l s)" using inG by simp
      then have "H l s \<noteq> h" using hh by metis
      moreover have "H l s \<noteq> te_next t" using nxt_in hh inG em by (metis UnI2 insertI1 insertI2)
      moreover have "(H l s = te_previous t) = (xs = [])"
      proof (cases "xs = []")
        case False
        then have "fst (last xs) \<in> handles xs" by (simp add: handles_def)
        moreover have "te_previous t = fst (last xs)" using prev False by simp
        ultimately have "te_previous t \<in> handles (G l s)" using inG by simp
        with hh False show ?thesis by metis
      qed (use prev in simp)
      ultimately show ?thesis using he(1) by (simp add: unlink_def)
    qed
    moreover have "?G l s = xs @ ys" using filter_out_one d G by (metis distinct.simps(2))
    ultimately show ?thesis using True ch bl he(2) by (auto simp: slot_linked_def)
  next
    case False
    have hG: "h \<notin> handles (G l' s')"
      using False linked_cross[OF lk l' ls, of h] inG by auto
    have "slot_linked T (H l' s') (G l' s')" using lk l' by (simp add: linked_def)
    then have "slot_linked ?T (H l' s') (G l' s')"
    proof (rule slot_linked_frame)
      fix i assume i: "i = H l' s' \<or> i \<in> handles (G l' s')"
      have "i \<noteq> H l s"
        using i False linked_head_inj[OF lk l' ls] linked_head_not_timer(2)[OF lk ls l'] by auto
      moreover have "i \<notin> handles (G l s)"
        using i False linked_cross[OF lk l' ls] linked_head_not_timer(2)[OF lk l' ls] by auto
      ultimately show "?T i = T i" by (rule other)
    qed
    then show ?thesis using filter_out_none[OF hG] by simp
  qed
  moreover have "slots_disjoint d ?G"
    using lk sub unfolding linked_def slots_disjoint_def by (meson subsetD)
  moreover have "flight_ok d ?T [] ?G" by (simp add: flight_ok_def)
  moreover have "pool_ok d H ?T [] ?G"
  proof -
    have "i < EMPTY_INDEX \<and> (\<exists>l<num_levels d. \<exists>s<num_slots d. i = H l s \<or> i \<in> handles (?G l s))"
      if "i \<in> dom ?T" for i
    proof -
      have "i \<in> dom T" "i \<noteq> h" using that by (auto simp: unlink_def dom_def split: if_splits)
      moreover have "i \<noteq> h \<Longrightarrow> i \<in> handles (G l' s') \<Longrightarrow> i \<in> handles (?G l' s')" for l' s'
        by (auto simp: handles_def)
      moreover have "pool_ok d H T [] G" using lk by (simp add: linked_def)
      ultimately show ?thesis unfolding pool_ok_def by (metis empty_iff handles_simps(1))
    qed
    then show ?thesis by (simp add: pool_ok_def)
  qed
  ultimately show "linked d H ?T [] ?G" using lk by (simp add: linked_def)
qed

definition sw_holds :: "wheel_dims \<Rightarrow> 'c slot_wheel \<Rightarrow> nat \<times> nat \<times> 'c \<Rightarrow> bool" where
  "sw_holds d S x \<longleftrightarrow> (\<exists>l<num_levels d. \<exists>s<num_slots d. x \<in> set (sw_slots S l s))"

lemma stop_timer_refines:
  assumes rel: "wheel_rel d w [] S" and x: "sw_holds d S (h, e, c)"
  shows "\<exists>w'. stop_timer h w = Some (Some c, w') \<and> wheel_rel d w' [] (sw_remove h S)"
proof -
  have lk: "linked d (head_ix w) (timers w) [] (sw_slots S)" using rel by (simp add: wheel_rel_def)
  obtain l s xs ys where ls: "l < num_levels d" "s < num_slots d" and G: "sw_slots S l s = xs @ (h, e, c) # ys"
    using x unfolding sw_holds_def by (meson split_list)
  obtain he where "timers w (head_ix w l s) = Some he" and ch: "chain (timers w) (te_next he) (sw_slots S l s)"
    using lk ls by (rule linked_slot)
  from ch have "payload (timers w) (h, e, c)" by (rule chain_payload) (simp add: G)
  then obtain t where t: "timers w h = Some t" "te_data t = Timer e c" by (auto simp: payload_def)
  note ul = linked_unlink[OF lk ls G t(1)]
  obtain p where p: "timers w (te_previous t) = Some p" using ul(2) by auto
  have ne: "te_previous t \<noteq> h" "te_next t \<noteq> h" "te_previous t \<noteq> te_next t" using ul(3,4,5) by auto
  have emp: "timers w EMPTY_INDEX = None" using linked_small[OF lk] by fastforce
  have "stop_timer h w = Some (Some c, w\<lparr>timers := unlink h t (timers w)\<rparr>)"
  proof (cases "te_next t = EMPTY_INDEX")
    case True
    have "unlink h t (timers w) = (timers w)(te_previous t \<mapsto> p\<lparr>te_next := te_next t\<rparr>, h := None)"
      using p ne True emp by (auto simp: unlink_def fun_eq_iff)
    then show ?thesis using t p ne True by (simp add: stop_timer_def Let_def)
  next
    case False
    then obtain n where n: "timers w (te_next t) = Some n" using ul(6) by auto
    have "unlink h t (timers w) = (timers w)(te_previous t \<mapsto> p\<lparr>te_next := te_next t\<rparr>,
        te_next t \<mapsto> n\<lparr>te_previous := te_previous t\<rparr>, h := None)"
      using p ne n by (auto simp: unlink_def fun_eq_iff)
    then show ?thesis using t p ne n False by (simp add: stop_timer_def Let_def)
  qed
  moreover have "wheel_rel d (w\<lparr>timers := unlink h t (timers w)\<rparr>) [] (sw_remove h S)"
    using rel ul(1) by (auto simp: wheel_rel_def shape_rel_def sw_remove_def)
  ultimately show ?thesis by blast
qed

lemma stop_timer_absent:
  assumes rel: "wheel_rel d w [] S" and x: "\<nexists>e c. sw_holds d S (h, e, c)"
  shows "stop_timer h w = Some (None, w)"
proof (cases "timers w h")
  case (Some t)
  have lk: "linked d (head_ix w) (timers w) [] (sw_slots S)" using rel by (simp add: wheel_rel_def)
  then have "pool_ok d (head_ix w) (timers w) [] (sw_slots S)" by (simp add: linked_def)
  with Some have "\<exists>l<num_levels d. \<exists>s<num_slots d. h = head_ix w l s \<or> h \<in> handles (sw_slots S l s)"
    unfolding pool_ok_def by (metis domI empty_iff handles_simps(1))
  then obtain l s where ls: "l < num_levels d" "s < num_slots d"
    and h: "h = head_ix w l s \<or> h \<in> handles (sw_slots S l s)" by blast
  with x have "h = head_ix w l s" by (auto simp: sw_holds_def handles_def)
  with Some have "te_data t = Head" using linked_slot[OF lk ls] by (metis option.sel)
  with Some show ?thesis by (simp add: stop_timer_def)
qed (simp add: stop_timer_def)

section \<open>Reading the next expiration\<close>

lemma min_expire_from_refines:
  "chain (timers w) i xs \<Longrightarrow> \<forall>h\<in>handles xs. h < EMPTY_INDEX \<Longrightarrow>
   min_expire_from w i m =
     Some (case m of
       None \<Rightarrow> (if xs = [] then None else Some (Min ((fst \<circ> snd) ` set xs)))
     | Some p \<Rightarrow> Some (Min (insert p ((fst \<circ> snd) ` set xs))))"
proof (induction xs arbitrary: i m)
  case Nil
  then show ?case by (subst min_expire_from.simps) (simp split: option.split)
next
  case (Cons x xs)
  obtain h e c where x: "x = (h, e, c)" by (cases x)
  with Cons.prems obtain t where t: "timers w h = Some t" "te_data t = Timer e c" "i = h"
    "chain (timers w) (te_next t) xs" by auto
  have ne: "h \<noteq> EMPTY_INDEX" using Cons.prems(2) x by auto
  have "min_expire_from w i m = min_expire_from w (te_next t)
      (Some (case m of None \<Rightarrow> e | Some p \<Rightarrow> min p e))"
    using t ne by (subst min_expire_from.simps) (simp split: option.split)
  also have "\<dots> = Some (Some (Min (insert (case m of None \<Rightarrow> e | Some p \<Rightarrow> min p e) ((fst \<circ> snd) ` set xs))))"
    using Cons.IH[OF t(4)] Cons.prems(2) by simp
  also have "Min (insert (case m of None \<Rightarrow> e | Some p \<Rightarrow> min p e) ((fst \<circ> snd) ` set xs)) =
      (case m of None \<Rightarrow> Min ((fst \<circ> snd) ` set (x # xs)) | Some p \<Rightarrow> Min (insert p ((fst \<circ> snd) ` set (x # xs))))"
    using x by (cases "xs = []") (auto split: option.split simp: min.assoc)
  finally show ?case by (simp split: option.split)
qed

lemma next_expiration_refines:
  assumes rel: "wheel_rel d w [] S"
  shows "next_expiration d w = Some (sw_next_expiration d S)"
proof -
  have lk: "linked d (head_ix w) (timers w) [] (sw_slots S)" using rel by (simp add: wheel_rel_def)
  have N: "0 < num_slots d" using rel by (simp add: wheel_rel_def dims_ok_def)
  have main: "next_expiration_slots d w ps = Some
      (case find (\<lambda>(l, i). sw_slots S l ((sw_pos S l + i) mod num_slots d) \<noteq> []) ps of
        None \<Rightarrow> None
      | Some (l, i) \<Rightarrow> Some (Min ((fst \<circ> snd) ` set (sw_slots S l ((sw_pos S l + i) mod num_slots d)))))"
    if "\<forall>(l, i)\<in>set ps. l < num_levels d" for ps
    using that
  proof (induction ps)
    case (Cons p ps)
    obtain l i where p: "p = (l, i)" by (cases p)
    with Cons.prems have l: "l < num_levels d" by simp
    let ?s = "(sw_pos S l + i) mod num_slots d"
    have s: "?s < num_slots d" using N by simp
    obtain he where he: "timers w (head_ix w l ?s) = Some he" "chain (timers w) (te_next he) (sw_slots S l ?s)"
      using lk l s by (rule linked_slot)
    have small: "\<forall>h\<in>handles (sw_slots S l ?s). h < EMPTY_INDEX" using lk l s by (meson linked_in_slot linked_small)
    have ne: "te_next he \<noteq> EMPTY_INDEX \<longleftrightarrow> sw_slots S l ?s \<noteq> []"
      using he(2) chain_none small chain_link by fastforce
    have IH: "next_expiration_slots d w ps = Some
      (case find (\<lambda>(l, i). sw_slots S l ((sw_pos S l + i) mod num_slots d) \<noteq> []) ps of
        None \<Rightarrow> None
      | Some (l, i) \<Rightarrow> Some (Min ((fst \<circ> snd) ` set (sw_slots S l ((sw_pos S l + i) mod num_slots d)))))"
      using Cons by simp
    show ?case
      using p IH wheel_rel_position(1)[OF rel l] wheel_rel_heads[OF rel l s] he(1) N ne
        min_expire_from_refines[OF he(2) small]
      by (simp add: checked_simps)
  qed simp
  show ?thesis unfolding next_expiration_def sw_next_expiration_def by (rule main) auto
qed

section \<open>A freshly initialised wheel\<close>

lemma init_heads_frame:
  "length (levels (init_heads keys i ps w)) = length (levels w) \<and>
   current_time (init_heads keys i ps w) = current_time w \<and>
   (\<forall>l<length (levels w). position (levels (init_heads keys i ps w) ! l) = position (levels w ! l) \<and>
      length (slots (levels (init_heads keys i ps w) ! l)) = length (slots (levels w ! l)))"
  by (induction keys i ps w rule: init_heads.induct) (auto simp: nth_list_update_if)

lemma init_heads_timers:
  "timers (init_heads keys i ps w) =
   (\<lambda>k. if k \<in> keys ` {i..<i + length ps}
        then Some \<lparr>te_next = EMPTY_INDEX, te_previous = EMPTY_INDEX, te_data = Head\<rparr> else timers w k)"
proof (induction keys i ps w rule: init_heads.induct)
  case (2 keys i l s ps w)
  have "{i..<i + length ((l, s) # ps)} = insert i {Suc i..<Suc i + length ps}" by auto
  with 2 show ?case by (auto simp: fun_eq_iff)
qed simp

lemma init_heads_head:
  assumes "distinct ps" "\<forall>(l, s)\<in>set ps. l < length (levels w) \<and> s < length (slots (levels w ! l))"
  shows "head_ix (init_heads keys i ps w) l s =
    (case find (\<lambda>j. ps ! j = (l, s)) [0..<length ps] of
       Some j \<Rightarrow> keys (i + j) mod 2 ^ 32 | None \<Rightarrow> head_ix w l s)"
  using assms
proof (induction keys i ps w rule: init_heads.induct)
  case (2 keys i l0 s0 ps w)
  let ?w = "w\<lparr>timers := (timers w)(keys i \<mapsto>
            \<lparr>te_next = EMPTY_INDEX, te_previous = EMPTY_INDEX, te_data = Head\<rparr>),
          levels := (levels w)[l0 := (levels w ! l0)\<lparr>slots :=
            (slots (levels w ! l0))[s0 := keys i mod 2 ^ 32]\<rparr>]\<rparr>"
  have hw: "head_ix ?w l s = (if (l, s) = (l0, s0) then keys i mod 2 ^ 32 else head_ix w l s)"
    using "2.prems"(2) by (cases "l = l0"; cases "s = s0") (auto simp: head_ix_def)
  have up: "[0..<length ((l0, s0) # ps)] = 0 # map Suc [0..<length ps]"
    by (simp add: upt_conv_Cons map_Suc_upt del: upt_Suc)
  have fm: "find P (map Suc js) = map_option Suc (find (\<lambda>j. P (Suc j)) js)" for P js
    by (induction js) auto
  have IH: "head_ix (init_heads keys (Suc i) ps ?w) l s =
    (case find (\<lambda>j. ps ! j = (l, s)) [0..<length ps] of
       Some j \<Rightarrow> keys (Suc i + j) mod 2 ^ 32 | None \<Rightarrow> head_ix ?w l s)"
    by (rule "2.IH") (use "2.prems" in \<open>auto simp: nth_list_update\<close>)
  show ?case
  proof (cases "(l, s) = (l0, s0)")
    case True
    with "2.prems"(1) have "find (\<lambda>j. ps ! j = (l, s)) [0..<length ps] = None"
      by (auto simp: find_None_upt in_set_conv_nth)
    with IH hw True show ?thesis unfolding up by simp
  next
    case False
    with IH hw show ?thesis unfolding up by (auto simp: fm split: option.split)
  qed
qed simp

theorem init_refines:
  assumes d: "dims_ok d" and inj: "inj_on keys {..<num_levels d * num_slots d}"
    and small: "\<forall>i<num_levels d * num_slots d. keys i < EMPTY_INDEX"
  shows "wheel_rel d (init d keys :: 'c timer_wheel) [] sw_new"
proof -
  let ?ps = "List.product [0..<num_levels d] [0..<num_slots d]" and ?n = "num_levels d * num_slots d"
  let ?u = "uninit_wheel d :: 'c timer_wheel" and ?w = "init d keys :: 'c timer_wheel"
  have lenp: "length ?ps = ?n" by simp
  have dp: "distinct ?ps" by (simp add: distinct_product)
  have bounds: "\<forall>(l, s)\<in>set ?ps. l < length (levels ?u) \<and> s < length (slots (levels ?u ! l))"
    by (auto simp: uninit_wheel_def)
  have k32: "keys i mod 2 ^ 32 = keys i" if "i < ?n" for i
  proof -
    have "keys i < EMPTY_INDEX" using small that by blast
    then show ?thesis by (simp add: EMPTY_INDEX_def U32_MAX_def)
  qed
  have hd: "\<exists>j<?n. ?ps ! j = (l, s) \<and> head_ix ?w l s = keys j"
    if "l < num_levels d" "s < num_slots d" for l s
  proof -
    have "(l, s) \<in> set ?ps" using that by simp
    then obtain j where "j < ?n" "?ps ! j = (l, s)" using lenp by (metis in_set_conv_nth)
    then have "find (\<lambda>j. ?ps ! j = (l, s)) [0..<?n] \<noteq> None" by (auto simp: find_None_upt)
    then obtain k where "find (\<lambda>j. ?ps ! j = (l, s)) [0..<?n] = Some k" by auto
    moreover from this have "k < ?n" "?ps ! k = (l, s)" by (auto simp: find_Some_least)
    ultimately show ?thesis
      using init_heads_head[OF dp bounds, of keys 0 l s] k32 by (auto simp: init_def lenp)
  qed
  have tm: "timers ?w = (\<lambda>k. if k \<in> keys ` {..<?n}
      then Some \<lparr>te_next = EMPTY_INDEX, te_previous = EMPTY_INDEX, te_data = Head\<rparr> else None)"
  proof -
    have "timers ?u = Map.empty" by (simp add: uninit_wheel_def)
    then show ?thesis by (simp add: init_def init_heads_timers lenp atLeast0LessThan fun_eq_iff)
  qed
  have "slot_linked (timers ?w) (head_ix ?w l s) []"
    if "l < num_levels d" "s < num_slots d" for l s
    using hd[OF that] by (auto simp: slot_linked_def tm)
  moreover have "heads_distinct d (head_ix ?w)"
    unfolding heads_distinct_def
  proof (intro allI impI)
    fix l s l' s'
    assume b: "l < num_levels d" "s < num_slots d" "l' < num_levels d" "s' < num_slots d"
      and eq: "head_ix ?w l s = head_ix ?w l' s'"
    obtain j j' where "j < ?n" "?ps ! j = (l, s)" "j' < ?n" "?ps ! j' = (l', s')" "keys j = keys j'"
      using hd[OF b(1,2)] hd[OF b(3,4)] eq by auto
    moreover from this have "j = j'" using inj_onD[OF inj] by auto
    ultimately show "l = l' \<and> s = s'" by auto
  qed
  moreover have "pool_ok d (head_ix ?w) (timers ?w) [] (\<lambda>_ _. [])"
  proof -
    have "\<exists>l<num_levels d. \<exists>s<num_slots d. keys i = head_ix ?w l s" if i: "i < ?n" for i
    proof -
      obtain l s where ls: "?ps ! i = (l, s)" by fastforce
      then have "(l, s) \<in> set ?ps" using i lenp by (metis nth_mem)
      then have b: "l < num_levels d" "s < num_slots d" by auto
      obtain j where "j < ?n" "?ps ! j = (l, s)" "head_ix ?w l s = keys j" using hd[OF b] by auto
      moreover from this have "j = i" using ls i dp lenp by (metis nth_eq_iff_index_eq)
      ultimately show ?thesis using b by metis
    qed
    then show ?thesis using small by (auto simp: pool_ok_def tm split: if_splits)
  qed
  ultimately have "linked d (head_ix ?w) (timers ?w) [] (\<lambda>_ _. [])"
    by (simp add: linked_def slots_disjoint_def flight_ok_def)
  moreover have "shape_rel d ?w sw_new"
    using init_heads_frame[of keys 0 ?ps ?u] d
    by (simp add: shape_rel_def init_def sw_new_def uninit_wheel_def dims_ok_def)
  ultimately show ?thesis using d by (simp add: wheel_rel_def sw_new_def)
qed

end
