(* ===== verification/Slot_Timing.thy ===== *)
theory Slot_Timing
  imports Slot_Wheel
begin

text \<open>
  Which timers a tick returns, on the level of slot lists: conservation of timers and the
  invariant \<open>timed\<close> under which every timer fires in exactly the tick of its expire time.
\<close>

section \<open>Conservation\<close>

definition pending :: "wheel_dims \<Rightarrow> 'c slot_wheel \<Rightarrow> (nat \<times> nat \<times> 'c) multiset" where
  "pending d S = (\<Sum>l<num_levels d. \<Sum>s<num_slots d. mset (sw_slots S l s))"

lemma pending_put:
  assumes "l < num_levels d" "s < num_slots d"
  shows "pending d (sw_put l s ys S) + mset (sw_slots S l s) = pending d S + mset ys"
proof -
  let ?L = "{..<num_levels d}" and ?N = "{..<num_slots d}"
  have split: "(\<Sum>l'\<in>?L. \<Sum>s'\<in>?N. f l' s') =
      f l s + (\<Sum>s'\<in>?N - {s}. f l s') + (\<Sum>l'\<in>?L - {l}. \<Sum>s'\<in>?N. f l' s')" for f :: "nat \<Rightarrow> nat \<Rightarrow> (nat \<times> nat \<times> 'a) multiset"
    using assms by (simp add: sum.remove[of ?L l] sum.remove[of ?N s])
  have row: "(\<Sum>l'\<in>?L - {l}. \<Sum>s'\<in>?N. mset (sw_slots (sw_put l s ys S) l' s')) =
      (\<Sum>l'\<in>?L - {l}. \<Sum>s'\<in>?N. mset (sw_slots S l' s'))"
    by (rule sum.cong) auto
  have col: "(\<Sum>s'\<in>?N - {s}. mset (sw_slots (sw_put l s ys S) l s')) = (\<Sum>s'\<in>?N - {s}. mset (sw_slots S l s'))"
    by (rule sum.cong) auto
  show ?thesis unfolding pending_def split by (simp add: row col del: sw_put_simps) (simp add: ac_simps)
qed

lemma pending_add:
  assumes "dims_ok d"
  shows "pending d (sw_add d x S) = add_mset x (pending d S)"
proof -
  obtain l s where pl: "place d (sw_pos S) (fst (snd x) - sw_time S) = (l, s)" by fastforce
  from pending_put[OF place_bounds[OF assms pl], of "x # sw_slots S l s" S] pl show ?thesis
    by (simp add: sw_add_def)
qed

definition is_due :: "nat \<Rightarrow> nat \<times> nat \<times> 'c \<Rightarrow> bool" where
  "is_due t x \<longleftrightarrow> fst (snd x) \<le> t"

definition context_of :: "nat \<times> nat \<times> 'c \<Rightarrow> 'c" where
  "context_of x = snd (snd x)"

lemma drain_effect:
  assumes "dims_ok d"
  shows "fst (sw_drain d xs ex S) = ex @ map context_of (filter (is_due (sw_time S)) xs)"
    and "pending d (snd (sw_drain d xs ex S)) = pending d S + mset (filter (\<lambda>x. \<not> is_due (sw_time S) x) xs)"
  using assms
  by (induction d xs ex S rule: sw_drain.induct) (auto simp: is_due_def context_of_def pending_add)

lemma level_step_effect:
  assumes d: "dims_ok d" and l: "l < num_levels d" "sw_pos S l < num_slots d"
  defines "X \<equiv> filter (is_due (sw_time S)) (sw_slots S l (sw_pos S l))"
  shows "fst (sw_level_step d l S) = map context_of X"
    and "pending d S = pending d (snd (sw_level_step d l S)) + mset X"
proof -
  have adv: "pending d (sw_advance d l' S') = pending d S'" for l' S' by (simp add: pending_def)
  show "fst (sw_level_step d l S) = map context_of X"
    by (simp add: sw_level_step_def split_beta drain_effect(1)[OF d] X_def)
  define Y where "Y = filter (\<lambda>x. \<not> is_due (sw_time S) x) (sw_slots S l (sw_pos S l))"
  have "mset (sw_slots S l (sw_pos S l)) = mset X + mset Y"
    unfolding X_def Y_def mset_filter by (rule multiset_partition)
  moreover have "pending d (sw_put l (sw_pos S l) [] S) + mset (sw_slots S l (sw_pos S l)) = pending d S"
    using pending_put[OF l, of "[]" S] by simp
  moreover have "pending d (snd (sw_level_step d l S)) = pending d (sw_put l (sw_pos S l) [] S) + mset Y"
    by (simp add: sw_level_step_def split_beta drain_effect(2)[OF d] adv Y_def)
  ultimately show "pending d S = pending d (snd (sw_level_step d l S)) + mset X"
    by (simp add: ac_simps)
qed

definition pos_ok :: "wheel_dims \<Rightarrow> 'c slot_wheel \<Rightarrow> bool" where
  "pos_ok d S \<longleftrightarrow> (\<forall>l<num_levels d. sw_pos S l < num_slots d)"

lemma pos_ok_level_step: "dims_ok d \<Longrightarrow> pos_ok d S \<Longrightarrow> pos_ok d (snd (sw_level_step d l S))"
  by (auto simp: pos_ok_def dims_ok_def)

lemma process_effect:
  assumes "dims_ok d" "pos_ok d S"
  shows "\<exists>X. fst (sw_process d l S) = map context_of X \<and> pending d S = pending d (snd (sw_process d l S)) + mset X
    \<and> (\<forall>x\<in>set X. is_due (sw_time S) x) \<and> pos_ok d (snd (sw_process d l S))"
  using assms
proof (induction d l S rule: sw_process.induct)
  case (1 d l S)
  show ?case
  proof (cases "num_levels d \<le> l")
    case True
    with "1.prems" show ?thesis by (simp add: sw_process.simps)
  next
    case False
    then have l: "l < num_levels d" "sw_pos S l < num_slots d" using "1.prems" by (auto simp: pos_ok_def)
    let ?S1 = "snd (sw_level_step d l S)" and ?X = "filter (is_due (sw_time S)) (sw_slots S l (sw_pos S l))"
    note eff = level_step_effect[OF "1.prems"(1) l]
    have ok: "pos_ok d ?S1" using "1.prems" by (rule pos_ok_level_step)
    show ?thesis
    proof (cases "sw_pos ?S1 l = 0")
      case True
      obtain Y where Y: "fst (sw_process d (l + 1) ?S1) = map context_of Y"
        "pending d ?S1 = pending d (snd (sw_process d (l + 1) ?S1)) + mset Y"
        "\<forall>x\<in>set Y. is_due (sw_time S) x" "pos_ok d (snd (sw_process d (l + 1) ?S1))"
        using "1.IH"[OF False refl prod.collapse True "1.prems"(1) ok] by auto
      have "sw_process d l S = (fst (sw_level_step d l S) @ fst (sw_process d (l + 1) ?S1), snd (sw_process d (l + 1) ?S1))"
        using False True by (subst sw_process.simps) (simp add: split_beta Let_def)
      with eff Y show ?thesis by (intro exI[of _ "?X @ Y"]) (auto simp: ac_simps)
    next
      case no: False
      have "sw_process d l S = (fst (sw_level_step d l S), ?S1)"
        using False no by (subst sw_process.simps) (simp add: split_beta Let_def)
      with eff ok show ?thesis by (intro exI[of _ ?X]) auto
    qed
  qed
qed

lemma tick_effect:
  assumes "dims_ok d" "pos_ok d S"
  shows "\<exists>X. fst (sw_tick d S) = map context_of X \<and> pending d S = pending d (snd (sw_tick d S)) + mset X
    \<and> (\<forall>x\<in>set X. is_due (sw_time S + 1) x) \<and> pos_ok d (snd (sw_tick d S))"
  using process_effect[OF assms(1), of "S\<lparr>sw_time := sw_time S + 1\<rparr>" 0] assms(2)
  by (simp add: sw_tick_def pos_ok_def pending_def)

section \<open>Exact firing\<close>

text \<open>
  \<open>Q l\<close> counts the steps level \<open>l\<close> has taken.  The slot \<open>k\<close> places ahead of the position of
  level \<open>l\<close> is emptied by step \<open>Q l + k + 1\<close>, at time \<open>(Q l + k + 1) * N ^ l\<close>; \<open>timed\<close> says
  that every timer in it expires at that time or before the step that follows it.
\<close>

definition timed :: "wheel_dims \<Rightarrow> (nat \<Rightarrow> nat) \<Rightarrow> 'c slot_wheel \<Rightarrow> bool" where
  "timed d Q S \<longleftrightarrow> (\<forall>l<num_levels d. sw_pos S l = Q l mod num_slots d \<and>
     (\<forall>k<num_slots d. \<forall>x\<in>set (sw_slots S l ((Q l + k) mod num_slots d)).
        (Q l + k + 1) * num_slots d ^ l \<le> fst (snd x) \<and> fst (snd x) < (Q l + k + 2) * num_slots d ^ l))"

definition steps_at :: "wheel_dims \<Rightarrow> nat \<Rightarrow> nat \<Rightarrow> nat" where
  "steps_at d t l = t div num_slots d ^ l"

text \<open>Level \<open>m\<close> is about to step at time \<open>t\<close>: the levels below have taken the step of time \<open>t\<close>.\<close>

definition steps_during :: "wheel_dims \<Rightarrow> nat \<Rightarrow> nat \<Rightarrow> nat \<Rightarrow> nat" where
  "steps_during d t m l = (if l < m then t div num_slots d ^ l else (t - 1) div num_slots d ^ l)"

definition carry_free :: "wheel_dims \<Rightarrow> nat \<Rightarrow> nat \<Rightarrow> bool" where
  "carry_free d t e \<longleftrightarrow> t < e \<and> e - t < num_slots d ^ num_levels d \<and>
     (let M = num_slots d ^ fst (place d (\<lambda>_. 0) (e - t)) in t mod M + (e - t) mod M < M)"

lemma place_near:
  assumes "l < num_levels d" "delta < num_slots d ^ (l + 1)" "\<forall>k<l. num_slots d ^ (k + 1) \<le> delta"
  shows "place d pos delta = (l, (pos l + delta div num_slots d ^ l - 1) mod num_slots d)"
proof -
  have "find (\<lambda>l. delta < num_slots d ^ (l + 1)) [0..<num_levels d] = Some l"
    using assms by (auto simp: find_Some_least not_less)
  then show ?thesis by (simp add: place_def)
qed

lemma place_level_ex:
  assumes "dims_ok d" "0 < delta" "delta < num_slots d ^ m" "m \<le> num_levels d"
  obtains l where "l < m" "delta < num_slots d ^ (l + 1)" "\<forall>k<l. num_slots d ^ (k + 1) \<le> delta"
    "num_slots d ^ l \<le> delta"
proof -
  define l where "l = (LEAST l. delta < num_slots d ^ (l + 1))"
  have m: "0 < m" using assms by (cases m) auto
  have ex: "delta < num_slots d ^ (m - 1 + 1)" using assms m by simp
  have 1: "delta < num_slots d ^ (l + 1)" unfolding l_def by (rule LeastI) (rule ex)
  have 2: "l \<le> m - 1" unfolding l_def by (rule Least_le) (rule ex)
  have 3: "\<forall>k<l. num_slots d ^ (k + 1) \<le> delta"
    unfolding l_def using not_less_Least not_less by blast
  have "num_slots d ^ l \<le> delta"
  proof (cases l)
    case (Suc k)
    with 3 show ?thesis by auto
  qed (use assms in simp)
  with 1 2 3 m show thesis by (intro that) auto
qed

text \<open>A timer placed at time \<open>t\<close> on a level that has taken \<open>t div N ^ l\<close> steps is timed.\<close>

lemma timed_slot_add:
  fixes N :: nat
  assumes "0 < N" "t < e" "N ^ l \<le> e - t" "e - t < N ^ (l + 1)"
    and carry: "t mod N ^ l + (e - t) mod N ^ l < N ^ l"
  defines "q \<equiv> t div N ^ l" and "k \<equiv> (e - t) div N ^ l - 1"
  shows "k < N" "(q mod N + (e - t) div N ^ l - 1) mod N = (q + k) mod N"
    "(q + k + 1) * N ^ l \<le> e" "e < (q + k + 2) * N ^ l"
proof -
  let ?M = "N ^ l" and ?dl = "e - t"
  have M: "0 < ?M" using assms(1) by simp
  have dv: "1 \<le> ?dl div ?M" using assms(3) M by (simp add: Suc_leI div_greater_zero_iff)
  have "?dl div ?M < N" using assms(4) by (simp add: less_mult_imp_div_less)
  then show "k < N" by (simp add: k_def less_imp_diff_less)
  have k1: "?dl div ?M = k + 1" using dv by (simp add: k_def)
  then show "(q mod N + ?dl div ?M - 1) mod N = (q + k) mod N" by (simp add: mod_simps)
  have t: "t = q * ?M + t mod ?M" by (simp add: q_def div_mult_mod_eq)
  have dl: "?dl = (k + 1) * ?M + ?dl mod ?M" using k1 by (metis div_mult_mod_eq)
  have e: "e = (q + k + 1) * ?M + (t mod ?M + ?dl mod ?M)"
  proof -
    have "e = t + ?dl" using assms(2) by simp
    also have "\<dots> = (q * ?M + t mod ?M) + ((k + 1) * ?M + ?dl mod ?M)" using t dl by metis
    finally show ?thesis by (simp add: algebra_simps)
  qed
  then show "(q + k + 1) * ?M \<le> e" by linarith
  have "e < (q + k + 1) * ?M + ?M" using e carry by linarith
  then show "e < (q + k + 2) * ?M" by (simp add: algebra_simps)
qed

text \<open>The slot a timer goes to is determined by its offset from the position.\<close>

lemma offset_unique:
  assumes "(q + j) mod N = (q + k) mod (N::nat)" "j < N" "k < N"
  shows "j = k"
proof -
  have eq: "a = b" if "(q + a) mod N = (q + b) mod N" "a \<le> b" "b < N" for a b
  proof -
    have "N dvd (q + b) - (q + a)" using that mod_eq_dvd_iff_nat[of "q + a" "q + b" N] by simp
    then have "N dvd b - a" by simp
    with that show ?thesis using nat_dvd_not_less[of "b - a" N] by fastforce
  qed
  show ?thesis using eq[of j k] eq[of k j] assms by (cases "j \<le> k") auto
qed

lemma timedD:
  assumes "timed d Q S" "l < num_levels d"
  shows "sw_pos S l = Q l mod num_slots d"
    and "k < num_slots d \<Longrightarrow> x \<in> set (sw_slots S l ((Q l + k) mod num_slots d)) \<Longrightarrow>
      (Q l + k + 1) * num_slots d ^ l \<le> fst (snd x) \<and> fst (snd x) < (Q l + k + 2) * num_slots d ^ l"
  using assms by (auto simp: timed_def)

lemma timed_cong:
  assumes "timed d Q S" "\<And>l. l < num_levels d \<Longrightarrow> Q l = R l" "\<And>l. l < num_levels d \<Longrightarrow> sw_slots S l = sw_slots S' l"
    "\<And>l. l < num_levels d \<Longrightarrow> sw_pos S l = sw_pos S' l"
  shows "timed d R S'"
  using assms by (simp add: timed_def)

lemma timed_add:
  assumes "timed d Q S" "k < num_slots d"
    and pl: "place d (sw_pos S) (fst (snd x) - sw_time S) = (l, (Q l + k) mod num_slots d)"
    and b: "(Q l + k + 1) * num_slots d ^ l \<le> fst (snd x)" "fst (snd x) < (Q l + k + 2) * num_slots d ^ l"
  shows "timed d Q (sw_add d x S)"
  unfolding timed_def
proof (intro allI impI conjI ballI)
  fix l' j y assume l': "l' < num_levels d"
  then show "sw_pos (sw_add d x S) l' = Q l' mod num_slots d" using timedD(1)[OF assms(1)] by simp
  assume j: "j < num_slots d" and y: "y \<in> set (sw_slots (sw_add d x S) l' ((Q l' + j) mod num_slots d))"
  consider "y \<in> set (sw_slots S l' ((Q l' + j) mod num_slots d))"
    | "y = x" "l' = l" "(Q l + j) mod num_slots d = (Q l + k) mod num_slots d"
    using y pl by (auto simp: sw_add_slots split: if_splits)
  then have "(Q l' + j + 1) * num_slots d ^ l' \<le> fst (snd y) \<and> fst (snd y) < (Q l' + j + 2) * num_slots d ^ l'"
  proof cases
    case 2
    then have "j = k" using offset_unique j assms(2) by blast
    with 2 b show ?thesis by simp
  qed (use timedD(2)[OF assms(1) l' j] in blast)
  then show "(Q l' + j + 1) * num_slots d ^ l' \<le> fst (snd y)" "fst (snd y) < (Q l' + j + 2) * num_slots d ^ l'"
    by auto
qed

text \<open>The cascade re-adds a timer of level \<open>m\<close> below level \<open>m\<close>, where it stays timed.\<close>

lemma timed_cascade:
  assumes d: "dims_ok d" and m: "m < num_levels d" and S: "timed d (steps_during d t m) S" "sw_time S = t"
    and t: "num_slots d ^ m dvd t" and e: "t < fst (snd x)" "fst (snd x) < t + num_slots d ^ m"
  shows "timed d (steps_during d t m) (sw_add d x S)"
    and "sw_slots (sw_add d x S) m = sw_slots S m"
proof -
  let ?N = "num_slots d" and ?e = "fst (snd x)" and ?Q = "steps_during d t m"
  have "0 < ?e - t" "?e - t < ?N ^ m" using e by auto
  then obtain l where l: "l < m" "?e - t < ?N ^ (l + 1)" "\<forall>k<l. ?N ^ (k + 1) \<le> ?e - t" "?N ^ l \<le> ?e - t"
    using place_level_ex[OF d _ _ less_imp_le[OF m]] by blast
  have N: "0 < ?N" using d by (simp add: dims_ok_def)
  have "?N ^ l dvd t" using l(1) t by (meson dvd_trans le_imp_power_dvd less_imp_le)
  then have carry: "t mod ?N ^ l + (?e - t) mod ?N ^ l < ?N ^ l" using N by simp
  note add = timed_slot_add[OF N e(1) l(4) l(2) carry]
  have Q: "?Q l = t div ?N ^ l" using l(1) by (simp add: steps_during_def)
  have pos: "sw_pos S l = t div ?N ^ l mod ?N" using timedD(1)[OF S(1)] l(1) m Q by simp
  have "l < num_levels d" using l(1) m by simp
  from place_near[OF this l(2,3), of "sw_pos S"] have
    pl: "place d (sw_pos S) (?e - sw_time S) = (l, (?Q l + ((?e - t) div ?N ^ l - 1)) mod ?N)"
    using add(2) pos Q S(2) by simp
  show "timed d ?Q (sw_add d x S)"
    by (rule timed_add[OF S(1) add(1) pl]) (use add(3,4) Q in simp_all)
  show "sw_slots (sw_add d x S) m = sw_slots S m"
    using pl l(1) by (auto simp: sw_add_slots)
qed

lemma timed_drain:
  assumes "dims_ok d" "m < num_levels d" "num_slots d ^ m dvd t"
    and "timed d (steps_during d t m) S" "sw_time S = t"
    and "\<forall>x\<in>set xs. t \<le> fst (snd x) \<and> fst (snd x) < t + num_slots d ^ m"
  shows "timed d (steps_during d t m) (snd (sw_drain d xs ex S))
    \<and> sw_slots (snd (sw_drain d xs ex S)) m = sw_slots S m"
  using assms
proof (induction d xs ex S rule: sw_drain.induct)
  case (2 d h e c xs ex S)
  show ?case
  proof (cases "e \<le> sw_time S")
    case False
    then have *: "t < e" "e < t + num_slots d ^ m" using "2.prems" by auto
    note c = timed_cascade[OF "2.prems"(1,2,4,5,3), of "(h, e, c)"]
    from "2.IH"(2)[OF False "2.prems"(1-3)] c * "2.prems"(5,6) False show ?thesis by simp
  qed (use 2 in simp)
qed simp

lemma steps_during_dvd:
  assumes "0 < t" "num_slots d ^ m dvd t"
  shows "(steps_during d t m m + 1) * num_slots d ^ m = t" "steps_during d t m m + 1 = t div num_slots d ^ m"
proof -
  obtain n where t: "t = Suc n" using assms(1) by (cases t) auto
  have "Suc n mod num_slots d ^ m = 0" using assms(2) t by simp
  then have "Suc (n div num_slots d ^ m) = Suc n div num_slots d ^ m" by (simp add: div_Suc)
  then show *: "steps_during d t m m + 1 = t div num_slots d ^ m" by (simp add: steps_during_def t)
  show "(steps_during d t m m + 1) * num_slots d ^ m = t" unfolding * using assms(2) by simp
qed

lemma steps_during_Suc:
  assumes "0 < t" "num_slots d ^ m dvd t"
  shows "steps_during d t (m + 1) = (steps_during d t m)(m := steps_during d t m m + 1)"
  using steps_during_dvd(2)[OF assms] by (auto simp: steps_during_def fun_eq_iff less_Suc_eq)

text \<open>When level \<open>m\<close> does not wrap round, the levels above it have nothing to do.\<close>

lemma steps_during_stop:
  assumes "0 < t" "\<not> num_slots d ^ (m + 1) dvd t"
  shows "steps_during d t (m + 1) = steps_at d t"
proof
  fix l
  show "steps_during d t (m + 1) l = steps_at d t l"
  proof (cases "l < m + 1")
    case False
    obtain n where t: "t = Suc n" using assms(1) by (cases t) auto
    have "\<not> num_slots d ^ l dvd t"
      using assms(2) False by (meson dvd_trans le_imp_power_dvd not_less)
    then have "Suc n div num_slots d ^ l = n div num_slots d ^ l" by (simp add: t div_Suc dvd_eq_mod_eq_0)
    with False t show ?thesis by (simp add: steps_during_def steps_at_def)
  qed (simp add: steps_during_def steps_at_def)
qed

lemma timed_advance:
  assumes "timed d Q S" "m < num_levels d" "0 < num_slots d" "sw_slots S m (sw_pos S m) = []"
  shows "timed d (Q(m := Q m + 1)) (sw_advance d m S)"
  unfolding timed_def
proof (intro allI impI conjI ballI)
  fix l j y assume l: "l < num_levels d"
  show "sw_pos (sw_advance d m S) l = (Q(m := Q m + 1)) l mod num_slots d"
    using timedD(1)[OF assms(1) l] by (auto simp: mod_Suc_eq)
  let ?R = "Q(m := Q m + 1)" and ?N = "num_slots d"
  assume j: "j < ?N" and y: "y \<in> set (sw_slots (sw_advance d m S) l ((?R l + j) mod ?N))"
  have "(?R l + j + 1) * ?N ^ l \<le> fst (snd y) \<and> fst (snd y) < (?R l + j + 2) * ?N ^ l"
  proof (cases "l = m")
    case True
    have "Suc j \<noteq> ?N"
    proof
      assume N: "Suc j = ?N"
      have "(Q m + Suc j) mod ?N = Q m mod ?N" using N by simp
      then show False using y True assms(4) timedD(1)[OF assms(1,2)] by simp
    qed
    with j have "Suc j < ?N" by simp
    from timedD(2)[OF assms(1,2) this, of y] y True show ?thesis by simp
  next
    case False
    with timedD(2)[OF assms(1) l j, of y] y show ?thesis by simp
  qed
  then show "(?R l + j + 1) * ?N ^ l \<le> fst (snd y)" "fst (snd y) < (?R l + j + 2) * ?N ^ l" by auto
qed

lemma timed_put_nil:
  assumes "timed d Q S" shows "timed d Q (sw_put l s [] S)"
  using assms by (auto simp: timed_def)

lemma timed_level_step:
  assumes d: "dims_ok d" and m: "m < num_levels d" and t: "0 < t" "num_slots d ^ m dvd t" "sw_time S = t"
    and S: "timed d (steps_during d t m) S"
  shows "timed d (steps_during d t (m + 1)) (snd (sw_level_step d m S))"
    and "\<forall>x\<in>set (sw_slots S m (sw_pos S m)). t \<le> fst (snd x) \<and> fst (snd x) < t + num_slots d ^ m"
proof -
  let ?Q = "steps_during d t m" and ?N = "num_slots d"
  have N: "0 < ?N" using d by (simp add: dims_ok_def)
  have pos: "sw_pos S m = (?Q m + 0) mod ?N" using timedD(1)[OF S m] by simp
  have low: "(?Q m + 0 + 1) * ?N ^ m = t" and high: "(?Q m + 0 + 2) * ?N ^ m = t + ?N ^ m"
    using steps_during_dvd(1)[OF t(1,2)] by auto
  show X: "\<forall>x\<in>set (sw_slots S m (sw_pos S m)). t \<le> fst (snd x) \<and> fst (snd x) < t + ?N ^ m"
    using timedD(2)[OF S m N] unfolding pos low high by blast
  let ?S0 = "sw_put m (sw_pos S m) [] S"
  let ?S1 = "snd (sw_drain d (sw_slots S m (sw_pos S m)) [] ?S0)"
  have "timed d ?Q ?S0" "sw_time ?S0 = t" using S t(3) by (auto intro: timed_put_nil)
  from timed_drain[OF d m t(2) this X] have
    S1: "timed d ?Q ?S1" "sw_slots ?S1 m = sw_slots ?S0 m" by auto
  have "timed d (?Q(m := ?Q m + 1)) (sw_advance d m ?S1)"
    by (rule timed_advance[OF S1(1) m N]) (simp add: S1(2))
  then show "timed d (steps_during d t (m + 1)) (snd (sw_level_step d m S))"
    using steps_during_Suc[OF t(1,2)] by (simp add: sw_level_step_def split_beta)
qed

lemma pos_ok_timed: "dims_ok d \<Longrightarrow> timed d Q S \<Longrightarrow> pos_ok d S"
  by (auto simp: pos_ok_def timed_def dims_ok_def)

lemma filter_due_exact:
  assumes "\<forall>x\<in>set xs. t \<le> fst (snd x)"
  shows "filter (is_due t) xs = filter (\<lambda>x. fst (snd x) = t) xs"
  using assms by (auto simp: is_due_def intro!: filter_cong)

lemma process_exact:
  assumes "dims_ok d" "0 < sw_time S" "num_slots d ^ m dvd sw_time S" "timed d (steps_during d (sw_time S) m) S"
  shows "timed d (steps_at d (sw_time S)) (snd (sw_process d m S)) \<and>
    (\<exists>X. fst (sw_process d m S) = map context_of X \<and> pending d S = pending d (snd (sw_process d m S)) + mset X
      \<and> (\<forall>x\<in>set X. fst (snd x) = sw_time S))"
  using assms
proof (induction d m S rule: sw_process.induct)
  case (1 d m S)
  let ?t = "sw_time S"
  show ?case
  proof (cases "num_levels d \<le> m")
    case True
    then have "timed d (steps_at d ?t) S"
      by (intro timed_cong[OF "1.prems"(4)]) (auto simp: steps_during_def steps_at_def)
    with True show ?thesis by (simp add: sw_process.simps)
  next
    case False
    then have m: "m < num_levels d" by simp
    let ?S1 = "snd (sw_level_step d m S)" and ?X = "filter (is_due ?t) (sw_slots S m (sw_pos S m))"
    note pos = pos_ok_timed[OF "1.prems"(1,4)]
    then have "sw_pos S m < num_slots d" using m by (simp add: pos_ok_def)
    note eff = level_step_effect[OF "1.prems"(1) m this]
    note st = timed_level_step[OF "1.prems"(1) m "1.prems"(2,3) refl "1.prems"(4)]
    have X: "\<forall>x\<in>set ?X. fst (snd x) = ?t" using st(2) by (auto simp: is_due_def)
    have p1: "sw_pos ?S1 m = ?t div num_slots d ^ m mod num_slots d"
      using timedD(1)[OF st(1) m] by (simp add: steps_during_def)
    show ?thesis
    proof (cases "sw_pos ?S1 m = 0")
      case True
      then have "num_slots d dvd ?t div num_slots d ^ m" using p1 by (simp add: dvd_eq_mod_eq_0)
      then have dv: "num_slots d ^ (m + 1) dvd ?t"
        using "1.prems"(3) by (metis dvd_div_iff_mult mult.commute power_add power_one_right dvd_0_left_iff "1.prems"(2) less_not_refl)
      have IH: "timed d (steps_at d ?t) (snd (sw_process d (m + 1) ?S1)) \<and>
        (\<exists>Y. fst (sw_process d (m + 1) ?S1) = map context_of Y \<and>
          pending d ?S1 = pending d (snd (sw_process d (m + 1) ?S1)) + mset Y \<and> (\<forall>x\<in>set Y. fst (snd x) = ?t))"
        using "1.IH"[OF False refl prod.collapse True "1.prems"(1)] "1.prems"(2) dv st(1) by simp
      then obtain Y where Y: "fst (sw_process d (m + 1) ?S1) = map context_of Y"
        "pending d ?S1 = pending d (snd (sw_process d (m + 1) ?S1)) + mset Y" "\<forall>x\<in>set Y. fst (snd x) = ?t" by blast
      have "sw_process d m S = (fst (sw_level_step d m S) @ fst (sw_process d (m + 1) ?S1), snd (sw_process d (m + 1) ?S1))"
        using False True by (subst sw_process.simps) (simp add: split_beta Let_def)
      then have "fst (sw_process d m S) = map context_of (?X @ Y)"
        "pending d S = pending d (snd (sw_process d m S)) + mset (?X @ Y)"
        "timed d (steps_at d ?t) (snd (sw_process d m S))"
        using eff Y(1,2) IH by (simp_all add: ac_simps)
      moreover have "\<forall>x\<in>set (?X @ Y). fst (snd x) = ?t" using X Y(3) by (metis Un_iff set_append)
      ultimately show ?thesis by blast
    next
      case no: False
      have "\<not> num_slots d ^ (m + 1) dvd ?t"
      proof
        assume "num_slots d ^ (m + 1) dvd ?t"
        then obtain q where "?t = num_slots d ^ (m + 1) * q" by blast
        then have "?t div num_slots d ^ m = num_slots d * q"
          using "1.prems"(1) by (simp add: dims_ok_def)
        with no p1 show False by simp
      qed
      then have "timed d (steps_at d ?t) ?S1" using st(1) steps_during_stop[OF "1.prems"(2)] by metis
      moreover have "sw_process d m S = (fst (sw_level_step d m S), ?S1)"
        using False no by (subst sw_process.simps) (simp add: split_beta Let_def)
      ultimately show ?thesis using eff X by (metis fst_conv snd_conv)
    qed
  qed
qed

definition on_time :: "wheel_dims \<Rightarrow> 'c slot_wheel \<Rightarrow> bool" where
  "on_time d S \<longleftrightarrow> timed d (steps_at d (sw_time S)) S"

lemma in_pending:
  "x \<in># pending d S \<longleftrightarrow> (\<exists>l<num_levels d. \<exists>s<num_slots d. x \<in> set (sw_slots S l s))"
  by (auto simp: pending_def set_mset_sum Bex_def)

text \<open>Every slot is some number of places, less than \<open>N\<close>, ahead of the position.\<close>

lemma slot_offset:
  assumes "s < (N::nat)"
  shows "\<exists>k<N. (q + k) mod N = s"
proof (intro exI conjI)
  have "q mod N < N" using assms by simp
  then have "q mod N + (s + N - q mod N) = s + N" by simp
  then have "(q mod N + (s + N - q mod N)) mod N = s" using assms by (simp del: add_diff_assoc)
  moreover have "(q + (s + N - q mod N) mod N) mod N = (q mod N + (s + N - q mod N)) mod N" by (simp add: mod_simps)
  ultimately show "(q + (s + N - q mod N) mod N) mod N = s" by simp
  show "(s + N - q mod N) mod N < N" using assms by simp
qed

lemma on_time_future:
  assumes "dims_ok d" "on_time d S" "x \<in># pending d S"
  shows "sw_time S < fst (snd x)"
proof -
  let ?N = "num_slots d" and ?t = "sw_time S"
  obtain l s where l: "l < num_levels d" "s < ?N" "x \<in> set (sw_slots S l s)"
    using assms(3) in_pending by blast
  let ?q = "steps_at d ?t l"
  have N: "0 < ?N" using assms(1) by (simp add: dims_ok_def)
  obtain k where k: "k < ?N" "(?q + k) mod ?N = s" using slot_offset[OF l(2)] by blast
  then have "(?q + k + 1) * ?N ^ l \<le> fst (snd x)"
    using timedD(2)[of d "steps_at d ?t" S l k x] assms(2) l by (simp add: on_time_def)
  moreover have "?t < (?q + 1) * ?N ^ l"
    using N dividend_less_div_times[of "?N ^ l" ?t] by (simp add: steps_at_def)
  moreover have "(?q + 1) * ?N ^ l \<le> (?q + k + 1) * ?N ^ l" by simp
  ultimately show ?thesis by linarith
qed

lemma on_time_tick:
  assumes "dims_ok d" "on_time d S"
  shows "on_time d (snd (sw_tick d S))"
    and "mset (fst (sw_tick d S)) = image_mset context_of (filter_mset (\<lambda>x. fst (snd x) = sw_time S + 1) (pending d S))"
    and "pending d (snd (sw_tick d S)) = filter_mset (\<lambda>x. fst (snd x) \<noteq> sw_time S + 1) (pending d S)"
proof -
  let ?S = "S\<lparr>sw_time := sw_time S + 1\<rparr>" and ?t = "sw_time S + 1" and ?S' = "snd (sw_tick d S)"
  have "timed d (steps_during d (sw_time ?S) 0) ?S"
    by (rule timed_cong[OF assms(2)[unfolded on_time_def]]) (auto simp: steps_during_def steps_at_def)
  from process_exact[OF assms(1) _ _ this] obtain X where
    on: "timed d (steps_at d ?t) ?S'" and X: "fst (sw_tick d S) = map context_of X"
    "pending d ?S = pending d ?S' + mset X" "\<forall>x\<in>set X. fst (snd x) = ?t"
    by (auto simp: sw_tick_def)
  then show on': "on_time d ?S'" by (simp add: on_time_def)
  have all: "filter_mset (\<lambda>x. fst (snd x) = ?t) (mset X) = mset X" "filter_mset (\<lambda>x. fst (snd x) \<noteq> ?t) (mset X) = {#}"
    using X(3) by (auto simp: filter_mset_eq_conv)
  have fut: "\<forall>x\<in>#pending d ?S'. fst (snd x) \<noteq> ?t" using on_time_future[OF assms(1) on'] by fastforce
  have none: "filter_mset (\<lambda>x. fst (snd x) = ?t) (pending d ?S') = {#}"
    "filter_mset (\<lambda>x. fst (snd x) \<noteq> ?t) (pending d ?S') = pending d ?S'"
    using fut by (auto simp: filter_mset_eq_conv)
  have X': "fst (sw_tick d S) = map context_of X" using X(1) .
  have p: "pending d S = pending d ?S' + mset X" using X(2) by (simp add: pending_def)
  show "mset (fst (sw_tick d S)) = image_mset context_of (filter_mset (\<lambda>x. fst (snd x) = ?t) (pending d S))"
    unfolding p X' filter_union_mset none all by simp
  show "pending d ?S' = filter_mset (\<lambda>x. fst (snd x) \<noteq> ?t) (pending d S)"
    unfolding p filter_union_mset none all by simp
qed

lemma on_time_add:
  assumes d: "dims_ok d" and S: "on_time d S" and free: "carry_free d (sw_time S) (fst (snd x))"
  shows "on_time d (sw_add d x S)"
proof -
  let ?N = "num_slots d" and ?e = "fst (snd x)" and ?t = "sw_time S"
  have free': "?t < ?e" "?e - ?t < ?N ^ num_levels d" using free by (auto simp: carry_free_def Let_def)
  then obtain l where l: "l < num_levels d" "?e - ?t < ?N ^ (l + 1)" "\<forall>k<l. ?N ^ (k + 1) \<le> ?e - ?t" "?N ^ l \<le> ?e - ?t"
    using place_level_ex[OF d, of "?e - ?t" "num_levels d"] by auto
  have carry: "?t mod ?N ^ l + (?e - ?t) mod ?N ^ l < ?N ^ l"
    using free place_near[OF l(1-3)] by (simp add: carry_free_def Let_def)
  have N: "0 < ?N" using d by (simp add: dims_ok_def)
  note add = timed_slot_add[OF N free'(1) l(4) l(2) carry]
  note S' = S[unfolded on_time_def]
  have Q: "steps_at d ?t l = ?t div ?N ^ l" by (simp add: steps_at_def)
  have pl: "place d (sw_pos S) (?e - sw_time S) = (l, (steps_at d ?t l + ((?e - ?t) div ?N ^ l - 1)) mod ?N)"
    using place_near[OF l(1-3), of "sw_pos S"] add(2) timedD(1)[OF S' l(1)] Q by simp
  have "timed d (steps_at d ?t) (sw_add d x S)"
    by (rule timed_add[OF S' add(1) pl]) (use add(3,4) Q in simp_all)
  then show ?thesis by (simp add: on_time_def)
qed

lemma on_time_remove: "on_time d S \<Longrightarrow> on_time d (sw_remove h S)"
  by (auto simp: on_time_def timed_def sw_remove_def)

lemma on_time_new: "on_time d sw_new"
  by (simp add: on_time_def timed_def steps_at_def sw_new_def)

lemma pending_new: "pending d sw_new = {#}"
  by (simp add: pending_def sw_new_def)

lemma filter_mset_Sum: "filter_mset P (\<Sum>i\<in>A. f i) = (\<Sum>i\<in>A. filter_mset P (f i))"
  by (induction A rule: infinite_finite_induct) auto

lemma pending_remove: "pending d (sw_remove h S) = filter_mset (\<lambda>x. fst x \<noteq> h) (pending d S)"
  by (simp add: pending_def sw_remove_def filter_mset_Sum)

end
