(* ===== verification/Timer_Service.thy ===== *)
theory Timer_Service
  imports Tw_Timer_Refine Slot_Timing
begin

text \<open>
  The contract of the timer wheel: the set of live timers, what every operation does to it, and
  the locale \<open>timer_service\<close> through which the clients of the wheel use it.  The interpretation
  at the end shows that the entry pool of \<open>Tw_Timer\<close> keeps the contract for all dimensions.
\<close>

section \<open>The interface\<close>

locale timer_service =
  fixes ok :: "'w \<Rightarrow> bool"
    and live :: "'w \<Rightarrow> (nat \<times> nat \<times> 'c) set"
    and now :: "'w \<Rightarrow> nat"
    and vacant :: "'w \<Rightarrow> nat \<Rightarrow> bool"
    and start :: "nat \<Rightarrow> nat \<Rightarrow> 'c \<Rightarrow> 'w \<Rightarrow> (('c start_timer_error + nat) \<times> 'w) option"
    and stop :: "nat \<Rightarrow> 'w \<Rightarrow> ('c option \<times> 'w) option"
    and step :: "'w \<Rightarrow> ('c list \<times> 'w) option"
    and expire :: "nat \<Rightarrow> 'w \<Rightarrow> ('c list \<times> 'w) option"
  assumes live_finite: "ok w \<Longrightarrow> finite (live w)"
    and live_handle: "ok w \<Longrightarrow> (h, e, c) \<in> live w \<Longrightarrow> (h, e', c') \<in> live w \<Longrightarrow> e = e' \<and> c = c'"
    and now_bound: "ok w \<Longrightarrow> now w \<le> U64_MAX"
    and start_late: "ok w \<Longrightarrow> e \<le> now w \<Longrightarrow> start k e c w = Some (Inl (Expired c), w)"
    and start_new: "ok w \<Longrightarrow> now w < e \<Longrightarrow> vacant w k \<Longrightarrow>
      \<exists>w'. start k e c w = Some (Inr k, w') \<and> ok w' \<and> live w' = insert (k, e, c) (live w) \<and> now w' = now w"
    and vacant_free: "ok w \<Longrightarrow> vacant w k \<Longrightarrow> k \<notin> fst ` live w"
    and stop_live: "ok w \<Longrightarrow> (h, e, c) \<in> live w \<Longrightarrow>
      \<exists>w'. stop h w = Some (Some c, w') \<and> ok w' \<and> live w' = live w - {(h, e, c)} \<and> now w' = now w"
    and stop_dead: "ok w \<Longrightarrow> h \<notin> fst ` live w \<Longrightarrow> stop h w = Some (None, w)"
    and step_fires: "ok w \<Longrightarrow> now w < U64_MAX \<Longrightarrow>
      \<exists>ex w' X. step w = Some (ex, w') \<and> ok w' \<and> now w' = now w + 1 \<and> X \<subseteq> live w \<and>
        live w' = live w - X \<and> (\<forall>x\<in>X. is_due (now w + 1) x) \<and> mset ex = image_mset context_of (mset_set X)"
    and expire_0: "expire 0 w = Some ([], w)"
    and expire_Suc: "expire (Suc n) w =
      Option.bind (step w) (\<lambda>(e1, w1). Option.bind (expire n w1) (\<lambda>(e2, w2). Some (e1 @ e2, w2)))"
begin

text \<open>A run of \<open>n\<close> steps returns every timer at most once, none early, and loses none.\<close>

lemma expire_fires:
  assumes "ok w" "now w + n \<le> U64_MAX"
  shows "\<exists>ex w' X. expire n w = Some (ex, w') \<and> ok w' \<and> now w' = now w + n \<and> X \<subseteq> live w \<and>
    live w' = live w - X \<and> (\<forall>x\<in>X. is_due (now w + n) x) \<and> mset ex = image_mset context_of (mset_set X)"
  using assms
proof (induction n arbitrary: w)
  case 0
  then show ?case by (intro exI[of _ "[]"] exI[of _ w] exI[of _ "{}"]) (simp add: expire_0)
next
  case (Suc n)
  then have "now w < U64_MAX" by simp
  from step_fires[OF Suc.prems(1) this] obtain e1 w1 X1 where 1: "step w = Some (e1, w1)" "ok w1" "now w1 = now w + 1" "X1 \<subseteq> live w"
    "live w1 = live w - X1" "\<forall>x\<in>X1. is_due (now w + 1) x" "mset e1 = image_mset context_of (mset_set X1)"
    by blast
  have "now w1 + n \<le> U64_MAX" using Suc.prems(2) 1(3) by simp
  from Suc.IH[OF 1(2) this] obtain e2 w2 X2 where
    2: "expire n w1 = Some (e2, w2)" "ok w2" "now w2 = now w1 + n" "X2 \<subseteq> live w1" "live w2 = live w1 - X2"
      "\<forall>x\<in>X2. is_due (now w1 + n) x" "mset e2 = image_mset context_of (mset_set X2)"
    by blast
  have fin: "finite X1" "finite X2" "X1 \<inter> X2 = {}"
    using 1(4,5) 2(4) live_finite[OF Suc.prems(1)] by (auto intro: finite_subset)
  have "expire (Suc n) w = Some (e1 @ e2, w2)" by (simp add: expire_Suc 1(1) 2(1))
  moreover have "mset (e1 @ e2) = image_mset context_of (mset_set (X1 \<union> X2))"
    using fin by (simp add: 1(7) 2(7) mset_set_Union)
  moreover have "live w2 = live w - (X1 \<union> X2)" using 1(5) 2(5) by auto
  moreover have "\<forall>x\<in>X1 \<union> X2. is_due (now w + Suc n) x"
    using 1(3,6) 2(6) by (force simp: is_due_def)
  ultimately show ?case using 1(3,4,5) 2(2,3,4)
    by (intro exI[of _ "e1 @ e2"] exI[of _ w2] exI[of _ "X1 \<union> X2"]) auto
qed

lemma expire_contexts:
  assumes "ok w" "now w + n \<le> U64_MAX"
  obtains ex w' where "expire n w = Some (ex, w')" "ok w'" "now w' = now w + n" "live w' \<subseteq> live w"
    "set ex = context_of ` (live w - live w')" "\<forall>x\<in>live w - live w'. is_due (now w + n) x"
proof -
  obtain ex w' X where X: "expire n w = Some (ex, w')" "ok w'" "now w' = now w + n" "X \<subseteq> live w"
    "live w' = live w - X" "\<forall>x\<in>X. is_due (now w + n) x" "mset ex = image_mset context_of (mset_set X)"
    using expire_fires[OF assms] by blast
  have "finite X" using X(4) live_finite[OF assms(1)] by (rule finite_subset)
  then have "set ex = context_of ` X" using arg_cong[OF X(7), of set_mset] by simp
  moreover have "live w - live w' = X" using X(4,5) by auto
  ultimately show thesis using X by (intro that) auto
qed

text \<open>Stopping is idempotent: the second stop of a handle finds nothing.\<close>

lemma stop_twice:
  assumes "ok w" "(h, e, c) \<in> live w"
  shows "\<exists>w'. stop h w = Some (Some c, w') \<and> stop h w' = Some (None, w')"
proof -
  obtain w' where w': "stop h w = Some (Some c, w')" "ok w'" "live w' = live w - {(h, e, c)}"
    using stop_live[OF assms] by blast
  have "h \<notin> fst ` live w'" using w'(3) live_handle[OF assms(1) assms(2)] by fastforce
  with w' stop_dead show ?thesis by blast
qed

end

section \<open>The timer wheel keeps the contract\<close>

definition live :: "'c timer_wheel \<Rightarrow> (nat \<times> nat \<times> 'c) set" where
  "live w = {(h, e, c). \<exists>t. timers w h = Some t \<and> te_data t = Timer e c}"

definition vacant_key :: "'c timer_wheel \<Rightarrow> nat \<Rightarrow> bool" where
  "vacant_key w k \<longleftrightarrow> timers w k = None \<and> k < EMPTY_INDEX"

definition wheel_ok :: "wheel_dims \<Rightarrow> 'c timer_wheel \<Rightarrow> bool" where
  "wheel_ok d w \<longleftrightarrow> (\<exists>S. wheel_rel d w [] S \<and> sw_time S \<le> U64_MAX)"

lemma wheel_rel_now: "wheel_rel d w [] S \<Longrightarrow> current_time w = sw_time S"
  by (simp add: wheel_rel_def shape_rel_def)

lemma linked_chain:
  assumes "linked d H T R G" "l < num_levels d" "s < num_slots d"
  shows "\<exists>i. chain T i (G l s)"
  using assms by (auto simp: linked_def slot_linked_def)

lemma live_pending:
  assumes rel: "wheel_rel d w [] S"
  shows "set_mset (pending d S) = live w"
proof -
  have lk: "linked d (head_ix w) (timers w) [] (sw_slots S)" using rel by (simp add: wheel_rel_def)
  show ?thesis
  proof (intro equalityI subsetI)
    fix x assume "x \<in> set_mset (pending d S)"
    then obtain l s where ls: "l < num_levels d" "s < num_slots d" "x \<in> set (sw_slots S l s)"
      using in_pending by blast
    obtain i where "chain (timers w) i (sw_slots S l s)" using linked_chain[OF lk ls(1,2)] ..
    from chain_payload[OF this ls(3)] show "x \<in> live w" by (cases x) (auto simp: payload_def live_def)
  next
    fix x assume "x \<in> live w"
    then obtain h e c t where x: "x = (h, e, c)" "timers w h = Some t" "te_data t = Timer e c"
      by (auto simp: live_def)
    from lk have "pool_ok d (head_ix w) (timers w) [] (sw_slots S)" by (simp add: linked_def)
    with x(2) have "\<exists>l<num_levels d. \<exists>s<num_slots d. h = head_ix w l s \<or> h \<in> handles (sw_slots S l s)"
      unfolding pool_ok_def by (metis domI empty_iff handles_simps(1))
    then obtain l s where ls: "l < num_levels d" "s < num_slots d"
      and h: "h = head_ix w l s \<or> h \<in> handles (sw_slots S l s)" by blast
    obtain he where he: "timers w (head_ix w l s) = Some he" "te_data he = Head"
      "chain (timers w) (te_next he) (sw_slots S l s)" using linked_slot[OF lk ls] by metis
    with h x have "h \<in> handles (sw_slots S l s)" by auto
    then obtain e' c' where m: "(h, e', c') \<in> set (sw_slots S l s)" by (auto simp: handles_def)
    from chain_payload[OF he(3) m] x have "e' = e" "c' = c" by (auto simp: payload_def)
    with m ls x(1) show "x \<in> set_mset (pending d S)" unfolding in_pending by blast
  qed
qed

lemma live_handle_unique: "(h, e, c) \<in> live w \<Longrightarrow> (h, e', c') \<in> live w \<Longrightarrow> e = e' \<and> c = c'"
  by (auto simp: live_def)

lemma pending_once:
  assumes rel: "wheel_rel d w [] S" and x: "x \<in># pending d S"
  shows "count (pending d S) x = 1"
proof -
  have lk: "linked d (head_ix w) (timers w) [] (sw_slots S)" using rel by (simp add: wheel_rel_def)
  obtain l s where ls: "l < num_levels d" "s < num_slots d" "x \<in> set (sw_slots S l s)"
    using x in_pending by blast
  let ?R = "pending d (sw_put l s [] S)"
  have split: "?R + mset (sw_slots S l s) = pending d S" using pending_put[OF ls(1,2), of "[]" S] by simp
  have "x \<notin># ?R"
  proof
    assume "x \<in># ?R"
    then obtain l' s' where l': "l' < num_levels d" "s' < num_slots d" "x \<in> set (sw_slots (sw_put l s [] S) l' s')"
      using in_pending by blast
    then have "\<not> (l' = l \<and> s' = s)" "fst x \<in> handles (sw_slots S l' s')" by (auto simp: handles_def split: if_splits)
    moreover have "fst x \<in> handles (sw_slots S l s)" using ls(3) by (simp add: handles_def)
    ultimately show False using linked_cross[OF lk ls(1,2) l'(1,2)] by blast
  qed
  moreover have "count (mset (sw_slots S l s)) x = 1"
  proof -
    obtain i where "chain (timers w) i (sw_slots S l s)" using linked_chain[OF lk ls(1,2)] ..
    moreover from this have "\<forall>h\<in>handles (sw_slots S l s). h < EMPTY_INDEX"
      using chain_data linked_small[OF lk] by blast
    ultimately have "distinct (map fst (sw_slots S l s))" by (rule chain_distinct)
    then have "distinct (sw_slots S l s)" by (simp add: distinct_map)
    with ls(3) show ?thesis unfolding distinct_count_atmost_1 by (auto simp del: split_paired_All)
  qed
  ultimately show ?thesis using split by (metis add.left_neutral count_inI count_union)
qed

lemma pending_live:
  assumes "wheel_rel d w [] S"
  shows "pending d S = mset_set (live w)" "finite (live w)"
proof -
  show fin: "finite (live w)" using live_pending[OF assms] by (metis finite_set_mset)
  show "pending d S = mset_set (live w)"
  proof (rule multiset_eqI)
    fix x
    show "count (pending d S) x = count (mset_set (live w)) x"
      using pending_once[OF assms, of x] live_pending[OF assms] fin
      by (cases "x \<in> live w") (auto simp: not_in_iff)
  qed
qed

section \<open>The operations on live timers\<close>

lemma vacant_free: "vacant_key w k \<Longrightarrow> k \<notin> fst ` live w"
  by (force simp: vacant_key_def live_def)

lemma wheel_ok_finite: "wheel_ok d w \<Longrightarrow> finite (live w)"
  using pending_live(2) by (auto simp: wheel_ok_def)

lemma wheel_ok_time: "wheel_ok d w \<Longrightarrow> current_time w \<le> U64_MAX"
  by (auto simp: wheel_ok_def wheel_rel_now)

lemma live_after_add:
  assumes "wheel_rel d w' [] (sw_add d x S)" "wheel_rel d w [] S"
  shows "live w' = insert x (live w)" "current_time w' = current_time w"
  using live_pending[OF assms(1)] live_pending[OF assms(2)] assms(2) wheel_rel_now[OF assms(1)] wheel_rel_now[OF assms(2)]
  by (simp_all add: pending_add wheel_rel_def)

lemma start_timer_live:
  assumes "wheel_ok d w" "vacant_key w k"
  shows "\<exists>w'. start_timer d k interval c w = Some (k, w') \<and> wheel_ok d w' \<and>
    live w' = insert (k, min U64_MAX (current_time w + interval), c) (live w) \<and> current_time w' = current_time w"
proof -
  obtain S where S: "wheel_rel d w [] S" "sw_time S \<le> U64_MAX" using assms(1) by (auto simp: wheel_ok_def)
  have k: "k \<notin> dom (timers w)" "k < EMPTY_INDEX" using assms(2) by (auto simp: vacant_key_def)
  obtain w' where w': "start_timer d k interval c w = Some (k, w')"
    "wheel_rel d w' [] (sw_add d (k, min U64_MAX (current_time w + interval), c) S)"
    using start_timer_refines[OF S(1) k S(2), of interval c] wheel_rel_now[OF S(1)] by auto
  have "wheel_ok d w'" unfolding wheel_ok_def using w'(2) S(2) by (metis sw_add_pos(2))
  with w' live_after_add[OF w'(2) S(1)] show ?thesis by blast
qed

lemma start_timer_absolute_live:
  assumes "wheel_ok d w" "vacant_key w k" "current_time w < e"
  shows "\<exists>w'. start_timer_absolute d k e c w = Some (Inr k, w') \<and> wheel_ok d w' \<and>
    live w' = insert (k, e, c) (live w) \<and> current_time w' = current_time w"
proof -
  obtain S where S: "wheel_rel d w [] S" "sw_time S \<le> U64_MAX" using assms(1) by (auto simp: wheel_ok_def)
  have k: "k \<notin> dom (timers w)" "k < EMPTY_INDEX" using assms(2) by (auto simp: vacant_key_def)
  have "\<not> e \<le> sw_time S" using assms(3) wheel_rel_now[OF S(1)] by simp
  then obtain w' where w': "start_timer_absolute d k e c w = Some (Inr k, w')" "wheel_rel d w' [] (sw_add d (k, e, c) S)"
    using start_timer_absolute_refines[OF S(1) k, of e c] by auto
  have "wheel_ok d w'" unfolding wheel_ok_def using w'(2) S(2) by (metis sw_add_pos(2))
  with w' live_after_add[OF w'(2) S(1)] show ?thesis by blast
qed

lemma stop_timer_live:
  assumes "wheel_ok d w" "(h, e, c) \<in> live w"
  shows "\<exists>w'. stop_timer h w = Some (Some c, w') \<and> wheel_ok d w' \<and> live w' = live w - {(h, e, c)} \<and>
    current_time w' = current_time w"
proof -
  obtain S where S: "wheel_rel d w [] S" "sw_time S \<le> U64_MAX" using assms(1) by (auto simp: wheel_ok_def)
  have "sw_holds d S (h, e, c)" using assms(2) in_pending[of "(h, e, c)" d S] live_pending[OF S(1)] by (auto simp only: sw_holds_def)
  from stop_timer_refines[OF S(1) this] obtain w' where
    w': "stop_timer h w = Some (Some c, w')" "wheel_rel d w' [] (sw_remove h S)" by blast
  have "sw_time (sw_remove h S) = sw_time S" by (simp add: sw_remove_def)
  then have ok: "current_time w' = current_time w" "wheel_ok d w'"
    using wheel_rel_now[OF w'(2)] wheel_rel_now[OF S(1)] w'(2) S(2) by (auto simp: wheel_ok_def)
  have "live w' = {x \<in> live w. fst x \<noteq> h}"
    using live_pending[OF w'(2)] live_pending[OF S(1)] by (auto simp: pending_remove)
  also have "\<dots> = live w - {(h, e, c)}" by (auto dest: live_handle_unique[OF assms(2)])
  finally show ?thesis using w' ok by blast
qed

lemma stop_timer_dead:
  assumes "wheel_ok d w" "h \<notin> fst ` live w"
  shows "stop_timer h w = Some (None, w)"
proof -
  obtain S where S: "wheel_rel d w [] S" using assms(1) by (auto simp: wheel_ok_def)
  have "\<nexists>e c. sw_holds d S (h, e, c)"
  proof clarify
    fix e c assume "sw_holds d S (h, e, c)"
    then have "(h, e, c) \<in># pending d S" by (simp only: sw_holds_def in_pending)
    then have "(h, e, c) \<in> live w" by (simp only: live_pending[OF S])
    with assms(2) show False by force
  qed
  then show ?thesis by (rule stop_timer_absent[OF S])
qed

lemma tick_live:
  assumes "wheel_ok d w" "current_time w < U64_MAX"
  shows "\<exists>ex w' X. tick d w = Some (ex, w') \<and> wheel_ok d w' \<and> current_time w' = current_time w + 1 \<and> X \<subseteq> live w \<and>
    live w' = live w - X \<and> (\<forall>x\<in>X. is_due (current_time w + 1) x) \<and> mset ex = image_mset context_of (mset_set X)"
proof -
  obtain S where S: "wheel_rel d w [] S" using assms(1) by (auto simp: wheel_ok_def)
  have d: "dims_ok d" and now: "current_time w = sw_time S" using S wheel_rel_now by (auto simp: wheel_rel_def)
  have pos: "pos_ok d S" using S by (simp add: wheel_rel_def shape_rel_def pos_ok_def)
  obtain w' where w': "tick d w = Some (fst (sw_tick d S), w')" "wheel_rel d w' [] (snd (sw_tick d S))"
    using tick_refines[OF S] assms(2) now by auto
  obtain X where X: "fst (sw_tick d S) = map context_of X" "pending d S = pending d (snd (sw_tick d S)) + mset X"
    "\<forall>x\<in>set X. is_due (sw_time S + 1) x" using tick_effect[OF d pos] by blast
  note p = pending_live[OF S] and p' = pending_live[OF w'(2)]
  have eq: "mset_set (live w) = mset_set (live w') + mset X" using X(2) p(1) p'(1) by simp
  have sub: "live w' \<subseteq> live w" using arg_cong[OF eq, of set_mset] p(2) p'(2) by auto
  have "mset X = mset_set (live w - live w')" using eq sub p(2) by (simp add: mset_set_Diff)
  moreover from this have "set X = live w - live w'" using p(2) by (metis finite_Diff finite_set_mset_mset_set set_mset_mset)
  ultimately have "mset (map context_of X) = image_mset context_of (mset_set (live w - live w'))"
    "\<forall>x\<in>live w - live w'. is_due (current_time w + 1) x" using X(3) now by auto
  moreover have "current_time w' = current_time w + 1" using wheel_rel_now[OF w'(2)] now by simp
  moreover from this have "wheel_ok d w'" unfolding wheel_ok_def using w'(2) assms(2) wheel_rel_now[OF w'(2)] by auto
  ultimately show ?thesis using w'(1) X(1) sub
    by (intro exI[of _ "fst (sw_tick d S)"] exI[of _ w'] exI[of _ "live w - live w'"]) auto
qed

interpretation wheel: timer_service "wheel_ok d" live current_time vacant_key "start_timer_absolute d" stop_timer
  "tick d" "expire_timers d" for d
proof (unfold_locales, goal_cases)
  case 1
  then show ?case by (rule wheel_ok_finite)
next
  case 2
  then show ?case by (blast dest: live_handle_unique)
next
  case 3
  then show ?case by (rule wheel_ok_time)
next
  case 4
  then show ?case by (simp add: start_timer_absolute_def)
next
  case 5
  then show ?case by (blast intro: start_timer_absolute_live)
next
  case 6
  then show ?case by (blast dest: vacant_free)
next
  case 7
  then show ?case by (rule stop_timer_live)
next
  case 8
  then show ?case by (rule stop_timer_dead)
next
  case 9
  then show ?case by (rule tick_live)
next
  case 10
  then show ?case by (simp add: start_timer_absolute_def)
next
  case 11
  then show ?case by (simp add: start_timer_absolute_def)
qed

end
