(* ===== verification/Slot_Liveness.thy ===== *)
theory Slot_Liveness
  imports Slot_Timing
begin

text \<open>
  No timer is forgotten: each slot of level \<open>l\<close> is emptied once in every \<open>N ^ (l + 1)\<close> ticks, and
  a timer that is due when its slot is emptied fires.  This holds for every timer, also those
  that the invariant \<open>timed\<close> of \<open>Slot_Timing\<close> excludes.
\<close>

definition in_step :: "wheel_dims \<Rightarrow> (nat \<Rightarrow> nat) \<Rightarrow> 'c slot_wheel \<Rightarrow> bool" where
  "in_step d Q S \<longleftrightarrow> (\<forall>l<num_levels d. sw_pos S l = Q l mod num_slots d)"

definition in_sync :: "wheel_dims \<Rightarrow> 'c slot_wheel \<Rightarrow> bool" where
  "in_sync d S \<longleftrightarrow> in_step d (steps_at d (sw_time S)) S"

text \<open>Slot \<open>s\<close> of level \<open>l\<close> is emptied in the tick of time \<open>t\<close>.\<close>

definition drained_at :: "wheel_dims \<Rightarrow> nat \<Rightarrow> nat \<Rightarrow> nat \<Rightarrow> bool" where
  "drained_at d t l s \<longleftrightarrow> num_slots d ^ l dvd t \<and> s = (t div num_slots d ^ l - 1) mod num_slots d"

lemma drain_keeps:
  "x \<in> set (sw_slots S l s) \<Longrightarrow> x \<in> set (sw_slots (snd (sw_drain d xs ex S)) l s)"
  by (induction d xs ex S rule: sw_drain.induct) (auto simp: sw_add_slots)

lemma level_step_keeps:
  assumes "x \<in> set (sw_slots S l s)" "\<not> (l = m \<and> s = sw_pos S m)"
  shows "x \<in> set (sw_slots (snd (sw_level_step d m S)) l s)"
  using assms by (auto simp: sw_level_step_def split_beta intro!: drain_keeps)

lemma process_due:
  assumes "dims_ok d" "0 < sw_time S" "num_slots d ^ m dvd sw_time S" "in_step d (steps_during d (sw_time S) m) S"
  shows "in_step d (steps_at d (sw_time S)) (snd (sw_process d m S)) \<and>
    (\<exists>X. pending d S = pending d (snd (sw_process d m S)) + mset X \<and>
      (\<forall>l<num_levels d. \<forall>s<num_slots d. \<forall>x\<in>set (sw_slots S l s).
         (if m \<le> l \<and> drained_at d (sw_time S) l s then is_due (sw_time S) x \<longrightarrow> x \<in> set X
          else x \<in> set (sw_slots (snd (sw_process d m S)) l s))))"
  using assms
proof (induction d m S rule: sw_process.induct)
  case (1 d m S)
  let ?t = "sw_time S" and ?N = "num_slots d"
  show ?case
  proof (cases "num_levels d \<le> m")
    case True
    with "1.prems"(4) have "in_step d (steps_at d ?t) S" by (auto simp: in_step_def steps_during_def steps_at_def)
    with True show ?thesis by (intro conjI exI[of _ "[]"]) (auto simp: sw_process.simps)
  next
    case False
    then have m: "m < num_levels d" by simp
    let ?S1 = "snd (sw_level_step d m S)" and ?X = "filter (is_due ?t) (sw_slots S m (sw_pos S m))"
    have pm: "sw_pos S m = (?t div ?N ^ m - 1) mod ?N"
    proof -
      have "steps_during d ?t m m = ?t div ?N ^ m - 1" using steps_during_dvd(2)[OF "1.prems"(2,3)] by linarith
      with "1.prems"(4) m show ?thesis by (simp add: in_step_def)
    qed
    then have "sw_pos S m < ?N" using "1.prems"(1) by (simp add: dims_ok_def)
    note eff = level_step_effect(2)[OF "1.prems"(1) m this]
    have st: "in_step d (steps_during d ?t (m + 1)) ?S1"
      unfolding steps_during_Suc[OF "1.prems"(2,3)] using "1.prems"(4) by (auto simp: in_step_def mod_Suc_eq)
    have at_m: "drained_at d ?t m s \<longleftrightarrow> s = sw_pos S m" for s
      using "1.prems"(3) pm by (auto simp: drained_at_def)
    have p1: "sw_pos ?S1 m = ?t div ?N ^ m mod ?N" using st[unfolded in_step_def, rule_format, OF m] unfolding steps_during_def by simp
    have fire: "x \<in> set ?X" if "x \<in> set (sw_slots S l s)" "is_due ?t x" "l = m" "drained_at d ?t l s" for x l s
      using that at_m by simp
    have keep: "x \<in> set (sw_slots ?S1 l s)" if "x \<in> set (sw_slots S l s)" "\<not> (l = m \<and> drained_at d ?t l s)" for x l s
      using that at_m by (auto intro!: level_step_keeps)
    show ?thesis
    proof (cases "sw_pos ?S1 m = 0")
      case True
      then have "?N dvd ?t div ?N ^ m" using p1 by (simp add: dvd_eq_mod_eq_0)
      then have dv: "?N ^ (m + 1) dvd ?t"
        using "1.prems"(3) by (metis dvd_div_iff_mult mult.commute power_add power_one_right dvd_0_left_iff "1.prems"(2) less_not_refl)
      let ?P = "snd (sw_process d (m + 1) ?S1)"
      have IH: "in_step d (steps_at d ?t) ?P \<and> (\<exists>X. pending d ?S1 = pending d ?P + mset X \<and>
          (\<forall>l<num_levels d. \<forall>s<?N. \<forall>x\<in>set (sw_slots ?S1 l s).
             (if m + 1 \<le> l \<and> drained_at d ?t l s then is_due ?t x \<longrightarrow> x \<in> set X else x \<in> set (sw_slots ?P l s))))"
        using "1.IH"[OF False refl prod.collapse True "1.prems"(1)] "1.prems"(2) dv st by (simp cong: if_cong)
      then obtain Y where Y: "pending d ?S1 = pending d ?P + mset Y"
        "\<And>l s x. l < num_levels d \<Longrightarrow> s < ?N \<Longrightarrow> x \<in> set (sw_slots ?S1 l s) \<Longrightarrow>
           (if m + 1 \<le> l \<and> drained_at d ?t l s then is_due ?t x \<longrightarrow> x \<in> set Y else x \<in> set (sw_slots ?P l s))" by blast
      have P: "snd (sw_process d m S) = ?P"
        using False True by (subst sw_process.simps) (simp add: split_beta Let_def)
      have "if m \<le> l \<and> drained_at d ?t l s then is_due ?t x \<longrightarrow> x \<in> set (?X @ Y) else x \<in> set (sw_slots ?P l s)"
        if "l < num_levels d" "s < ?N" "x \<in> set (sw_slots S l s)" for l s x
        using fire[OF that(3)] keep[OF that(3)] Y(2)[OF that(1,2), of x]
        by (cases "l = m"; cases "drained_at d ?t l s") (auto simp: not_less_eq_eq split: if_splits)
      moreover have "pending d S = pending d ?P + mset (?X @ Y)" using eff Y(1) by (simp add: ac_simps)
      ultimately show ?thesis using IH unfolding P by blast
    next
      case no: False
      have ndv: "\<not> ?N ^ (m + 1) dvd ?t"
      proof
        assume "?N ^ (m + 1) dvd ?t"
        then obtain q where "?t = ?N ^ (m + 1) * q" by blast
        then have "?t div ?N ^ m = ?N * q" using "1.prems"(1) by (simp add: dims_ok_def)
        with no p1 show False by simp
      qed
      have P: "snd (sw_process d m S) = ?S1"
        using False no by (subst sw_process.simps) (simp add: split_beta Let_def)
      have not_later: "\<not> drained_at d ?t l s" if "m < l" for l s
        using ndv that by (auto simp: drained_at_def dest: power_le_dvd[of _ l _ "m + 1"])
      have "if m \<le> l \<and> drained_at d ?t l s then is_due ?t x \<longrightarrow> x \<in> set ?X else x \<in> set (sw_slots ?S1 l s)"
        if "x \<in> set (sw_slots S l s)" for l s x
        using fire[OF that] keep[OF that] not_later by (cases "l = m") auto
      moreover have "in_step d (steps_at d ?t) ?S1" using st steps_during_stop[OF "1.prems"(2) ndv] by metis
      ultimately show ?thesis using eff unfolding P by blast
    qed
  qed
qed

text \<open>The slot of \<open>x\<close> is emptied at or before time \<open>D\<close>.\<close>

definition drains_by :: "wheel_dims \<Rightarrow> nat \<Rightarrow> 'c slot_wheel \<Rightarrow> nat \<times> nat \<times> 'c \<Rightarrow> bool" where
  "drains_by d D S x \<longleftrightarrow> (\<exists>l<num_levels d. \<exists>s<num_slots d. x \<in> set (sw_slots S l s) \<and>
     (\<exists>t. sw_time S < t \<and> t \<le> D \<and> drained_at d t l s))"

lemma tick_drains:
  assumes "dims_ok d" "in_sync d S"
  shows "in_sync d (snd (sw_tick d S)) \<and> (\<exists>X. pending d S = pending d (snd (sw_tick d S)) + mset X \<and>
      (\<forall>l<num_levels d. \<forall>s<num_slots d. \<forall>x\<in>set (sw_slots S l s).
         (if drained_at d (sw_time S + 1) l s then is_due (sw_time S + 1) x \<longrightarrow> x \<in> set X
          else x \<in> set (sw_slots (snd (sw_tick d S)) l s))))"
proof -
  let ?S = "S\<lparr>sw_time := sw_time S + 1\<rparr>" and ?S' = "snd (sw_tick d S)" and ?t = "sw_time S + 1"
  have *: "in_step d (steps_during d (sw_time ?S) 0) ?S"
    using assms(2) by (simp add: in_sync_def in_step_def steps_during_def steps_at_def)
  have S': "snd (sw_process d 0 ?S) = ?S'" by (simp add: sw_tick_def)
  have p: "pending d ?S = pending d S" by (simp add: pending_def)
  have "in_step d (steps_at d (sw_time ?S)) (snd (sw_process d 0 ?S)) \<and>
    (\<exists>X. pending d ?S = pending d (snd (sw_process d 0 ?S)) + mset X \<and>
      (\<forall>l<num_levels d. \<forall>s<num_slots d. \<forall>x\<in>set (sw_slots ?S l s).
         (if 0 \<le> l \<and> drained_at d (sw_time ?S) l s then is_due (sw_time ?S) x \<longrightarrow> x \<in> set X
          else x \<in> set (sw_slots (snd (sw_process d 0 ?S)) l s))))"
    by (rule process_due[OF assms(1) _ _ *]) simp_all
  then show ?thesis unfolding S' p by (simp add: in_sync_def cong: if_cong)
qed

lemma tick_keeps:
  assumes "dims_ok d" "in_sync d S" "l < num_levels d" "s < num_slots d" "x \<in> set (sw_slots S l s)"
    "\<not> drained_at d (sw_time S + 1) l s"
  shows "x \<in> set (sw_slots (snd (sw_tick d S)) l s)"
  using tick_drains[OF assms(1,2)] assms(3-6) by metis

lemma tick_due:
  assumes "dims_ok d" "in_sync d S"
  shows "in_sync d (snd (sw_tick d S))"
    and "\<exists>X. pending d S = pending d (snd (sw_tick d S)) + mset X \<and>
      (\<forall>x. is_due (sw_time S + 1) x \<longrightarrow> drains_by d D S x \<longrightarrow> x \<in> set X \<or> drains_by d D (snd (sw_tick d S)) x)"
proof -
  let ?S' = "snd (sw_tick d S)" and ?t = "sw_time S + 1"
  show "in_sync d ?S'" using tick_drains[OF assms] ..
  obtain X where X: "pending d S = pending d ?S' + mset X"
    "\<And>l s x. l < num_levels d \<Longrightarrow> s < num_slots d \<Longrightarrow> x \<in> set (sw_slots S l s) \<Longrightarrow>
       (if drained_at d ?t l s then is_due ?t x \<longrightarrow> x \<in> set X else x \<in> set (sw_slots ?S' l s))"
    using tick_drains[OF assms] by blast
  have "x \<in> set X \<or> drains_by d D ?S' x" if due: "is_due ?t x" and by_D: "drains_by d D S x" for x
  proof -
    obtain l s t where l: "l < num_levels d" "s < num_slots d" "x \<in> set (sw_slots S l s)"
      "sw_time S < t" "t \<le> D" "drained_at d t l s" using by_D by (auto simp: drains_by_def)
    show ?thesis
    proof (cases "drained_at d ?t l s")
      case True
      with X(2)[OF l(1-3)] due show ?thesis by simp
    next
      case False
      then have "t \<noteq> ?t" using l(6) by auto
      then have "sw_time ?S' < t" using l(4) by simp
      with X(2)[OF l(1-3)] False l show ?thesis by (auto simp: drains_by_def)
    qed
  qed
  with X(1) show "\<exists>X. pending d S = pending d ?S' + mset X \<and>
      (\<forall>x. is_due ?t x \<longrightarrow> drains_by d D S x \<longrightarrow> x \<in> set X \<or> drains_by d D ?S' x)"
    by blast
qed

text \<open>Every slot is emptied within one revolution of the whole wheel.\<close>

lemma drains_within_horizon:
  assumes "dims_ok d" "x \<in># pending d S"
  shows "drains_by d (sw_time S + num_slots d ^ num_levels d) S x"
proof -
  let ?N = "num_slots d" and ?t = "sw_time S"
  obtain l s where l: "l < num_levels d" "s < ?N" "x \<in> set (sw_slots S l s)"
    using assms(2) in_pending by blast
  let ?q = "?t div ?N ^ l"
  obtain k where k: "k < ?N" "(?q + k) mod ?N = s" using slot_offset[OF l(2)] by blast
  let ?u = "(?q + k + 1) * ?N ^ l"
  have N: "0 < ?N" using assms(1) by (simp add: dims_ok_def)
  have "?t < (?q + 1) * ?N ^ l" using N dividend_less_div_times[of "?N ^ l" ?t] by simp
  also have "\<dots> \<le> ?u" by simp
  finally have lo: "?t < ?u" .
  have "?u \<le> (?q + ?N) * ?N ^ l" using k(1) by (intro mult_le_mono1) simp
  also have "\<dots> = ?q * ?N ^ l + ?N ^ (l + 1)" by (simp add: algebra_simps)
  also have "\<dots> \<le> ?t + ?N ^ num_levels d"
    using l(1) N by (intro add_mono power_increasing) (auto simp: Suc_le_eq)
  finally have hi: "?u \<le> ?t + ?N ^ num_levels d" .
  have "drained_at d ?u l s" using k(2) N by (simp add: drained_at_def)
  with l lo hi show ?thesis by (auto simp: drains_by_def)
qed

lemma in_sync_frame: "in_sync d S \<Longrightarrow> in_sync d (sw_add d x S)" "in_sync d S \<Longrightarrow> in_sync d (sw_remove h S)"
  by (auto simp: in_sync_def in_step_def sw_remove_def)

lemma in_sync_new: "in_sync d sw_new"
  by (simp add: in_sync_def in_step_def steps_at_def sw_new_def)

section \<open>Timers that stay behind\<close>

text \<open>
  A timer that \<open>process_level\<close> re-adds to the slot it has just emptied waits there for a whole
  revolution of that level.
\<close>

lemma drain_re_adds:
  assumes "x \<in> set xs" "\<not> is_due (sw_time S) x" "place d (sw_pos S) (fst (snd x) - sw_time S) = (l, s)"
  shows "x \<in> set (sw_slots (snd (sw_drain d xs ex S)) l s)"
  using assms
proof (induction d xs ex S rule: sw_drain.induct)
  case (2 d h e c xs ex S)
  show ?case
  proof (cases "x = (h, e, c)")
    case True
    with "2.prems"(2,3) show ?thesis by (auto simp: is_due_def sw_add_slots intro!: drain_keeps)
  next
    case False
    with 2 show ?thesis by (auto simp: is_due_def)
  qed
qed simp

lemma re_added_same_slot:
  assumes d: "dims_ok d" and N: "2 \<le> num_slots d" "2 \<le> num_levels d" and S: "in_sync d S"
    and T: "sw_time S + 1 = num_slots d" and x: "x \<in> set (sw_slots S 1 0)"
    and e: "fst (snd x) = 3 * num_slots d - 2"
  shows "x \<in> set (sw_slots (snd (sw_tick d S)) 1 0)"
proof -
  let ?N = "num_slots d" and ?S = "S\<lparr>sw_time := sw_time S + 1\<rparr>"
  have pos: "sw_pos S 0 = ?N - 1" "sw_pos S 1 = 0" and t: "sw_time S = ?N - 1"
    using S N T by (auto simp: in_sync_def in_step_def steps_at_def)
  define S1 where "S1 = snd (sw_level_step d 0 ?S)"
  define S2 where "S2 = snd (sw_level_step d 1 S1)"
  have x1: "x \<in> set (sw_slots S1 1 0)" unfolding S1_def using x by (intro level_step_keeps) auto
  have p1: "sw_pos S1 0 = 0" "sw_pos S1 1 = 0" "sw_time S1 = ?N"
    using pos T N by (auto simp: S1_def)
  have far: "\<not> is_due ?N x" using e N by (simp add: is_due_def)
  have "2 * ?N \<le> ?N * ?N" using N by (intro mult_right_mono) auto
  then have sq: "2 * ?N - 2 < ?N * ?N" using N by linarith
  have delta: "fst (snd x) - ?N = 2 * ?N - 2" using e by simp
  have "(2 * ?N - 2) div ?N = 1" using N by (intro div_nat_eqI) auto
  moreover have "\<forall>k<1. ?N ^ (k + 1) \<le> 2 * ?N - 2" using N by auto
  moreover have "1 < num_levels d" using N by simp
  ultimately have pl: "place d (sw_pos S1) (fst (snd x) - ?N) = (1, 0)"
    using place_near[of 1 d "2 * ?N - 2" "sw_pos S1"] sq p1 N unfolding delta by simp
  let ?put = "sw_put 1 (sw_pos S1 1) [] S1"
  have "x \<in> set (sw_slots (snd (sw_drain d (sw_slots S1 1 (sw_pos S1 1)) [] ?put)) 1 0)"
    by (rule drain_re_adds) (use x1 far pl p1 in simp_all)
  then have x2: "x \<in> set (sw_slots S2 1 0)" by (simp add: S2_def sw_level_step_def split_beta)
  have p2: "sw_pos S2 1 \<noteq> 0" using p1 N by (auto simp: S2_def)
  have "snd (sw_process d 1 S1) = S2"
    using p2 N by (subst sw_process.simps) (simp add: split_beta Let_def S2_def)
  moreover have "snd (sw_process d 0 ?S) = snd (sw_process d 1 S1)"
    using p1 d by (subst sw_process.simps) (simp add: split_beta Let_def S1_def dims_ok_def)
  ultimately show ?thesis using x2 by (simp add: sw_tick_def)
qed

end
