(* ===== verification/Tw_Timer_Props.thy ===== *)
theory Tw_Timer_Props
  imports Timer_Service Slot_Liveness
begin

text \<open>
  What the timer wheel does, for every state the operations can reach: which timers a tick
  returns, that none is lost or returned twice, when firing is exact and when it is late.
\<close>

section \<open>Reachable wheels\<close>

text \<open>
  \<open>P now e\<close> restricts the timers that are started: \<open>\<lambda>_ _. True\<close> is every use of the wheel,
  \<open>carry_free d\<close> the uses for which firing is exact.
\<close>

inductive wheel_reach :: "(nat \<Rightarrow> nat \<Rightarrow> bool) \<Rightarrow> wheel_dims \<Rightarrow> 'c timer_wheel \<Rightarrow> bool"
  for P :: "nat \<Rightarrow> nat \<Rightarrow> bool" and d :: wheel_dims where
  reach_init: "dims_ok d \<Longrightarrow> inj_on keys {..<num_levels d * num_slots d} \<Longrightarrow>
    \<forall>i<num_levels d * num_slots d. keys i < EMPTY_INDEX \<Longrightarrow> wheel_reach P d (init d keys)"
| reach_start: "wheel_reach P d w \<Longrightarrow> vacant_key w k \<Longrightarrow>
    P (current_time w) (min U64_MAX (current_time w + interval)) \<Longrightarrow>
    start_timer d k interval c w = Some (h, w') \<Longrightarrow> wheel_reach P d w'"
| reach_start_absolute: "wheel_reach P d w \<Longrightarrow> vacant_key w k \<Longrightarrow>
    e \<le> current_time w \<or> P (current_time w) e \<Longrightarrow>
    start_timer_absolute d k e c w = Some (r, w') \<Longrightarrow> wheel_reach P d w'"
| reach_stop: "wheel_reach P d w \<Longrightarrow> stop_timer h w = Some (r, w') \<Longrightarrow> wheel_reach P d w'"
| reach_tick: "wheel_reach P d w \<Longrightarrow> tick d w = Some (ex, w') \<Longrightarrow> wheel_reach P d w'"

inductive_cases wheel_reachE: "wheel_reach P d w"

text \<open>
  The slot of every timer that has expired is emptied before a revolution of the whole wheel after its
  expire time is over.
\<close>

definition in_turn :: "wheel_dims \<Rightarrow> 'c slot_wheel \<Rightarrow> bool" where
  "in_turn d S \<longleftrightarrow> (\<forall>x\<in>#pending d S.
     sw_time S \<le> fst (snd x) \<or> drains_by d (fst (snd x) + num_slots d ^ num_levels d) S x)"

lemma drains_by_add: "drains_by d D S y \<Longrightarrow> drains_by d D (sw_add d x S) y"
  unfolding drains_by_def by (auto simp: sw_add_slots)

lemma drains_by_remove: "drains_by d D S y \<Longrightarrow> fst y \<noteq> h \<Longrightarrow> drains_by d D (sw_remove h S) y"
  by (auto simp: drains_by_def sw_remove_def)

lemma in_turn_new: "in_turn d sw_new"
  by (simp add: in_turn_def pending_new)

lemma in_turn_add:
  assumes "dims_ok d" "in_turn d S" "sw_time S \<le> fst (snd x)"
  shows "in_turn d (sw_add d x S)"
  unfolding in_turn_def pending_add [OF assms(1)] sw_add_pos
proof (intro ballI)
  fix y assume "y \<in># add_mset x (pending d S)"
  then consider "y = x" | "y \<in># pending d S" by auto
  then show "sw_time S \<le> fst (snd y) \<or> drains_by d (fst (snd y) + num_slots d ^ num_levels d) (sw_add d x S) y"
    by cases (use assms(2,3) drains_by_add in \<open>unfold in_turn_def, blast+\<close>)
qed

lemma in_turn_remove:
  assumes "in_turn d S"
  shows "in_turn d (sw_remove h S)"
  unfolding in_turn_def
proof (intro ballI)
  fix y assume "y \<in># pending d (sw_remove h S)"
  then have "y \<in># pending d S" "fst y \<noteq> h" by (simp_all add: pending_remove)
  moreover have "sw_time (sw_remove h S) = sw_time S" by (simp add: sw_remove_def)
  ultimately show "sw_time (sw_remove h S) \<le> fst (snd y) \<or>
      drains_by d (fst (snd y) + num_slots d ^ num_levels d) (sw_remove h S) y"
    using assms drains_by_remove unfolding in_turn_def by metis
qed

lemma in_turn_once:
  assumes rel: "wheel_rel d w [] S" and X: "pending d S = R + mset X" "x \<in> set X"
  shows "x \<notin># R"
proof
  assume x: "x \<in># R"
  have "1 \<le> count (mset X) x" using X(2) by (simp add: count_mset_gt_0 Suc_le_eq)
  moreover have "1 \<le> count R x" using x by simp
  ultimately have "2 \<le> count (pending d S) x" unfolding X(1) count_union by linarith
  moreover have "x \<in># pending d S" unfolding X(1) using x by simp
  ultimately show False using pending_once[OF rel, of x] by simp
qed

lemma in_turn_tick:
  assumes rel: "wheel_rel d w [] S" and S: "in_sync d S" "in_turn d S"
  shows "in_turn d (snd (sw_tick d S))"
  unfolding in_turn_def
proof (intro ballI)
  fix x assume x: "x \<in># pending d (snd (sw_tick d S))"
  let ?e = "fst (snd x)" and ?H = "num_slots d ^ num_levels d"
  have d: "dims_ok d" using rel by (simp add: wheel_rel_def)
  obtain X where X: "pending d S = pending d (snd (sw_tick d S)) + mset X"
    "is_due (sw_time S + 1) x \<longrightarrow> drains_by d (?e + ?H) S x \<longrightarrow> x \<in> set X \<or> drains_by d (?e + ?H) (snd (sw_tick d S)) x"
    using tick_due(2)[OF d S(1), of "?e + ?H"] by blast
  have before: "x \<in># pending d S" unfolding X(1) using x by simp
  have "x \<notin> set X" using in_turn_once[OF rel X(1)] x by blast
  then show "sw_time (snd (sw_tick d S)) \<le> ?e \<or> drains_by d (?e + ?H) (snd (sw_tick d S)) x"
  proof (cases "sw_time S < ?e")
    case False
    have "drains_by d (?e + ?H) S x"
    proof (cases "sw_time S = ?e")
      case True
      with drains_within_horizon[OF d before] show ?thesis by simp
    next
      case no: False
      with S(2) before False show ?thesis by (force simp: in_turn_def)
    qed
    moreover have "is_due (sw_time S + 1) x" using False by (simp add: is_due_def)
    ultimately show ?thesis using X(2) \<open>x \<notin> set X\<close> by blast
  qed simp
qed

lemma in_turn_late:
  assumes "dims_ok d" "in_turn d S" "x \<in># pending d S"
  shows "sw_time S < fst (snd x) + num_slots d ^ num_levels d"
proof -
  have "0 < num_slots d ^ num_levels d" using assms(1) by (simp add: dims_ok_def)
  moreover have "sw_time S \<le> fst (snd x) \<or> drains_by d (fst (snd x) + num_slots d ^ num_levels d) S x"
    using assms(2,3) unfolding in_turn_def by blast
  ultimately show ?thesis unfolding drains_by_def by linarith
qed

definition slot_inv :: "(nat \<Rightarrow> nat \<Rightarrow> bool) \<Rightarrow> wheel_dims \<Rightarrow> 'c slot_wheel \<Rightarrow> bool" where
  "slot_inv P d S \<longleftrightarrow> sw_time S \<le> U64_MAX \<and> in_sync d S \<and> in_turn d S \<and> (P = carry_free d \<longrightarrow> on_time d S)"

lemma sw_remove_time: "sw_time (sw_remove h S) = sw_time S"
  by (simp add: sw_remove_def)

lemma slot_inv_add:
  assumes "dims_ok d" "slot_inv P d S" "P (sw_time S) (fst (snd x))" "sw_time S \<le> fst (snd x)"
  shows "slot_inv P d (sw_add d x S)"
  using assms by (auto simp: slot_inv_def in_sync_frame on_time_add in_turn_add)

lemma tick_time: "tick d w = Some (ex, w') \<Longrightarrow> current_time w < U64_MAX"
  by (auto simp: tick_def checked_simps split: if_splits)

lemma wheel_reach_inv:
  assumes "wheel_reach P d w"
  shows "\<exists>S. wheel_rel d w [] S \<and> slot_inv P d S"
  using assms
proof induction
  case (reach_init keys)
  have "slot_inv P d sw_new" by (simp add: slot_inv_def in_sync_new on_time_new in_turn_new) (simp add: sw_new_def)
  with init_refines[OF reach_init] show ?case by blast
next
  case (reach_start w k interval c h w')
  then obtain S where S: "wheel_rel d w [] S" "slot_inv P d S" by blast
  have now: "current_time w = sw_time S" using S(1) by (rule wheel_rel_now)
  have "k \<notin> dom (timers w)" "k < EMPTY_INDEX" "sw_time S \<le> U64_MAX"
    using reach_start.hyps(2) S(2) by (auto simp: vacant_key_def slot_inv_def)
  from start_timer_refines[OF S(1) this, of interval c] reach_start.hyps(4)
  have "wheel_rel d w' [] (sw_add d (k, min U64_MAX (sw_time S + interval), c) S)" by auto
  moreover have "dims_ok d" using S(1) by (simp add: wheel_rel_def)
  moreover have "sw_time S \<le> min U64_MAX (sw_time S + interval)" using S(2) by (simp add: slot_inv_def)
  ultimately show ?case
    using slot_inv_add[OF _ S(2), of "(k, min U64_MAX (sw_time S + interval), c)"] reach_start.hyps(3) now by auto
next
  case (reach_start_absolute w k e c r w')
  then obtain S where S: "wheel_rel d w [] S" "slot_inv P d S" by blast
  have now: "current_time w = sw_time S" using S(1) by (rule wheel_rel_now)
  have k: "k \<notin> dom (timers w)" "k < EMPTY_INDEX" using reach_start_absolute.hyps(2) by (auto simp: vacant_key_def)
  have d: "dims_ok d" using S(1) by (simp add: wheel_rel_def)
  show ?case
  proof (cases "e \<le> current_time w")
    case True
    with start_timer_absolute_refines[OF S(1) k, of e c] reach_start_absolute.hyps(4) now have "w' = w" by auto
    with S show ?thesis by blast
  next
    case False
    with start_timer_absolute_refines[OF S(1) k, of e c] reach_start_absolute.hyps(4) now
    have "wheel_rel d w' [] (sw_add d (k, e, c) S)" by auto
    moreover have "slot_inv P d (sw_add d (k, e, c) S)"
      using slot_inv_add[OF d S(2)] reach_start_absolute.hyps(3) False now by auto
    ultimately show ?thesis by blast
  qed
next
  case (reach_stop w h r w')
  then obtain S where S: "wheel_rel d w [] S" "slot_inv P d S" by blast
  show ?case
  proof (cases "\<exists>e c. sw_holds d S (h, e, c)")
    case True
    then obtain e c where "sw_holds d S (h, e, c)" by blast
    from stop_timer_refines[OF S(1) this] reach_stop.hyps(2) have "wheel_rel d w' [] (sw_remove h S)" by auto
    moreover have "slot_inv P d (sw_remove h S)"
      using S(2) by (auto simp: slot_inv_def in_sync_frame on_time_remove in_turn_remove sw_remove_time)
    ultimately show ?thesis by blast
  next
    case False
    with stop_timer_absent[OF S(1)] reach_stop.hyps(2) have "w' = w" by auto
    with S show ?thesis by blast
  qed
next
  case (reach_tick w ex w')
  then obtain S where S: "wheel_rel d w [] S" "slot_inv P d S" by blast
  have now: "sw_time S < U64_MAX" using tick_time[OF reach_tick.hyps(2)] wheel_rel_now[OF S(1)] by simp
  have d: "dims_ok d" using S(1) by (simp add: wheel_rel_def)
  from tick_refines[OF S(1) now] reach_tick.hyps(2) have "wheel_rel d w' [] (snd (sw_tick d S))" by auto
  moreover have "slot_inv P d (snd (sw_tick d S))"
    using S(2) now tick_due(1)[OF d] on_time_tick(1)[OF d] in_turn_tick[OF S(1)] by (auto simp: slot_inv_def)
  ultimately show ?case by blast
qed

lemma wheel_reach_ok: "wheel_reach P d w \<Longrightarrow> wheel_ok d w"
  unfolding wheel_ok_def using wheel_reach_inv slot_inv_def by metis

lemma wheel_reach_dims: "wheel_reach P d w \<Longrightarrow> dims_ok d"
  unfolding wheel_rel_def using wheel_reach_inv wheel_rel_def by metis

lemma expire_timers_reach:
  "expire_timers d n w = Some (ex, w') \<Longrightarrow> wheel_reach P d w \<Longrightarrow> wheel_reach P d w'"
proof (induction n arbitrary: w ex)
  case (Suc n)
  then obtain e1 w1 e2 where "tick d w = Some (e1, w1)" "expire_timers d n w1 = Some (e2, w')"
    by (auto split: bind_splits)
  with Suc.IH reach_tick[OF Suc.prems(2)] show ?case by blast
qed simp

lemma expire_timers_add:
  "expire_timers d (m + n) w = Option.bind (expire_timers d m w)
     (\<lambda>(e1, w1). Option.bind (expire_timers d n w1) (\<lambda>(e2, w2). Some (e1 @ e2, w2)))"
  by (induction m arbitrary: w) (auto split: bind_splits)

section \<open>Exact firing\<close>

lemma tick_exact_rel:
  assumes rel: "wheel_rel d w [] S" and on: "on_time d S" and t: "sw_time S < U64_MAX"
  shows "\<exists>ex w'. tick d w = Some (ex, w') \<and> live w' = {x \<in> live w. fst (snd x) \<noteq> sw_time S + 1} \<and>
    mset ex = image_mset context_of (mset_set {x \<in> live w. fst (snd x) = sw_time S + 1})"
proof -
  have d: "dims_ok d" using rel by (simp add: wheel_rel_def)
  obtain w' where w': "tick d w = Some (fst (sw_tick d S), w')" "wheel_rel d w' [] (snd (sw_tick d S))"
    using tick_refines[OF rel t] by blast
  note ex = on_time_tick[OF d on] and p = pending_live[OF rel]
  have "set_mset (pending d (snd (sw_tick d S))) = {x \<in> live w. fst (snd x) \<noteq> sw_time S + 1}"
    unfolding ex(3) p(1) using p(2) by simp
  then have "live w' = {x \<in> live w. fst (snd x) \<noteq> sw_time S + 1}" using live_pending[OF w'(2)] by simp
  moreover have "mset (fst (sw_tick d S)) = image_mset context_of (mset_set {x \<in> live w. fst (snd x) = sw_time S + 1})"
    unfolding ex(2) p(1) using p(2) by (simp add: filter_mset_mset_set)
  ultimately show ?thesis using w'(1) by blast
qed

section \<open>Runs of operations\<close>

text \<open>Operations with the key that the slab gives to a new entry, in the order in which they are called.\<close>

datatype 'c wheel_op = Start nat nat 'c | Start_absolute nat nat 'c | Stop nat | Tick

definition wheel_op_ok :: "'c timer_wheel \<Rightarrow> 'c wheel_op \<Rightarrow> bool" where
  "wheel_op_ok w p =
     (case p of Start k interval c \<Rightarrow> vacant_key w k | Start_absolute k e c \<Rightarrow> vacant_key w k
      | Stop h \<Rightarrow> True | Tick \<Rightarrow> current_time w < U64_MAX)"

definition wheel_op_run :: "wheel_dims \<Rightarrow> 'c wheel_op \<Rightarrow> 'c timer_wheel \<Rightarrow> ('c list \<times> 'c timer_wheel) option" where
  "wheel_op_run d p w =
     (case p of
        Start k interval c \<Rightarrow> map_option (\<lambda>(h, w). ([], w)) (start_timer d k interval c w)
      | Start_absolute k e c \<Rightarrow> map_option (\<lambda>(r, w). ([], w)) (start_timer_absolute d k e c w)
      | Stop h \<Rightarrow> map_option (\<lambda>(c, w). ([], w)) (stop_timer h w)
      | Tick \<Rightarrow> tick d w)"

text \<open>What the ticks of a run return, in order, and the wheel after it.\<close>

fun run_wheel :: "wheel_dims \<Rightarrow> 'c wheel_op list \<Rightarrow> 'c timer_wheel \<Rightarrow> ('c list \<times> 'c timer_wheel) option" where
  "run_wheel d [] w = Some ([], w)"
| "run_wheel d (p # ps) w = do {
     (e1, w1) \<leftarrow> wheel_op_run d p w;
     (e2, w2) \<leftarrow> run_wheel d ps w1;
     Some (e1 @ e2, w2)
   }"

text \<open>Every key that a run gives away is vacant, and the time does not overflow.\<close>

fun wheel_ops_ok :: "wheel_dims \<Rightarrow> 'c wheel_op list \<Rightarrow> 'c timer_wheel \<Rightarrow> bool" where
  "wheel_ops_ok d [] w \<longleftrightarrow> True"
| "wheel_ops_ok d (p # ps) w \<longleftrightarrow> wheel_op_ok w p \<and>
     (case wheel_op_run d p w of None \<Rightarrow> True | Some (_, w1) \<Rightarrow> wheel_ops_ok d ps w1)"

lemma wheel_reach_any: "wheel_reach P d w \<Longrightarrow> wheel_reach (\<lambda>_ _. True) d w"
  by (induction rule: wheel_reach.induct) (auto intro: wheel_reach.intros)

lemma wheel_op_effect:
  assumes reach: "wheel_reach (\<lambda>_ _. True) d w" and p: "wheel_op_ok w p"
  shows "\<exists>ex w'. wheel_op_run d p w = Some (ex, w') \<and> wheel_reach (\<lambda>_ _. True) d w' \<and>
    (\<forall>x\<in>live w. x \<in> live w' \<or> context_of x \<in> set ex \<or> p = Stop (fst x))"
proof -
  have ok: "wheel_ok d w" using reach by (rule wheel_reach_ok)
  show ?thesis
  proof (cases p)
    case (Start k interval c)
    then have k: "vacant_key w k" using p by (simp add: wheel_op_ok_def)
    from start_timer_live[OF ok k] obtain w' where w': "start_timer d k interval c w = Some (k, w')" "live w \<subseteq> live w'" by blast
    with reach_start[OF reach k _ w'(1)] Start show ?thesis by (auto simp: wheel_op_run_def)
  next
    case (Start_absolute k e c)
    then have k: "vacant_key w k" using p by (simp add: wheel_op_ok_def)
    have "\<exists>r w'. start_timer_absolute d k e c w = Some (r, w') \<and> live w \<subseteq> live w'"
    proof (cases "e \<le> current_time w")
      case True
      with wheel.start_late[OF ok] show ?thesis by blast
    next
      case False
      with start_timer_absolute_live[OF ok k, of e c] show ?thesis by force
    qed
    then obtain r w' where w': "start_timer_absolute d k e c w = Some (r, w')" "live w \<subseteq> live w'" by blast
    with reach_start_absolute[OF reach k _ w'(1)] Start_absolute show ?thesis by (auto simp: wheel_op_run_def)
  next
    case (Stop h)
    have "\<exists>r w'. stop_timer h w = Some (r, w') \<and> (\<forall>x\<in>live w. x \<in> live w' \<or> fst x = h)"
    proof (cases "h \<in> fst ` live w")
      case True
      then obtain e c where "(h, e, c) \<in> live w" by force
      from stop_timer_live[OF ok this] show ?thesis by fastforce
    next
      case False
      with stop_timer_dead[OF ok] show ?thesis by blast
    qed
    then obtain r w' where w': "stop_timer h w = Some (r, w')" "\<forall>x\<in>live w. x \<in> live w' \<or> fst x = h" by blast
    with reach_stop[OF reach w'(1)] Stop show ?thesis by (auto simp: wheel_op_run_def)
  next
    case Tick
    then have "current_time w < U64_MAX" using p by (simp add: wheel_op_ok_def)
    from tick_live[OF ok this] obtain ex w' X where w': "tick d w = Some (ex, w')" "X \<subseteq> live w" "live w' = live w - X"
      "mset ex = image_mset context_of (mset_set X)" by blast
    have "finite X" using w'(2) wheel_ok_finite[OF ok] by (rule finite_subset)
    then have "set ex = context_of ` X" using arg_cong[OF w'(4), of set_mset] by simp
    then have "\<forall>x\<in>live w. x \<in> live w' \<or> context_of x \<in> set ex" using w'(3) by blast
    with reach_tick[OF reach w'(1)] w'(1) Tick show ?thesis by (auto simp: wheel_op_run_def)
  qed
qed

lemma run_wheel_effect:
  "wheel_reach (\<lambda>_ _. True) d w \<Longrightarrow> wheel_ops_ok d ps w \<Longrightarrow> Stop (fst x) \<notin> set ps \<Longrightarrow>
   \<exists>ex w'. run_wheel d ps w = Some (ex, w') \<and> wheel_reach (\<lambda>_ _. True) d w' \<and>
     (x \<in> live w \<longrightarrow> x \<in> live w' \<or> context_of x \<in> set ex)"
proof (induction ps arbitrary: w)
  case (Cons p ps)
  from wheel_op_effect[OF Cons.prems(1), of p] Cons.prems(2) obtain e1 w1 where
    1: "wheel_op_run d p w = Some (e1, w1)" "wheel_reach (\<lambda>_ _. True) d w1"
      "\<forall>x\<in>live w. x \<in> live w1 \<or> context_of x \<in> set e1 \<or> p = Stop (fst x)" by auto
  have "wheel_ops_ok d ps w1" "Stop (fst x) \<notin> set ps" using Cons.prems(2,3) 1(1) by simp_all
  from Cons.IH[OF 1(2) this] obtain e2 w2 where
    2: "run_wheel d ps w1 = Some (e2, w2)" "wheel_reach (\<lambda>_ _. True) d w2"
      "x \<in> live w1 \<longrightarrow> x \<in> live w2 \<or> context_of x \<in> set e2" by blast
  have "x \<in> live w \<longrightarrow> x \<in> live w2 \<or> context_of x \<in> set (e1 @ e2)" using 1(3) 2(3) Cons.prems(3) by fastforce
  with 1(1) 2(1,2) show ?case by simp
qed simp

lemma ticks_ok:
  "wheel_ok d w \<Longrightarrow> current_time w + n \<le> U64_MAX \<Longrightarrow>
   wheel_ops_ok d (replicate n Tick) w \<and> run_wheel d (replicate n Tick) w = expire_timers d n w"
proof (induction n arbitrary: w)
  case (Suc n)
  then have "current_time w < U64_MAX" by simp
  from tick_live[OF Suc.prems(1) this] obtain ex w1 where
    "tick d w = Some (ex, w1)" "wheel_ok d w1" "current_time w1 = current_time w + 1" by blast
  with Suc.IH[of w1] Suc.prems show ?case by (simp add: wheel_op_ok_def wheel_op_run_def)
qed simp

lemma live_not_overdue:
  assumes "wheel_reach P d w" "(h, e, c) \<in> live w"
  shows "current_time w < e + num_slots d ^ num_levels d"
proof -
  obtain S where S: "wheel_rel d w [] S" "slot_inv P d S" using wheel_reach_inv[OF assms(1)] by blast
  have "(h, e, c) \<in># pending d S" using live_pending[OF S(1)] assms(2) by simp
  with in_turn_late[OF wheel_reach_dims[OF assms(1)]] S(2) wheel_rel_now[OF S(1)] show ?thesis
    by (fastforce simp: slot_inv_def)
qed

section \<open>Capacity\<close>

text \<open>A vacant key below \<open>EMPTY_INDEX\<close> exists while heads and live timers are fewer than that.\<close>

lemma vacant_exists:
  assumes "wheel_reach P d w" "card (live w) + num_levels d * num_slots d < EMPTY_INDEX"
  shows "\<exists>k. vacant_key w k"
proof (rule ccontr)
  obtain S where S: "wheel_rel d w [] S" using wheel_reach_inv[OF assms(1)] by blast
  let ?H = "(\<lambda>(l, s). head_ix w l s) ` ({..<num_levels d} \<times> {..<num_slots d})"
  assume "\<nexists>k. vacant_key w k"
  then have "{..<EMPTY_INDEX} \<subseteq> dom (timers w)" by (auto simp: vacant_key_def)
  also have "\<dots> \<subseteq> ?H \<union> fst ` live w"
  proof
    fix i assume i: "i \<in> dom (timers w)"
    have "pool_ok d (head_ix w) (timers w) [] (sw_slots S)" using S by (simp add: wheel_rel_def linked_def)
    with i have "\<exists>l<num_levels d. \<exists>s<num_slots d. i = head_ix w l s \<or> i \<in> handles (sw_slots S l s)"
      unfolding pool_ok_def by (metis empty_iff handles_simps(1))
    then obtain l s where ls: "l < num_levels d" "s < num_slots d" "i = head_ix w l s \<or> i \<in> handles (sw_slots S l s)"
      by blast
    from ls(3) show "i \<in> ?H \<union> fst ` live w"
    proof
      assume "i \<in> handles (sw_slots S l s)"
      then obtain x where "x \<in> set (sw_slots S l s)" "i = fst x" by (auto simp: handles_def)
      moreover from this have "x \<in># pending d S" using ls(1,2) in_pending by blast
      ultimately show ?thesis using live_pending[OF S] by blast
    qed (use ls in auto)
  qed
  finally have "EMPTY_INDEX \<le> card (?H \<union> fst ` live w)"
    using card_mono[of "?H \<union> fst ` live w" "{..<EMPTY_INDEX}"] pending_live(2)[OF S] by simp
  also have "\<dots> \<le> card ?H + card (fst ` live w)" by (rule card_Un_le)
  also have "\<dots> \<le> num_levels d * num_slots d + card (live w)"
    using card_image_le[of "{..<num_levels d} \<times> {..<num_slots d}" "\<lambda>(l, s). head_ix w l s"]
      card_image_le[OF pending_live(2)[OF S], of fst] by (simp add: card_cartesian_product)
  finally show False using assms(2) by simp
qed

section \<open>A concrete wheel\<close>

definition small_dims :: wheel_dims where
  "small_dims = \<lparr>num_levels = 2, num_slots = 4\<rparr>"

definition empty_wheel :: "nat timer_wheel" where
  "empty_wheel = init small_dims id"

definition small_wheel :: "nat timer_wheel" where
  "small_wheel = snd (the (start_timer small_dims 100 3 7 empty_wheel))"

lemma small_dims_ok: "dims_ok small_dims"
  by (simp add: dims_ok_def small_dims_def U64_MAX_def)

lemma empty_wheel_rel: "wheel_rel small_dims empty_wheel [] sw_new"
  unfolding empty_wheel_def by (rule init_refines[OF small_dims_ok]) (auto simp: small_dims_def EMPTY_INDEX_def U32_MAX_def)

lemma empty_wheel_reach: "wheel_reach P small_dims empty_wheel"
  unfolding empty_wheel_def
  by (rule reach_init[OF small_dims_ok]) (auto simp: small_dims_def EMPTY_INDEX_def U32_MAX_def)

lemma empty_wheel_live: "live empty_wheel = {}" "current_time empty_wheel = 0"
  using live_pending[OF empty_wheel_rel] wheel_rel_now[OF empty_wheel_rel]
  by (auto simp: pending_new) (simp add: sw_new_def)

lemma empty_wheel_keys: "timers empty_wheel k = None" if "8 \<le> k"
proof -
  have "timers empty_wheel k = (if k \<in> id ` {0..<0 + 8} then
      Some \<lparr>te_next = EMPTY_INDEX, te_previous = EMPTY_INDEX, te_data = Head\<rparr> else None)"
    unfolding empty_wheel_def init_def by (subst init_heads_timers) (simp add: small_dims_def uninit_wheel_def)
  with that show ?thesis by auto
qed

lemma vacant_100: "vacant_key empty_wheel 100"
  using empty_wheel_keys[of 100] by (simp add: vacant_key_def EMPTY_INDEX_def U32_MAX_def)

lemma small_wheel_start:
  "start_timer small_dims 100 3 7 empty_wheel = Some (100, small_wheel)"
  "live small_wheel = {(100, 3, 7)}" "current_time small_wheel = 0"
proof -
  have "wheel_ok small_dims empty_wheel" using wheel_reach_ok empty_wheel_reach by blast
  from start_timer_live[OF this vacant_100, of 3 7] obtain w' where
    "start_timer small_dims 100 3 7 empty_wheel = Some (100, w')"
    "live w' = {(100, min U64_MAX 3, 7)}" "current_time w' = 0"
    by (auto simp: empty_wheel_live)
  then show "start_timer small_dims 100 3 7 empty_wheel = Some (100, small_wheel)"
    "live small_wheel = {(100, 3, 7)}" "current_time small_wheel = 0"
    by (simp_all add: small_wheel_def U64_MAX_def)
qed

lemma small_carry_free: "carry_free small_dims 0 3"
  by (simp add: carry_free_def small_dims_def place_def Let_def upt_rec)

lemma small_wheel_reach: "wheel_reach (\<lambda>_ _. True) small_dims small_wheel"
  by (rule reach_start[OF empty_wheel_reach vacant_100 _ small_wheel_start(1)]) simp

lemma small_wheel_punctual: "wheel_reach (carry_free small_dims) small_dims small_wheel"
  by (rule reach_start[OF empty_wheel_reach vacant_100 _ small_wheel_start(1)])
    (simp add: empty_wheel_live small_carry_free U64_MAX_def)

lemma small_time: "current_time small_wheel < U64_MAX" "current_time small_wheel + 19 \<le> U64_MAX"
  by (simp_all add: small_wheel_start U64_MAX_def)

section \<open>Timers that wait a revolution too long\<close>

lemma ticks_keep:
  assumes "wheel_rel d w [] S" "in_sync d S" "sw_time S + n \<le> U64_MAX" "l < num_levels d" "s < num_slots d"
    "x \<in> set (sw_slots S l s)" "\<And>t. sw_time S < t \<Longrightarrow> t \<le> sw_time S + n \<Longrightarrow> \<not> drained_at d t l s"
  shows "\<exists>ex w' S'. expire_timers d n w = Some (ex, w') \<and> wheel_rel d w' [] S' \<and> in_sync d S' \<and>
    sw_time S' = sw_time S + n \<and> x \<in> set (sw_slots S' l s)"
  using assms
proof (induction n arbitrary: w S)
  case (Suc n)
  let ?S1 = "snd (sw_tick d S)"
  have d: "dims_ok d" using Suc.prems(1) by (simp add: wheel_rel_def)
  obtain w1 where w1: "tick d w = Some (fst (sw_tick d S), w1)" "wheel_rel d w1 [] ?S1"
    using tick_refines[OF Suc.prems(1)] Suc.prems(3) by auto
  have x1: "x \<in> set (sw_slots ?S1 l s)"
    using tick_keeps[OF d Suc.prems(2,4,5,6)] Suc.prems(7)[of "sw_time S + 1"] by simp
  have nd: "\<not> drained_at d t l s" if "sw_time ?S1 < t" "t \<le> sw_time ?S1 + n" for t
    using Suc.prems(7)[of t] that by simp
  have "sw_time ?S1 + n \<le> U64_MAX" using Suc.prems(3) by simp
  from Suc.IH[OF w1(2) tick_due(1)[OF d Suc.prems(2)] this Suc.prems(4,5) x1 nd] obtain ex w' S' where
    "expire_timers d n w1 = Some (ex, w')" "wheel_rel d w' [] S'" "in_sync d S'" "sw_time S' = sw_time ?S1 + n"
    "x \<in> set (sw_slots S' l s)" by blast
  with w1(1) show ?case by fastforce
qed auto

lemma stays_late:
  assumes rel: "wheel_rel d w [] S" and S: "in_sync d S" and N: "2 \<le> num_slots d" "2 \<le> num_levels d"
    and T: "sw_time S + 1 = num_slots d" and x: "x \<in> set (sw_slots S 1 0)"
    and e: "fst (snd x) = 3 * num_slots d - 2" and n: "n \<le> num_slots d * num_slots d"
    and max: "sw_time S + n \<le> U64_MAX"
  shows "\<exists>ex w'. expire_timers d n w = Some (ex, w') \<and> x \<in> live w'"
proof (cases n)
  case 0
  have "x \<in> live w" using live_pending[OF rel] in_pending[of x d S] x N by fastforce
  with 0 show ?thesis by simp
next
  case (Suc m)
  let ?N = "num_slots d" and ?S1 = "snd (sw_tick d S)"
  have d: "dims_ok d" using rel by (simp add: wheel_rel_def)
  have "sw_time S < U64_MAX" using max Suc by simp
  then obtain w1 where w1: "tick d w = Some (fst (sw_tick d S), w1)" "wheel_rel d w1 [] ?S1"
    using tick_refines[OF rel] by blast
  have x1: "x \<in> set (sw_slots ?S1 1 0)" by (rule re_added_same_slot[OF d N S T x e])
  have t1: "sw_time ?S1 = ?N" using T by simp
  have nd: "\<not> drained_at d t 1 0" if t: "sw_time ?S1 < t" "t \<le> sw_time ?S1 + m" for t
  proof
    assume "drained_at d t 1 0"
    then obtain q where q: "t = ?N * q" and z: "(q - 1) mod ?N = 0" using N by (auto simp: drained_at_def)
    have "?N * 1 < ?N * q" using t(1) t1 q by simp
    then have q1: "1 < q" using N by (metis mult_less_cancel1)
    have "?N * q < ?N * (?N + 1)" using t(2) t1 q n Suc by (simp add: algebra_simps)
    then have "q - 1 < ?N" using N q1 by (metis add_diff_cancel_right' less_diff_conv2 mult_less_cancel1 less_imp_le)
    with z q1 show False by simp
  qed
  have "sw_time ?S1 + m \<le> U64_MAX" using max Suc by simp
  then obtain ex w' S' where r: "expire_timers d m w1 = Some (ex, w')" "wheel_rel d w' [] S'" "x \<in> set (sw_slots S' 1 0)"
  proof -
    have "1 < num_levels d" "0 < ?N" using N by auto
    from ticks_keep[OF w1(2) tick_due(1)[OF d S] \<open>sw_time ?S1 + m \<le> U64_MAX\<close> this x1 nd] that show ?thesis by blast
  qed
  have "x \<in> live w'" using live_pending[OF r(2)] in_pending[of x d S'] r(3) N by fastforce
  with r(1) w1(1) Suc show ?thesis by auto
qed

lemma place_boundary:
  assumes "2 \<le> num_slots d" "2 \<le> num_levels d" "pos 1 = 0"
  shows "place d pos (2 * num_slots d - 1) = (1, 0)"
proof -
  let ?N = "num_slots d"
  have "2 * ?N \<le> ?N * ?N" using assms(1) by (intro mult_right_mono) auto
  then have "2 * ?N - 1 < ?N * ?N" using assms(1) by linarith
  then have "2 * ?N - 1 < ?N ^ (1 + 1)" by simp
  moreover have "(2 * ?N - 1) div ?N = 1" using assms(1) by (intro div_nat_eqI) auto
  moreover have "\<forall>k<1. ?N ^ (k + 1) \<le> 2 * ?N - 1" using assms(1) by auto
  ultimately show ?thesis using place_near[of 1 d "2 * ?N - 1" pos] assms by simp
qed

lemma late_after_add:
  assumes N: "2 \<le> num_slots d" "2 \<le> num_levels d"
    and w1: "wheel_rel d w1 [] (sw_add d (k, 3 * num_slots d - 2, c) S)" and sync: "in_sync d S"
    and t: "sw_time S = num_slots d - 1" and n: "n \<le> num_slots d * num_slots d" "3 * num_slots d + n \<le> U64_MAX"
  shows "\<exists>ex w2. expire_timers d n w1 = Some (ex, w2) \<and> (k, 3 * num_slots d - 2, c) \<in> live w2"
proof -
  let ?N = "num_slots d" and ?e = "3 * num_slots d - 2"
  have p1: "sw_pos S 1 = 0" and t1: "sw_time S + 1 = ?N"
    using sync N t by (auto simp: in_sync_def in_step_def steps_at_def)
  have "?e - sw_time S = 2 * ?N - 1" using t N by simp
  then have "(k, ?e, c) \<in> set (sw_slots (sw_add d (k, ?e, c) S) 1 0)"
    using place_boundary[OF N, of "sw_pos S"] p1 by (simp add: sw_add_slots)
  moreover have "sw_time S + n \<le> U64_MAX" using t n(2) by linarith
  ultimately show ?thesis
    using stays_late[OF w1 in_sync_frame(1)[OF sync] N, of "(k, ?e, c)" n] t1 n(1) by auto
qed

section \<open>Properties\<close>

text \<open>C1: In every reachable state a tick returns, advances the time by one and returns the
  contexts of a set of live timers that are all due: no timer fires early, none is returned
  twice, and every timer that is not returned stays live with its expire time.\<close>

theorem tick_fires:
  assumes "wheel_reach P d w" "current_time w < U64_MAX"
  shows "\<exists>ex w' X. tick d w = Some (ex, w') \<and> wheel_reach P d w' \<and> current_time w' = current_time w + 1 \<and>
    X \<subseteq> live w \<and> live w' = live w - X \<and> (\<forall>x\<in>X. is_due (current_time w + 1) x) \<and>
    mset ex = image_mset context_of (mset_set X)"
  using wheel.step_fires[OF wheel_reach_ok[OF assms(1)] assms(2)] reach_tick[OF assms(1)] by blast

lemma tick_fires_witness:
  "\<exists>ex w' X. tick small_dims small_wheel = Some (ex, w') \<and> current_time w' = 1 \<and>
    X \<subseteq> {(100, 3, 7)} \<and> live w' = {(100, 3, 7)} - X \<and> (\<forall>x\<in>X. is_due 1 x)"
  using tick_fires[OF small_wheel_reach small_time(1)] by (auto simp: small_wheel_start)

text \<open>C28: Exact firing: when every timer was started carry-free (the low digits of the time and
  of the interval add up without a carry into the timer's level, as they do for every interval
  below \<open>NUM_SLOTS\<close>), the tick of time \<open>t\<close> returns exactly the timers whose expire time is \<open>t\<close>.\<close>

theorem tick_exact:
  assumes "wheel_reach (carry_free d) d w" "current_time w < U64_MAX"
  shows "\<exists>ex w'. tick d w = Some (ex, w') \<and>
    live w' = {x \<in> live w. fst (snd x) \<noteq> current_time w + 1} \<and>
    mset ex = image_mset context_of (mset_set {x \<in> live w. fst (snd x) = current_time w + 1})"
proof -
  obtain S where S: "wheel_rel d w [] S" "slot_inv (carry_free d) d S" using wheel_reach_inv[OF assms(1)] by blast
  then have "on_time d S" "current_time w = sw_time S" by (simp_all add: slot_inv_def wheel_rel_now)
  with tick_exact_rel[OF S(1)] assms(2) show ?thesis by simp
qed

lemma tick_exact_witness:
  "\<exists>ex w'. tick small_dims small_wheel = Some (ex, w') \<and> live w' = {(100, 3, 7)} \<and> ex = []"
  using tick_exact[OF small_wheel_punctual small_time(1)] by (auto simp: small_wheel_start Collect_conv_if)

text \<open>C12: Liveness: whatever was started before, no timer is in the wheel a revolution of the whole wheel
  (\<open>NUM_SLOTS ^ NUM_LEVELS\<close> ticks) after its expire time.  From a state in which a timer is live, any
  sequence of operations returns, in which new timers get vacant keys, the time does not overflow and
  the timer is not stopped; and when it takes the time to a revolution after the timer's expire time,
  one of its ticks has returned the timer's context.\<close>

theorem timer_fires_eventually:
  assumes reach: "wheel_reach P d w" and x: "(h, e, c) \<in> live w"
    and ops: "wheel_ops_ok d ops w" "Stop h \<notin> set ops"
  shows "current_time w < e + num_slots d ^ num_levels d \<and>
    (\<exists>ex w'. run_wheel d ops w = Some (ex, w') \<and>
      (if e + num_slots d ^ num_levels d \<le> current_time w' then (h, e, c) \<notin> live w' \<and> c \<in> set ex
       else (h, e, c) \<in> live w' \<or> c \<in> set ex))"
proof -
  from run_wheel_effect[OF wheel_reach_any[OF reach] ops(1), of "(h, e, c)"] ops(2) x obtain ex w' where
    w': "run_wheel d ops w = Some (ex, w')" "wheel_reach (\<lambda>_ _. True) d w'" "(h, e, c) \<in> live w' \<or> c \<in> set ex"
    by (auto simp: context_of_def)
  have "(h, e, c) \<in> live w' \<Longrightarrow> current_time w' < e + num_slots d ^ num_levels d" using live_not_overdue[OF w'(2)] by blast
  then show ?thesis using live_not_overdue[OF reach x] w'(1,3) by fastforce
qed

lemma timer_fires_eventually_witness:
  "\<exists>k ex w'. run_wheel small_dims (Start k 50 8 # Stop k # replicate 19 Tick) small_wheel = Some (ex, w') \<and>
     (100, 3, 7) \<notin> live w' \<and> 7 \<in> set ex"
proof -
  have ok: "wheel_ok small_dims small_wheel" using small_wheel_reach by (rule wheel_reach_ok)
  obtain k where k: "vacant_key small_wheel k"
    using vacant_exists[OF small_wheel_reach] by (auto simp: small_wheel_start small_dims_def EMPTY_INDEX_def U32_MAX_def)
  have k100: "k \<noteq> 100" using vacant_free[OF k] by (auto simp: small_wheel_start)
  let ?ops = "Start k 50 8 # Stop k # replicate 19 Tick"
  from start_timer_live[OF ok k, of 50 8] obtain w1 where
    w1: "start_timer small_dims k 50 8 small_wheel = Some (k, w1)" "wheel_ok small_dims w1" "(k, 50, 8) \<in> live w1" "current_time w1 = 0"
    by (auto simp: small_wheel_start U64_MAX_def)
  obtain w2 where w2: "stop_timer k w1 = Some (Some 8, w2)" "wheel_ok small_dims w2" "current_time w2 = 0"
    using stop_timer_live[OF w1(2,3)] w1(4) by auto
  have t: "current_time w2 + 19 \<le> U64_MAX" by (simp add: w2(3) U64_MAX_def)
  note ticks = conjunct1[OF ticks_ok[OF w2(2) t]] conjunct2[OF ticks_ok[OF w2(2) t]]
  obtain ex w' where w': "expire_timers small_dims 19 w2 = Some (ex, w')" "current_time w' = 19"
    using wheel.expire_contexts[OF w2(2) t] w2(3) by (metis add_0)
  have ops: "wheel_ops_ok small_dims ?ops small_wheel"
    unfolding wheel_ops_ok.simps wheel_op_run_def wheel_op.case w1(1) w2(1) option.map prod.case option.case
    using ticks(1) k by (simp add: wheel_op_ok_def)
  have run: "run_wheel small_dims ?ops small_wheel = Some (ex, w')"
    unfolding run_wheel.simps wheel_op_run_def wheel_op.case w1(1) w2(1) option.map prod.case bind.bind_lunit ticks(2) w'(1)
    by simp
  have "(100, 3, 7) \<in> live small_wheel" by (simp add: small_wheel_start)
  moreover have "Stop 100 \<notin> set ?ops" using k100 by auto
  ultimately have "if 3 + 16 \<le> current_time w' then (100, 3, 7) \<notin> live w' \<and> 7 \<in> set ex else (100, 3, 7) \<in> live w' \<or> 7 \<in> set ex"
    using timer_fires_eventually[OF small_wheel_reach _ ops, of 100 3 7] run by (simp add: small_dims_def)
  then show ?thesis using run w'(2) by auto
qed

text \<open>C29: Firing is not exact in general: a timer started at tick \<open>NUM_SLOTS - 1\<close> with interval
  \<open>2 * NUM_SLOTS - 1\<close> (expire time \<open>3 * NUM_SLOTS - 2\<close>) is re-added by the next tick to the slot
  of level 1 that tick has just emptied, and is still in the wheel \<open>NUM_SLOTS ^ 2\<close> ticks after
  it was started, long after its expire time.\<close>

theorem timer_fires_late:
  assumes reach: "wheel_reach P d w" and N: "2 \<le> num_slots d" "2 \<le> num_levels d"
    and T: "current_time w + 1 = num_slots d" and k: "vacant_key w k"
    and n: "n \<le> num_slots d * num_slots d" "3 * num_slots d + n \<le> U64_MAX"
  shows "\<exists>w1 ex w2. start_timer d k (2 * num_slots d - 1) c w = Some (k, w1) \<and>
    expire_timers d n w1 = Some (ex, w2) \<and> (k, 3 * num_slots d - 2, c) \<in> live w2"
proof -
  let ?N = "num_slots d" and ?e = "3 * num_slots d - 2"
  obtain S where S: "wheel_rel d w [] S" "slot_inv P d S" using wheel_reach_inv[OF reach] by blast
  have t: "sw_time S = ?N - 1" using T wheel_rel_now[OF S(1)] by simp
  have e: "min U64_MAX (sw_time S + (2 * ?N - 1)) = ?e" using n(2) t N by simp
  have "k \<notin> dom (timers w)" "k < EMPTY_INDEX" "sw_time S \<le> U64_MAX"
    using k S(2) by (auto simp: vacant_key_def slot_inv_def)
  from start_timer_refines[OF S(1) this, of "2 * ?N - 1" c] obtain w1 where
    w1: "start_timer d k (2 * ?N - 1) c w = Some (k, w1)" "wheel_rel d w1 [] (sw_add d (k, ?e, c) S)"
    unfolding e by blast
  have "in_sync d S" using S(2) by (simp add: slot_inv_def)
  from late_after_add[OF N w1(2) this t n] w1(1) show ?thesis by blast
qed

lemma timer_fires_late_witness:
  "\<exists>w k w1 ex w2. wheel_reach (\<lambda>_ _. True) small_dims w \<and> current_time w = 3 \<and>
    start_timer small_dims k 7 (0::nat) w = Some (k, w1) \<and> expire_timers small_dims 16 w1 = Some (ex, w2) \<and>
    (k, 10, 0) \<in> live w2"
proof -
  have "current_time empty_wheel + 3 \<le> U64_MAX" by (simp add: empty_wheel_live U64_MAX_def)
  then obtain ex w where w: "expire_timers small_dims 3 empty_wheel = Some (ex, w)" "current_time w = 3" "live w \<subseteq> {}"
    using wheel.expire_contexts[OF wheel_reach_ok[OF empty_wheel_reach]] by (metis empty_wheel_live add_0)
  have reach: "wheel_reach (\<lambda>_ _. True) small_dims w" by (rule expire_timers_reach[OF w(1) empty_wheel_reach])
  obtain k where k: "vacant_key w k"
    using vacant_exists[OF reach] w(3) by (auto simp: small_dims_def EMPTY_INDEX_def U32_MAX_def)
  show ?thesis
    using timer_fires_late[OF reach _ _ _ k, of 16 0] w(2) reach
    by (simp add: small_dims_def U64_MAX_def) blast
qed

text \<open>\<open>stop_timer\<close> on the handle of a live timer returns its context and removes this timer
  only; on any other handle it returns \<open>None\<close> and changes nothing.\<close>

theorem stop_timer_exact:
  assumes "wheel_reach P d w"
  shows "(\<forall>e c. (h, e, c) \<in> live w \<longrightarrow>
      (\<exists>w'. stop_timer h w = Some (Some c, w') \<and> live w' = live w - {(h, e, c)} \<and> stop_timer h w' = Some (None, w'))) \<and>
    (h \<notin> fst ` live w \<longrightarrow> stop_timer h w = Some (None, w))"
  using wheel.stop_twice[OF wheel_reach_ok[OF assms]] wheel.stop_live[OF wheel_reach_ok[OF assms]]
    wheel.stop_dead[OF wheel_reach_ok[OF assms]] by (metis (no_types, opaque_lifting) option.inject prod.inject)

lemma stop_timer_exact_witness:
  "\<exists>w'. stop_timer 100 small_wheel = Some (Some 7, w') \<and> live w' = {} \<and> stop_timer 100 w' = Some (None, w')"
  using stop_timer_exact[OF small_wheel_reach, of 100] by (auto simp: small_wheel_start)

text \<open>\<open>start_timer\<close> never panics: it returns the key of the new entry and adds exactly one
  timer, whose expire time is the current time plus the interval, saturated at \<open>u64::MAX\<close>.\<close>

theorem start_timer_exact:
  assumes "wheel_reach P d w" "vacant_key w k"
  shows "\<exists>w'. start_timer d k interval c w = Some (k, w') \<and> k \<notin> fst ` live w \<and>
    live w' = insert (k, min U64_MAX (current_time w + interval), c) (live w) \<and> current_time w' = current_time w"
  using start_timer_live[OF wheel_reach_ok[OF assms(1)] assms(2)] vacant_free[OF assms(2)] by blast

lemma start_timer_exact_witness:
  "\<exists>w'. start_timer small_dims 100 3 7 empty_wheel = Some (100, w') \<and> live w' = {(100, 3, 7)}"
  using start_timer_exact[OF empty_wheel_reach vacant_100, where interval = 3 and c = 7] by (auto simp: empty_wheel_live U64_MAX_def)

lemma sw_next_expiration_sound:
  assumes "dims_ok d" "pos_ok d S"
  shows "(sw_next_expiration d S = None \<longleftrightarrow> set_mset (pending d S) = {}) \<and>
    (\<forall>e. sw_next_expiration d S = Some e \<longrightarrow> e \<in> (fst \<circ> snd) ` set_mset (pending d S))"
proof -
  let ?P = "\<lambda>(l, i). sw_slots S l ((sw_pos S l + i) mod num_slots d) \<noteq> []"
  let ?ps = "List.product [0..<num_levels d] [0..<num_slots d]"
  have N: "0 < num_slots d" using assms(1) by (simp add: dims_ok_def)
  show ?thesis
  proof (cases "find ?P ?ps")
    case None
    have "sw_slots S l s = []" if l: "l < num_levels d" and s: "s < num_slots d" for l s
    proof -
      obtain i where i: "i < num_slots d" "(sw_pos S l + i) mod num_slots d = s" using slot_offset[OF s] by blast
      then have "(l, i) \<in> set ?ps" using l by simp
      with None i(2) show ?thesis by (force simp: find_None_iff)
    qed
    then have "set_mset (pending d S) = {}" using in_pending[of _ d S] by fastforce
    with None show ?thesis by (simp add: sw_next_expiration_def)
  next
    case (Some p)
    obtain l i where p: "p = (l, i)" by (cases p)
    let ?xs = "sw_slots S l ((sw_pos S l + i) mod num_slots d)"
    have li: "l < num_levels d" "?xs \<noteq> []" using find_SomeD[OF Some] p by auto
    have ne: "sw_next_expiration d S = Some (Min ((fst \<circ> snd) ` set ?xs))" using Some p by (simp add: sw_next_expiration_def)
    have sub: "set ?xs \<subseteq> set_mset (pending d S)" using li(1) N in_pending[of _ d S] by fastforce
    have "Min ((fst \<circ> snd) ` set ?xs) \<in> (fst \<circ> snd) ` set ?xs" using li(2) by (intro Min_in) auto
    with sub have "Min ((fst \<circ> snd) ` set ?xs) \<in> (fst \<circ> snd) ` set_mset (pending d S)" by blast
    moreover have "set_mset (pending d S) \<noteq> {}" using sub li(2) by auto
    ultimately show ?thesis using ne by simp
  qed
qed

text \<open>\<open>next_expiration\<close> never panics; it is \<open>None\<close> exactly when no timer is live, and
  otherwise the expire time of some live timer.\<close>

theorem next_expiration_sound:
  assumes "wheel_reach P d w"
  shows "\<exists>r. next_expiration d w = Some r \<and> (r = None \<longleftrightarrow> live w = {}) \<and>
    (\<forall>e. r = Some e \<longrightarrow> (\<exists>h c. (h, e, c) \<in> live w))"
proof -
  obtain S where S: "wheel_rel d w [] S" using wheel_reach_inv[OF assms] by blast
  have "dims_ok d" "pos_ok d S" using S by (simp_all add: wheel_rel_def shape_rel_def pos_ok_def)
  from sw_next_expiration_sound[OF this] next_expiration_refines[OF S] live_pending[OF S] show ?thesis by force
qed

lemma next_expiration_sound_witness:
  "next_expiration small_dims small_wheel = Some (Some 3)"
  using next_expiration_sound[OF small_wheel_reach] by (auto simp: small_wheel_start)

definition tracks :: "'c timer_wheel \<Rightarrow> 'c slot_wheel \<Rightarrow> bool" where
  "tracks w S \<longleftrightarrow> wheel_reach (\<lambda>_ _. True) small_dims w \<and> wheel_rel small_dims w [] S"

lemma tracks_tick: "tracks w S \<Longrightarrow> sw_time S < U64_MAX \<Longrightarrow> \<exists>w'. tracks w' (snd (sw_tick small_dims S))"
  unfolding tracks_def using tick_refines reach_tick by blast

lemma tracks_start:
  assumes "tracks w S" "vacant_key w k" "sw_time S + i \<le> U64_MAX"
  shows "\<exists>w'. tracks w' (sw_add small_dims (k, sw_time S + i, c) S)"
proof -
  have "wheel_rel small_dims w [] S" "k \<notin> dom (timers w)" "k < EMPTY_INDEX" "sw_time S \<le> U64_MAX"
    using assms by (auto simp: tracks_def vacant_key_def)
  from start_timer_refines[OF this, of i c] obtain w' where w': "start_timer small_dims k i c w = Some (k, w')"
    "wheel_rel small_dims w' [] (sw_add small_dims (k, min U64_MAX (sw_time S + i), c) S)" by blast
  then have "wheel_rel small_dims w' [] (sw_add small_dims (k, sw_time S + i, c) S)"
    using assms(3) by (simp add: min_absorb2)
  with reach_start[OF _ assms(2) _ w'(1)] assms(1) show ?thesis by (auto simp: tracks_def)
qed

lemmas small_eval = small_dims_def sw_add_def sw_new_def place_def upt_rec Let_def sw_put_def sw_tick_def
  sw_level_step_def sw_advance_def sw_process.simps fun_eq_iff

text \<open>A timer of expire time 4 on level 1 and the timers \<open>xs\<close> in slot 1 of level 0.\<close>

definition two_slots :: "nat \<Rightarrow> (nat \<times> nat \<times> nat) list \<Rightarrow> nat slot_wheel" where
  "two_slots t xs = \<lparr>sw_slots = (\<lambda>_ _. [])(0 := (\<lambda>_. [])(1 := xs), 1 := (\<lambda>_. [])(0 := [(100, 4, 1)])),
    sw_pos = (\<lambda>_. 0)(0 := t), sw_time = t\<rparr>"

lemma two_slots_place: "place small_dims (sw_pos (two_slots 3 xs)) 3 = (0, 1)"
  by (simp add: place_def small_dims_def two_slots_def upt_rec)

lemma two_slots_steps:
  "sw_add small_dims (100, 4, 1) sw_new = two_slots 0 []"
  "snd (sw_tick small_dims (two_slots 0 [])) = two_slots 1 []"
  "snd (sw_tick small_dims (two_slots 1 [])) = two_slots 2 []"
  "snd (sw_tick small_dims (two_slots 2 [])) = two_slots 3 []"
  "sw_add small_dims (k, 6, 2) (two_slots 3 []) = two_slots 3 [(k, 6, 2)]"
  "sw_next_expiration small_dims (two_slots 3 [(k, 6, 2)]) = Some 6"
proof -
  show "sw_add small_dims (k, 6, 2) (two_slots 3 []) = two_slots 3 [(k, 6, 2)]"
    using two_slots_place[of "[]"] by (simp add: sw_add_def two_slots_def sw_put_def Let_def fun_eq_iff)
  show "sw_add small_dims (100, 4, 1) sw_new = two_slots 0 []"
    by (simp add: small_eval two_slots_def)
  show "snd (sw_tick small_dims (two_slots 0 [])) = two_slots 1 []"
    by (simp add: small_eval two_slots_def)
  show "snd (sw_tick small_dims (two_slots 1 [])) = two_slots 2 []"
    by (simp add: small_eval two_slots_def)
  show "snd (sw_tick small_dims (two_slots 2 [])) = two_slots 3 []"
    by (simp add: small_eval two_slots_def)
  show "sw_next_expiration small_dims (two_slots 3 [(k, 6, 2)]) = Some 6"
    by (simp add: small_eval two_slots_def sw_next_expiration_def)
qed

lemma two_slots_time [simp]: "sw_time (two_slots t xs) = t"
  by (simp add: two_slots_def)

lemma two_slots_reached: "\<exists>w k. tracks w (two_slots 3 [(k, 6, 2)])"
proof -
  have le: "n \<le> 10 \<Longrightarrow> n < U64_MAX" for n by (simp add: U64_MAX_def)
  have "tracks empty_wheel sw_new" by (simp add: tracks_def empty_wheel_reach empty_wheel_rel)
  moreover have "sw_time (sw_new :: nat slot_wheel) = 0" by (simp add: sw_new_def)
  ultimately have "\<exists>w'. tracks w' (sw_add small_dims (100, 4, 1 :: nat) sw_new)"
    using tracks_start[OF _ vacant_100, of sw_new 4 1] le[of 4] by (simp del: One_nat_def)
  then obtain w0 where "tracks w0 (two_slots 0 [])" unfolding two_slots_steps(1) ..
  then obtain w1 where "tracks w1 (two_slots 1 [])" using tracks_tick le[of 0] two_slots_steps(2) by fastforce
  then obtain w2 where "tracks w2 (two_slots 2 [])" using tracks_tick le[of 1] two_slots_steps(3) by fastforce
  then obtain w3 where w3: "tracks w3 (two_slots 3 [])" using tracks_tick le[of 2] two_slots_steps(4) by fastforce
  then have "card (live w3) \<le> 1"
    using pending_live[of small_dims w3 "two_slots 3 []"]
    by (auto simp: tracks_def pending_def two_slots_def small_dims_def lessThan_nat_numeral lessThan_Suc dest: arg_cong[of _ _ size])
  then obtain k where "vacant_key w3 k"
    using vacant_exists[of "\<lambda>_ _. True" small_dims w3] w3
    by (auto simp: tracks_def small_dims_def EMPTY_INDEX_def U32_MAX_def)
  from tracks_start[OF w3 this, of 3 2] le[of 6] show ?thesis by (auto simp: two_slots_steps)
qed

text \<open>\<open>next_expiration\<close> need not be the earliest expire time: it stops at the first occupied
  slot, level 0 first.  In a reachable wheel of two levels of four slots it returns 6 while a
  timer with expire time 4, placed on level 1, is live.\<close>

theorem next_expiration_not_earliest:
  "\<exists>w :: nat timer_wheel. wheel_reach (\<lambda>_ _. True) small_dims w \<and> current_time w = 3 \<and>
    (100, 4, 1) \<in> live w \<and> next_expiration small_dims w = Some (Some 6)"
proof -
  obtain w k where w: "tracks w (two_slots 3 [(k, 6, 2)])" using two_slots_reached by blast
  then have rel: "wheel_rel small_dims w [] (two_slots 3 [(k, 6, 2)])" by (simp add: tracks_def)
  have "(100, 4, 1) \<in># pending small_dims (two_slots 3 [(k, 6, 2)])"
    unfolding in_pending by (auto simp: two_slots_def small_dims_def)
  then have "(100, 4, 1) \<in> live w" using live_pending[OF rel] by simp
  moreover have "next_expiration small_dims w = Some (Some 6)"
    using next_expiration_refines[OF rel] by (simp add: two_slots_steps(6))
  moreover have "current_time w = 3" using wheel_rel_now[OF rel] by simp
  ultimately show ?thesis using w by (auto simp: tracks_def)
qed

end
