(* ===== verification/Process_Timer.thy ===== *)
theory Process_Timer
  imports Tw_Timer_Props
begin

text \<open>
  Timers of VPP process nodes: the \<open>TimerWheel\<close>, \<open>TimerState\<close> and \<open>Timer\<close> of
  \<open>vlib/process_node/tw_timer.rs\<close> and the sleeps, timeouts and the polling of the coroutine in
  \<open>vlib/process_node/core.rs\<close>.

  The timers of this module live in a \<open>Slab\<close> of their own, whose keys are the contexts of the
  timer wheel underneath.  Instants and durations are natural numbers of nanoseconds.
\<close>

section \<open>The timer wheel of a process node\<close>

record timer_state =
  is_ready :: bool
  wheel_handle :: "nat option"

record process_wheel =
  entries :: "nat \<rightharpoonup> timer_state"
  previous_ticks :: nat
  wheel :: "nat timer_wheel"

definition process_dims :: wheel_dims where
  "process_dims = \<lparr>num_levels = 3, num_slots = 2048\<rparr>"

definition pw_init :: "(nat \<Rightarrow> nat) \<Rightarrow> process_wheel" where
  "pw_init keys = \<lparr>entries = Map.empty, previous_ticks = 0, wheel = init process_dims keys\<rparr>"

text \<open>\<open>key\<close> is the vacant key of \<open>entries\<close>, \<open>wkey\<close> the one of the wheel's own pool.\<close>

definition pw_start_timer :: "nat \<Rightarrow> nat \<Rightarrow> nat \<Rightarrow> process_wheel \<Rightarrow> (nat \<times> process_wheel) option" where
  "pw_start_timer key wkey expire_time pw = do {
     let entry = \<lparr>is_ready = False, wheel_handle = None\<rparr>;
     let handle = key;
     (r, w) \<leftarrow> start_timer_absolute process_dims wkey expire_time handle (wheel pw);
     let entry' = (case r of
                     Inr wh \<Rightarrow> entry\<lparr>wheel_handle := Some wh\<rparr>
                   | Inl (Expired _) \<Rightarrow> entry\<lparr>is_ready := True\<rparr>);
     Some (handle, pw\<lparr>entries := (entries pw)(key \<mapsto> entry'), wheel := w\<rparr>)
   }"

definition pw_stop_timer :: "nat \<Rightarrow> process_wheel \<Rightarrow> process_wheel option" where
  "pw_stop_timer handle pw = do {
     entry \<leftarrow> entries pw handle;
     let pw1 = pw\<lparr>entries := (entries pw)(handle := None)\<rparr>;
     case wheel_handle entry of
       None \<Rightarrow> Some pw1
     | Some wh \<Rightarrow> do {
         (_, w) \<leftarrow> stop_timer wh (wheel pw1);
         Some (pw1\<lparr>wheel := w\<rparr>)
       }
   }"

definition pw_state :: "process_wheel \<Rightarrow> nat \<Rightarrow> timer_state option" where
  "pw_state pw handle = entries pw handle"

fun mark_expired :: "nat list \<Rightarrow> (nat \<rightharpoonup> timer_state) \<Rightarrow> (nat \<rightharpoonup> timer_state)" where
  "mark_expired [] es = es"
| "mark_expired (h # hs) es =
     (case es h of
        Some st \<Rightarrow> mark_expired hs (es(h \<mapsto> st\<lparr>is_ready := True, wheel_handle := None\<rparr>))
      | None \<Rightarrow> mark_expired hs es)"

definition pw_expire_timers :: "nat \<Rightarrow> process_wheel \<Rightarrow> process_wheel option" where
  "pw_expire_timers now pw = do {
     let ticks = saturating_sub now (previous_ticks pw);
     (handles, w) \<leftarrow> expire_timers process_dims ticks (wheel pw);
     Some (pw\<lparr>wheel := w, previous_ticks := now, entries := mark_expired handles (entries pw)\<rparr>)
   }"

definition pw_next_expiration :: "process_wheel \<Rightarrow> nat option option" where
  "pw_next_expiration pw = do {
     next \<leftarrow> next_expiration process_dims (wheel pw);
     case next of
       None \<Rightarrow> Some None
     | Some ticks \<Rightarrow> map_option Some (checked_sub ticks (previous_ticks pw))
   }"

text \<open>\<open>Timer::is_ready\<close> panics on a handle that is not in the wheel.\<close>

definition timer_is_ready :: "process_wheel \<Rightarrow> nat \<Rightarrow> bool option" where
  "timer_is_ready pw handle = map_option is_ready (pw_state pw handle)"

datatype 'a poll = Ready 'a | Pending

definition timer_poll :: "process_wheel \<Rightarrow> nat \<Rightarrow> unit poll option" where
  "timer_poll pw handle = map_option (\<lambda>r. if r then Ready () else Pending) (timer_is_ready pw handle)"

definition timer_drop :: "nat \<Rightarrow> process_wheel \<Rightarrow> process_wheel option" where
  "timer_drop handle pw = pw_stop_timer handle pw"

section \<open>Time, sleeps and timeouts\<close>

definition TICK_INTERVAL_PER_MS :: nat where
  "TICK_INTERVAL_PER_MS = 1"

definition div_ceil :: "nat \<Rightarrow> nat \<Rightarrow> nat" where
  "div_ceil a b = (if a mod b = 0 then a div b else a div b + 1)"

definition as_millis :: "nat \<Rightarrow> nat" where
  "as_millis duration = duration div 1000000"

record async_shared =
  timer_wheel :: process_wheel
  start_time :: nat

definition instant_to_ticks :: "async_shared \<Rightarrow> nat \<Rightarrow> nat" where
  "instant_to_ticks ctx t =
     (let duration = t - start_time ctx;
          ticks = div_ceil (as_millis duration) TICK_INTERVAL_PER_MS
      in if ticks \<le> U64_MAX then ticks else U64_MAX)"

text \<open>\<open>instant_max\<close> is the latest \<open>Instant\<close> of the platform, beyond which \<open>checked_add\<close> is \<open>None\<close>.\<close>

definition sleep_deadline :: "nat \<Rightarrow> nat \<Rightarrow> nat \<Rightarrow> nat" where
  "sleep_deadline instant_max now duration =
     (if now + duration \<le> instant_max then now + duration
      else now + 86400 * 365 * 30 * 1000000000)"

definition sleep_new_timeout :: "nat \<Rightarrow> nat \<Rightarrow> nat \<Rightarrow> async_shared \<Rightarrow> (nat \<times> async_shared) option" where
  "sleep_new_timeout key wkey deadline ctx = do {
     (h, pw) \<leftarrow> pw_start_timer key wkey (instant_to_ticks ctx deadline) (timer_wheel ctx);
     Some (h, ctx\<lparr>timer_wheel := pw\<rparr>)
   }"

definition with_current_async_context :: "async_shared option \<Rightarrow> (async_shared \<Rightarrow> 'r option) \<Rightarrow> 'r option" where
  "with_current_async_context async_context f = Option.bind async_context f"

definition sleep :: "nat \<Rightarrow> nat \<Rightarrow> nat \<Rightarrow> nat \<Rightarrow> nat \<Rightarrow> async_shared option \<Rightarrow> (nat \<times> async_shared) option" where
  "sleep instant_max key wkey now duration async_context =
     with_current_async_context async_context
       (sleep_new_timeout key wkey (sleep_deadline instant_max now duration))"

datatype elapsed = Elapsed

text \<open>\<open>Timeout::poll\<close>: the value first, then the delay.\<close>

definition timeout_poll :: "'v poll \<Rightarrow> process_wheel \<Rightarrow> nat \<Rightarrow> (elapsed + 'v) poll option" where
  "timeout_poll value pw delay =
     (case value of
        Ready v \<Rightarrow> Some (Ready (Inr v))
      | Pending \<Rightarrow> do {
          p \<leftarrow> timer_poll pw delay;
          Some (case p of Ready _ \<Rightarrow> Ready (Inl Elapsed) | Pending \<Rightarrow> Pending)
        })"

text \<open>
  One call of \<open>vpp_plugin_rs_poll_async_coroutine\<close>.  The user's future is a parameter: \<open>poll\<close>
  takes its state and the shared context (the thread-local is set while it runs).
\<close>

record 'f async_ctx =
  future :: "'f option"
  shared :: async_shared

definition poll_async_coroutine ::
  "('f \<Rightarrow> async_shared option \<Rightarrow> (unit poll \<times> 'f \<times> async_shared) option) \<Rightarrow> nat \<Rightarrow> 'f async_ctx \<Rightarrow> 'f async_ctx option" where
  "poll_async_coroutine poll now ctx = do {
     let ticks_since_start = instant_to_ticks (shared ctx) now;
     pw \<leftarrow> pw_expire_timers ticks_since_start (timer_wheel (shared ctx));
     let shared1 = (shared ctx)\<lparr>timer_wheel := pw\<rparr>;
     case future ctx of
       None \<Rightarrow> Some (ctx\<lparr>shared := shared1\<rparr>)
     | Some fut \<Rightarrow> do {
         (r, fut', shared2) \<leftarrow> poll fut (Some shared1);
         Some (ctx\<lparr>shared := shared2, future := (case r of Ready _ \<Rightarrow> None | Pending \<Rightarrow> Some fut')\<rparr>)
       }
   }"

section \<open>Invariant\<close>

text \<open>
  The two pools agree: an entry holds a wheel handle exactly while the wheel holds a live timer
  with that handle whose context is the entry's key, and it is ready exactly when it holds none.
\<close>

definition pw_inv :: "process_wheel \<Rightarrow> bool" where
  "pw_inv pw \<longleftrightarrow> wheel_ok process_dims (wheel pw) \<and> previous_ticks pw = current_time (wheel pw) \<and>
     (\<forall>h st. entries pw h = Some st \<longrightarrow> (is_ready st \<longleftrightarrow> wheel_handle st = None) \<and>
        (\<forall>wh. wheel_handle st = Some wh \<longrightarrow> (\<exists>e. (wh, e, h) \<in> live (wheel pw)))) \<and>
     (\<forall>wh e h. (wh, e, h) \<in> live (wheel pw) \<longrightarrow> (\<exists>st. entries pw h = Some st \<and> wheel_handle st = Some wh))"

lemma pw_inv_entry:
  assumes "pw_inv pw" "(wh, e, h) \<in> live (wheel pw)"
  shows "entries pw h = Some \<lparr>is_ready = False, wheel_handle = Some wh\<rparr>"
  using assms unfolding pw_inv_def by (metis option.distinct(1) timer_state.surjective old.unit.exhaust)

lemma pw_inv_waiting:
  assumes "pw_inv pw" "entries pw h = Some st" "wheel_handle st = Some wh"
  obtains e where "(wh, e, h) \<in> live (wheel pw)"
  using assms unfolding pw_inv_def by blast

text \<open>The contexts of live timers are distinct, because the entries are.\<close>

lemma pw_live_context:
  assumes "pw_inv pw" "(wh, e, h) \<in> live (wheel pw)" "(wh', e', h) \<in> live (wheel pw)"
  shows "wh = wh' \<and> e = e'"
proof -
  have "wh = wh'" using pw_inv_entry[OF assms(1,2)] pw_inv_entry[OF assms(1,3)] by simp
  with live_handle_unique[OF assms(2)] assms(3) show ?thesis by blast
qed

lemma process_dims_ok: "dims_ok process_dims"
  by (simp add: dims_ok_def process_dims_def U64_MAX_def)

lemma pw_init_inv:
  assumes "inj_on keys {..<6144}" "\<forall>i<6144. keys i < EMPTY_INDEX"
  shows "pw_inv (pw_init keys)"
proof -
  have n: "num_levels process_dims * num_slots process_dims = 6144" by (simp add: process_dims_def)
  have rel: "wheel_rel process_dims (init process_dims keys :: nat timer_wheel) [] sw_new"
    by (rule init_refines[OF process_dims_ok, unfolded n, OF assms])
  then have "wheel_ok process_dims (init process_dims keys :: nat timer_wheel)"
    unfolding wheel_ok_def by (intro exI[of _ sw_new]) (simp add: sw_new_def)
  moreover have "live (init process_dims keys :: nat timer_wheel) = {}" "current_time (init process_dims keys :: nat timer_wheel) = 0"
    using live_pending[OF rel] wheel_rel_now[OF rel] by (simp_all add: pending_new) (simp_all add: sw_new_def)
  ultimately show ?thesis by (simp add: pw_inv_def pw_init_def)
qed

lemma mark_expired_eq:
  "mark_expired hs es = (\<lambda>h. if h \<in> set hs then map_option (\<lambda>st. st\<lparr>is_ready := True, wheel_handle := None\<rparr>) (es h) else es h)"
proof (induction hs es rule: mark_expired.induct)
  case (2 h hs es)
  show ?case
  proof (cases "es h")
    case None
    with 2(1)[OF None] show ?thesis by (auto intro!: ext)
  next
    case (Some st)
    then have "mark_expired (h # hs) es = mark_expired hs (es(h \<mapsto> st\<lparr>is_ready := True, wheel_handle := None\<rparr>))" by simp
    note eq = this[unfolded 2(2)[OF Some]]
    show ?thesis unfolding eq by (rule ext) (use Some in auto)
  qed
qed simp

lemma start_inv:
  assumes inv: "pw_inv pw" and key: "entries pw key = None" and wkey: "vacant_key (wheel pw) wkey"
  shows "\<exists>pw'. pw_start_timer key wkey t pw = Some (key, pw') \<and> pw_inv pw' \<and> previous_ticks pw' = previous_ticks pw \<and>
    (\<forall>h. h \<noteq> key \<longrightarrow> entries pw' h = entries pw h) \<and>
    (if t \<le> previous_ticks pw
     then wheel pw' = wheel pw \<and> entries pw' key = Some \<lparr>is_ready = True, wheel_handle = None\<rparr>
     else live (wheel pw') = insert (wkey, t, key) (live (wheel pw)) \<and>
       entries pw' key = Some \<lparr>is_ready = False, wheel_handle = Some wkey\<rparr>)"
proof -
  have ok: "wheel_ok process_dims (wheel pw)" and now: "previous_ticks pw = current_time (wheel pw)"
    using inv by (simp_all add: pw_inv_def)
  have no_key: "(wh, e, key) \<notin> live (wheel pw)" for wh e using inv key unfolding pw_inv_def by fastforce
  show ?thesis
  proof (cases "t \<le> previous_ticks pw")
    case True
    let ?pw = "pw\<lparr>entries := (entries pw)(key \<mapsto> \<lparr>is_ready = True, wheel_handle = None\<rparr>)\<rparr>"
    have "pw_start_timer key wkey t pw = Some (key, ?pw)"
      using wheel.start_late[OF ok, of t wkey key] True now by (simp add: pw_start_timer_def Let_def)
    moreover have "pw_inv ?pw" using inv no_key by (auto simp: pw_inv_def)
    ultimately show ?thesis using True by auto
  next
    case False
    then obtain w where w: "start_timer_absolute process_dims wkey t key (wheel pw) = Some (Inr wkey, w)"
      "wheel_ok process_dims w" "live w = insert (wkey, t, key) (live (wheel pw))" "current_time w = current_time (wheel pw)"
      using wheel.start_new[OF ok _ wkey, of t key] now by auto
    let ?pw = "pw\<lparr>entries := (entries pw)(key \<mapsto> \<lparr>is_ready = False, wheel_handle = Some wkey\<rparr>), wheel := w\<rparr>"
    have "pw_start_timer key wkey t pw = Some (key, ?pw)" using w(1) by (simp add: pw_start_timer_def Let_def)
    moreover have "pw_inv ?pw"
      using inv no_key w(2-4) by (simp add: pw_inv_def)
    ultimately show ?thesis using False w(3) by auto
  qed
qed

lemma stop_inv:
  assumes inv: "pw_inv pw" and st: "entries pw h = Some st"
  shows "\<exists>pw'. pw_stop_timer h pw = Some pw' \<and> pw_inv pw' \<and> entries pw' = (entries pw)(h := None) \<and>
    previous_ticks pw' = previous_ticks pw \<and> live (wheel pw') = {x \<in> live (wheel pw). context_of x \<noteq> h}"
proof -
  have ok: "wheel_ok process_dims (wheel pw)" using inv by (simp add: pw_inv_def)
  show ?thesis
  proof (cases "wheel_handle st")
    case None
    have none: "(wh, e, h) \<notin> live (wheel pw)" for wh e using pw_inv_entry[OF inv] st None by fastforce
    then have "live (wheel pw) = {x \<in> live (wheel pw). context_of x \<noteq> h}" by (auto simp: context_of_def)
    moreover have "pw_inv (pw\<lparr>entries := (entries pw)(h := None)\<rparr>)"
      using inv none by (auto simp: pw_inv_def)
    ultimately show ?thesis using st None by (simp add: pw_stop_timer_def)
  next
    case (Some wh)
    then obtain e where x: "(wh, e, h) \<in> live (wheel pw)" using pw_inv_waiting[OF inv st] by blast
    then obtain w where w: "stop_timer wh (wheel pw) = Some (Some h, w)" "wheel_ok process_dims w"
      "live w = live (wheel pw) - {(wh, e, h)}" "current_time w = current_time (wheel pw)"
      using wheel.stop_live[OF ok x] by blast
    let ?pw = "pw\<lparr>entries := (entries pw)(h := None), wheel := w\<rparr>"
    have lv: "live w = {x \<in> live (wheel pw). context_of x \<noteq> h}"
      unfolding w(3) by (auto simp: context_of_def dest: pw_live_context[OF inv x])
    have "pw_stop_timer h pw = Some ?pw" using st Some w(1) by (simp add: pw_stop_timer_def)
    moreover have "pw_inv ?pw"
      using inv w(2,4) lv by (auto simp: pw_inv_def context_of_def)
    ultimately show ?thesis using lv by auto
  qed
qed

lemma expire_inv:
  assumes inv: "pw_inv pw" and now: "previous_ticks pw \<le> now" "now \<le> U64_MAX"
  shows "\<exists>pw'. pw_expire_timers now pw = Some pw' \<and> pw_inv pw' \<and> previous_ticks pw' = now \<and>
    live (wheel pw') \<subseteq> live (wheel pw) \<and> (\<forall>x\<in>live (wheel pw) - live (wheel pw'). is_due now x) \<and>
    entries pw' = (\<lambda>h. if h \<in> context_of ` (live (wheel pw) - live (wheel pw'))
       then Some \<lparr>is_ready = True, wheel_handle = None\<rparr> else entries pw h)"
proof -
  let ?n = "now - previous_ticks pw"
  have ok: "wheel_ok process_dims (wheel pw)" and prev: "previous_ticks pw = current_time (wheel pw)"
    using inv by (simp_all add: pw_inv_def)
  have t: "current_time (wheel pw) + ?n = now" using prev now by simp
  then obtain hs w where w: "expire_timers process_dims ?n (wheel pw) = Some (hs, w)" "wheel_ok process_dims w"
    "current_time w = now" "live w \<subseteq> live (wheel pw)" "set hs = context_of ` (live (wheel pw) - live w)"
    "\<forall>x\<in>live (wheel pw) - live w. is_due now x"
    using wheel.expire_contexts[OF ok, of ?n] now(2) by metis
  let ?pw = "pw\<lparr>wheel := w, previous_ticks := now, entries := mark_expired hs (entries pw)\<rparr>"
  have run: "pw_expire_timers now pw = Some ?pw"
    using w(1) by (simp add: pw_expire_timers_def saturating_sub_def Let_def)
  have fired: "entries pw h = Some \<lparr>is_ready = False, wheel_handle = Some wh\<rparr>"
    if "(wh, e, h) \<in> live (wheel pw)" for wh e h using pw_inv_entry[OF inv that] .
  have es: "mark_expired hs (entries pw) = (\<lambda>h. if h \<in> context_of ` (live (wheel pw) - live w)
       then Some \<lparr>is_ready = True, wheel_handle = None\<rparr> else entries pw h)"
    unfolding mark_expired_eq w(5) by (auto simp: fun_eq_iff context_of_def fired)
  have rest: "h \<notin> context_of ` (live (wheel pw) - live w)" if "(wh, e, h) \<in> live w" for wh e h
    using pw_live_context[OF inv, of wh e h] that w(4) by (auto simp: context_of_def)
  have "pw_inv ?pw"
    unfolding pw_inv_def
  proof (intro conjI allI impI)
    fix h st assume h: "entries ?pw h = Some st"
    show "is_ready st \<longleftrightarrow> wheel_handle st = None"
      using h inv by (auto simp: es pw_inv_def split: if_splits)
    fix wh assume wh: "wheel_handle st = Some wh"
    with h have *: "entries pw h = Some st" "h \<notin> context_of ` (live (wheel pw) - live w)" by (auto simp: es split: if_splits)
    from pw_inv_waiting[OF inv *(1) wh] obtain e where "(wh, e, h) \<in> live (wheel pw)" .
    with *(2) show "\<exists>e. (wh, e, h) \<in> live (wheel ?pw)" by (force simp: context_of_def)
  next
    fix wh e h assume x: "(wh, e, h) \<in> live (wheel ?pw)"
    then show "\<exists>st. entries ?pw h = Some st \<and> wheel_handle st = Some wh"
      using rest fired w(4) by (auto simp: es)
  qed (use w(2,3) in simp_all)
  with run w(4,6) es show ?thesis by (intro exI[of _ ?pw]) simp
qed

section \<open>Reachable process wheels\<close>

text \<open>Time does not run backwards: \<open>Instant\<close> is monotonic, so \<open>now\<close> is at least the previous tick.\<close>

inductive pw_reach :: "process_wheel \<Rightarrow> bool" where
  pw_reach_init: "inj_on keys {..<6144} \<Longrightarrow> \<forall>i<6144. keys i < EMPTY_INDEX \<Longrightarrow> pw_reach (pw_init keys)"
| pw_reach_start: "pw_reach pw \<Longrightarrow> entries pw key = None \<Longrightarrow> vacant_key (wheel pw) wkey \<Longrightarrow>
    pw_start_timer key wkey t pw = Some (h, pw') \<Longrightarrow> pw_reach pw'"
| pw_reach_stop: "pw_reach pw \<Longrightarrow> pw_stop_timer h pw = Some pw' \<Longrightarrow> pw_reach pw'"
| pw_reach_expire: "pw_reach pw \<Longrightarrow> previous_ticks pw \<le> now \<Longrightarrow> now \<le> U64_MAX \<Longrightarrow>
    pw_expire_timers now pw = Some pw' \<Longrightarrow> pw_reach pw'"

lemma pw_reach_inv:
  assumes "pw_reach pw"
  shows "pw_inv pw \<and> wheel_reach (\<lambda>_ _. True) process_dims (wheel pw)"
  using assms
proof induction
  case (pw_reach_init keys)
  have n: "num_levels process_dims * num_slots process_dims = 6144" by (simp add: process_dims_def)
  have "wheel_reach (\<lambda>_ _. True) process_dims (init process_dims keys :: nat timer_wheel)"
    by (rule reach_init[OF process_dims_ok, unfolded n, OF pw_reach_init])
  with pw_init_inv[OF pw_reach_init] show ?case by (simp add: pw_init_def)
next
  case (pw_reach_start pw key wkey t h pw')
  from start_inv[OF _ pw_reach_start.hyps(2,3), of t] pw_reach_start have "pw_inv pw'" by auto
  moreover obtain r w where "start_timer_absolute process_dims wkey t key (wheel pw) = Some (r, w)" "wheel pw' = w"
    using pw_reach_start.hyps(4) by (auto simp: pw_start_timer_def Let_def split: bind_splits)
  ultimately show ?case using reach_start_absolute[OF _ pw_reach_start.hyps(3)] pw_reach_start.IH by metis
next
  case (pw_reach_stop pw h pw')
  obtain st where st: "entries pw h = Some st" using pw_reach_stop.hyps(2) by (auto simp: pw_stop_timer_def split: bind_splits)
  with stop_inv[of pw h st] pw_reach_stop have "pw_inv pw'" by auto
  moreover have "wheel_reach (\<lambda>_ _. True) process_dims (wheel pw')"
    using pw_reach_stop.hyps(2) pw_reach_stop.IH st
    by (auto simp: pw_stop_timer_def Let_def split: bind_splits option.splits intro: reach_stop)
  ultimately show ?case ..
next
  case (pw_reach_expire pw now pw')
  from expire_inv[OF _ pw_reach_expire.hyps(2,3)] pw_reach_expire have "pw_inv pw'" by auto
  moreover have "wheel_reach (\<lambda>_ _. True) process_dims (wheel pw')"
    using pw_reach_expire.hyps(4) pw_reach_expire.IH
    by (auto simp: pw_expire_timers_def Let_def split: bind_splits intro: expire_timers_reach)
  ultimately show ?case ..
qed

definition process_wheel_0 :: process_wheel where
  "process_wheel_0 = pw_init id"

lemma process_wheel_0_reach: "pw_reach process_wheel_0"
  unfolding process_wheel_0_def by (rule pw_reach_init) (simp_all add: EMPTY_INDEX_def U32_MAX_def)

lemma process_wheel_0_state:
  "entries process_wheel_0 h = None" "previous_ticks process_wheel_0 = 0" "live (wheel process_wheel_0) = {}"
proof -
  show es: "entries process_wheel_0 h = None" for h by (simp add: process_wheel_0_def pw_init_def)
  show "previous_ticks process_wheel_0 = 0" by (simp add: process_wheel_0_def pw_init_def)
  have "pw_inv process_wheel_0" using pw_reach_inv[OF process_wheel_0_reach] ..
  then show "live (wheel process_wheel_0) = {}" using es pw_inv_entry by fastforce
qed

lemma process_vacant:
  assumes "pw_reach pw" "live (wheel pw) = {}"
  shows "\<exists>k. vacant_key (wheel pw) k"
  using vacant_exists[of "\<lambda>_ _. True" process_dims "wheel pw"] pw_reach_inv[OF assms(1)] assms(2)
  by (simp add: process_dims_def EMPTY_INDEX_def U32_MAX_def)

lemma process_run:
  obtains k pw1 pw2 where "pw_expire_timers 2047 process_wheel_0 = Some pw1" "pw_reach pw1" "previous_ticks pw1 = 2047"
    "live (wheel pw1) = {}" "vacant_key (wheel pw1) k" "entries pw1 0 = None"
    "pw_start_timer 0 k 6142 pw1 = Some (0, pw2)" "pw_reach pw2" "previous_ticks pw2 = 2047"
    "live (wheel pw2) = {(k, 6142, 0)}" "entries pw2 0 = Some \<lparr>is_ready = False, wheel_handle = Some k\<rparr>"
proof -
  have inv: "pw_inv process_wheel_0" using pw_reach_inv[OF process_wheel_0_reach] ..
  have le: "previous_ticks process_wheel_0 \<le> 2047" "2047 \<le> U64_MAX" by (simp_all add: process_wheel_0_state U64_MAX_def)
  from expire_inv[OF inv le] obtain pw1 where 1: "pw_expire_timers 2047 process_wheel_0 = Some pw1"
    "previous_ticks pw1 = 2047" "live (wheel pw1) = {}" "entries pw1 0 = None" "pw_inv pw1"
    by (auto simp: process_wheel_0_state)
  have r1: "pw_reach pw1" by (rule pw_reach_expire[OF process_wheel_0_reach le 1(1)])
  obtain k where k: "vacant_key (wheel pw1) k" using process_vacant[OF r1 1(3)] ..
  from start_inv[OF 1(5,4) k, of 6142] 1 obtain pw2 where 2: "pw_start_timer 0 k 6142 pw1 = Some (0, pw2)"
    "previous_ticks pw2 = 2047" "live (wheel pw2) = {(k, 6142, 0)}"
    "entries pw2 0 = Some \<lparr>is_ready = False, wheel_handle = Some k\<rparr>" by auto
  have "pw_reach pw2" by (rule pw_reach_start[OF r1 1(4) k 2(1)])
  with that 1 r1 k 2 show thesis by blast
qed

text \<open>The next expiration when nothing waits, and when one timer does.\<close>

lemma next_of_live:
  assumes "pw_reach pw"
  shows "live (wheel pw) = {} \<Longrightarrow> next_expiration process_dims (wheel pw) = Some None"
    "live (wheel pw) = {(k, e, h)} \<Longrightarrow> next_expiration process_dims (wheel pw) = Some (Some e)"
proof -
  obtain S where S: "wheel_rel process_dims (wheel pw) [] S" using pw_reach_inv[OF assms] wheel_reach_inv by blast
  have "dims_ok process_dims" "pos_ok process_dims S" using S by (simp_all add: wheel_rel_def shape_rel_def pos_ok_def)
  note sound = sw_next_expiration_sound[OF this] next_expiration_refines[OF S] live_pending[OF S]
  show "live (wheel pw) = {} \<Longrightarrow> next_expiration process_dims (wheel pw) = Some None"
    "live (wheel pw) = {(k, e, h)} \<Longrightarrow> next_expiration process_dims (wheel pw) = Some (Some e)"
    using sound by fastforce+
qed

text \<open>
  A timer of 4095 ticks that is started at tick 2047, when the wheel is empty, is still waiting at tick 6143.
\<close>

lemma process_late:
  assumes pw1: "pw_reach pw1" "previous_ticks pw1 = 2047" "live (wheel pw1) = {}" "entries pw1 h = None"
    and k: "vacant_key (wheel pw1) k"
  obtains pw2 pw3 where "pw_start_timer h k 6142 pw1 = Some (h, pw2)" "pw_reach pw2" "previous_ticks pw2 = 2047"
    "live (wheel pw2) = {(k, 6142, h)}" "pw_expire_timers 6143 pw2 = Some pw3" "pw_reach pw3"
    "previous_ticks pw3 = 6143" "live (wheel pw3) = {(k, 6142, h)}"
proof -
  have inv1: "pw_inv pw1" using pw_reach_inv pw1(1) by blast
  from start_inv[OF inv1 pw1(4) k, of 6142] pw1 obtain pw2 where 2: "pw_start_timer h k 6142 pw1 = Some (h, pw2)"
    "previous_ticks pw2 = 2047" "live (wheel pw2) = {(k, 6142, h)}" by auto
  have r2: "pw_reach pw2" by (rule pw_reach_start[OF pw1(1,4) k 2(1)])
  have inv2: "pw_inv pw2" using pw_reach_inv r2 by blast
  obtain S where S: "wheel_rel process_dims (wheel pw1) [] S" "slot_inv (\<lambda>_ _. True) process_dims S"
    using pw_reach_inv[OF pw1(1)] wheel_reach_inv by blast
  have t: "sw_time S = 2047" using wheel_rel_now[OF S(1)] inv1 pw1(2) by (simp add: pw_inv_def)
  have kk: "k \<notin> dom (timers (wheel pw1))" "k < EMPTY_INDEX" using k by (auto simp: vacant_key_def)
  obtain w where w: "start_timer_absolute process_dims k 6142 h (wheel pw1) = Some (Inr k, w)"
    "wheel_rel process_dims w [] (sw_add process_dims (k, 6142, h) S)"
    using start_timer_absolute_refines[OF S(1) kk, of 6142 h] t by auto
  have "wheel pw2 = w" using 2(1) w(1) by (auto simp: pw_start_timer_def Let_def)
  then have rel: "wheel_rel process_dims (wheel pw2) [] (sw_add process_dims (k, 3 * num_slots process_dims - 2, h) S)"
    using w(2) by (simp add: process_dims_def)
  have "in_sync process_dims S" using S(2) by (simp add: slot_inv_def)
  from late_after_add[OF _ _ rel this, of 4096] t obtain ex w2 where
    w2: "expire_timers process_dims 4096 (wheel pw2) = Some (ex, w2)" "(k, 6142, h) \<in> live w2"
    by (auto simp: process_dims_def U64_MAX_def)
  have le: "previous_ticks pw2 \<le> 6143" "6143 \<le> U64_MAX" using 2(2) by (simp_all add: U64_MAX_def)
  from expire_inv[OF inv2 le] obtain pw3 where 3: "pw_expire_timers 6143 pw2 = Some pw3" "previous_ticks pw3 = 6143"
    "live (wheel pw3) \<subseteq> live (wheel pw2)" by blast
  have "wheel pw3 = w2" using 3(1) w2(1) 2(2) by (auto simp: pw_expire_timers_def saturating_sub_def Let_def)
  with w2(2) 3(3) 2(3) have "live (wheel pw3) = {(k, 6142, h)}" by auto
  with that[OF 2(1) r2 2(2,3) 3(1) pw_reach_expire[OF r2 le 3(1)] 3(2)] show thesis .
qed

section \<open>Properties\<close>

text \<open>Every operation on the timers of a process node keeps the invariant that ties the two
  pools together: an entry is not ready exactly while the wheel holds its timer.\<close>

theorem process_wheel_consistent:
  assumes "pw_reach pw"
  shows "pw_inv pw"
  using pw_reach_inv[OF assms] ..

lemma process_wheel_consistent_witness: "pw_inv process_wheel_0"
  by (rule process_wheel_consistent[OF process_wheel_0_reach])

text \<open>\<open>expire_timers\<close> never panics and every key the wheel returns is an entry (the branch of
  the code marked as one that should not happen is not reached); an entry becomes ready only if
  its expire time is at or before \<open>now\<close>, and ready entries stay ready.\<close>

theorem expire_marks_due_only:
  assumes "pw_reach pw" "previous_ticks pw \<le> now" "now \<le> U64_MAX"
  shows "\<exists>pw' hs. pw_expire_timers now pw = Some pw' \<and>
    map_option fst (expire_timers process_dims (now - previous_ticks pw) (wheel pw)) = Some hs \<and>
    set hs \<subseteq> dom (entries pw) \<and> dom (entries pw') = dom (entries pw) \<and>
    (\<forall>h st st'. entries pw h = Some st \<longrightarrow> entries pw' h = Some st' \<longrightarrow> (is_ready st \<longrightarrow> is_ready st') \<and>
       (is_ready st' \<longrightarrow> is_ready st \<or> (\<exists>wh e. (wh, e, h) \<in> live (wheel pw) \<and> e \<le> now)))"
proof -
  have inv: "pw_inv pw" using pw_reach_inv[OF assms(1)] ..
  have ok: "wheel_ok process_dims (wheel pw)" and t: "current_time (wheel pw) + (now - previous_ticks pw) \<le> U64_MAX"
    using inv assms(2,3) by (simp_all add: pw_inv_def)
  obtain hs w where w: "expire_timers process_dims (now - previous_ticks pw) (wheel pw) = Some (hs, w)"
    "set hs = context_of ` (live (wheel pw) - live w)" using wheel.expire_contexts[OF ok t] by metis
  obtain pw' where e: "pw_expire_timers now pw = Some pw'"
    "\<forall>x\<in>live (wheel pw) - live (wheel pw'). is_due now x"
    "entries pw' = (\<lambda>h. if h \<in> context_of ` (live (wheel pw) - live (wheel pw'))
       then Some \<lparr>is_ready = True, wheel_handle = None\<rparr> else entries pw h)"
    using expire_inv[OF inv assms(2,3)] by blast
  have sub: "context_of ` live (wheel pw) \<subseteq> dom (entries pw)" using pw_inv_entry[OF inv] by (force simp: context_of_def)
  have "set hs \<subseteq> dom (entries pw)" using w(2) sub by blast
  moreover have "dom (entries pw') = dom (entries pw)" using e(3) sub by (auto split: if_splits) blast
  moreover have "(is_ready st \<longrightarrow> is_ready st') \<and> (is_ready st' \<longrightarrow> is_ready st \<or> (\<exists>wh e. (wh, e, h) \<in> live (wheel pw) \<and> e \<le> now))"
    if "entries pw h = Some st" "entries pw' h = Some st'" for h st st'
  proof (cases "h \<in> context_of ` (live (wheel pw) - live (wheel pw'))")
    case True
    then obtain wh e where x: "(wh, e, h) \<in> live (wheel pw)" "(wh, e, h) \<notin> live (wheel pw')"
      by (auto simp: context_of_def)
    then have "e \<le> now" using e(2) by (force simp: is_due_def)
    with x True that(2) e(3) show ?thesis by auto
  next
    case False
    with that e(3) show ?thesis by simp
  qed
  moreover have "map_option fst (expire_timers process_dims (now - previous_ticks pw) (wheel pw)) = Some hs"
    by (simp add: w(1))
  ultimately show ?thesis using e(1) by blast
qed

lemma expire_marks_due_only_witness:
  "\<exists>pw'. pw_expire_timers 5 process_wheel_0 = Some pw' \<and> dom (entries pw') = {}"
  using expire_marks_due_only[OF process_wheel_0_reach, of 5] by (auto simp: process_wheel_0_state dom_def U64_MAX_def)

text \<open>Dropping a \<open>Timer\<close> never panics: its entry and its timer in the wheel are both gone, and
  nothing else changes.\<close>

theorem timer_drop_removes:
  assumes "pw_reach pw" "entries pw h = Some st"
  shows "\<exists>pw'. timer_drop h pw = Some pw' \<and> entries pw' = (entries pw)(h := None) \<and>
    live (wheel pw') = {x \<in> live (wheel pw). context_of x \<noteq> h}"
  using stop_inv[OF _ assms(2)] pw_reach_inv[OF assms(1)] by (auto simp: timer_drop_def)

lemma timer_drop_removes_witness:
  "\<exists>pw pw'. entries pw 0 \<noteq> None \<and> live (wheel pw) \<noteq> {} \<and> timer_drop 0 pw = Some pw' \<and> live (wheel pw') = {}"
proof -
  obtain k pw2 where 2: "pw_reach pw2" "live (wheel pw2) = {(k, 6142, 0)}"
    "entries pw2 0 = Some \<lparr>is_ready = False, wheel_handle = Some k\<rparr>" by (rule process_run)
  with timer_drop_removes[OF 2(1,3)] have "\<exists>pw'. timer_drop 0 pw2 = Some pw' \<and> live (wheel pw') = {}"
    by (auto simp: context_of_def)
  with 2 show ?thesis by (metis insert_not_empty option.distinct(1))
qed

text \<open>A process-node timer is late by more than its level promises, and then the computation of
  the next timer's delay underflows: with the deployed wheel (3 levels of 2048 slots) a timer
  started at tick 2047 for tick 6142 is not ready at tick 6143, and \<open>next_expiration\<close>, which
  subtracts the current tick from an expire time in the past, panics.\<close>

theorem process_timer_late_underflow:
  "\<exists>pw. pw_reach pw \<and> previous_ticks pw = 6143 \<and> (\<exists>k. (k, 6142, 0) \<in> live (wheel pw)) \<and>
    timer_is_ready pw 0 = Some False \<and> pw_next_expiration pw = None"
proof -
  obtain k pw1 where 1: "pw_reach pw1" "previous_ticks pw1 = 2047" "live (wheel pw1) = {}" "entries pw1 0 = None"
    "vacant_key (wheel pw1) k" using process_run by metis
  from process_late[OF this] obtain pw2 pw3 where 3: "pw_reach pw3" "previous_ticks pw3 = 6143"
    "live (wheel pw3) = {(k, 6142, 0)}" by metis
  have "pw_next_expiration pw3 = None"
    using next_of_live(2)[OF 3(1,3)] 3(2) by (simp add: pw_next_expiration_def checked_sub_def)
  moreover have "timer_is_ready pw3 0 = Some False"
    using pw_inv_entry[of pw3 k 6142 0] pw_reach_inv[OF 3(1)] 3(3) by (simp add: timer_is_ready_def pw_state_def)
  ultimately show ?thesis using 3 by blast
qed

section \<open>Sleeps\<close>

lemma div_ceil_1 [simp]: "div_ceil a (Suc 0) = a"
  by (simp add: div_ceil_def)

lemma instant_to_ticks_eq: "instant_to_ticks ctx t = min U64_MAX ((t - start_time ctx) div 1000000)"
  by (auto simp: instant_to_ticks_def as_millis_def TICK_INTERVAL_PER_MS_def Let_def)

text \<open>A sleep never completes a whole tick early: when the coroutine is polled at instant
  \<open>now\<close> and the timer with the tick of \<open>deadline\<close> is due, \<open>now\<close> is at most one millisecond before
  \<open>deadline\<close>.\<close>

theorem sleep_early_bound:
  assumes "start_time ctx \<le> deadline" "start_time ctx \<le> now" "instant_to_ticks ctx deadline \<le> instant_to_ticks ctx now"
    "(deadline - start_time ctx) div 1000000 \<le> U64_MAX"
  shows "deadline < now + 1000000"
proof -
  have "(deadline - start_time ctx) div 1000000 \<le> (now - start_time ctx) div 1000000"
    using assms(3,4) by (simp add: instant_to_ticks_eq min_def split: if_splits)
  then have "deadline - start_time ctx < now - start_time ctx + 1000000" by linarith
  then show ?thesis using assms(1,2) by linarith
qed

definition ctx_0 :: async_shared where
  "ctx_0 = \<lparr>timer_wheel = process_wheel_0, start_time = 0\<rparr>"

lemma sleep_early_bound_witness: "1999999 < (1000000 :: nat) + 1000000"
  by (rule sleep_early_bound[of ctx_0]) (simp_all add: instant_to_ticks_eq ctx_0_def U64_MAX_def)

text \<open>A sleep can complete before its deadline: \<open>as_millis\<close> truncates before \<open>div_ceil\<close> rounds, so
  a sleep of 999999 ns started at instant 0 is elapsed at once, although its documentation says it
  waits until the duration has elapsed.\<close>

theorem sleep_completes_early:
  "\<exists>ctx' wkey h. sleep (2 ^ 63) 0 wkey 0 999999 (Some ctx_0) = Some (h, ctx') \<and>
    sleep_deadline (2 ^ 63) 0 999999 = 999999 \<and> timer_poll (timer_wheel ctx') h = Some (Ready ())"
proof -
  have inv: "pw_inv process_wheel_0" using pw_reach_inv[OF process_wheel_0_reach] ..
  obtain k where k: "vacant_key (wheel process_wheel_0) k"
    using process_vacant[OF process_wheel_0_reach process_wheel_0_state(3)] ..
  from start_inv[OF inv process_wheel_0_state(1) k, of 0 0] obtain pw where
    pw: "pw_start_timer 0 k 0 process_wheel_0 = Some (0, pw)" "entries pw 0 = Some \<lparr>is_ready = True, wheel_handle = None\<rparr>"
    by auto
  have "sleep (2 ^ 63) 0 k 0 999999 (Some ctx_0) = Some (0, ctx_0\<lparr>timer_wheel := pw\<rparr>)"
    using pw(1) by (simp add: sleep_def with_current_async_context_def sleep_new_timeout_def sleep_deadline_def
        instant_to_ticks_eq ctx_0_def)
  moreover have "timer_poll pw 0 = Some (Ready ())"
    using pw(2) by (simp add: timer_poll_def timer_is_ready_def pw_state_def)
  ultimately show ?thesis
    by (intro exI[of _ "ctx_0\<lparr>timer_wheel := pw\<rparr>"] exI[of _ k] exI[of _ 0]) (simp add: sleep_deadline_def)
qed

text \<open>Outside a process node there is no context and \<open>sleep\<close> panics.\<close>

lemma sleep_outside_panics: "sleep instant_max key wkey now duration None = None"
  by (simp add: sleep_def with_current_async_context_def)

text \<open>Once its future has completed it is never polled again; the timers keep being expired.\<close>

lemma completed_future_not_polled:
  assumes "poll_async_coroutine p now ctx = Some ctx'" "future ctx = None"
  shows "future ctx' = None \<and> (\<forall>q. poll_async_coroutine q now ctx = Some ctx') \<and>
    previous_ticks (timer_wheel (shared ctx')) = instant_to_ticks (shared ctx) now"
  using assms by (auto simp: poll_async_coroutine_def pw_expire_timers_def Let_def split: bind_splits)

end
