(* ===== verification/Process_Executor.thy ===== *)
theory Process_Executor
  imports Process_Timer
begin

text \<open>
  The executor of process nodes (\<open>vlib/process_node/core.rs\<close>): creating the context of a coroutine, waking it
  up, the time until its next timer, and the loop of the node, which is in C (\<open>vlib_wrapper.c\<close>): poll, wait for
  an event or the clock, drain the events.

  The host's own parts are steps that may happen at any time: time passes, and a remote procedure call
  that was queued is made on the main thread while the process is suspended.
\<close>

section \<open>Context and waker\<close>

text \<open>\<open>keys\<close> are the keys that the pool of the wheel hands out.\<close>

definition shared_new :: "(nat \<Rightarrow> nat) \<Rightarrow> nat \<Rightarrow> async_shared" where
  "shared_new keys now = \<lparr>timer_wheel = pw_init keys, start_time = now\<rparr>"

definition async_context_new :: "(nat \<Rightarrow> nat) \<Rightarrow> nat \<Rightarrow> 'f \<Rightarrow> 'f async_ctx" where
  "async_context_new keys now fut = \<lparr>future = Some fut, shared = shared_new keys now\<rparr>"

record signal_args =
  sa_node_index :: nat
  sa_type_opaque :: nat
  sa_data :: nat

text \<open>\<open>wake_by_ref\<close> adds a call of \<open>vlib_process_signal_event_mt_helper\<close> to those for the main thread.\<close>

definition wake_by_ref :: "nat \<Rightarrow> signal_args list \<Rightarrow> signal_args list" where
  "wake_by_ref node rpcs = rpcs @ [\<lparr>sa_node_index = node, sa_type_opaque = 0, sa_data = 0\<rparr>]"

text \<open>
  The ticks until the next timer, \<open>None\<close> in place of \<open>f64::MAX\<close>.  The subtraction in \<open>next_expiration\<close> panics or
  wraps (\<open>dbg\<close>).
\<close>

definition next_timer_duration :: "bool \<Rightarrow> process_wheel \<Rightarrow> nat option option" where
  "next_timer_duration dbg pw = do {
     next \<leftarrow> next_expiration process_dims (wheel pw);
     case next of
       None \<Rightarrow> Some None
     | Some ticks \<Rightarrow>
         if previous_ticks pw \<le> ticks then Some (Some (ticks - previous_ticks pw))
         else if dbg then None
         else Some (Some (ticks + (U64_MAX + 1) - previous_ticks pw))
   }"

section \<open>The loop of the node\<close>

text \<open>Suspended until an event, or also until an instant.\<close>

datatype phase = At_poll | At_duration | Suspended "nat option" | At_drain

text \<open>\<open>ex_unseen\<close>: the waker was used since the last poll began.  Nothing reads it.\<close>

record 'f executor =
  ex_ctx :: "'f async_ctx"
  ex_node :: nat
  ex_phase :: phase
  ex_now :: nat
  ex_rpcs :: "signal_args list"
  ex_events :: nat
  ex_unseen :: bool

text \<open>\<open>Self::new\<close>, then \<open>run\<close>, which enters the loop.\<close>

definition executor_run :: "(nat \<Rightarrow> nat) \<Rightarrow> nat \<Rightarrow> nat \<Rightarrow> 'f \<Rightarrow> 'f executor" where
  "executor_run keys node now fut =
     \<lparr>ex_ctx = async_context_new keys now fut, ex_node = node, ex_phase = At_poll, ex_now = now, ex_rpcs = [],
      ex_events = 0, ex_unseen = False\<rparr>"

definition executor_poll ::
  "(nat \<Rightarrow> 'f \<Rightarrow> async_shared option \<Rightarrow> (unit poll \<times> 'f \<times> async_shared) option) \<Rightarrow> 'f executor \<Rightarrow> 'f executor option" where
  "executor_poll poll ex = do {
     c \<leftarrow> poll_async_coroutine (poll (ex_now ex)) (ex_now ex) (ex_ctx ex);
     Some (ex\<lparr>ex_ctx := c, ex_phase := At_duration, ex_unseen := False\<rparr>)
   }"

text \<open>\<open>clock\<close> is how long the host waits for a number of ticks, in nanoseconds.\<close>

definition executor_wait :: "bool \<Rightarrow> (nat \<Rightarrow> nat) \<Rightarrow> 'f executor \<Rightarrow> 'f executor option" where
  "executor_wait dbg clock ex = do {
     dt \<leftarrow> next_timer_duration dbg (timer_wheel (shared (ex_ctx ex)));
     Some (ex\<lparr>ex_phase := Suspended (map_option (\<lambda>ticks. ex_now ex + clock ticks) dt)\<rparr>)
   }"

definition executor_drain :: "'f executor \<Rightarrow> 'f executor" where
  "executor_drain ex = ex\<lparr>ex_events := 0, ex_phase := At_poll\<rparr>"

definition executor_wake :: "'f executor \<Rightarrow> 'f executor" where
  "executor_wake ex = ex\<lparr>ex_rpcs := wake_by_ref (ex_node ex) (ex_rpcs ex), ex_unseen := True\<rparr>"

inductive exec_step ::
  "(nat \<Rightarrow> 'f \<Rightarrow> async_shared option \<Rightarrow> (unit poll \<times> 'f \<times> async_shared) option) \<Rightarrow> bool \<Rightarrow> (nat \<Rightarrow> nat) \<Rightarrow>
    'f executor \<Rightarrow> 'f executor \<Rightarrow> bool"
  for poll dbg clock where
  Poll: "ex_phase ex = At_poll \<Longrightarrow> executor_poll poll ex = Some ex' \<Longrightarrow> exec_step poll dbg clock ex ex'"
| Wait: "ex_phase ex = At_duration \<Longrightarrow> executor_wait dbg clock ex = Some ex' \<Longrightarrow> exec_step poll dbg clock ex ex'"
| Event: "ex_phase ex = Suspended u \<Longrightarrow> 0 < ex_events ex \<Longrightarrow> exec_step poll dbg clock ex (ex\<lparr>ex_phase := At_drain\<rparr>)"
| Clock: "ex_phase ex = Suspended (Some u) \<Longrightarrow> u \<le> ex_now ex \<Longrightarrow> exec_step poll dbg clock ex (ex\<lparr>ex_phase := At_drain\<rparr>)"
| Drain: "ex_phase ex = At_drain \<Longrightarrow> exec_step poll dbg clock ex (executor_drain ex)"
| Wake: "exec_step poll dbg clock ex (executor_wake ex)"
| Deliver: "ex_phase ex = Suspended u \<Longrightarrow> ex_rpcs ex = a # as \<Longrightarrow>
    exec_step poll dbg clock ex
      (ex\<lparr>ex_rpcs := as, ex_events := ex_events ex + (if sa_node_index a = ex_node ex then 1 else 0)\<rparr>)"
| Time: "exec_step poll dbg clock ex (ex\<lparr>ex_now := ex_now ex + t\<rparr>)"

inductive_cases exec_stepE: "exec_step poll dbg clock ex ex'"

inductive exec_reach ::
  "(nat \<Rightarrow> 'f \<Rightarrow> async_shared option \<Rightarrow> (unit poll \<times> 'f \<times> async_shared) option) \<Rightarrow> bool \<Rightarrow> (nat \<Rightarrow> nat) \<Rightarrow>
    'f executor \<Rightarrow> bool"
  for poll dbg clock where
  Run: "inj_on keys {..<6144} \<Longrightarrow> \<forall>i<6144. keys i < EMPTY_INDEX \<Longrightarrow> exec_reach poll dbg clock (executor_run keys node now fut)"
| Step: "exec_reach poll dbg clock ex \<Longrightarrow> exec_step poll dbg clock ex ex' \<Longrightarrow> exec_reach poll dbg clock ex'"

section \<open>Futures that use the timers\<close>

text \<open>What a future may do to the shared context while it is polled: start and drop timers.\<close>

locale timer_future =
  fixes poll :: "nat \<Rightarrow> 'f \<Rightarrow> async_shared option \<Rightarrow> (unit poll \<times> 'f \<times> async_shared) option"
  assumes keeps_timers: "poll now f (Some sh) = Some (r, f', sh') \<Longrightarrow> pw_reach (timer_wheel sh) \<Longrightarrow>
    pw_reach (timer_wheel sh') \<and> previous_ticks (timer_wheel sh') = previous_ticks (timer_wheel sh) \<and>
    start_time sh' = start_time sh"
begin

text \<open>Between two polls the wheel stands at the tick of the last one.\<close>

definition timers_ok :: "'f executor \<Rightarrow> bool" where
  "timers_ok ex \<longleftrightarrow> (let sh = shared (ex_ctx ex) in
     pw_reach (timer_wheel sh) \<and> start_time sh \<le> ex_now ex \<and>
     previous_ticks (timer_wheel sh) \<le> instant_to_ticks sh (ex_now ex))"

lemma instant_to_ticks_mono: "t \<le> u \<Longrightarrow> instant_to_ticks ctx t \<le> instant_to_ticks ctx u"
  by (simp add: instant_to_ticks_eq div_le_mono diff_le_mono min.coboundedI2)

lemma instant_to_ticks_max: "instant_to_ticks ctx t \<le> U64_MAX"
  by (simp add: instant_to_ticks_eq)

lemma expire_ok:
  assumes "timers_ok ex"
  shows "\<exists>pw. pw_expire_timers (instant_to_ticks (shared (ex_ctx ex)) (ex_now ex)) (timer_wheel (shared (ex_ctx ex))) = Some pw \<and>
    pw_reach pw \<and> previous_ticks pw = instant_to_ticks (shared (ex_ctx ex)) (ex_now ex)"
proof -
  let ?pw = "timer_wheel (shared (ex_ctx ex))" and ?t = "instant_to_ticks (shared (ex_ctx ex)) (ex_now ex)"
  have r: "pw_reach ?pw" and le: "previous_ticks ?pw \<le> ?t" using assms by (simp_all add: timers_ok_def Let_def)
  from expire_inv [OF conjunct1 [OF pw_reach_inv [OF r]] le instant_to_ticks_max] obtain pw where
    pw: "pw_expire_timers ?t ?pw = Some pw" "previous_ticks pw = ?t" by blast
  with pw_reach_expire [OF r le instant_to_ticks_max pw(1)] show ?thesis by blast
qed

lemma poll_ok:
  assumes "timers_ok ex" "executor_poll poll ex = Some ex'"
  shows "timers_ok ex' \<and> previous_ticks (timer_wheel (shared (ex_ctx ex'))) = instant_to_ticks (shared (ex_ctx ex')) (ex_now ex')"
proof -
  obtain pw where pw: "pw_expire_timers (instant_to_ticks (shared (ex_ctx ex)) (ex_now ex)) (timer_wheel (shared (ex_ctx ex))) = Some pw"
    "pw_reach pw" "previous_ticks pw = instant_to_ticks (shared (ex_ctx ex)) (ex_now ex)" using expire_ok [OF assms(1)] by blast
  have st: "start_time (shared (ex_ctx ex)) \<le> ex_now ex" using assms(1) by (simp add: timers_ok_def Let_def)
  show ?thesis
  proof (cases "future (ex_ctx ex)")
    case None
    then show ?thesis using assms(2) pw st
      by (auto simp: executor_poll_def poll_async_coroutine_def timers_ok_def instant_to_ticks_def Let_def)
  next
    case (Some f)
    then obtain r f' sh' where p: "poll (ex_now ex) f (Some ((shared (ex_ctx ex))\<lparr>timer_wheel := pw\<rparr>)) = Some (r, f', sh')"
      "shared (ex_ctx ex') = sh'" "ex_now ex' = ex_now ex"
      using assms(2) pw(1) by (auto simp: executor_poll_def poll_async_coroutine_def Let_def split: bind_splits)
    from keeps_timers [OF p(1)] pw(2,3) p(2,3) st show ?thesis
      by (simp add: timers_ok_def instant_to_ticks_def Let_def)
  qed
qed

lemma step_ok: "exec_step poll dbg clock ex ex' \<Longrightarrow> timers_ok ex \<Longrightarrow> timers_ok ex'"
proof (induction rule: exec_step.induct)
  case (Poll ex ex')
  then show ?case using poll_ok by blast
next
  case (Time ex t)
  then show ?case
    using instant_to_ticks_mono [of "ex_now ex" "ex_now ex + t" "shared (ex_ctx ex)"] by (auto simp: timers_ok_def Let_def)
qed (auto simp: poll_ok executor_wait_def executor_drain_def executor_wake_def timers_ok_def Let_def split: bind_splits)

lemma reach_ok: "exec_reach poll dbg clock ex \<Longrightarrow> timers_ok ex"
proof (induction rule: exec_reach.induct)
  case (Run keys node now fut)
  then show ?case
    by (simp add: executor_run_def async_context_new_def shared_new_def timers_ok_def pw_reach_init) (simp add: pw_init_def)
qed (rule step_ok)

end

section \<open>Wake-ups\<close>

text \<open>A wake-up that no poll has followed is on its way to a suspended process.\<close>

definition wake_under_way :: "'f executor \<Rightarrow> bool" where
  "wake_under_way ex \<longleftrightarrow> 0 < ex_events ex \<or> ex_node ex \<in> sa_node_index ` set (ex_rpcs ex)"

definition wakes_ok :: "'f executor \<Rightarrow> bool" where
  "wakes_ok ex \<longleftrightarrow> (ex_unseen ex \<longrightarrow> ex_phase ex = At_poll \<or> ex_phase ex = At_drain \<or> wake_under_way ex)"

lemma step_wakes: "exec_step poll dbg clock ex ex' \<Longrightarrow> wakes_ok ex \<Longrightarrow> wakes_ok ex'"
  by (induction rule: exec_step.induct)
    (auto simp: wakes_ok_def wake_under_way_def executor_poll_def executor_wait_def executor_drain_def executor_wake_def
      wake_by_ref_def split: bind_splits)

lemma reach_wakes: "exec_reach poll dbg clock ex \<Longrightarrow> wakes_ok ex"
  by (induction rule: exec_reach.induct) (simp add: wakes_ok_def executor_run_def, rule step_wakes)

lemma duration_none:
  "next_timer_duration dbg pw = None \<longleftrightarrow>
     next_expiration process_dims (wheel pw) = None \<or>
     dbg \<and> (\<exists>e. next_expiration process_dims (wheel pw) = Some (Some e) \<and> e < previous_ticks pw)"
  by (auto simp: next_timer_duration_def split: bind_splits option.splits)

lemma next_not_none: "pw_reach pw \<Longrightarrow> next_expiration process_dims (wheel pw) \<noteq> None"
  using next_expiration_refines wheel_reach_inv pw_reach_inv by (metis option.distinct(1))

section \<open>Properties of the executor\<close>

text \<open>
  C9: The executor of a process node, in every interleaving of its loop with wake-ups from any thread, the
  calls on the main thread and the clock: the timers stay consistent; as long as no poll has followed a wake-up,
  the process goes on to that poll, or an event for it is there or queued, so that no wake-up is lost;
  it stops only where the coroutine itself panics, or, with overflow checks, when the wheel holds a timer
  that is late.
\<close>

theorem executor_safe:
  assumes "timer_future poll" "exec_reach poll dbg clock ex"
  shows "pw_inv (timer_wheel (shared (ex_ctx ex))) \<and>
    (ex_unseen ex \<longrightarrow> ex_phase ex = At_poll \<or> ex_phase ex = At_drain \<or> wake_under_way ex) \<and>
    (executor_poll poll ex = None \<longrightarrow> (\<exists>f sh. future (ex_ctx ex) = Some f \<and> poll (ex_now ex) f (Some sh) = None)) \<and>
    (executor_wait dbg clock ex = None \<longleftrightarrow>
       dbg \<and> (\<exists>e. next_expiration process_dims (wheel (timer_wheel (shared (ex_ctx ex)))) = Some (Some e) \<and>
         e < previous_ticks (timer_wheel (shared (ex_ctx ex)))))"
proof -
  have ok: "timer_future.timers_ok ex" by (rule timer_future.reach_ok [OF assms])
  then have reach: "pw_reach (timer_wheel (shared (ex_ctx ex)))" by (simp add: timer_future.timers_ok_def [OF assms(1)] Let_def)
  obtain pw where pw: "pw_expire_timers (instant_to_ticks (shared (ex_ctx ex)) (ex_now ex)) (timer_wheel (shared (ex_ctx ex))) = Some pw"
    using timer_future.expire_ok [OF assms(1) ok] by blast
  have "executor_poll poll ex = None \<longrightarrow> (\<exists>f sh. future (ex_ctx ex) = Some f \<and> poll (ex_now ex) f (Some sh) = None)"
    using pw by (auto simp: executor_poll_def poll_async_coroutine_def Let_def split: option.splits bind_splits)
  moreover have "executor_wait dbg clock ex = None \<longleftrightarrow> next_timer_duration dbg (timer_wheel (shared (ex_ctx ex))) = None"
    by (simp add: executor_wait_def split: bind_splits)
  ultimately show ?thesis
    using reach pw_reach_inv [OF reach] reach_wakes [OF assms(2)] next_not_none [OF reach]
    by (auto simp: wakes_ok_def duration_none)
qed

section \<open>A coroutine that sleeps\<close>

text \<open>
  It waits for an event and then sleeps for 4095 milliseconds.  \<open>wkey\<close> is the key that the pool of the wheel
  gives to the timer.
\<close>

datatype sleeper = Listening | Woken | Asleep nat

fun sleeper_poll :: "nat \<Rightarrow> nat \<Rightarrow> sleeper \<Rightarrow> async_shared option \<Rightarrow> (unit poll \<times> sleeper \<times> async_shared) option" where
  "sleeper_poll wkey now f None = None"
| "sleeper_poll wkey now Listening (Some sh) = Some (Pending, Woken, sh)"
| "sleeper_poll wkey now Woken (Some sh) =
     (if entries (timer_wheel sh) 0 = None \<and> vacant_key (wheel (timer_wheel sh)) wkey
      then map_option (\<lambda>(h, sh). (Pending, Asleep h, sh)) (sleep (2 ^ 63) 0 wkey now 4095000000 (Some sh))
      else None)"
| "sleeper_poll wkey now (Asleep h) (Some sh) =
     map_option (\<lambda>p. (p, Asleep h, sh)) (timer_poll (timer_wheel sh) h)"

interpretation sleeper: timer_future "sleeper_poll wkey" for wkey
proof
  fix now f sh r f' sh'
  assume "sleeper_poll wkey now f (Some sh) = Some (r, f', sh')" "pw_reach (timer_wheel sh)"
  then show "pw_reach (timer_wheel sh') \<and> previous_ticks (timer_wheel sh') = previous_ticks (timer_wheel sh) \<and>
    start_time sh' = start_time sh"
  proof (induction wkey now f "Some sh" rule: sleeper_poll.induct)
    case (3 wkey now)
    then obtain h pw t where h: "pw_start_timer 0 wkey t (timer_wheel sh) = Some (h, pw)" "sh' = sh\<lparr>timer_wheel := pw\<rparr>"
      "entries (timer_wheel sh) 0 = None" "vacant_key (wheel (timer_wheel sh)) wkey"
      by (auto simp: sleep_def with_current_async_context_def sleep_new_timeout_def split: if_splits bind_splits)
    then have "pw_reach pw" using pw_reach_start [OF 3(2) h(3,4,1)] by simp
    moreover have "previous_ticks pw = previous_ticks (timer_wheel sh)"
      using h(1) by (auto simp: pw_start_timer_def Let_def split: bind_splits)
    ultimately show ?case using h(2) by simp
  qed auto
qed

text \<open>One turn of the loop, from one poll to the next, when the process waits for an event, and for the clock.\<close>

lemma turn_event:
  assumes reach: "exec_reach poll dbg clock ex" "ex_phase ex = At_duration" "ex_rpcs ex = []"
    and nxt: "next_timer_duration dbg (timer_wheel (shared (ex_ctx ex))) = Some None"
  shows "\<exists>ex'. exec_reach poll dbg clock ex' \<and> ex_phase ex' = At_poll \<and> ex_rpcs ex' = [] \<and> ex_ctx ex' = ex_ctx ex \<and>
    ex_now ex' = ex_now ex + t"
proof -
  let ?w = "executor_wake (ex\<lparr>ex_phase := Suspended None\<rparr>)"
  let ?d = "?w\<lparr>ex_rpcs := [], ex_events := ex_events ?w + 1\<rparr>"
  let ?e = "?d\<lparr>ex_phase := At_drain\<rparr>"
  have "executor_wait dbg clock ex = Some (ex\<lparr>ex_phase := Suspended None\<rparr>)" using nxt by (simp add: executor_wait_def)
  from Step [OF reach(1) exec_step.Wait [OF reach(2) this]] have "exec_reach poll dbg clock (ex\<lparr>ex_phase := Suspended None\<rparr>)" .
  from Step [OF this exec_step.Wake] have w: "exec_reach poll dbg clock ?w" .
  have "exec_step poll dbg clock ?w ?d"
    using exec_step.Deliver [of ?w None "\<lparr>sa_node_index = ex_node ex, sa_type_opaque = 0, sa_data = 0\<rparr>" "[]"] reach(3)
    by (simp add: executor_wake_def wake_by_ref_def)
  from Step [OF w this] have "exec_reach poll dbg clock ?d" .
  from Step [OF this exec_step.Event [of _ None]] have "exec_reach poll dbg clock ?e" by (simp add: executor_wake_def)
  from Step [OF this exec_step.Drain] have "exec_reach poll dbg clock (executor_drain ?e)" by simp
  from Step [OF this exec_step.Time [where t = t]] show ?thesis
    by (intro exI conjI, assumption) (simp_all add: executor_drain_def executor_wake_def)
qed

lemma turn_clock:
  assumes reach: "exec_reach poll dbg clock ex" "ex_phase ex = At_duration"
    and nxt: "next_timer_duration dbg (timer_wheel (shared (ex_ctx ex))) = Some (Some n)" and t: "clock n \<le> t"
  shows "\<exists>ex'. exec_reach poll dbg clock ex' \<and> ex_phase ex' = At_poll \<and> ex_ctx ex' = ex_ctx ex \<and> ex_now ex' = ex_now ex + t"
proof -
  let ?w = "ex\<lparr>ex_phase := Suspended (Some (ex_now ex + clock n))\<rparr>"
  let ?t = "?w\<lparr>ex_now := ex_now ?w + t\<rparr>"
  have "executor_wait dbg clock ex = Some ?w" using nxt by (simp add: executor_wait_def)
  from Step [OF reach(1) exec_step.Wait [OF reach(2) this]] have "exec_reach poll dbg clock ?w" .
  from Step [OF this exec_step.Time [where t = t]] have "exec_reach poll dbg clock ?t" by simp
  from Step [OF this exec_step.Clock [of _ "ex_now ex + clock n"]] t
  have "exec_reach poll dbg clock (?t\<lparr>ex_phase := At_drain\<rparr>)" by simp
  from Step [OF this exec_step.Drain] have "exec_reach poll dbg clock (executor_drain (?t\<lparr>ex_phase := At_drain\<rparr>))" by simp
  then show ?thesis by (intro exI conjI, assumption) (simp_all add: executor_drain_def)
qed

text \<open>
  C10: A process node can be stuck in a sleep.  A coroutine that starts a sleep of 4095 milliseconds when 2047
  have passed, with a host that wakes it up at most a millisecond late, is polled when 6143 have passed and
  finds its timer, due at 6142, still not ready; then computing the time until the next timer panics
  by underflow, or, without overflow checks, the process waits for 2^64 - 1 ticks
  unless something else wakes it up.
\<close>

theorem executor_stuck:
  assumes "clock 4095 \<le> 4096 * 1000000"
  shows "\<exists>wkey ex. exec_reach (sleeper_poll wkey) dbg clock ex \<and> ex_phase ex = At_duration \<and>
    ex_now ex = 6143 * 1000000 \<and> start_time (shared (ex_ctx ex)) = 0 \<and>
    future (ex_ctx ex) = Some (Asleep 0) \<and> (wkey, 6142, 0) \<in> live (wheel (timer_wheel (shared (ex_ctx ex)))) \<and>
    executor_wait dbg clock ex =
      (if dbg then None else Some (ex\<lparr>ex_phase := Suspended (Some (ex_now ex + clock (2 ^ 64 - 1)))\<rparr>))"
proof -
  have inv0: "pw_inv process_wheel_0" using pw_reach_inv [OF process_wheel_0_reach] ..
  from expire_inv [OF inv0, of 0] obtain pwA where A: "pw_expire_timers 0 process_wheel_0 = Some pwA"
    "pw_inv pwA" "previous_ticks pwA = 0" "live (wheel pwA) = {}" "entries pwA 0 = None"
    by (auto simp: process_wheel_0_state)
  have rA: "pw_reach pwA" using pw_reach_expire [OF process_wheel_0_reach _ _ A(1)] by (simp add: process_wheel_0_state)
  from expire_inv [OF A(2), of 2047] A(3-5) obtain pw1 where 1: "pw_expire_timers 2047 pwA = Some pw1"
    "previous_ticks pw1 = 2047" "live (wheel pw1) = {}" "entries pw1 0 = None" by (auto simp: U64_MAX_def)
  have r1: "pw_reach pw1" using pw_reach_expire [OF rA _ _ 1(1)] A(3) by (simp add: U64_MAX_def)
  obtain k where k: "vacant_key (wheel pw1) k" using process_vacant [OF r1 1(3)] ..
  obtain pw2 pw3 where 2: "pw_start_timer 0 k 6142 pw1 = Some (0, pw2)" "pw_reach pw2" "previous_ticks pw2 = 2047"
    "live (wheel pw2) = {(k, 6142, 0)}" and 3: "pw_expire_timers 6143 pw2 = Some pw3" "pw_reach pw3"
    "previous_ticks pw3 = 6143" "live (wheel pw3) = {(k, 6142, 0)}"
    by (rule process_late [OF r1 1(2-4) k])
  let ?R = "exec_reach (sleeper_poll k) dbg clock"
  define e0 where "e0 = executor_run id 0 0 Listening"
  have e0: "?R e0" unfolding e0_def by (rule Run) (simp_all add: EMPTY_INDEX_def U32_MAX_def)
  have "executor_poll (sleeper_poll k) e0 = Some (e0\<lparr>ex_ctx := \<lparr>future = Some Woken, shared = \<lparr>timer_wheel = pwA, start_time = 0\<rparr>\<rparr>,
    ex_phase := At_duration, ex_unseen := False\<rparr>)" (is "_ = Some ?e1")
    using A(1) by (simp add: e0_def executor_run_def executor_poll_def poll_async_coroutine_def async_context_new_def
        shared_new_def instant_to_ticks_eq process_wheel_0_def)
  then have e1: "?R ?e1" using Step [OF e0 exec_step.Poll] by (simp add: e0_def executor_run_def)
  have "next_timer_duration dbg pwA = Some None" using next_of_live(1) [OF rA A(4)] by (simp add: next_timer_duration_def)
  then obtain e2 where e2: "?R e2" "ex_phase e2 = At_poll" "ex_ctx e2 = ex_ctx ?e1" "ex_now e2 = 2047000000"
    using turn_event [OF e1, of 2047000000] by (auto simp: e0_def executor_run_def)
  have slept: "sleep (2 ^ 63) 0 k 2047000000 4095000000 (Some \<lparr>timer_wheel = pw1, start_time = 0\<rparr>) =
      Some (0, \<lparr>timer_wheel = pw2, start_time = 0\<rparr>)"
    using 2(1) by (simp add: sleep_def with_current_async_context_def sleep_new_timeout_def sleep_deadline_def
        instant_to_ticks_eq U64_MAX_def)
  have "executor_poll (sleeper_poll k) e2 = Some (e2\<lparr>ex_ctx := \<lparr>future = Some (Asleep 0), shared = \<lparr>timer_wheel = pw2, start_time = 0\<rparr>\<rparr>,
    ex_phase := At_duration, ex_unseen := False\<rparr>)" (is "_ = Some ?e3")
    using 1(1,4) k slept e2(3,4) by (simp add: executor_poll_def poll_async_coroutine_def instant_to_ticks_eq U64_MAX_def)
  then have e3: "?R ?e3" using Step [OF e2(1) exec_step.Poll] e2(2) by simp
  have "next_timer_duration dbg pw2 = Some (Some 4095)"
    using next_of_live(2) [OF 2(2,4)] 2(3) by (simp add: next_timer_duration_def)
  then obtain e4 where e4: "?R e4" "ex_phase e4 = At_poll" "ex_ctx e4 = ex_ctx ?e3" "ex_now e4 = 6143000000"
    using turn_clock [OF e3, of 4095 4096000000] assms e2(4) by auto
  have "timer_poll pw3 0 = Some Pending"
    using pw_inv_entry [of pw3 k 6142 0] pw_reach_inv [OF 3(2)] 3(4) by (simp add: timer_poll_def timer_is_ready_def pw_state_def)
  then have "executor_poll (sleeper_poll k) e4 = Some (e4\<lparr>ex_ctx := \<lparr>future = Some (Asleep 0), shared = \<lparr>timer_wheel = pw3, start_time = 0\<rparr>\<rparr>,
    ex_phase := At_duration, ex_unseen := False\<rparr>)" (is "_ = Some ?e5")
    using 3(1) e4(3,4) by (simp add: executor_poll_def poll_async_coroutine_def instant_to_ticks_eq U64_MAX_def)
  then have e5: "?R ?e5" using Step [OF e4(1) exec_step.Poll] e4(2) by simp
  have "executor_wait dbg clock ?e5 =
      (if dbg then None else Some (?e5\<lparr>ex_phase := Suspended (Some (ex_now ?e5 + clock (2 ^ 64 - 1)))\<rparr>))"
    using next_of_live(2) [OF 3(2,4)] 3(3) by (simp add: executor_wait_def next_timer_duration_def U64_MAX_def)
  with e5 3(4) e4(4) show ?thesis by (intro exI [of _ k] exI [of _ ?e5]) simp
qed

lemma executor_stuck_witness:
  "\<exists>wkey ex. exec_reach (sleeper_poll wkey) True ((*) 1000000) ex \<and> ex_phase ex = At_duration \<and> executor_wait True ((*) 1000000) ex = None"
proof -
  have "(1000000 :: nat) * 4095 \<le> 4096 * 1000000" by simp
  from executor_stuck [of "(*) 1000000" True, OF this] show ?thesis by auto
qed

lemma executor_safe_witness:
  "executor_wait False (\<lambda>_. 0) (executor_run id 0 0 Listening) \<noteq> None"
proof -
  have "exec_reach (sleeper_poll 0) False (\<lambda>_. 0) (executor_run id 0 0 Listening)"
    by (rule Run) (simp_all add: EMPTY_INDEX_def U32_MAX_def)
  from executor_safe [OF sleeper.timer_future_axioms this] show ?thesis by simp
qed

end
