(* ===== verification/Rust_Str.thy ===== *)
theory Rust_Str
  imports Prelude
begin

text \<open>
  The operations on \<open>str\<close> and the number formatting the API generator uses.  A Rust string is
  the list of its UTF-8 bytes, an HOL \<^typ>\<open>string\<close>; every delimiter the code looks for is ASCII.
\<close>

section \<open>Prefixes, suffixes, splitting and joining\<close>

fun strip_prefix :: "string \<Rightarrow> string \<Rightarrow> string option" where
  "strip_prefix [] s = Some s"
| "strip_prefix (p # ps) [] = None"
| "strip_prefix (p # ps) (c # s) = (if p = c then strip_prefix ps s else None)"

definition strip_suffix :: "string \<Rightarrow> string \<Rightarrow> string option" where
  "strip_suffix p s = map_option rev (strip_prefix (rev p) (rev s))"

lemma strip_prefix_Some [simp]: "strip_prefix p s = Some r \<longleftrightarrow> s = p @ r"
  by (induction p s rule: strip_prefix.induct) auto

lemma strip_prefix_None: "strip_prefix p s = None \<longleftrightarrow> (\<forall>r. s \<noteq> p @ r)"
  using strip_prefix_Some by (metis option.exhaust option.distinct(1))

lemma strip_suffix_Some [simp]: "strip_suffix p s = Some r \<longleftrightarrow> s = r @ p"
proof -
  have "strip_suffix p s = Some r \<longleftrightarrow> (\<exists>t. rev s = rev p @ t \<and> r = rev t)" by (auto simp: strip_suffix_def)
  also have "\<dots> \<longleftrightarrow> s = r @ p" by (metis rev_append rev_rev_ident)
  finally show ?thesis .
qed

lemma strip_suffix_append [simp]: "strip_suffix p (r @ p) = Some r"
  by (metis strip_suffix_Some)

text \<open>\<open>rsplit(c).next()\<close> is the text after the last \<open>c\<close>; \<open>rsplit(c).next_back()\<close> the text before the first.\<close>

definition after_last :: "char \<Rightarrow> string \<Rightarrow> string" where
  "after_last c s = rev (takeWhile (\<lambda>x. x \<noteq> c) (rev s))"

definition before_first :: "char \<Rightarrow> string \<Rightarrow> string" where
  "before_first c s = takeWhile (\<lambda>x. x \<noteq> c) s"

text \<open>\<open>split(c)\<close>: the texts between the occurrences of \<open>c\<close>, at least one.\<close>

fun split_on :: "char \<Rightarrow> string \<Rightarrow> string list" where
  "split_on d [] = [[]]"
| "split_on d (c # cs) = (if c = d then [] # split_on d cs else
     (case split_on d cs of [] \<Rightarrow> [[c]] | w # ws \<Rightarrow> (c # w) # ws))"

fun join :: "string \<Rightarrow> string list \<Rightarrow> string" where
  "join sep [] = []"
| "join sep [x] = x"
| "join sep (x # y # xs) = x @ sep @ join sep (y # xs)"

text \<open>A text between single quotes.\<close>

definition quoted :: "string \<Rightarrow> string" where
  "quoted s = CHR 0x27 # s @ [CHR 0x27]"

section \<open>Decimal and hexadecimal numbers\<close>

definition digit_char :: "nat \<Rightarrow> char" where
  "digit_char d = char_of (48 + d)"

fun show_nat :: "nat \<Rightarrow> string" where
  "show_nat n = (if n < 10 then [digit_char n] else show_nat (n div 10) @ [digit_char (n mod 10)])"

declare show_nat.simps [simp del]

definition is_digit :: "char \<Rightarrow> bool" where
  "is_digit c \<longleftrightarrow> 48 \<le> (of_char c :: nat) \<and> (of_char c :: nat) \<le> 57"

definition is_hex_digit :: "char \<Rightarrow> bool" where
  "is_hex_digit c \<longleftrightarrow> is_digit c \<or> 97 \<le> (of_char c :: nat) \<and> (of_char c :: nat) \<le> 102 \<or>
     65 \<le> (of_char c :: nat) \<and> (of_char c :: nat) \<le> 70"

definition digit_val :: "char \<Rightarrow> nat" where
  "digit_val c = (let n = of_char c in if n \<le> 57 then n - 48 else if n \<le> 70 then n - 55 else n - 87)"

text \<open>\<open>u32::from_str_radix\<close> on a string of digits of that radix: an error when it does not fit.\<close>

definition value_of_digits :: "nat \<Rightarrow> string \<Rightarrow> nat" where
  "value_of_digits b s = foldl (\<lambda>n c. n * b + digit_val c) 0 s"

definition parse_u32 :: "nat \<Rightarrow> string \<Rightarrow> nat option" where
  "parse_u32 b s = (let n = value_of_digits b s in if n \<le> U32_MAX then Some n else None)"

lemma digit_char_props [simp]:
  assumes "d < 10"
  shows "is_digit (digit_char d)" "digit_val (digit_char d) = d"
proof -
  have "(of_char (digit_char d) :: nat) = 48 + d" using assms by (simp add: digit_char_def)
  then show "is_digit (digit_char d)" "digit_val (digit_char d) = d"
    using assms by (simp_all add: is_digit_def digit_val_def Let_def)
qed

lemma show_nat_digits: "\<forall>c\<in>set (show_nat n). is_digit c" "show_nat n \<noteq> []"
proof -
  show "\<forall>c\<in>set (show_nat n). is_digit c"
    by (induction n rule: show_nat.induct) (subst show_nat.simps, auto)
  show "show_nat n \<noteq> []" by (subst show_nat.simps) auto
qed

lemma value_show_nat: "value_of_digits 10 (show_nat n) = n"
proof (induction n rule: show_nat.induct)
  case (1 n)
  show ?case
  proof (cases "n < 10")
    case True
    then show ?thesis by (subst show_nat.simps) (simp add: value_of_digits_def)
  next
    case False
    then have "value_of_digits 10 (show_nat n) = value_of_digits 10 (show_nat (n div 10)) * 10 + n mod 10"
      by (subst show_nat.simps) (simp add: value_of_digits_def)
    with 1 False show ?thesis by simp
  qed
qed

lemma parse_show_nat: "n \<le> U32_MAX \<Longrightarrow> parse_u32 10 (show_nat n) = Some n"
  by (simp add: parse_u32_def value_show_nat)

lemma show_nat_inj: "show_nat m = show_nat n \<longleftrightarrow> m = n"
  using value_show_nat by metis

end
