(* ===== verification/Api_Ast.thy ===== *)
theory Api_Ast
  imports Rust_Str
begin

text \<open>
  The syntax tree of VPP API files and the text over which their CRCs are computed: the first
  part of \<open>vpp-plugin-api-gen/src/parser.rs\<close>.  \<open>u32\<close> values are natural numbers; adding one to
  an enum value is checked, so \<open>None\<close> is the overflow panic.
\<close>

section \<open>Syntax tree\<close>

datatype flag = ManualPrint | ManualEndian | DontTrace | AutoEndian | AutoReply | IndexReply

record option_statement =
  os_option :: string
  os_value :: "string option"

datatype field_size = Variable "string option" | Fixed nat

record field =
  f_type :: string
  f_name :: string
  f_options :: "option_statement list"
  f_size :: "field_size option"

datatype block_statement = Declaration field | Block_option option_statement

datatype enum_statement = Variant string "nat option" "option_statement list"

record service =
  caller :: string
  reply :: string
  events :: "string list"
  stream :: bool
  stream_message :: "string option"

datatype statement =
    Define string "option_statement list" "field list" "flag list" "string option"
  | Option_stmt option_statement
  | TypedefBlock string "option_statement list" "field list" "flag list"
  | Typedef field "flag list"
  | Enum string string "enum_statement list"
  | EnumFlag string string "enum_statement list"
  | Union_stmt string "option_statement list" "field list" "string option"
  | Import string
  | Service_stmt "service list"

definition options_from_block_statements :: "block_statement list \<Rightarrow> option_statement list" where
  "options_from_block_statements bs =
     List.map_filter (\<lambda>s. case s of Block_option opt \<Rightarrow> Some opt | _ \<Rightarrow> None) bs"

definition fields_from_block_statements :: "block_statement list \<Rightarrow> field list" where
  "fields_from_block_statements bs =
     List.map_filter (\<lambda>s. case s of Declaration fd \<Rightarrow> Some fd | _ \<Rightarrow> None) bs"

definition st_define :: "string \<Rightarrow> block_statement list \<Rightarrow> flag list \<Rightarrow> string option \<Rightarrow> statement" where
  "st_define name bs flags comment =
     Define name (options_from_block_statements bs) (fields_from_block_statements bs) flags comment"

definition st_typedef :: "field \<Rightarrow> flag list \<Rightarrow> statement" where
  "st_typedef fd flags = Typedef fd flags"

definition st_typedef_block :: "string \<Rightarrow> block_statement list \<Rightarrow> flag list \<Rightarrow> statement" where
  "st_typedef_block name bs flags =
     TypedefBlock name (options_from_block_statements bs) (fields_from_block_statements bs) flags"

definition st_union :: "string \<Rightarrow> block_statement list \<Rightarrow> string option \<Rightarrow> statement" where
  "st_union name bs comment =
     Union_stmt name (options_from_block_statements bs) (fields_from_block_statements bs) comment"

section \<open>CRC text\<close>

definition field_crc_data :: "field \<Rightarrow> string" where
  "field_crc_data fd =
     (case f_size fd of
        Some sz \<Rightarrow>
          (let (len, lengthfield) =
             (case sz of
                Fixed n \<Rightarrow> (n, ''None'')
              | Variable None \<Rightarrow> (0, ''None'')
              | Variable (Some lf) \<Rightarrow> (0, quoted lf))
           in ''['' @ quoted (f_type fd) @ '', '' @ quoted (f_name fd) @ '', '' @ show_nat len @ '', '' @ lengthfield @ '']'')
      | None \<Rightarrow> ''['' @ quoted (f_type fd) @ '', '' @ quoted (f_name fd) @ '']'')"

definition crc_data_for_fields :: "field list \<Rightarrow> string" where
  "crc_data_for_fields fds = ''['' @ join '', '' (map field_crc_data fds) @ '']''"

definition backwards_compatible :: "option_statement list \<Rightarrow> bool" where
  "backwards_compatible opts = list_ex (\<lambda>opt. os_option opt = ''backwards_compatible'') opts"

fun enum_crc_items :: "nat \<Rightarrow> enum_statement list \<Rightarrow> string list option" where
  "enum_crc_items next_value [] = Some []"
| "enum_crc_items next_value (Variant i explicit_value opts # ss) = do {
     let v = (case explicit_value of Some e \<Rightarrow> e | None \<Rightarrow> next_value);
     next_value' \<leftarrow> checked_add U32_MAX v 1;
     items \<leftarrow> enum_crc_items next_value' ss;
     Some (if backwards_compatible opts then items
           else (''['' @ quoted i @ '', '' @ show_nat v @ '']'') # items)
   }"

definition crc_data_for_enum_block_statements :: "enum_statement list \<Rightarrow> string option" where
  "crc_data_for_enum_block_statements bs =
     map_option (\<lambda>items. ''['' @ join '', '' items @ '']'') (enum_crc_items 0 bs)"

text \<open>The outer option is the panic, the inner one the \<open>Option\<close> of the code.\<close>

definition st_crc_data :: "statement \<Rightarrow> string option option" where
  "st_crc_data s = (case s of
       Define _ _ fds _ _ \<Rightarrow> Some (Some (crc_data_for_fields fds))
     | Option_stmt opt \<Rightarrow> Some (Some (os_option opt))
     | TypedefBlock _ _ fds _ \<Rightarrow> Some (Some (crc_data_for_fields fds))
     | Typedef _ _ \<Rightarrow> Some (Some ''[]'')
     | Union_stmt _ _ fds _ \<Rightarrow> Some (Some (crc_data_for_fields fds))
     | Enum _ _ bs \<Rightarrow> map_option Some (crc_data_for_enum_block_statements bs)
     | EnumFlag _ _ bs \<Rightarrow> map_option Some (crc_data_for_enum_block_statements bs)
     | Import _ \<Rightarrow> Some None
     | Service_stmt _ \<Rightarrow> Some None)"

section \<open>Enum variants\<close>

record enum_variant =
  ev_id :: string
  ev_value :: nat

fun enum_variants_from :: "nat \<Rightarrow> enum_statement list \<Rightarrow> enum_variant list option" where
  "enum_variants_from next_value [] = Some []"
| "enum_variants_from next_value (Variant i explicit_value opts # ss) = do {
     let v = (case explicit_value of Some e \<Rightarrow> e | None \<Rightarrow> next_value);
     next_value' \<leftarrow> checked_add U32_MAX v 1;
     vs \<leftarrow> enum_variants_from next_value' ss;
     Some (\<lparr>ev_id = i, ev_value = v\<rparr> # vs)
   }"

definition enum_variants_from_block_statements :: "enum_statement list \<Rightarrow> enum_variant list option" where
  "enum_variants_from_block_statements bs = enum_variants_from 0 bs"

text \<open>What the values should be, over unbounded numbers: a variant's own value, or one more than
  that of the variant before it.\<close>

definition variant_name :: "enum_statement \<Rightarrow> string" where
  "variant_name s = (case s of Variant i _ _ \<Rightarrow> i)"

fun enum_values :: "nat \<Rightarrow> enum_statement list \<Rightarrow> nat list" where
  "enum_values n [] = []"
| "enum_values n (Variant i explicit_value opts # ss) =
     (let v = (case explicit_value of Some e \<Rightarrow> e | None \<Rightarrow> n) in v # enum_values (v + 1) ss)"

lemma enum_values_length [simp]: "length (enum_values n bs) = length bs"
  by (induction n bs rule: enum_values.induct) (auto simp: Let_def)

lemma enum_variants_from_values:
  "enum_variants_from n bs =
     (if \<forall>v\<in>set (enum_values n bs). v < U32_MAX
      then Some (map2 (\<lambda>s v. \<lparr>ev_id = variant_name s, ev_value = v\<rparr>) bs (enum_values n bs)) else None)"
proof (induction n bs rule: enum_variants_from.induct)
  case (2 n x ev opts ss)
  let ?v = "case ev of Some e \<Rightarrow> e | None \<Rightarrow> n"
  show ?case
  proof (cases "?v < U32_MAX")
    case True
    then have "checked_add U32_MAX ?v 1 = Some (?v + 1)" by (simp add: checked_add_def)
    with "2.IH"[OF refl this] True show ?thesis by (simp add: Let_def variant_name_def)
  qed (simp add: Let_def checked_add_def)
qed simp

lemma enum_crc_items_text:
  "enum_crc_items n bs = map_option (\<lambda>vs.
     map (\<lambda>(s, v). ''['' @ quoted (ev_id v) @ '', '' @ show_nat (ev_value v) @ '']'')
       (filter (\<lambda>(s, v). case s of Variant _ _ opts \<Rightarrow> \<not> backwards_compatible opts) (zip bs vs)))
     (enum_variants_from n bs)"
proof (induction n bs rule: enum_crc_items.induct)
  case (2 n x ev opts ss)
  let ?v = "case ev of Some e \<Rightarrow> e | None \<Rightarrow> n"
  show ?case
  proof (cases "checked_add U32_MAX ?v 1")
    case (Some m)
    with "2.IH"[OF refl Some] show ?thesis by (cases "enum_variants_from m ss") (auto simp: Let_def)
  qed (simp add: Let_def)
qed simp

end
