(* ===== verification/Api_Parser.thy ===== *)
theory Api_Parser
  imports Api_Ast
begin

text \<open>
  The API parser's tables: types, messages, variable-length arrays, CRCs and services, that is
  \<open>ApiParser\<close> and the types around it in \<open>vpp-plugin-api-gen/src/parser.rs\<close>.

  The CRC hasher of the third-party crate \<open>crc32fast\<close> is the argument \<open>H\<close> of the definitions
  that use it.  A result is \<open>None\<close> where the code panics or does not return, \<open>Some (Inl e)\<close> for
  \<open>Err(e)\<close> and \<open>Some (Inr x)\<close> for \<open>Ok(x)\<close>.
\<close>

section \<open>Errors and tables\<close>

datatype api_error =
    Io string
  | Parser_error string
  | TypeResolution string
  | TypeRedefinition string
  | MissingReplyMessageForMessage string string
  | ServiceRefersUndefinedMessage string
  | ServiceRefersUndefinedMessageReply string
  | ServiceRefersUndefinedEvent string string
  | ServiceCallerUsedAsReply string
  | MissingCallerMessageForReply string string
  | ExplicitGetServiceRequiredDetails string string
  | MissingDetailsMessageForDump string string
  | MissingDumpGetForDetailsMessage string string string
  | VlaFieldNotLast string string
  | VlaFieldUnion string string
  | ArrayVariableNotFound string string
  | StringNotArray string

record 'h hasher =
  h_new :: 'h
  h_update :: "'h \<Rightarrow> string \<Rightarrow> 'h"
  h_combine :: "'h \<Rightarrow> 'h \<Rightarrow> 'h"
  h_finalize :: "'h \<Rightarrow> nat"

datatype type_details =
    TD_TypedefBlock "field list"
  | TD_Typedef string "field_size option"
  | TD_Union "field list"
  | TD_Enum string "enum_variant list"
  | TD_EnumFlag string "enum_variant list"

record 'h type_entry =
  ty_crc :: 'h
  ty_details :: type_details
  ty_import_filename :: "string option"

record message =
  msg_name :: string
  msg_fields :: "field list"
  msg_options :: "option_statement list"
  msg_flags :: "flag list"
  msg_crc :: nat
  msg_comment :: "string option"

record union_def =
  un_name :: string
  un_fields :: "field list"
  un_options :: "option_statement list"
  un_comment :: "string option"

record type_def =
  td_name :: string
  td_fields :: "field list"
  td_options :: "option_statement list"
  td_flags :: "flag list"

record enum_def =
  en_name :: string
  en_size :: string
  en_variants :: "enum_variant list"

record alias_def =
  al_field :: field
  al_flags :: "flag list"

record 'h api_parser =
  global_types_by_name :: "string \<rightharpoonup> 'h type_entry"
  p_options :: "option_statement list"
  p_messages :: "message list"
  p_services :: "service list"
  p_imports :: "string list"
  p_aliases :: "alias_def list"
  p_unions :: "union_def list"
  p_types :: "type_def list"
  p_enums :: "enum_def list"
  p_enumflags :: "enum_def list"
  p_file_crc :: nat

definition empty_parser :: "'h api_parser" where
  "empty_parser = \<lparr>global_types_by_name = Map.empty, p_options = [], p_messages = [], p_services = [],
     p_imports = [], p_aliases = [], p_unions = [], p_types = [], p_enums = [], p_enumflags = [], p_file_crc = 0\<rparr>"

definition VL_API_PREFIX :: string where
  "VL_API_PREFIX = ''vl_api_''"

definition VL_API_SUFFIX :: string where
  "VL_API_SUFFIX = ''_t''"

text \<open>The name inside \<open>vl_api_..._t\<close>.\<close>

definition api_type_name :: "string \<Rightarrow> string option" where
  "api_type_name t = Option.bind (strip_prefix VL_API_PREFIX t) (strip_suffix VL_API_SUFFIX)"

definition import_module :: "'h type_entry \<Rightarrow> string option" where
  "import_module ty = map_option (\<lambda>f. before_first CHR ''.'' (after_last CHR ''/'' f)) (ty_import_filename ty)"

section \<open>Variable-length arrays\<close>

datatype count_descriptor =
    CD_Field "string list" string
  | CD_String "string list"

definition count_field_of :: "field \<Rightarrow> field list \<Rightarrow> field option" where
  "count_field_of fd other_fields =
     (case f_size fd of
        Some (Variable (Some count_field)) \<Rightarrow> find (\<lambda>other. f_name other = count_field) other_fields
      | _ \<Rightarrow> None)"

definition cd_under :: "string \<Rightarrow> count_descriptor \<Rightarrow> count_descriptor" where
  "cd_under name cd = (case cd of
      CD_Field path t \<Rightarrow> CD_Field (name # path) t
    | CD_String path \<Rightarrow> CD_String (name # path))"

text \<open>
  \<open>Field::vla\<close> with the calls of \<open>TypeEntry::vla\<close> and \<open>TypeDetails::vla\<close> in place; the calls go
  through the type table and back to \<open>Field::vla\<close>.
\<close>

partial_function (option) field_vla ::
  "(string \<rightharpoonup> 'h type_entry) \<Rightarrow> field \<Rightarrow> field list \<Rightarrow> count_descriptor option option" where
  "field_vla T fd other_fields =
     (if f_size fd = Some (Variable None) \<and> f_type fd = ''string'' then Some (Some (CD_String [f_name fd]))
      else case count_field_of fd other_fields of
        Some count_field \<Rightarrow> Some (Some (CD_Field [f_name count_field] (f_type count_field)))
      | None \<Rightarrow>
          (case Option.bind (api_type_name (f_type fd)) T of
             None \<Rightarrow> Some None
           | Some ty \<Rightarrow>
               Option.bind
                 (case ty_details ty of
                    TD_TypedefBlock fds \<Rightarrow> (if fds = [] then Some None else field_vla T (last fds) fds)
                  | TD_Typedef t sz \<Rightarrow> Some (if sz = Some (Variable None) \<and> t = ''string'' then Some (CD_String []) else None)
                  | TD_Union fds \<Rightarrow> Some None
                  | TD_Enum sz vs \<Rightarrow> Some None
                  | TD_EnumFlag sz vs \<Rightarrow> Some None)
                 (\<lambda>r. Some (map_option (cd_under (f_name fd)) r))))"

declare field_vla.simps [code]

definition type_details_vla :: "(string \<rightharpoonup> 'h type_entry) \<Rightarrow> type_details \<Rightarrow> count_descriptor option option" where
  "type_details_vla T details = (case details of
      TD_TypedefBlock fds \<Rightarrow> (if fds = [] then Some None else field_vla T (last fds) fds)
    | TD_Typedef t sz \<Rightarrow> Some (if sz = Some (Variable None) \<and> t = ''string'' then Some (CD_String []) else None)
    | _ \<Rightarrow> Some None)"

definition fields_vla :: "(string \<rightharpoonup> 'h type_entry) \<Rightarrow> field list \<Rightarrow> (field \<times> count_descriptor) option option" where
  "fields_vla T fds =
     (if fds = [] then Some None
      else map_option (map_option (Pair (last fds))) (field_vla T (last fds) fds))"

definition message_vla :: "'h api_parser \<Rightarrow> message \<Rightarrow> (field \<times> count_descriptor) option option" where
  "message_vla P m = fields_vla (global_types_by_name P) (msg_fields m)"

definition type_vla :: "'h api_parser \<Rightarrow> type_def \<Rightarrow> (field \<times> count_descriptor) option option" where
  "type_vla P t = fields_vla (global_types_by_name P) (td_fields t)"

definition vla_non_recursive :: "field list \<Rightarrow> field option" where
  "vla_non_recursive fds =
     (if fds = [] then None
      else case f_size (last fds) of Some (Variable (Some _)) \<Rightarrow> Some (last fds) | _ \<Rightarrow> None)"

section \<open>Messages\<close>

definition simple_field :: "string \<Rightarrow> string \<Rightarrow> field" where
  "simple_field t n = \<lparr>f_type = t, f_name = n, f_options = [], f_size = None\<rparr>"

definition message_new ::
  "string \<Rightarrow> option_statement list \<Rightarrow> field list \<Rightarrow> flag list \<Rightarrow> nat \<Rightarrow> string option \<Rightarrow> message" where
  "message_new name opts fds flags crc comment =
     \<lparr>msg_name = name, msg_fields = simple_field ''u16'' ''_vl_msg_id'' # fds, msg_options = opts,
      msg_flags = flags, msg_crc = crc, msg_comment = comment\<rparr>"

definition auto_reply :: "message \<Rightarrow> bool" where
  "auto_reply m = List.member (msg_flags m) AutoReply"

definition index_reply :: "message \<Rightarrow> bool" where
  "index_reply m = List.member (msg_flags m) IndexReply"

definition generated_reply :: "'h hasher \<Rightarrow> message \<Rightarrow> message option" where
  "generated_reply H m =
     (if auto_reply m \<or> index_reply m then
        (let auto_fields = [simple_field ''u16'' ''_vl_msg_id'', simple_field ''u32'' ''context'', simple_field ''i32'' ''retval'']
               @ (if auto_reply m then [] else [simple_field ''u32'' ''index'']);
             crc_data = crc_data_for_fields (tl auto_fields);
             crc_hash = h_update H (h_new H) crc_data
         in Some \<lparr>msg_name = msg_name m @ ''_reply'', msg_fields = auto_fields, msg_options = msg_options m,
                  msg_flags = [], msg_crc = h_finalize H crc_hash, msg_comment = None\<rparr>)
      else None)"

definition has_retval :: "message \<Rightarrow> bool" where
  "has_retval m = list_ex (\<lambda>fd. f_name fd = ''retval'' \<and> f_type fd = ''i32'' \<and> f_size fd = None) (msg_fields m)"

section \<open>CRCs and validation\<close>

fun combine_field_types :: "'h hasher \<Rightarrow> (string \<rightharpoonup> 'h type_entry) \<Rightarrow> field list \<Rightarrow> 'h \<Rightarrow> api_error + 'h" where
  "combine_field_types H T [] crc_hash = Inr crc_hash"
| "combine_field_types H T (fd # fds) crc_hash =
     (case api_type_name (f_type fd) of
        None \<Rightarrow> combine_field_types H T fds crc_hash
      | Some type_name \<Rightarrow>
          (case T type_name of
             Some ty \<Rightarrow> combine_field_types H T fds (h_combine H crc_hash (ty_crc ty))
           | None \<Rightarrow> Inl (TypeResolution type_name)))"

definition crc_for_fields :: "'h hasher \<Rightarrow> (string \<rightharpoonup> 'h type_entry) \<Rightarrow> field list \<Rightarrow> api_error + 'h" where
  "crc_for_fields H T fds = combine_field_types H T fds (h_update H (h_new H) (crc_data_for_fields fds))"

fun validate_vla_loop ::
  "(string \<rightharpoonup> 'h type_entry) \<Rightarrow> string \<Rightarrow> field list \<Rightarrow> bool \<Rightarrow> nat \<Rightarrow> bool \<Rightarrow> field list \<Rightarrow> (api_error + bool) option" where
  "validate_vla_loop T name fds is_union i vla [] = Some (Inr vla)"
| "validate_vla_loop T name fds is_union i vla (fd # rest) =
     (if f_type fd = ''string'' \<and> f_size fd = None then Some (Inl (StringNotArray (f_name fd)))
      else Option.bind (field_vla T fd fds) (\<lambda>r.
        let vla' = (r \<noteq> None) in
        if vla' \<and> is_union then Some (Inl (VlaFieldUnion (f_name fd) name))
        else if vla' \<and> i \<noteq> length fds - 1 then Some (Inl (VlaFieldNotLast (f_name fd) name))
        else case f_size fd of
            Some (Variable (Some length_var)) \<Rightarrow>
              (if \<not> list_ex (\<lambda>other. f_name other = length_var) fds
               then Some (Inl (ArrayVariableNotFound (f_name fd) length_var))
               else validate_vla_loop T name fds is_union (i + 1) vla' rest)
          | _ \<Rightarrow> validate_vla_loop T name fds is_union (i + 1) vla' rest))"

definition validate_vla :: "(string \<rightharpoonup> 'h type_entry) \<Rightarrow> string \<Rightarrow> field list \<Rightarrow> bool \<Rightarrow> (api_error + bool) option" where
  "validate_vla T name fds is_union = validate_vla_loop T name fds is_union 0 False fds"

section \<open>Statements\<close>

text \<open>
  The arms of \<open>process_statements\<close>; \<open>import\<close> is the file name of an imported file.  Each returns
  the parser and, for a type, the entry to register under its name.
\<close>

type_synonym 'h arm_result = "(api_error + 'h api_parser \<times> (string \<times> 'h type_entry) option) option"

definition process_define ::
  "'h hasher \<Rightarrow> string option \<Rightarrow> string \<Rightarrow> option_statement list \<Rightarrow> field list \<Rightarrow> flag list \<Rightarrow> string option
    \<Rightarrow> 'h api_parser \<Rightarrow> 'h arm_result" where
  "process_define H import name opts fds flags comment P =
     res_bind (validate_vla (global_types_by_name P) name fds False) (\<lambda>_.
       if import = None then
         (case crc_for_fields H (global_types_by_name P) fds of
            Inl e \<Rightarrow> Some (Inl e)
          | Inr crc \<Rightarrow>
              (let define = message_new name opts fds flags (h_finalize H crc) comment
               in Some (Inr (P\<lparr>p_messages := p_messages P @ [define] @
                      (case generated_reply H define of Some r \<Rightarrow> [r] | None \<Rightarrow> [])\<rparr>, None))))
       else Some (Inr (P, None)))"

definition process_typedef_block ::
  "'h hasher \<Rightarrow> string option \<Rightarrow> string \<Rightarrow> option_statement list \<Rightarrow> field list \<Rightarrow> flag list
    \<Rightarrow> 'h api_parser \<Rightarrow> 'h arm_result" where
  "process_typedef_block H import name opts fds flags P =
     res_bind (validate_vla (global_types_by_name P) name fds False) (\<lambda>_.
       case crc_for_fields H (global_types_by_name P) fds of
         Inl e \<Rightarrow> Some (Inl e)
       | Inr crc \<Rightarrow>
           Some (Inr (if import = None
                      then P\<lparr>p_types := p_types P @ [\<lparr>td_name = name, td_fields = fds, td_options = opts, td_flags = flags\<rparr>]\<rparr>
                      else P,
                 Some (name, \<lparr>ty_crc = crc, ty_details = TD_TypedefBlock fds, ty_import_filename = import\<rparr>))))"

definition process_typedef ::
  "'h hasher \<Rightarrow> string option \<Rightarrow> field \<Rightarrow> flag list \<Rightarrow> 'h api_parser \<Rightarrow> 'h arm_result" where
  "process_typedef H import fd flags P =
     (case f_size fd of
        Some (Variable (Some length_var)) \<Rightarrow> Some (Inl (ArrayVariableNotFound (f_name fd) length_var))
      | _ \<Rightarrow>
          Some (Inr (if import = None
                     then P\<lparr>p_aliases := p_aliases P @ [\<lparr>al_field = fd, al_flags = flags\<rparr>]\<rparr> else P,
                Some (f_name fd, \<lparr>ty_crc = h_update H (h_new H) ''[]'', ty_details = TD_Typedef (f_type fd) (f_size fd),
                                  ty_import_filename = import\<rparr>))))"

definition process_union ::
  "'h hasher \<Rightarrow> string option \<Rightarrow> string \<Rightarrow> option_statement list \<Rightarrow> field list \<Rightarrow> string option
    \<Rightarrow> 'h api_parser \<Rightarrow> 'h arm_result" where
  "process_union H import name opts fds comment P =
     res_bind (validate_vla (global_types_by_name P) name fds True) (\<lambda>_.
       case crc_for_fields H (global_types_by_name P) fds of
         Inl e \<Rightarrow> Some (Inl e)
       | Inr crc \<Rightarrow>
           Some (Inr (if import = None
                      then P\<lparr>p_unions := p_unions P @ [\<lparr>un_name = name, un_fields = fds, un_options = opts, un_comment = comment\<rparr>]\<rparr>
                      else P,
                 Some (name, \<lparr>ty_crc = crc, ty_details = TD_Union fds, ty_import_filename = import\<rparr>))))"

definition process_enum ::
  "'h hasher \<Rightarrow> string option \<Rightarrow> string \<Rightarrow> string \<Rightarrow> enum_statement list \<Rightarrow> 'h api_parser \<Rightarrow> 'h arm_result" where
  "process_enum H import name sz bs P = do {
     data \<leftarrow> crc_data_for_enum_block_statements bs;
     let crc = h_update H (h_new H) data;
     variants \<leftarrow> enum_variants_from_block_statements bs;
     Some (Inr (if import = None
                then P\<lparr>p_enums := p_enums P @ [\<lparr>en_name = name, en_size = sz, en_variants = variants\<rparr>]\<rparr> else P,
           Some (name, \<lparr>ty_crc = crc, ty_details = TD_Enum sz variants, ty_import_filename = import\<rparr>)))
   }"

definition process_enumflag ::
  "'h hasher \<Rightarrow> string option \<Rightarrow> string \<Rightarrow> string \<Rightarrow> enum_statement list \<Rightarrow> 'h api_parser \<Rightarrow> 'h arm_result" where
  "process_enumflag H import name sz bs P = do {
     data \<leftarrow> crc_data_for_enum_block_statements bs;
     let crc = h_update H (h_new H) data;
     variants \<leftarrow> enum_variants_from_block_statements bs;
     Some (Inr (if import = None
                then P\<lparr>p_enumflags := p_enumflags P @ [\<lparr>en_name = name, en_size = sz, en_variants = variants\<rparr>]\<rparr> else P,
           Some (name, \<lparr>ty_crc = crc, ty_details = TD_EnumFlag sz variants, ty_import_filename = import\<rparr>)))
   }"

definition process_statement :: "'h hasher \<Rightarrow> string option \<Rightarrow> statement \<Rightarrow> 'h api_parser \<Rightarrow> 'h arm_result" where
  "process_statement H import stmt P = (case stmt of
       Define name opts fds flags comment \<Rightarrow> process_define H import name opts fds flags comment P
     | TypedefBlock name opts fds flags \<Rightarrow> process_typedef_block H import name opts fds flags P
     | Typedef fd flags \<Rightarrow> process_typedef H import fd flags P
     | Union_stmt name opts fds comment \<Rightarrow> process_union H import name opts fds comment P
     | Enum name sz bs \<Rightarrow> process_enum H import name sz bs P
     | EnumFlag name sz bs \<Rightarrow> process_enumflag H import name sz bs P
     | Import file \<Rightarrow> Some (Inr (if import = None then P\<lparr>p_imports := p_imports P @ [file]\<rparr> else P, None))
     | Option_stmt opt \<Rightarrow> Some (Inr (if import = None then P\<lparr>p_options := p_options P @ [opt]\<rparr> else P, None))
     | Service_stmt ss \<Rightarrow> Some (Inr (if import = None then P\<lparr>p_services := p_services P @ ss\<rparr> else P, None)))"

definition register_type :: "string \<Rightarrow> 'h type_entry \<Rightarrow> 'h api_parser \<Rightarrow> api_error + 'h api_parser" where
  "register_type name ty P =
     (if global_types_by_name P name \<noteq> None then Inl (TypeRedefinition name)
      else Inr (P\<lparr>global_types_by_name := (global_types_by_name P)(name \<mapsto> ty)\<rparr>))"

fun process_statements_loop ::
  "'h hasher \<Rightarrow> string option \<Rightarrow> 'h \<Rightarrow> statement list \<Rightarrow> 'h api_parser \<Rightarrow> (api_error + nat \<times> 'h api_parser) option" where
  "process_statements_loop H import crc [] P = Some (Inr (h_finalize H crc, P))"
| "process_statements_loop H import crc (stmt # stmts) P = do {
     data \<leftarrow> st_crc_data stmt;
     let crc' = (case data of Some d \<Rightarrow> h_update H crc d | None \<Rightarrow> crc);
     res_bind (process_statement H import stmt P) (\<lambda>(P1, t).
       case t of
         None \<Rightarrow> process_statements_loop H import crc' stmts P1
       | Some (name, ty) \<Rightarrow>
           (case register_type name ty P1 of
              Inl e \<Rightarrow> Some (Inl e)
            | Inr P2 \<Rightarrow> process_statements_loop H import crc' stmts P2))
   }"

definition process_statements ::
  "'h hasher \<Rightarrow> string option \<Rightarrow> statement list \<Rightarrow> 'h api_parser \<Rightarrow> (api_error + nat \<times> 'h api_parser) option" where
  "process_statements H import stmts P = process_statements_loop H import (h_new H) stmts P"

text \<open>
  \<open>parse\<close> is \<open>parse_file\<close>.  Imports are followed depth first; a file that imports itself, directly
  or not, is followed for ever.
\<close>

partial_function (option) do_imports ::
  "'h hasher \<Rightarrow> (string \<Rightarrow> api_error + statement list) \<Rightarrow> statement list \<Rightarrow> 'h api_parser
    \<Rightarrow> (api_error + 'h api_parser) option" where
  "do_imports H parse stmts P =
     (case stmts of
        [] \<Rightarrow> Some (Inr P)
      | stmt # rest \<Rightarrow>
          (case stmt of
             Import import_filename \<Rightarrow>
               (case parse import_filename of
                  Inl e \<Rightarrow> Some (Inl e)
                | Inr imported_statements \<Rightarrow>
                    Option.bind (do_imports H parse imported_statements P) (\<lambda>r1.
                      case r1 of
                        Inl e \<Rightarrow> Some (Inl e)
                      | Inr P1 \<Rightarrow>
                          Option.bind (process_statements H (Some import_filename) imported_statements P1) (\<lambda>r2.
                            case r2 of
                              Inl e \<Rightarrow> Some (Inl e)
                            | Inr x \<Rightarrow> do_imports H parse rest (snd x))))
           | _ \<Rightarrow> do_imports H parse rest P))"

declare do_imports.simps [code]

section \<open>Services\<close>

text \<open>A later service of the same caller or reply replaces the earlier one in the map.\<close>

definition service_by_caller :: "service list \<Rightarrow> string \<rightharpoonup> service" where
  "service_by_caller ss = map_of (rev (map (\<lambda>s. (caller s, s)) ss))"

definition service_by_reply :: "service list \<Rightarrow> string \<rightharpoonup> service" where
  "service_by_reply ss = map_of (rev (map (\<lambda>s. (reply s, s)) ss))"

definition check_service :: "string set \<Rightarrow> (string \<rightharpoonup> service) \<Rightarrow> string \<Rightarrow> service \<Rightarrow> api_error + unit" where
  "check_service names by_reply request_name s =
     (if request_name \<notin> names then Inl (ServiceRefersUndefinedMessage request_name)
      else if reply s \<noteq> ''null'' \<and> reply s \<notin> names then Inl (ServiceRefersUndefinedMessageReply (reply s))
      else if by_reply request_name \<noteq> None then Inl (ServiceCallerUsedAsReply request_name)
      else case find (\<lambda>e. e \<notin> names) (events s) of
          Some e \<Rightarrow> Inl (ServiceRefersUndefinedEvent e request_name)
        | None \<Rightarrow> Inr ())"

text \<open>
  The first loop of \<open>process\<close> goes through a \<open>HashMap\<close>, in an order of its own: \<open>order\<close> lists
  the callers in that order.  The result is the set of messages that are events.
\<close>

fun check_services ::
  "string set \<Rightarrow> (string \<rightharpoonup> service) \<Rightarrow> (string \<rightharpoonup> service) \<Rightarrow> string list \<Rightarrow> string set \<Rightarrow> api_error + string set" where
  "check_services names by_caller by_reply [] seen = Inr seen"
| "check_services names by_caller by_reply (request_name # order) seen =
     (case by_caller request_name of
        None \<Rightarrow> check_services names by_caller by_reply order seen
      | Some s \<Rightarrow>
          (case check_service names by_reply request_name s of
             Inl e \<Rightarrow> Inl e
           | Inr _ \<Rightarrow> check_services names by_caller by_reply order (seen \<union> set (events s))))"

definition implicit_service :: "string \<Rightarrow> string \<Rightarrow> bool \<Rightarrow> service" where
  "implicit_service c r st = \<lparr>caller = c, reply = r, events = [], stream = st, stream_message = None\<rparr>"

text \<open>What the second loop does for one message that is not an event: nothing, a service, an error.\<close>

definition service_for_message ::
  "string set \<Rightarrow> (string \<rightharpoonup> service) \<Rightarrow> string \<Rightarrow> api_error + service option" where
  "service_for_message names by_caller m =
     (case strip_suffix ''_reply'' m of
        Some base \<Rightarrow>
          (if by_caller base \<noteq> None then Inr None
           else if base \<notin> names then Inl (MissingCallerMessageForReply base m)
           else Inr None)
      | None \<Rightarrow>
     (case strip_suffix ''_dump'' m of
        Some base \<Rightarrow>
          (if by_caller m \<noteq> None then Inr None
           else let details_message = base @ ''_details'' in
             if details_message \<in> names then Inr (Some (implicit_service m details_message True))
             else Inl (MissingDetailsMessageForDump details_message m))
      | None \<Rightarrow>
     (case strip_suffix ''_details'' m of
        Some base \<Rightarrow>
          (let get_message = base @ ''_get'' in
           if get_message \<in> names then
             (if by_caller get_message \<noteq> None then Inr None
              else Inl (ExplicitGetServiceRequiredDetails get_message m))
           else let dump_message = base @ ''_dump'' in
             if dump_message \<in> names then Inr None
             else Inl (MissingDumpGetForDetailsMessage get_message dump_message m))
      | None \<Rightarrow>
          (if by_caller m \<noteq> None then Inr None
           else let reply_message = m @ ''_reply'' in
             if reply_message \<in> names then Inr (Some (implicit_service m reply_message False))
             else Inl (MissingReplyMessageForMessage m reply_message)))))"

fun implicit_services ::
  "string set \<Rightarrow> (string \<rightharpoonup> service) \<Rightarrow> string set \<Rightarrow> string list \<Rightarrow> service list \<Rightarrow> api_error + service list" where
  "implicit_services names by_caller seen [] ss = Inr ss"
| "implicit_services names by_caller seen (m # ms) ss =
     (if m \<in> seen then implicit_services names by_caller seen ms ss
      else case service_for_message names by_caller m of
          Inl e \<Rightarrow> Inl e
        | Inr None \<Rightarrow> implicit_services names by_caller seen ms ss
        | Inr (Some s) \<Rightarrow> implicit_services names by_caller seen ms (ss @ [s]))"

definition process_services :: "string list \<Rightarrow> nat \<Rightarrow> 'h api_parser \<Rightarrow> api_error + 'h api_parser" where
  "process_services order crc P =
     (let names = set (map msg_name (p_messages P));
          by_caller = service_by_caller (p_services P);
          by_reply = service_by_reply (p_services P)
      in case check_services names by_caller by_reply order {} of
           Inl e \<Rightarrow> Inl e
         | Inr seen \<Rightarrow>
             (case implicit_services names by_caller seen (map msg_name (p_messages P)) (p_services P) of
                Inl e \<Rightarrow> Inl e
              | Inr ss \<Rightarrow> Inr (P\<lparr>p_services := ss, p_file_crc := crc\<rparr>)))"

text \<open>\<open>ApiParser::new\<close>; \<open>order\<close> picks the iteration order of the map of services.\<close>

definition api_parser_new ::
  "'h hasher \<Rightarrow> (string \<Rightarrow> api_error + statement list) \<Rightarrow> (service list \<Rightarrow> string list) \<Rightarrow> string
    \<Rightarrow> (api_error + 'h api_parser) option" where
  "api_parser_new H parse order filename =
     (case parse filename of
        Inl e \<Rightarrow> Some (Inl e)
      | Inr stmts \<Rightarrow>
          res_bind (do_imports H parse stmts empty_parser) (\<lambda>P1.
          res_bind (process_statements H None stmts P1) (\<lambda>(crc, P2).
            Some (process_services (order (p_services P2)) crc P2))))"

end
