(* ===== verification/Api_Grammar.thy ===== *)
theory Api_Grammar
  imports Api_Parser
begin

text \<open>
  The grammar of API files, the \<open>peg::parser!\<close> block of \<open>vpp-plugin-api-gen/src/parser.rs\<close>.  A rule
  is a function from the input to its value and the rest of the input, or \<open>None\<close> when it does not
  match; choice is ordered and repetition is greedy, as in a PEG.
\<close>

section \<open>Combinators\<close>

type_synonym 'a rule = "string \<Rightarrow> ('a \<times> string) option"

definition lit :: "string \<Rightarrow> unit rule" where
  "lit p s = map_option (Pair ()) (strip_prefix p s)"

definition sat :: "(char \<Rightarrow> bool) \<Rightarrow> char rule" where
  "sat P s = (case s of [] \<Rightarrow> None | c # cs \<Rightarrow> if P c then Some (c, cs) else None)"

definition orelse :: "'a rule \<Rightarrow> 'a rule \<Rightarrow> 'a rule" where
  "orelse p q s = (case p s of None \<Rightarrow> q s | Some r \<Rightarrow> Some r)"

text \<open>
  Greedy repetition.  A match that consumes nothing would repeat for ever; the interpretations of
  \<open>consuming\<close> below show that no repeated rule of the grammar has one.
\<close>

function many :: "'a rule \<Rightarrow> string \<Rightarrow> 'a list \<times> string" where
  "many p s = (case p s of
      None \<Rightarrow> ([], s)
    | Some (x, s') \<Rightarrow> if length s' < length s then (let (xs, s'') = many p s' in (x # xs, s'')) else ([], s))"
  by pat_completeness auto
termination
  by (relation "measure (\<lambda>(p, s). length s)") auto

declare many.simps [simp del]

definition many0 :: "'a rule \<Rightarrow> 'a list rule" where
  "many0 p s = Some (many p s)"

definition many1 :: "'a rule \<Rightarrow> 'a list rule" where
  "many1 p s = (case many p s of ([], _) \<Rightarrow> None | (xs, s') \<Rightarrow> Some (xs, s'))"

text \<open>\<open>p ++ sep\<close>.\<close>

definition sep_by1 :: "'a rule \<Rightarrow> unit rule \<Rightarrow> 'a list rule" where
  "sep_by1 p sep s = do {
     (x, s) \<leftarrow> p s;
     (xs, s) \<leftarrow> many0 (\<lambda>s. do { (_, s) \<leftarrow> sep s; p s }) s;
     Some (x # xs, s)
   }"

section \<open>Lexical rules\<close>

definition is_space :: "char \<Rightarrow> bool" where
  "is_space c \<longleftrightarrow> c = CHR '' '' \<or> c = CHR 0x09 \<or> c = CHR 0x0A \<or> c = CHR 0x0D"

definition is_ident_start :: "char \<Rightarrow> bool" where
  "is_ident_start c \<longleftrightarrow> (let n = of_char c :: nat in 97 \<le> n \<and> n \<le> 122 \<or> 65 \<le> n \<and> n \<le> 90 \<or> n = 95)"

definition is_ident_char :: "char \<Rightarrow> bool" where
  "is_ident_char c \<longleftrightarrow> is_ident_start c \<or> is_digit c"

text \<open>\<open>___\<close>: optional white space without comments.\<close>

definition r_space :: "unit rule" where
  "r_space s = Some ((), dropWhile is_space s)"

text \<open>The body of \<open>/* ... */\<close>, up to and including the first \<open>*/\<close>.\<close>

fun r_comment_body :: "string rule" where
  "r_comment_body [] = None"
| "r_comment_body (c # s) =
     (case strip_prefix ''*/'' (c # s) of
        Some rest \<Rightarrow> Some (''*/'', rest)
      | None \<Rightarrow> map_option (\<lambda>(t, rest). (c # t, rest)) (r_comment_body s))"

definition r_block_comment :: "string rule" where
  "r_block_comment s = do {
     (_, s) \<leftarrow> r_space s;
     (_, s) \<leftarrow> lit ''/*'' s;
     (c, s) \<leftarrow> r_comment_body s;
     Some (''/*'' @ c, s)
   }"

definition r_line_comment :: "string rule" where
  "r_line_comment s = do {
     (_, s) \<leftarrow> r_space s;
     (_, s) \<leftarrow> lit ''//'' s;
     (c, s) \<leftarrow> many0 (sat (\<lambda>c. c \<noteq> CHR 0x0A)) s;
     Some (''/*'' @ c @ '' */'', s)
   }"

definition r_comment :: "string rule" where
  "r_comment = orelse r_block_comment r_line_comment"

definition r_ws_item :: "unit rule" where
  "r_ws_item = orelse (\<lambda>s. map_option (\<lambda>(_, r). ((), r)) (sat is_space s)) (\<lambda>s. map_option (\<lambda>(_, r). ((), r)) (r_comment s))"

text \<open>\<open>__\<close> and \<open>_\<close>: white space and comments, at least one or any number.\<close>

definition r_ws1 :: "unit rule" where
  "r_ws1 s = map_option (\<lambda>(_, r). ((), r)) (many1 r_ws_item s)"

definition r_ws :: "unit rule" where
  "r_ws s = Some ((), snd (many r_ws_item s))"

text \<open>A literal after optional white space, the shape most sequences of the grammar are made of.\<close>

definition r_tok :: "string \<Rightarrow> unit rule" where
  "r_tok t s = do { (_, s) \<leftarrow> r_ws s; lit t s }"

definition r_identifier :: "string rule" where
  "r_identifier s = do {
     (c, s) \<leftarrow> sat is_ident_start s;
     (cs, s) \<leftarrow> many0 (sat is_ident_char) s;
     Some (c # cs, s)
   }"

definition r_ws_identifier :: "string rule" where
  "r_ws_identifier s = do { (_, s) \<leftarrow> r_ws s; r_identifier s }"

definition r_hex_number :: "nat rule" where
  "r_hex_number s = do {
     (_, s) \<leftarrow> lit ''0x'' s;
     (ds, s) \<leftarrow> many1 (sat is_hex_digit) s;
     n \<leftarrow> parse_u32 16 ds;
     Some (n, s)
   }"

definition r_dec_number :: "nat rule" where
  "r_dec_number s = do {
     (ds, s) \<leftarrow> many1 (sat is_digit) s;
     n \<leftarrow> parse_u32 10 ds;
     Some (n, s)
   }"

definition r_number :: "nat rule" where
  "r_number = orelse r_hex_number r_dec_number"

definition r_string_item :: "string rule" where
  "r_string_item = orelse (\<lambda>s. map_option (\<lambda>(_, r). ([CHR 0x5C, CHR 0x22], r)) (lit [CHR 0x5C, CHR 0x22] s))
     (\<lambda>s. map_option (\<lambda>(c, r). ([c], r)) (sat (\<lambda>c. c \<noteq> CHR 0x22) s))"

definition r_string_literal :: "string rule" where
  "r_string_literal s = do {
     (_, s) \<leftarrow> lit [CHR 0x22] s;
     (xs, s) \<leftarrow> many0 r_string_item s;
     (_, s) \<leftarrow> lit [CHR 0x22] s;
     Some (concat xs, s)
   }"

section \<open>Options and declarations\<close>

definition r_option_value :: "string rule" where
  "r_option_value = orelse (\<lambda>s. map_option (\<lambda>(_, r). (''true'', r)) (lit ''true'' s))
     (orelse (\<lambda>s. map_option (\<lambda>(_, r). (''false'', r)) (lit ''false'' s)) r_string_literal)"

definition r_option_flag :: "option_statement rule" where
  "r_option_flag s = do {
     (_, s) \<leftarrow> r_tok ''option'' s; (_, s) \<leftarrow> r_ws1 s; (x, s) \<leftarrow> r_identifier s; (_, s) \<leftarrow> r_tok '';'' s;
     Some (\<lparr>os_option = x, os_value = None\<rparr>, s)
   }"

definition r_option_assign :: "option_statement rule" where
  "r_option_assign s = do {
     (_, s) \<leftarrow> r_tok ''option'' s; (_, s) \<leftarrow> r_ws1 s; (x, s) \<leftarrow> r_identifier s; (_, s) \<leftarrow> r_tok ''='' s;
     (_, s) \<leftarrow> r_ws s; (v, s) \<leftarrow> r_option_value s; (_, s) \<leftarrow> r_tok '';'' s;
     Some (\<lparr>os_option = x, os_value = Some v\<rparr>, s)
   }"

definition r_option :: "option_statement rule" where
  "r_option = orelse r_option_flag r_option_assign"

definition r_field_option :: "option_statement rule" where
  "r_field_option s = do {
     (x, s) \<leftarrow> r_ws_identifier s; (_, s) \<leftarrow> r_tok ''='' s; (_, s) \<leftarrow> r_ws s; (v, s) \<leftarrow> r_option_value s;
     Some (\<lparr>os_option = x, os_value = Some v\<rparr>, s)
   }"

definition r_field_options :: "option_statement list rule" where
  "r_field_options = sep_by1 r_field_option (lit '','')"

text \<open>The beginning the five alternatives of \<open>declaration\<close> share: type and name.\<close>

definition r_type_name :: "(string \<times> string) rule" where
  "r_type_name s = do {
     (t, s) \<leftarrow> r_ws_identifier s; (_, s) \<leftarrow> r_ws1 s; (n, s) \<leftarrow> r_identifier s;
     Some ((t, n), s)
   }"

definition r_decl_plain :: "field rule" where
  "r_decl_plain s = do {
     ((t, n), s) \<leftarrow> r_type_name s; (_, s) \<leftarrow> r_tok '';'' s;
     Some (\<lparr>f_type = t, f_name = n, f_options = [], f_size = None\<rparr>, s)
   }"

definition r_decl_options :: "field rule" where
  "r_decl_options s = do {
     ((t, n), s) \<leftarrow> r_type_name s; (_, s) \<leftarrow> r_tok ''['' s; (_, s) \<leftarrow> r_ws s;
     (opts, s) \<leftarrow> r_field_options s; (_, s) \<leftarrow> r_tok '']'' s; (_, s) \<leftarrow> r_tok '';'' s;
     Some (\<lparr>f_type = t, f_name = n, f_options = opts, f_size = None\<rparr>, s)
   }"

definition r_decl_open :: "field rule" where
  "r_decl_open s = do {
     ((t, n), s) \<leftarrow> r_type_name s; (_, s) \<leftarrow> r_tok ''['' s; (_, s) \<leftarrow> r_tok '']'' s; (_, s) \<leftarrow> r_tok '';'' s;
     Some (\<lparr>f_type = t, f_name = n, f_options = [], f_size = Some (Variable None)\<rparr>, s)
   }"

definition r_decl_fixed :: "field rule" where
  "r_decl_fixed s = do {
     ((t, n), s) \<leftarrow> r_type_name s; (_, s) \<leftarrow> r_tok ''['' s; (_, s) \<leftarrow> r_ws s;
     (k, s) \<leftarrow> r_number s; (_, s) \<leftarrow> r_tok '']'' s; (_, s) \<leftarrow> r_tok '';'' s;
     Some (\<lparr>f_type = t, f_name = n, f_options = [], f_size = Some (Fixed k)\<rparr>, s)
   }"

definition r_decl_vla :: "field rule" where
  "r_decl_vla s = do {
     ((t, n), s) \<leftarrow> r_type_name s; (_, s) \<leftarrow> r_tok ''['' s;
     (v, s) \<leftarrow> r_ws_identifier s; (_, s) \<leftarrow> r_tok '']'' s; (_, s) \<leftarrow> r_tok '';'' s;
     Some (\<lparr>f_type = t, f_name = n, f_options = [], f_size = Some (Variable (Some v))\<rparr>, s)
   }"

definition r_declaration :: "field rule" where
  "r_declaration = orelse r_decl_plain (orelse r_decl_options (orelse r_decl_open (orelse r_decl_fixed r_decl_vla)))"

definition r_block_statement :: "block_statement rule" where
  "r_block_statement = orelse (\<lambda>s. map_option (\<lambda>(x, r). (Block_option x, r)) (r_option s))
     (\<lambda>s. map_option (\<lambda>(d, r). (Declaration d, r)) (r_declaration s))"

definition r_block_statements :: "block_statement list rule" where
  "r_block_statements = many1 r_block_statement"

text \<open>\<open>_ "{" b:block_statements() _ "}" _ ";"\<close>, the body of defines, typedefs and unions.\<close>

definition r_block :: "block_statement list rule" where
  "r_block s = do {
     (_, s) \<leftarrow> r_tok ''{'' s; (b, s) \<leftarrow> r_block_statements s; (_, s) \<leftarrow> r_tok ''}'' s; (_, s) \<leftarrow> r_tok '';'' s;
     Some (b, s)
   }"

definition r_keyword_name :: "string \<Rightarrow> string rule" where
  "r_keyword_name kw s = do { (_, s) \<leftarrow> lit kw s; (_, s) \<leftarrow> r_ws1 s; r_identifier s }"

section \<open>Statements\<close>

definition r_flag :: "flag rule" where
  "r_flag s =
     (let alt = (\<lambda>name f s. map_option (\<lambda>(_, r). (f, r)) (r_tok name s))
      in orelse (alt ''manual_print'' ManualPrint) (orelse (alt ''manual_endian'' ManualEndian)
        (orelse (alt ''dont_trace'' DontTrace) (orelse (alt ''autoendian'' AutoEndian)
        (orelse (alt ''autoreply'' AutoReply) (alt ''indexreply'' IndexReply))))) s)"

definition r_flag_list :: "flag list rule" where
  "r_flag_list = many1 r_flag"

definition r_define_comment :: "statement rule" where
  "r_define_comment s = do {
     (c, s) \<leftarrow> r_comment s; (_, s) \<leftarrow> r_space s; (name, s) \<leftarrow> r_keyword_name ''define'' s; (b, s) \<leftarrow> r_block s;
     Some (st_define name b [] (Some c), s)
   }"

definition r_define_comment_flags :: "statement rule" where
  "r_define_comment_flags s = do {
     (c, s) \<leftarrow> r_comment s; (f, s) \<leftarrow> r_flag_list s; (_, s) \<leftarrow> r_ws s;
     (name, s) \<leftarrow> r_keyword_name ''define'' s; (b, s) \<leftarrow> r_block s;
     Some (st_define name b f (Some c), s)
   }"

definition r_define_plain :: "statement rule" where
  "r_define_plain s = do {
     (_, s) \<leftarrow> r_ws s; (name, s) \<leftarrow> r_keyword_name ''define'' s; (b, s) \<leftarrow> r_block s;
     Some (st_define name b [] None, s)
   }"

definition r_define_flags :: "statement rule" where
  "r_define_flags s = do {
     (f, s) \<leftarrow> r_flag_list s; (_, s) \<leftarrow> r_ws s; (name, s) \<leftarrow> r_keyword_name ''define'' s; (b, s) \<leftarrow> r_block s;
     Some (st_define name b f None, s)
   }"

definition r_define :: "statement rule" where
  "r_define = orelse r_define_comment (orelse r_define_comment_flags (orelse r_define_plain r_define_flags))"

definition r_typedef :: "statement rule" where
  "r_typedef =
     orelse (\<lambda>s. do { (f, s) \<leftarrow> r_flag_list s; (_, s) \<leftarrow> r_ws s; (name, s) \<leftarrow> r_keyword_name ''typedef'' s;
                      (b, s) \<leftarrow> r_block s; Some (st_typedef_block name b f, s) })
    (orelse (\<lambda>s. do { (_, s) \<leftarrow> r_ws s; (name, s) \<leftarrow> r_keyword_name ''typedef'' s;
                      (b, s) \<leftarrow> r_block s; Some (st_typedef_block name b [], s) })
    (orelse (\<lambda>s. do { (f, s) \<leftarrow> r_flag_list s; (_, s) \<leftarrow> r_tok ''typedef'' s; (_, s) \<leftarrow> r_ws1 s;
                      (d, s) \<leftarrow> r_declaration s; Some (st_typedef d f, s) })
            (\<lambda>s. do { (_, s) \<leftarrow> r_tok ''typedef'' s; (_, s) \<leftarrow> r_ws1 s;
                      (d, s) \<leftarrow> r_declaration s; Some (st_typedef d [], s) })))"

definition r_import :: "statement rule" where
  "r_import s = do {
     (_, s) \<leftarrow> r_tok ''import'' s; (_, s) \<leftarrow> r_ws s; (i, s) \<leftarrow> r_string_literal s; (_, s) \<leftarrow> r_tok '';'' s;
     Some (Import i, s)
   }"

definition r_one_of :: "string list \<Rightarrow> string rule" where
  "r_one_of ts s = (case List.map_filter (\<lambda>t. map_option (\<lambda>(_, r). (t, r)) (lit t s)) ts of
      [] \<Rightarrow> None | r # _ \<Rightarrow> Some r)"

definition r_enum_size :: "string rule" where
  "r_enum_size = r_one_of [''u8'', ''u16'', ''u32'', ''i8'', ''i16'', ''i32'']"

definition r_enumflag_size :: "string rule" where
  "r_enumflag_size = r_one_of [''u8'', ''u16'', ''u32'']"

definition r_enum_value :: "nat rule" where
  "r_enum_value s = do { (_, s) \<leftarrow> r_tok ''='' s; (_, s) \<leftarrow> r_ws s; r_number s }"

definition r_enum_options :: "option_statement list rule" where
  "r_enum_options s = do { (_, s) \<leftarrow> r_tok ''['' s; (opts, s) \<leftarrow> r_field_options s; (_, s) \<leftarrow> r_tok '']'' s; Some (opts, s) }"

definition r_enum_statement :: "enum_statement rule" where
  "r_enum_statement =
     orelse (\<lambda>s. do { (i, s) \<leftarrow> r_ws_identifier s; (_, s) \<leftarrow> r_tok '','' s; Some (Variant i None [], s) })
    (orelse (\<lambda>s. do { (i, s) \<leftarrow> r_ws_identifier s; (v, s) \<leftarrow> r_enum_value s; (_, s) \<leftarrow> r_tok '','' s;
                      Some (Variant i (Some v) [], s) })
    (orelse (\<lambda>s. do { (i, s) \<leftarrow> r_ws_identifier s; (opts, s) \<leftarrow> r_enum_options s; (_, s) \<leftarrow> r_tok '','' s;
                      Some (Variant i None opts, s) })
            (\<lambda>s. do { (i, s) \<leftarrow> r_ws_identifier s; (v, s) \<leftarrow> r_enum_value s; (opts, s) \<leftarrow> r_enum_options s;
                      (_, s) \<leftarrow> r_tok '','' s; Some (Variant i (Some v) opts, s) })))"

definition r_enum_statements :: "enum_statement list rule" where
  "r_enum_statements = many1 r_enum_statement"

definition r_enum_block :: "enum_statement list rule" where
  "r_enum_block s = do {
     (_, s) \<leftarrow> r_tok ''{'' s; (b, s) \<leftarrow> r_enum_statements s; (_, s) \<leftarrow> r_tok ''}'' s; (_, s) \<leftarrow> r_tok '';'' s;
     Some (b, s)
   }"

definition r_sized_enum ::
  "string \<Rightarrow> string rule \<Rightarrow> (string \<Rightarrow> string \<Rightarrow> enum_statement list \<Rightarrow> statement) \<Rightarrow> statement rule" where
  "r_sized_enum kw r_size mk =
     orelse (\<lambda>s. do { (_, s) \<leftarrow> r_ws s; (name, s) \<leftarrow> r_keyword_name kw s; (b, s) \<leftarrow> r_enum_block s; Some (mk name ''u32'' b, s) })
            (\<lambda>s. do { (_, s) \<leftarrow> r_ws s; (name, s) \<leftarrow> r_keyword_name kw s; (_, s) \<leftarrow> r_tok '':'' s; (_, s) \<leftarrow> r_ws s;
                      (sz, s) \<leftarrow> r_size s; (b, s) \<leftarrow> r_enum_block s; Some (mk name sz b, s) })"

definition r_enum :: "statement rule" where
  "r_enum = r_sized_enum ''enum'' r_enum_size Enum"

definition r_enumflag :: "statement rule" where
  "r_enumflag = r_sized_enum ''enumflag'' r_enumflag_size EnumFlag"

definition r_union :: "statement rule" where
  "r_union =
     orelse (\<lambda>s. do { (c, s) \<leftarrow> r_comment s; (_, s) \<leftarrow> r_space s; (name, s) \<leftarrow> r_keyword_name ''union'' s;
                      (b, s) \<leftarrow> r_block s; Some (st_union name b (Some c), s) })
            (\<lambda>s. do { (_, s) \<leftarrow> r_ws s; (name, s) \<leftarrow> r_keyword_name ''union'' s;
                      (b, s) \<leftarrow> r_block s; Some (st_union name b None, s) })"

section \<open>Services\<close>

definition r_rpc :: "string rule" where
  "r_rpc s = do { (_, s) \<leftarrow> r_tok ''rpc'' s; (c, s) \<leftarrow> r_ws_identifier s; (_, s) \<leftarrow> r_tok ''returns'' s; Some (c, s) }"

definition r_event_list :: "string list rule" where
  "r_event_list = many1 r_ws_identifier"

definition r_service_statement :: "service rule" where
  "r_service_statement =
     orelse (\<lambda>s. do { (c, s) \<leftarrow> r_rpc s; (r, s) \<leftarrow> r_ws_identifier s; (_, s) \<leftarrow> r_tok '';'' s;
                      Some (\<lparr>caller = c, reply = r, events = [], stream = False, stream_message = None\<rparr>, s) })
    (orelse (\<lambda>s. do { (c, s) \<leftarrow> r_rpc s; (_, s) \<leftarrow> r_tok ''stream'' s; (r, s) \<leftarrow> r_ws_identifier s; (_, s) \<leftarrow> r_tok '';'' s;
                      Some (\<lparr>caller = c, reply = r, events = [], stream = True, stream_message = None\<rparr>, s) })
    (orelse (\<lambda>s. do { (c, s) \<leftarrow> r_rpc s; (r, s) \<leftarrow> r_ws_identifier s; (_, s) \<leftarrow> r_tok ''stream'' s;
                      (m, s) \<leftarrow> r_ws_identifier s; (_, s) \<leftarrow> r_tok '';'' s;
                      Some (\<lparr>caller = c, reply = r, events = [], stream = True, stream_message = Some m\<rparr>, s) })
            (\<lambda>s. do { (c, s) \<leftarrow> r_rpc s; (r, s) \<leftarrow> r_ws_identifier s; (_, s) \<leftarrow> r_tok ''events'' s;
                      (es, s) \<leftarrow> r_event_list s; (_, s) \<leftarrow> r_tok '';'' s;
                      Some (\<lparr>caller = c, reply = r, events = es, stream = False, stream_message = None\<rparr>, s) })))"

definition r_service :: "statement rule" where
  "r_service s = do {
     (_, s) \<leftarrow> r_tok ''service'' s; (_, s) \<leftarrow> r_tok ''{'' s; (ss, s) \<leftarrow> many1 r_service_statement s;
     (_, s) \<leftarrow> r_tok ''}'' s; (_, s) \<leftarrow> r_tok '';'' s;
     Some (Service_stmt ss, s)
   }"

section \<open>Files\<close>

definition r_statement :: "statement rule" where
  "r_statement = orelse r_define (orelse r_typedef
     (orelse (\<lambda>s. map_option (\<lambda>(x, r). (Option_stmt x, r)) (r_option s))
     (orelse r_import (orelse r_enum (orelse r_enumflag (orelse r_union r_service))))))"

text \<open>The start rule, which has to consume the whole input.\<close>

definition statement_list :: "string \<Rightarrow> statement list option" where
  "statement_list s =
     (let (ss, s1) = many r_statement s; s2 = snd (many r_ws_item s1) in if s2 = [] then Some ss else None)"

text \<open>\<open>fs\<close> is the file system: the text of a file that can be read.\<close>

definition parse_file :: "(string \<Rightarrow> string option) \<Rightarrow> string \<Rightarrow> api_error + statement list" where
  "parse_file fs filename =
     (case fs filename of
        None \<Rightarrow> Inl (Io filename)
      | Some input \<Rightarrow> (case statement_list input of None \<Rightarrow> Inl (Parser_error filename) | Some ss \<Rightarrow> Inr ss))"

end
