(* ===== verification/Api_Rules.thy ===== *)
theory Api_Rules
  imports Api_Grammar
begin

text \<open>
  The rules of the API grammar consume input: a rule that matches never returns more than it was
  given, and every rule that is repeated returns less.  So each repetition is the greedy one of the
  PEG, without the guard of \<open>many\<close>, and ends; after it the repeated rule does not match.
\<close>

section \<open>Repetition of a consuming rule\<close>

locale consuming =
  fixes p :: "'a rule"
  assumes consumes: "p s = Some (x, s') \<Longrightarrow> length s' < length s"
begin

lemma many_unfold:
  "many p s = (case p s of None \<Rightarrow> ([], s) | Some (x, s') \<Rightarrow> (x # fst (many p s'), snd (many p s')))"
  by (subst many.simps) (auto simp: Let_def case_prod_beta dest: consumes split: option.split)

lemma many_shrinks: "length (snd (many p s)) \<le> length s"
proof (induction s rule: length_induct)
  case (1 s)
  show ?case
  proof (cases "p s")
    case (Some r)
    then obtain x s' where r: "p s = Some (x, s')" by (cases r) auto
    from consumes[OF this] 1 have "length (snd (many p s')) \<le> length s'" "length s' < length s" by auto
    then show ?thesis by (subst many_unfold) (simp add: r)
  qed (subst many_unfold, simp)
qed

lemma many_stops: "p (snd (many p s)) = None"
proof (induction s rule: length_induct)
  case (1 s)
  show ?case
  proof (cases "p s")
    case (Some r)
    then obtain x s' where r: "p s = Some (x, s')" by (cases r) auto
    from consumes[OF this] 1 have "p (snd (many p s')) = None" by blast
    then show ?thesis by (subst many_unfold) (simp add: r)
  qed (subst many_unfold, simp)
qed

lemma many_None: "p s = None \<Longrightarrow> many p s = ([], s)"
  by (subst many_unfold) simp

lemma many_Some: "p s = Some (x, s') \<Longrightarrow> many p s = (x # fst (many p s'), snd (many p s'))"
  by (subst many_unfold) simp

lemma many0_shrinks: "many0 p s = Some (xs, s') \<Longrightarrow> length s' \<le> length s"
  using many_shrinks[of s] by (simp add: many0_def)

lemma many1_consumes: "many1 p s = Some (xs, s') \<Longrightarrow> length s' < length s"
proof -
  assume m: "many1 p s = Some (xs, s')"
  then obtain x s1 where 1: "p s = Some (x, s1)"
    by (cases "p s") (auto simp: many1_def many_None)
  with m have "s' = snd (many p s1)" by (simp add: many1_def many_Some)
  with many_shrinks[of s1] consumes[OF 1] show ?thesis by simp
qed

text \<open>Parsing a printed list, item by item: \<open>pr\<close> prints an item and \<open>good\<close> says what may follow.\<close>

lemma many_prints:
  assumes item: "\<And>x rest. x \<in> set xs \<Longrightarrow> p (pr x @ rest) = Some (x, rest)" and stop: "p rest = None"
  shows "many p (concat (map pr xs) @ rest) = (xs, rest)"
  using item by (induction xs) (simp_all add: many_None[OF stop] many_Some)

end

section \<open>The rules\<close>

named_theorems shrink

lemma lit_shrink [shrink]: "lit t s = Some (x, s') \<Longrightarrow> length s' + length t \<le> length s"
  by (auto simp: lit_def strip_prefix_Some)

lemma sat_consume [shrink]: "sat P s = Some (x, s') \<Longrightarrow> length s' < length s"
  by (auto simp: sat_def split: list.splits if_splits)

interpretation chars: consuming "sat P" for P
  by unfold_locales (rule sat_consume)

lemmas [shrink] = chars.many0_shrinks chars.many1_consumes

lemma orelse_Some: "orelse p q s = Some r \<Longrightarrow> p s = Some r \<or> q s = Some r"
  by (auto simp: orelse_def split: option.splits)

lemma bind_SomeE:
  assumes "Option.bind m f = Some r" obtains x where "m = Some x" "f x = Some r"
  using assms by (cases m) auto

lemma r_space_shrink [shrink]: "r_space s = Some (x, s') \<Longrightarrow> length s' \<le> length s"
  by (auto simp: r_space_def length_dropWhile_le)

lemma r_comment_body_shrink [shrink]: "r_comment_body s = Some (x, s') \<Longrightarrow> length s' < length s"
  by (induction s arbitrary: x) (auto simp del: strip_prefix.simps split: option.splits dest: arg_cong[of "_ # _" _ length])

lemma r_block_comment_shrink [shrink]: "r_block_comment s = Some (x, s') \<Longrightarrow> length s' < length s"
  unfolding r_block_comment_def by (auto elim!: bind_SomeE dest!: shrink)

lemma r_line_comment_shrink [shrink]: "r_line_comment s = Some (x, s') \<Longrightarrow> length s' < length s"
  unfolding r_line_comment_def by (auto elim!: bind_SomeE dest!: shrink)

lemma r_comment_shrink [shrink]: "r_comment s = Some (x, s') \<Longrightarrow> length s' < length s"
  unfolding r_comment_def by (auto dest!: orelse_Some shrink)

lemma r_ws_item_shrink [shrink]: "r_ws_item s = Some (x, s') \<Longrightarrow> length s' < length s"
  unfolding r_ws_item_def by (auto dest!: orelse_Some shrink)

interpretation ws: consuming r_ws_item
  by unfold_locales (rule r_ws_item_shrink)

lemma r_ws1_shrink [shrink]: "r_ws1 s = Some (x, s') \<Longrightarrow> length s' < length s"
  by (auto simp: r_ws1_def dest: ws.many1_consumes)

lemma r_ws_shrink [shrink]: "r_ws s = Some (x, s') \<Longrightarrow> length s' \<le> length s"
  using ws.many_shrinks[of s] by (simp add: r_ws_def)

lemma r_tok_shrink [shrink]: "r_tok t s = Some (x, s') \<Longrightarrow> length s' + length t \<le> length s"
  unfolding r_tok_def by (auto elim!: bind_SomeE dest!: shrink)

lemma r_identifier_shrink [shrink]: "r_identifier s = Some (x, s') \<Longrightarrow> length s' < length s"
  unfolding r_identifier_def by (auto elim!: bind_SomeE dest!: shrink)

lemma r_ws_identifier_shrink [shrink]: "r_ws_identifier s = Some (x, s') \<Longrightarrow> length s' < length s"
  unfolding r_ws_identifier_def by (auto elim!: bind_SomeE dest!: shrink)

interpretation idents: consuming r_ws_identifier
  by unfold_locales (rule r_ws_identifier_shrink)

lemma r_number_shrink [shrink]: "r_number s = Some (x, s') \<Longrightarrow> length s' < length s"
  unfolding r_number_def r_hex_number_def r_dec_number_def
  by (auto elim!: bind_SomeE dest!: orelse_Some shrink)

lemma r_string_item_shrink [shrink]: "r_string_item s = Some (x, s') \<Longrightarrow> length s' < length s"
  unfolding r_string_item_def by (auto dest!: orelse_Some shrink)

interpretation string_items: consuming r_string_item
  by unfold_locales (rule r_string_item_shrink)

lemmas [shrink] = string_items.many0_shrinks

lemma r_string_literal_shrink [shrink]: "r_string_literal s = Some (x, s') \<Longrightarrow> length s' < length s"
  unfolding r_string_literal_def by (auto elim!: bind_SomeE dest!: shrink)

lemma r_option_value_shrink [shrink]: "r_option_value s = Some (x, s') \<Longrightarrow> length s' < length s"
  unfolding r_option_value_def by (auto dest!: orelse_Some shrink)

lemma r_option_shrink [shrink]: "r_option s = Some (x, s') \<Longrightarrow> length s' < length s"
  unfolding r_option_def r_option_flag_def r_option_assign_def
  by (auto elim!: bind_SomeE dest!: orelse_Some shrink)

lemma r_field_option_shrink [shrink]: "r_field_option s = Some (x, s') \<Longrightarrow> length s' < length s"
  unfolding r_field_option_def by (auto elim!: bind_SomeE dest!: shrink)

interpretation more_field_options: consuming "\<lambda>s. do { (_, s) \<leftarrow> lit '','' s; r_field_option s }"
  by unfold_locales (auto elim!: bind_SomeE dest!: shrink)

lemma r_field_options_shrink [shrink]: "r_field_options s = Some (x, s') \<Longrightarrow> length s' < length s"
  unfolding r_field_options_def sep_by1_def
  by (auto elim!: bind_SomeE dest!: shrink more_field_options.many0_shrinks)

lemma r_type_name_shrink [shrink]: "r_type_name s = Some (x, s') \<Longrightarrow> length s' < length s"
  unfolding r_type_name_def by (auto elim!: bind_SomeE dest!: shrink)

lemma r_decl_shrink [shrink]:
  "r_decl_plain s = Some (x, s') \<Longrightarrow> length s' < length s"
  "r_decl_options s = Some (x, s') \<Longrightarrow> length s' < length s"
  "r_decl_open s = Some (x, s') \<Longrightarrow> length s' < length s"
  "r_decl_fixed s = Some (x, s') \<Longrightarrow> length s' < length s"
  "r_decl_vla s = Some (x, s') \<Longrightarrow> length s' < length s"
  unfolding r_decl_plain_def r_decl_options_def r_decl_open_def r_decl_fixed_def r_decl_vla_def
  by (auto elim!: bind_SomeE dest!: shrink)

lemma r_declaration_shrink [shrink]: "r_declaration s = Some (x, s') \<Longrightarrow> length s' < length s"
  unfolding r_declaration_def by (auto dest!: orelse_Some shrink)

lemma r_block_statement_shrink [shrink]: "r_block_statement s = Some (x, s') \<Longrightarrow> length s' < length s"
  unfolding r_block_statement_def by (auto dest!: orelse_Some shrink)

interpretation block_items: consuming r_block_statement
  by unfold_locales (rule r_block_statement_shrink)

lemma r_block_shrink [shrink]: "r_block s = Some (x, s') \<Longrightarrow> length s' < length s"
  unfolding r_block_def r_block_statements_def
  by (auto elim!: bind_SomeE dest!: shrink block_items.many1_consumes)

lemma r_keyword_name_shrink [shrink]: "r_keyword_name t s = Some (x, s') \<Longrightarrow> length s' < length s"
  unfolding r_keyword_name_def by (auto elim!: bind_SomeE dest!: shrink)

lemma r_flag_shrink [shrink]: "r_flag s = Some (x, s') \<Longrightarrow> length s' < length s"
  unfolding r_flag_def Let_def by (auto dest!: orelse_Some shrink)

interpretation flags: consuming r_flag
  by unfold_locales (rule r_flag_shrink)

lemma r_flag_list_shrink [shrink]: "r_flag_list s = Some (x, s') \<Longrightarrow> length s' < length s"
  unfolding r_flag_list_def by (rule flags.many1_consumes)

lemma r_define_shrink [shrink]: "r_define s = Some (x, s') \<Longrightarrow> length s' < length s"
  unfolding r_define_def r_define_comment_def r_define_comment_flags_def r_define_plain_def r_define_flags_def
  by (auto elim!: bind_SomeE dest!: orelse_Some shrink)

lemma r_typedef_shrink [shrink]: "r_typedef s = Some (x, s') \<Longrightarrow> length s' < length s"
  unfolding r_typedef_def by (auto elim!: bind_SomeE dest!: orelse_Some shrink)

lemma r_import_shrink [shrink]: "r_import s = Some (x, s') \<Longrightarrow> length s' < length s"
  unfolding r_import_def by (auto elim!: bind_SomeE dest!: shrink)

lemma r_one_of_shrink [shrink]: "r_one_of ts s = Some (x, s') \<Longrightarrow> length s' \<le> length s"
proof (induction ts)
  case (Cons t ts)
  then show ?case by (cases "lit t s") (auto simp: r_one_of_def map_filter_simps dest: lit_shrink)
qed (simp add: r_one_of_def map_filter_simps)

lemma r_enum_parts_shrink [shrink]:
  "r_enum_value s = Some (v, s') \<Longrightarrow> length s' < length s"
  "r_enum_options s = Some (x, s') \<Longrightarrow> length s' < length s"
  unfolding r_enum_value_def r_enum_options_def by (auto elim!: bind_SomeE dest!: shrink)

lemma r_enum_statement_shrink [shrink]: "r_enum_statement s = Some (x, s') \<Longrightarrow> length s' < length s"
  unfolding r_enum_statement_def by (auto elim!: bind_SomeE dest!: orelse_Some shrink)

interpretation enum_items: consuming r_enum_statement
  by unfold_locales (rule r_enum_statement_shrink)

lemma r_enum_block_shrink [shrink]: "r_enum_block s = Some (x, s') \<Longrightarrow> length s' < length s"
  unfolding r_enum_block_def r_enum_statements_def
  by (auto elim!: bind_SomeE dest!: shrink enum_items.many1_consumes)

lemma r_sized_enum_shrink:
  assumes "\<And>s x s'. r_size s = Some (x, s') \<Longrightarrow> length s' \<le> length s"
  shows "r_sized_enum kw r_size mk s = Some (x, s') \<Longrightarrow> length s' < length s"
  unfolding r_sized_enum_def by (auto elim!: bind_SomeE dest!: orelse_Some shrink assms)

lemma r_enums_shrink [shrink]:
  "r_enum s = Some (x, s') \<Longrightarrow> length s' < length s"
  "r_enumflag s = Some (x, s') \<Longrightarrow> length s' < length s"
  unfolding r_enum_def r_enumflag_def r_enum_size_def r_enumflag_size_def
  by (erule r_sized_enum_shrink[rotated], erule r_one_of_shrink)+

lemma r_union_shrink [shrink]: "r_union s = Some (x, s') \<Longrightarrow> length s' < length s"
  unfolding r_union_def by (auto elim!: bind_SomeE dest!: orelse_Some shrink)

lemma r_rpc_shrink [shrink]: "r_rpc s = Some (x, s') \<Longrightarrow> length s' < length s"
  unfolding r_rpc_def by (auto elim!: bind_SomeE dest!: shrink)

lemma r_event_list_shrink [shrink]: "r_event_list s = Some (x, s') \<Longrightarrow> length s' < length s"
  unfolding r_event_list_def by (rule idents.many1_consumes)

lemma r_service_statement_shrink [shrink]: "r_service_statement s = Some (x, s') \<Longrightarrow> length s' < length s"
  unfolding r_service_statement_def by (auto elim!: bind_SomeE dest!: orelse_Some shrink)

interpretation service_items: consuming r_service_statement
  by unfold_locales (rule r_service_statement_shrink)

lemma r_service_shrink [shrink]: "r_service s = Some (x, s') \<Longrightarrow> length s' < length s"
  unfolding r_service_def by (auto elim!: bind_SomeE dest!: shrink service_items.many1_consumes)

lemma r_statement_shrink: "r_statement s = Some (x, s') \<Longrightarrow> length s' < length s"
  unfolding r_statement_def by (auto dest!: orelse_Some shrink)

interpretation statements: consuming r_statement
  by unfold_locales (rule r_statement_shrink)

end
