(* ===== verification/Api_Print.thy ===== *)
theory Api_Print
  imports Api_Rules
begin

text \<open>
  A printer for API files and the proof that the grammar reads back what it prints: every
  construct the grammar has (options, fields of all five shapes, enums with values and options,
  flags, comments, the four forms of services) has a text that parses to it.
\<close>

section \<open>Well-formed syntax trees\<close>

definition ident_ok :: "string \<Rightarrow> bool" where
  "ident_ok n = (case n of [] \<Rightarrow> False | c # cs \<Rightarrow> is_ident_start c \<and> list_all is_ident_char cs)"

definition value_ok :: "string \<Rightarrow> bool" where
  "value_ok v \<longleftrightarrow> CHR 0x22 \<notin> set v \<and> CHR 0x5C \<notin> set v"

definition option_ok :: "option_statement \<Rightarrow> bool" where
  "option_ok opt \<longleftrightarrow> ident_ok (os_option opt) \<and> (case os_value opt of None \<Rightarrow> True | Some v \<Rightarrow> value_ok v)"

definition field_option_ok :: "option_statement \<Rightarrow> bool" where
  "field_option_ok opt \<longleftrightarrow> option_ok opt \<and> os_value opt \<noteq> None"

definition size_ok :: "field_size \<Rightarrow> bool" where
  "size_ok sz = (case sz of Fixed k \<Rightarrow> k \<le> U32_MAX | Variable None \<Rightarrow> True | Variable (Some v) \<Rightarrow> ident_ok v)"

text \<open>The grammar has options only on fields without a size.\<close>

definition field_ok :: "field \<Rightarrow> bool" where
  "field_ok fd \<longleftrightarrow> ident_ok (f_type fd) \<and> ident_ok (f_name fd) \<and> list_all field_option_ok (f_options fd) \<and>
     (case f_size fd of None \<Rightarrow> True | Some sz \<Rightarrow> f_options fd = [] \<and> size_ok sz)"

text \<open>A field of type \<open>option\<close> would read as an option.\<close>

definition block_ok :: "option_statement list \<Rightarrow> field list \<Rightarrow> bool" where
  "block_ok opts fds \<longleftrightarrow> list_all option_ok opts \<and> list_all (\<lambda>fd. field_ok fd \<and> f_type fd \<noteq> ''option'') fds \<and>
     \<not> (opts = [] \<and> fds = [])"

definition comment_ok :: "string \<Rightarrow> bool" where
  "comment_ok c = (case strip_prefix ''/*'' c of None \<Rightarrow> False | Some b \<Rightarrow> r_comment_body b = Some (b, []))"

definition opt_comment_ok :: "string option \<Rightarrow> bool" where
  "opt_comment_ok c = (case c of None \<Rightarrow> True | Some c \<Rightarrow> comment_ok c)"

definition enum_statement_ok :: "enum_statement \<Rightarrow> bool" where
  "enum_statement_ok e = (case e of Variant i v opts \<Rightarrow>
     ident_ok i \<and> (case v of None \<Rightarrow> True | Some n \<Rightarrow> n \<le> U32_MAX) \<and> list_all field_option_ok opts)"

definition service_ok :: "service \<Rightarrow> bool" where
  "service_ok s \<longleftrightarrow> ident_ok (caller s) \<and> ident_ok (reply s) \<and> list_all ident_ok (events s) \<and>
     (case stream_message s of None \<Rightarrow> True | Some m \<Rightarrow> stream s \<and> ident_ok m) \<and> (stream s \<longrightarrow> events s = [])"

definition statement_ok :: "statement \<Rightarrow> bool" where
  "statement_ok st = (case st of
      Define n opts fds flags c \<Rightarrow> ident_ok n \<and> block_ok opts fds \<and> opt_comment_ok c
    | Option_stmt opt \<Rightarrow> option_ok opt
    | TypedefBlock n opts fds flags \<Rightarrow> ident_ok n \<and> block_ok opts fds
    | Typedef fd flags \<Rightarrow> field_ok fd
    | Enum n sz es \<Rightarrow> ident_ok n \<and> sz \<in> {''u8'', ''u16'', ''u32'', ''i8'', ''i16'', ''i32''} \<and> list_all enum_statement_ok es \<and> es \<noteq> []
    | EnumFlag n sz es \<Rightarrow> ident_ok n \<and> sz \<in> {''u8'', ''u16'', ''u32''} \<and> list_all enum_statement_ok es \<and> es \<noteq> []
    | Union_stmt n opts fds c \<Rightarrow> ident_ok n \<and> block_ok opts fds \<and> opt_comment_ok c
    | Import f \<Rightarrow> value_ok f
    | Service_stmt ss \<Rightarrow> list_all service_ok ss \<and> ss \<noteq> [])"

section \<open>The printer\<close>

definition pp_value :: "string \<Rightarrow> string" where
  "pp_value v = CHR 0x22 # v @ [CHR 0x22]"

definition pp_option :: "option_statement \<Rightarrow> string" where
  "pp_option opt = ''option '' @ os_option opt @
     (case os_value opt of None \<Rightarrow> [] | Some v \<Rightarrow> ''='' @ pp_value v) @ '';''"

definition pp_field_option :: "option_statement \<Rightarrow> string" where
  "pp_field_option opt = os_option opt @ ''='' @ (case os_value opt of None \<Rightarrow> [] | Some v \<Rightarrow> pp_value v)"

definition pp_options :: "option_statement list \<Rightarrow> string" where
  "pp_options opts = (if opts = [] then [] else ''['' @ join '','' (map pp_field_option opts) @ '']'')"

definition pp_size :: "field_size \<Rightarrow> string" where
  "pp_size sz = ''['' @ (case sz of Fixed k \<Rightarrow> show_nat k | Variable None \<Rightarrow> [] | Variable (Some v) \<Rightarrow> v) @ '']''"

definition pp_field :: "field \<Rightarrow> string" where
  "pp_field fd = f_type fd @ '' '' @ f_name fd @ pp_options (f_options fd) @
     (case f_size fd of None \<Rightarrow> [] | Some sz \<Rightarrow> pp_size sz) @ '';''"

definition pp_block :: "option_statement list \<Rightarrow> field list \<Rightarrow> string" where
  "pp_block opts fds = ''{'' @ concat (map pp_option opts) @ concat (map pp_field fds) @ ''};''"

definition flag_name :: "flag \<Rightarrow> string" where
  "flag_name f = (case f of ManualPrint \<Rightarrow> ''manual_print'' | ManualEndian \<Rightarrow> ''manual_endian'' | DontTrace \<Rightarrow> ''dont_trace''
     | AutoEndian \<Rightarrow> ''autoendian'' | AutoReply \<Rightarrow> ''autoreply'' | IndexReply \<Rightarrow> ''indexreply'')"

definition pp_flag :: "flag \<Rightarrow> string" where
  "pp_flag f = '' '' @ flag_name f"

definition pp_comment :: "string option \<Rightarrow> string" where
  "pp_comment c = (case c of None \<Rightarrow> [] | Some c \<Rightarrow> c)"

definition pp_enum_statement :: "enum_statement \<Rightarrow> string" where
  "pp_enum_statement e = (case e of Variant i v opts \<Rightarrow>
     i @ (case v of None \<Rightarrow> [] | Some n \<Rightarrow> ''='' @ show_nat n) @ pp_options opts @ '','')"

definition pp_enum_block :: "enum_statement list \<Rightarrow> string" where
  "pp_enum_block es = ''{'' @ concat (map pp_enum_statement es) @ ''};''"

definition pp_event :: "string \<Rightarrow> string" where
  "pp_event e = '' '' @ e"

definition pp_service :: "service \<Rightarrow> string" where
  "pp_service s = ''rpc '' @ caller s @ '' returns '' @
     (if stream s then (case stream_message s of None \<Rightarrow> ''stream '' @ reply s | Some m \<Rightarrow> reply s @ '' stream '' @ m)
      else reply s @ (if events s = [] then [] else '' events'' @ concat (map pp_event (events s)))) @ '';''"

definition pp_statement :: "statement \<Rightarrow> string" where
  "pp_statement st = (case st of
      Define n opts fds flags c \<Rightarrow> pp_comment c @ concat (map pp_flag flags) @ '' define '' @ n @ pp_block opts fds
    | Option_stmt opt \<Rightarrow> pp_option opt
    | TypedefBlock n opts fds flags \<Rightarrow> concat (map pp_flag flags) @ '' typedef '' @ n @ pp_block opts fds
    | Typedef fd flags \<Rightarrow> concat (map pp_flag flags) @ '' typedef '' @ pp_field fd
    | Enum n sz es \<Rightarrow> ''enum '' @ n @ '':'' @ sz @ pp_enum_block es
    | EnumFlag n sz es \<Rightarrow> ''enumflag '' @ n @ '':'' @ sz @ pp_enum_block es
    | Union_stmt n opts fds c \<Rightarrow> pp_comment c @ '' union '' @ n @ pp_block opts fds
    | Import f \<Rightarrow> ''import '' @ pp_value f @ '';''
    | Service_stmt ss \<Rightarrow> ''service{'' @ concat (map pp_service ss) @ ''};'')"

section \<open>Lexical rules on printed text\<close>

named_theorems lexing

definition ws_start :: "string \<Rightarrow> bool" where
  "ws_start s = (case s of [] \<Rightarrow> False | c # _ \<Rightarrow> is_space c \<or> c = CHR ''/'')"

lemma ident_chars [simp]:
  "is_ident_start c \<Longrightarrow> is_ident_char c" "is_ident_start c \<Longrightarrow> \<not> is_space c" "is_ident_start c \<Longrightarrow> c \<noteq> CHR ''/''"
  "is_digit c \<Longrightarrow> \<not> is_space c" "is_digit c \<Longrightarrow> c \<noteq> CHR ''/''" "is_digit c \<Longrightarrow> \<not> is_ident_start c"
  "is_digit c \<Longrightarrow> is_ident_char c"
  by (auto simp: is_ident_char_def is_ident_start_def is_space_def is_digit_def Let_def)

lemma ident_ok_Cons: "ident_ok n \<longleftrightarrow> (\<exists>c cs. n = c # cs \<and> is_ident_start c \<and> list_all is_ident_char cs)"
  by (cases n) (auto simp: ident_ok_def)

lemma ident_not_ws [simp]: "ident_ok n \<Longrightarrow> \<not> ws_start (n @ s)"
  by (auto simp: ident_ok_Cons ws_start_def)

lemma number_not_ws [simp]: "\<not> ws_start (show_nat k @ s)"
  using show_nat_digits[of k] by (cases "show_nat k") (auto simp: ws_start_def)

lemma ws_start_simps [simp]: "\<not> ws_start []" "ws_start (c # s) \<longleftrightarrow> is_space c \<or> c = CHR ''/''"
  by (auto simp: ws_start_def)

lemma r_ws_item_None: "\<not> ws_start s \<Longrightarrow> r_ws_item s = None"
  by (cases s) (auto simp: r_ws_item_def orelse_def sat_def r_comment_def r_block_comment_def r_line_comment_def
      r_space_def lit_def)

lemma r_ws_none [lexing]: "\<not> ws_start s \<Longrightarrow> r_ws s = Some ((), s)"
  by (simp add: r_ws_def ws.many_None r_ws_item_None)

lemma r_ws1_none [lexing]: "\<not> ws_start s \<Longrightarrow> r_ws1 s = None"
  by (simp add: r_ws1_def many1_def ws.many_None r_ws_item_None)

lemma r_ws_item_space: "r_ws_item (CHR '' '' # s) = Some ((), s)"
  by (simp add: r_ws_item_def orelse_def sat_def is_space_def)

lemma r_ws_space [lexing]: "r_ws (CHR '' '' # s) = r_ws s"
  by (simp add: r_ws_def ws.many_Some[OF r_ws_item_space])

lemma r_ws1_space [lexing]: "r_ws1 (CHR '' '' # s) = r_ws s"
  by (simp add: r_ws_def r_ws1_def many1_def ws.many_Some[OF r_ws_item_space])

lemma r_space_space [lexing]: "r_space (CHR '' '' # s) = r_space s"
  by (simp add: r_space_def is_space_def)

lemma r_space_none [lexing]: "\<not> ws_start s \<Longrightarrow> r_space s = Some ((), s)"
  by (cases s) (auto simp: r_space_def)

lemma many_chars: "list_all P cs \<Longrightarrow> \<not> P c \<Longrightarrow> many (sat P) (cs @ c # s) = (cs, c # s)"
  by (induction cs) (auto intro: chars.many_None chars.many_Some simp: sat_def chars.many_Some)

lemma r_identifier_prints [lexing]:
  "ident_ok n \<Longrightarrow> \<not> is_ident_char c \<Longrightarrow> r_identifier (n @ c # s) = Some (n, c # s)"
  by (auto simp: ident_ok_Cons r_identifier_def many0_def many_chars sat_def)

lemma r_ws_identifier_prints [lexing]:
  "ident_ok n \<Longrightarrow> \<not> is_ident_char c \<Longrightarrow> r_ws_identifier (n @ c # s) = Some (n, c # s)"
  "ident_ok n \<Longrightarrow> \<not> is_ident_char c \<Longrightarrow> r_ws_identifier (CHR '' '' # n @ c # s) = Some (n, c # s)"
  by (simp_all add: r_ws_identifier_def lexing)

lemma r_number_prints [lexing]:
  assumes "k \<le> U32_MAX" "\<not> is_digit c" "c \<noteq> CHR ''x''"
  shows "r_number (show_nat k @ c # s) = Some (k, c # s)"
proof -
  have d: "list_all is_digit (show_nat k)" "show_nat k \<noteq> []" using show_nat_digits[of k] by (auto simp: list_all_iff)
  have "CHR ''x'' \<notin> set (show_nat k)" using show_nat_digits(1)[of k] by (auto simp: is_digit_def)
  then have "lit ''0x'' (show_nat k @ c # s) = None"
    using assms(3) d(2) by (cases "show_nat k"; cases "tl (show_nat k)") (auto simp: lit_def)
  moreover have "r_dec_number (show_nat k @ c # s) = Some (k, c # s)"
    using d many_chars[OF d(1) assms(2), of s] parse_show_nat[OF assms(1)]
    by (cases "show_nat k") (auto simp: r_dec_number_def many1_def)
  ultimately show ?thesis by (simp add: r_number_def orelse_def r_hex_number_def)
qed

lemma r_string_literal_prints [lexing]:
  assumes "value_ok v"
  shows "r_string_literal (CHR 0x22 # v @ CHR 0x22 # s) = Some (v, s)"
proof -
  have item: "r_string_item (c # rest) = Some ([c], rest)" if "c \<in> set v" for c rest
    using assms that by (auto simp: value_ok_def r_string_item_def orelse_def lit_def sat_def)
  have stop: "r_string_item (CHR 0x22 # s) = None" by (simp add: r_string_item_def orelse_def lit_def sat_def)
  have "many r_string_item (concat (map (\<lambda>x. x) (map (\<lambda>c. [c]) v)) @ CHR 0x22 # s) = (map (\<lambda>c. [c]) v, CHR 0x22 # s)"
    by (rule string_items.many_prints[OF _ stop]) (auto simp: item)
  then show ?thesis by (simp add: r_string_literal_def lit_def many0_def)
qed

text \<open>A literal that does not begin like a name or number does not match one.\<close>

lemma lit_simps [lexing]:
  "lit [] s = Some ((), s)" "lit (p # ps) [] = None"
  "lit (p # ps) (c # s) = (if p = c then lit ps s else None)"
  by (simp_all add: lit_def)

lemma lit_ident [lexing]: "ident_ok n \<Longrightarrow> \<not> is_ident_start p \<Longrightarrow> lit (p # ps) (n @ s) = None"
  by (auto simp: ident_ok_Cons lit_def)

lemma lit_number [lexing]: "\<not> is_digit p \<Longrightarrow> lit (p # ps) (show_nat k @ s) = None"
  using show_nat_digits[of k] by (cases "show_nat k") (auto simp: lit_def)

lemma r_identifier_number [lexing]: "r_identifier (show_nat k @ s) = None"
  using show_nat_digits[of k] by (cases "show_nat k") (auto simp: r_identifier_def sat_def)

lemma r_identifier_char [lexing]: "\<not> is_ident_start c \<Longrightarrow> r_identifier (c # s) = None"
  by (simp add: r_identifier_def sat_def)

lemma r_number_None:
  assumes "s = [] \<or> \<not> is_digit (hd s)"
  shows "r_number s = None"
proof -
  have "sat is_digit s = None" using assms by (cases s) (auto simp: sat_def)
  then have "r_dec_number s = None" by (simp add: r_dec_number_def many1_def chars.many_None)
  moreover have "lit ''0x'' s = None" using assms by (cases s) (auto simp: lit_def is_digit_def)
  ultimately show ?thesis by (simp add: r_number_def orelse_def r_hex_number_def)
qed

lemma r_number_ident [lexing]: "ident_ok n \<Longrightarrow> r_number (n @ s) = None"
  by (rule r_number_None) (auto simp: ident_ok_Cons)

lemma r_number_char [lexing]: "\<not> is_digit c \<Longrightarrow> r_number (c # s) = None"
  by (rule r_number_None) simp

lemma ident_char_eval [simp]:
  "is_ident_char c \<longleftrightarrow> is_ident_start c \<or> is_digit c"
  by (simp add: is_ident_char_def)

lemma keyword_mismatch:
  assumes "list_all is_ident_char kw" "\<not> is_ident_char c" "strip_prefix kw (n @ c # s) = Some r"
  shows "\<exists>t. n = kw @ t \<and> r = t @ c # s"
proof -
  from assms(3) have eq: "n @ c # s = kw @ r" by simp
  then obtain us where us: "n = kw @ us \<and> us @ c # s = r \<or> n @ us = kw \<and> c # s = us @ r"
    by (auto simp: append_eq_append_conv2)
  show ?thesis
  proof (cases "n @ us = kw \<and> c # s = us @ r \<and> us \<noteq> []")
    case True
    then have "c \<in> set kw" by (cases us) auto
    with assms(1,2) show ?thesis by (auto simp: list_all_iff)
  next
    case False
    with us show ?thesis by auto
  qed
qed

section \<open>Options and fields\<close>

lemmas parsing = r_tok_def orelse_def lexing is_ident_start_def is_digit_def is_space_def Let_def

lemma r_option_prints:
  assumes "option_ok opt"
  shows "r_option (pp_option opt @ s) = Some (opt, s)"
proof -
  have n: "ident_ok (os_option opt)" using assms by (simp add: option_ok_def)
  show ?thesis
  proof (cases "os_value opt")
    case None
    then show ?thesis
      by (simp add: r_option_def r_option_flag_def pp_option_def parsing n)
  next
    case (Some v)
    then have "value_ok v" using assms by (simp add: option_ok_def)
    with Some show ?thesis
      by (simp add: r_option_def r_option_flag_def r_option_assign_def r_option_value_def pp_option_def pp_value_def parsing n)
  qed
qed

lemma r_field_option_prints:
  assumes "field_option_ok opt"
  shows "r_field_option (pp_field_option opt @ s) = Some (opt, s)"
proof -
  obtain v where v: "os_value opt = Some v" "value_ok v" and n: "ident_ok (os_option opt)"
    using assms by (auto simp: field_option_ok_def option_ok_def)
  then show ?thesis
    by (simp add: r_field_option_def pp_field_option_def pp_value_def r_option_value_def parsing)
qed

lemma join_commas: "xs \<noteq> [] \<Longrightarrow> join '','' xs = hd xs @ concat (map (\<lambda>x. '','' @ x) (tl xs))"
  by (induction "'',''" xs rule: join.induct) auto

lemma r_field_options_prints:
  assumes "list_all field_option_ok opts" "opts \<noteq> []"
  shows "r_field_options (join '','' (map pp_field_option opts) @ CHR '']'' # s) = Some (opts, CHR '']'' # s)"
proof -
  obtain opt rest where opts: "opts = opt # rest" using assms by (cases opts) auto
  let ?more = "\<lambda>s. do { (_, s) \<leftarrow> lit '','' s; r_field_option s }"
  have joined: "join '','' (pp_field_option opt # map pp_field_option rest) =
      pp_field_option opt @ concat (map (\<lambda>o'. '','' @ pp_field_option o') rest)"
    by (simp add: join_commas opts o_def)
  have "many ?more (concat (map (\<lambda>o'. '','' @ pp_field_option o') rest) @ CHR '']'' # s) = (rest, CHR '']'' # s)"
    by (rule more_field_options.many_prints) (use assms opts in \<open>auto simp: lexing r_field_option_prints list_all_iff\<close>)
  then show ?thesis
    using assms opts by (simp add: r_field_options_def sep_by1_def joined r_field_option_prints many0_def)
qed

lemma pp_options_cases:
  assumes "opts \<noteq> []"
  shows "pp_options opts = ''['' @ join '','' (map pp_field_option opts) @ '']''"
  using assms by (simp add: pp_options_def)

lemma field_options_not_ws:
  assumes "list_all field_option_ok opts" "opts \<noteq> []"
  shows "\<not> ws_start (join '','' (map pp_field_option opts) @ s)"
  using assms by (cases opts) (auto simp: join_commas pp_field_option_def field_option_ok_def option_ok_def)

lemma field_options_no_lit:
  assumes "list_all field_option_ok opts" "opts \<noteq> []" "\<not> is_ident_start p"
  shows "lit (p # ps) (join '','' (map pp_field_option opts) @ s) = None"
  using assms by (cases opts) (auto simp: join_commas pp_field_option_def field_option_ok_def option_ok_def lexing)

lemma r_declaration_prints:
  assumes "field_ok fd"
  shows "r_declaration (pp_field fd @ s) = Some (fd, s)"
proof -
  have tn: "ident_ok (f_type fd)" "ident_ok (f_name fd)" using assms by (auto simp: field_ok_def)
  have head: "r_type_name (f_type fd @ CHR '' '' # f_name fd @ c # s) = Some ((f_type fd, f_name fd), c # s)"
    if "\<not> is_ident_char c" for c s using that tn by (simp add: r_type_name_def parsing)
  note rules = r_declaration_def r_decl_plain_def r_decl_options_def r_decl_open_def r_decl_fixed_def r_decl_vla_def
  show ?thesis
  proof (cases "f_size fd")
    case None
    show ?thesis
    proof (cases "f_options fd = []")
      case True
      with None show ?thesis by (simp add: rules pp_field_def pp_options_def head parsing)
    next
      case False
      have opts: "list_all field_option_ok (f_options fd)" using assms by (simp add: field_ok_def)
      from None False show ?thesis
        by (simp add: rules pp_field_def pp_options_cases[OF False] head parsing
            field_options_not_ws[OF opts False] r_field_options_prints[OF opts False])
    qed
  next
    case (Some sz)
    then have none: "f_options fd = []" and sz: "size_ok sz" using assms by (auto simp: field_ok_def)
    have no_opts: "r_field_options t = None" if "r_field_option t = None" for t
      using that by (simp add: r_field_options_def sep_by1_def)
    show ?thesis
    proof (cases sz)
      case (Fixed k)
      with sz have "k \<le> U32_MAX" by (simp add: size_ok_def)
      with Fixed Some none show ?thesis
        by (simp add: rules pp_field_def pp_options_def pp_size_def head parsing no_opts r_field_option_def r_ws_identifier_def)
    next
      case (Variable v)
      show ?thesis
      proof (cases v)
        case None
        with Variable Some none show ?thesis
          by (simp add: rules pp_field_def pp_options_def pp_size_def head parsing no_opts r_field_option_def r_ws_identifier_def)
      next
        case (Some v')
        with Variable sz have "ident_ok v'" by (simp add: size_ok_def)
        with Variable \<open>f_size fd = Some sz\<close> Some none show ?thesis
          by (simp add: rules pp_field_def pp_options_def pp_size_def head parsing no_opts r_field_option_def r_ws_identifier_def)
      qed
    qed
  qed
qed

section \<open>Blocks\<close>

lemma r_option_field_None:
  assumes "field_ok fd" "f_type fd \<noteq> ''option''"
  shows "r_option (pp_field fd @ s) = None"
proof -
  obtain t where eq_text: "pp_field fd @ s = f_type fd @ CHR '' '' # t" by (simp add: pp_field_def)
  have ty: "ident_ok (f_type fd)" using assms by (simp add: field_ok_def)
  have no_ws: "r_ws1 r = None" if "strip_prefix ''option'' (f_type fd @ CHR '' '' # t) = Some r" for r
  proof -
    have "\<exists>u. f_type fd = ''option'' @ u \<and> r = u @ CHR '' '' # t"
      by (rule keyword_mismatch[OF _ _ that]) (simp_all add: is_ident_start_def is_digit_def)
    then obtain c cs where "f_type fd = ''option'' @ c # cs" "r = c # cs @ CHR '' '' # t"
      using assms(2) by (metis append_Nil2 append_Cons neq_Nil_conv)
    moreover from this ty have "is_ident_char c" by (auto simp: ident_ok_def)
    ultimately show ?thesis by (auto intro!: r_ws1_none)
  qed
  have "r_tok ''option'' (f_type fd @ CHR '' '' # t) = None \<or>
      (\<exists>r. r_tok ''option'' (f_type fd @ CHR '' '' # t) = Some ((), r) \<and> r_ws1 r = None)"
  proof -
    have "r_tok ''option'' (f_type fd @ CHR '' '' # t) = map_option (Pair ()) (strip_prefix ''option'' (f_type fd @ CHR '' '' # t))"
      using ty by (simp add: r_tok_def r_ws_none lit_def del: strip_prefix.simps)
    with no_ws show ?thesis
      by (cases "strip_prefix ''option'' (f_type fd @ CHR '' '' # t)") (simp_all del: strip_prefix.simps strip_prefix_Some)
  qed
  then show ?thesis
    by (auto simp: eq_text r_option_def r_option_flag_def r_option_assign_def orelse_def)
qed

definition block_statements_of :: "option_statement list \<Rightarrow> field list \<Rightarrow> block_statement list" where
  "block_statements_of opts fds = map Block_option opts @ map Declaration fds"

lemma block_statements_of_parts [simp]:
  "options_from_block_statements (block_statements_of opts fds) = opts"
  "fields_from_block_statements (block_statements_of opts fds) = fds"
  by (simp_all add: options_from_block_statements_def fields_from_block_statements_def block_statements_of_def
      map_filter_def o_def)

definition pp_block_statement :: "block_statement \<Rightarrow> string" where
  "pp_block_statement b = (case b of Block_option opt \<Rightarrow> pp_option opt | Declaration fd \<Rightarrow> pp_field fd)"

lemma r_block_prints:
  assumes "block_ok opts fds"
  shows "r_block (pp_block opts fds @ s) = Some (block_statements_of opts fds, s)"
proof -
  have item: "r_block_statement (pp_block_statement b @ rest) = Some (b, rest)"
    if "b \<in> set (block_statements_of opts fds)" for b rest
  proof -
    from that consider opt where "b = Block_option opt" "option_ok opt"
      | fd where "b = Declaration fd" "field_ok fd" "f_type fd \<noteq> ''option''"
      using assms by (auto simp: block_statements_of_def block_ok_def list_all_iff)
    then show ?thesis
      by cases (auto simp: r_block_statement_def pp_block_statement_def orelse_def r_option_prints
          r_option_field_None r_declaration_prints)
  qed
  have stop: "r_block_statement (''};'' @ s) = None"
    by (simp add: r_block_statement_def r_option_def r_option_flag_def r_option_assign_def r_declaration_def
        r_decl_plain_def r_decl_options_def r_decl_open_def r_decl_fixed_def r_decl_vla_def r_type_name_def
        r_ws_identifier_def parsing)
  have text_eq: "pp_block opts fds @ s = CHR ''{'' # concat (map pp_block_statement (block_statements_of opts fds)) @ ''};'' @ s"
    by (simp add: pp_block_def block_statements_of_def pp_block_statement_def o_def)
  have "many r_block_statement (concat (map pp_block_statement (block_statements_of opts fds)) @ ''};'' @ s) =
      (block_statements_of opts fds, ''};'' @ s)"
    by (rule block_items.many_prints[OF item stop])
  moreover have "block_statements_of opts fds \<noteq> []" using assms by (simp add: block_ok_def block_statements_of_def)
  ultimately have "r_block_statements (concat (map pp_block_statement (block_statements_of opts fds)) @ ''};'' @ s) =
      Some (block_statements_of opts fds, ''};'' @ s)"
    by (simp add: r_block_statements_def many1_def split: list.splits prod.splits)
  then show ?thesis
    unfolding text_eq by (simp add: r_block_def parsing)
qed

section \<open>Flags and comments\<close>

lemma r_flag_prints: "r_flag (pp_flag f @ s) = Some (f, s)"
  by (cases f) (simp_all add: r_flag_def pp_flag_def flag_name_def parsing)

lemma r_flag_keyword:
  "r_flag (CHR '' '' # CHR ''d'' # CHR ''e'' # s) = None"
  "r_flag (CHR '' '' # CHR ''t'' # s) = None" "r_flag (CHR '' '' # CHR ''u'' # s) = None"
  by (simp_all add: r_flag_def parsing)

lemma many_flags:
  "r_flag s = None \<Longrightarrow> many r_flag (concat (map pp_flag fs) @ s) = (fs, s)"
  by (rule flags.many_prints) (auto simp: r_flag_prints)

lemma r_flag_list_prints:
  "r_flag s = None \<Longrightarrow> fs \<noteq> [] \<Longrightarrow> r_flag_list (concat (map pp_flag fs) @ s) = Some (fs, s)"
  "r_flag s = None \<Longrightarrow> r_flag_list s = None"
  by (simp_all add: r_flag_list_def many1_def many_flags flags.many_None split: list.splits)

lemma comment_ok_prints:
  assumes "comment_ok c"
  shows "r_comment (c @ s) = Some (c, s)"
proof -
  obtain b where c: "c = ''/*'' @ b" and b: "r_comment_body b = Some (b, [])"
    using assms by (auto simp: comment_ok_def split: option.splits)
  have gen: "r_comment_body (b @ s) = Some (t, r @ s)" if "r_comment_body b = Some (t, r)" for b t r
    using that
  proof (induction b arbitrary: t r)
    case (Cons x b)
    show ?case
    proof (cases "strip_prefix ''*/'' (x # b)")
      case None
      then have "strip_prefix ''*/'' (x # b @ s) = None"
        using Cons.prems by (cases b) (auto split: if_splits)
      with None Cons show ?thesis by (auto simp del: strip_prefix.simps)
    next
      case (Some u)
      then have "strip_prefix ''*/'' ((x # b) @ s) = Some (u @ s)" by (auto simp del: strip_prefix.simps)
      with Some Cons.prems show ?thesis by (auto simp del: strip_prefix.simps strip_prefix_Some)
    qed
  qed simp
  from gen[OF b] show ?thesis
    by (simp add: c r_comment_def r_block_comment_def orelse_def lexing r_space_def is_space_def)
qed

lemma r_ws_comment:
  assumes "comment_ok c"
  shows "r_ws (c @ s) = r_ws s"
proof -
  have "sat is_space (c @ s) = None"
    using assms by (auto simp: comment_ok_def sat_def is_space_def split: option.splits list.splits)
  then have "r_ws_item (c @ s) = Some ((), s)"
    by (simp add: r_ws_item_def orelse_def comment_ok_prints[OF assms])
  then show ?thesis by (simp add: r_ws_def ws.many_Some)
qed

lemma r_comment_None:
  assumes "\<not> ws_start s"
  shows "r_comment (CHR '' '' # s) = None" "r_comment s = None"
proof -
  have "r_space s = Some ((), s)" by (rule r_space_none[OF assms])
  moreover have "lit (CHR ''/'' # cs) s = None" for cs using assms by (cases s) (auto simp: lit_def)
  ultimately show "r_comment (CHR '' '' # s) = None" "r_comment s = None"
    by (simp_all add: r_comment_def r_block_comment_def r_line_comment_def orelse_def r_space_space)
qed

end
