(* ===== verification/Api_Types.thy ===== *)
theory Api_Types
  imports Api_Parser
begin

text \<open>
  The type table: every registered type refers to types registered before it, so following
  variable-length arrays through nested types ends, and validation that was done once holds for
  good.  The CRC of a type or message is the CRC of one text.
\<close>

section \<open>References between types\<close>

definition details_fields :: "type_details \<Rightarrow> field list" where
  "details_fields td = (case td of TD_TypedefBlock fds \<Rightarrow> fds | TD_Union fds \<Rightarrow> fds | _ \<Rightarrow> [])"

definition refs_known :: "(string \<rightharpoonup> 'h type_entry) \<Rightarrow> field list \<Rightarrow> bool" where
  "refs_known T fds \<longleftrightarrow> (\<forall>fd\<in>set fds. \<forall>tn. api_type_name (f_type fd) = Some tn \<longrightarrow> tn \<in> dom T)"

definition types_ranked :: "(string \<Rightarrow> nat) \<Rightarrow> (string \<rightharpoonup> 'h type_entry) \<Rightarrow> bool" where
  "types_ranked rk T \<longleftrightarrow> (\<forall>n ty fd tn. T n = Some ty \<longrightarrow> fd \<in> set (details_fields (ty_details ty)) \<longrightarrow>
     api_type_name (f_type fd) = Some tn \<longrightarrow> tn \<in> dom T \<and> rk tn < rk n)"

definition types_ok :: "(string \<rightharpoonup> 'h type_entry) \<Rightarrow> bool" where
  "types_ok T \<longleftrightarrow> (\<exists>rk. types_ranked rk T)"

lemma types_ok_empty: "types_ok Map.empty"
  by (simp add: types_ok_def types_ranked_def)

lemma types_ok_known: "types_ok T \<Longrightarrow> T n = Some ty \<Longrightarrow> refs_known T (details_fields (ty_details ty))"
  unfolding types_ok_def types_ranked_def refs_known_def by blast

lemma types_ok_insert:
  assumes T: "types_ok T" and n: "T n = None" and known: "refs_known T (details_fields (ty_details ty))"
  shows "types_ok (T(n \<mapsto> ty))"
proof -
  obtain rk where rk: "types_ranked rk T" using T by (auto simp: types_ok_def)
  define R where "R = {tn. \<exists>fd\<in>set (details_fields (ty_details ty)). api_type_name (f_type fd) = Some tn}"
  have "R = (\<lambda>fd. the (api_type_name (f_type fd))) `
      {fd \<in> set (details_fields (ty_details ty)). api_type_name (f_type fd) \<noteq> None}"
    by (force simp: R_def)
  then have fin: "finite R" by simp
  have R: "R \<subseteq> dom T" using known by (auto simp: R_def refs_known_def)
  define rk' where "rk' = rk(n := Suc (Max (insert 0 (rk ` R))))"
  have less: "rk tn < Suc (Max (insert 0 (rk ` R)))" if "tn \<in> R" for tn
    using that fin by (simp add: less_Suc_eq_le)
  have "types_ranked rk' (T(n \<mapsto> ty))"
    unfolding types_ranked_def
  proof (intro allI impI)
    fix m ty' fd tn
    assume m: "(T(n \<mapsto> ty)) m = Some ty'" and fd: "fd \<in> set (details_fields (ty_details ty'))"
      and tn: "api_type_name (f_type fd) = Some tn"
    show "tn \<in> dom (T(n \<mapsto> ty)) \<and> rk' tn < rk' m"
    proof (cases "m = n")
      case True
      with m fd tn have "tn \<in> R" by (auto simp: R_def)
      with R n True less show ?thesis by (auto simp: rk'_def)
    next
      case False
      with m have "T m = Some ty'" by simp
      with rk fd tn have *: "tn \<in> dom T" "rk tn < rk m" by (auto simp: types_ranked_def)
      with n have "tn \<noteq> n" by auto
      with * False show ?thesis by (simp add: rk'_def)
    qed
  qed
  then show ?thesis by (auto simp: types_ok_def)
qed

section \<open>Variable-length arrays through nested types\<close>

lemma field_vla_ranked:
  assumes T: "types_ranked rk T"
  shows "(\<And>tn. api_type_name (f_type fd) = Some tn \<Longrightarrow> tn \<in> dom T \<Longrightarrow> rk tn < n) \<Longrightarrow> field_vla T fd others \<noteq> None"
proof (induction n arbitrary: fd others)
  case 0
  then have "Option.bind (api_type_name (f_type fd)) T = None" by (cases "api_type_name (f_type fd)") auto
  then show ?case by (subst field_vla.simps) (auto split: option.split)
next
  case (Suc n)
  show ?case
  proof (cases "Option.bind (api_type_name (f_type fd)) T")
    case None
    then show ?thesis by (subst field_vla.simps) (auto split: option.split)
  next
    case (Some ty)
    then obtain tn where tn: "api_type_name (f_type fd) = Some tn" "T tn = Some ty" by (auto split: bind_splits)
    have "field_vla T (last fds) fds \<noteq> None" if "ty_details ty = TD_TypedefBlock fds" "fds \<noteq> []" for fds
    proof (rule Suc.IH)
      fix tn' assume "api_type_name (f_type (last fds)) = Some tn'" "tn' \<in> dom T"
      moreover have "last fds \<in> set (details_fields (ty_details ty))" using that by (simp add: details_fields_def)
      ultimately have "rk tn' < rk tn" using T tn(2) by (auto simp: types_ranked_def)
      moreover have "rk tn < Suc n" using Suc.prems tn by blast
      ultimately show "rk tn' < n" by simp
    qed
    with Some show ?thesis
      by (subst field_vla.simps) (auto split: option.split type_details.split)
  qed
qed

lemma field_vla_total:
  assumes "types_ok T" shows "field_vla T fd others \<noteq> None"
proof -
  obtain rk where "types_ranked rk T" using assms by (auto simp: types_ok_def)
  from field_vla_ranked[OF this, of fd "Suc (case api_type_name (f_type fd) of None \<Rightarrow> 0 | Some tn \<Rightarrow> rk tn)" others]
  show ?thesis by simp
qed

text \<open>Registering more types does not change the answer for fields whose types are known.\<close>

lemma field_vla_mono:
  assumes T: "types_ranked rk T" and sub: "T \<subseteq>\<^sub>m T'"
  shows "(\<And>tn. api_type_name (f_type fd) = Some tn \<Longrightarrow> tn \<in> dom T \<and> rk tn < n) \<Longrightarrow>
    field_vla T' fd others = field_vla T fd others"
proof (induction n arbitrary: fd others)
  case 0
  then have "api_type_name (f_type fd) = None" by (cases "api_type_name (f_type fd)") auto
  then show ?case by (subst (1 2) field_vla.simps) (simp split: option.split)
next
  case (Suc n)
  show ?case
  proof (cases "api_type_name (f_type fd)")
    case None
    then show ?thesis by (subst (1 2) field_vla.simps) (simp split: option.split)
  next
    case (Some tn)
    then obtain ty where ty: "T tn = Some ty" "rk tn < Suc n" using Suc.prems by blast
    then have ty': "T' tn = Some ty" using sub by (metis domI map_le_def)
    have "field_vla T' (last fds) fds = field_vla T (last fds) fds" if "ty_details ty = TD_TypedefBlock fds" "fds \<noteq> []" for fds
    proof (rule Suc.IH)
      fix tn' assume "api_type_name (f_type (last fds)) = Some tn'"
      moreover have "last fds \<in> set (details_fields (ty_details ty))" using that by (simp add: details_fields_def)
      ultimately have "tn' \<in> dom T \<and> rk tn' < rk tn" using T ty(1) by (auto simp: types_ranked_def)
      with ty(2) show "tn' \<in> dom T \<and> rk tn' < n" by auto
    qed
    then show ?thesis
      using Some ty(1) ty' by (subst (1 2) field_vla.simps) (auto split: type_details.split option.split)
  qed
qed

lemma field_vla_extend:
  assumes "types_ok T" "T \<subseteq>\<^sub>m T'" "refs_known T fds" "fd \<in> set fds"
  shows "field_vla T' fd others = field_vla T fd others"
proof -
  obtain rk where rk: "types_ranked rk T" using assms(1) by (auto simp: types_ok_def)
  show ?thesis
    by (rule field_vla_mono[OF rk assms(2), of fd "Suc (case api_type_name (f_type fd) of None \<Rightarrow> 0 | Some tn \<Rightarrow> rk tn)"])
      (use assms(3,4) in \<open>auto simp: refs_known_def\<close>)
qed

section \<open>Validation\<close>

lemma crc_for_fields_known:
  "combine_field_types H T fds h = Inr h' \<Longrightarrow> refs_known T fds"
  by (induction H T fds h rule: combine_field_types.induct) (auto simp: refs_known_def split: option.splits)

lemma validate_vla_loop_total:
  assumes "types_ok T"
  shows "validate_vla_loop T name fds un i vla rest \<noteq> None"
proof (induction rest arbitrary: i vla)
  case (Cons fd rest)
  obtain r where "field_vla T fd fds = Some r" using field_vla_total[OF assms] by blast
  with Cons.IH show ?case by (auto split: option.split field_size.split simp: Let_def)
qed simp

definition vla_last :: "(string \<rightharpoonup> 'h type_entry) \<Rightarrow> field list \<Rightarrow> bool" where
  "vla_last T fds \<longleftrightarrow> (\<forall>i. Suc i < length fds \<longrightarrow> field_vla T (fds ! i) fds = Some None)"

definition no_vla :: "(string \<rightharpoonup> 'h type_entry) \<Rightarrow> field list \<Rightarrow> bool" where
  "no_vla T fds \<longleftrightarrow> (\<forall>fd\<in>set fds. field_vla T fd fds = Some None)"

definition counts_exist :: "field list \<Rightarrow> bool" where
  "counts_exist fds \<longleftrightarrow> (\<forall>fd\<in>set fds. \<forall>lv. f_size fd = Some (Variable (Some lv)) \<longrightarrow> (\<exists>other\<in>set fds. f_name other = lv))"

lemma validate_vla_loop_Ok:
  "validate_vla_loop T name fds un i vla rest = Some (Inr v) \<Longrightarrow> j < length rest \<Longrightarrow>
    (\<exists>r. field_vla T (rest ! j) fds = Some r \<and> (r \<noteq> None \<longrightarrow> \<not> un \<and> i + j = length fds - 1)) \<and>
    (\<forall>lv. f_size (rest ! j) = Some (Variable (Some lv)) \<longrightarrow> (\<exists>other\<in>set fds. f_name other = lv)) \<and>
    \<not> (f_type (rest ! j) = ''string'' \<and> f_size (rest ! j) = None)"
proof (induction rest arbitrary: i vla j)
  case (Cons fd rest)
  obtain r where r: "field_vla T fd fds = Some r" "r \<noteq> None \<longrightarrow> \<not> un \<and> i = length fds - 1"
    and str: "\<not> (f_type fd = ''string'' \<and> f_size fd = None)"
    and lv: "\<forall>lv. f_size fd = Some (Variable (Some lv)) \<longrightarrow> (\<exists>other\<in>set fds. f_name other = lv)"
    and rec: "\<exists>v'. validate_vla_loop T name fds un (i + 1) v' rest = Some (Inr v)"
    using Cons.prems(1)
    by (auto simp: Let_def list_ex_iff split: if_splits bind_splits option.splits field_size.splits)
  show ?case
  proof (cases j)
    case 0
    with r str lv show ?thesis by auto
  next
    case (Suc k)
    then have "k < length rest" using Cons.prems(2) by simp
    with Cons.IH rec Suc show ?thesis by fastforce
  qed
qed simp

lemma validate_vla_Ok:
  assumes "validate_vla T name fds un = Some (Inr v)"
  shows "vla_last T fds" "un \<Longrightarrow> no_vla T fds" "counts_exist fds"
proof -
  note ok = validate_vla_loop_Ok[OF assms[unfolded validate_vla_def]]
  show "vla_last T fds"
    unfolding vla_last_def
  proof (intro allI impI)
    fix i assume i: "Suc i < length fds"
    then show "field_vla T (fds ! i) fds = Some None" using ok[of i] by auto
  qed
  show "no_vla T fds" if un
    unfolding no_vla_def using ok that by (auto simp: in_set_conv_nth)
  show "counts_exist fds"
    unfolding counts_exist_def using ok by (metis in_set_conv_nth)
qed

text \<open>The message id that is put in front does not change which fields are variable.\<close>

lemma no_vla_cons:
  assumes "field_vla T fd fds = Some None"
    and "\<forall>lv. f_size fd = Some (Variable (Some lv)) \<longrightarrow> (\<exists>other\<in>set fds. f_name other = lv)"
  shows "field_vla T fd (x # fds) = Some None"
proof -
  have "count_field_of fd fds = None"
    using assms(1) by (subst (asm) field_vla.simps) (auto split: if_splits option.splits)
  then have none: "\<And>lv. f_size fd \<noteq> Some (Variable (Some lv))"
    using assms(2) by (auto simp: count_field_of_def find_None_iff)
  then have "count_field_of fd (x # fds) = None" by (auto simp: count_field_of_def split: option.split field_size.split)
  with assms(1) \<open>count_field_of fd fds = None\<close> show ?thesis
    by (subst field_vla.simps) (subst (asm) field_vla.simps, simp split: if_splits)
qed

lemma simple_field_vla: "api_type_name t = None \<Longrightarrow> field_vla T (simple_field t n) others = Some None"
  by (subst field_vla.simps) (simp add: simple_field_def count_field_of_def)

lemma api_type_name_builtin [simp]:
  "api_type_name ''u16'' = None" "api_type_name ''u32'' = None" "api_type_name ''i32'' = None"
  by (simp_all add: api_type_name_def VL_API_PREFIX_def)

lemma vla_last_message:
  assumes "vla_last T fds" "counts_exist fds"
  shows "vla_last T (simple_field ''u16'' ''_vl_msg_id'' # fds)"
  unfolding vla_last_def
proof (intro allI impI)
  fix i assume i: "Suc i < length (simple_field ''u16'' ''_vl_msg_id'' # fds)"
  show "field_vla T ((simple_field ''u16'' ''_vl_msg_id'' # fds) ! i) (simple_field ''u16'' ''_vl_msg_id'' # fds) = Some None"
  proof (cases i)
    case 0
    then show ?thesis by (simp add: simple_field_vla)
  next
    case (Suc j)
    then have j: "Suc j < length fds" using i by simp
    then have "field_vla T (fds ! j) fds = Some None" using assms(1) by (simp add: vla_last_def)
    moreover have "fds ! j \<in> set fds" using j by simp
    ultimately show ?thesis using no_vla_cons[of T "fds ! j" fds] assms(2) Suc by (simp add: counts_exist_def)
  qed
qed

section \<open>The invariant of the parser\<close>

definition layout_ok :: "(string \<rightharpoonup> 'h type_entry) \<Rightarrow> type_details \<Rightarrow> bool" where
  "layout_ok T td = (case td of TD_TypedefBlock fds \<Rightarrow> vla_last T fds | TD_Union fds \<Rightarrow> no_vla T fds | _ \<Rightarrow> True)"

definition entry_ok :: "(string \<rightharpoonup> 'h type_entry) \<Rightarrow> 'h type_entry \<Rightarrow> bool" where
  "entry_ok T ty \<longleftrightarrow> refs_known T (details_fields (ty_details ty)) \<and> layout_ok T (ty_details ty)"

definition message_ok :: "(string \<rightharpoonup> 'h type_entry) \<Rightarrow> message \<Rightarrow> bool" where
  "message_ok T m \<longleftrightarrow> refs_known T (msg_fields m) \<and> vla_last T (msg_fields m)"

definition parser_ok :: "'h api_parser \<Rightarrow> bool" where
  "parser_ok P \<longleftrightarrow> types_ok (global_types_by_name P) \<and>
     (\<forall>ty\<in>ran (global_types_by_name P). entry_ok (global_types_by_name P) ty) \<and>
     (\<forall>m\<in>set (p_messages P). message_ok (global_types_by_name P) m)"

lemma layout_extend:
  assumes T: "types_ok T" "T \<subseteq>\<^sub>m T'"
  shows "refs_known T fds \<Longrightarrow> vla_last T fds \<Longrightarrow> vla_last T' fds" "refs_known T fds \<Longrightarrow> no_vla T fds \<Longrightarrow> no_vla T' fds"
    "refs_known T fds \<Longrightarrow> refs_known T' fds" "entry_ok T ty \<Longrightarrow> entry_ok T' ty" "message_ok T m \<Longrightarrow> message_ok T' m"
proof -
  note ext = field_vla_extend[OF T]
  show v: "refs_known T fds \<Longrightarrow> vla_last T fds \<Longrightarrow> vla_last T' fds" for fds
    by (simp add: vla_last_def ext)
  show n: "refs_known T fds \<Longrightarrow> no_vla T fds \<Longrightarrow> no_vla T' fds" for fds by (simp add: no_vla_def ext)
  show k: "refs_known T fds \<Longrightarrow> refs_known T' fds" for fds
    using map_le_implies_dom_le[OF T(2)] unfolding refs_known_def by blast
  show "entry_ok T ty \<Longrightarrow> entry_ok T' ty"
    using v n k by (auto simp: entry_ok_def layout_ok_def details_fields_def split: type_details.splits)
  show "message_ok T m \<Longrightarrow> message_ok T' m" using v k by (simp add: message_ok_def)
qed

lemma refs_known_cons_simple [simp]:
  "api_type_name t = None \<Longrightarrow> refs_known T (simple_field t n # fds) \<longleftrightarrow> refs_known T fds"
  "refs_known T []"
  by (simp_all add: refs_known_def simple_field_def)

lemma message_ok_new:
  assumes "validate_vla T name fds False = Some (Inr v)" "crc_for_fields H T fds = Inr crc"
  shows "message_ok T (message_new name opts fds flags c comment)"
  using validate_vla_Ok[OF assms(1)] crc_for_fields_known assms(2) vla_last_message
  by (auto simp: message_ok_def message_new_def crc_for_fields_def)

lemma message_ok_reply: "generated_reply H m = Some r \<Longrightarrow> message_ok T r"
proof -
  assume "generated_reply H m = Some r"
  then have f: "msg_fields r = [simple_field ''u16'' ''_vl_msg_id'', simple_field ''u32'' ''context'', simple_field ''i32'' ''retval'']
      \<or> msg_fields r = [simple_field ''u16'' ''_vl_msg_id'', simple_field ''u32'' ''context'', simple_field ''i32'' ''retval'',
          simple_field ''u32'' ''index'']"
    by (auto simp: generated_reply_def Let_def split: if_splits)
  have "vla_last T (msg_fields r)"
    unfolding vla_last_def using f by (auto simp: simple_field_vla less_Suc_eq nth_Cons')
  moreover have "refs_known T (msg_fields r)" using f by auto
  ultimately show ?thesis by (simp add: message_ok_def)
qed

lemma register_type_ok:
  assumes P: "parser_ok P" and ty: "entry_ok (global_types_by_name P) ty" and reg: "register_type n ty P = Inr P'"
  shows "parser_ok P'"
proof -
  let ?T = "global_types_by_name P"
  have n: "?T n = None" and P': "P' = P\<lparr>global_types_by_name := ?T(n \<mapsto> ty)\<rparr>"
    using reg by (auto simp: register_type_def split: if_splits)
  have T: "types_ok ?T" using P by (simp add: parser_ok_def)
  have sub: "?T \<subseteq>\<^sub>m ?T(n \<mapsto> ty)" using n by (simp add: map_le_def) blast
  have "types_ok (?T(n \<mapsto> ty))" using types_ok_insert[OF T n] ty by (simp add: entry_ok_def)
  moreover have "\<forall>ty'\<in>ran (?T(n \<mapsto> ty)). entry_ok (?T(n \<mapsto> ty)) ty'"
    using P ty layout_extend(4)[OF T sub] n by (auto simp: parser_ok_def)
  moreover have "\<forall>m\<in>set (p_messages P). message_ok (?T(n \<mapsto> ty)) m"
    using P layout_extend(5)[OF T sub] by (auto simp: parser_ok_def)
  ultimately show ?thesis by (simp add: P' parser_ok_def)
qed

lemma process_statement_types:
  "process_statement H import s P = Some (Inr (P', t)) \<Longrightarrow> global_types_by_name P' = global_types_by_name P"
  by (cases s) (auto simp: process_statement_def process_define_def process_typedef_block_def process_typedef_def
      process_union_def process_enum_def process_enumflag_def res_bind_Ok Let_def
      split: if_splits sum.splits option.splits bind_splits field_size.splits)

lemma process_statement_entry:
  assumes "process_statement H import s P = Some (Inr (P', Some (n, ty)))"
  shows "entry_ok (global_types_by_name P) ty"
proof (cases s)
  case (TypedefBlock name opts fds flags)
  with assms obtain v crc where "validate_vla (global_types_by_name P) name fds False = Some (Inr v)"
    "crc_for_fields H (global_types_by_name P) fds = Inr crc" "ty_details ty = TD_TypedefBlock fds"
    by (auto simp: process_statement_def process_typedef_block_def res_bind_Ok split: sum.splits)
  then show ?thesis
    using validate_vla_Ok(1) crc_for_fields_known
    by (auto simp: entry_ok_def layout_ok_def details_fields_def crc_for_fields_def)
next
  case (Union_stmt name opts fds comment)
  with assms obtain v crc where "validate_vla (global_types_by_name P) name fds True = Some (Inr v)"
    "crc_for_fields H (global_types_by_name P) fds = Inr crc" "ty_details ty = TD_Union fds"
    by (auto simp: process_statement_def process_union_def res_bind_Ok split: sum.splits)
  then show ?thesis
    using validate_vla_Ok(2) crc_for_fields_known
    by (auto simp: entry_ok_def layout_ok_def details_fields_def crc_for_fields_def)
qed (use assms in \<open>auto simp: process_statement_def process_define_def process_typedef_def process_enum_def
    process_enumflag_def entry_ok_def layout_ok_def details_fields_def res_bind_Ok Let_def
    split: if_splits sum.splits option.splits bind_splits field_size.splits\<close>)

text \<open>Only a \<open>define\<close> of the main file adds messages: its own and a generated reply.\<close>

lemma process_statement_messages:
  assumes "process_statement H import s P = Some (Inr (P', t))" "m \<in> set (p_messages P')" "m \<notin> set (p_messages P)"
  obtains (own) name opts fds flags comment v crc where
      "validate_vla (global_types_by_name P) name fds False = Some (Inr v)"
      "crc_for_fields H (global_types_by_name P) fds = Inr crc"
      "m = message_new name opts fds flags (h_finalize H crc) comment"
    | (reply) m' where "generated_reply H m' = Some m"
proof (cases s)
  case (Define name opts fds flags comment)
  with assms obtain v where v: "validate_vla (global_types_by_name P) name fds False = Some (Inr v)"
    by (auto simp: process_statement_def process_define_def res_bind_Ok)
  have "import = None" using assms Define by (auto simp: process_statement_def process_define_def res_bind_Ok split: if_splits)
  then obtain crc where crc: "crc_for_fields H (global_types_by_name P) fds = Inr crc"
    and P': "P' = P\<lparr>p_messages := p_messages P @ [message_new name opts fds flags (h_finalize H crc) comment] @
       (case generated_reply H (message_new name opts fds flags (h_finalize H crc) comment) of Some r \<Rightarrow> [r] | None \<Rightarrow> [])\<rparr>"
    using assms(1) Define by (auto simp: process_statement_def process_define_def res_bind_Ok Let_def split: sum.splits)
  let ?d = "message_new name opts fds flags (h_finalize H crc) comment"
  show thesis
  proof (cases "m = ?d")
    case True
    with v crc own show thesis by blast
  next
    case False
    with P' assms(2,3) have "generated_reply H ?d = Some m" by (auto split: option.splits)
    then show thesis by (rule reply)
  qed
qed (use assms in \<open>auto simp: process_statement_def process_typedef_block_def process_typedef_def process_union_def
    process_enum_def process_enumflag_def res_bind_Ok Let_def
    split: if_splits sum.splits option.splits bind_splits field_size.splits\<close>)

lemma process_statement_ok:
  assumes P: "parser_ok P" and st: "process_statement H import s P = Some (Inr (P', t))"
  shows "parser_ok P'"
proof -
  have "message_ok (global_types_by_name P) m" if "m \<in> set (p_messages P')" for m
  proof (cases "m \<in> set (p_messages P)")
    case True
    with P show ?thesis by (simp add: parser_ok_def)
  next
    case False
    from st that this show ?thesis
      by (cases rule: process_statement_messages) (auto intro: message_ok_new message_ok_reply)
  qed
  with P process_statement_types[OF st] show ?thesis by (simp add: parser_ok_def)
qed

lemma process_statements_loop_ok:
  "parser_ok P \<Longrightarrow> process_statements_loop H import crc stmts P = Some (Inr (c, P')) \<Longrightarrow> parser_ok P'"
proof (induction stmts arbitrary: crc P)
  case (Cons stmt stmts)
  obtain crc' P1 t where st: "process_statement H import stmt P = Some (Inr (P1, t))"
    and rest: "(case t of None \<Rightarrow> process_statements_loop H import crc' stmts P1
       | Some (name, ty) \<Rightarrow> (case register_type name ty P1 of Inl e \<Rightarrow> Some (Inl e)
            | Inr P2 \<Rightarrow> process_statements_loop H import crc' stmts P2)) = Some (Inr (c, P'))"
    using Cons.prems(2) by (auto simp: Let_def res_bind_Ok split: bind_splits)
  have P1: "parser_ok P1" by (rule process_statement_ok[OF Cons.prems(1) st])
  show ?case
  proof (cases t)
    case None
    with Cons.IH[OF P1] rest show ?thesis by simp
  next
    case (Some x)
    obtain name ty where x: "x = (name, ty)" by (cases x)
    then obtain P2 where P2: "register_type name ty P1 = Inr P2"
      "process_statements_loop H import crc' stmts P2 = Some (Inr (c, P'))"
      using rest Some by (auto split: sum.splits)
    have "entry_ok (global_types_by_name P1) ty"
      using process_statement_entry st process_statement_types[OF st] Some x by metis
    from Cons.IH[OF register_type_ok[OF P1 this P2(1)] P2(2)] show ?thesis .
  qed
qed simp

lemma process_statements_ok:
  "parser_ok P \<Longrightarrow> process_statements H import stmts P = Some (Inr (c, P')) \<Longrightarrow> parser_ok P'"
  unfolding process_statements_def by (rule process_statements_loop_ok)

text \<open>What \<open>process_statements\<close> keeps, following the imports keeps as well.\<close>

lemma do_imports_keeps_rule:
  assumes step: "\<forall>im stmts P c P'. I P \<longrightarrow> process_statements H im stmts P = Some (Inr (c, P')) \<longrightarrow> I P'"
    and run: "do_imports H parse stmts P = Some r"
  shows "(\<lambda>(((H', parse), stmts), P) r. H' = H \<longrightarrow> I P \<longrightarrow> (\<forall>P'. r = Inr P' \<longrightarrow> I P')) (((H, parse), stmts), P) r"
  apply (rule do_imports.raw_induct[OF _ run])
  subgoal premises prems for f H' parse stmts P r
  proof -
    have IH: "f H' parse ss Q = Some (Inr Q') \<Longrightarrow> H' = H \<Longrightarrow> I Q \<Longrightarrow> I Q'" for ss Q Q'
      using prems(1)[of H' parse ss Q "Inr Q'"] by simp
    have "I P'" if P: "I P" and H: "H' = H" and r: "r = Inr P'" for P'
    proof (cases stmts)
      case (Cons s rest)
      show ?thesis
      proof (cases "\<exists>fname. s = Import fname")
        case True
        then obtain fname iss P1 c P2 where "f H' parse iss P = Some (Inr P1)"
          "process_statements H' (Some fname) iss P1 = Some (Inr (c, P2))" "f H' parse rest P2 = Some (Inr P')"
          using prems(2) Cons r by (auto split: sum.splits bind_splits)
        then show ?thesis using IH P H step by blast
      next
        case False
        with Cons prems(2) r have "f H' parse rest P = Some (Inr P')" by (cases s) auto
        then show ?thesis using IH P H by blast
      qed
    qed (use prems(2) P r in auto)
    then show ?thesis by simp
  qed
  done

lemma do_imports_keeps:
  assumes "\<forall>im stmts P c P'. I P \<longrightarrow> process_statements H im stmts P = Some (Inr (c, P')) \<longrightarrow> I P'"
    and "do_imports H parse stmts P = Some (Inr P')" "I P"
  shows "I P'"
  using do_imports_keeps_rule[OF assms(1) assms(2)] assms(3) by simp

lemma do_imports_ok: "do_imports H parse stmts P = Some (Inr P') \<Longrightarrow> parser_ok P \<Longrightarrow> parser_ok P'"
  by (rule do_imports_keeps[where I = parser_ok]) (use process_statements_ok in blast)+

lemma empty_parser_ok: "parser_ok empty_parser"
  by (simp add: parser_ok_def empty_parser_def types_ok_empty)

lemma process_services_frame:
  "process_services order crc P = Inr P' \<Longrightarrow>
     global_types_by_name P' = global_types_by_name P \<and> p_messages P' = p_messages P \<and> p_types P' = p_types P \<and> p_file_crc P' = crc"
  by (auto simp: process_services_def Let_def split: sum.splits)

lemma api_parser_new_ok:
  assumes "api_parser_new H parse order fname = Some (Inr P)"
  shows "parser_ok P"
proof -
  obtain stmts P1 c P2 where "do_imports H parse stmts empty_parser = Some (Inr P1)"
    "process_statements H None stmts P1 = Some (Inr (c, P2))" "process_services (order (p_services P2)) c P2 = Inr P"
    using assms by (auto simp: api_parser_new_def res_bind_Ok split: sum.splits)
  with do_imports_ok empty_parser_ok process_statements_ok process_services_frame show ?thesis
    unfolding parser_ok_def by metis
qed

end
