(* ===== verification/Api_Crc.thy ===== *)
theory Api_Crc
  imports Api_Types
begin

text \<open>
  What the CRCs of the API generator are computed over.  \<open>hasher_laws\<close> is the documented contract
  of \<open>crc32fast::Hasher\<close>: updates append, and combining with the hasher of a block is updating
  with that block.
\<close>

definition hasher_laws :: "'h hasher \<Rightarrow> bool" where
  "hasher_laws H \<longleftrightarrow> (\<forall>h. h_update H h [] = h) \<and>
     (\<forall>h a b. h_update H (h_update H h a) b = h_update H h (a @ b)) \<and>
     (\<forall>h a. h_combine H h (h_update H (h_new H) a) = h_update H h a)"

definition crc_of :: "'h hasher \<Rightarrow> string \<Rightarrow> nat" where
  "crc_of H s = h_finalize H (h_update H (h_new H) s)"

text \<open>The text behind a list of fields: its own, then the texts of the types it refers to.\<close>

definition refs_text :: "(string \<Rightarrow> string) \<Rightarrow> field list \<Rightarrow> string" where
  "refs_text TT fds = concat (map (\<lambda>fd. case api_type_name (f_type fd) of None \<Rightarrow> [] | Some tn \<Rightarrow> TT tn) fds)"

definition fields_text :: "(string \<Rightarrow> string) \<Rightarrow> field list \<Rightarrow> string" where
  "fields_text TT fds = crc_data_for_fields fds @ refs_text TT fds"

definition text_for :: "'h hasher \<Rightarrow> (string \<Rightarrow> string) \<Rightarrow> (string \<rightharpoonup> 'h type_entry) \<Rightarrow> bool" where
  "text_for H TT T \<longleftrightarrow> (\<forall>n ty. T n = Some ty \<longrightarrow> ty_crc ty = h_update H (h_new H) (TT n) \<and>
     (case ty_details ty of
        TD_TypedefBlock fds \<Rightarrow> TT n = fields_text TT fds
      | TD_Union fds \<Rightarrow> TT n = fields_text TT fds
      | TD_Typedef t sz \<Rightarrow> TT n = ''[]''
      | _ \<Rightarrow> True))"

lemma combine_field_types_text:
  assumes H: "hasher_laws H" and T: "text_for H TT T"
  shows "combine_field_types H T fds (h_update H (h_new H) s) = Inr h \<Longrightarrow>
    h = h_update H (h_new H) (s @ refs_text TT fds)"
proof (induction fds arbitrary: s)
  case Nil
  then show ?case by (simp add: refs_text_def)
next
  case (Cons fd fds)
  show ?case
  proof (cases "api_type_name (f_type fd)")
    case None
    with Cons show ?thesis by (simp add: refs_text_def)
  next
    case (Some tn)
    then obtain ty where ty: "T tn = Some ty" using Cons.prems by (auto split: option.splits)
    then have "ty_crc ty = h_update H (h_new H) (TT tn)" using T by (simp add: text_for_def)
    then have "h_combine H (h_update H (h_new H) s) (ty_crc ty) = h_update H (h_new H) (s @ TT tn)"
      using H by (simp add: hasher_laws_def)
    with Cons.IH[of "s @ TT tn"] Cons.prems Some ty show ?thesis by (simp add: refs_text_def)
  qed
qed

lemma crc_for_fields_text:
  assumes "hasher_laws H" "text_for H TT T" "crc_for_fields H T fds = Inr h"
  shows "h = h_update H (h_new H) (fields_text TT fds)"
  using combine_field_types_text[OF assms(1,2)] assms(3) by (simp add: crc_for_fields_def fields_text_def)

lemma refs_text_upd:
  "refs_known T fds \<Longrightarrow> n \<notin> dom T \<Longrightarrow> fields_text (TT(n := x)) fds = fields_text TT fds"
  unfolding fields_text_def refs_text_def refs_known_def
  by (intro arg_cong2[of _ _ _ _ append] refl arg_cong[of _ _ concat] map_cong) (auto split: option.split)

definition messages_text :: "'h hasher \<Rightarrow> (string \<Rightarrow> string) \<Rightarrow> message list \<Rightarrow> bool" where
  "messages_text H TT ms \<longleftrightarrow> (\<forall>m\<in>set ms. msg_crc m = crc_of H (fields_text TT (tl (msg_fields m))))"

definition crc_inv :: "'h hasher \<Rightarrow> 'h api_parser \<Rightarrow> bool" where
  "crc_inv H P \<longleftrightarrow> parser_ok P \<and>
     (\<exists>TT. text_for H TT (global_types_by_name P) \<and> messages_text H TT (p_messages P))"

lemma reply_text: "generated_reply H m = Some r \<Longrightarrow> msg_crc r = crc_of H (fields_text TT (tl (msg_fields r)))"
proof -
  assume r: "generated_reply H m = Some r"
  then have "msg_crc r = crc_of H (crc_data_for_fields (tl (msg_fields r)))"
    by (auto simp: generated_reply_def Let_def crc_of_def split: if_splits)
  moreover have "refs_text TT (tl (msg_fields r)) = []"
    using r by (auto simp: generated_reply_def Let_def refs_text_def simple_field_def split: if_splits)
  ultimately show ?thesis by (simp add: fields_text_def)
qed

lemma process_statement_text:
  assumes H: "hasher_laws H" and T: "text_for H TT (global_types_by_name P)" and M: "messages_text H TT (p_messages P)"
    and st: "process_statement H import s P = Some (Inr (P', t))"
  shows "messages_text H TT (p_messages P')"
  unfolding messages_text_def
proof
  fix m assume m: "m \<in> set (p_messages P')"
  show "msg_crc m = crc_of H (fields_text TT (tl (msg_fields m)))"
  proof (cases "m \<in> set (p_messages P)")
    case True
    with M show ?thesis by (simp add: messages_text_def)
  next
    case False
    from st m this show ?thesis
    proof (cases rule: process_statement_messages)
      case (own name opts fds flags comment v crc)
      with crc_for_fields_text[OF H T] show ?thesis by (simp add: message_new_def crc_of_def)
    next
      case (reply m')
      then show ?thesis by (rule reply_text)
    qed
  qed
qed

lemma process_statement_type_text:
  assumes H: "hasher_laws H" and T: "text_for H TT (global_types_by_name P)"
    and st: "process_statement H import s P = Some (Inr (P', Some (n, ty)))"
  shows "\<exists>x. ty_crc ty = h_update H (h_new H) x \<and> (case ty_details ty of
        TD_TypedefBlock fds \<Rightarrow> x = fields_text TT fds
      | TD_Union fds \<Rightarrow> x = fields_text TT fds
      | TD_Typedef t sz \<Rightarrow> x = ''[]''
      | _ \<Rightarrow> True)"
  using st crc_for_fields_text[OF H T]
  by (cases s) (auto simp: process_statement_def process_define_def process_typedef_block_def process_typedef_def
      process_union_def process_enum_def process_enumflag_def res_bind_Ok Let_def
      split: if_splits sum.splits option.splits bind_splits field_size.splits)

lemma register_type_text:
  assumes P: "crc_inv H P" and ok: "entry_ok (global_types_by_name P) ty" and reg: "register_type n ty P = Inr P'"
    and x: "\<And>TT. text_for H TT (global_types_by_name P) \<Longrightarrow> \<exists>x. ty_crc ty = h_update H (h_new H) x \<and> (case ty_details ty of
        TD_TypedefBlock fds \<Rightarrow> x = fields_text TT fds
      | TD_Union fds \<Rightarrow> x = fields_text TT fds
      | TD_Typedef t sz \<Rightarrow> x = ''[]''
      | _ \<Rightarrow> True)"
  shows "crc_inv H P'"
proof -
  let ?T = "global_types_by_name P"
  have n: "n \<notin> dom ?T" and P': "P' = P\<lparr>global_types_by_name := ?T(n \<mapsto> ty)\<rparr>"
    using reg by (auto simp: register_type_def split: if_splits)
  obtain TT where TT: "text_for H TT ?T" "messages_text H TT (p_messages P)" and pok: "parser_ok P"
    using P by (auto simp: crc_inv_def)
  obtain x where x: "ty_crc ty = h_update H (h_new H) x" "case ty_details ty of
        TD_TypedefBlock fds \<Rightarrow> x = fields_text TT fds | TD_Union fds \<Rightarrow> x = fields_text TT fds
      | TD_Typedef t sz \<Rightarrow> x = ''[]'' | _ \<Rightarrow> True" using x[OF TT(1)] by blast
  let ?TT = "TT(n := x)"
  have same: "fields_text ?TT fds = fields_text TT fds" if "refs_known ?T fds" for fds
    using refs_text_upd[OF that n] .
  have known: "refs_known ?T (details_fields (ty_details ty'))" if "?T m = Some ty'" for m ty'
    using pok that by (auto simp: parser_ok_def entry_ok_def ran_def)
  have "text_for H ?TT (?T(n \<mapsto> ty))"
    unfolding text_for_def
  proof (intro allI impI)
    fix m ty' assume m: "(?T(n \<mapsto> ty)) m = Some ty'"
    show "ty_crc ty' = h_update H (h_new H) (?TT m) \<and> (case ty_details ty' of
        TD_TypedefBlock fds \<Rightarrow> ?TT m = fields_text ?TT fds | TD_Union fds \<Rightarrow> ?TT m = fields_text ?TT fds
      | TD_Typedef t sz \<Rightarrow> ?TT m = ''[]'' | _ \<Rightarrow> True)"
    proof (cases "m = n")
      case True
      with m x ok same show ?thesis
        by (auto simp: entry_ok_def details_fields_def split: type_details.splits)
    next
      case False
      with m have T: "?T m = Some ty'" by simp
      with TT(1) have "ty_crc ty' = h_update H (h_new H) (TT m)" "case ty_details ty' of
        TD_TypedefBlock fds \<Rightarrow> TT m = fields_text TT fds | TD_Union fds \<Rightarrow> TT m = fields_text TT fds
      | TD_Typedef t sz \<Rightarrow> TT m = ''[]'' | _ \<Rightarrow> True" by (auto simp: text_for_def)
      with False same known[OF T] show ?thesis
        by (auto simp: details_fields_def split: type_details.splits)
    qed
  qed
  moreover have "messages_text H ?TT (p_messages P)"
    unfolding messages_text_def
  proof
    fix m assume m: "m \<in> set (p_messages P)"
    then have "refs_known ?T (msg_fields m)" using pok by (simp add: parser_ok_def message_ok_def)
    then have "refs_known ?T (tl (msg_fields m))" unfolding refs_known_def by (metis list.set_sel(2) tl_Nil)
    with m TT(2) same show "msg_crc m = crc_of H (fields_text ?TT (tl (msg_fields m)))" by (simp add: messages_text_def)
  qed
  ultimately show ?thesis using register_type_ok[OF pok ok reg] by (auto simp: crc_inv_def P')
qed

definition st_text :: "statement \<Rightarrow> string" where
  "st_text s = (case st_crc_data s of Some (Some d) \<Rightarrow> d | _ \<Rightarrow> [])"

lemma process_statements_loop_text:
  assumes H: "hasher_laws H"
  shows "crc_inv H P \<Longrightarrow> process_statements_loop H import (h_update H (h_new H) x) stmts P = Some (Inr (c, P')) \<Longrightarrow>
    crc_inv H P' \<and> c = crc_of H (x @ concat (map st_text stmts))"
proof (induction stmts arbitrary: x P)
  case Nil
  then show ?case by (simp add: crc_of_def)
next
  case (Cons stmt stmts)
  let ?crc = "h_update H (h_new H) (x @ st_text stmt)"
  obtain data P1 t where data: "st_crc_data stmt = Some data" and st: "process_statement H import stmt P = Some (Inr (P1, t))"
    and rest: "(case t of None \<Rightarrow> process_statements_loop H import ?crc stmts P1
       | Some (name, ty) \<Rightarrow> (case register_type name ty P1 of Inl e \<Rightarrow> Some (Inl e)
            | Inr P2 \<Rightarrow> process_statements_loop H import ?crc stmts P2)) = Some (Inr (c, P'))"
  proof -
    from Cons.prems(2) obtain data P1 t where d: "st_crc_data stmt = Some data"
      and st: "process_statement H import stmt P = Some (Inr (P1, t))"
      and rest: "(case t of None \<Rightarrow> process_statements_loop H import
            (case data of Some d \<Rightarrow> h_update H (h_update H (h_new H) x) d | None \<Rightarrow> h_update H (h_new H) x) stmts P1
         | Some (name, ty) \<Rightarrow> (case register_type name ty P1 of Inl e \<Rightarrow> Some (Inl e)
            | Inr P2 \<Rightarrow> process_statements_loop H import
                (case data of Some d \<Rightarrow> h_update H (h_update H (h_new H) x) d | None \<Rightarrow> h_update H (h_new H) x) stmts P2)) = Some (Inr (c, P'))"
      by (auto simp: Let_def res_bind_Ok split: bind_splits)
    have eq: "(case data of Some d \<Rightarrow> h_update H (h_update H (h_new H) x) d | None \<Rightarrow> h_update H (h_new H) x) = ?crc"
      using H d by (simp add: st_text_def hasher_laws_def split: option.split)
    show thesis by (rule that[OF d st rest[unfolded eq]])
  qed
  obtain TT where TT: "text_for H TT (global_types_by_name P)" "messages_text H TT (p_messages P)" and pok: "parser_ok P"
    using Cons.prems(1) by (auto simp: crc_inv_def)
  note types = process_statement_types[OF st]
  have P1: "crc_inv H P1"
    using process_statement_ok[OF pok st] process_statement_text[OF H TT st] TT(1) types by (auto simp: crc_inv_def)
  show ?case
  proof (cases t)
    case None
    with Cons.IH[OF P1, of "x @ st_text stmt"] rest show ?thesis by simp
  next
    case (Some y)
    obtain name ty where y: "y = (name, ty)" by (cases y)
    then obtain P2 where P2: "register_type name ty P1 = Inr P2"
      "process_statements_loop H import ?crc stmts P2 = Some (Inr (c, P'))"
      using rest Some by (auto split: sum.splits)
    have "entry_ok (global_types_by_name P1) ty"
      using process_statement_entry st types Some y by metis
    moreover have "\<exists>x. ty_crc ty = h_update H (h_new H) x \<and> (case ty_details ty of
        TD_TypedefBlock fds \<Rightarrow> x = fields_text TT fds | TD_Union fds \<Rightarrow> x = fields_text TT fds
      | TD_Typedef t sz \<Rightarrow> x = ''[]'' | _ \<Rightarrow> True)" if "text_for H TT (global_types_by_name P1)" for TT
      using process_statement_type_text[OF H, of TT P import stmt P1 name ty] st that types Some y by simp
    ultimately have "crc_inv H P2" by (rule register_type_text[OF P1 _ P2(1)])
    from Cons.IH[OF this P2(2)] show ?thesis by simp
  qed
qed

lemma process_statements_text:
  assumes "hasher_laws H" "crc_inv H P" "process_statements H import stmts P = Some (Inr (c, P'))"
  shows "crc_inv H P'" "c = crc_of H (concat (map st_text stmts))"
proof -
  have "h_update H (h_new H) [] = h_new H" using assms(1) by (simp add: hasher_laws_def)
  with process_statements_loop_text[OF assms(1,2), of import "[]" stmts c P'] assms(3)
  show "crc_inv H P'" "c = crc_of H (concat (map st_text stmts))" by (simp_all add: process_statements_def)
qed

lemma crc_inv_empty: "crc_inv H empty_parser"
  by (simp add: crc_inv_def empty_parser_ok text_for_def messages_text_def) (simp add: empty_parser_def)

lemma api_parser_new_text:
  assumes H: "hasher_laws H" and new: "api_parser_new H parse order fname = Some (Inr P)"
  shows "\<exists>stmts. parse fname = Inr stmts \<and> p_file_crc P = crc_of H (concat (map st_text stmts))"
    and "\<exists>TT. text_for H TT (global_types_by_name P) \<and> messages_text H TT (p_messages P)"
proof -
  obtain stmts P1 c P2 where r: "parse fname = Inr stmts" "do_imports H parse stmts empty_parser = Some (Inr P1)"
    "process_statements H None stmts P1 = Some (Inr (c, P2))" "process_services (order (p_services P2)) c P2 = Inr P"
    using new by (auto simp: api_parser_new_def res_bind_Ok split: sum.splits)
  have P1: "crc_inv H P1"
    using r(2) crc_inv_empty by (rule do_imports_keeps[where I = "crc_inv H", rotated]) (use process_statements_text(1)[OF H] in blast)
  note f = process_services_frame[OF r(4)]
  from process_statements_text[OF H P1 r(3)] f r(1)
  show "\<exists>stmts. parse fname = Inr stmts \<and> p_file_crc P = crc_of H (concat (map st_text stmts))"
    "\<exists>TT. text_for H TT (global_types_by_name P) \<and> messages_text H TT (p_messages P)"
    by (auto simp: crc_inv_def)
qed

text \<open>A backwards-compatible variant at the end leaves the CRC text of an enum as it was.\<close>

lemma enum_values_append: "\<exists>n'. enum_values n (bs @ cs) = enum_values n bs @ enum_values n' cs"
  by (induction n bs rule: enum_values.induct) (auto simp: Let_def)

lemma enum_text_append_compatible:
  assumes "backwards_compatible opts" "crc_data_for_enum_block_statements (bs @ [Variant i v opts]) = Some s"
  shows "crc_data_for_enum_block_statements bs = Some s"
proof -
  have "enum_crc_items n (bs @ [Variant i v opts]) = Some xs \<Longrightarrow> enum_crc_items n bs = Some xs" for n xs
    using assms(1) by (induction n bs arbitrary: xs rule: enum_crc_items.induct)
      (auto simp: Let_def split: bind_splits if_splits)
  with assms(2) show ?thesis by (auto simp: crc_data_for_enum_block_statements_def)
qed

end
