(* ===== verification/Api_Props.thy ===== *)
theory Api_Props
  imports Api_Crc
begin

text \<open>
  What a successful run of the API parser guarantees: the layout of types and messages, the CRCs,
  the services; and which inputs make it fail or not return.
\<close>

section \<open>A sample API file\<close>

definition text_hasher :: "string hasher" where
  "text_hasher = \<lparr>h_new = [], h_update = (@), h_combine = (@), h_finalize = length\<rparr>"

lemma text_hasher_laws: "hasher_laws text_hasher"
  by (simp add: hasher_laws_def text_hasher_def)

definition sample_field :: "string \<Rightarrow> string \<Rightarrow> field_size option \<Rightarrow> field" where
  "sample_field t n sz = \<lparr>f_type = t, f_name = n, f_options = [], f_size = sz\<rparr>"

definition sample_api :: "statement list" where
  "sample_api =
     [TypedefBlock ''addr'' [] [sample_field ''u8'' ''len'' None, sample_field ''u8'' ''data'' (Some (Variable (Some ''len'')))] [],
      Define ''ping'' [] [sample_field ''u32'' ''client_index'' None, sample_field ''vl_api_addr_t'' ''a'' None] [AutoReply] None]"

definition sample_parse :: "string \<Rightarrow> api_error + statement list" where
  "sample_parse f = (if f = ''m'' then Inr sample_api else Inl (Io f))"

definition sample_parser :: "string api_parser" where
  "sample_parser = (case api_parser_new text_hasher sample_parse (map caller) ''m'' of Some (Inr P) \<Rightarrow> P | _ \<Rightarrow> empty_parser)"

lemma sample_runs: "api_parser_new text_hasher sample_parse (map caller) ''m'' = Some (Inr sample_parser)"
proof -
  have "case api_parser_new text_hasher sample_parse (map caller) ''m'' of Some (Inr P) \<Rightarrow> True | _ \<Rightarrow> False" by code_simp
  then show ?thesis by (auto simp: sample_parser_def split: option.splits sum.splits)
qed

section \<open>Layout\<close>



text \<open>The search for a variable-length array through nested types ends for every field list of
  an accepted parser (it is a recursion through the type table that nothing in the code bounds).\<close>

theorem vla_search_terminates:
  assumes "api_parser_new H parse order fname = Some (Inr P)"
  shows "message_vla P m \<noteq> None \<and> type_vla P t \<noteq> None"
proof -
  have "types_ok (global_types_by_name P)" using api_parser_new_ok[OF assms] by (simp add: parser_ok_def)
  from field_vla_total[OF this] show ?thesis by (simp add: message_vla_def type_vla_def fields_vla_def)
qed

lemma vla_search_terminates_witness: "\<forall>m t. message_vla sample_parser m \<noteq> None \<and> type_vla sample_parser t \<noteq> None"
  using vla_search_terminates[OF sample_runs] by blast

section \<open>CRCs\<close>

text \<open>C31: The CRC of a message, its own or a generated reply, is the CRC of one text: that of its
  fields without the message id, followed by the texts of the types the fields refer to in order;
  the text of a struct or union is defined in the same way, that of an alias is \<open>[]\<close>.\<close>

theorem message_crc_text:
  assumes "hasher_laws H" "api_parser_new H parse order fname = Some (Inr P)"
  shows "\<exists>TT. text_for H TT (global_types_by_name P) \<and>
    (\<forall>m\<in>set (p_messages P). msg_crc m = crc_of H (fields_text TT (tl (msg_fields m))))"
  using api_parser_new_text(2)[OF assms] by (simp add: messages_text_def)

lemma message_crc_text_witness:
  "\<exists>TT. list_all (\<lambda>m. msg_crc m = crc_of text_hasher (fields_text TT (tl (msg_fields m)))) (p_messages sample_parser)"
  using message_crc_text[OF text_hasher_laws sample_runs] by (auto simp: list_all_iff)

text \<open>The CRC of a file is the CRC of the concatenated texts of its own statements: imports
  and the order of the services in the map do not enter it.\<close>

theorem file_crc_text:
  assumes "hasher_laws H" "api_parser_new H parse order fname = Some (Inr P)"
  shows "\<exists>stmts. parse fname = Inr stmts \<and> p_file_crc P = crc_of H (concat (map st_text stmts))"
  by (rule api_parser_new_text(1)[OF assms])

lemma file_crc_text_witness:
  "p_file_crc sample_parser = crc_of text_hasher (concat (map st_text sample_api))"
  using file_crc_text[OF text_hasher_laws sample_runs] by (simp add: sample_parse_def)

text \<open>Adding a variant marked \<open>backwards_compatible\<close> at the end of an enum does not change the
  text over which the enum's CRC is computed.\<close>

theorem compatible_variant_keeps_crc:
  assumes "backwards_compatible opts" "crc_data_for_enum_block_statements (bs @ [Variant i v opts]) = Some s"
  shows "crc_data_for_enum_block_statements bs = Some s"
  by (rule enum_text_append_compatible[OF assms])


definition compatible_option :: option_statement where
  "compatible_option = \<lparr>os_option = ''backwards_compatible'', os_value = None\<rparr>"

lemma compatible_variant_keeps_crc_witness:
  "crc_data_for_enum_block_statements [Variant ''A'' None []] =
     crc_data_for_enum_block_statements ([Variant ''A'' None []] @ [Variant ''B'' None [compatible_option]])"
  using compatible_variant_keeps_crc[of "[compatible_option]" "[Variant ''A'' None []]" "''B''" None]
  by (simp add: compatible_option_def backwards_compatible_def crc_data_for_enum_block_statements_def
      checked_add_def U32_MAX_def)

text \<open>The values of an enum's variants: each has the name written in the file and its own value
  or one more than the variant before it; the generator panics exactly when some value is
  \<open>0xffffffff\<close>, also for the last variant, because the next value is computed eagerly.\<close>

theorem enum_variants_exact:
  "enum_variants_from_block_statements bs =
     (if list_all (\<lambda>v. v < 4294967295) (enum_values 0 bs)
      then Some (map2 (\<lambda>s v. \<lparr>ev_id = variant_name s, ev_value = v\<rparr>) bs (enum_values 0 bs)) else None)"
  using enum_variants_from_values[of 0 bs] by (simp add: enum_variants_from_block_statements_def U32_MAX_def list_all_iff)

section \<open>Services\<close>

definition order_ok :: "string list \<Rightarrow> 'h api_parser \<Rightarrow> bool" where
  "order_ok order P \<longleftrightarrow> set order = dom (service_by_caller (p_services P))"

definition events_of :: "(string \<rightharpoonup> service) \<Rightarrow> string \<Rightarrow> string set" where
  "events_of bc r = (case bc r of None \<Rightarrow> {} | Some s \<Rightarrow> set (events s))"

lemma check_services_Ok:
  "check_services names bc br order seen = Inr seen' \<longleftrightarrow>
     (\<forall>r\<in>set order. \<forall>s. bc r = Some s \<longrightarrow> check_service names br r s = Inr ()) \<and>
     seen' = seen \<union> (\<Union>r\<in>set order. events_of bc r)"
proof (induction order arbitrary: seen)
  case (Cons r order)
  show ?case
  proof (cases "bc r")
    case (Some s)
    with Cons.IH[of "seen \<union> set (events s)"] show ?thesis
      by (cases "check_service names br r s") (auto simp: events_of_def)
  qed (use Cons in \<open>simp add: events_of_def\<close>)
qed auto

lemma check_service_Ok:
  "check_service names br r s = Inr () \<longleftrightarrow>
     r \<in> names \<and> (reply s = ''null'' \<or> reply s \<in> names) \<and> br r = None \<and> set (events s) \<subseteq> names"
  by (auto simp: check_service_def find_None_iff split: option.split dest: find_SomeD)

text \<open>Which order the map of services is iterated in does not matter for success: two orders
  that both list its keys accept the same files with the same result.\<close>

theorem service_order_irrelevant:
  assumes "order_ok o1 P" "order_ok o2 P" "process_services o1 crc P = Inr P'"
  shows "process_services o2 crc P = Inr P'"
proof -
  have sets: "set o2 = set o1" using assms(1,2) by (simp add: order_ok_def)
  obtain seen where seen: "check_services (set (map msg_name (p_messages P))) (service_by_caller (p_services P))
      (service_by_reply (p_services P)) o1 {} = Inr seen"
    using assms(3) by (auto simp: process_services_def Let_def split: sum.splits)
  then have "check_services (set (map msg_name (p_messages P))) (service_by_caller (p_services P))
      (service_by_reply (p_services P)) o2 {} = Inr seen"
    unfolding check_services_Ok sets .
  with seen assms(3) show ?thesis by (simp add: process_services_def Let_def)
qed

definition sample_services :: "string api_parser" where
  "sample_services = empty_parser\<lparr>p_messages := map (\<lambda>n. message_new n [] [] [] 0 None) [''a'', ''a_r'', ''b'', ''b_r''],
     p_services := [\<lparr>caller = ''a'', reply = ''null'', events = [''a_r''], stream = False, stream_message = None\<rparr>,
                    \<lparr>caller = ''b'', reply = ''null'', events = [''b_r''], stream = False, stream_message = None\<rparr>]\<rparr>"

lemma service_order_irrelevant_witness:
  "\<exists>P'. process_services [''a'', ''b''] 5 sample_services = Inr P' \<and> process_services [''b'', ''a''] 5 sample_services = Inr P'"
proof -
  have "case process_services [''a'', ''b''] 5 sample_services of Inr P \<Rightarrow> True | _ \<Rightarrow> False" by code_simp
  then obtain P' where P': "process_services [''a'', ''b''] 5 sample_services = Inr P'" by (auto split: sum.splits)
  moreover have "process_services [''b'', ''a''] 5 sample_services = Inr P'"
    by (rule service_order_irrelevant[OF _ _ P'])
      (auto simp: order_ok_def sample_services_def service_by_caller_def empty_parser_def split: if_splits)
  ultimately show ?thesis by blast
qed

lemma implicit_services_Ok:
  "implicit_services names bc seen ms ss = Inr ss' \<Longrightarrow>
     (\<exists>new. ss' = ss @ new \<and> (\<forall>s\<in>set new. caller s \<in> set ms \<and> reply s \<in> names \<and> bc (caller s) = None) \<and>
        (distinct ms \<longrightarrow> distinct (map caller new))) \<and>
     (\<forall>m\<in>set ms. m \<notin> seen \<longrightarrow> (\<exists>r. service_for_message names bc m = Inr r \<and> (\<forall>s. r = Some s \<longrightarrow> s \<in> set ss')))"
proof (induction ms arbitrary: ss)
  case (Cons m ms)
  show ?case
  proof (cases "m \<in> seen")
    case True
    with Cons show ?thesis by fastforce
  next
    case False
    with Cons.prems obtain r where r: "service_for_message names bc m = Inr r" by (auto split: sum.splits)
    show ?thesis
    proof (cases r)
      case None
      with Cons False r show ?thesis by fastforce
    next
      case (Some s)
      then have rest: "implicit_services names bc seen ms (ss @ [s]) = Inr ss'" using Cons.prems False r by simp
      have s: "caller s = m" "reply s \<in> names" "bc m = None"
        using r Some by (auto simp: service_for_message_def implicit_service_def Let_def split: option.splits if_splits)
      from Cons.IH[OF rest] obtain new where new: "ss' = (ss @ [s]) @ new"
        "\<forall>s\<in>set new. caller s \<in> set ms \<and> reply s \<in> names \<and> bc (caller s) = None"
        "distinct ms \<longrightarrow> distinct (map caller new)"
        "\<forall>m\<in>set ms. m \<notin> seen \<longrightarrow> (\<exists>r. service_for_message names bc m = Inr r \<and> (\<forall>s. r = Some s \<longrightarrow> s \<in> set ss'))"
        by blast
      then have "ss' = ss @ (s # new)" "\<forall>s'\<in>set (s # new). caller s' \<in> set (m # ms) \<and> reply s' \<in> names \<and> bc (caller s') = None"
        "distinct (m # ms) \<longrightarrow> distinct (map caller (s # new))"
        using s by auto
      moreover have "s \<in> set ss'" using new(1) by simp
      ultimately show ?thesis using new(4) r Some by auto
    qed
  qed
qed simp

lemma service_by_caller_None: "service_by_caller ss r = None \<longleftrightarrow> r \<notin> caller ` set ss"
  unfolding service_by_caller_def map_of_eq_None_iff by (auto simp: image_iff)

lemma services_sound:
  assumes order: "order_ok order P" and ok: "process_services order crc P = Inr P'"
  defines "names \<equiv> set (map msg_name (p_messages P))"
  shows "service_by_caller (p_services P) r = Some s \<Longrightarrow> r \<in> names \<and> (reply s = ''null'' \<or> reply s \<in> names) \<and>
      set (events s) \<subseteq> names \<and> service_by_reply (p_services P) r = None"
    "\<exists>new. p_services P' = p_services P @ new \<and>
      (\<forall>s\<in>set new. caller s \<in> names \<and> reply s \<in> names \<and> caller s \<notin> caller ` set (p_services P)) \<and>
      (distinct (map msg_name (p_messages P)) \<longrightarrow> distinct (map caller new))"
proof -
  let ?bc = "service_by_caller (p_services P)"
  obtain seen ss where c: "check_services names ?bc (service_by_reply (p_services P)) order {} = Inr seen"
    and i: "implicit_services names ?bc seen (map msg_name (p_messages P)) (p_services P) = Inr ss" and P': "p_services P' = ss"
    using ok by (auto simp: process_services_def Let_def names_def split: sum.splits)
  show "\<exists>new. p_services P' = p_services P @ new \<and>
      (\<forall>s\<in>set new. caller s \<in> names \<and> reply s \<in> names \<and> caller s \<notin> caller ` set (p_services P)) \<and>
      (distinct (map msg_name (p_messages P)) \<longrightarrow> distinct (map caller new))"
    using implicit_services_Ok[OF i] P' unfolding names_def service_by_caller_None by blast
  assume r: "?bc r = Some s"
  then have "r \<in> set order" using order by (auto simp: order_ok_def)
  with c r show "r \<in> names \<and> (reply s = ''null'' \<or> reply s \<in> names) \<and> set (events s) \<subseteq> names \<and>
      service_by_reply (p_services P) r = None"
    unfolding check_services_Ok using check_service_Ok by blast
qed



section \<open>Imports\<close>

text \<open>The first import of a file, if it has one.\<close>

fun first_import :: "statement list \<Rightarrow> string option" where
  "first_import [] = None"
| "first_import (Import f # ss) = Some f"
| "first_import (s # ss) = first_import ss"

lemma do_imports_loops:
  assumes loop: "\<forall>f\<in>F. \<exists>ss g. parse f = Inr ss \<and> first_import ss = Some g \<and> g \<in> F"
  shows "first_import stmts = Some g \<Longrightarrow> g \<in> F \<Longrightarrow> do_imports H parse stmts P = None"
proof -
  have "(\<lambda>(((H, parse'), stmts), P) r. parse' = parse \<longrightarrow> (\<forall>g. first_import stmts = Some g \<longrightarrow> g \<notin> F)) (((H, parse), stmts), P) r"
    if "do_imports H parse stmts P = Some r" for r
    apply (rule do_imports.raw_induct[OF _ that])
    subgoal premises prems for f H parse' stmts P r
    proof -
      have IH: "f H parse' ss Q = Some r' \<Longrightarrow> parse' = parse \<Longrightarrow> first_import ss = Some g \<Longrightarrow> g \<notin> F" for ss Q r' g
        using prems(1)[of H parse' ss Q r'] by simp
      have "g \<notin> F" if p: "parse' = parse" and g: "first_import stmts = Some g" for g
      proof (cases stmts)
        case (Cons s rest)
        show ?thesis
        proof (cases "\<exists>f. s = Import f")
          case True
          then have s: "s = Import g" using g Cons by auto
          show ?thesis
          proof
            assume "g \<in> F"
            then obtain ss g' where ss: "parse g = Inr ss" "first_import ss = Some g'" "g' \<in> F" using loop by blast
            then obtain r' where "f H parse' ss P = Some r'" using prems(2) Cons s p by (auto split: bind_splits)
            with IH p ss show False by blast
          qed
        next
          case False
          with Cons prems(2) have "f H parse' rest P = Some r" by (cases s) auto
          moreover have "first_import rest = Some g" using g Cons False by (cases s) auto
          ultimately show ?thesis using IH p by blast
        qed
      qed (use g in simp)
      then show ?thesis by simp
    qed
    done
  then show "first_import stmts = Some g \<Longrightarrow> g \<in> F \<Longrightarrow> do_imports H parse stmts P = None" by fastforce
qed

text \<open>The parser never returns on a file whose imports lead back to themselves: when every file
  of a set parses and its first import is in the set again (a file that imports itself, or two that
  import each other), \<open>ApiParser::new\<close> on a file of the set recurses for ever.\<close>

theorem cyclic_imports_diverge:
  assumes "\<forall>f\<in>F. \<exists>ss g. parse f = Inr ss \<and> first_import ss = Some g \<and> g \<in> F" "fname \<in> F"
  shows "api_parser_new H parse order fname = None"
proof -
  obtain ss g where ss: "parse fname = Inr ss" "first_import ss = Some g" "g \<in> F" using assms by blast
  then show ?thesis by (simp add: api_parser_new_def do_imports_loops[OF assms(1)])
qed

lemma cyclic_imports_diverge_witness:
  "api_parser_new text_hasher (\<lambda>f. Inr [Import (if f = ''a'' then ''b'' else ''a'')]) (map caller) ''a'' = None"
  by (rule cyclic_imports_diverge[of "{''a'', ''b''}"]) auto

definition diamond :: "string \<Rightarrow> api_error + statement list" where
  "diamond f =
     (if f = ''top'' then Inr [Import ''left'', Import ''right'']
      else if f = ''left'' \<or> f = ''right'' then Inr [Import ''base'']
      else if f = ''base'' then Inr [Typedef (sample_field ''u32'' ''index'' None) []]
      else Inl (Io f))"

text \<open>A diamond of imports is refused: when two imported files both import a third one that
  defines a type, \<open>ApiParser::new\<close> reports the type as redefined, although it is defined once.\<close>

theorem diamond_import_refused:
  "api_parser_new H diamond order ''top'' = Some (Inl (TypeRedefinition ''index''))"
  by (simp add: api_parser_new_def diamond_def do_imports.simps process_statements_def st_crc_data_def process_statement_def
      process_typedef_def register_type_def empty_parser_def sample_field_def Let_def)

end
