(* ===== verification/Api_Roundtrip.thy ===== *)
theory Api_Roundtrip
  imports Api_Print Api_Props
begin

text \<open>
  Every statement reads back from its printed text, so do whole files, and the parser's result on
  a printed file is its result on the syntax tree.
\<close>

section \<open>Defines, typedefs and unions\<close>

lemma pp_block_start: "\<exists>t. pp_block opts fds = CHR ''{'' # t"
  by (simp add: pp_block_def)

lemma keyword_block_prints:
  assumes "ident_ok n" "block_ok opts fds"
  shows "r_ws (n @ pp_block opts fds @ s) = Some ((), n @ pp_block opts fds @ s)"
    "r_identifier (n @ pp_block opts fds @ s) = Some (n, pp_block opts fds @ s)"
    "r_block (pp_block opts fds @ s) = Some (block_statements_of opts fds, s)"
proof -
  obtain t where t: "pp_block opts fds = CHR ''{'' # t" using pp_block_start by blast
  show "r_ws (n @ pp_block opts fds @ s) = Some ((), n @ pp_block opts fds @ s)"
    using assms by (simp add: r_ws_none)
  show "r_identifier (n @ pp_block opts fds @ s) = Some (n, pp_block opts fds @ s)"
    using assms by (simp add: t r_identifier_prints is_ident_start_def is_digit_def)
qed (rule r_block_prints[OF assms(2)])

lemmas define_rules = r_define_def r_define_comment_def r_define_comment_flags_def r_define_plain_def r_define_flags_def

lemma r_flag_list_start:
  "r_flag_list (CHR '' '' # CHR ''d'' # CHR ''e'' # s) = None"
  "r_flag_list (CHR '' '' # CHR ''t'' # s) = None" "r_flag_list (CHR '' '' # CHR ''u'' # s) = None"
  by (simp_all add: r_flag_list_prints(2) r_flag_keyword)

lemma flag_char:
  assumes "fs \<noteq> []"
  obtains f cs where "concat (map pp_flag fs) @ s = CHR '' '' # flag_name f @ cs" "f \<in> set fs"
  using assms by (cases fs) (auto simp: pp_flag_def)

lemma r_comment_flags: "r_comment (CHR '' '' # flag_name f @ cs) = None"
  by (rule r_comment_None) (cases f; simp add: flag_name_def is_space_def)

lemma r_space_flags: "r_space (CHR '' '' # flag_name f @ cs) = Some ((), flag_name f @ cs)"
  by (cases f) (simp_all add: r_space_def is_space_def flag_name_def)

lemma r_ws_flags: "r_ws (CHR '' '' # flag_name f @ cs) = Some ((), flag_name f @ cs)"
  by (cases f) (simp_all add: lexing is_space_def flag_name_def)

lemma lit_flags: "lit ''define'' (flag_name f @ cs) = None" "lit ''typedef'' (flag_name f @ cs) = None"
  by (cases f; simp add: lexing flag_name_def)+

lemma r_define_prints:
  assumes "statement_ok (Define n opts fds fs c)"
  shows "r_define (pp_statement (Define n opts fds fs c) @ s) = Some (Define n opts fds fs c, s)"
proof -
  have n: "ident_ok n" and b: "block_ok opts fds" and c: "opt_comment_ok c"
    using assms by (simp_all add: statement_ok_def)
  note kb = keyword_block_prints[OF n b, of s]
  let ?body = "'' define '' @ n @ pp_block opts fds @ s"
  have body: "r_space ?body = Some ((), tl ?body)" "r_ws ?body = Some ((), tl ?body)"
    "r_keyword_name ''define'' (tl ?body) = Some (n, pp_block opts fds @ s)"
    by (simp_all add: lexing is_space_def r_keyword_name_def kb)
  have fl: "r_flag_list ?body = None" by (simp add: r_flag_list_start)
  have flb: "fs \<noteq> [] \<Longrightarrow> r_flag_list (concat (map pp_flag fs) @ ?body) = Some (fs, ?body)"
    by (rule r_flag_list_prints) (simp_all add: r_flag_keyword)
  have nc: "r_comment ?body = None" by (simp add: r_comment_None is_space_def)
  show ?thesis
  proof (cases fs)
    case Nil
    show ?thesis
    proof (cases c)
      case None
      then show ?thesis using Nil
        by (simp add: pp_statement_def pp_comment_def define_rules orelse_def nc[simplified] body[simplified] kb st_define_def)
    next
      case (Some c')
      then have c': "comment_ok c'" using c by (simp add: opt_comment_ok_def)
      show ?thesis using Nil Some
        by (simp add: pp_statement_def pp_comment_def define_rules orelse_def comment_ok_prints[OF c'] body[simplified] kb st_define_def)
    qed
  next
    case (Cons f0 fs')
    then obtain f cs where f: "concat (map pp_flag fs) @ ?body = CHR '' '' # flag_name f @ cs"
      using flag_char[of fs ?body] by blast
    have no_kw: "r_keyword_name ''define'' (flag_name f @ cs) = None" by (simp add: r_keyword_name_def lit_flags)
    note flb' = flb[unfolded f, simplified Cons, simplified]
    have text_eq: "pp_statement (Define n opts fds fs c) @ s = pp_comment c @ CHR '' '' # flag_name f @ cs"
      using f by (simp add: pp_statement_def)
    show ?thesis
    proof (cases c)
      case None
      show ?thesis unfolding text_eq
        by (simp add: None pp_comment_def define_rules orelse_def r_comment_flags r_ws_flags no_kw flb' body[simplified]
            kb st_define_def Cons)
    next
      case (Some c')
      then have c': "comment_ok c'" using c by (simp add: opt_comment_ok_def)
      show ?thesis unfolding text_eq
        by (simp add: Some pp_comment_def define_rules orelse_def comment_ok_prints[OF c'] r_space_flags no_kw flb' body[simplified]
            kb st_define_def Cons)
    qed
  qed
qed

lemma flags_text:
  assumes "fs \<noteq> []" "r_flag body = None"
  obtains f cs where "concat (map pp_flag fs) @ body = CHR '' '' # flag_name f @ cs"
    "r_flag_list (CHR '' '' # flag_name f @ cs) = Some (fs, body)"
  using flag_char[OF assms(1), of body] r_flag_list_prints(1)[OF assms(2,1)] by metis

lemma no_keyword_flags [simp]:
  "r_keyword_name ''define'' (flag_name f @ cs) = None" "r_keyword_name ''typedef'' (flag_name f @ cs) = None"
  "r_tok ''typedef'' (CHR '' '' # flag_name f @ cs) = None"
  by (simp_all add: r_keyword_name_def lit_flags r_tok_def r_ws_flags)

lemma r_flag_ws: "r_ws s = r_ws s' \<Longrightarrow> r_flag s = r_flag s'"
  unfolding r_flag_def Let_def orelse_def r_tok_def by (simp only:)

lemma r_define_other:
  assumes "\<not> ws_start t" "\<And>cs. t \<noteq> ''define'' @ cs" "r_flag (CHR '' '' # t) = None" "opt_comment_ok c"
  shows "r_define (pp_comment c @ CHR '' '' # t) = None"
proof -
  have d: "r_keyword_name ''define'' t = None"
    using assms(2) by (cases "strip_prefix ''define'' t") (auto simp: r_keyword_name_def lit_def simp del: strip_prefix.simps)
  have fl: "r_flag_list (CHR '' '' # t) = None" by (rule r_flag_list_prints(2)[OF assms(3)])
  have sp: "r_space (CHR '' '' # t) = Some ((), t)" "r_ws (CHR '' '' # t) = Some ((), t)"
    using assms(1) by (simp_all add: lexing)
  show ?thesis
  proof (cases c)
    case None
    then show ?thesis
      by (simp add: pp_comment_def define_rules orelse_def r_comment_None[OF assms(1)] sp d fl)
  next
    case (Some c')
    then have c': "comment_ok c'" using assms(4) by (simp add: opt_comment_ok_def)
    have "r_flag_list (c' @ CHR '' '' # t) = None"
    proof (rule r_flag_list_prints(2))
      show "r_flag (c' @ CHR '' '' # t) = None"
        using assms(3) r_flag_ws[OF r_ws_comment[OF c']] by simp
    qed
    with Some show ?thesis
      by (simp add: pp_comment_def define_rules orelse_def comment_ok_prints[OF c'] r_ws_comment[OF c'] sp d fl)
  qed
qed

lemma r_define_flags_other:
  assumes "fs \<noteq> []" "r_flag body = None" "r_ws body = Some ((), t)" "r_keyword_name ''define'' t = None"
  shows "r_define (concat (map pp_flag fs) @ body) = None"
proof -
  obtain f cs where f: "concat (map pp_flag fs) @ body = CHR '' '' # flag_name f @ cs"
    "r_flag_list (CHR '' '' # flag_name f @ cs) = Some (fs, body)" using flags_text[OF assms(1,2)] by blast
  show ?thesis unfolding f(1)
    by (simp add: define_rules orelse_def r_comment_flags r_ws_flags f(2) assms(3,4))
qed

lemma r_define_typedef:
  "r_define (concat (map pp_flag fs) @ '' typedef '' @ t) = None"
proof (cases "fs = []")
  case True
  then show ?thesis
    using r_define_other[of "''typedef '' @ t" None]
    by (simp add: pp_comment_def opt_comment_ok_def r_flag_keyword is_space_def)
next
  case False
  show ?thesis
    by (rule r_define_flags_other[OF False, where t = "''typedef '' @ t"])
      (simp_all add: r_flag_keyword lexing is_space_def r_keyword_name_def)
qed

lemma r_typedef_block_prints:
  assumes "statement_ok (TypedefBlock n opts fds fs)"
  shows "r_typedef (pp_statement (TypedefBlock n opts fds fs) @ s) = Some (TypedefBlock n opts fds fs, s)"
proof -
  have n: "ident_ok n" and b: "block_ok opts fds" using assms by (simp_all add: statement_ok_def)
  note kb = keyword_block_prints[OF n b, of s]
  let ?body = "'' typedef '' @ n @ pp_block opts fds @ s"
  have body: "r_ws ?body = Some ((), tl ?body)" "r_keyword_name ''typedef'' (tl ?body) = Some (n, pp_block opts fds @ s)"
    by (simp_all add: lexing is_space_def r_keyword_name_def kb)
  show ?thesis
  proof (cases "fs = []")
    case True
    then show ?thesis
      by (simp add: pp_statement_def r_typedef_def orelse_def r_flag_list_start body[simplified] kb st_typedef_block_def)
  next
    case False
    have "r_flag ?body = None" by (simp add: r_flag_keyword)
    from flags_text[OF False this] obtain f cs where f: "concat (map pp_flag fs) @ ?body = CHR '' '' # flag_name f @ cs"
      "r_flag_list (CHR '' '' # flag_name f @ cs) = Some (fs, ?body)" by blast
    have text_eq: "pp_statement (TypedefBlock n opts fds fs) @ s = CHR '' '' # flag_name f @ cs"
      using f by (simp add: pp_statement_def)
    show ?thesis unfolding text_eq
      by (simp add: r_typedef_def orelse_def f(2)[simplified] body[simplified] kb st_typedef_block_def)
  qed
qed

lemma r_typedef_prints:
  assumes "statement_ok (Typedef fd fs)"
  shows "r_typedef (pp_statement (Typedef fd fs) @ s) = Some (Typedef fd fs, s)"
proof -
  have fd: "field_ok fd" using assms by (simp add: statement_ok_def)
  then have ty: "ident_ok (f_type fd)" by (simp add: field_ok_def)
  obtain t where t: "pp_field fd @ s = f_type fd @ CHR '' '' # t" "\<exists>n u. t = n @ u \<and> ident_ok n"
    using fd by (auto simp: pp_field_def field_ok_def)
  let ?body = "'' typedef '' @ pp_field fd @ s"
  have sp: "r_ws (pp_field fd @ s) = Some ((), pp_field fd @ s)" using ty by (simp add: t lexing)
  have id: "r_identifier (pp_field fd @ s) = Some (f_type fd, CHR '' '' # t)"
    using ty by (simp add: t lexing is_ident_start_def is_digit_def)
  have "r_tok ''{'' (CHR '' '' # t) = None" using t(2) by (auto simp: r_tok_def lexing is_ident_start_def)
  then have nb: "r_block (CHR '' '' # t) = None" by (simp add: r_block_def)
  have body: "r_ws ?body = Some ((), tl ?body)" "r_keyword_name ''typedef'' (tl ?body) = Some (f_type fd, CHR '' '' # t)"
    "r_tok ''typedef'' ?body = Some ((), CHR '' '' # pp_field fd @ s)"
    "r_ws1 (CHR '' '' # pp_field fd @ s) = Some ((), pp_field fd @ s)"
    by (simp_all add: lexing is_space_def r_keyword_name_def sp id r_tok_def)
  note d = r_declaration_prints[OF fd, of s]
  show ?thesis
  proof (cases "fs = []")
    case True
    then show ?thesis
      by (simp add: pp_statement_def r_typedef_def orelse_def r_flag_list_start body[simplified] nb d st_typedef_def)
  next
    case False
    have "r_flag ?body = None" by (simp add: r_flag_keyword)
    from flags_text[OF False this] obtain f cs where f: "concat (map pp_flag fs) @ ?body = CHR '' '' # flag_name f @ cs"
      "r_flag_list (CHR '' '' # flag_name f @ cs) = Some (fs, ?body)" by blast
    have text_eq: "pp_statement (Typedef fd fs) @ s = CHR '' '' # flag_name f @ cs"
      using f by (simp add: pp_statement_def)
    show ?thesis unfolding text_eq
      by (simp add: r_typedef_def orelse_def f(2)[simplified] body[simplified] nb d st_typedef_def r_ws_flags)
  qed
qed

section \<open>Unions, enums, imports and options\<close>

lemma r_union_prints:
  assumes "statement_ok (Union_stmt n opts fds c)"
  shows "r_union (pp_statement (Union_stmt n opts fds c) @ s) = Some (Union_stmt n opts fds c, s)"
proof -
  have n: "ident_ok n" and b: "block_ok opts fds" and c: "opt_comment_ok c"
    using assms by (simp_all add: statement_ok_def)
  note kb = keyword_block_prints[OF n b, of s]
  let ?body = "'' union '' @ n @ pp_block opts fds @ s"
  have body: "r_space ?body = Some ((), tl ?body)" "r_ws ?body = Some ((), tl ?body)"
    "r_keyword_name ''union'' (tl ?body) = Some (n, pp_block opts fds @ s)"
    by (simp_all add: lexing is_space_def r_keyword_name_def kb)
  have nc: "r_comment ?body = None" by (simp add: r_comment_None is_space_def)
  show ?thesis
  proof (cases c)
    case None
    then show ?thesis
      by (simp add: pp_statement_def pp_comment_def r_union_def orelse_def nc[simplified] body[simplified] kb st_union_def)
  next
    case (Some c')
    then have "comment_ok c'" using c by (simp add: opt_comment_ok_def)
    with Some show ?thesis
      by (simp add: pp_statement_def pp_comment_def r_union_def orelse_def comment_ok_prints body[simplified] kb st_union_def)
  qed
qed

lemma r_enum_options_prints:
  assumes "list_all field_option_ok opts" "opts \<noteq> []"
  shows "r_enum_options (pp_options opts @ s) = Some (opts, s)"
  by (simp add: r_enum_options_def pp_options_cases[OF assms(2)] parsing r_field_options_prints[OF assms])

lemma r_enum_statement_prints:
  assumes "enum_statement_ok e"
  shows "r_enum_statement (pp_enum_statement e @ s) = Some (e, s)"
proof -
  obtain i v opts where e: "e = Variant i v opts" by (cases e)
  have i: "ident_ok i" and v: "\<And>n. v = Some n \<Longrightarrow> n \<le> U32_MAX" and opts: "list_all field_option_ok opts"
    using assms by (auto simp: e enum_statement_ok_def)
  have sep: "pp_options opts @ '','' @ s = (if opts = [] then '','' @ s else ''['' @ join '','' (map pp_field_option opts) @ ''],'' @ s)"
    by (simp add: pp_options_def)
  have opts_read: "r_enum_options (CHR ''['' # join '','' (map pp_field_option opts) @ CHR '']'' # CHR '','' # s) = Some (opts, CHR '','' # s)"
    if "opts \<noteq> []"
    using r_enum_options_prints[OF opts that, of "CHR '','' # s"] by (simp add: pp_options_cases[OF that])
  show ?thesis
  proof (cases v)
    case None
    with i show ?thesis
      by (cases "opts = []")
        (simp_all add: e pp_enum_statement_def r_enum_statement_def r_enum_value_def pp_options_def parsing opts_read)
  next
    case (Some n)
    with v have "n \<le> U32_MAX" by blast
    with Some i show ?thesis
      by (cases "opts = []")
        (simp_all add: e pp_enum_statement_def r_enum_statement_def r_enum_value_def pp_options_def parsing opts_read
          r_enum_options_def[of "CHR ''='' # _"])
  qed
qed

lemma r_enum_block_prints:
  assumes "list_all enum_statement_ok es" "es \<noteq> []"
  shows "r_enum_block (pp_enum_block es @ s) = Some (es, s)"
proof -
  have "many r_enum_statement (concat (map pp_enum_statement es) @ ''};'' @ s) = (es, ''};'' @ s)"
  proof (rule enum_items.many_prints)
    show "r_enum_statement (''};'' @ s) = None" by (simp add: r_enum_statement_def r_ws_identifier_def parsing)
  qed (use assms in \<open>auto simp: list_all_iff r_enum_statement_prints\<close>)
  then have "r_enum_statements (concat (map pp_enum_statement es) @ ''};'' @ s) = Some (es, ''};'' @ s)"
    using assms(2) by (simp add: r_enum_statements_def many1_def split: list.splits prod.splits)
  then show ?thesis by (simp add: r_enum_block_def pp_enum_block_def parsing)
qed

lemma r_sized_enum_prints:
  assumes n: "ident_ok n" and es: "list_all enum_statement_ok es" "es \<noteq> []"
    and kw: "\<And>t. r_ws (kw @ t) = Some ((), kw @ t)" "\<And>t. lit kw (kw @ t) = Some ((), t)"
    and size: "\<And>t. r_ws (sz @ t) = Some ((), sz @ t)" "\<And>t. r_size (sz @ CHR ''{'' # t) = Some (sz, CHR ''{'' # t)"
  shows "r_sized_enum kw r_size mk (kw @ '' '' @ n @ '':'' @ sz @ pp_enum_block es @ s) = Some (mk n sz es, s)"
proof -
  obtain t where t: "pp_enum_block es @ s = CHR ''{'' # t" by (simp add: pp_enum_block_def)
  have b: "r_enum_block (CHR ''{'' # t) = Some (es, s)" using r_enum_block_prints[OF es, of s] t by simp
  have nb: "r_enum_block (CHR '':'' # u) = None" for u by (simp add: r_enum_block_def parsing)
  show ?thesis
    by (simp add: r_sized_enum_def orelse_def r_keyword_name_def kw t size n b nb r_tok_def lexing is_space_def
        is_ident_start_def is_digit_def)
qed

lemma r_enum_prints:
  assumes "statement_ok (Enum n sz es)"
  shows "r_enum (pp_statement (Enum n sz es) @ s) = Some (Enum n sz es, s)"
proof -
  have "r_sized_enum ''enum'' r_enum_size Enum (''enum'' @ '' '' @ n @ '':'' @ sz @ pp_enum_block es @ s) = Some (Enum n sz es, s)"
    by (rule r_sized_enum_prints)
      (use assms in \<open>auto simp: statement_ok_def r_enum_size_def r_one_of_def lexing is_space_def map_filter_simps\<close>)
  then show ?thesis by (simp add: r_enum_def pp_statement_def)
qed

lemma r_enumflag_prints:
  assumes "statement_ok (EnumFlag n sz es)"
  shows "r_enumflag (pp_statement (EnumFlag n sz es) @ s) = Some (EnumFlag n sz es, s)"
proof -
  have "r_sized_enum ''enumflag'' r_enumflag_size EnumFlag (''enumflag'' @ '' '' @ n @ '':'' @ sz @ pp_enum_block es @ s) =
      Some (EnumFlag n sz es, s)"
    by (rule r_sized_enum_prints)
      (use assms in \<open>auto simp: statement_ok_def r_enumflag_size_def r_one_of_def lexing is_space_def map_filter_simps\<close>)
  then show ?thesis by (simp add: r_enumflag_def pp_statement_def)
qed

lemma r_import_prints:
  assumes "statement_ok (Import f)"
  shows "r_import (pp_statement (Import f) @ s) = Some (Import f, s)"
  using assms by (simp add: statement_ok_def r_import_def pp_statement_def pp_value_def parsing)

section \<open>Services\<close>

lemma r_event_list_prints:
  assumes "list_all ident_ok es" "es \<noteq> []"
  shows "r_event_list (concat (map pp_event es) @ CHR '';'' # s) = Some (es, CHR '';'' # s)"
proof -
  have "many r_ws_identifier (concat (map pp_event es) @ CHR '';'' # s) = (es, CHR '';'' # s)"
    using assms(1)
  proof (induction es)
    case Nil
    have "r_ws_identifier (CHR '';'' # s) = None" by (simp add: r_ws_identifier_def parsing)
    from idents.many_None[OF this] show ?case by simp
  next
    case (Cons e es)
    obtain c u where cu: "concat (map pp_event es) @ CHR '';'' # s = c # u" "\<not> is_ident_char c"
      by (cases es) (simp_all add: pp_event_def is_ident_start_def is_digit_def)
    have "r_ws_identifier (pp_event e @ c # u) = Some (e, c # u)"
      using Cons.prems cu(2) by (simp add: pp_event_def r_ws_identifier_prints)
    from idents.many_Some[OF this] Cons cu show ?case by simp
  qed
  with assms(2) show ?thesis by (simp add: r_event_list_def many1_def split: list.splits)
qed

text \<open>The second form of a service, where the reply is not followed by a semicolon.\<close>

definition stream_reply :: "string \<Rightarrow> service rule" where
  "stream_reply c s = do { (_, s) \<leftarrow> r_tok ''stream'' s; (r, s) \<leftarrow> r_ws_identifier s; (_, s) \<leftarrow> r_tok '';'' s;
                      Some (\<lparr>caller = c, reply = r, events = [], stream = True, stream_message = None\<rparr>, s) }"

lemma not_stream_reply:
  assumes r: "ident_ok r" and t: "r_tok '';'' (CHR '' '' # t) = None"
    and next_word: "\<And>n u. r_ws_identifier (CHR '' '' # t) = Some (n, u) \<Longrightarrow> r_tok '';'' u = None"
  shows "stream_reply c (CHR '' '' # r @ CHR '' '' # t) = None"
proof (cases "strip_prefix ''stream'' (r @ CHR '' '' # t)")
  case None
  with r show ?thesis by (simp add: stream_reply_def r_tok_def lexing lit_def del: strip_prefix.simps)
next
  case (Some u)
  have "\<exists>w. r = ''stream'' @ w \<and> u = w @ CHR '' '' # t"
    by (rule keyword_mismatch[OF _ _ Some]) (simp_all add: is_ident_start_def is_digit_def)
  then obtain w where w: "r = ''stream'' @ w" "u = w @ CHR '' '' # t" by blast
  have tok: "r_tok ''stream'' (CHR '' '' # r @ CHR '' '' # t) = Some ((), u)"
    using r Some by (simp add: r_tok_def lexing lit_def del: strip_prefix.simps strip_prefix_Some)
  show ?thesis
  proof (cases w)
    case Nil
    with w tok next_word show ?thesis by (cases "r_ws_identifier (CHR '' '' # t)") (auto simp: stream_reply_def)
  next
    case (Cons x xs)
    then have x: "is_ident_char x" "list_all is_ident_char xs" using r w by (auto simp: ident_ok_def)
    show ?thesis
    proof (cases "is_ident_start x")
      case True
      with x Cons have "ident_ok w" by (simp add: ident_ok_def)
      then have "r_ws_identifier u = Some (w, CHR '' '' # t)"
        using w by (simp add: lexing is_ident_start_def is_digit_def)
      with tok t show ?thesis by (simp add: stream_reply_def)
    next
      case False
      with x have "is_digit x" by simp
      with w Cons False have "r_ws_identifier u = None" by (simp add: r_ws_identifier_def lexing)
      with tok show ?thesis by (simp add: stream_reply_def)
    qed
  qed
qed

lemma r_ws_identifier_words:
  "r_ws_identifier (CHR '' '' # ''stream'' @ CHR '' '' # t) = Some (''stream'', CHR '' '' # t)"
  "r_ws_identifier (CHR '' '' # ''events'' @ CHR '' '' # t) = Some (''events'', CHR '' '' # t)"
  by (rule r_ws_identifier_prints(2); simp add: ident_ok_def is_ident_start_def is_digit_def)+

lemmas words = r_ws_identifier_words[simplified]

lemma r_service_statement_prints:
  assumes "service_ok v"
  shows "r_service_statement (pp_service v @ s) = Some (v, s)"
proof -
  have c: "ident_ok (caller v)" and r: "ident_ok (reply v)" and es: "list_all ident_ok (events v)"
    and m: "\<And>m. stream_message v = Some m \<Longrightarrow> stream v \<and> ident_ok m" and st: "stream v \<Longrightarrow> events v = []"
    using assms by (auto simp: service_ok_def)
  have rpc: "r_rpc (''rpc '' @ caller v @ '' returns '' @ t) = Some (caller v, CHR '' '' # t)" for t
    using c by (simp add: r_rpc_def parsing)
  note rules = pp_service_def r_service_statement_def orelse_def rpc[simplified]
  show ?thesis
  proof (cases "stream v")
    case True
    with st have e: "events v = []" by blast
    show ?thesis
    proof (cases "stream_message v")
      case None
      with True e r show ?thesis by (simp add: rules words parsing) 
    next
      case (Some n)
      then have n: "ident_ok n" using m by blast
      have "stream_reply (caller v) (CHR '' '' # reply v @ CHR '' '' # ''stream '' @ n @ CHR '';'' # s) = None"
        by (rule not_stream_reply[OF r]) (use n in \<open>auto simp: words parsing\<close>)
      with Some True e r n show ?thesis by (simp add: rules stream_reply_def parsing)
    qed
  next
    case False
    then have none: "stream_message v = None" using m by (cases "stream_message v") auto
    show ?thesis
    proof (cases "events v = []")
      case True
      with False none r show ?thesis by (simp add: rules parsing)
    next
      case ne: False
      obtain u where u: "concat (map pp_event (events v)) @ CHR '';'' # s = CHR '' '' # u" "\<not> ws_start u" "lit '';'' u = None"
        using ne es by (cases "events v") (auto simp: pp_event_def lit_ident is_ident_start_def)
      have "stream_reply (caller v) (CHR '' '' # reply v @ CHR '' '' # ''events'' @ CHR '' '' # u) = None"
        by (rule not_stream_reply[OF r]) (use u(2,3) in \<open>auto simp: words parsing\<close>)
      with r_event_list_prints[OF es ne, of s] False none r ne u show ?thesis
        by (simp add: rules stream_reply_def parsing)
    qed
  qed
qed

lemma r_service_prints:
  assumes "statement_ok (Service_stmt ss)"
  shows "r_service (pp_statement (Service_stmt ss) @ s) = Some (Service_stmt ss, s)"
proof -
  have ss: "list_all service_ok ss" "ss \<noteq> []" using assms by (simp_all add: statement_ok_def)
  have "many r_service_statement (concat (map pp_service ss) @ ''};'' @ s) = (ss, ''};'' @ s)"
  proof (rule service_items.many_prints)
    show "r_service_statement (''};'' @ s) = None" by (simp add: r_service_statement_def r_rpc_def parsing)
  qed (use ss in \<open>auto simp: list_all_iff r_service_statement_prints\<close>)
  then have "many1 r_service_statement (concat (map pp_service ss) @ ''};'' @ s) = Some (ss, ''};'' @ s)"
    using ss(2) by (simp add: many1_def split: list.splits)
  moreover have "\<not> ws_start (concat (map pp_service ss) @ t)" for t
    using ss(2) by (cases ss) (simp_all add: pp_service_def is_space_def)
  ultimately show ?thesis by (simp add: r_service_def pp_statement_def parsing)
qed

section \<open>Statements and files\<close>

lemma other_keyword:
  shows no_define: "\<not> ws_start t \<Longrightarrow> r_flag t = None \<Longrightarrow> lit ''define'' t = None \<Longrightarrow> r_define t = None"
    and no_typedef: "r_ws s = Some ((), t) \<Longrightarrow> r_flag s = None \<Longrightarrow> lit ''typedef'' t = None \<Longrightarrow> r_typedef s = None"
    and no_option: "r_tok ''option'' s = None \<Longrightarrow> r_option s = None"
    and no_import: "r_tok ''import'' s = None \<Longrightarrow> r_import s = None"
    and no_union: "\<not> ws_start t \<Longrightarrow> lit ''union'' t = None \<Longrightarrow> r_union t = None"
  by (simp_all add: define_rules r_typedef_def r_option_def r_option_flag_def r_option_assign_def r_import_def
      r_union_def orelse_def r_comment_None r_flag_list_prints(2) r_ws_none r_keyword_name_def r_tok_def)

lemma no_enum: "r_ws s = Some ((), t) \<Longrightarrow> r_keyword_name ''enum'' t = None \<Longrightarrow> r_enum s = None"
  and no_enumflag: "r_ws s = Some ((), t) \<Longrightarrow> r_keyword_name ''enumflag'' t = None \<Longrightarrow> r_enumflag s = None"
  by (simp_all add: r_enum_def r_enumflag_def r_sized_enum_def orelse_def)

lemma r_statement_prints:
  assumes "statement_ok st"
  shows "r_statement (pp_statement st @ s) = Some (st, s)"
proof (cases st)
  case (Define n opts fds fs c)
  then show ?thesis using r_define_prints assms by (simp add: r_statement_def orelse_def)
next
  case (Option_stmt opt)
  then have opt: "r_option (pp_statement st @ s) = Some (opt, s)"
    using r_option_prints assms by (simp add: statement_ok_def pp_statement_def)
  obtain t where t: "pp_statement st @ s = ''option '' @ t" by (simp add: Option_stmt pp_statement_def pp_option_def)
  have "r_define (''option '' @ t) = None" by (rule no_define) (simp_all add: r_flag_def parsing)
  moreover have "r_typedef (''option '' @ t) = None" by (rule no_typedef) (simp add: parsing, simp add: r_flag_def parsing, simp add: parsing)
  ultimately show ?thesis using opt Option_stmt t by (simp add: r_statement_def orelse_def)
next
  case (TypedefBlock n opts fds fs)
  then have "r_define (pp_statement st @ s) = None" using r_define_typedef[of fs] by (simp add: pp_statement_def)
  with TypedefBlock show ?thesis using r_typedef_block_prints assms by (simp add: r_statement_def orelse_def)
next
  case (Typedef fd fs)
  then have "r_define (pp_statement st @ s) = None" using r_define_typedef[of fs] by (simp add: pp_statement_def)
  with Typedef show ?thesis using r_typedef_prints assms by (simp add: r_statement_def orelse_def)
next
  case (Enum n sz es)
  obtain t where t: "pp_statement st @ s = ''enum '' @ t" by (simp add: Enum pp_statement_def)
  have "r_define (''enum '' @ t) = None" by (rule no_define) (simp_all add: r_flag_def parsing)
  moreover have "r_typedef (''enum '' @ t) = None" by (rule no_typedef) (simp add: parsing, simp add: r_flag_def parsing, simp add: parsing)
  moreover have "r_option (''enum '' @ t) = None" by (rule no_option) (simp add: parsing)
  moreover have "r_import (''enum '' @ t) = None" by (rule no_import) (simp add: parsing)
  ultimately show ?thesis using r_enum_prints[of n sz es s] assms Enum t by (simp add: r_statement_def orelse_def)
next
  case (EnumFlag n sz es)
  obtain t where t: "pp_statement st @ s = ''enumflag '' @ t" by (simp add: EnumFlag pp_statement_def)
  have "r_define (''enumflag '' @ t) = None" by (rule no_define) (simp_all add: r_flag_def parsing)
  moreover have "r_typedef (''enumflag '' @ t) = None" by (rule no_typedef) (simp add: parsing, simp add: r_flag_def parsing, simp add: parsing)
  moreover have "r_option (''enumflag '' @ t) = None" by (rule no_option) (simp add: parsing)
  moreover have "r_import (''enumflag '' @ t) = None" by (rule no_import) (simp add: parsing)
  moreover have "r_enum (''enumflag '' @ t) = None"
    by (rule no_enum) (simp add: parsing, simp add: r_keyword_name_def parsing)
  ultimately show ?thesis using r_enumflag_prints[of n sz es s] assms EnumFlag t by (simp add: r_statement_def orelse_def)
next
  case (Union_stmt n opts fds c)
  then have c: "opt_comment_ok c" using assms by (simp add: statement_ok_def)
  define t where "t = ''union '' @ n @ pp_block opts fds @ s"
  have t: "pp_statement st @ s = pp_comment c @ CHR '' '' # t" by (simp add: Union_stmt pp_statement_def t_def)
  have ws: "r_ws (pp_comment c @ CHR '' '' # t) = Some ((), t)"
    using c by (cases c) (simp_all add: pp_comment_def opt_comment_ok_def r_ws_comment lexing t_def is_space_def)
  have fl: "r_flag (pp_comment c @ CHR '' '' # t) = None"
  proof -
    have "r_ws (pp_comment c @ CHR '' '' # t) = r_ws (CHR '' '' # t)"
      using c by (cases c) (simp_all add: pp_comment_def opt_comment_ok_def r_ws_comment)
    moreover have "r_flag (CHR '' '' # t) = None" by (simp add: t_def r_flag_keyword)
    ultimately show ?thesis using r_flag_ws by metis
  qed
  have "r_define (pp_comment c @ CHR '' '' # t) = None"
    by (rule r_define_other[OF _ _ _ c]) (simp_all add: t_def is_space_def r_flag_keyword)
  moreover have "r_typedef (pp_comment c @ CHR '' '' # t) = None"
    by (rule no_typedef[OF ws fl]) (simp add: t_def lexing)
  moreover have "r_option (pp_comment c @ CHR '' '' # t) = None" "r_import (pp_comment c @ CHR '' '' # t) = None"
    by (rule no_option no_import, simp add: r_tok_def ws, simp add: t_def lexing)+
  moreover have "r_enum (pp_comment c @ CHR '' '' # t) = None" "r_enumflag (pp_comment c @ CHR '' '' # t) = None"
    by (rule no_enum[OF ws] no_enumflag[OF ws], simp add: t_def r_keyword_name_def lexing)+
  ultimately show ?thesis using r_union_prints[of n opts fds c s] assms Union_stmt t by (simp add: r_statement_def orelse_def)
next
  case (Import f)
  obtain t where t: "pp_statement st @ s = ''import '' @ t" by (simp add: Import pp_statement_def)
  have "r_define (''import '' @ t) = None" by (rule no_define) (simp_all add: r_flag_def parsing)
  moreover have "r_typedef (''import '' @ t) = None" by (rule no_typedef) (simp add: parsing, simp add: r_flag_def parsing, simp add: parsing)
  moreover have "r_option (''import '' @ t) = None" by (rule no_option) (simp add: parsing)
  ultimately show ?thesis using r_import_prints[of f s] assms Import t by (simp add: r_statement_def orelse_def)
next
  case (Service_stmt ss)
  obtain t where t: "pp_statement st @ s = ''service{'' @ t" by (simp add: Service_stmt pp_statement_def)
  have "r_define (''service{'' @ t) = None" by (rule no_define) (simp_all add: r_flag_def parsing)
  moreover have "r_typedef (''service{'' @ t) = None" by (rule no_typedef) (simp add: parsing, simp add: r_flag_def parsing, simp add: parsing)
  moreover have "r_option (''service{'' @ t) = None" by (rule no_option) (simp add: parsing)
  moreover have "r_import (''service{'' @ t) = None" by (rule no_import) (simp add: parsing)
  moreover have "r_enum (''service{'' @ t) = None" "r_enumflag (''service{'' @ t) = None"
    by (rule no_enum, simp add: parsing, simp add: r_keyword_name_def parsing)
      (rule no_enumflag, simp add: parsing, simp add: r_keyword_name_def parsing)
  moreover have "r_union (''service{'' @ t) = None" by (rule no_union) (simp_all add: parsing)
  ultimately show ?thesis using r_service_prints[of ss s] assms Service_stmt t by (simp add: r_statement_def orelse_def)
qed

lemma r_statement_Nil: "r_statement [] = None"
  by (simp add: r_statement_def orelse_def define_rules r_typedef_def r_option_def r_option_flag_def r_option_assign_def
      r_import_def r_enum_def r_enumflag_def r_sized_enum_def r_union_def r_service_def r_keyword_name_def r_flag_list_def
      many1_def flags.many_None r_flag_def r_comment_def r_block_comment_def r_line_comment_def parsing)

lemma ws_Nil: "many r_ws_item [] = ([], [])"
  by (rule ws.many_None) (simp add: r_ws_item_None)

text \<open>C3: Parsing inverts printing: for every list of well-formed statements there is a text, the printed
  one, that the grammar of API files reads back as exactly these statements: all statement kinds,
  options, the five shapes of fields, enum values and options, flags, comments and services.\<close>

theorem parse_print_file:
  assumes "list_all statement_ok ss" "fs fname = Some (concat (map pp_statement ss))"
  shows "parse_file fs fname = Inr ss"
proof -
  have "many r_statement (concat (map pp_statement ss) @ []) = (ss, [])"
    by (rule statements.many_prints) (use assms(1) in \<open>auto simp: list_all_iff r_statement_prints r_statement_Nil\<close>)
  with assms(2) show ?thesis by (simp add: parse_file_def statement_list_def ws_Nil)
qed

definition sample_file :: "statement list" where
  "sample_file =
     [Option_stmt \<lparr>os_option = ''version'', os_value = Some ''1.0.0''\<rparr>,
      Import ''vnet/ip/ip_types.api'',
      Enum ''colour'' ''u8'' [Variant ''RED'' None [], Variant ''BLUE'' (Some 7) [\<lparr>os_option = ''kept'', os_value = Some ''true''\<rparr>]],
      TypedefBlock ''addr'' [] [sample_field ''u8'' ''len'' None, sample_field ''u8'' ''data'' (Some (Variable (Some ''len'')))] [ManualPrint],
      Typedef (sample_field ''u8'' ''mac'' (Some (Fixed 6))) [],
      Union_stmt ''either'' [] [sample_field ''u8'' ''a'' None, sample_field ''string'' ''b'' (Some (Fixed 64))] None,
      Define ''ping'' [] [sample_field ''u32'' ''client_index'' None] [AutoReply, DontTrace] (Some ''/* ask */''),
      Service_stmt [\<lparr>caller = ''ping'', reply = ''stream'', events = [''pong''], stream = False, stream_message = None\<rparr>]]"

lemma parse_print_file_witness:
  "parse_file (\<lambda>f. if f = ''x.api'' then Some (concat (map pp_statement sample_file)) else None) ''x.api'' = Inr sample_file"
proof (rule parse_print_file)
  show "list_all statement_ok sample_file"
    by (simp add: sample_file_def sample_field_def statement_ok_def option_ok_def field_option_ok_def field_ok_def size_ok_def
        block_ok_def opt_comment_ok_def comment_ok_def enum_statement_ok_def service_ok_def value_ok_def ident_ok_def
        is_ident_start_def is_digit_def U32_MAX_def)
qed simp

text \<open>A comment directly before a message is its documentation only when no other comment stands
  before it: after a licence header the comment of the first message is dropped, or, when the message
  has flags, replaced by the header.\<close>

theorem second_comment_lost:
  assumes "statement_ok (Define n opts fds fl None)" "comment_ok c1" "comment_ok c2"
  shows "statement_list (c1 @ c2 @ pp_statement (Define n opts fds fl None)) =
    Some [Define n opts fds fl (if fl = [] then None else Some c1)]"
proof -
  have n: "ident_ok n" and b: "block_ok opts fds" using assms by (simp_all add: statement_ok_def)
  note kb = keyword_block_prints[OF n b, of "[]", simplified]
  let ?body = "'' define '' @ n @ pp_block opts fds"
  have body: "r_ws ?body = Some ((), tl ?body)" "r_keyword_name ''define'' (tl ?body) = Some (n, pp_block opts fds)"
    by (simp_all add: lexing is_space_def r_keyword_name_def kb)
  obtain c2' where c2: "c2 = ''/*'' @ c2'" using assms(3) by (auto simp: comment_ok_def split: option.splits)
  have c2_next: "r_space (c2 @ t) = Some ((), c2 @ t)" "r_keyword_name ''define'' (c2 @ t) = None" for t
    by (simp_all add: c2 r_space_def is_space_def r_keyword_name_def lexing)
  have flag: "r_flag (c2 @ t) = r_flag t" for t by (rule r_flag_ws[OF r_ws_comment[OF assms(3)]])
  have none: "r_flag ?body = None" by (simp add: r_flag_keyword)
  have flags_c2: "many r_flag (c2 @ concat (map pp_flag fl) @ ?body) = (fl, if fl = [] then c2 @ ?body else ?body)"
  proof (cases fl)
    case Nil
    with flag[of ?body] none show ?thesis by (simp add: flags.many_None)
  next
    case (Cons f fl')
    have "r_flag (c2 @ pp_flag f @ concat (map pp_flag fl') @ ?body) = Some (f, concat (map pp_flag fl') @ ?body)"
      by (simp only: flag r_flag_prints)
    from flags.many_Some[OF this] Cons many_flags[OF none, of fl'] show ?thesis by simp
  qed
  have "r_define (c1 @ c2 @ pp_statement (Define n opts fds fl None)) =
      Some (Define n opts fds fl (if fl = [] then None else Some c1), [])"
    using flags_c2
    by (cases "fl = []")
      (simp_all add: pp_statement_def pp_comment_def define_rules orelse_def comment_ok_prints[OF assms(2)] c2_next r_flag_list_def
        many1_def r_ws_comment[OF assms(2)] r_ws_comment[OF assms(3)] body[simplified] kb st_define_def split: list.splits)
  then have "r_statement (c1 @ c2 @ pp_statement (Define n opts fds fl None)) =
      Some (Define n opts fds fl (if fl = [] then None else Some c1), [])"
    by (simp add: r_statement_def orelse_def)
  from statements.many_Some[OF this] show ?thesis
    by (simp add: statement_list_def statements.many_None[OF r_statement_Nil] ws_Nil)
qed

lemma second_comment_lost_witness:
  "statement_list (''/* licence *//* doc */'' @ pp_statement (Define ''ping'' [] [sample_field ''u8'' ''x'' None] [] None)) =
    Some [Define ''ping'' [] [sample_field ''u8'' ''x'' None] [] None]"
  using second_comment_lost[of "''ping''" "[]" "[sample_field ''u8'' ''x'' None]" "[]" "''/* licence */''" "''/* doc */''"]
  by (simp add: statement_ok_def ident_ok_def block_ok_def field_ok_def sample_field_def opt_comment_ok_def comment_ok_def
      is_ident_start_def is_digit_def)

end
