(* ===== verification/Vpp_Vec.thy ===== *)
theory Vpp_Vec
  imports Prelude
begin

text \<open>
  VPP vectors, \<open>vpp-plugin/src/vppinfra/vec.rs\<close>: the header in front of the elements with the
  length (32 bits) and the number of elements that still fit (\<open>grow_elts\<close>, 8 bits), the borrowed
  \<open>VecRef\<close> and the owned \<open>Vec\<close>, whose null pointer is the empty vector.

  The unsafe code reads and writes memory, so a result is a value or a fault: a panic, an abort of
  the allocator, or undefined behaviour (an access outside the allocation, or of an element never
  written).  \<open>dbg\<close> is the build profile: with debug assertions and overflow checks, or without,
  where arithmetic wraps.
\<close>

section \<open>Faults and arithmetic\<close>

datatype fault = Panic | Undefined_Behaviour | Abort

definition try_bind :: "fault + 'a \<Rightarrow> ('a \<Rightarrow> fault + 'b) \<Rightarrow> fault + 'b" where
  "try_bind m f = (case m of Inl e \<Rightarrow> Inl e | Inr x \<Rightarrow> f x)"

lemma try_bind_simps [simp]: "try_bind (Inl e) f = Inl e" "try_bind (Inr x) f = f x"
  by (simp_all add: try_bind_def)

lemma try_bind_Inr: "try_bind m f = Inr y \<longleftrightarrow> (\<exists>x. m = Inr x \<and> f x = Inr y)"
  by (cases m) auto

definition U8_MAX :: nat where
  "U8_MAX = 255"

definition arith_add :: "bool \<Rightarrow> nat \<Rightarrow> nat \<Rightarrow> nat \<Rightarrow> fault + nat" where
  "arith_add dbg mx a b = (if a + b \<le> mx then Inr (a + b) else if dbg then Inl Panic else Inr ((a + b) mod (mx + 1)))"

definition arith_sub :: "bool \<Rightarrow> nat \<Rightarrow> nat \<Rightarrow> nat \<Rightarrow> fault + nat" where
  "arith_sub dbg mx a b = (if b \<le> a then Inr (a - b) else if dbg then Inl Panic else Inr (a + (mx + 1) - b))"

definition debug_assert :: "bool \<Rightarrow> bool \<Rightarrow> fault + unit" where
  "debug_assert dbg c = (if dbg \<and> \<not> c then Inl Panic else Inr ())"

lemma arith_simps [simp]:
  "a + b \<le> mx \<Longrightarrow> arith_add dbg mx a b = Inr (a + b)" "b \<le> a \<Longrightarrow> arith_sub dbg mx a b = Inr (a - b)"
  "c \<Longrightarrow> debug_assert dbg c = Inr ()"
  by (simp_all add: arith_add_def arith_sub_def debug_assert_def)

section \<open>VecRef\<close>

text \<open>A vector in memory; a cell is \<open>None\<close> until it is written.\<close>

record 'a vec_ref =
  vr_len :: nat
  vr_grow :: nat
  vr_cells :: "'a option list"

definition read_cell :: "'a vec_ref \<Rightarrow> nat \<Rightarrow> fault + 'a" where
  "read_cell v i = (case nth_opt (vr_cells v) i of Some (Some x) \<Rightarrow> Inr x | _ \<Rightarrow> Inl Undefined_Behaviour)"

definition write_cell :: "'a vec_ref \<Rightarrow> nat \<Rightarrow> 'a \<Rightarrow> fault + 'a vec_ref" where
  "write_cell v i x =
     (if i < length (vr_cells v) then Inr (v\<lparr>vr_cells := (vr_cells v)[i := Some x]\<rparr>) else Inl Undefined_Behaviour)"

text \<open>\<open>ptr::copy\<close>, which allows the two ranges to overlap.\<close>

definition copy_cells :: "'a vec_ref \<Rightarrow> nat \<Rightarrow> nat \<Rightarrow> nat \<Rightarrow> fault + 'a vec_ref" where
  "copy_cells v src dst n =
     (let cs = vr_cells v in
      if src + n \<le> length cs \<and> dst + n \<le> length cs
      then Inr (v\<lparr>vr_cells := map (\<lambda>i. if dst \<le> i \<and> i < dst + n then cs ! (src + (i - dst)) else cs ! i) [0..<length cs]\<rparr>)
      else Inl Undefined_Behaviour)"

definition vr_capacity :: "bool \<Rightarrow> 'a vec_ref \<Rightarrow> fault + nat" where
  "vr_capacity dbg v = arith_add dbg U32_MAX (vr_len v) (vr_grow v)"

definition vr_remove :: "bool \<Rightarrow> 'a vec_ref \<Rightarrow> nat \<Rightarrow> fault + 'a \<times> 'a vec_ref" where
  "vr_remove dbg v index =
     (let len = vr_len v in
      if \<not> index < len then Inl Panic
      else try_bind (read_cell v index) (\<lambda>ret.
           try_bind (copy_cells v (index + 1) index (len - index - 1)) (\<lambda>v.
           try_bind (arith_add dbg U8_MAX (vr_grow v) 1) (\<lambda>g.
             Inr (ret, v\<lparr>vr_len := len - 1, vr_grow := g\<rparr>)))))"

definition vr_pop :: "bool \<Rightarrow> 'a vec_ref \<Rightarrow> fault + 'a option \<times> 'a vec_ref" where
  "vr_pop dbg v =
     (let len = vr_len v in
      if len = 0 then Inr (None, v)
      else try_bind (arith_add dbg U8_MAX (vr_grow v) 1) (\<lambda>g.
           try_bind (read_cell v (len - 1)) (\<lambda>x.
             Inr (Some x, v\<lparr>vr_len := len - 1, vr_grow := g\<rparr>))))"

text \<open>A slice over the first \<open>len\<close> elements, which have to be allocated and written.\<close>

definition slice_of :: "'a vec_ref \<Rightarrow> nat \<Rightarrow> nat \<Rightarrow> fault + 'a list" where
  "slice_of v from len =
     (let cs = take len (drop from (vr_cells v)) in
      if from + len \<le> length (vr_cells v) \<and> None \<notin> set cs then Inr (map the cs) else Inl Undefined_Behaviour)"

definition vr_as_slice :: "'a vec_ref \<Rightarrow> fault + 'a list" where
  "vr_as_slice v = slice_of v 0 (vr_len v)"

text \<open>\<open>try_into().unwrap_or(u8::MAX)\<close>\<close>

definition to_u8_or_max :: "nat \<Rightarrow> nat" where
  "to_u8_or_max n = (if n \<le> U8_MAX then n else U8_MAX)"

text \<open>\<open>clear\<close> returns the elements it drops, too.\<close>

definition vr_clear :: "'a vec_ref \<Rightarrow> fault + 'a list \<times> 'a vec_ref" where
  "vr_clear v =
     try_bind (vr_as_slice v) (\<lambda>elems.
       let cap = saturating_add U32_MAX (vr_len v) (vr_grow v)
       in Inr (elems, v\<lparr>vr_len := 0, vr_grow := to_u8_or_max cap\<rparr>))"

text \<open>The number of cells the spare slice has; it begins at the length.\<close>

definition vr_spare_capacity :: "bool \<Rightarrow> 'a vec_ref \<Rightarrow> fault + nat" where
  "vr_spare_capacity dbg v =
     try_bind (vr_capacity dbg v) (\<lambda>cap.
     try_bind (arith_sub dbg U64_MAX cap (vr_len v)) (\<lambda>n.
       if vr_len v + n \<le> length (vr_cells v) then Inr n else Inl Undefined_Behaviour))"

definition vr_set_len :: "bool \<Rightarrow> 'a vec_ref \<Rightarrow> nat \<Rightarrow> fault + 'a vec_ref" where
  "vr_set_len dbg v new_len =
     try_bind (vr_capacity dbg v) (\<lambda>cap.
     try_bind (debug_assert dbg (new_len \<le> cap)) (\<lambda>_.
     try_bind (arith_sub dbg U64_MAX cap new_len) (\<lambda>new_grow_elts.
       Inr (v\<lparr>vr_len := new_len, vr_grow := to_u8_or_max new_grow_elts\<rparr>))))"

section \<open>Vec\<close>

type_synonym 'a vpp_vec = "'a vec_ref option"

text \<open>
  VPP's allocator: \<open>_vec_alloc_internal\<close> and \<open>_vec_resize_internal\<close> of a number of elements;
  \<open>None\<close> is an abort.
\<close>

record 'a vec_mem =
  va_alloc :: "nat \<Rightarrow> 'a vec_ref option"
  va_resize :: "'a vpp_vec \<Rightarrow> nat \<Rightarrow> 'a vec_ref option"

definition or_abort :: "'a option \<Rightarrow> fault + 'a" where
  "or_abort x = (case x of None \<Rightarrow> Inl Abort | Some y \<Rightarrow> Inr y)"

definition vec_len :: "'a vpp_vec \<Rightarrow> nat" where
  "vec_len v = (case v of None \<Rightarrow> 0 | Some r \<Rightarrow> vr_len r)"

definition vec_capacity :: "bool \<Rightarrow> 'a vpp_vec \<Rightarrow> fault + nat" where
  "vec_capacity dbg v = (case v of None \<Rightarrow> Inr 0 | Some r \<Rightarrow> vr_capacity dbg r)"

definition vec_as_slice :: "'a vpp_vec \<Rightarrow> fault + 'a list" where
  "vec_as_slice v = (if vec_len v = 0 then Inr [] else slice_of (the v) 0 (vec_len v))"

definition vec_spare_capacity :: "bool \<Rightarrow> 'a vpp_vec \<Rightarrow> fault + nat" where
  "vec_spare_capacity dbg v = (case v of None \<Rightarrow> Inr 0 | Some r \<Rightarrow> vr_spare_capacity dbg r)"

definition vec_set_len :: "bool \<Rightarrow> 'a vpp_vec \<Rightarrow> nat \<Rightarrow> fault + 'a vpp_vec" where
  "vec_set_len dbg v new_len =
     (case v of None \<Rightarrow> try_bind (debug_assert dbg (new_len = 0)) (\<lambda>_. Inr None)
      | Some r \<Rightarrow> try_bind (vr_set_len dbg r new_len) (\<lambda>r. Inr (Some r)))"

definition vec_new :: "'a vpp_vec" where
  "vec_new = None"

definition vec_with_capacity :: "'a vec_mem \<Rightarrow> bool \<Rightarrow> nat \<Rightarrow> fault + 'a vpp_vec" where
  "vec_with_capacity A dbg capacity =
     try_bind (or_abort (va_alloc A capacity)) (\<lambda>r. vec_set_len dbg (Some r) 0)"

definition vec_reserve :: "'a vec_mem \<Rightarrow> bool \<Rightarrow> 'a vpp_vec \<Rightarrow> nat \<Rightarrow> fault + 'a vpp_vec" where
  "vec_reserve A dbg v additional =
     (let len = vec_len v; new_len = len + additional in
      if new_len > U64_MAX then Inl Panic
      else if new_len > U32_MAX then Inl Panic
      else try_bind (or_abort (va_resize A v new_len)) (\<lambda>r. vec_set_len dbg (Some r) len))"

text \<open>The write of a new element at \<open>index\<close> and the header update of \<open>push\<close> and \<open>insert_mut\<close>.\<close>

definition vec_put :: "bool \<Rightarrow> 'a vpp_vec \<Rightarrow> nat \<Rightarrow> nat \<Rightarrow> 'a \<Rightarrow> fault + 'a vpp_vec" where
  "vec_put dbg v len index x =
     (case v of None \<Rightarrow> Inl Undefined_Behaviour
      | Some r \<Rightarrow>
          try_bind (write_cell r index x) (\<lambda>r.
          try_bind (arith_add dbg U32_MAX len 1) (\<lambda>l.
          try_bind (arith_sub dbg U8_MAX (vr_grow r) 1) (\<lambda>g.
            Inr (Some (r\<lparr>vr_len := l, vr_grow := g\<rparr>))))))"

definition vec_make_room :: "'a vec_mem \<Rightarrow> bool \<Rightarrow> 'a vpp_vec \<Rightarrow> fault + 'a vpp_vec" where
  "vec_make_room A dbg v =
     try_bind (vec_capacity dbg v) (\<lambda>cap. if vec_len v = cap then vec_reserve A dbg v 1 else Inr v)"

definition vec_push :: "'a vec_mem \<Rightarrow> bool \<Rightarrow> 'a vpp_vec \<Rightarrow> 'a \<Rightarrow> fault + 'a vpp_vec" where
  "vec_push A dbg v x =
     (let len = vec_len v in try_bind (vec_make_room A dbg v) (\<lambda>v. vec_put dbg v len len x))"

definition vec_insert_mut :: "'a vec_mem \<Rightarrow> bool \<Rightarrow> 'a vpp_vec \<Rightarrow> nat \<Rightarrow> 'a \<Rightarrow> fault + 'a vpp_vec" where
  "vec_insert_mut A dbg v index element =
     (let len = vec_len v in
      try_bind (vec_capacity dbg v) (\<lambda>capacity.
      if \<not> index \<le> len then Inl Panic
      else try_bind (if len = capacity then vec_reserve A dbg v 1 else Inr v) (\<lambda>v.
           try_bind (case v of None \<Rightarrow> Inl Undefined_Behaviour
                     | Some r \<Rightarrow> if index < len then try_bind (copy_cells r index (index + 1) (len - index)) (\<lambda>r. Inr (Some r))
                                else Inr v) (\<lambda>v.
             vec_put dbg v len index element))))"

definition vec_remove :: "bool \<Rightarrow> 'a vpp_vec \<Rightarrow> nat \<Rightarrow> fault + 'a \<times> 'a vpp_vec" where
  "vec_remove dbg v index =
     (case v of None \<Rightarrow> Inl Panic
      | Some r \<Rightarrow> try_bind (vr_remove dbg r index) (\<lambda>(x, r). Inr (x, Some r)))"

definition vec_pop :: "bool \<Rightarrow> 'a vpp_vec \<Rightarrow> fault + 'a option \<times> 'a vpp_vec" where
  "vec_pop dbg v =
     (case v of None \<Rightarrow> Inr (None, None)
      | Some r \<Rightarrow> try_bind (vr_pop dbg r) (\<lambda>(x, r). Inr (x, Some r)))"

definition vec_clear :: "'a vpp_vec \<Rightarrow> fault + 'a list \<times> 'a vpp_vec" where
  "vec_clear v =
     (case v of None \<Rightarrow> Inr ([], None)
      | Some r \<Rightarrow> try_bind (vr_clear r) (\<lambda>(xs, r). Inr (xs, Some r)))"

text \<open>Dropping a vector drops its elements and frees the memory; the result lists the elements and
  whether memory was freed.\<close>

definition vec_drop :: "'a vpp_vec \<Rightarrow> fault + 'a list \<times> bool" where
  "vec_drop v = (case v of None \<Rightarrow> Inr ([], False) | Some r \<Rightarrow> try_bind (vec_as_slice v) (\<lambda>xs. Inr (xs, True)))"

section \<open>Bulk operations\<close>

fun write_cells :: "'a vec_ref \<Rightarrow> nat \<Rightarrow> 'a list \<Rightarrow> fault + 'a vec_ref" where
  "write_cells r i [] = Inr r"
| "write_cells r i (x # xs) = try_bind (write_cell r i x) (\<lambda>r. write_cells r (i + 1) xs)"

definition vec_extend_with :: "'a vec_mem \<Rightarrow> bool \<Rightarrow> 'a vpp_vec \<Rightarrow> nat \<Rightarrow> 'a \<Rightarrow> fault + 'a vpp_vec" where
  "vec_extend_with A dbg v n x =
     try_bind (vec_reserve A dbg v n) (\<lambda>v.
     let new_len = vec_len v + n in
     case v of None \<Rightarrow> Inl Undefined_Behaviour
     | Some r \<Rightarrow> try_bind (write_cells r (vec_len v) (replicate n x)) (\<lambda>r. vec_set_len dbg (Some r) new_len))"

text \<open>\<open>lower\<close> is the lower bound of \<open>size_hint\<close> of the iterator that still has these elements.\<close>

fun vec_extend :: "'a vec_mem \<Rightarrow> bool \<Rightarrow> ('a list \<Rightarrow> nat) \<Rightarrow> 'a vpp_vec \<Rightarrow> 'a list \<Rightarrow> fault + 'a vpp_vec" where
  "vec_extend A dbg lower v [] = Inr v"
| "vec_extend A dbg lower v (x # xs) =
     (let len = vec_len v in
      try_bind (vec_capacity dbg v) (\<lambda>cap.
      try_bind (if len = cap then vec_reserve A dbg v (saturating_add U64_MAX (lower xs) 1) else Inr v) (\<lambda>v.
      case v of None \<Rightarrow> Inl Undefined_Behaviour
      | Some r \<Rightarrow>
          try_bind (write_cell r len x) (\<lambda>r.
          try_bind (vec_set_len dbg (Some r) (len + 1)) (\<lambda>v.
            vec_extend A dbg lower v xs)))))"

fun vec_push_all :: "'a vec_mem \<Rightarrow> bool \<Rightarrow> 'a vpp_vec \<Rightarrow> 'a list \<Rightarrow> fault + 'a vpp_vec" where
  "vec_push_all A dbg v [] = Inr v"
| "vec_push_all A dbg v (x # xs) = try_bind (vec_push A dbg v x) (\<lambda>v. vec_push_all A dbg v xs)"

text \<open>\<open>size\<close> is the iterator's size hint.\<close>

definition vec_from_iter :: "'a vec_mem \<Rightarrow> bool \<Rightarrow> nat \<Rightarrow> 'a list \<Rightarrow> fault + 'a vpp_vec" where
  "vec_from_iter A dbg sz xs = try_bind (vec_with_capacity A dbg sz) (\<lambda>v. vec_push_all A dbg v xs)"

definition to_vpp_vec :: "'a vec_mem \<Rightarrow> bool \<Rightarrow> 'a list \<Rightarrow> fault + 'a vpp_vec" where
  "to_vpp_vec A dbg xs =
     try_bind (vec_with_capacity A dbg (length xs)) (\<lambda>v.
     try_bind (vec_spare_capacity dbg v) (\<lambda>slots.
     case v of None \<Rightarrow> Inl Undefined_Behaviour
     | Some r \<Rightarrow> try_bind (write_cells r (vec_len v) (take slots xs)) (\<lambda>r. vec_set_len dbg (Some r) (length xs))))"

definition vec_clone :: "'a vec_mem \<Rightarrow> bool \<Rightarrow> 'a vpp_vec \<Rightarrow> fault + 'a vpp_vec" where
  "vec_clone A dbg v = try_bind (vec_as_slice v) (to_vpp_vec A dbg)"

text \<open>\<open>vec![elem; n]\<close>\<close>

definition vec_macro_repeat :: "'a vec_mem \<Rightarrow> bool \<Rightarrow> 'a \<Rightarrow> nat \<Rightarrow> fault + 'a vpp_vec" where
  "vec_macro_repeat A dbg x n = try_bind (vec_with_capacity A dbg n) (\<lambda>v. vec_extend_with A dbg v n x)"

section \<open>IntoIter\<close>

text \<open>Pointers are offsets from the beginning of the allocation; \<open>ii_start\<close> is false when it is null.\<close>

record 'a into_iter =
  ii_cells :: "'a option list"
  ii_start :: bool
  ii_ptr :: nat
  ii_end :: nat
  ii_len :: nat

definition vec_into_iter :: "'a vpp_vec \<Rightarrow> 'a into_iter" where
  "vec_into_iter v =
     (case v of None \<Rightarrow> \<lparr>ii_cells = [], ii_start = False, ii_ptr = 0, ii_end = 0, ii_len = 0\<rparr>
      | Some r \<Rightarrow> \<lparr>ii_cells = vr_cells r, ii_start = True, ii_ptr = 0, ii_end = vr_len r, ii_len = vr_len r\<rparr>)"

definition ii_read :: "'a into_iter \<Rightarrow> nat \<Rightarrow> fault + 'a" where
  "ii_read it i = (case nth_opt (ii_cells it) i of Some (Some x) \<Rightarrow> Inr x | _ \<Rightarrow> Inl Undefined_Behaviour)"

definition ii_next :: "'a into_iter \<Rightarrow> fault + 'a option \<times> 'a into_iter" where
  "ii_next it =
     (if ii_len it = 0 then Inr (None, it)
      else try_bind (ii_read it (ii_ptr it)) (\<lambda>x.
             Inr (Some x, it\<lparr>ii_ptr := ii_ptr it + 1, ii_len := ii_len it - 1\<rparr>)))"

definition ii_next_back :: "'a into_iter \<Rightarrow> fault + 'a option \<times> 'a into_iter" where
  "ii_next_back it =
     (if ii_len it = 0 then Inr (None, it)
      else if ii_end it = 0 then Inl Undefined_Behaviour
      else try_bind (ii_read it (ii_end it - 1)) (\<lambda>x.
             Inr (Some x, it\<lparr>ii_end := ii_end it - 1, ii_len := ii_len it - 1\<rparr>)))"

definition ii_size_hint :: "'a into_iter \<Rightarrow> nat \<times> nat option" where
  "ii_size_hint it = (ii_len it, Some (ii_len it))"

definition ii_remaining :: "'a into_iter \<Rightarrow> fault + 'a list" where
  "ii_remaining it = slice_of \<lparr>vr_len = ii_end it, vr_grow = 0, vr_cells = ii_cells it\<rparr> (ii_ptr it) (ii_len it)"

definition ii_drop :: "'a into_iter \<Rightarrow> fault + 'a list \<times> bool" where
  "ii_drop it = try_bind (if ii_len it > 0 then ii_remaining it else Inr []) (\<lambda>xs. Inr (xs, ii_start it))"

definition ii_clone :: "'a vec_mem \<Rightarrow> bool \<Rightarrow> 'a into_iter \<Rightarrow> fault + 'a into_iter" where
  "ii_clone A dbg it =
     (if ii_len it = 0 then Inr (vec_into_iter None)
      else try_bind (vec_with_capacity A dbg (ii_len it)) (\<lambda>v.
           try_bind (ii_remaining it) (\<lambda>xs.
           try_bind (vec_push_all A dbg v xs) (\<lambda>v. Inr (vec_into_iter v)))))"

end
