(* ===== verification/Vpp_Vec_Props.thy ===== *)
theory Vpp_Vec_Props
  imports Vpp_Vec
begin

text \<open>
  VPP vectors against lists: a simulation relation between a vector in memory and the list it
  stands for, and one lemma per operation.  \<open>grow_elts\<close> is an 8-bit field, and the operations that
  treat it as the whole spare capacity go wrong beyond 255 elements.
\<close>

section \<open>The relation to lists\<close>

definition vr_room :: "'a vec_ref \<Rightarrow> bool" where
  "vr_room r \<longleftrightarrow> vr_grow r \<le> U8_MAX \<and> vr_len r + vr_grow r \<le> length (vr_cells r) \<and> length (vr_cells r) \<le> U32_MAX"

definition vr_holds :: "'a vec_ref \<Rightarrow> 'a list \<Rightarrow> bool" where
  "vr_holds r xs \<longleftrightarrow> vr_room r \<and> vr_len r = length xs \<and> (\<forall>i<length xs. vr_cells r ! i = Some (xs ! i))"

definition vec_holds :: "'a vpp_vec \<Rightarrow> 'a list \<Rightarrow> bool" where
  "vec_holds v xs = (case v of None \<Rightarrow> xs = [] | Some r \<Rightarrow> vr_holds r xs)"

text \<open>
  What the code relies on of VPP's allocator: the vector has the length asked for, fits its
  allocation together with \<open>grow_elts\<close>, whose element count fits the 32-bit length field, and
  resizing keeps the elements.
\<close>

definition mem_ok :: "'a vec_mem \<Rightarrow> bool" where
  "mem_ok A \<longleftrightarrow>
     (\<forall>n r. va_alloc A n = Some r \<longrightarrow> vr_room r \<and> vr_len r = n) \<and>
     (\<forall>v xs n r. vec_holds v xs \<longrightarrow> va_resize A v n = Some r \<longrightarrow>
        vr_room r \<and> vr_len r = n \<and> (\<forall>i<min n (length xs). vr_cells r ! i = Some (xs ! i)))"

named_theorems vec_simps

lemma vec_holds_simps [simp]: "vec_holds None xs \<longleftrightarrow> xs = []" "vec_holds (Some r) xs \<longleftrightarrow> vr_holds r xs"
  by (simp_all add: vec_holds_def)

lemma vec_len_holds [vec_simps]: "vec_holds v xs \<Longrightarrow> vec_len v = length xs"
  by (cases v) (auto simp: vec_len_def vr_holds_def)

lemma vr_capacity_room [vec_simps]: "vr_room r \<Longrightarrow> vr_capacity dbg r = Inr (vr_len r + vr_grow r)"
  by (simp add: vr_capacity_def vr_room_def)

lemma vec_capacity_Ok: "vec_holds v xs \<Longrightarrow> \<exists>cap. vec_capacity dbg v = Inr cap"
  by (cases v) (auto simp: vec_capacity_def vr_holds_def vr_capacity_room)

lemma U_MAX [vec_simps]: "U8_MAX = 255" "U32_MAX = 4294967295" "U64_MAX = 18446744073709551615"
  by (simp_all add: U8_MAX_def U32_MAX_def U64_MAX_def)

lemma vr_set_len_room [vec_simps]:
  assumes "vr_room r" "n \<le> vr_len r + vr_grow r"
  shows "vr_set_len dbg r n = Inr (r\<lparr>vr_len := n, vr_grow := min 255 (vr_len r + vr_grow r - n)\<rparr>)"
  using assms by (auto simp: vr_set_len_def vr_capacity_room to_u8_or_max_def U8_MAX_def)

lemma slice_of_holds:
  assumes "vr_holds r xs"
  shows "slice_of r 0 (length xs) = Inr xs"
proof -
  have len: "length xs \<le> length (vr_cells r)" using assms by (simp add: vr_holds_def vr_room_def)
  have "take (length xs) (vr_cells r) = map Some xs"
    by (rule nth_equalityI) (use assms len in \<open>auto simp: vr_holds_def\<close>)
  with len show ?thesis by (auto simp: slice_of_def o_def)
qed

lemma vec_as_slice_holds [vec_simps]: "vec_holds v xs \<Longrightarrow> vec_as_slice v = Inr xs"
proof -
  assume h: "vec_holds v xs"
  show ?thesis
  proof (cases v)
    case (Some r)
    with h slice_of_holds[of r xs] show ?thesis by (auto simp: vec_as_slice_def vec_len_def vr_holds_def)
  qed (use h in \<open>simp add: vec_as_slice_def vec_len_def\<close>)
qed

lemma mem_alloc: "mem_ok A \<Longrightarrow> va_alloc A n = Some r \<Longrightarrow> vr_room r \<and> vr_len r = n"
  by (simp add: mem_ok_def)

lemma mem_resize:
  "mem_ok A \<Longrightarrow> vec_holds v xs \<Longrightarrow> va_resize A v n = Some r \<Longrightarrow>
     vr_room r \<and> vr_len r = n \<and> (\<forall>i<min n (length xs). vr_cells r ! i = Some (xs ! i))"
  by (simp add: mem_ok_def)

section \<open>Allocation\<close>

text \<open>A fault that is the allocator's abort, or a result with a property.\<close>

definition unless_abort :: "fault + 'a \<Rightarrow> ('a \<Rightarrow> bool) \<Rightarrow> bool" where
  "unless_abort m P = (case m of Inl e \<Rightarrow> e = Abort | Inr x \<Rightarrow> P x)"

lemma unless_abort_simps [simp]: "unless_abort (Inl e) P \<longleftrightarrow> e = Abort" "unless_abort (Inr x) P \<longleftrightarrow> P x"
  by (simp_all add: unless_abort_def)

lemma unless_abort_bind:
  "unless_abort m P \<Longrightarrow> (\<And>x. P x \<Longrightarrow> unless_abort (f x) Q) \<Longrightarrow> unless_abort (try_bind m f) Q"
  by (cases m) auto

lemma vec_with_capacity_Ok:
  assumes "mem_ok A"
  shows "unless_abort (vec_with_capacity A dbg n)
    (\<lambda>v. vec_holds v [] \<and> (\<exists>r. v = Some r \<and> min 255 n \<le> vr_grow r \<and> n \<le> length (vr_cells r)))"
proof (cases "va_alloc A n")
  case (Some r)
  with assms have r: "vr_room r" "vr_len r = n" by (auto dest: mem_alloc)
  then have "vr_set_len dbg r 0 = Inr (r\<lparr>vr_len := 0, vr_grow := min 255 (n + vr_grow r)\<rparr>)"
    by (simp add: vr_set_len_room)
  with Some r show ?thesis
    by (auto simp: vec_with_capacity_def or_abort_def vec_set_len_def vr_holds_def vr_room_def U8_MAX_def)
qed (simp add: vec_with_capacity_def or_abort_def)

lemma vec_reserve_Ok:
  assumes "mem_ok A" "vec_holds v xs" "length xs + n \<le> U32_MAX"
  shows "unless_abort (vec_reserve A dbg v n)
    (\<lambda>v'. vec_holds v' xs \<and> (\<exists>r. v' = Some r \<and> min 255 n \<le> vr_grow r \<and> length xs + n \<le> length (vr_cells r)))"
proof -
  have n: "\<not> length xs + n > U64_MAX" "\<not> length xs + n > U32_MAX" using assms(3) by (simp_all add: vec_simps)
  show ?thesis
  proof (cases "va_resize A v (length xs + n)")
    case None
    with n show ?thesis by (simp add: vec_reserve_def vec_len_holds[OF assms(2)] or_abort_def Let_def)
  next
    case (Some r)
    note m = mem_resize[OF assms(1,2) Some]
    then have "vr_set_len dbg r (length xs) = Inr (r\<lparr>vr_len := length xs, vr_grow := min 255 (n + vr_grow r)\<rparr>)"
      by (simp add: vr_set_len_room)
    with Some n m show ?thesis
      by (auto simp: vec_reserve_def vec_len_holds[OF assms(2)] or_abort_def Let_def vec_set_len_def vr_holds_def
          vr_room_def U8_MAX_def)
  qed
qed

section \<open>Growing\<close>

lemma vec_put_end:
  assumes "vr_holds r xs" "0 < vr_grow r"
  shows "\<exists>v'. vec_put dbg (Some r) (length xs) (length xs) x = Inr v' \<and> vec_holds v' (xs @ [x])"
proof -
  have "length xs < length (vr_cells r)" "length xs + 1 \<le> U32_MAX" using assms by (auto simp: vr_holds_def vr_room_def)
  with assms show ?thesis
    by (auto simp: vec_put_def write_cell_def vr_holds_def vr_room_def nth_append nth_list_update less_Suc_eq)
qed

lemma vec_make_room_Ok:
  assumes "mem_ok A" "vec_holds v xs" "length xs < U32_MAX"
  shows "unless_abort (vec_make_room A dbg v) (\<lambda>v'. vec_holds v' xs \<and> (\<exists>r. v' = Some r \<and> 0 < vr_grow r))"
proof -
  have len: "vec_len v = length xs" using assms(2) by (rule vec_len_holds)
  obtain cap where cap: "vec_capacity dbg v = Inr cap" using vec_capacity_Ok[OF assms(2)] by blast
  show ?thesis
  proof (cases "length xs = cap")
    case True
    have "unless_abort (vec_reserve A dbg v 1) (\<lambda>v'. vec_holds v' xs \<and> (\<exists>r. v' = Some r \<and> min 255 1 \<le> vr_grow r \<and> length xs + 1 \<le> length (vr_cells r)))"
      using assms by (intro vec_reserve_Ok) auto
    with True cap len show ?thesis by (cases "vec_reserve A dbg v 1") (auto simp: vec_make_room_def)
  next
    case False
    then obtain r where r: "v = Some r" "0 < vr_grow r"
      using cap assms(2) by (cases v) (auto simp: vec_capacity_def vr_capacity_room vr_holds_def)
    with False cap len assms(2) show ?thesis by (simp add: vec_make_room_def)
  qed
qed

lemma vec_push_Ok:
  assumes "mem_ok A" "vec_holds v xs" "length xs < U32_MAX"
  shows "unless_abort (vec_push A dbg v x) (\<lambda>v'. vec_holds v' (xs @ [x]))"
  unfolding vec_push_def Let_def vec_len_holds[OF assms(2)]
proof (rule unless_abort_bind[OF vec_make_room_Ok[OF assms]])
  fix v' assume "vec_holds v' xs \<and> (\<exists>r. v' = Some r \<and> 0 < vr_grow r)"
  then obtain r where "v' = Some r" "vr_holds r xs" "0 < vr_grow r" by auto
  with vec_put_end[of r xs dbg x] show "unless_abort (vec_put dbg v' (length xs) (length xs) x) (\<lambda>v'. vec_holds v' (xs @ [x]))"
    by auto
qed

lemma vec_push_all_Ok:
  assumes "mem_ok A"
  shows "vec_holds v xs \<Longrightarrow> length xs + length ys \<le> U32_MAX \<Longrightarrow>
    unless_abort (vec_push_all A dbg v ys) (\<lambda>v'. vec_holds v' (xs @ ys))"
proof (induction ys arbitrary: v xs)
  case (Cons y ys)
  have "unless_abort (vec_push A dbg v y) (\<lambda>v'. vec_holds v' (xs @ [y]))"
    using Cons.prems by (intro vec_push_Ok[OF assms]) auto
  then show ?case using Cons.IH[of _ "xs @ [y]"] Cons.prems
    by (auto intro!: unless_abort_bind)
qed simp

lemma vec_from_iter_Ok:
  assumes "mem_ok A" "length xs \<le> U32_MAX"
  shows "unless_abort (vec_from_iter A dbg sz xs) (\<lambda>v. vec_holds v xs)"
  unfolding vec_from_iter_def
  by (rule unless_abort_bind[OF vec_with_capacity_Ok[OF assms(1)]]) (use vec_push_all_Ok[OF assms(1), of _ "[]"] assms(2) in auto)

lemma vec_extend_Ok:
  assumes "mem_ok A"
  shows "vec_holds v xs \<Longrightarrow> length xs + length ys \<le> U32_MAX \<Longrightarrow> (\<And>zs. lower zs \<le> length zs) \<Longrightarrow>
    unless_abort (vec_extend A dbg lower v ys) (\<lambda>v'. vec_holds v' (xs @ ys))"
proof (induction ys arbitrary: v xs)
  case (Cons y ys)
  have len: "vec_len v = length xs" using Cons.prems(1) by (rule vec_len_holds)
  obtain cap where cap: "vec_capacity dbg v = Inr cap" using vec_capacity_Ok[OF Cons.prems(1)] by blast
  let ?n = "saturating_add U64_MAX (lower ys) 1"
  have "lower ys \<le> length ys" by (rule Cons.prems)
  then have n: "?n = lower ys + 1" "length xs + ?n \<le> U32_MAX"
    using Cons.prems(2) by (auto simp: saturating_add_def vec_simps)
  have room: "unless_abort (if length xs = cap then vec_reserve A dbg v ?n else Inr v)
      (\<lambda>v'. vec_holds v' xs \<and> (\<exists>r. v' = Some r \<and> 0 < vr_grow r))"
  proof (cases "length xs = cap")
    case True
    from vec_reserve_Ok[OF assms Cons.prems(1) n(2), of dbg] True n(1) show ?thesis
      by (cases "vec_reserve A dbg v ?n") auto
  next
    case False
    then obtain r where "v = Some r" "0 < vr_grow r"
      using cap Cons.prems(1) by (cases v) (auto simp: vec_capacity_def vr_capacity_room vr_holds_def)
    with False Cons.prems(1) show ?thesis by simp
  qed
  show ?case unfolding vec_extend.simps Let_def len cap try_bind_simps
  proof (rule unless_abort_bind[OF room])
    fix v' assume "vec_holds v' xs \<and> (\<exists>r. v' = Some r \<and> 0 < vr_grow r)"
    then obtain r where r: "v' = Some r" "vr_holds r xs" "0 < vr_grow r" by auto
    let ?r = "r\<lparr>vr_cells := (vr_cells r)[length xs := Some y]\<rparr>"
    have w: "write_cell r (length xs) y = Inr ?r" using r by (auto simp: write_cell_def vr_holds_def vr_room_def)
    have "vr_room ?r" "length xs + 1 \<le> vr_len ?r + vr_grow ?r" using r by (auto simp: vr_holds_def vr_room_def)
    then have s: "vr_set_len dbg ?r (length xs + 1) =
        Inr (?r\<lparr>vr_len := length xs + 1, vr_grow := min 255 (vr_len ?r + vr_grow ?r - (length xs + 1))\<rparr>)"
      by (rule vr_set_len_room)
    have "vr_holds (?r\<lparr>vr_len := length xs + 1, vr_grow := min 255 (vr_len ?r + vr_grow ?r - (length xs + 1))\<rparr>) (xs @ [y])"
      using r by (auto simp: vr_holds_def vr_room_def nth_append nth_list_update less_Suc_eq)
    then show "unless_abort (case v' of None \<Rightarrow> Inl Undefined_Behaviour
        | Some r \<Rightarrow> try_bind (write_cell r (length xs) y) (\<lambda>r. try_bind (vec_set_len dbg (Some r) (length xs + 1))
            (\<lambda>v. vec_extend A dbg lower v ys))) (\<lambda>v'. vec_holds v' (xs @ y # ys))"
      using r w s Cons.IH[OF _ _ Cons.prems(3), of _ "xs @ [y]"] Cons.prems(2) by (simp add: vec_set_len_def)
  qed
qed simp

lemma copy_cells_Ok:
  assumes "src + n \<le> length (vr_cells r)" "dst + n \<le> length (vr_cells r)"
  obtains cs where "copy_cells r src dst n = Inr (r\<lparr>vr_cells := cs\<rparr>)" "length cs = length (vr_cells r)"
    "\<And>i. i < length cs \<Longrightarrow> cs ! i = (if dst \<le> i \<and> i < dst + n then vr_cells r ! (src + (i - dst)) else vr_cells r ! i)"
proof
  let ?cs = "map (\<lambda>i. if dst \<le> i \<and> i < dst + n then vr_cells r ! (src + (i - dst)) else vr_cells r ! i) [0..<length (vr_cells r)]"
  show "copy_cells r src dst n = Inr (r\<lparr>vr_cells := ?cs\<rparr>)" using assms by (simp add: copy_cells_def Let_def)
qed auto

lemma insert_nth:
  "i \<le> length xs \<Longrightarrow> j < Suc (length xs) \<Longrightarrow>
     (take i xs @ x # drop i xs) ! j = (if j < i then xs ! j else if j = i then x else xs ! (j - 1))"
proof (cases "i < j")
  assume ij: "i \<le> length xs" "j < Suc (length xs)"
  {
    case True
    then obtain k where "j = Suc (i + k)" using less_iff_Suc_add by blast
    with ij show ?thesis by (simp add: nth_append min_def)
  next
    case False
    with ij show ?thesis by (auto simp: nth_append min_def)
  }
qed

lemma vec_insert_mut_Ok:
  assumes "mem_ok A" "vec_holds v xs" "length xs < U32_MAX" "index \<le> length xs"
  shows "unless_abort (vec_insert_mut A dbg v index x) (\<lambda>v'. vec_holds v' (take index xs @ x # drop index xs))"
proof -
  have len: "vec_len v = length xs" using assms(2) by (rule vec_len_holds)
  obtain cap where cap: "vec_capacity dbg v = Inr cap" using vec_capacity_Ok[OF assms(2)] by blast
  have room: "unless_abort (if length xs = cap then vec_reserve A dbg v 1 else Inr v)
      (\<lambda>v'. vec_holds v' xs \<and> (\<exists>r. v' = Some r \<and> 0 < vr_grow r))"
    using vec_make_room_Ok[OF assms(1-3), of dbg] by (simp add: vec_make_room_def len cap)
  have step: "unless_abort (try_bind (if index < length xs
        then try_bind (copy_cells r index (index + 1) (length xs - index)) (\<lambda>r. Inr (Some r)) else Inr (Some r))
        (\<lambda>v. vec_put dbg v (length xs) index x)) (\<lambda>v'. vec_holds v' (take index xs @ x # drop index xs))"
    if r: "vr_holds r xs" "0 < vr_grow r" for r
  proof -
    have b: "length xs < length (vr_cells r)" "length xs + 1 \<le> U32_MAX" using r by (auto simp: vr_holds_def vr_room_def)
    obtain cs where cs: "copy_cells r index (index + 1) (length xs - index) = Inr (r\<lparr>vr_cells := cs\<rparr>)"
      "length cs = length (vr_cells r)"
      "\<And>i. i < length cs \<Longrightarrow> cs ! i = (if index + 1 \<le> i \<and> i < index + 1 + (length xs - index)
           then vr_cells r ! (index + (i - (index + 1))) else vr_cells r ! i)"
      by (rule copy_cells_Ok[of index "length xs - index" r "index + 1"]) (use b assms(4) in auto)
    let ?ds = "if index < length xs then cs else vr_cells r"
    have ds: "length ?ds = length (vr_cells r)" using cs(2) by simp
    have "vr_holds (r\<lparr>vr_cells := ?ds[index := Some x], vr_len := length xs + 1, vr_grow := vr_grow r - 1\<rparr>)
        (take index xs @ x # drop index xs)"
      using r b assms(4) cs(2) cs(3)
      by (auto simp: vr_holds_def vr_room_def insert_nth nth_list_update)
    moreover have "index < length cs" "index < length (vr_cells r)" using b assms(4) cs(2) by simp_all
    ultimately show ?thesis using r b assms(4) cs(1)
      by (auto simp: vec_put_def write_cell_def)
  qed
  show ?thesis unfolding vec_insert_mut_def Let_def len cap try_bind_simps if_not_P[OF assms(4)[THEN not_not[THEN iffD2]]]
  proof (rule unless_abort_bind[OF room])
    fix v' assume "vec_holds v' xs \<and> (\<exists>r. v' = Some r \<and> 0 < vr_grow r)"
    then obtain r where "v' = Some r" "vr_holds r xs" "0 < vr_grow r" by auto
    with step[of r] show "unless_abort (try_bind (case v' of None \<Rightarrow> Inl Undefined_Behaviour
        | Some r \<Rightarrow> if index < length xs then try_bind (copy_cells r index (index + 1) (length xs - index)) (\<lambda>r. Inr (Some r)) else Inr v')
        (\<lambda>v. vec_put dbg v (length xs) index x)) (\<lambda>v'. vec_holds v' (take index xs @ x # drop index xs))"
      by (simp only: option.case)
  qed
qed

section \<open>Shrinking\<close>

text \<open>\<open>grow_elts += 1\<close>: a panic at 255 with overflow checks, zero without.\<close>

lemma grow_one:
  assumes "g \<le> U8_MAX"
  shows "arith_add dbg U8_MAX g 1 = (if g = U8_MAX \<and> dbg then Inl Panic else Inr ((g + 1) mod 256))"
  using assms by (auto simp: arith_add_def U8_MAX_def)

lemma vr_remove_Ok:
  assumes "vr_holds r xs" "index < length xs" "\<not> (vr_grow r = U8_MAX \<and> dbg)"
  shows "\<exists>r'. vr_remove dbg r index = Inr (xs ! index, r') \<and> vr_holds r' (take index xs @ drop (index + 1) xs)"
proof -
  have b: "length xs + vr_grow r \<le> length (vr_cells r)" "vr_grow r \<le> U8_MAX" using assms(1) by (auto simp: vr_holds_def vr_room_def)
  obtain cs where cs: "copy_cells r (index + 1) index (length xs - index - 1) = Inr (r\<lparr>vr_cells := cs\<rparr>)"
    "length cs = length (vr_cells r)"
    "\<And>i. i < length cs \<Longrightarrow> cs ! i = (if index \<le> i \<and> i < index + (length xs - index - 1)
           then vr_cells r ! (index + 1 + (i - index)) else vr_cells r ! i)"
    by (rule copy_cells_Ok[of "index + 1" "length xs - index - 1" r index]) (use b assms(2) in auto)
  let ?g = "(vr_grow r + 1) mod 256"
  have g: "?g \<le> vr_grow r + 1" "?g \<le> 255" by auto
  have "vr_holds (r\<lparr>vr_cells := cs, vr_len := length xs - 1, vr_grow := ?g\<rparr>) (take index xs @ drop (index + 1) xs)"
    using assms(1,2) b cs(2,3) g
    by (auto simp: vr_holds_def vr_room_def nth_append min_def U8_MAX_def simp del: mod_Suc mod_Suc_eq intro: order_trans[OF add_left_mono[OF g(1)]])
  moreover have "read_cell r index = Inr (xs ! index)" using assms(1,2) b by (auto simp: read_cell_def vr_holds_def)
  ultimately show ?thesis
    using assms b cs(1) by (simp add: vr_remove_def vr_holds_def grow_one[OF b(2), unfolded One_nat_def] Let_def)
qed

lemma vr_pop_Ok:
  assumes "vr_holds r xs" "xs \<noteq> []" "\<not> (vr_grow r = U8_MAX \<and> dbg)"
  shows "\<exists>r'. vr_pop dbg r = Inr (Some (last xs), r') \<and> vr_holds r' (butlast xs)"
proof -
  have b: "length xs + vr_grow r \<le> length (vr_cells r)" "vr_grow r \<le> U8_MAX" using assms(1) by (auto simp: vr_holds_def vr_room_def)
  have l: "length xs - 1 < length xs" "length xs - 1 < length (vr_cells r)" using assms(2) b by (cases xs; simp)+
  then have "read_cell r (length xs - 1) = Inr (last xs)" using assms(1,2) b
    by (auto simp del: One_nat_def simp: read_cell_def vr_holds_def last_conv_nth)
  moreover have "vr_holds (r\<lparr>vr_len := length xs - 1, vr_grow := (vr_grow r + 1) mod 256\<rparr>) (butlast xs)"
  proof -
    have g: "(vr_grow r + 1) mod 256 \<le> vr_grow r + 1" "(vr_grow r + 1) mod 256 \<le> 255" by auto
    have "length xs - 1 + (vr_grow r + 1) \<le> length (vr_cells r)" using assms(2) b(1) by (cases xs) auto
    with g(1) have "length xs - 1 + (vr_grow r + 1) mod 256 \<le> length (vr_cells r)" by linarith
    with g(2) assms(1,2) b show ?thesis by (auto simp: vr_holds_def vr_room_def nth_butlast U8_MAX_def)
  qed
  ultimately show ?thesis
    using assms b by (auto simp: vr_pop_def vr_holds_def grow_one[OF b(2), unfolded One_nat_def] Let_def)
qed

lemma vr_clear_Ok:
  assumes "vr_holds r xs"
  shows "\<exists>r'. vr_clear r = Inr (xs, r') \<and> vr_holds r' []"
proof -
  have "vr_as_slice r = Inr xs" using assms slice_of_holds[OF assms] by (simp add: vr_as_slice_def vr_holds_def)
  with assms show ?thesis
    by (auto simp: vr_clear_def vr_holds_def vr_room_def Let_def to_u8_or_max_def saturating_add_def vec_simps)
qed

section \<open>Bulk writes\<close>

lemma write_cells_Ok:
  "i + length xs \<le> length (vr_cells r) \<Longrightarrow>
     write_cells r i xs = Inr (r\<lparr>vr_cells := take i (vr_cells r) @ map Some xs @ drop (i + length xs) (vr_cells r)\<rparr>)"
proof (induction xs arbitrary: i r)
  case (Cons x xs)
  let ?r = "r\<lparr>vr_cells := (vr_cells r)[i := Some x]\<rparr>"
  have i: "i < length (vr_cells r)" using Cons.prems by simp
  have "write_cells ?r (i + 1) xs =
      Inr (?r\<lparr>vr_cells := take (i + 1) (vr_cells ?r) @ map Some xs @ drop (i + 1 + length xs) (vr_cells ?r)\<rparr>)"
    using Cons.prems by (intro Cons.IH) simp
  moreover have "take (i + 1) ((vr_cells r)[i := Some x]) = take i (vr_cells r) @ [Some x]"
    using i by (simp add: take_Suc_conv_app_nth)
  ultimately show ?case using i by (simp add: write_cell_def)
qed simp

lemma with_capacity_exact:
  assumes "mem_ok A"
  shows "vec_with_capacity A dbg n = Inl Abort \<or>
    (\<exists>r. va_alloc A n = Some r \<and> n \<le> length (vr_cells r) \<and> length (vr_cells r) \<le> U32_MAX \<and>
       vec_with_capacity A dbg n = Inr (Some (r\<lparr>vr_len := 0, vr_grow := min 255 (n + vr_grow r)\<rparr>)) \<and>
       n + vr_grow r \<le> length (vr_cells r))"
proof (cases "va_alloc A n")
  case (Some r)
  with assms have r: "vr_room r" "vr_len r = n" by (auto dest: mem_alloc)
  then have "vr_set_len dbg r 0 = Inr (r\<lparr>vr_len := 0, vr_grow := min 255 (n + vr_grow r)\<rparr>)"
    by (simp add: vr_set_len_room)
  with Some r show ?thesis by (auto simp: vec_with_capacity_def or_abort_def vec_set_len_def vr_room_def)
qed (simp add: vec_with_capacity_def or_abort_def)

text \<open>\<open>set_len\<close> beyond the capacity the header can tell: a panic, or a header that claims 255 spare elements.\<close>

lemma vr_set_len_beyond:
  assumes "vr_len r + vr_grow r < n" "vr_len r + vr_grow r \<le> U32_MAX" "n \<le> U32_MAX"
  shows "vr_set_len True r n = Inl Panic" "vr_set_len False r n = Inr (r\<lparr>vr_len := n, vr_grow := 255\<rparr>)"
  using assms by (auto simp: vr_set_len_def vr_capacity_def debug_assert_def arith_sub_def to_u8_or_max_def vec_simps)

lemma to_vpp_vec_short:
  assumes "mem_ok A" "length xs \<le> 255"
  shows "unless_abort (to_vpp_vec A dbg xs) (\<lambda>v. vec_holds v xs)"
proof -
  from with_capacity_exact[OF assms(1), of dbg "length xs"] consider
      "vec_with_capacity A dbg (length xs) = Inl Abort"
    | r where "length xs + vr_grow r \<le> length (vr_cells r)" "length (vr_cells r) \<le> U32_MAX"
        "vec_with_capacity A dbg (length xs) = Inr (Some (r\<lparr>vr_len := 0, vr_grow := min 255 (length xs + vr_grow r)\<rparr>))"
    by blast
  then show ?thesis
  proof cases
    case 2
    let ?r = "r\<lparr>vr_len := 0, vr_grow := min 255 (length xs + vr_grow r)\<rparr>"
    let ?w = "?r\<lparr>vr_cells := map Some xs @ drop (length xs) (vr_cells r)\<rparr>"
    have room: "vr_room ?r" using 2 by (auto simp: vr_room_def U8_MAX_def)
    have slots: "vr_spare_capacity dbg ?r = Inr (min 255 (length xs + vr_grow r))"
      using 2 by (simp add: vr_spare_capacity_def vr_capacity_room[OF room])
    have tk: "take (min 255 (length xs + vr_grow r)) xs = xs" using assms(2) by simp
    have w: "write_cells ?r 0 xs = Inr ?w" using 2 write_cells_Ok[of 0 xs ?r] by simp
    have "vr_room ?w" "length xs \<le> vr_len ?w + vr_grow ?w" using 2 assms(2) by (auto simp: vr_room_def U8_MAX_def)
    then have sl: "vr_set_len dbg ?w (length xs) =
        Inr (?w\<lparr>vr_len := length xs, vr_grow := min 255 (vr_len ?w + vr_grow ?w - length xs)\<rparr>)" by (rule vr_set_len_room)
    have "vr_holds (?w\<lparr>vr_len := length xs, vr_grow := min 255 (vr_len ?w + vr_grow ?w - length xs)\<rparr>) xs"
      using 2 by (auto simp: vr_holds_def vr_room_def U8_MAX_def nth_append)
    then show ?thesis
      using sl by (simp add: to_vpp_vec_def 2(3) vec_spare_capacity_def slots vec_len_def w tk vec_set_len_def)
  qed (simp add: to_vpp_vec_def)
qed

lemma to_vpp_vec_long:
  assumes "mem_ok A" "255 < length xs" "length xs \<le> U32_MAX"
  shows "to_vpp_vec A True xs = Inl Abort \<or> to_vpp_vec A True xs = Inl Panic"
    "unless_abort (to_vpp_vec A False xs) (\<lambda>v. \<exists>r0 r. va_alloc A (length xs) = Some r0 \<and> v = Some r \<and>
       vr_len r = length xs \<and> vr_grow r = 255 \<and> drop 255 (vr_cells r) = drop 255 (vr_cells r0))"
proof -
  have gen: "to_vpp_vec A dbg xs = Inl Abort \<or> (\<exists>r0 w. va_alloc A (length xs) = Some r0 \<and> vr_len w = 0 \<and> vr_grow w = 255 \<and>
      drop 255 (vr_cells w) = drop 255 (vr_cells r0) \<and>
      to_vpp_vec A dbg xs = try_bind (vr_set_len dbg w (length xs)) (\<lambda>r. Inr (Some r)))" for dbg
  proof -
    from with_capacity_exact[OF assms(1), of dbg "length xs"] consider
        "vec_with_capacity A dbg (length xs) = Inl Abort"
      | r where "va_alloc A (length xs) = Some r" "length xs + vr_grow r \<le> length (vr_cells r)" "length (vr_cells r) \<le> U32_MAX"
          "vec_with_capacity A dbg (length xs) = Inr (Some (r\<lparr>vr_len := 0, vr_grow := min 255 (length xs + vr_grow r)\<rparr>))"
      by blast
    then show ?thesis
    proof cases
      case 2
      let ?r = "r\<lparr>vr_len := 0, vr_grow := 255\<rparr>"
      let ?w = "?r\<lparr>vr_cells := map Some (take 255 xs) @ drop 255 (vr_cells r)\<rparr>"
      have g: "min 255 (length xs + vr_grow r) = 255" using assms(2) by simp
      have room: "vr_room ?r" using 2 assms(2) by (auto simp: vr_room_def U8_MAX_def)
      have slots: "vr_spare_capacity dbg ?r = Inr 255"
        using 2 assms(2) by (simp add: vr_spare_capacity_def vr_capacity_room[OF room])
      have w: "write_cells ?r 0 (take 255 xs) = Inr ?w"
        using 2 assms(2) write_cells_Ok[of 0 "take 255 xs" ?r] by simp
      have "drop 255 (vr_cells ?w) = drop 255 (vr_cells r)" using assms(2) by simp
      moreover have "to_vpp_vec A dbg xs = try_bind (vr_set_len dbg ?w (length xs)) (\<lambda>r. Inr (Some r))"
        using 2(4)[unfolded g] by (simp add: to_vpp_vec_def vec_spare_capacity_def slots vec_len_def w vec_set_len_def)
      ultimately show ?thesis using 2(1) by (intro disjI2 exI[of _ r] exI[of _ ?w]) simp
    qed (simp add: to_vpp_vec_def)
  qed
  have beyond: "vr_set_len True w (length xs) = Inl Panic"
    "vr_set_len False w (length xs) = Inr (w\<lparr>vr_len := length xs, vr_grow := 255\<rparr>)"
    if "vr_len w = 0" "vr_grow w = 255" for w :: "'a vec_ref"
    using that assms(2,3) vr_set_len_beyond[of w "length xs"] by (simp_all add: vec_simps)
  show "to_vpp_vec A True xs = Inl Abort \<or> to_vpp_vec A True xs = Inl Panic"
    using gen[of True] beyond(1) by auto
  show "unless_abort (to_vpp_vec A False xs) (\<lambda>v. \<exists>r0 r. va_alloc A (length xs) = Some r0 \<and> v = Some r \<and>
       vr_len r = length xs \<and> vr_grow r = 255 \<and> drop 255 (vr_cells r) = drop 255 (vr_cells r0))"
    using gen[of False] beyond(2) by auto
qed

section \<open>Iteration\<close>

definition ii_holds :: "'a into_iter \<Rightarrow> 'a list \<Rightarrow> bool" where
  "ii_holds it ys \<longleftrightarrow> ii_len it = length ys \<and> ii_end it = ii_ptr it + length ys \<and> ii_end it \<le> length (ii_cells it) \<and>
     (\<forall>i<length ys. ii_cells it ! (ii_ptr it + i) = Some (ys ! i))"

lemma vec_into_iter_holds: "vec_holds v xs \<Longrightarrow> ii_holds (vec_into_iter v) xs"
  by (cases v) (auto simp: vec_into_iter_def ii_holds_def vr_holds_def vr_room_def)

lemma ii_next_Ok:
  assumes "ii_holds it (y # ys)"
  shows "\<exists>it'. ii_next it = Inr (Some y, it') \<and> ii_holds it' ys \<and> ii_start it' = ii_start it"
proof -
  have h: "ii_len it = Suc (length ys)" "ii_end it = ii_ptr it + Suc (length ys)" "ii_end it \<le> length (ii_cells it)"
    "\<And>i. i < Suc (length ys) \<Longrightarrow> ii_cells it ! (ii_ptr it + i) = Some ((y # ys) ! i)"
    using assms by (auto simp: ii_holds_def)
  from h(4)[of 0] have "ii_read it (ii_ptr it) = Inr y" using h(2,3) by (simp add: ii_read_def)
  moreover have "ii_holds (it\<lparr>ii_ptr := ii_ptr it + 1, ii_len := ii_len it - 1\<rparr>) ys"
    using h h(4)[of "Suc _"] by (auto simp: ii_holds_def)
  ultimately show ?thesis using h(1) by (simp add: ii_next_def)
qed

lemma ii_next_back_Ok:
  assumes "ii_holds it (ys @ [y])"
  shows "\<exists>it'. ii_next_back it = Inr (Some y, it') \<and> ii_holds it' ys \<and> ii_start it' = ii_start it"
proof -
  have "ii_cells it ! (ii_ptr it + length ys) = Some y" using assms by (simp add: ii_holds_def)
  with assms show ?thesis
    by (auto simp: ii_next_back_def ii_holds_def ii_read_def nth_opt_def nth_append)
qed

lemma ii_remaining_Ok: "ii_holds it ys \<Longrightarrow> ii_remaining it = Inr ys"
proof -
  assume h: "ii_holds it ys"
  have "take (length ys) (drop (ii_ptr it) (ii_cells it)) = map Some ys"
    by (rule nth_equalityI) (use h in \<open>auto simp: ii_holds_def\<close>)
  with h show ?thesis by (auto simp: ii_remaining_def slice_of_def ii_holds_def o_def)
qed

lemma ii_drop_Ok: "ii_holds it ys \<Longrightarrow> ii_drop it = Inr (ys, ii_start it)"
  by (auto simp: ii_drop_def ii_remaining_Ok ii_holds_def)

text \<open>A run of an iterator: \<open>True\<close> takes from the front, \<open>False\<close> from the back.\<close>

fun ii_run :: "bool list \<Rightarrow> 'a into_iter \<Rightarrow> fault + 'a list \<times> 'a list \<times> 'a into_iter" where
  "ii_run [] it = Inr ([], [], it)"
| "ii_run (front # ops) it =
     try_bind (if front then ii_next it else ii_next_back it) (\<lambda>(x, it).
     try_bind (ii_run ops it) (\<lambda>(fs, bs, it).
       Inr (if front then case_option fs (\<lambda>x. x # fs) x else fs, if front then bs else case_option bs (\<lambda>x. x # bs) x, it)))"

lemma ii_run_Ok:
  "ii_holds it ys \<Longrightarrow> \<exists>fs bs rest it'. ii_run ops it = Inr (fs, bs, it') \<and> ii_holds it' rest \<and> ys = fs @ rest @ rev bs \<and>
     ii_start it' = ii_start it \<and> length rest = length ys - length ops"
proof (induction ops arbitrary: it ys)
  case (Cons front ops)
  show ?case
  proof (cases ys rule: rev_cases)
    case Nil
    then have "ii_next it = Inr (None, it)" "ii_next_back it = Inr (None, it)"
      using Cons.prems by (auto simp: ii_next_def ii_next_back_def ii_holds_def)
    with Cons.IH[OF Cons.prems] Nil show ?thesis by (cases front) auto
  next
    case (snoc zs z)
    show ?thesis
    proof (cases front)
      case True
      from snoc obtain a as where ys: "ys = a # as" by (metis append_is_Nil_conv list.distinct(1) neq_Nil_conv)
      with ii_next_Ok[of it a as] Cons.prems obtain it' where
        it': "ii_next it = Inr (Some a, it')" "ii_holds it' as" "ii_start it' = ii_start it" by auto
      from Cons.IH[OF it'(2)] it' True ys show ?thesis by fastforce
    next
      case False
      from ii_next_back_Ok[of it zs z] Cons.prems snoc obtain it' where
        it': "ii_next_back it = Inr (Some z, it')" "ii_holds it' zs" "ii_start it' = ii_start it" by auto
      from Cons.IH[OF it'(2)] it' False snoc show ?thesis by fastforce
    qed
  qed
qed auto

section \<open>Properties\<close>

text \<open>An allocator without slack, for concrete runs.\<close>

definition exact_mem :: "'a vec_mem" where
  "exact_mem = \<lparr>
     va_alloc = (\<lambda>n. if n \<le> U32_MAX then Some \<lparr>vr_len = n, vr_grow = 0, vr_cells = replicate n None\<rparr> else None),
     va_resize = (\<lambda>v n. let cs = case_option [] vr_cells v in
        if n \<le> U32_MAX then Some \<lparr>vr_len = n, vr_grow = 0, vr_cells = take n cs @ replicate (n - length cs) None\<rparr> else None)\<rparr>"

lemma exact_mem_ok: "mem_ok (exact_mem :: 'a vec_mem)"
proof -
  have "vr_cells r ! i = Some (xs ! i)" "i < length (vr_cells r)"
    if "vr_holds r xs" "i < length xs" for r :: "'a vec_ref" and xs i
    using that by (auto simp: vr_holds_def vr_room_def)
  then show ?thesis
    by (auto simp: mem_ok_def exact_mem_def vr_room_def Let_def nth_append split: if_splits option.splits)
qed

text \<open>C4: VPP vectors implement lists when they grow: on a vector that holds \<open>xs\<close>, \<open>push\<close>, \<open>insert_mut\<close>,
  \<open>extend\<close> and collecting an iterator hold the list with the new elements in place, whatever the
  allocator's slack and the build profile, unless the allocator aborts; an insertion past the end panics.\<close>

theorem vec_grow_refines_list:
  assumes "mem_ok A" "vec_holds v xs" "length xs + length ys < U32_MAX" "\<And>zs. lower zs \<le> length zs"
  shows "vec_as_slice v = Inr xs \<and>
    unless_abort (vec_push A dbg v x) (\<lambda>v'. vec_holds v' (xs @ [x])) \<and>
    (if index \<le> length xs then unless_abort (vec_insert_mut A dbg v index x) (\<lambda>v'. vec_holds v' (take index xs @ x # drop index xs))
     else vec_insert_mut A dbg v index x = Inl Panic) \<and>
    unless_abort (vec_extend A dbg lower v ys) (\<lambda>v'. vec_holds v' (xs @ ys)) \<and>
    unless_abort (vec_from_iter A dbg sz ys) (\<lambda>v'. vec_holds v' ys)"
proof -
  obtain cap where "vec_capacity dbg v = Inr cap" using vec_capacity_Ok[OF assms(2)] by blast
  then have "\<not> index \<le> length xs \<Longrightarrow> vec_insert_mut A dbg v index x = Inl Panic"
    by (simp add: vec_insert_mut_def vec_len_holds[OF assms(2)] Let_def)
  then show ?thesis
    using assms vec_as_slice_holds[OF assms(2)] vec_push_Ok[OF assms(1,2)] vec_insert_mut_Ok[OF assms(1,2)]
      vec_extend_Ok[OF assms(1,2) _ assms(4)] vec_from_iter_Ok[OF assms(1)] by simp
qed

lemma vec_grow_refines_list_witness:
  "unless_abort (vec_insert_mut exact_mem True (None :: nat vpp_vec) 0 7) (\<lambda>v'. vec_holds v' [7]) \<and>
   vec_insert_mut exact_mem True (None :: nat vpp_vec) 1 7 = Inl Panic"
proof -
  have h: "vec_holds (None :: nat vpp_vec) []" "length ([] :: nat list) + length ([] :: nat list) < U32_MAX"
    by (simp_all add: U32_MAX_def)
  from vec_grow_refines_list[OF exact_mem_ok h, of "\<lambda>_. 0" True 7 0]
    vec_grow_refines_list[OF exact_mem_ok h, of "\<lambda>_. 0" True 7 1]
  show ?thesis by simp
qed

lemma vec_shrink_panics:
  assumes "vec_holds (Some r) xs" "vr_grow r = U8_MAX"
  shows "index < length xs \<Longrightarrow> vr_remove True r index = Inl Panic" "xs \<noteq> [] \<Longrightarrow> vr_pop True r = Inl Panic"
proof -
  have h: "vr_holds r xs" "length xs \<le> length (vr_cells r)" using assms by (auto simp: vr_holds_def vr_room_def)
  show "vr_remove True r index = Inl Panic" if i: "index < length xs"
  proof -
    obtain cs where "copy_cells r (index + 1) index (length xs - index - 1) = Inr (r\<lparr>vr_cells := cs\<rparr>)"
      by (rule copy_cells_Ok[of "index + 1" "length xs - index - 1" r index]) (use i h in auto)
    then show ?thesis using i h assms(2)
      by (auto simp: vr_remove_def vr_holds_def read_cell_def nth_opt_def arith_add_def Let_def)
  qed
  show "vr_pop True r = Inl Panic" if "xs \<noteq> []"
    using that h assms(2) by (auto simp: vr_pop_def vr_holds_def arith_add_def Let_def)
qed

text \<open>C34: Removing elements: \<open>remove\<close>, \<open>pop\<close> and \<open>clear\<close> return the elements of the list and hold the rest;
  but because \<open>grow_elts\<close> is incremented unchecked in 8 bits, \<open>remove\<close> and \<open>pop\<close> of a non-empty
  vector panic exactly when the header records 255 spare elements in a build with overflow checks.\<close>

theorem vec_shrink_refines_list:
  assumes "vec_holds (Some r) xs"
  shows "(if index < length xs \<and> \<not> (vr_grow r = 255 \<and> dbg)
     then \<exists>r'. vec_remove dbg (Some r) index = Inr (xs ! index, Some r') \<and> vec_holds (Some r') (take index xs @ drop (index + 1) xs)
     else vec_remove dbg (Some r) index = Inl Panic) \<and>
    (if xs = [] then vec_pop dbg (Some r) = Inr (None, Some r)
     else if vr_grow r = 255 \<and> dbg then vec_pop dbg (Some r) = Inl Panic
     else \<exists>r'. vec_pop dbg (Some r) = Inr (Some (last xs), Some r') \<and> vec_holds (Some r') (butlast xs)) \<and>
    (\<exists>r'. vec_clear (Some r) = Inr (xs, Some r') \<and> vec_holds (Some r') [])"
proof -
  have h: "vr_holds r xs" and len: "vr_len r = length xs" using assms by (simp_all add: vr_holds_def)
  have out: "\<not> index < length xs \<Longrightarrow> vr_remove dbg r index = Inl Panic" by (simp add: vr_remove_def len)
  have empty: "xs = [] \<Longrightarrow> vr_pop dbg r = Inr (None, r)" by (simp add: vr_pop_def len)
  have full: "vr_remove dbg r index = Inl Panic" if "vr_grow r = 255" "dbg"
    using that out vec_shrink_panics(1)[OF assms, of index] by (cases "index < length xs") (auto simp: U8_MAX_def)
  show ?thesis
    using full out empty vr_remove_Ok[OF h, of index dbg] vr_pop_Ok[OF h, of dbg] vr_clear_Ok[OF h] vec_shrink_panics(2)[OF assms]
    by (auto simp: vec_remove_def vec_pop_def vec_clear_def U8_MAX_def)
qed

lemma vec_shrink_refines_list_witness:
  "vec_pop True (Some \<lparr>vr_len = 1, vr_grow = 255, vr_cells = Some (5::nat) # replicate 255 None\<rparr>) = Inl Panic"
proof -
  have "vec_holds (Some \<lparr>vr_len = 1, vr_grow = 255, vr_cells = Some (5::nat) # replicate 255 None\<rparr>) [5]"
    by (simp add: vr_holds_def vr_room_def vec_simps)
  from vec_shrink_refines_list[OF this, of 0 True] show ?thesis by simp
qed

text \<open>Reserving 255 or more elements leaves the header at 255 spare elements, so the next \<open>pop\<close>
  of a non-empty vector panics in a build with overflow checks; and the capacity reported after
  \<open>reserve(n)\<close> is at most 255 above the length, although \<open>n\<close> elements were reserved.\<close>

theorem reserve_understates_capacity:
  assumes "mem_ok A" "vec_holds v xs" "length xs + n \<le> U32_MAX" "255 \<le> n"
  shows "unless_abort (vec_reserve A dbg v n)
    (\<lambda>v'. vec_holds v' xs \<and> vec_capacity dbg v' = Inr (length xs + 255) \<and> (if xs = [] then True else vec_pop True v' = Inl Panic))"
proof -
  from vec_reserve_Ok[OF assms(1-3), of dbg] consider "vec_reserve A dbg v n = Inl Abort"
    | r where "vec_reserve A dbg v n = Inr (Some r)" "vr_holds r xs" "min 255 n \<le> vr_grow r"
    by (cases "vec_reserve A dbg v n") auto
  then show ?thesis
  proof cases
    case 2
    then have g: "vr_grow r = U8_MAX" using assms(4) by (auto simp: vr_holds_def vr_room_def U8_MAX_def)
    with 2 show ?thesis using vec_shrink_panics(2)[of r xs]
      by (auto simp: vec_capacity_def vr_capacity_room vr_holds_def U8_MAX_def vec_pop_def)
  qed simp
qed

lemma reserve_understates_capacity_witness:
  "unless_abort (vec_reserve exact_mem True (Some \<lparr>vr_len = 1, vr_grow = 0, vr_cells = [Some (5::nat)]\<rparr>) 300)
     (\<lambda>v'. vec_capacity True v' = Inr (1 + 255) \<and> vec_pop True v' = Inl Panic)"
proof -
  have "vec_holds (Some \<lparr>vr_len = 1, vr_grow = 0, vr_cells = [Some (5::nat)]\<rparr>) [5]"
    by (simp add: vr_holds_def vr_room_def vec_simps)
  from reserve_understates_capacity[OF exact_mem_ok this, of 300 True] show ?thesis
    by (cases "vec_reserve exact_mem True (Some \<lparr>vr_len = 1, vr_grow = 0, vr_cells = [Some (5::nat)]\<rparr>) 300")
      (simp_all add: vec_simps)
qed

text \<open>Cloning a vector, or a slice with \<open>to_vpp_vec\<close>, copies it when it has at most 255 elements.  A
  longer one makes the clone panic with debug assertions on; without them the clone claims the whole
  length, its elements from the 255th on are whatever the allocator returned, and its header claims 255
  spare elements.\<close>

theorem clone_exact_up_to_255:
  assumes "mem_ok A" "vec_holds v xs" "length xs \<le> U32_MAX"
  shows "if length xs \<le> 255 then unless_abort (vec_clone A dbg v) (\<lambda>v'. vec_holds v' xs)
    else (vec_clone A True v = Inl Abort \<or> vec_clone A True v = Inl Panic) \<and>
      unless_abort (vec_clone A False v) (\<lambda>v'. \<exists>r0 r. va_alloc A (length xs) = Some r0 \<and> v' = Some r \<and>
        vr_len r = length xs \<and> vr_grow r = 255 \<and> drop 255 (vr_cells r) = drop 255 (vr_cells r0))"
  using to_vpp_vec_short[OF assms(1), of xs] to_vpp_vec_long[OF assms(1) _ assms(3)] vec_as_slice_holds[OF assms(2)]
  by (simp add: vec_clone_def)

lemma clone_exact_up_to_255_witness:
  "vec_clone exact_mem True (Some \<lparr>vr_len = 256, vr_grow = 0, vr_cells = replicate 256 (Some (7::nat))\<rparr>) = Inl Panic"
proof -
  let ?v = "Some \<lparr>vr_len = 256, vr_grow = 0, vr_cells = replicate 256 (Some (7::nat))\<rparr>"
  have h: "vec_holds ?v (replicate 256 7)" "length (replicate 256 (7::nat)) \<le> U32_MAX"
    by (simp_all add: vr_holds_def vr_room_def vec_simps)
  have "vec_clone exact_mem True ?v \<noteq> Inl Abort"
    using vec_as_slice_holds[OF h(1)]
    by (simp add: vec_clone_def to_vpp_vec_def vec_with_capacity_def or_abort_def exact_mem_def vec_set_len_def vr_set_len_def
        vr_capacity_def vec_simps to_u8_or_max_def vec_spare_capacity_def vr_spare_capacity_def debug_assert_def
        arith_sub_def write_cells_Ok vec_len_def)
  with clone_exact_up_to_255[OF exact_mem_ok h, of True] show ?thesis by (simp)
qed

lemma vec_extend_with_short:
  assumes "mem_ok A" "vec_holds v xs" "length xs + n \<le> U32_MAX" "n \<le> 255"
  shows "unless_abort (vec_extend_with A dbg v n x) (\<lambda>v'. vec_holds v' (xs @ replicate n x))"
  unfolding vec_extend_with_def
proof (rule unless_abort_bind[OF vec_reserve_Ok[OF assms(1-3)]])
  fix v' assume v': "vec_holds v' xs \<and> (\<exists>r. v' = Some r \<and> min 255 n \<le> vr_grow r \<and> length xs + n \<le> length (vr_cells r))"
  then obtain r where r: "v' = Some r" "vr_holds r xs" "n \<le> vr_grow r" "length xs + n \<le> length (vr_cells r)"
    using assms(4) by auto
  let ?w = "r\<lparr>vr_cells := take (length xs) (vr_cells r) @ map Some (replicate n x) @ drop (length xs + n) (vr_cells r)\<rparr>"
  have w: "write_cells r (length xs) (replicate n x) = Inr ?w" using r write_cells_Ok[of "length xs" "replicate n x" r] by simp
  have room: "vr_room ?w" "length xs + n \<le> vr_len ?w + vr_grow ?w" using r by (auto simp: vr_holds_def vr_room_def)
  note sl = vr_set_len_room[OF room, of dbg]
  have "vr_holds (?w\<lparr>vr_len := length xs + n, vr_grow := min 255 (vr_len ?w + vr_grow ?w - (length xs + n))\<rparr>) (xs @ replicate n x)"
    using r by (auto simp: vr_holds_def vr_room_def nth_append U8_MAX_def)
  with w sl r show "unless_abort (let new_len = vec_len v' + n in case v' of None \<Rightarrow> Inl Undefined_Behaviour
      | Some r \<Rightarrow> try_bind (write_cells r (vec_len v') (replicate n x)) (\<lambda>r. vec_set_len dbg (Some r) new_len))
      (\<lambda>v'. vec_holds v' (xs @ replicate n x))"
    by (simp add: Let_def vec_len_def vr_holds_def vec_set_len_def)
qed

text \<open>\<open>vec![x; n]\<close> makes a vector of \<open>n\<close> copies for \<open>n\<close> up to 255.  Beyond that it panics with debug
  assertions on; without them the vector has a header that claims 255 spare elements, and on an
  allocator that returns no more than it was asked for the next \<open>push\<close> writes out of bounds.\<close>

theorem repeat_macro_overruns:
  assumes "mem_ok A" "n + 255 \<le> U32_MAX"
  shows "if n \<le> 255 then unless_abort (vec_macro_repeat A dbg x n) (\<lambda>v. vec_holds v (replicate n x))
    else vec_macro_repeat exact_mem True x n = Inl Panic \<and>
      try_bind (vec_macro_repeat exact_mem False x n) (\<lambda>v. vec_push exact_mem dbg v y) = Inl Undefined_Behaviour"
proof (cases "n \<le> 255")
  case True
  have "unless_abort (vec_macro_repeat A dbg x n) (\<lambda>v. vec_holds v (replicate n x))"
    unfolding vec_macro_repeat_def
    by (rule unless_abort_bind[OF vec_with_capacity_Ok[OF assms(1)]])
      (use vec_extend_with_short[OF assms(1), of _ "[]" n] True assms(2) in auto)
  with True show ?thesis by simp
next
  case False
  let ?r = "\<lparr>vr_len = 0, vr_grow = 255, vr_cells = replicate n (None :: 'a option)\<rparr>"
  let ?w = "\<lparr>vr_len = 0, vr_grow = 255, vr_cells = replicate n (Some x)\<rparr>"
  have n: "n \<le> U32_MAX" "\<not> n > U64_MAX" using assms(2) by (simp_all add: vec_simps)
  have c: "vec_with_capacity exact_mem d n = Inr (Some ?r)" for d
    using n False by (auto simp: vec_with_capacity_def or_abort_def exact_mem_def vec_set_len_def vr_set_len_def vr_capacity_def
        to_u8_or_max_def U8_MAX_def)
  have r: "vec_reserve exact_mem d (Some ?r) n = Inr (Some ?r)" for d
    using n False by (auto simp: vec_reserve_def or_abort_def exact_mem_def vec_set_len_def vr_set_len_def vr_capacity_def
        to_u8_or_max_def U8_MAX_def vec_len_def)
  have w: "write_cells ?r 0 (replicate n x) = Inr ?w" using write_cells_Ok[of 0 "replicate n x" ?r] by simp
  have s: "vr_set_len True ?w n = Inl Panic" "vr_set_len False ?w n = Inr (?w\<lparr>vr_len := n, vr_grow := 255\<rparr>)"
    using vr_set_len_beyond[of ?w n] False n by (simp_all add: vec_simps)
  have "vec_push exact_mem dbg (Some (?w\<lparr>vr_len := n, vr_grow := 255\<rparr>)) y = Inl Undefined_Behaviour"
    using assms(2) by (simp add: vec_push_def vec_make_room_def vec_capacity_def vr_capacity_def vec_len_def vec_put_def write_cell_def)
  with c r w s False show ?thesis
    by (simp add: vec_macro_repeat_def vec_extend_with_def vec_len_def vec_set_len_def)
qed

lemma repeat_macro_overruns_witness:
  "try_bind (vec_macro_repeat exact_mem False (0::nat) 300) (\<lambda>v. vec_push exact_mem False v 2) = Inl Undefined_Behaviour"
  using repeat_macro_overruns[OF exact_mem_ok, where n = 300 and x = "0::nat" and dbg = False and y = 2] by (simp add: U32_MAX_def)

text \<open>C33: Consuming a vector moves every element out exactly once: however \<open>next\<close> and \<open>next_back\<close> are mixed,
  the elements returned from the front, those dropped with the iterator, and those returned from the
  back make up the vector's contents in order; the length reported is exact and the memory is freed
  unless the vector was null.\<close>

theorem into_iter_exactly_once:
  assumes "vec_holds v xs"
  shows "\<exists>fs bs rest it. ii_run ops (vec_into_iter v) = Inr (fs, bs, it) \<and> ii_drop it = Inr (rest, v \<noteq> None) \<and>
    xs = fs @ rest @ rev bs \<and> ii_size_hint it = (length rest, Some (length rest)) \<and> length rest = length xs - length ops"
proof -
  obtain fs bs rest it where it: "ii_run ops (vec_into_iter v) = Inr (fs, bs, it)" "ii_holds it rest" "xs = fs @ rest @ rev bs"
    "ii_start it = ii_start (vec_into_iter v)" "length rest = length xs - length ops"
    using ii_run_Ok[OF vec_into_iter_holds[OF assms], of ops] by blast
  have "ii_start (vec_into_iter v) = (v \<noteq> None)" by (cases v) (simp_all add: vec_into_iter_def)
  with it(4) ii_drop_Ok[OF it(2)] have d: "ii_drop it = Inr (rest, v \<noteq> None)" by simp
  have sz: "ii_size_hint it = (length rest, Some (length rest))" using it(2) by (simp add: ii_size_hint_def ii_holds_def)
  show ?thesis by (rule exI, rule exI, rule exI, rule exI, rule conjI[OF it(1) conjI[OF d conjI[OF it(3) conjI[OF sz it(5)]]]])
qed

lemma into_iter_exactly_once_witness:
  "\<exists>fs bs rest it. ii_run [True, False] (vec_into_iter (Some \<lparr>vr_len = 3, vr_grow = 0, vr_cells = [Some (1::nat), Some 2, Some 3]\<rparr>)) = Inr (fs, bs, it) \<and>
    ii_drop it = Inr (rest, True) \<and> [1, 2, 3] = fs @ rest @ rev bs \<and> length rest = 1"
proof -
  have "vec_holds (Some \<lparr>vr_len = 3, vr_grow = 0, vr_cells = [Some (1::nat), Some 2, Some 3]\<rparr>) [1, 2, 3]"
    by (auto simp: vr_holds_def vr_room_def vec_simps less_Suc_eq numeral_3_eq_3)
  from into_iter_exactly_once[OF this, of "[True, False]"] obtain fs bs rest it where it:
    "ii_run [True, False] (vec_into_iter (Some \<lparr>vr_len = 3, vr_grow = 0, vr_cells = [Some (1::nat), Some 2, Some 3]\<rparr>)) = Inr (fs, bs, it)"
    "ii_drop it = Inr (rest, True)" "[1, 2, 3] = fs @ rest @ rev bs" "length rest = 1" by auto
  show ?thesis by (rule exI, rule exI, rule exI, rule exI, rule conjI[OF it(1) conjI[OF it(2) conjI[OF it(3) it(4)]]])
qed

end
