(* ===== verification/Api_Gen.thy ===== *)
theory Api_Gen
  imports Api_Parser
begin

text \<open>
  The code generator, the first half of \<open>vpp-plugin-api-gen/src/lib.rs\<close>: names and types, and the
  Rust text of aliases, enums, unions, types and messages.  A generator function is the text it
  writes, or what stops it; the text written before an error is not kept.  Names are ASCII, as the
  grammar makes them.
\<close>

section \<open>Text\<close>

text \<open>\<open>No_return\<close> stands for the endless search of a cyclic type and \<open>Unwrap_none\<close> for the panic of \<open>unwrap\<close>.\<close>

datatype gen_error =
    Parser_err api_error
  | Unimplemented string
  | Unwrap_none
  | No_return

type_synonym gen = "gen_error + string"

definition gbind :: "gen_error + 'a \<Rightarrow> ('a \<Rightarrow> gen_error + 'b) \<Rightarrow> gen_error + 'b" where
  "gbind m f = (case m of Inl e \<Rightarrow> Inl e | Inr x \<Rightarrow> f x)"

lemma gbind_simps [simp]: "gbind (Inl e) f = Inl e" "gbind (Inr x) f = f x"
  by (simp_all add: gbind_def)

lemma gbind_Inr: "gbind m f = Inr y \<longleftrightarrow> (\<exists>x. m = Inr x \<and> f x = Inr y)"
  by (cases m) auto

text \<open>Texts one after the other; the first error stops.\<close>

fun gseq :: "gen list \<Rightarrow> gen" where
  "gseq [] = Inr []"
| "gseq (g # gs) = gbind g (\<lambda>t. gbind (gseq gs) (\<lambda>ts. Inr (t @ ts)))"

definition line :: "string list \<Rightarrow> string" where
  "line ts = concat ts @ [CHR 0x0A]"

definition lines :: "string list \<Rightarrow> gen" where
  "lines ls = Inr (concat ls)"

section \<open>Names and types\<close>

definition ascii_lower :: "char \<Rightarrow> char" where
  "ascii_lower c = (let n = of_char c :: nat in if 65 \<le> n \<and> n \<le> 90 then char_of (n + 32) else c)"

definition ascii_upper :: "char \<Rightarrow> char" where
  "ascii_upper c = (let n = of_char c :: nat in if 97 \<le> n \<and> n \<le> 122 then char_of (n - 32) else c)"

definition capital :: "string \<Rightarrow> string" where
  "capital w = (case map ascii_lower w of [] \<Rightarrow> [] | c # cs \<Rightarrow> ascii_upper c # cs)"

definition to_upper_camel_case :: "string \<Rightarrow> string" where
  "to_upper_camel_case s = concat (map capital (split_on CHR ''_'' s))"

text \<open>\<open>{:08x}\<close>\<close>

definition hex_char :: "nat \<Rightarrow> char" where
  "hex_char d = (if d < 10 then char_of (48 + d) else char_of (87 + d))"

definition hex08 :: "nat \<Rightarrow> string" where
  "hex08 n = map (\<lambda>i. hex_char (n div 16 ^ i mod 16)) [7, 6, 5, 4, 3, 2, 1, 0]"

definition lookup_global_type :: "'h api_parser \<Rightarrow> string \<Rightarrow> gen_error + 'h type_entry" where
  "lookup_global_type P t =
     (case global_types_by_name P t of Some ty \<Rightarrow> Inr ty | None \<Rightarrow> Inl (Parser_err (TypeResolution t)))"

definition parser_message :: "'h api_parser \<Rightarrow> string \<Rightarrow> message option" where
  "parser_message P name = find (\<lambda>m. msg_name m = name) (p_messages P)"

definition to_rust_type :: "'h api_parser \<Rightarrow> string \<Rightarrow> gen" where
  "to_rust_type P ty =
     (case api_type_name ty of
        Some t \<Rightarrow>
          gbind (lookup_global_type P t) (\<lambda>global_type.
            case import_module global_type of
              Some m \<Rightarrow> Inr (''super::'' @ m @ ''_api::'' @ to_upper_camel_case t)
            | None \<Rightarrow> Inr (to_upper_camel_case t))
      | None \<Rightarrow> Inr ty)"

definition to_rust_vla_elem_type :: "'h api_parser \<Rightarrow> string \<Rightarrow> gen" where
  "to_rust_vla_elem_type P ty =
     (if List.member [''u16'', ''i16'', ''u32'', ''i32'', ''u64'', ''i64'', ''f64''] ty
      then Inr (''::vpp_plugin::vlibapi::num_unaligned::Unaligned'' @ to_upper_camel_case ty)
      else to_rust_type P ty)"

text \<open>\<open>comment.replace\<close>: double quotes escaped.\<close>

definition escape_quotes :: "string \<Rightarrow> string" where
  "escape_quotes c = concat (map (\<lambda>x. if x = CHR 0x22 then [CHR 0x5C, CHR 0x22] else [x]) c)"

definition doc_comment :: "string option \<Rightarrow> string" where
  "doc_comment c = (case c of None \<Rightarrow> [] | Some c \<Rightarrow> line [''#[doc = \"'', escape_quotes c, ''\"]''])"

section \<open>Fields\<close>

definition generate_field :: "'h api_parser \<Rightarrow> field \<Rightarrow> gen" where
  "generate_field P fd =
     (case (if f_type fd = ''string'' then f_size fd else None) of
        Some (Fixed sz) \<Rightarrow>
          lines [line [''    pub '', f_name fd, '': ::vpp_plugin::vlibapi::ApiFixedString<'', show_nat sz, ''>,'']]
      | Some (Variable None) \<Rightarrow>
          lines [line [''    pub '', f_name fd, '': ::vpp_plugin::vlibapi::ApiString,'']]
      | _ \<Rightarrow>
          (case f_size fd of
             Some (Fixed sz) \<Rightarrow> gbind (to_rust_type P (f_type fd)) (\<lambda>t.
               lines [line [''    pub '', f_name fd, '': ['', t, ''; '', show_nat sz, ''],'']])
           | Some (Variable _) \<Rightarrow> gbind (to_rust_vla_elem_type P (f_type fd)) (\<lambda>t.
               lines [line [''    pub '', f_name fd, '': ['', t, ''; 0],'']])
           | None \<Rightarrow> gbind (to_rust_type P (f_type fd)) (\<lambda>t.
               lines [line [''    pub '', f_name fd, '': '', t, '','']])))"

definition is_variable :: "field \<Rightarrow> bool" where
  "is_variable fd = (case f_size fd of Some (Variable _) \<Rightarrow> True | _ \<Rightarrow> False)"

definition generate_debug_trait :: "string \<Rightarrow> field list \<Rightarrow> gen" where
  "generate_debug_trait name fds =
     (let upper_camel_name = to_upper_camel_case name in
      gseq [
        lines [
          line [''impl ::std::fmt::Debug for '', upper_camel_name, '' {''],
          line [''    #[allow(non_snake_case)]''],
          line [''    fn fmt(&self, f: &mut ::std::fmt::Formatter<'_>) -> ::std::fmt::Result {'']],
        lines (map (\<lambda>fd. line [''        let tmp_'', f_name fd, '' = self.'', f_name fd, '';'']) (filter (\<lambda>fd. \<not> is_variable fd) fds)),
        lines [line [''        f.debug_struct(\"'', upper_camel_name, ''\")'']],
        lines (map (\<lambda>fd. line [''            .field(\"'', f_name fd, ''\", &tmp_'', f_name fd, '')'']) (filter (\<lambda>fd. \<not> is_variable fd) fds)),
        lines [
          line [''            .finish_non_exhaustive()''],
          line [''    }''],
          line [''}''],
          line []]])"

definition vla_accessor :: "string \<Rightarrow> string \<Rightarrow> string \<Rightarrow> string list" where
  "vla_accessor name count_field vla_elem_type = [
     line [''    #[allow(dead_code)]''],
     line [''    pub unsafe fn '', name, ''(&self) -> &['', vla_elem_type, ''] {''],
     line [''        unsafe {''],
     line [''            ::std::slice::from_raw_parts(std::ptr::addr_of!(self.'', name, '').cast(), self.'', count_field, '' as usize)''],
     line [''        }''],
     line [''    }'']]"

definition vla_accessor_mut :: "string \<Rightarrow> string \<Rightarrow> string \<Rightarrow> string list" where
  "vla_accessor_mut name count_field vla_elem_type = [
     line [''    #[allow(dead_code)]''],
     line [''    pub unsafe fn '', name, ''_mut(&mut self) -> &mut ['', vla_elem_type, ''] {''],
     line [''        unsafe {''],
     line [''            std::slice::from_raw_parts_mut(std::ptr::addr_of_mut!(self.'', name, '').cast(), self.'', count_field, '' as usize)''],
     line [''        }''],
     line [''    }'']]"

definition generate_vla_accessors :: "'h api_parser \<Rightarrow> string \<Rightarrow> field \<Rightarrow> gen" where
  "generate_vla_accessors P count_field fd =
     gbind (to_rust_vla_elem_type P (f_type fd)) (\<lambda>vla_elem_type.
       lines (vla_accessor (f_name fd) count_field vla_elem_type @ [line []] @
              vla_accessor_mut (f_name fd) count_field vla_elem_type))"

section \<open>Byte order\<close>

datatype endian_input = Endian_fields "field list" | Endian_alias field

definition gen_count_variable :: "'h api_parser \<Rightarrow> field list \<Rightarrow> string \<Rightarrow> field \<Rightarrow> string \<Rightarrow> gen" where
  "gen_count_variable P fds field_name fd count_name =
     (case find (\<lambda>other. f_name other = count_name) fds of
        None \<Rightarrow> Inl (Unimplemented (''Unable to find variable count field '' @ count_name))
      | Some count_field \<Rightarrow>
          gbind (to_rust_vla_elem_type P (f_type fd)) (\<lambda>vla_elem_type.
            lines [
              line [''            let count = if to_net {''],
              line [''                '', f_type count_field, ''::from_be(self.'', f_name count_field, '')''],
              line [''            } else {''],
              line [''                self.'', f_name count_field],
              line [''            };''],
              line [''            let array = ::std::slice::from_raw_parts_mut(std::ptr::addr_of_mut!(self.'', field_name, '') as *mut '', vla_elem_type, '', count as usize);'']]))"

definition no_count_error :: "string \<Rightarrow> gen_error" where
  "no_count_error field_name = Unimplemented (''variable length array field '' @ field_name @ '' without count'')"

definition multi_byte_int :: "string \<Rightarrow> bool" where
  "multi_byte_int t = List.member [''u16'', ''u32'', ''u64'', ''i16'', ''i32'', ''i64''] t"

definition endian_int :: "'h api_parser \<Rightarrow> field list \<Rightarrow> string \<Rightarrow> field \<Rightarrow> gen" where
  "endian_int P fds field_name fd =
     (case f_size fd of
        Some (Fixed sz) \<Rightarrow> lines [
          line [''            for i in 0..'', show_nat sz, '' {''],
          line [''                self.'', field_name, ''[i] = self.'', field_name, ''[i].to_be();''],
          line [''        }'']]
      | Some (Variable (Some count_field)) \<Rightarrow> gseq [
          gen_count_variable P fds field_name fd count_field,
          lines [
            line [''            for elem in array {''],
            line [''                *elem = elem.to_be();''],
            line [''            }'']]]
      | Some (Variable None) \<Rightarrow> Inl (no_count_error field_name)
      | None \<Rightarrow> lines [
          line [''            self.'', field_name, '' = self.'', f_name fd, ''.to_be();'']])"

definition endian_other :: "'h api_parser \<Rightarrow> field list \<Rightarrow> string \<Rightarrow> field \<Rightarrow> gen" where
  "endian_other P fds field_name fd =
     (case f_size fd of
        Some (Fixed sz) \<Rightarrow> lines [
          line [''            for i in 0..'', show_nat sz, '' {''],
          line [''                ::vpp_plugin::vlibapi::EndianSwap::endian_swap(&mut self.'', field_name, ''[i], to_net);''],
          line [''            }'']]
      | Some (Variable (Some count_field)) \<Rightarrow> gseq [
          gen_count_variable P fds field_name fd count_field,
          lines [
            line [''            for elem in array {''],
            line [''                ::vpp_plugin::vlibapi::EndianSwap::endian_swap(elem, to_net);''],
            line [''            }'']]]
      | Some (Variable None) \<Rightarrow> Inl (no_count_error field_name)
      | None \<Rightarrow> lines [
          line [''            ::vpp_plugin::vlibapi::EndianSwap::endian_swap(&mut self.'', field_name, '', to_net);'']])"

definition endian_field :: "'h api_parser \<Rightarrow> field list \<Rightarrow> string \<Rightarrow> field \<Rightarrow> gen" where
  "endian_field P fds field_name fd =
     (if f_type fd = ''u8'' \<or> f_type fd = ''bool'' then
        lines [line [''            // self.'', field_name, '' = self.'', field_name, '' (no-op)'']]
      else if f_type fd = ''string'' then
        lines [line [''            ::vpp_plugin::vlibapi::EndianSwap::endian_swap(&mut self.'', field_name, '', to_net);'']]
      else if multi_byte_int (f_type fd) then endian_int P fds field_name fd
      else if f_type fd = ''f64'' then
        lines [line [''            // self.'', field_name, '' = self.'', field_name, '' (no-op according to VPP API)'']]
      else endian_other P fds field_name fd)"

definition endian_fields :: "endian_input \<Rightarrow> field list" where
  "endian_fields input = (case input of Endian_fields fds \<Rightarrow> fds | Endian_alias fd \<Rightarrow> [fd])"

definition endian_name :: "endian_input \<Rightarrow> field \<Rightarrow> string" where
  "endian_name input fd = (case input of Endian_fields _ \<Rightarrow> f_name fd | Endian_alias _ \<Rightarrow> ''0'')"

definition generate_endian_swap :: "'h api_parser \<Rightarrow> string \<Rightarrow> endian_input \<Rightarrow> gen" where
  "generate_endian_swap P name input =
     gseq [
       lines [
         line [''impl ::vpp_plugin::vlibapi::EndianSwap for '', to_upper_camel_case name, '' {''],
         line [''    unsafe fn endian_swap(&mut self, to_net: bool) {''],
         line [''        let _ = to_net;''],
         line [''        #[allow(unused_unsafe)]''],
         line [''        unsafe {'']],
       gseq (map (\<lambda>fd. endian_field P (endian_fields input) (endian_name input fd) fd) (endian_fields input)),
       lines [
         line [''        }''],
         line [''    }''],
         line [''}''],
         line []]]"

section \<open>Aliases, enums, unions and types\<close>

definition alias_derives :: "alias_def \<Rightarrow> string" where
  "alias_derives a = (if List.member (al_flags a) ManualPrint then '''' else ''Debug, PartialEq, Default, '')"

definition generate_alias :: "'h api_parser \<Rightarrow> alias_def \<Rightarrow> gen" where
  "generate_alias P a =
     (let fd = al_field a; upper_camel_name = to_upper_camel_case (f_name fd) in
      gseq [
        lines [
          line [''#[derive('', alias_derives a, ''Copy, Clone)]''],
          line [''#[repr(C, packed)]'']],
        gbind (to_rust_type P (f_type fd)) (\<lambda>t.
          case f_size fd of
            Some (Fixed len) \<Rightarrow> lines [line [''pub struct '', upper_camel_name, ''(pub['', t, ''; '', show_nat len, '']);'']]
          | _ \<Rightarrow> lines [line [''pub struct '', upper_camel_name, ''(pub '', t, '');'']]),
        (if List.member (al_flags a) ManualEndian then Inr []
         else generate_endian_swap P (f_name fd) (Endian_alias fd))])"

definition size_error :: "enum_def \<Rightarrow> gen_error" where
  "size_error e = Unimplemented (''Unexpected size type '' @ en_size e @ '' for enum '' @ en_name e)"

definition enum_endian :: "enum_def \<Rightarrow> string \<Rightarrow> string \<Rightarrow> gen" where
  "enum_endian e no_op swap =
     gseq [
       lines [
         line [''impl ::vpp_plugin::vlibapi::EndianSwap for '', to_upper_camel_case (en_name e), '' {''],
         line [''    unsafe fn endian_swap(&mut self, to_net: bool) {''],
         line [''        let _ = to_net;'']],
       (if en_size e = ''u8'' then lines [no_op]
        else if multi_byte_int (en_size e) then lines [swap]
        else Inl (size_error e)),
       lines [
         line [''    }''],
         line [''}''],
         line []]]"

definition generate_enum :: "enum_def \<Rightarrow> gen" where
  "generate_enum e =
     (let upper_camel_name = to_upper_camel_case (en_name e) in
      gseq [
        lines [
          line [''#[derive(Copy, Clone, Default, PartialEq, Eq, PartialOrd, Ord, Hash)]''],
          line [''#[repr(C, packed)]''],
          line [''pub struct '', upper_camel_name, ''(pub '', en_size e, '');''],
          line []],
        lines (map (\<lambda>v. line [''pub const '', ev_id v, '': '', upper_camel_name, '' = '', upper_camel_name, ''('', show_nat (ev_value v), '');'']) (en_variants e)),
        lines (if en_variants e = [] then [] else [line []]),
        lines [
          line [''impl ::std::fmt::Debug for '', upper_camel_name, '' {''],
          line [''    fn fmt(&self, f: &mut ::std::fmt::Formatter<'_>) -> ::std::fmt::Result {''],
          line [''        match *self {'']],
        lines (map (\<lambda>v. line [''            '', ev_id v, '' => f.write_str(\"'', ev_id v, ''\"),'']) (en_variants e)),
        lines [
          line [''            _ => {''],
          line [''                let tmp = self.0;''],
          line [''                tmp.fmt(f)''],
          line [''            }''],
          line [''        }''],
          line [''    }''],
          line [''}''],
          line []],
        enum_endian e (line [''        // *self = Self(self.0) (no-op)'']) (line [''        *self = Self(self.0.to_be());''])])"

definition flag_id :: "enum_def \<Rightarrow> enum_variant \<Rightarrow> string" where
  "flag_id e v = (case strip_prefix (map ascii_upper (en_name e) @ ''_'') (ev_id v) of Some s \<Rightarrow> s | None \<Rightarrow> ev_id v)"

definition generate_enumflag :: "enum_def \<Rightarrow> gen" where
  "generate_enumflag e =
     (let upper_camel_name = to_upper_camel_case (en_name e) in
      gseq [
        lines [
          line [''#[derive(Copy, Clone, Default, PartialEq, Eq, PartialOrd, Ord, Hash)]''],
          line [''#[repr(C, packed)]''],
          line [''pub struct '', upper_camel_name, ''('', en_size e, '');''],
          line [],
          line [''::vpp_plugin::bitflags::bitflags! {''],
          line [''    impl '', upper_camel_name, '': '', en_size e, '' {'']],
        lines (map (\<lambda>v. line [''        const '', flag_id e v, '' = '', show_nat (ev_value v), '';'']) (en_variants e)),
        lines [
          line [''    }''],
          line [''}''],
          line [],
          line [''impl ::std::fmt::Debug for '', upper_camel_name, '' {''],
          line [''    fn fmt(&self, f: &mut ::std::fmt::Formatter<'_>) -> ::std::fmt::Result {''],
          line [''        ::vpp_plugin::bitflags::parser::to_writer(self, f)''],
          line [''    }''],
          line [''}''],
          line []],
        enum_endian e (line [''        // *self = Self::from_bits_retain(self.bits()) (no-op)''])
          (line [''        *self = Self::from_bits_retain(self.bits().to_be());''])])"

definition generate_union :: "'h api_parser \<Rightarrow> union_def \<Rightarrow> gen" where
  "generate_union P u =
     gseq [
       lines [
         doc_comment (un_comment u),
         line [''#[derive(Copy, Clone)]''],
         line [''#[repr(C, packed)]''],
         line [''pub union '', to_upper_camel_case (un_name u), '' {'']],
       gseq (map (generate_field P) (un_fields u)),
       lines [
         line [''}''],
         line []]]"

definition type_derives :: "type_def \<Rightarrow> string" where
  "type_derives t =
     (if List.member (td_flags t) ManualPrint then ''''
      else if vla_non_recursive (td_fields t) \<noteq> None then ''Default, '' else ''Debug, PartialEq, Default, '')"

text \<open>What is generated for a field that has its own count; nothing for others.\<close>

definition own_count :: "(field \<times> count_descriptor) option \<Rightarrow> (string \<times> field) option" where
  "own_count vla = (case vla of
      Some (fd, _) \<Rightarrow> (case f_size fd of Some (Variable (Some count_field)) \<Rightarrow> Some (count_field, fd) | _ \<Rightarrow> None)
    | None \<Rightarrow> None)"

definition or_no_return :: "'a option \<Rightarrow> gen_error + 'a" where
  "or_no_return x = (case x of None \<Rightarrow> Inl No_return | Some y \<Rightarrow> Inr y)"

definition generate_type :: "'h api_parser \<Rightarrow> type_def \<Rightarrow> gen" where
  "generate_type P t =
     (let upper_camel_name = to_upper_camel_case (td_name t) in
      gseq [
        lines [
          line [''#[derive('', type_derives t, ''Copy, Clone)]''],
          line [''#[repr(C, packed)]''],
          line [''pub struct '', upper_camel_name, '' {'']],
        gseq (map (generate_field P) (td_fields t)),
        lines [
          line [''}''],
          line []],
        gbind (or_no_return (type_vla P t)) (\<lambda>vla.
          case own_count vla of
            None \<Rightarrow> Inr []
          | Some (count_field, fd) \<Rightarrow> gseq [
              lines [line [''impl '', upper_camel_name, '' {'']],
              generate_vla_accessors P count_field fd,
              lines [
                line [''}''],
                line []]]),
        (if vla_non_recursive (td_fields t) \<noteq> None then generate_debug_trait (td_name t) (td_fields t) else Inr []),
        (if List.member (td_flags t) ManualEndian then Inr []
         else generate_endian_swap P (td_name t) (Endian_fields (td_fields t)))])"

end
