(* ===== verification/Api_Gen_Message.thy ===== *)
theory Api_Gen_Message
  imports Api_Gen
begin

text \<open>
  The code generator for messages, \<open>ApiGenContext::generate_message\<close> of
  \<open>vpp-plugin-api-gen/src/lib.rs\<close>: the struct, its constructor, byte order, formatting and size.
\<close>

section \<open>Parts of a message\<close>

definition message_derives :: "'h api_parser \<Rightarrow> message \<Rightarrow> gen_error + string" where
  "message_derives P m =
     (if List.member (msg_flags m) ManualPrint \<or> vla_non_recursive (msg_fields m) \<noteq> None then Inr ''''
      else gbind (or_no_return (message_vla P m)) (\<lambda>vla.
        Inr (if vla \<noteq> None then ''Debug, '' else ''Debug, PartialEq, '')))"

definition message_struct :: "'h api_parser \<Rightarrow> message \<Rightarrow> gen" where
  "message_struct P m =
     gseq [
       lines [doc_comment (msg_comment m)],
       gbind (message_derives P m) (\<lambda>opt_derives. lines [line [''#[derive('', opt_derives, ''Copy, Clone)]'']]),
       lines [
         line [''#[repr(C, packed)]''],
         line [''pub struct '', to_upper_camel_case (msg_name m), '' {'']],
       gseq (map (generate_field P) (msg_fields m)),
       lines [
         line [''}''],
         line []]]"

definition dotted :: "string list \<Rightarrow> string" where
  "dotted path = join ''.'' path"

definition new_bytes_line :: string where
  "new_bytes_line = line [''        let mut message = unsafe { ::std::mem::transmute::<::vpp_plugin::vlibapi::Message<u8>, ::vpp_plugin::vlibapi::Message<Self>>(::vpp_plugin::vlibapi::Message::new_bytes(size)) };'']"

definition new_message_body :: "'h api_parser \<Rightarrow> field \<Rightarrow> count_descriptor \<Rightarrow> gen" where
  "new_message_body P fd count_descr =
     (case count_descr of
        CD_Field path ty \<Rightarrow>
          (let var_name = (if path = [] then '''' else last path);
               count_expr = (if ty = ''u32'' then var_name else (concat [var_name, '' as u32'']))
           in gseq [
             lines [line [''    pub fn new_message('', var_name, '': '', ty, '') -> ::vpp_plugin::vlibapi::Message<Self> {'']],
             gbind (to_rust_type P (f_type fd)) (\<lambda>t. lines [
               line [''        let size = ::std::mem::size_of::<Self>() as u32 + '', count_expr, '' * ::std::mem::size_of::<'', t, ''>() as u32;'']]),
             lines [
               new_bytes_line,
               line [''        message._vl_msg_id = Self::msg_id();''],
               line [''        message.'', dotted path, '' = '', var_name, '';'']]])
      | CD_String path \<Rightarrow> lines [
             line [''    pub fn new_message(length: u32) -> ::vpp_plugin::vlibapi::Message<Self> {''],
             line [''        let size = ::std::mem::size_of::<Self>() as u32 + length;''],
             new_bytes_line,
             line [''        message._vl_msg_id = Self::msg_id();''],
             line [''        unsafe { message.'', dotted path, ''.set_len(length); }'']])"

definition message_new_message :: "'h api_parser \<Rightarrow> (field \<times> count_descriptor) option \<Rightarrow> gen" where
  "message_new_message P vla =
     (case vla of
        None \<Rightarrow> Inr []
      | Some (fd, count_descr) \<Rightarrow> gseq [
          lines [line []],
          (case own_count vla of
             None \<Rightarrow> Inr []
           | Some (count_field, _) \<Rightarrow> gseq [generate_vla_accessors P count_field fd, lines [line []]]),
          lines [line [''    #[allow(dead_code)]'']],
          new_message_body P fd count_descr,
          lines [
            line [''        message''],
            line [''    }''],
            line []]])"

definition message_impl :: "'h api_parser \<Rightarrow> nat \<Rightarrow> message \<Rightarrow> gen" where
  "message_impl P i m =
     gseq [
       lines [
         line [''impl '', to_upper_camel_case (msg_name m), '' {''],
         line [''    pub const MSG_ID: u16 = '', show_nat i, '';''],
         line [],
         line [''    pub fn msg_id() -> u16 {''],
         line [''        msg_id_base() + Self::MSG_ID''],
         line [''    }'']],
       gbind (or_no_return (message_vla P m)) (message_new_message P),
       lines [
         line [''}''],
         line []]]"

definition message_default :: "message \<Rightarrow> gen" where
  "message_default m =
     gseq [
       lines [
         line [''impl Default for '', to_upper_camel_case (msg_name m), '' {''],
         line [''    fn default() -> Self {''],
         line [''        Self {'']],
       lines (map (\<lambda>fd. if f_name fd = ''_vl_msg_id'' then line [''            _vl_msg_id: Self::msg_id(),'']
                        else line [''            '', f_name fd, '': Default::default(),'']) (msg_fields m)),
       lines [
         line [''        }''],
         line [''    }''],
         line [''}''],
         line []]]"

definition message_endian_fn :: "message \<Rightarrow> gen" where
  "message_endian_fn m = lines [
     line [''unsafe extern \"C\" fn '', msg_name m, ''_endian(a: *mut '', to_upper_camel_case (msg_name m), '', to_net: bool) {''],
     line [''    unsafe {''],
     line [''        ::vpp_plugin::vlibapi::EndianSwap::endian_swap(&mut *a, to_net);''],
     line [''    }''],
     line [''}''],
     line []]"

definition message_format_fn :: "message \<Rightarrow> gen" where
  "message_format_fn m = lines [
     line [''unsafe extern \"C\" fn '', msg_name m, ''_format(s: *mut u8, args: *mut ::vpp_plugin::bindings::va_list) -> *mut u8 {''],
     line [''    unsafe {''],
     line [''        let mut args = ::std::mem::transmute::<*mut ::vpp_plugin::bindings::va_list, ::vpp_plugin::macro_support::va_list::VaList<'_>>(args);''],
     line [''        let t = args.get::<*const '', to_upper_camel_case (msg_name m), ''>();''],
     line [''        let mut s = ::vpp_plugin::vppinfra::vec::Vec::from_raw(s);''],
     line [''        s.extend(format!(\"{:?}\", &*t).as_bytes());''],
     line [''        s.into_raw()''],
     line [''    }''],
     line [''}''],
     line []]"

section \<open>The size of a message\<close>

definition calc_size_head :: "message \<Rightarrow> string" where
  "calc_size_head m = concat [
     (concat [''pub '']),
     line [''unsafe extern \"C\" fn '', msg_name m, ''_calc_size(a: *mut '', to_upper_camel_case (msg_name m), '') -> ::vpp_plugin::bindings::uword {''],
     line [''    unsafe {''],
     (concat [''        ::std::mem::size_of::<'', to_upper_camel_case (msg_name m), ''>() as ::vpp_plugin::bindings::uword''])]"

definition calc_size_count :: "'h api_parser \<Rightarrow> message \<Rightarrow> field \<Rightarrow> count_descriptor \<Rightarrow> gen" where
  "calc_size_count P m fd count_descr =
     (case count_descr of
        CD_Field count_path count_type \<Rightarrow>
          (if count_type = ''u8'' then
             gbind (to_rust_type P (f_type fd)) (\<lambda>t. lines [
               line ['' + (*a).'', dotted count_path, '' as ::vpp_plugin::bindings::uword * ::std::mem::size_of::<'', t, ''>() as ::vpp_plugin::bindings::uword'']])
           else if multi_byte_int count_type then
             gbind (to_rust_type P count_type) (\<lambda>ct.
             gbind (to_rust_type P (f_type fd)) (\<lambda>t. lines [
               line ['' + '', ct, ''::from_be((*a).'', dotted count_path, '') as ::vpp_plugin::bindings::uword * ::std::mem::size_of::<'', t, ''>() as ::vpp_plugin::bindings::uword'']]))
           else Inl (Unimplemented (''Unexpected type of variable-length array count field '' @ dotted count_path @
                  '' in message '' @ msg_name m)))
      | CD_String string_path \<Rightarrow> lines [
          line ['' + u32::from_be((*a).'', dotted string_path, ''.len()) as ::vpp_plugin::bindings::uword'']])"

definition message_calc_size :: "'h api_parser \<Rightarrow> message \<Rightarrow> gen" where
  "message_calc_size P m =
     gseq [
       gbind (or_no_return (message_vla P m)) (\<lambda>vla.
         case vla of
           Some (fd, count_descr) \<Rightarrow> gseq [
             lines [calc_size_head m],
             calc_size_count P m fd count_descr,
             lines [line [''    }'']]]
         | None \<Rightarrow> lines [
             line [''unsafe extern \"C\" fn '', msg_name m, ''_calc_size(_a: *mut '', to_upper_camel_case (msg_name m), '') -> ::vpp_plugin::bindings::uword {''],
             line [''    ::std::mem::size_of::<'', to_upper_camel_case (msg_name m), ''>() as ::vpp_plugin::bindings::uword'']]),
       lines [
         line [''}''],
         line []]]"

section \<open>Messages\<close>

definition generate_message :: "'h api_parser \<Rightarrow> nat \<Rightarrow> message \<Rightarrow> gen" where
  "generate_message P i m =
     gseq [
       message_struct P m,
       message_impl P i m,
       message_default m,
       generate_endian_swap P (msg_name m) (Endian_fields (msg_fields m)),
       (if vla_non_recursive (msg_fields m) \<noteq> None then generate_debug_trait (msg_name m) (msg_fields m) else Inr []),
       message_endian_fn m,
       message_format_fn m,
       message_calc_size P m]"

definition generate_messages :: "'h api_parser \<Rightarrow> gen" where
  "generate_messages P = gseq (map (\<lambda>(i, m). generate_message P i m) (enumerate 0 (p_messages P)))"

definition generate_aliases :: "'h api_parser \<Rightarrow> gen" where
  "generate_aliases P = gseq (map (generate_alias P) (p_aliases P))"

definition generate_enums :: "'h api_parser \<Rightarrow> gen" where
  "generate_enums P = gseq [gseq (map generate_enum (p_enums P)), gseq (map generate_enumflag (p_enumflags P))]"

definition generate_unions :: "'h api_parser \<Rightarrow> gen" where
  "generate_unions P = gseq (map (generate_union P) (p_unions P))"

definition generate_types :: "'h api_parser \<Rightarrow> gen" where
  "generate_types P = gseq (map (generate_type P) (p_types P))"

end
