(* ===== verification/Api_Gen_Register.thy ===== *)
theory Api_Gen_Register
  imports Api_Gen_Message
begin

text \<open>
  The rest of the code generator, \<open>generate_register\<close> and \<open>generate\<close> of \<open>vpp-plugin-api-gen/src/lib.rs\<close>:
  the \<open>Handlers\<close> trait, the raw handlers the VPP API calls, and the registration of messages.
\<close>

section \<open>The Handlers trait\<close>

definition has_vla :: "'h api_parser \<Rightarrow> message option \<Rightarrow> gen_error + bool" where
  "has_vla P m = (case m of None \<Rightarrow> Inr False | Some m \<Rightarrow> gbind (or_no_return (message_vla P m)) (\<lambda>vla. Inr (vla \<noteq> None)))"

definition retval_in_reply :: "'h api_parser \<Rightarrow> service \<Rightarrow> bool" where
  "retval_in_reply P s = (case parser_message P (reply s) of Some m \<Rightarrow> has_retval m | None \<Rightarrow> False)"

definition handler_signature :: "'h api_parser \<Rightarrow> service \<Rightarrow> string \<Rightarrow> string" where
  "handler_signature P s unsafe_str =
     (let caller_upper_camel = to_upper_camel_case (caller s);
          reply_message = (concat [''::vpp_plugin::vlibapi::Message<'', to_upper_camel_case (reply s), ''>''])
      in if reply s = ''null'' then
           line [''    '', unsafe_str, ''fn '', caller s, ''(vm: &::vpp_plugin::vlib::BarrierHeldMainRef, mp: &'', caller_upper_camel, '');'']
         else case stream_message s of
           Some sm \<Rightarrow>
             (let stream_ty = (concat [''::vpp_plugin::vlibapi::Stream<'', to_upper_camel_case sm, ''>''])
              in if retval_in_reply P s then
                   line [''    '', unsafe_str, ''fn '', caller s, ''(vm: &::vpp_plugin::vlib::BarrierHeldMainRef, mp: &'', caller_upper_camel, '', stream: '', stream_ty, '') -> Result<'', reply_message, '', i32>;'']
                 else
                   line [''    '', unsafe_str, ''fn '', caller s, ''(vm: &::vpp_plugin::vlib::BarrierHeldMainRef, mp: &'', caller_upper_camel, '', stream: '', stream_ty, '') -> '', reply_message, '';''])
         | None \<Rightarrow>
             (if stream s then
                line [''    '', unsafe_str, ''fn '', caller s, ''(vm: &::vpp_plugin::vlib::BarrierHeldMainRef, mp: &'', caller_upper_camel, '', stream: ::vpp_plugin::vlibapi::Stream<'', to_upper_camel_case (reply s), ''>);'']
              else if retval_in_reply P s then
                line [''    '', unsafe_str, ''fn '', caller s, ''(vm: &::vpp_plugin::vlib::BarrierHeldMainRef, mp: &'', caller_upper_camel, '') -> Result<'', reply_message, '', i32>;'']
              else
                line [''    '', unsafe_str, ''fn '', caller s, ''(vm: &::vpp_plugin::vlib::BarrierHeldMainRef, mp: &'', caller_upper_camel, '') -> '', reply_message, '';'']))"

definition trait_method :: "'h api_parser \<Rightarrow> service \<Rightarrow> gen" where
  "trait_method P s =
     gbind (has_vla P (parser_message P (caller s))) (\<lambda>caller_message_vla.
     gbind (has_vla P (if reply s = ''null'' then None else parser_message P (reply s))) (\<lambda>reply_message_vla.
       lines [handler_signature P s (if caller_message_vla \<or> reply_message_vla then ''unsafe '' else '''')]))"

definition handlers_trait :: "'h api_parser \<Rightarrow> gen" where
  "handlers_trait P =
     gseq [
       lines [line [''pub trait Handlers {'']],
       gseq (map (trait_method P) (p_services P)),
       lines [
         line [''}''],
         line []]]"

section \<open>Raw handlers\<close>

definition handler_call :: "'h api_parser \<Rightarrow> service \<Rightarrow> string list" where
  "handler_call P s =
     (let stream_message_arg = (if stream_message s \<noteq> None then (concat ['', ::vpp_plugin::vlibapi::Stream::new(reg)'']) else '''')
      in if stream s \<and> stream_message s = None then
           [line [''                H::'', caller s, ''(vm, mp, ::vpp_plugin::vlibapi::Stream::new(reg));'']]
         else if retval_in_reply P s then [
           line [''                let mut reply = match H::'', caller s, ''(vm, mp'', stream_message_arg, '') {''],
           line [''                    Ok(reply) => reply,''],
           line [''                    Err(retval) => '', to_upper_camel_case (reply s), '' {''],
           line [''                        retval,''],
           line [''                        ..Default::default()''],
           line [''                    }''],
           line [''                    .into(),''],
           line [''                };'']]
         else
           [line [''                let mut reply = H::'', caller s, ''(vm, mp'', stream_message_arg, '');'']])"

definition handler_reply :: "service \<Rightarrow> string list" where
  "handler_reply s =
     (if \<not> stream s \<or> stream_message s \<noteq> None then [
        line [''                reply.context = mp.context;''],
        line [''                '', reply s, ''_endian(::std::ptr::addr_of_mut!(*reply), true);''],
        line [''                reg.send_message(reply);'']]
      else [])"

definition handler_body :: "'h api_parser \<Rightarrow> service \<Rightarrow> string list" where
  "handler_body P s =
     (if reply s = ''null'' then
        [line [''        H::'', caller s, ''(vm, mp);'']]
      else [
        line [''        ::vpp_plugin::vlibapi::registration_scope(|s| {''],
        line [''            if let Some(reg) = s.from_client_index(vm, mp.client_index) {'']] @
        handler_call P s @
        handler_reply s @ [
        line [''            }''],
        line [''        })''],
        line [''    }'']])"

definition handler_raw :: "'h api_parser \<Rightarrow> service \<Rightarrow> gen" where
  "handler_raw P s =
     lines ([
       line [''unsafe extern \"C\" fn '', caller s, ''_handler_raw<H: Handlers>(mp: *mut '', to_upper_camel_case (caller s), '') {''],
       line [''    unsafe {''],
       line [''        let vm = ::vpp_plugin::vlib::BarrierHeldMainRef::from_ptr_mut(''],
       line [''            ::vpp_plugin::bindings::vlib_get_main_not_inline(),''],
       line [''        );''],
       line [''        let mp = &*mp;'']] @
       handler_body P s @ [
       line [''}''],
       line []])"

section \<open>Registration\<close>

definition msg_id_base :: "'h api_parser \<Rightarrow> gen" where
  "msg_id_base P = lines [
     line [''pub const MESSAGE_COUNT: u16 = '', show_nat (length (p_messages P)), '';''],
     line [],
     line [''static MSG_ID_BASE: ::std::sync::atomic::AtomicU16 = ::std::sync::atomic::AtomicU16::new(0);''],
     line [],
     line [''pub fn msg_id_base() -> u16 {''],
     line [''    MSG_ID_BASE.load(::std::sync::atomic::Ordering::Relaxed)''],
     line [''}''],
     line []]"

definition register_head :: "'h api_parser \<Rightarrow> string \<Rightarrow> gen" where
  "register_head P module = lines [
     line [''pub fn '', module, ''_register_messages<H: Handlers>() {''],
     line [''    unsafe {''],
     line [''        let am = ::vpp_plugin::bindings::vlibapi_helper_get_main();''],
     line [''        let mut json_api_repr = ::vpp_plugin::vppinfra::vec::Vec::from_raw((*am).json_api_repr);''],
     line [''        json_api_repr.push(''],
     line [''            concat!(include_str!(\"'', module, ''.api.json\"), \"'', [CHR 0x5C], ''0\")''],
     line [''                .as_ptr()''],
     line [''                .cast_mut(),''],
     line [''        );''],
     line [''        (*am).json_api_repr = json_api_repr.into_raw();''],
     line [],
     line [''        let msg_id_base = ::vpp_plugin::bindings::vl_msg_api_get_msg_ids(''],
     line [''            c\"'', module, ''_'', hex08 (p_file_crc P), ''\".as_ptr() as *mut ::std::os::raw::c_char,''],
     line [''            MESSAGE_COUNT as i32,''],
     line [''        );''],
     line []]"

definition register_name_crc :: "message \<Rightarrow> gen" where
  "register_name_crc m = lines [
     line [''        ::vpp_plugin::bindings::vl_msg_api_add_msg_name_crc(''],
     line [''            am,''],
     line [''            c\"'', msg_name m, ''_'', hex08 (msg_crc m), ''\".as_ptr() as *mut ::std::os::raw::c_char,''],
     line [''            '', to_upper_camel_case (msg_name m), ''::MSG_ID as u32 + msg_id_base as u32,''],
     line [''        );''],
     line []]"

text \<open>
  The configuration of one message.  The source writes it three times: for the caller of a service,
  whose handler is the raw handler, for its reply and for its stream message, which have none.
  \<open>unwrap\<close> panics when there is no message of the name.
\<close>

definition msg_config :: "'h api_parser \<Rightarrow> string \<Rightarrow> string \<Rightarrow> gen" where
  "msg_config P name handler_line =
     (case parser_message P name of
        None \<Rightarrow> Inl Unwrap_none
      | Some m \<Rightarrow> lines ([
          line [''        let mut c = vpp_plugin::bindings::vl_msg_api_msg_config_t {''],
          line [''            id: '', to_upper_camel_case name, ''::MSG_ID as i32 + msg_id_base as i32,''],
          line [''            name: c\"'', name, ''\".as_ptr() as *mut ::std::os::raw::c_char,''],
          handler_line,
          line [''            endian: '', name, ''_endian as *mut ::std::os::raw::c_void,''],
          line [''            format_fn: '', name, ''_format as *mut ::std::os::raw::c_void,''],
          line [''            tojson: std::ptr::null_mut(),''],
          line [''            fromjson: std::ptr::null_mut(),''],
          line [''            calc_size: '', name, ''_calc_size as *mut ::std::os::raw::c_void,''],
          line [''            ..Default::default()''],
          line [''        };''],
          line [''        c.set_traced(1);''],
          line [''        c.set_replay(1);'']] @
          (if List.member (msg_flags m) AutoEndian then [line [''        c.set_is_autoendian(1);'']] else []) @ [
          line [''        ::vpp_plugin::bindings::vl_msg_api_config(std::ptr::addr_of_mut!(c));''],
          line []]))"

definition no_handler :: string where
  "no_handler = line [''            handler: ::std::ptr::null_mut(),'']"

definition caller_config :: "'h api_parser \<Rightarrow> service \<Rightarrow> gen" where
  "caller_config P s =
     msg_config P (caller s) (line [''            handler: '', caller s, ''_handler_raw::<H> as *mut ::std::os::raw::c_void,''])"

definition reply_config :: "'h api_parser \<Rightarrow> service \<Rightarrow> gen" where
  "reply_config P s = (if reply s \<noteq> ''null'' then msg_config P (reply s) no_handler else Inr [])"

definition stream_config :: "'h api_parser \<Rightarrow> service \<Rightarrow> gen" where
  "stream_config P s = (case stream_message s of Some sm \<Rightarrow> msg_config P sm no_handler | None \<Rightarrow> Inr [])"

definition register_messages :: "'h api_parser \<Rightarrow> string \<Rightarrow> gen" where
  "register_messages P module =
     gseq [
       register_head P module,
       gseq (map register_name_crc (p_messages P)),
       gseq (map (\<lambda>s. gseq [caller_config P s, reply_config P s, stream_config P s]) (p_services P)),
       lines [
         line [''        MSG_ID_BASE.store(msg_id_base, ::std::sync::atomic::Ordering::Relaxed);''],
         line [''    }''],
         line [''}'']]]"

definition generate_register :: "'h api_parser \<Rightarrow> string \<Rightarrow> gen" where
  "generate_register P module =
     (if p_services P = [] then Inr []
      else gseq [
        handlers_trait P,
        gseq (map (handler_raw P) (p_services P)),
        msg_id_base P,
        register_messages P module])"

text \<open>The Rust file; the JSON file is written before it.\<close>

definition generate_rust :: "'h api_parser \<Rightarrow> string \<Rightarrow> gen" where
  "generate_rust P module =
     gseq [generate_aliases P, generate_enums P, generate_unions P, generate_types P, generate_messages P, generate_register P module]"

end
