(* ===== verification/Api_Gen_Braces.thy ===== *)
theory Api_Gen_Braces
  imports Api_Gen_Register Api_Types
begin

text \<open>
  The braces of the generated Rust code: every construct the generator writes is balanced, except
  one handler.
\<close>

section \<open>Counting braces\<close>

fun braces :: "string \<Rightarrow> int" where
  "braces [] = 0"
| "braces (c # s) = (if c = CHR ''{'' then 1 else if c = CHR ''}'' then -1 else 0) + braces s"

definition brace_free :: "string \<Rightarrow> bool" where
  "brace_free s \<longleftrightarrow> CHR ''{'' \<notin> set s \<and> CHR ''}'' \<notin> set s"

named_theorems brace

lemma braces_append [brace]: "braces (s @ t) = braces s + braces t"
  by (induction s) auto

lemma braces_concat: "braces (concat ss) = sum_list (map braces ss)"
  by (induction ss) (auto simp: braces_append)

lemma braces_line [brace]: "braces (line ts) = sum_list (map braces ts)"
  by (simp add: line_def braces_append braces_concat)

lemma braces_free: "brace_free s \<Longrightarrow> braces s = 0"
  by (induction s) (auto simp: brace_free_def)

lemma brace_free_simps [simp]:
  "brace_free []" "brace_free (c # s) \<longleftrightarrow> c \<noteq> CHR ''{'' \<and> c \<noteq> CHR ''}'' \<and> brace_free s"
  "brace_free (s @ t) \<longleftrightarrow> brace_free s \<and> brace_free t"
  by (auto simp: brace_free_def)

lemma brace_free_concat [simp]: "brace_free (concat ss) \<longleftrightarrow> list_all brace_free ss"
  by (induction ss) auto

lemma brace_code: "c = CHR ''{'' \<longleftrightarrow> (of_char c :: nat) = 123" "c = CHR ''}'' \<longleftrightarrow> (of_char c :: nat) = 125"
proof -
  have "(of_char (CHR ''{'') :: nat) = 123" "(of_char (CHR ''}'') :: nat) = 125" by simp_all
  then show "c = CHR ''{'' \<longleftrightarrow> (of_char c :: nat) = 123" "c = CHR ''}'' \<longleftrightarrow> (of_char c :: nat) = 125"
    using of_char_eq_iff by metis+
qed

lemma ascii_case_brace [simp]:
  "ascii_lower c = CHR ''{'' \<longleftrightarrow> c = CHR ''{''" "ascii_lower c = CHR ''}'' \<longleftrightarrow> c = CHR ''}''"
  "ascii_upper c = CHR ''{'' \<longleftrightarrow> c = CHR ''{''" "ascii_upper c = CHR ''}'' \<longleftrightarrow> c = CHR ''}''"
  by (auto simp: brace_code ascii_lower_def ascii_upper_def Let_def)

lemma brace_free_map_ascii [simp]:
  "brace_free (map ascii_lower w) \<longleftrightarrow> brace_free w" "brace_free (map ascii_upper w) \<longleftrightarrow> brace_free w"
  by (induction w) auto

lemma brace_free_capital [simp]: "brace_free w \<Longrightarrow> brace_free (capital w)"
  by (cases w) (auto simp: capital_def)

lemma brace_free_split_on: "brace_free s \<Longrightarrow> list_all brace_free (split_on d s)"
  by (induction d s rule: split_on.induct) (auto split: list.splits)

lemma brace_free_camel [simp]: "brace_free s \<Longrightarrow> brace_free (to_upper_camel_case s)"
  using brace_free_split_on[of s "CHR ''_''"] by (auto simp: to_upper_camel_case_def list_all_iff)

lemma brace_free_digits: "\<forall>c\<in>set s. is_digit c \<Longrightarrow> brace_free s"
  by (auto simp: brace_free_def is_digit_def brace_code)

lemma brace_free_show_nat [simp]: "brace_free (show_nat n)"
  by (rule brace_free_digits[OF show_nat_digits(1)])

lemma brace_free_hex08 [simp]: "brace_free (hex08 n)"
proof -
  have "hex_char d \<noteq> CHR ''{'' \<and> hex_char d \<noteq> CHR ''}''" if "d < 16" for d
    using that by (auto simp: brace_code hex_char_def)
  then show ?thesis by (simp add: hex08_def)
qed

lemma brace_free_join [simp]: "brace_free sep \<Longrightarrow> list_all brace_free xs \<Longrightarrow> brace_free (join sep xs)"
  by (induction sep xs rule: join.induct) auto

lemma brace_free_parts [simp]:
  "brace_free s \<Longrightarrow> brace_free (before_first c s)" "brace_free s \<Longrightarrow> brace_free (after_last c s)"
  by (auto simp: brace_free_def before_first_def after_last_def dest: set_takeWhileD)

lemma brace_free_strip_prefix: "strip_prefix p s = Some t \<Longrightarrow> brace_free s \<Longrightarrow> brace_free t"
  by auto

section \<open>Sequences of texts\<close>

text \<open>\<open>bal g n\<close>: the text has \<open>n\<close> more opening than closing braces.\<close>

definition bal :: "gen \<Rightarrow> int \<Rightarrow> bool" where
  "bal g n \<longleftrightarrow> (\<forall>t. g = Inr t \<longrightarrow> braces t = n)"

lemma bal_simps [simp]:
  "bal (Inl e) n" "bal (Inr t) n \<longleftrightarrow> braces t = n" "bal (lines ls) n \<longleftrightarrow> sum_list (map braces ls) = n"
  by (auto simp: bal_def lines_def braces_concat)

lemma bal_gseq_Nil: "bal (gseq []) 0"
  by (simp add: gseq.simps)

lemma bal_gseq_Cons: "bal g a \<Longrightarrow> bal (gseq gs) b \<Longrightarrow> bal (gseq (g # gs)) (a + b)"
  by (auto simp: gseq.simps bal_def gbind_Inr braces_append)

declare gseq.simps [simp del]

text \<open>The account of a sequence: a text moves its braces to the other side, other parts are even.\<close>

lemma bal_nil: "n = 0 \<Longrightarrow> bal (gseq []) n"
  by (simp add: gseq.simps)

lemma bal_text: "bal (gseq gs) (n - sum_list (map braces ls)) \<Longrightarrow> bal (gseq (lines ls # gs)) n"
  by (auto simp: gseq.simps bal_def lines_def braces_concat gbind_Inr braces_append)

lemma bal_part: "bal (gseq gs) n \<Longrightarrow> bal g 0 \<Longrightarrow> bal (gseq (g # gs)) n"
  using bal_gseq_Cons[of g 0 gs n] by simp

lemma sum_list_zero: "\<forall>x\<in>set xs. h x = 0 \<Longrightarrow> sum_list (map h xs) = (0::int)"
  by (induction xs) auto

lemmas bal_texts = bal_text bal_part bal_nil
lemma bal_gseq_map: "(\<And>x. x \<in> set xs \<Longrightarrow> bal (f x) (n x)) \<Longrightarrow> bal (gseq (map f xs)) (sum_list (map n xs))"
  by (induction xs) (auto intro!: bal_gseq_Cons bal_nil)

lemma bal_gseq_map0: "(\<And>x. x \<in> set xs \<Longrightarrow> bal (f x) 0) \<Longrightarrow> bal (gseq (map f xs)) 0"
  using bal_gseq_map[of xs f "\<lambda>_. 0"] by simp

lemma bal_gbind: "(\<And>x. m = Inr x \<Longrightarrow> bal (f x) n) \<Longrightarrow> bal (gbind m f) n"
  by (cases m) auto

lemma bal_eq: "bal g a \<Longrightarrow> a = b \<Longrightarrow> bal g b"
  by simp

section \<open>Names\<close>

definition field_names_ok :: "field \<Rightarrow> bool" where
  "field_names_ok fd \<longleftrightarrow> brace_free (f_type fd) \<and> brace_free (f_name fd) \<and>
     (case f_size fd of Some (Variable (Some v)) \<Rightarrow> brace_free v | _ \<Rightarrow> True)"

definition text_ok :: "string option \<Rightarrow> bool" where
  "text_ok t = (case t of None \<Rightarrow> True | Some t \<Rightarrow> brace_free t)"

definition block_names_ok :: "type_details \<Rightarrow> bool" where
  "block_names_ok td = (case td of TD_TypedefBlock fds \<Rightarrow> list_all field_names_ok fds | _ \<Rightarrow> True)"

definition types_names_ok :: "'h api_parser \<Rightarrow> bool" where
  "types_names_ok P \<longleftrightarrow> (\<forall>n ty. global_types_by_name P n = Some ty \<longrightarrow>
     text_ok (ty_import_filename ty) \<and> block_names_ok (ty_details ty))"

lemma to_rust_type_free:
  assumes "types_names_ok P" "to_rust_type P ty = Inr t" "brace_free ty"
  shows "brace_free t"
proof -
  have "brace_free n" if "api_type_name ty = Some n" for n
    using that assms(3) by (auto simp: api_type_name_def VL_API_PREFIX_def bind_eq_Some_conv)
  then show ?thesis
    using assms by (auto simp: to_rust_type_def lookup_global_type_def gbind_Inr import_module_def types_names_ok_def text_ok_def
        split: option.splits)
qed

lemma to_rust_vla_elem_type_free:
  "types_names_ok P \<Longrightarrow> to_rust_vla_elem_type P ty = Inr t \<Longrightarrow> brace_free ty \<Longrightarrow> brace_free t"
  using to_rust_type_free by (auto simp: to_rust_vla_elem_type_def split: if_splits)

declare braces_free [brace]

lemmas brace_sums = brace sum_list_zero

section \<open>The pieces are balanced\<close>

lemma field_names_okD:
  "field_names_ok fd \<Longrightarrow> brace_free (f_type fd)" "field_names_ok fd \<Longrightarrow> brace_free (f_name fd)"
  "field_names_ok fd \<Longrightarrow> f_size fd = Some (Variable (Some v)) \<Longrightarrow> brace_free v"
  by (auto simp: field_names_ok_def)

lemma generate_field_bal:
  assumes "types_names_ok P" "field_names_ok fd"
  shows "bal (generate_field P fd) 0"
proof -
  note n = field_names_okD[OF assms(2)]
  note t = to_rust_type_free[OF assms(1) _ n(1)] to_rust_vla_elem_type_free[OF assms(1) _ n(1)]
  show ?thesis
    by (auto simp: generate_field_def brace n t intro!: bal_gbind split: option.split field_size.split)
qed

lemma generate_debug_trait_bal:
  assumes "brace_free name" "list_all field_names_ok fds"
  shows "bal (generate_debug_trait name fds) 0"
  unfolding generate_debug_trait_def Let_def
  by (rule bal_texts)+ (use assms in \<open>auto simp: brace_sums list_all_iff field_names_okD\<close>)

lemma generate_vla_accessors_bal:
  assumes "types_names_ok P" "brace_free count_field" "field_names_ok fd"
  shows "bal (generate_vla_accessors P count_field fd) 0"
  using assms to_rust_vla_elem_type_free[OF assms(1) _ field_names_okD(1)[OF assms(3)]]
  by (auto intro!: bal_gbind simp: generate_vla_accessors_def vla_accessor_def vla_accessor_mut_def brace field_names_okD)

lemma gen_count_variable_bal:
  assumes "types_names_ok P" "list_all field_names_ok fds" "brace_free field_name" "field_names_ok fd"
  shows "bal (gen_count_variable P fds field_name fd count_name) 0"
proof -
  have "field_names_ok other" if "find (\<lambda>other. f_name other = count_name) fds = Some other" for other
    using that assms(2) by (auto simp: find_Some_iff list_all_iff)
  then show ?thesis
    using assms to_rust_vla_elem_type_free[OF assms(1) _ field_names_okD(1)[OF assms(4)]]
    by (auto intro!: bal_gbind simp: gen_count_variable_def brace field_names_okD split: option.split)
qed

lemma endian_field_bal:
  assumes "types_names_ok P" "list_all field_names_ok fds" "brace_free field_name" "field_names_ok fd"
  shows "bal (endian_field P fds field_name fd) 0"
proof -
  note n = gen_count_variable_bal[OF assms] field_names_okD[OF assms(4)]
  have "bal (endian_int P fds field_name fd) 0" "bal (endian_other P fds field_name fd) 0"
    unfolding endian_int_def endian_other_def using assms(3) n
    by (auto intro!: bal_texts simp: brace split: option.split field_size.split)
  then show ?thesis using assms(3) by (simp add: endian_field_def brace)
qed

lemma generate_endian_swap_bal:
  assumes "types_names_ok P" "brace_free name" "list_all field_names_ok (endian_fields input)"
  shows "bal (generate_endian_swap P name input) 0"
proof -
  have "brace_free (endian_name input fd)" if "fd \<in> set (endian_fields input)" for fd
    using that assms(3) by (auto simp: endian_name_def list_all_iff field_names_okD split: endian_input.split)
  then have m: "bal (gseq (map (\<lambda>fd. endian_field P (endian_fields input) (endian_name input fd) fd) (endian_fields input))) 0"
    using assms(1,3) by (auto intro!: bal_gseq_map0 endian_field_bal simp: list_all_iff)
  show ?thesis
    unfolding generate_endian_swap_def
    by (rule bal_texts)+ (use m assms(2) in \<open>simp_all add: brace\<close>)
qed

section \<open>Aliases, enums, unions and types\<close>

definition enum_names_ok :: "enum_def \<Rightarrow> bool" where
  "enum_names_ok e \<longleftrightarrow> brace_free (en_name e) \<and> brace_free (en_size e) \<and> list_all (\<lambda>v. brace_free (ev_id v)) (en_variants e)"

definition union_names_ok :: "union_def \<Rightarrow> bool" where
  "union_names_ok u \<longleftrightarrow> brace_free (un_name u) \<and> text_ok (un_comment u) \<and> list_all field_names_ok (un_fields u)"

definition type_names_ok :: "type_def \<Rightarrow> bool" where
  "type_names_ok t \<longleftrightarrow> brace_free (td_name t) \<and> list_all field_names_ok (td_fields t)"

lemma brace_free_escape [simp]: "brace_free c \<Longrightarrow> brace_free (escape_quotes c)"
  by (auto simp: escape_quotes_def list_all_iff brace_free_def)

lemma braces_doc_comment [brace]: "text_ok c \<Longrightarrow> braces (doc_comment c) = 0"
  by (simp add: doc_comment_def text_ok_def brace split: option.splits)

lemma generate_fields_bal:
  "types_names_ok P \<Longrightarrow> list_all field_names_ok fds \<Longrightarrow> bal (gseq (map (generate_field P) fds)) 0"
  by (auto intro!: bal_gseq_map0 generate_field_bal simp: list_all_iff)

lemma generate_alias_bal:
  assumes "types_names_ok P" "field_names_ok (al_field a)"
  shows "bal (generate_alias P a) 0"
proof -
  note n = field_names_okD[OF assms(2)]
  note t = to_rust_type_free[OF assms(1) _ n(1)]
  have "bal (generate_endian_swap P (f_name (al_field a)) (Endian_alias (al_field a))) 0"
    using assms n by (auto intro!: generate_endian_swap_bal simp: endian_fields_def)
  then show ?thesis
    using n(2) t unfolding generate_alias_def Let_def
    by (auto intro!: bal_texts bal_gbind simp: brace alias_derives_def split: option.split field_size.split)
qed

lemma enum_endian_bal:
  "brace_free (en_name e) \<Longrightarrow> braces no_op = 0 \<Longrightarrow> braces swap = 0 \<Longrightarrow> bal (enum_endian e no_op swap) 0"
  unfolding enum_endian_def by (auto intro!: bal_texts simp: brace)

lemma generate_enum_bal: "enum_names_ok e \<Longrightarrow> bal (generate_enum e) 0"
  unfolding generate_enum_def Let_def
  by ((rule bal_texts)+) (auto intro!: enum_endian_bal simp: enum_names_ok_def list_all_iff brace_sums)

lemma strip_prefix_free: "strip_prefix p s = Some t \<Longrightarrow> brace_free s \<Longrightarrow> brace_free t"
  by auto

lemma brace_free_flag_id [simp]: "brace_free (ev_id v) \<Longrightarrow> brace_free (flag_id e v)"
  by (auto simp: flag_id_def split: option.split dest: strip_prefix_free)

lemma generate_enumflag_bal: "enum_names_ok e \<Longrightarrow> bal (generate_enumflag e) 0"
  unfolding generate_enumflag_def Let_def
  by ((rule bal_texts)+) (auto intro!: enum_endian_bal simp: enum_names_ok_def list_all_iff brace_sums)

lemma generate_union_bal: "types_names_ok P \<Longrightarrow> union_names_ok u \<Longrightarrow> bal (generate_union P u) 0"
  unfolding generate_union_def
  by ((rule bal_texts)+) (auto intro!: generate_fields_bal simp: union_names_ok_def brace)

lemma own_count_ok:
  "own_count vla = Some (count_field, fd) \<Longrightarrow> (\<And>fd' c. vla = Some (fd', c) \<Longrightarrow> field_names_ok fd') \<Longrightarrow>
    brace_free count_field \<and> field_names_ok fd"
  by (auto simp: own_count_def field_names_okD split: option.splits field_size.splits)

lemma fields_vla_field: "fields_vla T fds = Some (Some (fd, c)) \<Longrightarrow> fd \<in> set fds"
  by (auto simp: fields_vla_def split: if_splits)

lemma generate_type_bal:
  assumes P: "types_names_ok P" and t: "type_names_ok t"
  shows "bal (generate_type P t) 0"
proof -
  have n: "brace_free (td_name t)" "list_all field_names_ok (td_fields t)" using t by (simp_all add: type_names_ok_def)
  have "brace_free count_field \<and> field_names_ok fd"
    if "own_count vla = Some (count_field, fd)" "type_vla P t = Some vla" for vla count_field fd
    using own_count_ok[OF that(1)] n(2) fields_vla_field that(2) by (fastforce simp: type_vla_def list_all_iff)
  then have v: "bal (gbind (or_no_return (type_vla P t)) (\<lambda>vla.
      case own_count vla of
        None \<Rightarrow> Inr []
      | Some (count_field, fd) \<Rightarrow> gseq [
          lines [line [''impl '', to_upper_camel_case (td_name t), '' {'']],
          generate_vla_accessors P count_field fd,
          lines [line [''}''], line []]])) 0"
    using n(1) by (auto intro!: bal_gbind bal_texts generate_vla_accessors_bal[OF P] simp: or_no_return_def brace
        split: option.splits)
  have e: "bal (generate_endian_swap P (td_name t) (Endian_fields (td_fields t))) 0"
    using n by (auto intro!: generate_endian_swap_bal[OF P] simp: endian_fields_def)
  show ?thesis
    unfolding generate_type_def Let_def
    by ((rule bal_texts)+) (use n v e in \<open>auto intro!: generate_fields_bal[OF P] generate_debug_trait_bal simp: brace type_derives_def\<close>)
qed

end
