(* ===== verification/Api_Gen_Balance.thy ===== *)
theory Api_Gen_Balance
  imports Api_Gen_Braces
begin

text \<open>
  The braces of generated messages and of the registration code, up to the whole file: every part
  is balanced except the raw handler of a service with reply \<open>null\<close>, which lacks one brace.
\<close>

section \<open>Count paths\<close>

definition descr_names_ok :: "count_descriptor \<Rightarrow> bool" where
  "descr_names_ok c = (case c of CD_Field path ty \<Rightarrow> list_all brace_free path \<and> brace_free ty | CD_String path \<Rightarrow> list_all brace_free path)"

lemma descr_names_ok_under [simp]: "descr_names_ok (cd_under n c) \<longleftrightarrow> brace_free n \<and> descr_names_ok c"
  by (auto simp: descr_names_ok_def cd_under_def split: count_descriptor.split)

lemma count_field_of_names:
  "count_field_of fd others = Some cf \<Longrightarrow> list_all field_names_ok others \<Longrightarrow> field_names_ok cf"
  by (auto simp: count_field_of_def list_all_iff find_Some_iff split: option.splits field_size.splits)

lemma field_vla_names:
  assumes run: "field_vla T fd others = Some r"
    and T: "\<And>n ty. T n = Some ty \<Longrightarrow> block_names_ok (ty_details ty)"
  shows "field_names_ok fd \<Longrightarrow> list_all field_names_ok others \<Longrightarrow> r = Some c \<Longrightarrow> descr_names_ok c"
  using run T
proof (induction T fd others r arbitrary: c rule: field_vla.raw_induct[rotated, consumes 1, case_names step])
  case (step vla T fd others r)
  note rec = step(1) and eq = step(2) and ok = step(3,4) and r = step(5) and T = step(6)
  show ?case
  proof (cases "f_size fd = Some (Variable None) \<and> f_type fd = ''string''")
    case True
    then show ?thesis using eq r ok(1) by (auto simp: descr_names_ok_def field_names_okD)
  next
    case plain: False
    show ?thesis
    proof (cases "count_field_of fd others")
      case (Some cf)
      then show ?thesis
        using plain eq r count_field_of_names[OF Some ok(2)] by (auto simp: descr_names_ok_def field_names_okD)
    next
      case None
      with plain eq r obtain tn ty r' where ty: "T tn = Some ty" and c: "c = cd_under (f_name fd) r'"
        and r': "(case ty_details ty of
            TD_TypedefBlock fds \<Rightarrow> (if fds = [] then Some None else vla T (last fds) fds)
          | TD_Typedef t sz \<Rightarrow> Some (if sz = Some (Variable None) \<and> t = ''string'' then Some (CD_String []) else None)
          | TD_Union fds \<Rightarrow> Some None
          | TD_Enum sz vs \<Rightarrow> Some None
          | TD_EnumFlag sz vs \<Rightarrow> Some None) = Some (Some r')"
        by (auto simp: bind_eq_Some_conv split: option.splits)
      have "descr_names_ok r'"
      proof (cases "ty_details ty")
        case (TD_TypedefBlock fds)
        with r' have "vla T (last fds) fds = Some (Some r')" "fds \<noteq> []" by (auto split: if_splits)
        moreover have "list_all field_names_ok fds" using T[OF ty] TD_TypedefBlock by (simp add: block_names_ok_def)
        ultimately show ?thesis using rec[of T "last fds" fds "Some r'" r'] T by (auto simp: list_all_iff)
      qed (use r' in \<open>auto simp: descr_names_ok_def split: if_splits\<close>)
      then show ?thesis using c ok(1) by (simp add: field_names_okD)
    qed
  qed
qed

lemma message_vla_names:
  assumes "types_names_ok P" "list_all field_names_ok (msg_fields m)" "message_vla P m = Some (Some (fd, c))"
  shows "field_names_ok fd" "descr_names_ok c"
proof -
  have fd: "fd \<in> set (msg_fields m)" "fd = last (msg_fields m)"
    and run: "field_vla (global_types_by_name P) fd (msg_fields m) = Some (Some c)"
    using assms(3) by (auto simp: message_vla_def fields_vla_def split: if_splits)
  show "field_names_ok fd" using fd(1) assms(2) by (simp add: list_all_iff)
  then show "descr_names_ok c"
    using field_vla_names[OF run] assms(1,2) by (auto simp: types_names_ok_def)
qed

lemma brace_free_dotted [simp]: "list_all brace_free path \<Longrightarrow> brace_free (dotted path)"
  by (simp add: dotted_def)

section \<open>Messages\<close>

definition message_names_ok :: "message \<Rightarrow> bool" where
  "message_names_ok m \<longleftrightarrow> brace_free (msg_name m) \<and> text_ok (msg_comment m) \<and> list_all field_names_ok (msg_fields m)"

lemma message_names_okD:
  "message_names_ok m \<Longrightarrow> brace_free (msg_name m)" "message_names_ok m \<Longrightarrow> text_ok (msg_comment m)"
  "message_names_ok m \<Longrightarrow> list_all field_names_ok (msg_fields m)"
  by (simp_all add: message_names_ok_def)

lemma message_derives_free: "message_derives P m = Inr t \<Longrightarrow> brace_free t"
  by (auto simp: message_derives_def or_no_return_def gbind_Inr split: if_splits option.splits)

lemma message_struct_bal:
  assumes "types_names_ok P" "message_names_ok m"
  shows "bal (message_struct P m) 0"
proof -
  note n = message_names_okD[OF assms(2)]
  have "bal (gbind (message_derives P m) (\<lambda>opt_derives. lines [line [''#[derive('', opt_derives, ''Copy, Clone)]'']])) 0"
    by (auto intro!: bal_gbind simp: brace dest: message_derives_free)
  then show ?thesis
    unfolding message_struct_def
    by - ((rule bal_texts)+, use n in \<open>auto intro!: generate_fields_bal[OF assms(1)] simp: brace\<close>)
qed

lemma bal_more: "bal (gseq gs) (n - m) \<Longrightarrow> bal g m \<Longrightarrow> bal (gseq (g # gs)) n"
  using bal_gseq_Cons[of g m gs "n - m"] by simp

lemma new_message_body_bal:
  assumes "types_names_ok P" "field_names_ok fd" "descr_names_ok c"
  shows "bal (new_message_body P fd c) 1"
proof (cases c)
  case (CD_Field path ty)
  have "brace_free (if path = [] then [] else last path)"
    using assms(3) CD_Field by (auto simp: descr_names_ok_def list_all_iff)
  then show ?thesis
    unfolding new_message_body_def Let_def CD_Field count_descriptor.case
    using assms(3) CD_Field to_rust_type_free[OF assms(1) _ field_names_okD(1)[OF assms(2)]]
    by (auto intro!: bal_texts bal_gbind simp: brace descr_names_ok_def new_bytes_line_def simp del: if_split split: if_split)
next
  case (CD_String path)
  then show ?thesis
    using assms(3) by (simp add: new_message_body_def brace descr_names_ok_def new_bytes_line_def)
qed

lemma message_new_message_bal:
  assumes "types_names_ok P" "\<And>fd c. vla = Some (fd, c) \<Longrightarrow> field_names_ok fd \<and> descr_names_ok c"
  shows "bal (message_new_message P vla) 0"
proof (cases vla)
  case (Some v)
  obtain fd c where v: "vla = Some (fd, c)" using Some by (cases v) auto
  then have n: "field_names_ok fd" "descr_names_ok c" using assms(2) by blast+
  have "bal (case own_count vla of None \<Rightarrow> Inr []
     | Some (count_field, _) \<Rightarrow> gseq [generate_vla_accessors P count_field fd, lines [line []]]) 0"
    using own_count_ok[of vla] assms v
    by (auto intro!: bal_texts generate_vla_accessors_bal[OF assms(1)] simp: brace split: option.split)
  then have "bal (gseq [
      lines [line []],
      (case own_count vla of None \<Rightarrow> Inr []
         | Some (count_field, _) \<Rightarrow> gseq [generate_vla_accessors P count_field fd, lines [line []]]),
      lines [line [''    #[allow(dead_code)]'']],
      new_message_body P fd c,
      lines [line [''        message''], line [''    }''], line []]]) 0"
    by - (rule bal_text bal_part bal_more[OF _ new_message_body_bal[OF assms(1) n]] bal_nil | simp add: brace)+
  then show ?thesis by (simp add: message_new_message_def v)
qed (simp add: message_new_message_def)

lemma message_impl_bal:
  assumes "types_names_ok P" "message_names_ok m"
  shows "bal (message_impl P i m) 0"
proof -
  note n = message_names_okD[OF assms(2)]
  have "bal (gbind (or_no_return (message_vla P m)) (message_new_message P)) 0"
    using message_vla_names[OF assms(1) n(3)]
    by (auto intro!: bal_gbind message_new_message_bal[OF assms(1)] simp: or_no_return_def split: option.splits)
  then show ?thesis
    unfolding message_impl_def
    by - ((rule bal_texts)+, use n(1) in \<open>auto simp: brace\<close>)
qed

lemma message_default_bal: "message_names_ok m \<Longrightarrow> bal (message_default m) 0"
  unfolding message_default_def
  by ((rule bal_texts)+) (auto simp: brace_sums message_names_ok_def list_all_iff field_names_okD)

lemma message_endian_fn_bal: "message_names_ok m \<Longrightarrow> bal (message_endian_fn m) 0"
  by (simp add: message_endian_fn_def brace message_names_okD)

lemma message_format_fn_bal: "message_names_ok m \<Longrightarrow> bal (message_format_fn m) 0"
  by (simp add: message_format_fn_def brace message_names_okD)

lemma calc_size_count_bal:
  assumes "types_names_ok P" "field_names_ok fd" "descr_names_ok c"
  shows "bal (calc_size_count P m fd c) 0"
  using assms(3) to_rust_type_free[OF assms(1)] field_names_okD(1)[OF assms(2)]
  by (auto intro!: bal_gbind simp: calc_size_count_def brace descr_names_ok_def split: count_descriptor.split)

lemma message_calc_size_bal:
  assumes "types_names_ok P" "message_names_ok m"
  shows "bal (message_calc_size P m) 0"
proof -
  note n = message_names_okD[OF assms(2)]
  have v: "bal (gbind (or_no_return (message_vla P m)) (\<lambda>vla.
         case vla of
           Some (fd, count_descr) \<Rightarrow> gseq [
             lines [calc_size_head m],
             calc_size_count P m fd count_descr,
             lines [line [''    }'']]]
         | None \<Rightarrow> lines [
             line [''unsafe extern \"C\" fn '', msg_name m, ''_calc_size(_a: *mut '', to_upper_camel_case (msg_name m), '') -> ::vpp_plugin::bindings::uword {''],
             line [''    ::std::mem::size_of::<'', to_upper_camel_case (msg_name m), ''>() as ::vpp_plugin::bindings::uword'']])) 1"
    using message_vla_names[OF assms(1) n(3)] n(1)
    by (auto intro!: bal_gbind bal_texts calc_size_count_bal[OF assms(1)] simp: or_no_return_def calc_size_head_def brace
        split: option.splits)
  show ?thesis
    unfolding message_calc_size_def by (rule bal_more[OF _ v]) (auto intro!: bal_texts simp: brace)
qed

lemma generate_message_bal:
  assumes P: "types_names_ok P" and m: "message_names_ok m"
  shows "bal (generate_message P i m) 0"
proof -
  note n = message_names_okD[OF m]
  have "bal (generate_endian_swap P (msg_name m) (Endian_fields (msg_fields m))) 0"
    using n by (auto intro!: generate_endian_swap_bal[OF P] simp: endian_fields_def)
  moreover have "bal (if vla_non_recursive (msg_fields m) \<noteq> None then generate_debug_trait (msg_name m) (msg_fields m) else Inr []) 0"
    using n by (simp add: generate_debug_trait_bal)
  ultimately show ?thesis
    unfolding generate_message_def
    by (intro bal_nil bal_part message_struct_bal message_impl_bal message_default_bal message_endian_fn_bal
        message_format_fn_bal message_calc_size_bal P m) simp_all
qed

section \<open>Registration\<close>

definition service_names_ok :: "service \<Rightarrow> bool" where
  "service_names_ok s \<longleftrightarrow> brace_free (caller s) \<and> brace_free (reply s) \<and> text_ok (stream_message s)"

definition names_ok :: "'h api_parser \<Rightarrow> bool" where
  "names_ok P \<longleftrightarrow> types_names_ok P \<and>
     list_all (\<lambda>a. field_names_ok (al_field a)) (p_aliases P) \<and>
     list_all enum_names_ok (p_enums P) \<and> list_all enum_names_ok (p_enumflags P) \<and>
     list_all union_names_ok (p_unions P) \<and> list_all type_names_ok (p_types P) \<and>
     list_all message_names_ok (p_messages P) \<and> list_all service_names_ok (p_services P)"

lemma handler_signature_braces: "service_names_ok s \<Longrightarrow> brace_free u \<Longrightarrow> braces (handler_signature P s u) = 0"
  by (auto simp: handler_signature_def Let_def service_names_ok_def text_ok_def brace split: option.split)

lemma handlers_trait_bal:
  assumes "list_all service_names_ok (p_services P)" shows "bal (handlers_trait P) 0"
proof -
  have "bal (gseq (map (trait_method P) (p_services P))) 0"
    using assms by (auto intro!: bal_gseq_map0 bal_gbind simp: list_all_iff trait_method_def handler_signature_braces)
  then show ?thesis
    unfolding handlers_trait_def by - ((rule bal_texts)+, auto simp: brace)
qed

lemma handler_call_braces: "service_names_ok s \<Longrightarrow> sum_list (map braces (handler_call P s)) = 0"
  by (auto simp: handler_call_def Let_def service_names_ok_def brace)

lemma handler_reply_braces: "service_names_ok s \<Longrightarrow> sum_list (map braces (handler_reply s)) = 0"
  by (auto simp: handler_reply_def service_names_ok_def brace)

lemma handler_raw_bal: "service_names_ok s \<Longrightarrow> bal (handler_raw P s) (if reply s = ''null'' then 1 else 0)"
  using handler_call_braces[of s P] handler_reply_braces[of s]
  by (auto simp: handler_raw_def handler_body_def service_names_ok_def brace)

lemma msg_config_bal: "brace_free name \<Longrightarrow> braces h = 0 \<Longrightarrow> bal (msg_config P name h) 0"
  by (auto simp: msg_config_def brace split: option.split)

lemma service_configs_bal:
  "service_names_ok s \<Longrightarrow> bal (gseq [caller_config P s, reply_config P s, stream_config P s]) 0"
  by (auto intro!: bal_part bal_nil msg_config_bal split: option.split
      simp: caller_config_def reply_config_def stream_config_def service_names_ok_def text_ok_def no_handler_def brace)

lemma register_messages_bal:
  assumes "list_all service_names_ok (p_services P)" "list_all message_names_ok (p_messages P)" "brace_free module"
  shows "bal (register_messages P module) 0"
proof -
  have "bal (gseq (map register_name_crc (p_messages P))) 0"
    using assms(2) by (auto intro!: bal_gseq_map0 simp: list_all_iff register_name_crc_def message_names_okD brace)
  moreover have "bal (gseq (map (\<lambda>s. gseq [caller_config P s, reply_config P s, stream_config P s]) (p_services P))) 0"
    using assms(1) by (auto intro!: bal_gseq_map0 service_configs_bal simp: list_all_iff)
  moreover have h: "bal (register_head P module) 2"
    using assms(3) by (simp add: register_head_def brace)
  ultimately show ?thesis
    unfolding register_messages_def
    by - (rule bal_more[OF _ h], rule bal_part, rule bal_part, rule bal_text, rule bal_nil, simp_all add: brace)
qed

definition null_replies :: "'h api_parser \<Rightarrow> nat" where
  "null_replies P = length (filter (\<lambda>s. reply s = ''null'') (p_services P))"

lemma generate_register_bal:
  assumes "list_all service_names_ok (p_services P)" "list_all message_names_ok (p_messages P)" "brace_free module"
  shows "bal (generate_register P module) (int (null_replies P))"
proof -
  have "bal (gseq (map (handler_raw P) (p_services P))) (\<Sum>s\<leftarrow>p_services P. if reply s = ''null'' then 1 else 0)"
    using assms(1) by (intro bal_gseq_map handler_raw_bal) (simp add: list_all_iff)
  moreover have "(\<Sum>s\<leftarrow>ss. if reply s = ''null'' then 1 else 0 :: int) = int (length (filter (\<lambda>s. reply s = ''null'') ss))" for ss :: "service list"
    by (induction ss) auto
  ultimately have h: "bal (gseq (map (handler_raw P) (p_services P))) (int (null_replies P))"
    by (simp only: null_replies_def)
  have base: "bal (msg_id_base P) 0" by (simp add: msg_id_base_def brace)
  note parts = handlers_trait_bal[OF assms(1)] register_messages_bal[OF assms] base
  have "bal (gseq [handlers_trait P, gseq (map (handler_raw P) (p_services P)), msg_id_base P, register_messages P module])
      (int (null_replies P))"
    by (rule bal_part, rule bal_more[OF _ h]) (auto intro!: bal_part bal_nil parts)
  then show ?thesis by (auto simp: generate_register_def null_replies_def)
qed

lemma generate_rust_bal:
  assumes P: "names_ok P" and m: "brace_free module"
  shows "bal (generate_rust P module) (int (null_replies P))"
proof -
  have T: "types_names_ok P" using P by (simp add: names_ok_def)
  have "bal (generate_aliases P) 0" "bal (generate_unions P) 0" "bal (generate_types P) 0" "bal (generate_enums P) 0"
    unfolding generate_aliases_def generate_unions_def generate_types_def generate_enums_def using P
    by (auto intro!: bal_gseq_map0 bal_part bal_nil generate_alias_bal generate_union_bal generate_type_bal
        generate_enum_bal generate_enumflag_bal T simp: names_ok_def list_all_iff)
  moreover have "bal (generate_messages P) 0"
    unfolding generate_messages_def using P
    by (auto intro!: bal_gseq_map0 generate_message_bal T simp: names_ok_def list_all_iff in_set_enumerate_eq)
  moreover have "bal (gseq [generate_register P module]) (int (null_replies P))"
    using generate_register_bal[of P module] P m by (intro bal_more[OF bal_nil]) (auto simp: names_ok_def)
  ultimately show ?thesis unfolding generate_rust_def
    by - (rule bal_part[OF bal_part[OF bal_part[OF bal_part[OF bal_part]]]])
qed

end
