(* ===== verification/Api_Gen_Props.thy ===== *)
theory Api_Gen_Props
  imports Api_Gen_Balance Api_Props Api_Rules "HOL-Library.Sublist"
begin

text \<open>
  What the code generator writes: balanced code except for services without a reply, a panic for
  undeclared stream messages, the enum sizes it does not know and the byte order of aliases.
\<close>

section \<open>Errors of a sequence\<close>

lemma gseq_isl: "isl (gseq gs) \<longleftrightarrow> (\<exists>g\<in>set gs. isl g)"
  by (induction gs) (auto simp: gseq.simps gbind_def split: sum.split)

lemma gseq_Inl: "gseq gs = Inl e \<Longrightarrow> \<exists>g\<in>set gs. g = Inl e"
  by (induction gs) (auto simp: gseq.simps gbind_def split: sum.splits)

text \<open>The only error is the panic of \<open>unwrap\<close>.\<close>

definition only_unwrap :: "gen \<Rightarrow> bool" where
  "only_unwrap g \<longleftrightarrow> (\<forall>e. g = Inl e \<longrightarrow> e = Unwrap_none)"

lemma only_unwrap_lines [simp]: "only_unwrap (lines ls)" "only_unwrap (Inr t)" "\<not> isl (lines ls)"
  by (simp_all add: only_unwrap_def lines_def)

lemma only_unwrap_ok: "\<not> isl g \<Longrightarrow> only_unwrap g"
  by (auto simp: only_unwrap_def isl_def)

lemma only_unwrap_gseq: "(\<And>g. g \<in> set gs \<Longrightarrow> only_unwrap g) \<Longrightarrow> only_unwrap (gseq gs)"
  by (auto simp: only_unwrap_def dest!: gseq_Inl)

section \<open>Braces\<close>

text \<open>C15: The generated Rust file has one more opening than closing brace for every service whose reply
  is \<open>null\<close>, and is balanced when there is none: the raw handler of such a service is not closed, so
  the file does not compile.  The names and comments of the API file have no braces of their own.\<close>

theorem generated_braces:
  assumes "names_ok P" "brace_free module" "generate_rust P module = Inr t"
  shows "braces t = int (length (filter (\<lambda>s. reply s = ''null'') (p_services P)))"
  using generate_rust_bal[OF assms(1,2)] assms(3) by (simp add: bal_def null_replies_def)

definition event_api :: "string api_parser" where
  "event_api = empty_parser\<lparr>
     p_messages := [message_new ''want'' [] [sample_field ''u32'' ''client_index'' None, sample_field ''u8'' ''on'' None] [] 7 None],
     p_services := [\<lparr>caller = ''want'', reply = ''null'', events = [], stream = False, stream_message = None\<rparr>]\<rparr>"

lemma gbind_isl [simp]: "isl (gbind m f) \<longleftrightarrow> isl m \<or> isl (f (projr m))"
  by (cases m) simp_all

lemma plain_fields_vla [simp]:
  "list_all (\<lambda>fd. f_size fd = None \<and> api_type_name (f_type fd) = None) fds \<Longrightarrow> fields_vla T fds = Some None"
  by (cases "fds = []") (auto simp: fields_vla_def list_all_iff count_field_of_def intro!: exI[of _ None] field_vla.simps[THEN trans])

lemma event_api_generated: "\<exists>t. generate_rust event_api ''m'' = Inr t"
proof -
  let ?m = "message_new ''want'' [] [sample_field ''u32'' ''client_index'' None, sample_field ''u8'' ''on'' None] [] 7 None"
  have t: "api_type_name ''u32'' = None" "api_type_name ''u16'' = None" "api_type_name ''u8'' = None" by code_simp+
  have v: "message_vla event_api ?m = Some None"
    by (simp add: message_vla_def message_new_def simple_field_def sample_field_def t)
  have "\<not> isl (generate_message event_api i ?m)" for i
    using v
    by (simp add: generate_message_def gseq_isl message_struct_def message_derives_def message_impl_def message_new_message_def
        message_default_def generate_endian_swap_def endian_field_def endian_int_def message_endian_fn_def
        message_format_fn_def message_calc_size_def generate_field_def to_rust_type_def or_no_return_def
        vla_non_recursive_def multi_byte_int_def t message_new_def simple_field_def sample_field_def endian_fields_def)
  then have "\<not> isl (generate_rust event_api ''m'')"
    using v
    by (simp add: generate_rust_def gseq_isl generate_aliases_def generate_enums_def generate_unions_def generate_types_def
        generate_messages_def generate_register_def handlers_trait_def trait_method_def has_vla_def or_no_return_def
        handler_raw_def msg_id_base_def register_messages_def register_head_def register_name_crc_def caller_config_def
        reply_config_def stream_config_def msg_config_def event_api_def empty_parser_def parser_message_def message_new_def)
  then show ?thesis by (cases "generate_rust event_api ''m''") auto
qed

lemma generated_braces_witness: "\<exists>t. generate_rust event_api ''m'' = Inr t \<and> braces t = 1"
proof -
  obtain t where t: "generate_rust event_api ''m'' = Inr t" using event_api_generated by blast
  have "names_ok event_api"
    by (simp add: names_ok_def types_names_ok_def event_api_def empty_parser_def message_names_ok_def text_ok_def
        service_names_ok_def message_new_def simple_field_def sample_field_def field_names_ok_def)
  from generated_braces[OF this _ t] t show ?thesis by (simp add: event_api_def empty_parser_def)
qed

section \<open>Stream messages\<close>

lemma api_parser_new_services:
  assumes "api_parser_new H parse order fname = Some (Inr P)"
  obtains P2 crc where "process_services (order (p_services P2)) crc P2 = Inr P" "p_messages P = p_messages P2"
proof -
  obtain P2 crc where p: "process_services (order (p_services P2)) crc P2 = Inr P"
    using assms by (auto simp: api_parser_new_def res_bind_def split: sum.splits option.splits prod.splits)
  moreover have "p_messages P = p_messages P2"
    using p by (auto simp: process_services_def Let_def split: sum.splits)
  ultimately show ?thesis using that by blast
qed

lemma service_by_caller_distinct:
  "distinct (map caller ss) \<Longrightarrow> s \<in> set ss \<Longrightarrow> service_by_caller ss (caller s) = Some s"
  unfolding service_by_caller_def by (rule map_of_is_SomeI) (auto simp: o_def rev_map[symmetric])

lemma parser_message_None: "parser_message P name = None \<longleftrightarrow> name \<notin> set (map msg_name (p_messages P))"
  by (auto simp: parser_message_def find_None_iff)

lemma service_by_caller_Some: "s \<in> set ss \<Longrightarrow> \<exists>t. service_by_caller ss (caller s) = Some t"
  using service_by_caller_None[of ss "caller s"] by auto

lemma accepted_service_names:
  assumes run: "api_parser_new H parse order fname = Some (Inr P)"
    and order: "\<forall>ss. set (order ss) = caller ` set ss" and s: "s \<in> set (p_services P)"
  shows "parser_message P (caller s) \<noteq> None"
    "distinct (map caller (p_services P)) \<Longrightarrow> reply s \<noteq> ''null'' \<Longrightarrow> parser_message P (reply s) \<noteq> None"
proof -
  obtain P2 crc where p: "process_services (order (p_services P2)) crc P2 = Inr P" "p_messages P = p_messages P2"
    using api_parser_new_services[OF run] by blast
  have "order_ok (order (p_services P2)) P2"
    using order by (simp add: order_ok_def service_by_caller_def dom_map_of_conv_image_fst image_image)
  note c = services_sound[OF this p(1)]
  obtain new where new: "p_services P = p_services P2 @ new"
    "\<forall>s\<in>set new. caller s \<in> set (map msg_name (p_messages P2)) \<and> reply s \<in> set (map msg_name (p_messages P2))"
    using c(2) by blast
  have "caller s \<in> set (map msg_name (p_messages P2))"
    using s new c(1) service_by_caller_Some[of s "p_services P2"] by auto
  then show "parser_message P (caller s) \<noteq> None" using p(2) by (auto simp: parser_message_None)
  assume d: "distinct (map caller (p_services P))" "reply s \<noteq> ''null''"
  have "reply s = ''null'' \<or> reply s \<in> set (map msg_name (p_messages P2))"
  proof (cases "s \<in> set new")
    case False
    with s new(1) have "s \<in> set (p_services P2)" "distinct (map caller (p_services P2))" using d by auto
    from service_by_caller_distinct[OF this(2,1)] c(1) show ?thesis by blast
  qed (use new(2) in blast)
  then show "parser_message P (reply s) \<noteq> None" using p(2) d by (auto simp: parser_message_None)
qed

lemma msg_config_isl: "isl (msg_config P name h) \<longleftrightarrow> parser_message P name = None"
  by (auto simp: msg_config_def split: option.split)

lemma msg_config_unwrap: "only_unwrap (msg_config P name h)"
  by (auto simp: msg_config_def only_unwrap_def lines_def split: option.splits)

lemma trait_method_ok:
  assumes "\<And>m. message_vla P m \<noteq> None" shows "\<not> isl (trait_method P s)"
proof -
  have "\<not> isl (has_vla P m)" for m
    using assms by (cases m) (auto simp: has_vla_def or_no_return_def split: option.split)
  then show ?thesis by (simp add: trait_method_def)
qed

text \<open>C30: For an accepted file, generating the registration code panics exactly when some service names
  a stream message, or a reply other than \<open>null\<close>, that the file does not define; otherwise it
  succeeds.  The parser does not check the stream message of a service; it checks the reply only of
  the last service of each caller, so that the reply of every service is defined when the callers
  are different.\<close>

theorem register_stream_messages:
  assumes run: "api_parser_new H parse order fname = Some (Inr P)"
    and order: "\<forall>ss. set (order ss) = caller ` set ss"
  shows "(if \<exists>s\<in>set (p_services P). (\<exists>sm. stream_message s = Some sm \<and> parser_message P sm = None) \<or>
        reply s \<noteq> ''null'' \<and> parser_message P (reply s) = None
      then generate_register P module = Inl Unwrap_none else \<exists>t. generate_register P module = Inr t) \<and>
    (distinct (map caller (p_services P)) \<longrightarrow>
      list_all (\<lambda>s. reply s = ''null'' \<or> parser_message P (reply s) \<noteq> None) (p_services P))"
proof -
  let ?bad = "\<lambda>s. (\<exists>sm. stream_message s = Some sm \<and> parser_message P sm = None) \<or>
    reply s \<noteq> ''null'' \<and> parser_message P (reply s) = None"
  note names = accepted_service_names[OF run order]
  have vla: "message_vla P m \<noteq> None" for m using vla_search_terminates[OF run] by blast
  have trait: "\<not> isl (handlers_trait P)" by (auto simp: handlers_trait_def gseq_isl trait_method_ok[OF vla])
  have raw: "\<not> isl (gseq (map (handler_raw P) (p_services P)))" by (auto simp: gseq_isl handler_raw_def)
  have configs: "isl (gseq [caller_config P s, reply_config P s, stream_config P s]) \<longleftrightarrow> ?bad s" if "s \<in> set (p_services P)" for s
    using names(1)[OF that]
    by (auto simp: gseq_isl caller_config_def reply_config_def stream_config_def msg_config_isl split: option.split)
  have reg: "isl (register_messages P module) \<longleftrightarrow> (\<exists>s\<in>set (p_services P). ?bad s)"
    using configs by (auto simp: register_messages_def gseq_isl register_head_def register_name_crc_def)
  have isl: "isl (generate_register P module) \<longleftrightarrow> (\<exists>s\<in>set (p_services P). ?bad s)"
    using trait raw reg by (auto simp: generate_register_def gseq_isl msg_id_base_def)
  have "only_unwrap (register_messages P module)"
    unfolding register_messages_def
    by (auto intro!: only_unwrap_gseq msg_config_unwrap split: option.split
        simp: register_head_def register_name_crc_def caller_config_def reply_config_def stream_config_def)
  with trait raw have "only_unwrap (generate_register P module)"
    unfolding generate_register_def
    by (auto intro!: only_unwrap_gseq only_unwrap_ok[OF trait] simp: msg_id_base_def handler_raw_def)
  with isl have "if \<exists>s\<in>set (p_services P). ?bad s then generate_register P module = Inl Unwrap_none
      else \<exists>t. generate_register P module = Inr t"
    by (cases "generate_register P module") (auto simp: only_unwrap_def)
  then show ?thesis using names(2) unfolding list_all_iff by blast
qed

definition stream_api :: "statement list" where
  "stream_api =
     [Define ''get'' [] [sample_field ''u32'' ''client_index'' None] [AutoReply] None,
      Service_stmt [\<lparr>caller = ''get'', reply = ''get_reply'', events = [], stream = True, stream_message = Some ''get_det''\<rparr>]]"

definition stream_parse :: "string \<Rightarrow> api_error + statement list" where
  "stream_parse f = (if f = ''m'' then Inr stream_api else Inl (Io f))"

lemma register_stream_messages_witness:
  "\<exists>P. api_parser_new text_hasher stream_parse (map caller) ''m'' = Some (Inr P) \<and> generate_register P ''m'' = Inl Unwrap_none"
proof -
  have "case api_parser_new text_hasher stream_parse (map caller) ''m'' of
      Some (Inr P) \<Rightarrow> map caller (p_services P) = [''get''] \<and> map stream_message (p_services P) = [Some ''get_det''] \<and>
        map msg_name (p_messages P) = [''get'', ''get_reply''] | _ \<Rightarrow> False"
    by code_simp
  then obtain P where P: "api_parser_new text_hasher stream_parse (map caller) ''m'' = Some (Inr P)"
    "map caller (p_services P) = [''get'']" "map stream_message (p_services P) = [Some ''get_det'']"
    "map msg_name (p_messages P) = [''get'', ''get_reply'']"
    by (auto split: option.splits sum.splits)
  then have "\<exists>s\<in>set (p_services P). \<exists>sm. stream_message s = Some sm \<and> parser_message P sm = None"
    by (auto simp: parser_message_None map_eq_Cons_conv)
  with register_stream_messages[OF P(1), of "''m''"] P(1) show ?thesis by (auto split: if_splits)
qed

section \<open>Sizes of enums\<close>

lemma r_one_of_mem: "r_one_of ts s = Some (x, s') \<Longrightarrow> x \<in> set ts"
proof (induction ts)
  case (Cons t ts)
  then show ?case by (cases "lit t s") (auto simp: r_one_of_def map_filter_simps)
qed (simp add: r_one_of_def map_filter_simps)

lemma enum_endian_error: "enum_endian e no_op swap = Inl x \<Longrightarrow> x = size_error e"
  by (auto simp: enum_endian_def gseq.simps lines_def split: if_splits)

lemma enum_endian_isl: "isl (enum_endian e no_op swap) \<longleftrightarrow> en_size e \<noteq> ''u8'' \<and> \<not> multi_byte_int (en_size e)"
  by (simp add: enum_endian_def gseq_isl)

lemma generate_enum_isl: "isl (generate_enum e) \<longleftrightarrow> en_size e \<noteq> ''u8'' \<and> \<not> multi_byte_int (en_size e)"
  by (simp add: generate_enum_def Let_def gseq_isl enum_endian_isl)

lemma generate_enum_error: "generate_enum e = Inl x \<Longrightarrow> x = size_error e"
  unfolding generate_enum_def Let_def by (drule gseq_Inl) (auto simp: lines_def dest: enum_endian_error[OF sym])

text \<open>Of the sizes the grammar accepts for an \<open>enum\<close>, the generator refuses \<open>i8\<close> and only \<open>i8\<close>.\<close>

theorem enum_size_gap:
  assumes "r_enum_size s = Some (sz, s')" "en_size e = sz"
  shows "if sz = ''i8'' then generate_enum e = Inl (size_error e) else \<exists>t. generate_enum e = Inr t"
proof -
  have "sz \<in> set [''u8'', ''u16'', ''u32'', ''i8'', ''i16'', ''i32'']"
    using assms(1) unfolding r_enum_size_def by (rule r_one_of_mem)
  then have "isl (generate_enum e) \<longleftrightarrow> sz = ''i8''"
    using assms(2) by (auto simp: generate_enum_isl multi_byte_int_def)
  then show ?thesis using generate_enum_error[of e] by (cases "generate_enum e") auto
qed

lemma enum_size_gap_witness:
  "generate_enum \<lparr>en_name = ''level'', en_size = ''i8'', en_variants = []\<rparr> =
     Inl (size_error \<lparr>en_name = ''level'', en_size = ''i8'', en_variants = []\<rparr>)"
proof -
  have "r_enum_size ''i8 {'' = Some (''i8'', '' {'')" by code_simp
  from enum_size_gap[OF this, of "\<lparr>en_name = ''level'', en_size = ''i8'', en_variants = []\<rparr>"] show ?thesis by simp
qed

section \<open>The byte order of an alias\<close>

lemma gseq_middle: "gseq [lines as, gseq [Inr l], lines bs] = Inr y \<Longrightarrow> sublist l y"
  by (auto simp: gseq.simps lines_def)

text \<open>The byte order code of an alias for a multi-byte integer reads the field by the name of the
  alias, which the generated tuple struct does not have, where it writes field \<open>0\<close>.\<close>

theorem alias_swaps_named_field:
  assumes "multi_byte_int (f_type (al_field a))" "f_size (al_field a) = None" "generate_alias P a = Inr t"
    "\<not> List.member (al_flags a) ManualEndian"
  shows "sublist (line [''            self.0 = self.'', f_name (al_field a), ''.to_be();'']) t"
proof -
  have t: "f_type (al_field a) \<notin> {''u8'', ''bool'', ''string''}" using assms(1) by (auto simp: multi_byte_int_def)
  obtain x y where y: "t = x @ y" "generate_endian_swap P (f_name (al_field a)) (Endian_alias (al_field a)) = Inr y"
    using assms(3,4) by (auto simp: generate_alias_def Let_def gseq.simps gbind_Inr)
  have "endian_field P [al_field a] ''0'' (al_field a) = Inr (line [''            self.0 = self.'', f_name (al_field a), ''.to_be();''])"
    using t assms(1,2) by (simp add: endian_field_def endian_int_def lines_def line_def)
  with y(2) have "sublist (line [''            self.0 = self.'', f_name (al_field a), ''.to_be();'']) y"
    by (auto simp: generate_endian_swap_def endian_fields_def endian_name_def dest: gseq_middle)
  then show ?thesis using y(1) sublist_order.order_trans[OF _ sublist_append_leftI] by blast
qed

definition index_alias :: alias_def where
  "index_alias = \<lparr>al_field = sample_field ''u32'' ''interface_index'' None, al_flags = []\<rparr>"

lemma alias_swaps_named_field_witness:
  "\<exists>t. generate_alias (empty_parser :: string api_parser) index_alias = Inr t \<and>
     sublist (line [''            self.0 = self.interface_index.to_be();'']) t"
proof -
  let ?P = "empty_parser :: string api_parser"
  have t: "api_type_name ''u32'' = None" by code_simp
  have "\<not> isl (generate_alias ?P index_alias)"
    by (simp add: generate_alias_def Let_def gseq_isl index_alias_def sample_field_def to_rust_type_def t
        generate_endian_swap_def endian_fields_def endian_field_def endian_int_def multi_byte_int_def)
  then obtain t where "generate_alias ?P index_alias = Inr t" by (cases "generate_alias ?P index_alias") auto
  with alias_swaps_named_field[OF _ _ this] show ?thesis
    by (auto simp: index_alias_def sample_field_def multi_byte_int_def line_def)
qed

end
