(* ===== verification/Api_Json.thy ===== *)
theory Api_Json
  imports Api_Gen Api_Props "HOL-Library.AList"
begin

text \<open>
  The JSON description of an API, \<open>vpp-plugin-api-gen/src/json.rs\<close>, up to the text: \<open>serde_json\<close> prints
  the value built here.  An \<open>IndexMap\<close> is the list of its entries in order; inserting a key again
  replaces the value in its place.
\<close>

section \<open>Values\<close>

datatype json = JNull | JBool bool | JNum nat | JStr string | JArr "json list" | JObj "(string \<times> json) list"

definition index_map :: "('k \<times> 'v) list \<Rightarrow> ('k \<times> 'v) list" where
  "index_map kvs = fold (\<lambda>(k, v) m. AList.update k v m) kvs []"

definition hex_crc :: "nat \<Rightarrow> json" where
  "hex_crc crc = JStr (''0x'' @ hex08 crc)"

definition strip_quotes :: "string \<Rightarrow> string" where
  "strip_quotes s = filter (\<lambda>c. c \<noteq> CHR 0x22) s"

definition option_statements_to_json_map :: "option_statement list \<Rightarrow> json" where
  "option_statements_to_json_map opts =
     JObj (index_map (map (\<lambda>opt. (os_option opt, case os_value opt of None \<Rightarrow> JNull | Some v \<Rightarrow> JStr (strip_quotes v))) opts))"

definition json_size :: "field_size option \<Rightarrow> json list" where
  "json_size sz = (case sz of
      None \<Rightarrow> []
    | Some (Fixed n) \<Rightarrow> [JNum n]
    | Some (Variable None) \<Rightarrow> [JNum 0]
    | Some (Variable (Some v)) \<Rightarrow> [JNum 0, JStr v])"

definition json_field :: "field \<Rightarrow> json" where
  "json_field fd = JArr ([JStr (f_type fd), JStr (f_name fd)] @ json_size (f_size fd) @
     (if f_options fd = [] then [] else [option_statements_to_json_map (f_options fd)]))"

definition json_comment :: "string option \<Rightarrow> (string \<times> json) list" where
  "json_comment c = (case c of None \<Rightarrow> [] | Some c \<Rightarrow> [(''comment'', JStr c)])"

definition json_message :: "message \<Rightarrow> json" where
  "json_message m = JArr ([JStr (msg_name m)] @ map json_field (msg_fields m) @
     [JObj ([(''crc'', hex_crc (msg_crc m)), (''options'', option_statements_to_json_map (msg_options m))] @
        json_comment (msg_comment m))])"

definition json_service :: "service \<Rightarrow> json" where
  "json_service s = JObj ([(''reply'', JStr (reply s))] @
     (if stream s then [(''stream'', JBool (stream s))] else []) @
     (case stream_message s of None \<Rightarrow> [] | Some sm \<Rightarrow> [(''stream_msg'', JStr sm)]) @
     (if events s = [] then [] else [(''events'', JArr (map JStr (events s)))]))"

definition json_alias :: "type_details \<Rightarrow> json" where
  "json_alias td = (case td of
      TD_Typedef t sz \<Rightarrow> JObj ([(''type'', JStr t)] @ (case sz of
          Some (Fixed n) \<Rightarrow> [(''length'', JNum n)]
        | Some (Variable None) \<Rightarrow> [(''length'', JNum 0)]
        | _ \<Rightarrow> []))
    | _ \<Rightarrow> JNull)"

definition json_variant :: "enum_variant \<Rightarrow> json" where
  "json_variant v = JArr [JStr (ev_id v), JNum (ev_value v)]"

definition json_enum_info :: "string \<Rightarrow> json" where
  "json_enum_info sz = JObj [(''enumtype'', JStr sz)]"

text \<open>\<open>None\<close> is the \<open>unreachable!()\<close> for an alias.\<close>

definition json_type_entry :: "string \<Rightarrow> type_details \<Rightarrow> json option" where
  "json_type_entry name td = (case td of
      TD_TypedefBlock fds \<Rightarrow> Some (JArr (JStr name # map json_field fds))
    | TD_Typedef t sz \<Rightarrow> None
    | TD_Union fds \<Rightarrow> Some (JArr (JStr name # map json_field fds))
    | TD_Enum sz vs \<Rightarrow> Some (JArr (JStr name # map json_variant vs @ [json_enum_info sz]))
    | TD_EnumFlag sz vs \<Rightarrow> Some (JArr (JStr name # map json_variant vs @ [json_enum_info sz])))"

section \<open>The file\<close>

text \<open>\<open>global_types\<close>: the type table in the order of registration, which \<open>keys\<close> gives.\<close>

definition global_types :: "string list \<Rightarrow> 'h api_parser \<Rightarrow> (string \<times> type_details) list" where
  "global_types keys P = List.map_filter (\<lambda>n. map_option (\<lambda>ty. (n, ty_details ty)) (global_types_by_name P n)) keys"

definition is_block :: "type_details \<Rightarrow> bool" where
  "is_block td = (case td of TD_TypedefBlock _ \<Rightarrow> True | _ \<Rightarrow> False)"

definition is_alias :: "type_details \<Rightarrow> bool" where
  "is_alias td = (case td of TD_Typedef _ _ \<Rightarrow> True | _ \<Rightarrow> False)"

definition is_union :: "type_details \<Rightarrow> bool" where
  "is_union td = (case td of TD_Union _ \<Rightarrow> True | _ \<Rightarrow> False)"

definition is_enum :: "type_details \<Rightarrow> bool" where
  "is_enum td = (case td of TD_Enum _ _ \<Rightarrow> True | _ \<Rightarrow> False)"

definition is_enumflag :: "type_details \<Rightarrow> bool" where
  "is_enumflag td = (case td of TD_EnumFlag _ _ \<Rightarrow> True | _ \<Rightarrow> False)"

definition entries_of :: "(type_details \<Rightarrow> bool) \<Rightarrow> string list \<Rightarrow> 'h api_parser \<Rightarrow> (string \<times> type_details) list" where
  "entries_of p keys P = filter (\<lambda>(n, td). p td) (global_types keys P)"

fun json_entries :: "(string \<times> type_details) list \<Rightarrow> json list option" where
  "json_entries [] = Some []"
| "json_entries ((n, td) # ents) = do { j \<leftarrow> json_type_entry n td; js \<leftarrow> json_entries ents; Some (j # js) }"

definition generate_json :: "string list \<Rightarrow> 'h api_parser \<Rightarrow> json option" where
  "generate_json keys P = do {
     types \<leftarrow> json_entries (entries_of is_block keys P);
     unions \<leftarrow> json_entries (entries_of is_union keys P);
     enums \<leftarrow> json_entries (entries_of is_enum keys P);
     enumflags \<leftarrow> json_entries (entries_of is_enumflag keys P);
     Some (JObj [
       (''types'', JArr types),
       (''messages'', JArr (map json_message (p_messages P))),
       (''unions'', JArr unions),
       (''enums'', JArr enums),
       (''enumflags'', JArr enumflags),
       (''services'', JObj (index_map (map (\<lambda>s. (caller s, json_service s)) (p_services P)))),
       (''options'', option_statements_to_json_map (p_options P)),
       (''aliases'', JObj (index_map (map (\<lambda>(n, td). (n, json_alias td)) (entries_of is_alias keys P)))),
       (''vl_api_version'', hex_crc (p_file_crc P)),
       (''imports'', JArr (map JStr (p_imports P))),
       (''counters'', JArr []),
       (''paths'', JArr [])])
   }"

section \<open>Reading it back\<close>

definition json_name :: "json \<Rightarrow> string" where
  "json_name j = (case j of JArr (JStr n # _) \<Rightarrow> n | _ \<Rightarrow> [])"

definition section_names :: "json \<Rightarrow> string \<Rightarrow> string list" where
  "section_names j sec = (case j of
      JObj kvs \<Rightarrow> (case map_of kvs sec of Some (JArr js) \<Rightarrow> map json_name js | Some (JObj ents) \<Rightarrow> map fst ents | _ \<Rightarrow> [])
    | _ \<Rightarrow> [])"

lemma json_size_eq:
  "json_size sz @ (if e then [] else [JObj a]) = json_size sz' @ (if e' then [] else [JObj b]) \<Longrightarrow>
    sz = sz' \<or> {sz, sz'} = {Some (Fixed 0), Some (Variable None)}"
  by (auto simp: json_size_def split: option.splits field_size.splits if_splits)

lemma json_field_eq:
  assumes "json_field f = json_field g"
  shows "f_type f = f_type g \<and> f_name f = f_name g \<and>
    (f_size f = f_size g \<or> {f_size f, f_size g} = {Some (Fixed 0), Some (Variable None)})"
proof (intro conjI json_size_eq)
  show "f_type f = f_type g" "f_name f = f_name g" using assms by (simp_all add: json_field_def)
  show "json_size (f_size f) @ (if f_options f = [] then [] else [JObj (index_map (map (\<lambda>opt. (os_option opt,
        case os_value opt of None \<Rightarrow> JNull | Some v \<Rightarrow> JStr (strip_quotes v))) (f_options f)))]) =
      json_size (f_size g) @ (if f_options g = [] then [] else [JObj (index_map (map (\<lambda>opt. (os_option opt,
        case os_value opt of None \<Rightarrow> JNull | Some v \<Rightarrow> JStr (strip_quotes v))) (f_options g)))])"
    using assms by (auto simp: json_field_def option_statements_to_json_map_def[symmetric] split: if_splits)
qed

lemma index_map_distinct:
  assumes "distinct (map fst kvs)" shows "index_map kvs = kvs"
proof -
  have "distinct (map fst (m @ kvs)) \<Longrightarrow> fold (\<lambda>(k, v) m. AList.update k v m) kvs m = m @ kvs" for m :: "('a \<times> 'b) list"
  proof (induction kvs arbitrary: m)
    case (Cons kv kvs)
    obtain k v where kv: "kv = (k, v)" by force
    have "AList.update k v m = m @ [(k, v)]"
      using Cons.prems kv by (induction m) auto
    with Cons.IH[of "m @ [(k, v)]"] Cons.prems kv show ?case by simp
  qed simp
  from this[of "[]"] assms show ?thesis by (simp add: index_map_def)
qed

lemma json_entries_ok:
  "list_all (\<lambda>(n, td). \<not> is_alias td) ents \<Longrightarrow> \<exists>js. json_entries ents = Some js \<and> map json_name js = map fst ents"
proof (induction ents)
  case (Cons e ents)
  obtain n td where e: "e = (n, td)" by force
  with Cons.prems have "\<exists>j. json_type_entry n td = Some j \<and> json_name j = n"
    by (cases td) (simp_all add: json_type_entry_def is_alias_def json_name_def)
  with Cons e show ?case by auto
qed simp

lemma entries_of_not_alias:
  "(\<And>td. p td \<Longrightarrow> \<not> is_alias td) \<Longrightarrow> list_all (\<lambda>(n, td). \<not> is_alias td) (entries_of p keys P)"
  by (auto simp: entries_of_def list_all_iff)

lemma kinds_partition:
  "mset (map fst (filter (\<lambda>(n, td). is_block td) ents)) + mset (map fst (filter (\<lambda>(n, td). is_union td) ents)) +
     mset (map fst (filter (\<lambda>(n, td). is_enum td) ents)) + mset (map fst (filter (\<lambda>(n, td). is_enumflag td) ents)) +
     mset (map fst (filter (\<lambda>(n, td). is_alias td) ents)) = mset (map fst ents)"
proof (induction ents)
  case (Cons e ents)
  then show ?case
    by (cases e; cases "snd e") (auto simp: is_block_def is_union_def is_enum_def is_enumflag_def is_alias_def)
qed simp

lemma global_types_names:
  "set keys \<subseteq> dom (global_types_by_name P) \<Longrightarrow> map fst (global_types keys P) = keys"
  by (induction keys) (auto simp: global_types_def map_filter_simps)

text \<open>The JSON description lists every registered type, also an imported one, exactly once, in one of
  the sections for structs, unions, enums, flags and aliases, and building it never reaches the
  \<open>unreachable!()\<close> of an alias among the others.\<close>

theorem json_types_once:
  assumes "set keys = dom (global_types_by_name P)" "distinct keys"
  shows "\<exists>j. generate_json keys P = Some j \<and>
    mset (section_names j ''types'') + mset (section_names j ''unions'') + mset (section_names j ''enums'') +
    mset (section_names j ''enumflags'') + mset (section_names j ''aliases'') = mset_set (dom (global_types_by_name P))"
proof -
  have kinds: "is_block td \<Longrightarrow> \<not> is_alias td" "is_union td \<Longrightarrow> \<not> is_alias td" "is_enum td \<Longrightarrow> \<not> is_alias td"
    "is_enumflag td \<Longrightarrow> \<not> is_alias td" for td
    by (cases td; simp add: is_block_def is_union_def is_enum_def is_enumflag_def is_alias_def)+
  obtain ts where ts: "json_entries (entries_of is_block keys P) = Some ts" "map json_name ts = map fst (entries_of is_block keys P)"
    using json_entries_ok[OF entries_of_not_alias[of is_block keys P, OF kinds(1)]] by blast
  obtain us where us: "json_entries (entries_of is_union keys P) = Some us" "map json_name us = map fst (entries_of is_union keys P)"
    using json_entries_ok[OF entries_of_not_alias[of is_union keys P, OF kinds(2)]] by blast
  obtain es where es: "json_entries (entries_of is_enum keys P) = Some es" "map json_name es = map fst (entries_of is_enum keys P)"
    using json_entries_ok[OF entries_of_not_alias[of is_enum keys P, OF kinds(3)]] by blast
  obtain fs where fs: "json_entries (entries_of is_enumflag keys P) = Some fs" "map json_name fs = map fst (entries_of is_enumflag keys P)"
    using json_entries_ok[OF entries_of_not_alias[of is_enumflag keys P, OF kinds(4)]] by blast
  have names: "map fst (global_types keys P) = keys" using assms(1) by (intro global_types_names) simp
  have "distinct (map fst (entries_of is_alias keys P))"
    using assms(2) names unfolding entries_of_def by (intro distinct_map_filter) simp
  then have "map fst (index_map (map (\<lambda>(n, td). (n, json_alias td)) (entries_of is_alias keys P))) = map fst (entries_of is_alias keys P)"
    by (subst index_map_distinct) (simp_all add: o_def case_prod_unfold)
  then obtain j where "generate_json keys P = Some j" "section_names j ''types'' = map fst (entries_of is_block keys P)"
    "section_names j ''unions'' = map fst (entries_of is_union keys P)" "section_names j ''enums'' = map fst (entries_of is_enum keys P)"
    "section_names j ''enumflags'' = map fst (entries_of is_enumflag keys P)" "section_names j ''aliases'' = map fst (entries_of is_alias keys P)"
    using ts us es fs by (simp add: generate_json_def section_names_def)
  moreover have "mset keys = mset_set (dom (global_types_by_name P))" using mset_set_set[OF assms(2)] assms(1) by simp
  ultimately show ?thesis
    using kinds_partition[of "global_types keys P"] names unfolding entries_of_def by (intro exI[of _ j]) simp
qed

definition addr_types :: "string api_parser" where
  "addr_types = empty_parser\<lparr>global_types_by_name :=
     [''mac'' \<mapsto> \<lparr>ty_crc = [], ty_details = TD_Typedef ''u8'' (Some (Fixed 6)), ty_import_filename = None\<rparr>,
      ''addr'' \<mapsto> \<lparr>ty_crc = [], ty_details = TD_TypedefBlock [sample_field ''u8'' ''len'' None], ty_import_filename = None\<rparr>]\<rparr>"

lemma json_types_once_witness:
  "\<exists>j. generate_json [''mac'', ''addr''] addr_types = Some j \<and>
    mset (section_names j ''types'') + mset (section_names j ''unions'') + mset (section_names j ''enums'') +
    mset (section_names j ''enumflags'') + mset (section_names j ''aliases'') = mset_set {''mac'', ''addr''}"
proof -
  have d: "dom (global_types_by_name addr_types) = {''mac'', ''addr''}" by (auto simp: addr_types_def split: if_splits)
  show ?thesis using json_types_once[of "[''mac'', ''addr'']" addr_types] unfolding d by simp
qed

end
