(* ===== verification/Api_Build.thy ===== *)
theory Api_Build
  imports Api_Gen_Register Api_Json
begin

text \<open>
  The front end of the generator, \<open>Builder\<close> of \<open>vpp-plugin-api-gen/src/lib.rs\<close>: the names of the output
  files, the directives for cargo, the order in which files are created and written, and the errors.
\<close>

section \<open>Paths\<close>

text \<open>The last component of a path: empty components and \<open>.\<close> inside a path are none.\<close>

definition path_last :: "string \<Rightarrow> string option" where
  "path_last p =
     (let cs = filter (\<lambda>c. c \<noteq> [] \<and> c \<noteq> ''.'') (split_on CHR ''/'' p) in
      if cs \<noteq> [] then Some (last cs)
      else if p = [] then None
      else if hd p = CHR ''/'' then Some ''/''
      else Some ''.'')"

text \<open>\<open>file_stem\<close> of a component: what is before its last dot, unless the dot is its first character.\<close>

definition file_stem :: "string \<Rightarrow> string option" where
  "file_stem c =
     (if c = ''/'' \<or> c = ''.'' \<or> c = ''..'' then None
      else
        let (after, before) = (takeWhile (\<lambda>x. x \<noteq> CHR ''.'') (rev c), dropWhile (\<lambda>x. x \<noteq> CHR ''.'') (rev c)) in
        if length before \<le> 1 then Some c else Some (rev (tl before)))"

definition path_join :: "string \<Rightarrow> string \<Rightarrow> string" where
  "path_join dir name = (if dir = [] then name else if last dir = CHR ''/'' then dir @ name else dir @ ''/'' @ name)"

section \<open>The builder\<close>

datatype build_error = Parser_error api_error | Io_error | Unimplemented_error string

text \<open>A file that is being written when an error stops the generator holds some of its text.\<close>

datatype file_content = Written string | Partial

text \<open>
  The host: whether cargo runs the program, which directories and files can be created and written, and
  \<open>serde_json\<close>.
\<close>

record build_host =
  bh_in_build_script :: bool
  bh_dir_ok :: "string \<Rightarrow> bool"
  bh_create_ok :: "string \<Rightarrow> bool"
  bh_write_ok :: "string \<Rightarrow> bool"
  bh_json_text :: "json \<Rightarrow> string"

record build_state =
  bs_files :: "string \<rightharpoonup> file_content"
  bs_dirs :: "string set"
  bs_stdout :: "string list"

record 'h builder =
  bu_parser :: "'h api_parser"
  bu_module :: string
  bu_output_file :: string
  bu_output_json_file :: string

definition directive :: "string \<Rightarrow> string" where
  "directive path = ''cargo:cargo-rerun-if-changed='' @ path"

definition print_directives :: "build_host \<Rightarrow> string list \<Rightarrow> build_state \<Rightarrow> build_state" where
  "print_directives B paths s = (if bh_in_build_script B then s\<lparr>bs_stdout := bs_stdout s @ map directive paths\<rparr> else s)"

definition file_create :: "build_host \<Rightarrow> string \<Rightarrow> build_state \<Rightarrow> build_error + build_state" where
  "file_create B path s =
     (if bh_create_ok B path then Inr (s\<lparr>bs_files := (bs_files s)(path \<mapsto> Written [])\<rparr>) else Inl Io_error)"

text \<open>
  \<open>None\<close> is a panic, or imports that are followed without end; otherwise the result and what was done.
\<close>

definition builder_new ::
  "build_host \<Rightarrow> 'h hasher \<Rightarrow> (string \<Rightarrow> api_error + statement list) \<Rightarrow> (service list \<Rightarrow> string list) \<Rightarrow> string \<Rightarrow> string \<Rightarrow>
    build_state \<Rightarrow> ((build_error + 'h builder) \<times> build_state) option" where
  "builder_new B H parse order input_file output_dir s =
     (let s = print_directives B [input_file] s in
      do {
        input_file_name \<leftarrow> path_last input_file;
        module \<leftarrow> file_stem input_file_name;
        if \<not> bh_dir_ok B output_dir then Some (Inl Io_error, s)
        else
          let s = s\<lparr>bs_dirs := insert output_dir (bs_dirs s)\<rparr>;
              output_file = path_join output_dir (module @ ''_api.rs'');
              output_json_file = path_join output_dir (module @ ''.api.json'')
          in do {
            r \<leftarrow> api_parser_new H parse order input_file;
            case r of
              Inl e \<Rightarrow> Some (Inl (Parser_error e), s)
            | Inr P \<Rightarrow>
                let s = print_directives B (p_imports P) s in
                (case file_create B output_file s of
                   Inl e \<Rightarrow> Some (Inl e, s)
                 | Inr s \<Rightarrow>
                     (case file_create B output_json_file s of
                        Inl e \<Rightarrow> Some (Inl e, s)
                      | Inr s \<Rightarrow> Some (Inr \<lparr>bu_parser = P, bu_module = module, bu_output_file = output_file,
                          bu_output_json_file = output_json_file\<rparr>, s)))
          }
      })"

definition write_file :: "string \<Rightarrow> file_content \<Rightarrow> build_state \<Rightarrow> build_state" where
  "write_file path c s = s\<lparr>bs_files := (bs_files s)(path \<mapsto> c)\<rparr>"

text \<open>
  \<open>keys\<close> is the order in which the hash map of the types is iterated.  Every error of the generator comes after
  the first line it writes, so that a failing write is reported first.
\<close>

definition builder_generate ::
  "build_host \<Rightarrow> string list \<Rightarrow> 'h builder \<Rightarrow> build_state \<Rightarrow> ((build_error + unit) \<times> build_state) option" where
  "builder_generate B keys b s =
     (let P = bu_parser b; out = bu_output_file b; out_json = bu_output_json_file b in
      do {
        j \<leftarrow> generate_json keys P;
        if \<not> bh_write_ok B out_json then Some (Inl Io_error, write_file out_json Partial s)
        else
          let s = write_file out_json (Written (bh_json_text B j)) s in
          if \<not> bh_write_ok B out \<and> generate_rust P (bu_module b) \<noteq> Inr [] then Some (Inl Io_error, write_file out Partial s)
          else
            (case generate_rust P (bu_module b) of
               Inr text \<Rightarrow> Some (Inr (), write_file out (Written text) s)
             | Inl (Parser_err e) \<Rightarrow> Some (Inl (Parser_error e), write_file out Partial s)
             | Inl (Unimplemented what) \<Rightarrow> Some (Inl (Unimplemented_error what), write_file out Partial s)
             | Inl Unwrap_none \<Rightarrow> None
             | Inl No_return \<Rightarrow> None)
      })"

text \<open>A build script: \<open>new\<close>, then \<open>generate\<close>.\<close>

definition build ::
  "build_host \<Rightarrow> 'h hasher \<Rightarrow> (string \<Rightarrow> api_error + statement list) \<Rightarrow> (service list \<Rightarrow> string list) \<Rightarrow> string list \<Rightarrow>
    string \<Rightarrow> string \<Rightarrow> build_state \<Rightarrow> ((build_error + unit) \<times> build_state) option" where
  "build B H parse order keys input_file output_dir s =
     do {
       (r, s) \<leftarrow> builder_new B H parse order input_file output_dir s;
       case r of Inl e \<Rightarrow> Some (Inl e, s) | Inr b \<Rightarrow> builder_generate B keys b s
     }"

section \<open>What a build leaves behind\<close>

text \<open>What cargo does with the output of a build script: it watches the paths of the directive \<open>rerun-if-changed\<close>.\<close>

definition watched :: "string list \<Rightarrow> string list" where
  "watched ls = map (drop (length ''cargo:rerun-if-changed='')) (filter (\<lambda>l. take (length ''cargo:rerun-if-changed='') l = ''cargo:rerun-if-changed='') ls)"

lemma directive_not_watched: "watched (map directive ps) = []"
  by (induction ps) (simp_all add: watched_def directive_def)

lemma watched_append: "watched (as @ bs) = watched as @ watched bs"
  by (simp add: watched_def)

lemma output_names_differ: "path_join dir (m @ ''_api.rs'') \<noteq> path_join dir (m @ ''.api.json'')"
proof
  assume "path_join dir (m @ ''_api.rs'') = path_join dir (m @ ''.api.json'')"
  then have "last (path_join dir (m @ ''_api.rs'')) = last (path_join dir (m @ ''.api.json''))" by simp
  then show False by (simp add: path_join_def split: if_splits)
qed

definition host_ok :: "build_host \<Rightarrow> bool" where
  "host_ok B \<longleftrightarrow> (\<forall>p. bh_dir_ok B p \<and> bh_create_ok B p \<and> bh_write_ok B p)"

text \<open>What the Rust file holds and what the build returns, for the outcome of the generator.\<close>

definition rust_outcome :: "gen \<Rightarrow> ((build_error + unit) \<times> file_content) option" where
  "rust_outcome g =
     (case g of
        Inr text \<Rightarrow> Some (Inr (), Written text)
      | Inl (Parser_err e) \<Rightarrow> Some (Inl (Parser_error e), Partial)
      | Inl (Unimplemented what) \<Rightarrow> Some (Inl (Unimplemented_error what), Partial)
      | Inl Unwrap_none \<Rightarrow> None
      | Inl No_return \<Rightarrow> None)"

definition built :: "build_host \<Rightarrow> 'h api_parser \<Rightarrow> string \<Rightarrow> string \<Rightarrow> string \<Rightarrow> json \<Rightarrow> file_content \<Rightarrow> build_state \<Rightarrow> build_state" where
  "built B P m dir input_file j c s =
     (let s = print_directives B (p_imports P) (print_directives B [input_file] s) in
      s\<lparr>bs_dirs := insert dir (bs_dirs s),
        bs_files := ((bs_files s)(path_join dir (m @ ''_api.rs'') \<mapsto> Written [], path_join dir (m @ ''.api.json'') \<mapsto> Written []))
          (path_join dir (m @ ''.api.json'') \<mapsto> Written (bh_json_text B j), path_join dir (m @ ''_api.rs'') \<mapsto> c)\<rparr>)"

lemma build_equation:
  assumes "host_ok B" "path_last input_file = Some f" "file_stem f = Some m" "api_parser_new H parse order input_file = Some (Inr P)"
  shows "build B H parse order keys input_file dir s =
    (case generate_json keys P of None \<Rightarrow> None
     | Some j \<Rightarrow> map_option (\<lambda>(r, c). (r, built B P m dir input_file j c s)) (rust_outcome (generate_rust P m)))"
  using assms
  by (cases "generate_rust P m")
    (auto simp: build_def builder_new_def builder_generate_def host_ok_def file_create_def write_file_def print_directives_def
      rust_outcome_def built_def Let_def split: option.splits gen_error.splits)

text \<open>C21: A build by a host without errors panics or does not return exactly when the path of the input
  has no file stem, the analysis of the file does not return, or the generation of the JSON or of the
  Rust code panics or does not return.  Otherwise a file that is refused touches no file, and the
  result is the error of the analysis; for a file that is accepted exactly \<open><stem>_api.rs\<close> and
  \<open><stem>.api.json\<close> are written, the first one completely unless the generator reports an error, which
  is the result.  In a build script the directives printed name the input and then its imports, but
  none of them is one that cargo watches.\<close>

theorem build_exact:
  assumes "host_ok B"
  shows "case build B H parse order keys input_file dir s of
      None \<Rightarrow> Option.bind (path_last input_file) file_stem = None \<or> api_parser_new H parse order input_file = None \<or>
        (\<exists>P m. Option.bind (path_last input_file) file_stem = Some m \<and> api_parser_new H parse order input_file = Some (Inr P) \<and>
          (generate_json keys P = None \<or> rust_outcome (generate_rust P m) = None))
    | Some (r, t) \<Rightarrow>
        watched (bs_stdout t) = watched (bs_stdout s) \<and>
        (\<exists>m. Option.bind (path_last input_file) file_stem = Some m \<and>
          (case api_parser_new H parse order input_file of
             None \<Rightarrow> False
           | Some (Inl e) \<Rightarrow> r = Inl (Parser_error e) \<and> bs_files t = bs_files s \<and>
               bs_stdout t = bs_stdout s @ (if bh_in_build_script B then [directive input_file] else [])
           | Some (Inr P) \<Rightarrow>
               (\<exists>j c. generate_json keys P = Some j \<and> rust_outcome (generate_rust P m) = Some (r, c) \<and>
                 bs_files t = (bs_files s)(path_join dir (m @ ''_api.rs'') \<mapsto> c, path_join dir (m @ ''.api.json'') \<mapsto> Written (bh_json_text B j)) \<and>
                 path_join dir (m @ ''_api.rs'') \<noteq> path_join dir (m @ ''.api.json'') \<and>
                 bs_stdout t = bs_stdout s @ (if bh_in_build_script B then map directive (input_file # p_imports P) else []))))"
proof (cases "Option.bind (path_last input_file) file_stem")
  case None
  then show ?thesis by (auto simp: build_def builder_new_def Let_def split: bind_splits)
next
  case (Some m)
  then obtain f where f: "path_last input_file = Some f" "file_stem f = Some m" by (auto simp: bind_eq_Some_conv)
  have quiet: "watched (bs_stdout (print_directives B ps (print_directives B qs s))) = watched (bs_stdout s)"
    "watched (bs_stdout (print_directives B qs s)) = watched (bs_stdout s)" for ps qs
    by (simp_all add: print_directives_def watched_append directive_not_watched)
  show ?thesis
  proof (cases "api_parser_new H parse order input_file")
    case None
    then show ?thesis using f assms(1) by (simp add: build_def builder_new_def host_ok_def Let_def)
  next
    case (Some r)
    show ?thesis
    proof (cases r)
      case (Inl e)
      then show ?thesis using f assms Some quiet(2) [of "[input_file]"]
        by (simp add: build_def builder_new_def host_ok_def Let_def) (simp add: print_directives_def)
    next
      case (Inr P)
      have files: "(m1(a \<mapsto> Written [], b \<mapsto> Written []))(b \<mapsto> y, a \<mapsto> x) = (m1 :: string \<rightharpoonup> file_content)(a \<mapsto> x, b \<mapsto> y)"
        if "a \<noteq> b" for m1 a b x y using that by (simp add: fun_eq_iff)
      note analysed = Some [unfolded Inr]
      note eq = build_equation [OF assms(1) f Some [unfolded Inr], of keys dir s]
      show ?thesis
      proof (cases "Option.bind (generate_json keys P) (\<lambda>j. map_option (Pair j) (rust_outcome (generate_rust P m)))")
        case None
        then have "generate_json keys P = None \<or> rust_outcome (generate_rust P m) = None" by (auto simp: bind_eq_None_conv)
        then have "build B H parse order keys input_file dir s = None" unfolding eq by (auto split: option.splits)
        then show ?thesis using \<open>generate_json keys P = None \<or> rust_outcome (generate_rust P m) = None\<close> analysed f by auto
      next
        case (Some x)
        then obtain j q c where o: "generate_json keys P = Some j" "rust_outcome (generate_rust P m) = Some (q, c)"
          by (auto simp: bind_eq_Some_conv)
        show ?thesis unfolding eq
          using o quiet(1) [of "p_imports P" "[input_file]"] files [OF output_names_differ] output_names_differ
            analysed f
          by (simp add: built_def) (auto simp: print_directives_def)
      qed
    qed
  qed
qed

definition sample_build_host :: build_host where
  "sample_build_host = \<lparr>bh_in_build_script = True, bh_dir_ok = (\<lambda>_. True), bh_create_ok = (\<lambda>_. True), bh_write_ok = (\<lambda>_. True),
     bh_json_text = (\<lambda>_. ''{}'')\<rparr>"

definition sample_build_state :: build_state where
  "sample_build_state = \<lparr>bs_files = [''out/test_api.rs'' \<mapsto> Partial], bs_dirs = {}, bs_stdout = []\<rparr>"

lemma build_exact_witness:
  "\<exists>t. build sample_build_host text_hasher (\<lambda>_. Inr []) (\<lambda>_. []) [] ''api/test.api'' ''out'' sample_build_state = Some (Inr (), t) \<and>
     bs_files t ''out/test_api.rs'' = Some (Written []) \<and> bs_files t ''out/test.api.json'' = Some (Written ''{}'') \<and> watched (bs_stdout t) = []"
proof -
  have stem: "Option.bind (path_last ''api/test.api'') file_stem = Some ''test''" by code_simp
  have names: "path_join ''out'' (''test'' @ ''_api.rs'') = ''out/test_api.rs''" "path_join ''out'' (''test'' @ ''.api.json'') = ''out/test.api.json''"
    by code_simp+
  obtain P where P: "api_parser_new text_hasher (\<lambda>_. Inr []) (\<lambda>_. []) ''api/test.api'' = Some (Inr P)"
    "generate_rust P ''test'' = Inr []" "\<exists>j. generate_json [] P = Some j"
    by (simp add: api_parser_new_def do_imports.simps process_statements_def process_services_def empty_parser_def
        generate_rust_def generate_aliases_def generate_enums_def generate_unions_def generate_types_def generate_messages_def
        generate_register_def generate_json_def entries_of_def global_types_def lines_def Let_def)
  have ok: "host_ok sample_build_host" by (simp add: host_ok_def sample_build_host_def)
  have quiet: "watched (bs_stdout sample_build_state) = []" by (simp add: sample_build_state_def watched_def)
  show ?thesis
    using build_exact [OF ok, where H = text_hasher and parse = "\<lambda>_. Inr []" and order = "\<lambda>_. []" and keys = "[]" and
        input_file = "''api/test.api''" and dir = "''out''" and s = sample_build_state]
      stem P quiet
    by (auto simp: names [simplified] rust_outcome_def sample_build_host_def split: option.splits)
qed

end
