(* ===== verification/Unaligned.thy ===== *)
theory Unaligned
  imports Vpp_Vec Rust_Str "HOL-Library.Signed_Division"
begin

text \<open>
  The integers of API messages that need no alignment, \<open>vpp-plugin/src/vlibapi/num_unaligned.rs\<close>: one macro
  generates a wrapper for each primitive type.  An integer is its value, the primitive type a
  description of its width and sign.  \<open>le\<close> is whether the target is little-endian, \<open>dbg\<close> whether
  arithmetic is checked.
\<close>

section \<open>Primitive integers\<close>

record int_type =
  it_bytes :: nat
  it_signed :: bool

definition it_modulus :: "int_type \<Rightarrow> int" where
  "it_modulus ty = 2 ^ (8 * it_bytes ty)"

definition it_min :: "int_type \<Rightarrow> int" where
  "it_min ty = (if it_signed ty then - (it_modulus ty div 2) else 0)"

definition it_max :: "int_type \<Rightarrow> int" where
  "it_max ty = (if it_signed ty then it_modulus ty div 2 - 1 else it_modulus ty - 1)"

definition in_range :: "int_type \<Rightarrow> int \<Rightarrow> bool" where
  "in_range ty v \<longleftrightarrow> it_min ty \<le> v \<and> v \<le> it_max ty"

text \<open>The bits of a value as a number, and back.\<close>

definition to_bits :: "int_type \<Rightarrow> int \<Rightarrow> nat" where
  "to_bits ty v = nat (v mod it_modulus ty)"

definition from_bits :: "int_type \<Rightarrow> nat \<Rightarrow> int" where
  "from_bits ty n = (if int n \<le> it_max ty then int n else int n - it_modulus ty)"

fun le_bytes :: "nat \<Rightarrow> nat \<Rightarrow> nat list" where
  "le_bytes 0 x = []"
| "le_bytes (Suc n) x = x mod 256 # le_bytes n (x div 256)"

fun of_le :: "nat list \<Rightarrow> nat" where
  "of_le [] = 0"
| "of_le (b # bs) = b + 256 * of_le bs"

definition prim_swap_bytes :: "int_type \<Rightarrow> int \<Rightarrow> int" where
  "prim_swap_bytes ty v = from_bits ty (of_le (rev (le_bytes (it_bytes ty) (to_bits ty v))))"

definition prim_to_be :: "bool \<Rightarrow> int_type \<Rightarrow> int \<Rightarrow> int" where
  "prim_to_be le ty v = (if le then prim_swap_bytes ty v else v)"

definition prim_from_be :: "bool \<Rightarrow> int_type \<Rightarrow> int \<Rightarrow> int" where
  "prim_from_be le ty v = (if le then prim_swap_bytes ty v else v)"

text \<open>The bytes of a value in memory.\<close>

definition mem_bytes :: "bool \<Rightarrow> int_type \<Rightarrow> int \<Rightarrow> nat list" where
  "mem_bytes le ty v = (let bs = le_bytes (it_bytes ty) (to_bits ty v) in if le then bs else rev bs)"

text \<open>The result \<open>r\<close> of an operation: a panic outside of the range in checked builds, wrapped otherwise.\<close>

definition prim_arith :: "bool \<Rightarrow> int_type \<Rightarrow> int \<Rightarrow> fault + int" where
  "prim_arith dbg ty r =
     (if in_range ty r then Inr r else if dbg then Inl Panic else Inr (from_bits ty (to_bits ty r)))"

text \<open>Division rounds towards zero; by zero, and of the least value by \<open>-1\<close>, it panics in every build.\<close>

definition prim_div :: "int_type \<Rightarrow> int \<Rightarrow> int \<Rightarrow> fault + int" where
  "prim_div ty a b = (if b = 0 \<or> \<not> in_range ty (a sdiv b) then Inl Panic else Inr (a sdiv b))"

datatype int_error = Empty | InvalidDigit | PosOverflow | NegOverflow

fun parse_digits :: "int_type \<Rightarrow> bool \<Rightarrow> int \<Rightarrow> string \<Rightarrow> int_error + int" where
  "parse_digits ty pos acc [] = Inr acc"
| "parse_digits ty pos acc (c # cs) =
     (let overflow = (if pos then PosOverflow else NegOverflow); m = acc * 10;
          r = (if pos then m + int (digit_val c) else m - int (digit_val c)) in
      if \<not> is_digit c then Inl InvalidDigit
      else if \<not> in_range ty m then Inl overflow
      else if \<not> in_range ty r then Inl overflow
      else parse_digits ty pos r cs)"

definition prim_from_str :: "int_type \<Rightarrow> string \<Rightarrow> int_error + int" where
  "prim_from_str ty src =
     (case src of
        [] \<Rightarrow> Inl Empty
      | c # cs \<Rightarrow>
          if (c = CHR ''+'' \<or> c = CHR ''-'') \<and> cs = [] then Inl InvalidDigit
          else if c = CHR ''+'' then parse_digits ty True 0 cs
          else if c = CHR ''-'' \<and> it_signed ty then parse_digits ty False 0 cs
          else parse_digits ty True 0 src)"

definition prim_fmt :: "int \<Rightarrow> string" where
  "prim_fmt v = (if v < 0 then CHR ''-'' # show_nat (nat (- v)) else show_nat (nat v))"

section \<open>The wrapper\<close>

datatype unaligned = Unaligned (get: int)

definition unaligned_new :: "int \<Rightarrow> unaligned" where
  "unaligned_new v = Unaligned v"

definition swap_bytes :: "int_type \<Rightarrow> unaligned \<Rightarrow> unaligned" where
  "swap_bytes ty u = Unaligned (prim_swap_bytes ty (get u))"

definition to_be :: "bool \<Rightarrow> int_type \<Rightarrow> unaligned \<Rightarrow> unaligned" where
  "to_be le ty u = Unaligned (prim_to_be le ty (get u))"

definition from_be :: "bool \<Rightarrow> int_type \<Rightarrow> unaligned \<Rightarrow> unaligned" where
  "from_be le ty u = unaligned_new (prim_from_be le ty (get u))"

definition unaligned_fmt :: "unaligned \<Rightarrow> string" where
  "unaligned_fmt u = prim_fmt (get u)"

definition unaligned_from :: "int \<Rightarrow> unaligned" where
  "unaligned_from v = unaligned_new v"

definition unaligned_into :: "unaligned \<Rightarrow> int" where
  "unaligned_into u = get u"

definition unaligned_eq :: "unaligned \<Rightarrow> int \<Rightarrow> bool" where
  "unaligned_eq u other \<longleftrightarrow> get u = other"

datatype ordering = Less | Equal | Greater

definition unaligned_partial_cmp :: "unaligned \<Rightarrow> int \<Rightarrow> ordering option" where
  "unaligned_partial_cmp u other = Some (if get u < other then Less else if get u = other then Equal else Greater)"

definition unaligned_from_str :: "int_type \<Rightarrow> string \<Rightarrow> int_error + unaligned" where
  "unaligned_from_str ty src = (case prim_from_str ty src of Inl e \<Rightarrow> Inl e | Inr v \<Rightarrow> Inr (unaligned_new v))"

text \<open>With an unaligned right operand, and with a primitive one.\<close>

definition unaligned_add :: "bool \<Rightarrow> int_type \<Rightarrow> unaligned \<Rightarrow> unaligned \<Rightarrow> fault + unaligned" where
  "unaligned_add dbg ty u rhs = try_bind (prim_arith dbg ty (get u + get rhs)) (\<lambda>r. Inr (unaligned_new r))"

definition unaligned_add_prim :: "bool \<Rightarrow> int_type \<Rightarrow> unaligned \<Rightarrow> int \<Rightarrow> fault + int" where
  "unaligned_add_prim dbg ty u rhs = prim_arith dbg ty (get u + rhs)"

definition unaligned_sub :: "bool \<Rightarrow> int_type \<Rightarrow> unaligned \<Rightarrow> unaligned \<Rightarrow> fault + unaligned" where
  "unaligned_sub dbg ty u rhs = try_bind (prim_arith dbg ty (get u - get rhs)) (\<lambda>r. Inr (unaligned_new r))"

definition unaligned_sub_prim :: "bool \<Rightarrow> int_type \<Rightarrow> unaligned \<Rightarrow> int \<Rightarrow> fault + int" where
  "unaligned_sub_prim dbg ty u rhs = prim_arith dbg ty (get u - rhs)"

definition unaligned_mul :: "bool \<Rightarrow> int_type \<Rightarrow> unaligned \<Rightarrow> unaligned \<Rightarrow> fault + unaligned" where
  "unaligned_mul dbg ty u rhs = try_bind (prim_arith dbg ty (get u * get rhs)) (\<lambda>r. Inr (unaligned_new r))"

definition unaligned_mul_prim :: "bool \<Rightarrow> int_type \<Rightarrow> unaligned \<Rightarrow> int \<Rightarrow> fault + int" where
  "unaligned_mul_prim dbg ty u rhs = prim_arith dbg ty (get u * rhs)"

definition unaligned_div :: "int_type \<Rightarrow> unaligned \<Rightarrow> unaligned \<Rightarrow> fault + unaligned" where
  "unaligned_div ty u rhs = try_bind (prim_div ty (get u) (get rhs)) (\<lambda>r. Inr (unaligned_new r))"

definition unaligned_div_prim :: "int_type \<Rightarrow> unaligned \<Rightarrow> int \<Rightarrow> fault + int" where
  "unaligned_div_prim ty u rhs = prim_div ty (get u) rhs"

definition U16 :: int_type where "U16 = \<lparr>it_bytes = 2, it_signed = False\<rparr>"
definition I16 :: int_type where "I16 = \<lparr>it_bytes = 2, it_signed = True\<rparr>"
definition U32 :: int_type where "U32 = \<lparr>it_bytes = 4, it_signed = False\<rparr>"
definition I32 :: int_type where "I32 = \<lparr>it_bytes = 4, it_signed = True\<rparr>"
definition U64 :: int_type where "U64 = \<lparr>it_bytes = 8, it_signed = False\<rparr>"
definition I64 :: int_type where "I64 = \<lparr>it_bytes = 8, it_signed = True\<rparr>"

definition int_types :: "int_type list" where
  "int_types = [U16, I16, U32, I32, U64, I64]"

text \<open>\<open>UnalignedF64\<close>: the bits of the number are what its byte order operations act on.\<close>

datatype unaligned_f64 = UnalignedF64 (f64_bits: nat)

definition f64_swap_bytes :: "unaligned_f64 \<Rightarrow> unaligned_f64" where
  "f64_swap_bytes u = UnalignedF64 (nat (prim_swap_bytes U64 (int (f64_bits u))))"

definition f64_to_be :: "bool \<Rightarrow> unaligned_f64 \<Rightarrow> unaligned_f64" where
  "f64_to_be le u = UnalignedF64 (nat (prim_to_be le U64 (int (f64_bits u))))"

definition f64_from_be :: "bool \<Rightarrow> unaligned_f64 \<Rightarrow> unaligned_f64" where
  "f64_from_be le u = UnalignedF64 (nat (prim_from_be le U64 (int (f64_bits u))))"

section \<open>Bytes\<close>

lemma length_le_bytes [simp]: "length (le_bytes n x) = n"
  by (induction n arbitrary: x) auto

lemma le_bytes_byte: "list_all (\<lambda>b. b < 256) (le_bytes n x)"
  by (induction n arbitrary: x) auto

lemma of_le_le_bytes: "of_le (le_bytes n x) = x mod 256 ^ n"
proof (induction n arbitrary: x)
  case (Suc n)
  have "x mod (256 * 256 ^ n) = x mod 256 + 256 * (x div 256 mod 256 ^ n)" by (simp add: mod_mult2_eq)
  then show ?case by (simp add: Suc)
qed simp

lemma le_bytes_of_le: "list_all (\<lambda>b. b < 256) bs \<Longrightarrow> le_bytes (length bs) (of_le bs) = bs"
  by (induction bs) auto

lemma of_le_less: "list_all (\<lambda>b. b < 256) bs \<Longrightarrow> of_le bs < 256 ^ length bs"
proof (induction bs)
  case (Cons b bs)
  then have "b + 256 * of_le bs < 256 + 256 * of_le bs" "of_le bs + 1 \<le> 256 ^ length bs" by auto
  then have "b + 256 * of_le bs < 256 * (of_le bs + 1)" "256 * (of_le bs + 1) \<le> 256 * 256 ^ length bs" by auto
  then show ?case by simp
qed simp

lemma modulus_bytes: "it_modulus ty = int (256 ^ it_bytes ty)"
  by (simp add: it_modulus_def power_mult)

lemma modulus_pos: "0 < it_modulus ty"
  by (simp add: it_modulus_def)

lemma modulus_even: "0 < it_bytes ty \<Longrightarrow> it_modulus ty = 2 * (it_modulus ty div 2)"
  by (simp add: it_modulus_def)

lemma to_bits_less: "to_bits ty v < 256 ^ it_bytes ty"
proof -
  have "v mod it_modulus ty < it_modulus ty" using modulus_pos by simp
  then have "int (to_bits ty v) < int (256 ^ it_bytes ty)"
    using modulus_pos [of ty] by (simp add: to_bits_def modulus_bytes)
  then show ?thesis by linarith
qed

lemma from_bits_range:
  assumes "0 < it_bytes ty" "n < 256 ^ it_bytes ty"
  shows "in_range ty (from_bits ty n)" "to_bits ty (from_bits ty n) = n"
proof -
  have n: "0 \<le> int n" "int n < it_modulus ty" using assms(2) unfolding modulus_bytes by linarith+
  show "in_range ty (from_bits ty n)"
    using n modulus_even [OF assms(1)] by (auto simp: in_range_def from_bits_def it_min_def it_max_def)
  have "(int n - it_modulus ty) mod it_modulus ty = int n" using n by simp
  then show "to_bits ty (from_bits ty n) = n" using n by (auto simp: to_bits_def from_bits_def)
qed

lemma from_to_bits:
  assumes "0 < it_bytes ty" "in_range ty v"
  shows "from_bits ty (to_bits ty v) = v"
proof (cases "0 \<le> v")
  case True
  then have "v < it_modulus ty"
    using assms(2) modulus_even [OF assms(1)] modulus_pos [of ty] by (auto simp: in_range_def it_max_def split: if_splits)
  with True show ?thesis using assms(2) by (simp add: to_bits_def from_bits_def in_range_def)
next
  case False
  then have s: "it_signed ty" "- (it_modulus ty div 2) \<le> v"
    using assms(2) by (auto simp: in_range_def it_min_def split: if_splits)
  have "(v + it_modulus ty) mod it_modulus ty = v + it_modulus ty"
    using False s(2) modulus_even [OF assms(1)] by (intro mod_pos_pos_trivial) auto
  then have "v mod it_modulus ty = v + it_modulus ty" by simp
  then show ?thesis
    using False s modulus_even [OF assms(1)] modulus_pos [of ty] by (auto simp: to_bits_def from_bits_def it_max_def)
qed

lemma swap_bits: "0 < it_bytes ty \<Longrightarrow> to_bits ty (prim_swap_bytes ty v) = of_le (rev (le_bytes (it_bytes ty) (to_bits ty v)))"
proof -
  assume b: "0 < it_bytes ty"
  let ?bs = "rev (le_bytes (it_bytes ty) (to_bits ty v))"
  have "of_le ?bs < 256 ^ length ?bs" by (rule of_le_less) (use le_bytes_byte in \<open>simp add: list_all_iff\<close>)
  then show ?thesis unfolding prim_swap_bytes_def by (intro from_bits_range(2) [OF b]) simp
qed

lemma swap_le_bytes:
  "0 < it_bytes ty \<Longrightarrow> le_bytes (it_bytes ty) (to_bits ty (prim_swap_bytes ty v)) = rev (le_bytes (it_bytes ty) (to_bits ty v))"
  using le_bytes_of_le [of "rev (le_bytes (it_bytes ty) (to_bits ty v))"] le_bytes_byte
  by (simp add: swap_bits list_all_iff)

lemma swap_involution:
  assumes "0 < it_bytes ty" "in_range ty v"
  shows "prim_swap_bytes ty (prim_swap_bytes ty v) = v" "in_range ty (prim_swap_bytes ty v)"
proof -
  have "prim_swap_bytes ty (prim_swap_bytes ty v) = from_bits ty (of_le (le_bytes (it_bytes ty) (to_bits ty v)))"
    unfolding prim_swap_bytes_def [of ty "prim_swap_bytes ty v"] by (simp add: swap_le_bytes assms(1))
  then show "prim_swap_bytes ty (prim_swap_bytes ty v) = v"
    using assms to_bits_less [of ty v] by (simp add: of_le_le_bytes from_to_bits)
  show "in_range ty (prim_swap_bytes ty v)"
    unfolding prim_swap_bytes_def
    using of_le_less [of "rev (le_bytes (it_bytes ty) (to_bits ty v))"] le_bytes_byte
    by (intro from_bits_range(1) [OF assms(1)]) (simp add: list_all_iff)
qed


lemma int_types_bytes: "ty \<in> set int_types \<Longrightarrow> 0 < it_bytes ty"
  by (auto simp: int_types_def U16_def I16_def U32_def I32_def U64_def I64_def)

text \<open>C37: For each of the six types, \<open>to_be\<close> lays the value out in memory from its most significant byte on, whatever
  the byte order of the target, \<open>from_be\<close> undoes it, and \<open>swap_bytes\<close> undoes itself; the results are values
  of the type.\<close>

theorem byte_order_roundtrip:
  assumes "ty \<in> set int_types" "in_range ty (get u)"
  shows "mem_bytes le ty (get (to_be le ty u)) = rev (le_bytes (it_bytes ty) (to_bits ty (get u))) \<and>
    from_be le ty (to_be le ty u) = u \<and> to_be le ty (from_be le ty u) = u \<and>
    swap_bytes ty (swap_bytes ty u) = u \<and>
    in_range ty (get (to_be le ty u)) \<and> in_range ty (get (swap_bytes ty u))"
  using assms(2) swap_involution [OF int_types_bytes [OF assms(1)] assms(2)] swap_le_bytes [OF int_types_bytes [OF assms(1)]]
  by (simp add: mem_bytes_def to_be_def from_be_def swap_bytes_def prim_to_be_def prim_from_be_def unaligned_new_def Let_def)

lemma byte_order_roundtrip_witness:
  "mem_bytes True I32 (get (to_be True I32 (Unaligned (- 2)))) = [255, 255, 255, 254]"
proof -
  have "I32 \<in> set int_types" "in_range I32 (get (Unaligned (- 2)))"
    by (simp_all add: int_types_def in_range_def it_min_def it_max_def it_modulus_def I32_def)
  note r = byte_order_roundtrip [OF this, of True]
  have "to_bits I32 (- 2) = 4294967294" by (simp add: I32_def to_bits_def it_modulus_def)
  moreover have "it_bytes I32 = Suc (Suc (Suc (Suc 0)))" by (simp add: I32_def)
  ultimately have "rev (le_bytes (it_bytes I32) (to_bits I32 (get (Unaligned (- 2))))) = [255, 255, 255, 254]" by simp
  then show ?thesis using r by simp
qed

section \<open>Arithmetic\<close>

lemma from_to_bits_mod: "0 < it_bytes ty \<Longrightarrow> (from_bits ty (to_bits ty r) - r) mod it_modulus ty = 0"
proof -
  assume "0 < it_bytes ty"
  have "r mod it_modulus ty - r = it_modulus ty * - (r div it_modulus ty)"
    using mult_div_mod_eq [of "it_modulus ty" r] by (simp add: algebra_simps)
  then have "it_modulus ty dvd r mod it_modulus ty - r" by (rule dvdI)
  then have "it_modulus ty dvd r mod it_modulus ty - it_modulus ty - r"
    using dvd_diff [of "it_modulus ty" "r mod it_modulus ty - r" "it_modulus ty"] by (simp add: algebra_simps)
  moreover have "int (to_bits ty r) = r mod it_modulus ty" using modulus_pos [of ty] by (simp add: to_bits_def)
  ultimately show ?thesis
    using \<open>it_modulus ty dvd r mod it_modulus ty - r\<close> unfolding from_bits_def dvd_eq_mod_eq_0 by simp
qed

text \<open>What an operation on integers may give: the exact value or a panic in a checked build, the value modulo
  the width otherwise.\<close>

definition arith_spec :: "bool \<Rightarrow> int_type \<Rightarrow> int \<Rightarrow> fault + int \<Rightarrow> bool" where
  "arith_spec dbg ty r res \<longleftrightarrow>
     (if in_range ty r then res = Inr r
      else if dbg then res = Inl Panic
      else (case res of Inr v \<Rightarrow> in_range ty v \<and> (v - r) mod it_modulus ty = 0 | Inl _ \<Rightarrow> False))"

lemma prim_arith_spec: "0 < it_bytes ty \<Longrightarrow> arith_spec dbg ty r (prim_arith dbg ty r)"
  using from_to_bits_mod [of ty r] from_bits_range(1) [OF _ to_bits_less, of ty r] by (simp add: arith_spec_def prim_arith_def)

definition arith_result :: "fault + unaligned \<Rightarrow> fault + int" where
  "arith_result = map_sum id get"

lemma arith_result_bind: "arith_result (try_bind m (\<lambda>r. Inr (unaligned_new r))) = m"
  by (cases m) (simp_all add: arith_result_def try_bind_def unaligned_new_def)

lemma sdiv_range:
  assumes b: "0 < it_bytes ty" and a: "in_range ty a" and d: "in_range ty d" "d \<noteq> 0"
  shows "in_range ty (a sdiv d) \<longleftrightarrow> \<not> (it_signed ty \<and> a = it_min ty \<and> d = -1)"
proof -
  define M where "M = it_modulus ty div 2"
  have M: "1 \<le> M" "it_modulus ty = 2 * M"
  proof -
    show m: "it_modulus ty = 2 * M" unfolding M_def by (rule modulus_even [OF b])
    show "1 \<le> M" using modulus_pos [of ty] unfolding m by simp
  qed
  show ?thesis
  proof (cases "it_signed ty")
    case False
    then have "0 \<le> a" "0 < d" "a \<le> it_max ty" using a d by (auto simp: in_range_def it_min_def)
    moreover from this have "a sdiv d = a div d" by (simp add: signed_divide_int_def sgn_if)
    moreover have "a div d \<le> a" "0 \<le> a div d"
      using calculation(1,2) zdiv_mono2 [of a 1 d] by (simp_all add: pos_imp_zdiv_nonneg_iff)
    ultimately show ?thesis using False by (auto simp: in_range_def it_min_def)
  next
    case True
    have r: "in_range ty x \<longleftrightarrow> - M \<le> x \<and> x \<le> M - 1" for x
      using True by (simp add: in_range_def it_min_def it_max_def M_def)
    have mn: "it_min ty = - M" using True by (simp add: it_min_def M_def)
    consider "d = 1" | "d = -1" | "2 \<le> \<bar>d\<bar>" using d(2) by linarith
    then show ?thesis
    proof cases
      case 1
      then show ?thesis using a by simp
    next
      case 2
      then show ?thesis using a True by (auto simp: r mn)
    next
      case 3
      have "\<bar>a sdiv d\<bar> \<le> \<bar>a\<bar> div \<bar>d\<bar>"
        using pos_imp_zdiv_nonneg_iff [of "\<bar>d\<bar>" "\<bar>a\<bar>"] d(2)
        by (auto simp: signed_divide_int_def abs_mult abs_sgn_eq)
      also have "\<dots> \<le> \<bar>a\<bar> div 2" using 3 by (intro zdiv_mono2) auto
      finally have "\<bar>a sdiv d\<bar> \<le> \<bar>a\<bar> div 2" .
      moreover have "\<bar>a\<bar> div 2 \<le> M - 1" using a M(1) by (auto simp: r)
      ultimately have "in_range ty (a sdiv d)" unfolding r by linarith
      then show ?thesis using 3 by auto
    qed
  qed
qed

text \<open>Adding, subtracting and multiplying unaligned integers, also by a primitive one, gives the exact result whenever the
  type has it; otherwise it panics in a checked build and is right modulo the width in any other.  Division
  rounds towards zero and panics exactly for the divisor zero and for the least value by \<open>-1\<close>.\<close>

theorem unaligned_arith_exact:
  assumes "ty \<in> set int_types" "in_range ty (get u)" "in_range ty (get v)"
  shows "arith_spec dbg ty (get u + get v) (arith_result (unaligned_add dbg ty u v)) \<and>
    arith_spec dbg ty (get u - get v) (arith_result (unaligned_sub dbg ty u v)) \<and>
    arith_spec dbg ty (get u * get v) (arith_result (unaligned_mul dbg ty u v)) \<and>
    unaligned_add_prim dbg ty u (get v) = arith_result (unaligned_add dbg ty u v) \<and>
    unaligned_sub_prim dbg ty u (get v) = arith_result (unaligned_sub dbg ty u v) \<and>
    unaligned_mul_prim dbg ty u (get v) = arith_result (unaligned_mul dbg ty u v) \<and>
    unaligned_div_prim ty u (get v) = arith_result (unaligned_div ty u v) \<and>
    unaligned_div_prim ty u (get v) =
      (if get v = 0 \<or> (it_signed ty \<and> get u = it_min ty \<and> get v = -1) then Inl Panic else Inr (get u sdiv get v))"
proof -
  note b = int_types_bytes [OF assms(1)]
  have "unaligned_div_prim ty u (get v) =
      (if get v = 0 \<or> (it_signed ty \<and> get u = it_min ty \<and> get v = -1) then Inl Panic else Inr (get u sdiv get v))"
    using sdiv_range [OF b assms(2,3)] by (auto simp: unaligned_div_prim_def prim_div_def)
  then show ?thesis
    using prim_arith_spec [OF b]
    by (simp add: unaligned_add_def unaligned_sub_def unaligned_mul_def unaligned_div_def arith_result_bind
        unaligned_add_prim_def unaligned_sub_prim_def unaligned_mul_prim_def unaligned_div_prim_def)
qed

lemma unaligned_arith_exact_witness:
  "unaligned_div_prim I16 (Unaligned (- 32768)) (- 1) = Inl Panic"
proof -
  have h: "I16 \<in> set int_types" "in_range I16 (get (Unaligned (- 32768)))" "in_range I16 (get (Unaligned (- 1)))"
    by (simp_all add: int_types_def in_range_def it_min_def it_max_def it_modulus_def I16_def)
  have "unaligned_div_prim I16 (Unaligned (- 32768)) (get (Unaligned (- 1))) =
      (if get (Unaligned (- 1)) = 0 \<or> (it_signed I16 \<and> get (Unaligned (- 32768)) = it_min I16 \<and> get (Unaligned (- 1)) = -1)
       then Inl Panic else Inr (get (Unaligned (- 32768)) sdiv get (Unaligned (- 1))))"
    using unaligned_arith_exact [OF h, of True] by blast
  then show ?thesis by (simp add: it_min_def it_modulus_def I16_def)
qed

section \<open>Text\<close>

lemma in_range_between: "in_range ty x \<Longrightarrow> 0 \<le> y \<Longrightarrow> y \<le> x \<Longrightarrow> in_range ty y"
  "in_range ty x \<Longrightarrow> y \<le> 0 \<Longrightarrow> x \<le> y \<Longrightarrow> in_range ty y"
  using modulus_pos [of ty] by (auto simp: in_range_def it_min_def it_max_def)

definition fold_digits :: "bool \<Rightarrow> int \<Rightarrow> string \<Rightarrow> int" where
  "fold_digits pos = foldl (\<lambda>n c. if pos then n * 10 + int (digit_val c) else n * 10 - int (digit_val c))"

lemma fold_digits_far: "0 \<le> acc \<Longrightarrow> acc \<le> fold_digits True acc cs" "acc \<le> 0 \<Longrightarrow> fold_digits False acc cs \<le> acc"
proof (induction cs arbitrary: acc)
  case (Cons c cs)
  { case 1 then show ?case using Cons.IH(1) [of "acc * 10 + int (digit_val c)"] by (simp add: fold_digits_def) }
  { case 2 then show ?case using Cons.IH(2) [of "acc * 10 - int (digit_val c)"] by (simp add: fold_digits_def) }
qed (simp_all add: fold_digits_def)

lemma parse_digits_complete:
  "list_all is_digit cs \<Longrightarrow> in_range ty (fold_digits pos acc cs) \<Longrightarrow> (if pos then 0 \<le> acc else acc \<le> 0) \<Longrightarrow>
   parse_digits ty pos acc cs = Inr (fold_digits pos acc cs)"
proof (induction cs arbitrary: acc)
  case (Cons c cs)
  define m where "m = acc * 10"
  define r where "r = (if pos then m + int (digit_val c) else m - int (digit_val c))"
  have f: "fold_digits pos acc (c # cs) = fold_digits pos r cs"
    by (simp add: fold_digits_def r_def m_def)
  have sg: "if pos then 0 \<le> r else r \<le> 0" using Cons.prems(3) by (simp add: r_def m_def split: if_splits)
  have rr: "in_range ty r"
    using Cons.prems(2) sg fold_digits_far(1) [of r cs] fold_digits_far(2) [of r cs] unfolding f
    by (cases pos) (auto intro: in_range_between)
  have "in_range ty m"
    using rr Cons.prems(3) by (cases pos) (auto simp: r_def m_def intro: in_range_between)
  then show ?case
    using Cons.IH [of r] Cons.prems(1,2) rr sg unfolding f
    by (simp add: Let_def flip: m_def) (cases pos; simp add: r_def)
qed (simp add: fold_digits_def)

lemma parse_digits_range: "parse_digits ty pos acc cs = Inr v \<Longrightarrow> in_range ty acc \<Longrightarrow> in_range ty v"
  by (induction ty pos acc cs rule: parse_digits.induct) (auto simp: Let_def split: if_splits)

lemma fold_digits_value: "fold_digits pos (if pos then int n else - int n) cs =
   (if pos then int (foldl (\<lambda>n c. n * 10 + digit_val c) n cs) else - int (foldl (\<lambda>n c. n * 10 + digit_val c) n cs))"
proof (induction cs arbitrary: n)
  case (Cons c cs)
  have "fold_digits pos (if pos then int n else - int n) (c # cs) =
      fold_digits pos (if pos then int (n * 10 + digit_val c) else - int (n * 10 + digit_val c)) cs"
    by (simp add: fold_digits_def)
  then show ?case unfolding Cons.IH by simp
qed (simp add: fold_digits_def)

lemma fold_digits_show: "fold_digits pos 0 (show_nat n) = (if pos then int n else - int n)"
  using fold_digits_value [of pos 0 "show_nat n"] value_show_nat [of n] by (cases pos) (simp_all add: value_of_digits_def)

lemma zero_in_range: "0 < it_bytes ty \<Longrightarrow> in_range ty 0"
  using modulus_pos [of ty] modulus_even [of ty] by (auto simp: in_range_def it_min_def it_max_def)

lemma parse_show:
  assumes "in_range ty (if pos then int n else - int n)"
  shows "parse_digits ty pos 0 (show_nat n) = Inr (if pos then int n else - int n)"
  using parse_digits_complete [of "show_nat n" ty pos 0] show_nat_digits(1) [of n] assms
  by (simp add: fold_digits_show list_all_iff)

lemma show_nat_head: "\<exists>c cs. show_nat n = c # cs \<and> c \<noteq> CHR ''+'' \<and> c \<noteq> CHR ''-''"
proof (cases "show_nat n")
  case (Cons c cs)
  then have "is_digit c" using show_nat_digits(1) [of n] by simp
  then have "c \<noteq> CHR ''+'' \<and> c \<noteq> CHR ''-''" by (auto simp: is_digit_def)
  then show ?thesis using Cons by blast
qed (use show_nat_digits(2) in simp)

lemma prim_from_str_fmt:
  assumes "in_range ty v"
  shows "prim_from_str ty (prim_fmt v) = Inr v" "0 \<le> v \<Longrightarrow> prim_from_str ty (CHR ''+'' # prim_fmt v) = Inr v"
proof -
  obtain c cs where c: "show_nat (nat v) = c # cs" "c \<noteq> CHR ''+''" "c \<noteq> CHR ''-''" using show_nat_head by blast
  have pos: "parse_digits ty True 0 (show_nat (nat v)) = Inr v" if "0 \<le> v"
    using parse_show [of ty True "nat v"] assms that by simp
  have neg: "parse_digits ty False 0 (show_nat (nat (- v))) = Inr v" if "v < 0"
    using parse_show [of ty False "nat (- v)"] assms that by simp
  have "it_signed ty" if "v < 0" using assms that by (auto simp: in_range_def it_min_def split: if_splits)
  then show "prim_from_str ty (prim_fmt v) = Inr v"
    using pos neg c show_nat_digits(2) [of "nat (- v)"] by (cases "v < 0") (simp_all add: prim_fmt_def prim_from_str_def)
  show "prim_from_str ty (CHR ''+'' # prim_fmt v) = Inr v" if "0 \<le> v"
    using pos that show_nat_digits(2) [of "nat v"] by (simp add: prim_fmt_def prim_from_str_def)
qed

lemma prim_from_str_range: "0 < it_bytes ty \<Longrightarrow> prim_from_str ty s = Inr v \<Longrightarrow> in_range ty v"
proof -
  assume b: "0 < it_bytes ty" and s: "prim_from_str ty s = Inr v"
  have "\<exists>pos cs. parse_digits ty pos 0 cs = Inr v"
    using s unfolding prim_from_str_def
    by (simp split: list.splits if_splits del: parse_digits.simps) (blast | metis)+
  then show ?thesis using parse_digits_range zero_in_range [OF b] by blast
qed

text \<open>Parsing the text of an integer gives the integer back, with a leading plus sign too; what parsing accepts is always
  a value of the type.\<close>

theorem unaligned_text_roundtrip:
  assumes "ty \<in> set int_types" "in_range ty (get u)"
  shows "unaligned_from_str ty (unaligned_fmt u) = Inr u \<and>
    (if 0 \<le> get u then unaligned_from_str ty (CHR ''+'' # unaligned_fmt u) = Inr u else it_signed ty) \<and>
    (case unaligned_from_str ty s of Inr w \<Rightarrow> in_range ty (get w) | Inl _ \<Rightarrow> True)"
proof -
  have "it_signed ty" if "get u < 0" using assms(2) that by (auto simp: in_range_def it_min_def split: if_splits)
  moreover have "in_range ty w" if "prim_from_str ty s = Inr w" for w
    using prim_from_str_range [OF int_types_bytes [OF assms(1)] that] .
  ultimately show ?thesis
    using prim_from_str_fmt [OF assms(2)]
    by (auto simp: unaligned_from_str_def unaligned_fmt_def unaligned_new_def split: sum.splits)
qed

lemma unaligned_text_roundtrip_witness:
  "unaligned_from_str I16 (unaligned_fmt (Unaligned (- 32768))) = Inr (Unaligned (- 32768))"
  using unaligned_text_roundtrip [of I16 "Unaligned (- 32768)" "[]"]
  by (simp add: int_types_def in_range_def it_min_def it_max_def it_modulus_def I16_def)

end
