(* ===== verification/Api_Wire.thy ===== *)
theory Api_Wire
  imports Api_Parser Unaligned
begin

text \<open>
  What the generated byte-order code does (\<open>vpp-plugin-api-gen/src/lib.rs\<close>, \<open>generate_endian_swap\<close> and the
  enums): the effect of \<open>endian_swap\<close> on the memory of a message, on a little-endian target.  \<open>Api_Gen\<close> has the
  text of this code.
\<close>

section \<open>Values in memory\<close>

text \<open>
  A number of \<open>k\<close> bytes, an array or struct, the bytes of a fixed string or a float, a string with its length,
  a union of the named type.  An alias is a struct of one field.
\<close>

datatype wire = Num nat nat | Elems "wire list" | Raw "nat list" | Text nat "nat list" | Overlay string "nat list"

fun memory :: "wire \<Rightarrow> nat list" where
  "memory (Num k n) = le_bytes k n"
| "memory (Elems vs) = concat (map memory vs)"
| "memory (Raw bs) = bs"
| "memory (Text n bs) = le_bytes 4 n @ bs"
| "memory (Overlay ty bs) = bs"

text \<open>\<open>to_be\<close> and \<open>from_be\<close> of \<open>k\<close> bytes.\<close>

definition be :: "nat \<Rightarrow> nat \<Rightarrow> nat" where
  "be k n = of_le (rev (le_bytes k n))"

definition int_bytes :: "string \<Rightarrow> nat option" where
  "int_bytes t =
     (if t = ''u8'' then Some 1
      else if t = ''u16'' \<or> t = ''i16'' then Some 2
      else if t = ''u32'' \<or> t = ''i32'' then Some 4
      else if t = ''u64'' \<or> t = ''i64'' then Some 8
      else None)"

definition int_signed :: "string \<Rightarrow> bool" where
  "int_signed t \<longleftrightarrow> t = ''i16'' \<or> t = ''i32'' \<or> t = ''i64''"

definition swap_num :: "wire \<Rightarrow> fault + wire" where
  "swap_num v = (case v of Num k n \<Rightarrow> Inr (Num k (be k n)) | _ \<Rightarrow> Inl Undefined_Behaviour)"

text \<open>
  The count of an array, read from the fields \<open>ds\<close> before it, which have been swapped: as \<open>usize\<close>, or
  \<open>None\<close> for a negative one.
\<close>

definition count_value :: "bool \<Rightarrow> field list \<Rightarrow> wire list \<Rightarrow> string \<Rightarrow> nat option" where
  "count_value to_net fds ds c =
     (case find (\<lambda>(fd, v). f_name fd = c) (zip fds ds) of
        Some (fd, Num k x) \<Rightarrow>
          let n = (if to_net then be k x else x) in
          if int_signed (f_type fd) \<and> 2 ^ (8 * k - 1) \<le> n then None else Some n
      | _ \<Rightarrow> None)"

lemma size_take [simp]: "size_list f (take n xs) \<le> size_list f xs"
  by (induction xs arbitrary: n) (auto simp: take_Cons split: nat.splits)

section \<open>The generated code\<close>

text \<open>An alias of an integer.\<close>

definition int_alias :: "string \<Rightarrow> field_size option \<Rightarrow> bool" where
  "int_alias ty sz \<longleftrightarrow> int_bytes ty \<noteq> None \<and> sz = None"

text \<open>An enum whose size is \<open>sz\<close>.\<close>

definition swap_enum :: "string \<Rightarrow> wire \<Rightarrow> fault + wire" where
  "swap_enum sz v = (if sz = ''u8'' then Inr v else swap_num v)"

text \<open>
  \<open>T\<close> are the registered types, none of which has the flag \<open>manual_endian\<close>.  The code of a union is written by
  the user: \<open>U\<close>.  An element is an integer or a value of a named type; elements of an array with a count are
  those that the count covers.  What is not a value of the type, and an alias of an integer, whose code does
  not compile (\<open>alias_swaps_named_field\<close>), have no behaviour.
\<close>

fun plain_field :: "field \<Rightarrow> bool" where
  "plain_field fd \<longleftrightarrow> f_type fd = ''u8'' \<or> f_type fd = ''bool'' \<or> f_type fd = ''f64''"

function swap_elem :: "(string \<Rightarrow> bool \<Rightarrow> nat list \<Rightarrow> nat list) \<Rightarrow> (string \<rightharpoonup> type_details) \<Rightarrow> bool \<Rightarrow> string \<Rightarrow> wire \<Rightarrow> fault + wire"
  and swap_field :: "(string \<Rightarrow> bool \<Rightarrow> nat list \<Rightarrow> nat list) \<Rightarrow> (string \<rightharpoonup> type_details) \<Rightarrow> bool \<Rightarrow> field list \<Rightarrow> wire list \<Rightarrow> field \<Rightarrow> wire \<Rightarrow> fault + wire"
  and swap_fields :: "(string \<Rightarrow> bool \<Rightarrow> nat list \<Rightarrow> nat list) \<Rightarrow> (string \<rightharpoonup> type_details) \<Rightarrow> bool \<Rightarrow> field list \<Rightarrow> wire list \<Rightarrow> field list \<Rightarrow> wire list \<Rightarrow> fault + wire list"
  and swap_elems :: "(string \<Rightarrow> bool \<Rightarrow> nat list \<Rightarrow> nat list) \<Rightarrow> (string \<rightharpoonup> type_details) \<Rightarrow> bool \<Rightarrow> string \<Rightarrow> wire list \<Rightarrow> fault + wire list"
where
  "swap_elem U T to_net ty v =
     (if int_bytes ty \<noteq> None then swap_num v
      else case Option.bind (api_type_name ty) T of
        None \<Rightarrow> Inl Undefined_Behaviour
      | Some (TD_TypedefBlock fds) \<Rightarrow>
          (case v of Elems vs \<Rightarrow> try_bind (swap_fields U T to_net fds [] fds vs) (\<lambda>vs. Inr (Elems vs)) | _ \<Rightarrow> Inl Undefined_Behaviour)
      | Some (TD_Typedef ty' sz) \<Rightarrow>
          if int_alias ty' sz then Inl Undefined_Behaviour
          else (let fds = [\<lparr>f_type = ty', f_name = ''0'', f_options = [], f_size = sz\<rparr>] in
           case v of Elems vs \<Rightarrow> try_bind (swap_fields U T to_net fds [] fds vs) (\<lambda>vs. Inr (Elems vs)) | _ \<Rightarrow> Inl Undefined_Behaviour)
      | Some (TD_Union fds) \<Rightarrow> (case v of Overlay t bs \<Rightarrow> if t = ty then Inr (Overlay ty (U ty to_net bs)) else Inl Undefined_Behaviour | _ \<Rightarrow> Inl Undefined_Behaviour)
      | Some (TD_Enum sz _) \<Rightarrow> swap_enum sz v
      | Some (TD_EnumFlag sz _) \<Rightarrow> swap_enum sz v)"
| "swap_field U T to_net fds ds fd v =
     (if plain_field fd then Inr v
      else if f_type fd = ''string'' then
        (case v of Raw bs \<Rightarrow> Inr (Raw bs) | Text n bs \<Rightarrow> Inr (Text (be 4 n) bs) | _ \<Rightarrow> Inl Undefined_Behaviour)
      else case f_size fd of
        None \<Rightarrow> swap_elem U T to_net (f_type fd) v
      | Some (Fixed m) \<Rightarrow>
          (case v of
             Elems vs \<Rightarrow> if length vs = m then try_bind (swap_elems U T to_net (f_type fd) vs) (\<lambda>vs. Inr (Elems vs)) else Inl Undefined_Behaviour
           | _ \<Rightarrow> Inl Undefined_Behaviour)
      | Some (Variable (Some c)) \<Rightarrow>
          (case (v, count_value to_net fds ds c) of
             (Elems vs, Some n) \<Rightarrow>
               if n \<le> length vs then try_bind (swap_elems U T to_net (f_type fd) (take n vs)) (\<lambda>ws. Inr (Elems (ws @ drop n vs)))
               else Inl Undefined_Behaviour
           | _ \<Rightarrow> Inl Undefined_Behaviour)
      | Some (Variable None) \<Rightarrow> Inl Undefined_Behaviour)"
| "swap_fields U T to_net fds ds [] [] = Inr []"
| "swap_fields U T to_net fds ds (fd # rest) (v # vs) =
     try_bind (swap_field U T to_net fds ds fd v) (\<lambda>w.
     try_bind (swap_fields U T to_net fds (ds @ [w]) rest vs) (\<lambda>ws. Inr (w # ws)))"
| "swap_fields U T to_net fds ds [] (v # vs) = Inl Undefined_Behaviour"
| "swap_fields U T to_net fds ds (fd # rest) [] = Inl Undefined_Behaviour"
| "swap_elems U T to_net ty [] = Inr []"
| "swap_elems U T to_net ty (v # vs) =
     try_bind (swap_elem U T to_net ty v) (\<lambda>w. try_bind (swap_elems U T to_net ty vs) (\<lambda>ws. Inr (w # ws)))"
  by pat_completeness auto
termination
  by (relation "measure (\<lambda>x. case x of
      Inl (Inl (U, T, b, ty, v)) \<Rightarrow> 3 * size v
    | Inl (Inr (U, T, b, fds, ds, fd, v)) \<Rightarrow> 3 * size v + 1
    | Inr (Inl (U, T, b, fds, ds, rest, vs)) \<Rightarrow> 3 * size_list size vs + 2
    | Inr (Inr (U, T, b, ty, vs)) \<Rightarrow> 3 * size_list size vs + 2)") (auto simp: less_Suc_eq_le le_SucI)

declare swap_elem.simps [simp del] swap_field.simps [simp del]

section \<open>Values of a type\<close>

text \<open>
  A value of a field in host order: the shape that the declaration asks for, arrays with a count as long as it
  says.  \<open>sized\<close>: every number fits its width.
\<close>

fun sized :: "wire \<Rightarrow> bool" where
  "sized (Num k n) \<longleftrightarrow> n < 256 ^ k"
| "sized (Elems vs) \<longleftrightarrow> list_all sized vs"
| "sized (Raw bs) \<longleftrightarrow> True"
| "sized (Text n bs) \<longleftrightarrow> n < 256 ^ 4"
| "sized (Overlay ty bs) \<longleftrightarrow> True"

definition num_of_width :: "nat option \<Rightarrow> wire \<Rightarrow> bool" where
  "num_of_width w v \<longleftrightarrow> (case v of Num k n \<Rightarrow> w = Some k | _ \<Rightarrow> False)"

function elem_ok :: "(string \<rightharpoonup> type_details) \<Rightarrow> string \<Rightarrow> wire \<Rightarrow> bool"
  and field_ok :: "(string \<rightharpoonup> type_details) \<Rightarrow> field list \<Rightarrow> wire list \<Rightarrow> field \<Rightarrow> wire \<Rightarrow> bool"
  and fields_ok :: "(string \<rightharpoonup> type_details) \<Rightarrow> field list \<Rightarrow> wire list \<Rightarrow> field list \<Rightarrow> wire list \<Rightarrow> bool"
  and elems_ok :: "(string \<rightharpoonup> type_details) \<Rightarrow> string \<Rightarrow> wire list \<Rightarrow> bool"
where
  "elem_ok T ty v =
     (if int_bytes ty \<noteq> None then num_of_width (int_bytes ty) v
      else case Option.bind (api_type_name ty) T of
        None \<Rightarrow> False
      | Some (TD_TypedefBlock fds) \<Rightarrow> (case v of Elems vs \<Rightarrow> fields_ok T fds [] fds vs | _ \<Rightarrow> False)
      | Some (TD_Typedef ty' sz) \<Rightarrow>
          if int_alias ty' sz then False
          else (let fds = [\<lparr>f_type = ty', f_name = ''0'', f_options = [], f_size = sz\<rparr>] in
           case v of Elems vs \<Rightarrow> fields_ok T fds [] fds vs | _ \<Rightarrow> False)
      | Some (TD_Union fds) \<Rightarrow> (case v of Overlay t bs \<Rightarrow> t = ty | _ \<Rightarrow> False)
      | Some (TD_Enum sz _) \<Rightarrow> int_bytes sz \<noteq> None \<and> num_of_width (int_bytes sz) v
      | Some (TD_EnumFlag sz _) \<Rightarrow> int_bytes sz \<noteq> None \<and> num_of_width (int_bytes sz) v)"
| "field_ok T fds ds fd v =
     (if plain_field fd then (case v of Raw bs \<Rightarrow> True | Num k n \<Rightarrow> k = 1 | _ \<Rightarrow> False)
      else if f_type fd = ''string'' then (case v of Raw bs \<Rightarrow> True | Text n bs \<Rightarrow> True | _ \<Rightarrow> False)
      else case f_size fd of
        None \<Rightarrow> elem_ok T (f_type fd) v
      | Some (Fixed m) \<Rightarrow> (case v of Elems vs \<Rightarrow> length vs = m \<and> elems_ok T (f_type fd) vs | _ \<Rightarrow> False)
      | Some (Variable (Some c)) \<Rightarrow>
          (case v of Elems vs \<Rightarrow> count_value False fds ds c = Some (length vs) \<and> elems_ok T (f_type fd) vs | _ \<Rightarrow> False)
      | Some (Variable None) \<Rightarrow> False)"
| "fields_ok T fds ds [] [] = True"
| "fields_ok T fds ds (fd # rest) (v # vs) = (field_ok T fds ds fd v \<and> fields_ok T fds (ds @ [v]) rest vs)"
| "fields_ok T fds ds [] (v # vs) = False"
| "fields_ok T fds ds (fd # rest) [] = False"
| "elems_ok T ty [] = True"
| "elems_ok T ty (v # vs) = (elem_ok T ty v \<and> elems_ok T ty vs)"
  by pat_completeness auto
termination
  by (relation "measure (\<lambda>x. case x of
      Inl (Inl (T, ty, v)) \<Rightarrow> 3 * size v
    | Inl (Inr (T, fds, ds, fd, v)) \<Rightarrow> 3 * size v + 1
    | Inr (Inl (T, fds, ds, rest, vs)) \<Rightarrow> 3 * size_list size vs + 2
    | Inr (Inr (T, ty, vs)) \<Rightarrow> 3 * size_list size vs + 2)") auto

declare elem_ok.simps [simp del] field_ok.simps [simp del]

text \<open>The value in network order, and its bytes.\<close>

fun in_order :: "(string \<Rightarrow> bool \<Rightarrow> nat list \<Rightarrow> nat list) \<Rightarrow> wire \<Rightarrow> wire" where
  "in_order U (Num k n) = Num k (be k n)"
| "in_order U (Elems vs) = Elems (map (in_order U) vs)"
| "in_order U (Raw bs) = Raw bs"
| "in_order U (Text n bs) = Text (be 4 n) bs"
| "in_order U (Overlay ty bs) = Overlay ty (U ty True bs)"

fun network :: "(string \<Rightarrow> bool \<Rightarrow> nat list \<Rightarrow> nat list) \<Rightarrow> wire \<Rightarrow> nat list" where
  "network U (Num k n) = rev (le_bytes k n)"
| "network U (Elems vs) = concat (map (network U) vs)"
| "network U (Raw bs) = bs"
| "network U (Text n bs) = rev (le_bytes 4 n) @ bs"
| "network U (Overlay ty bs) = U ty True bs"

lemma be_bytes: "le_bytes k (be k n) = rev (le_bytes k n)"
proof -
  have "list_all (\<lambda>b. b < 256) (rev (le_bytes k n))" using le_bytes_byte [of k n] by (simp add: list_all_iff)
  from le_bytes_of_le [OF this] show ?thesis by (simp add: be_def)
qed

lemma be_be: "n < 256 ^ k \<Longrightarrow> be k (be k n) = n"
  unfolding be_def [of k "be k n"] be_bytes by (simp add: of_le_le_bytes)

lemma be_byte: "n < 256 \<Longrightarrow> be (Suc 0) n = n" by (simp add: be_def)

lemma in_order_bytes: "memory (in_order U v) = network U v"
proof (induction v)
  case (Elems vs)
  then have "map (\<lambda>v. memory (in_order U v)) vs = map (network U) vs" by simp
  then show ?case by (simp only: in_order.simps memory.simps network.simps map_map comp_def)
qed (simp_all add: be_bytes)

text \<open>The count that the code reads from swapped fields is that of the host's.\<close>

lemma count_to_net: "list_all sized ds \<Longrightarrow> count_value True fds (map (in_order U) ds) c = count_value False fds ds c"
proof (induction fds arbitrary: ds)
  case Nil
  then show ?case by (simp add: count_value_def)
next
  case (Cons fd fds)
  show ?case
  proof (cases ds)
    case Nil
    then show ?thesis by (simp add: count_value_def)
  next
    case (Cons d es)
    have "count_value True fds (map (in_order U) es) c = count_value False fds es c"
      using Cons.IH [of es] Cons.prems Cons by simp
    then show ?thesis using Cons Cons.prems by (cases d) (auto simp: count_value_def be_be)
  qed
qed

text \<open>The code of a union restores what it swapped.\<close>

definition union_laws :: "(string \<Rightarrow> bool \<Rightarrow> nat list \<Rightarrow> nat list) \<Rightarrow> bool" where
  "union_laws U \<longleftrightarrow> (\<forall>ty bs. U ty False (U ty True bs) = bs)"

lemma swap_to_net:
  "elem_ok T ty v \<Longrightarrow> sized v \<Longrightarrow> swap_elem U T True ty v = Inr (in_order U v)"
  "field_ok T fds ds fd v \<Longrightarrow> list_all sized ds \<Longrightarrow> sized v \<Longrightarrow>
     swap_field U T True fds (map (in_order U) ds) fd v = Inr (in_order U v)"
  "fields_ok T fds ds rest vs \<Longrightarrow> list_all sized ds \<Longrightarrow> list_all sized vs \<Longrightarrow>
     swap_fields U T True fds (map (in_order U) ds) rest vs = Inr (map (in_order U) vs)"
  "elems_ok T ty vs \<Longrightarrow> list_all sized vs \<Longrightarrow> swap_elems U T True ty vs = Inr (map (in_order U) vs)"
proof (induction T ty v and T fds ds fd v and T fds ds rest vs and T ty vs
    rule: elem_ok_field_ok_fields_ok_elems_ok.induct)
  case (1 T ty v)
  then show ?case
    unfolding swap_elem.simps [of U T _ ty] elem_ok.simps [of T ty v]
    by (auto simp: num_of_width_def swap_num_def swap_enum_def Let_def int_bytes_def be_byte split: wire.splits option.splits type_details.splits if_splits)
next
  case (2 T fds ds fd v)
  then show ?case
    unfolding swap_field.simps [of U T _ fds _ fd] field_ok.simps [of T fds ds fd v]
    by (auto simp: count_to_net be_byte split: wire.splits option.splits field_size.splits if_splits)
qed auto

lemma swap_to_host:
  assumes "union_laws U"
  shows
  "elem_ok T ty v \<Longrightarrow> sized v \<Longrightarrow> swap_elem U T False ty (in_order U v) = Inr v"
  "field_ok T fds ds fd v \<Longrightarrow> sized v \<Longrightarrow> swap_field U T False fds ds fd (in_order U v) = Inr v"
  "fields_ok T fds ds rest vs \<Longrightarrow> list_all sized vs \<Longrightarrow> swap_fields U T False fds ds rest (map (in_order U) vs) = Inr vs"
  "elems_ok T ty vs \<Longrightarrow> list_all sized vs \<Longrightarrow> swap_elems U T False ty (map (in_order U) vs) = Inr vs"
proof (induction T ty v and T fds ds fd v and T fds ds rest vs and T ty vs
    rule: elem_ok_field_ok_fields_ok_elems_ok.induct)
  case (1 T ty v)
  then show ?case using assms
    unfolding swap_elem.simps [of U T _ ty] elem_ok.simps [of T ty v]
    by (auto simp: num_of_width_def swap_num_def swap_enum_def Let_def int_bytes_def be_byte be_be union_laws_def
        split: wire.splits option.splits type_details.splits if_splits)
next
  case (2 T fds ds fd v)
  then show ?case
    unfolding swap_field.simps [of U T _ fds _ fd] field_ok.simps [of T fds ds fd v]
    by (auto simp: be_byte be_be split: wire.splits option.splits field_size.splits if_splits)
qed auto

section \<open>Byte order of messages\<close>

text \<open>
  C20: The generated \<open>endian_swap\<close> of a message, whatever its enums, aliases, structs, unions, strings and arrays:
  \<open>to_net\<close> neither reads beyond the message nor takes a wrong count, and leaves the bytes of the network, that is
  every number most significant byte first and all else as it is; the swap back restores every value.
\<close>

theorem message_byte_order:
  assumes "union_laws U" "fields_ok T fds [] fds vs" "list_all sized vs"
  shows "\<exists>ws. swap_fields U T True fds [] fds vs = Inr ws \<and>
    concat (map memory ws) = concat (map (network U) vs) \<and>
    swap_fields U T False fds [] fds ws = Inr vs"
proof (intro exI conjI)
  show "swap_fields U T True fds [] fds vs = Inr (map (in_order U) vs)"
    using swap_to_net(3) [of T fds "[]" fds vs U] assms(2,3) by simp
  show "concat (map memory (map (in_order U) vs)) = concat (map (network U) vs)"
    by (simp add: comp_def in_order_bytes)
  show "swap_fields U T False fds [] fds (map (in_order U) vs) = Inr vs"
    using swap_to_host(3) [OF assms(1,2,3)] .
qed

text \<open>A message with an enum, a union, an alias and an array of structs with its count.\<close>

definition wire_types :: "string \<rightharpoonup> type_details" where
  "wire_types = [
     ''mode'' \<mapsto> TD_Enum ''u32'' [], ''addr'' \<mapsto> TD_Union [],
     ''ip4'' \<mapsto> TD_Typedef ''u8'' (Some (Fixed 4)),
     ''pair'' \<mapsto> TD_TypedefBlock [\<lparr>f_type = ''u8'', f_name = ''a'', f_options = [], f_size = None\<rparr>,
       \<lparr>f_type = ''u16'', f_name = ''b'', f_options = [], f_size = Some (Fixed 2)\<rparr>]]"

definition wire_fields :: "field list" where
  "wire_fields = [
     \<lparr>f_type = ''u16'', f_name = ''_vl_msg_id'', f_options = [], f_size = None\<rparr>,
     \<lparr>f_type = ''vl_api_mode_t'', f_name = ''m'', f_options = [], f_size = None\<rparr>,
     \<lparr>f_type = ''vl_api_addr_t'', f_name = ''u'', f_options = [], f_size = None\<rparr>,
     \<lparr>f_type = ''vl_api_ip4_t'', f_name = ''i'', f_options = [], f_size = None\<rparr>,
     \<lparr>f_type = ''u16'', f_name = ''n'', f_options = [], f_size = None\<rparr>,
     \<lparr>f_type = ''vl_api_pair_t'', f_name = ''p'', f_options = [], f_size = Some (Variable (Some ''n''))\<rparr>]"

definition wire_values :: "wire list" where
  "wire_values = [Num 2 258, Num 4 5, Overlay ''vl_api_addr_t'' [1, 2], Elems [Raw [10, 0, 0, 1]], Num 2 1,
     Elems [Elems [Num 1 7, Elems [Num 2 772, Num 2 9]]]]"

definition wire_network :: "nat list" where
  "wire_network = [1, 2, 0, 0, 0, 5, 2, 1, 10, 0, 0, 1, 0, 1, 7, 3, 4, 0, 9]"

lemma wire_values_ok: "fields_ok wire_types wire_fields [] wire_fields wire_values" "list_all sized wire_values"
  by (simp_all add: wire_fields_def wire_values_def wire_types_def elem_ok.simps field_ok.simps api_type_name_def
      VL_API_PREFIX_def VL_API_SUFFIX_def int_bytes_def num_of_width_def count_value_def int_signed_def
      strip_suffix_def int_alias_def)

theorem message_byte_order_witness:
  "\<exists>ws. swap_fields (\<lambda>_ _. rev) wire_types True wire_fields [] wire_fields wire_values = Inr ws \<and>
    concat (map memory ws) = wire_network \<and>
    swap_fields (\<lambda>_ _. rev) wire_types False wire_fields [] wire_fields ws = Inr wire_values"
proof -
  have "concat (map (network (\<lambda>_ _. rev)) wire_values) = wire_network" by code_simp
  then show ?thesis
    using message_byte_order [of "\<lambda>_ _. rev", OF _ wire_values_ok] by (simp add: union_laws_def)
qed

end
