(* ===== verification/Api_String.thy ===== *)
theory Api_String
  imports Vpp_Vec "HOL-Library.Word"
begin

text \<open>
  The strings of API messages, \<open>ApiString\<close> and \<open>ApiFixedString\<close> of \<open>vpp-plugin/src/vlibapi/mod.rs\<close>.
  The bytes of a Rust \<open>str\<close> may contain zeros; UTF-8 checking is left out.
\<close>

type_synonym byte = "8 word"

section \<open>Strings with a length\<close>

text \<open>
  The header holds the length; the bytes follow it in memory, \<open>as_mem\<close> being those that belong to
  the message.  Reading past them is undefined behaviour.  \<open>to_be\<close> is for a little-endian target,
  the only one with bindings.
\<close>

record api_string =
  as_length :: nat
  as_mem :: "byte list"

definition to_be32 :: "nat \<Rightarrow> nat" where
  "to_be32 n = (n mod 256) * 16777216 + (n div 256 mod 256) * 65536 + (n div 65536 mod 256) * 256 + n div 16777216 mod 256"

definition as_bytes :: "api_string \<Rightarrow> fault + byte list" where
  "as_bytes s = (if as_length s \<le> length (as_mem s) then Inr (take (as_length s) (as_mem s)) else Inl Undefined_Behaviour)"

definition set_len :: "api_string \<Rightarrow> nat \<Rightarrow> api_string" where
  "set_len s n = s\<lparr>as_length := n\<rparr>"

definition copy_from_str :: "api_string \<Rightarrow> byte list \<Rightarrow> fault + api_string" where
  "copy_from_str s bs = try_bind (as_bytes s) (\<lambda>old.
     if length old \<noteq> length bs then Inl Panic else Inr (s\<lparr>as_mem := bs @ drop (length bs) (as_mem s)\<rparr>))"

definition endian_swap :: "api_string \<Rightarrow> api_string" where
  "endian_swap s = s\<lparr>as_length := to_be32 (as_length s)\<rparr>"

lemma to_be32_involution: "n < 4294967296 \<Longrightarrow> to_be32 (to_be32 n) = n"
proof -
  assume n: "n < 4294967296"
  define a b c d where "a = n mod 256" and "b = n div 256 mod 256" and "c = n div 65536 mod 256" and "d = n div 16777216 mod 256"
  have lt: "a < 256" "b < 256" "c < 256" "d < 256" by (simp_all add: a_def b_def c_def d_def)
  have sw: "to_be32 (d * 16777216 + c * 65536 + b * 256 + a) = a * 16777216 + b * 65536 + c * 256 + d"
    if "a < 256" "b < 256" "c < 256" "d < 256" for a b c d
  proof -
    let ?m = "d * 16777216 + c * 65536 + b * 256 + a"
    have m: "?m = a + 256 * (b + 256 * (c + 256 * d))" by simp
    have step: "(x + 256 * y) div 256 = y" "(x + 256 * y) mod 256 = x" if "x < 256" for x y :: nat
      using that by simp_all
    have q: "?m div 256 = b + 256 * (c + 256 * d)" "?m div 65536 = c + 256 * d" "?m div 16777216 = d"
      using step that m by (simp_all add: div_mult2_eq[of _ 256 256, simplified] div_mult2_eq[of _ 256 65536, simplified] del: div_mult_self1 div_mult_self2)
    have "?m mod 256 = a" unfolding m by (rule step(2)[OF that(1)])
    moreover have "?m div 256 mod 256 = b" unfolding q(1) by (rule step(2)[OF that(2)])
    moreover have "?m div 65536 mod 256 = c" unfolding q(2) by (rule step(2)[OF that(3)])
    moreover have "?m div 16777216 mod 256 = d" using q(3) that by simp
    ultimately show ?thesis by (simp add: to_be32_def)
  qed
  have "n = d * 16777216 + c * 65536 + b * 256 + a"
  proof -
    have "n div 65536 = n div 256 div 256" "n div 16777216 = n div 65536 div 256" by (simp_all add: div_mult2_eq[symmetric])
    then have "n = n div 256 * 256 + a" "n div 256 = n div 65536 * 256 + b" "n div 65536 = n div 16777216 * 256 + c"
      by (simp_all add: a_def b_def c_def)
    moreover have "n div 16777216 = d" using n by (simp add: d_def less_mult_imp_div_less)
    ultimately show ?thesis by linarith
  qed
  then show ?thesis using sw[OF lt] sw[of d c b a] lt by simp
qed

lemma copy_from_str_bytes:
  "length bs \<le> length (as_mem s) \<Longrightarrow>
    \<exists>s'. copy_from_str (set_len s (length bs)) bs = Inr s' \<and> as_bytes s' = Inr bs"
  by (simp add: copy_from_str_def set_len_def as_bytes_def)

lemma endian_swap_twice: "as_length s < 4294967296 \<Longrightarrow> endian_swap (endian_swap s) = s"
  by (simp add: endian_swap_def to_be32_involution)

section \<open>Strings in a buffer of fixed size\<close>

text \<open>The buffer \<open>[u8; N]\<close> as the list of its \<open>N\<close> bytes; \<open>None\<close> is an index out of bounds.\<close>

function fixed_len_from :: "byte list \<Rightarrow> nat \<Rightarrow> nat option" where
  "fixed_len_from buf len =
     (if len < length buf then (if buf ! len \<noteq> 0 then fixed_len_from buf (len + 1) else Some len) else None)"
  by auto
termination by (relation "measure (\<lambda>(buf, len). length buf - len)") auto

declare fixed_len_from.simps [simp del]

definition fixed_len :: "byte list \<Rightarrow> nat option" where
  "fixed_len buf = fixed_len_from buf 0"

definition fixed_is_empty :: "byte list \<Rightarrow> bool option" where
  "fixed_is_empty buf = map_option (\<lambda>n. n = 0) (fixed_len buf)"

definition fixed_as_bytes :: "byte list \<Rightarrow> byte list option" where
  "fixed_as_bytes buf = map_option (\<lambda>n. take n buf) (fixed_len buf)"

definition fixed_copy_from_str :: "byte list \<Rightarrow> byte list \<Rightarrow> byte list option" where
  "fixed_copy_from_str buf bytes =
     (if length bytes \<le> length buf then
        let buf = bytes @ drop (length bytes) buf in
        Some (if length bytes + 1 < length buf
              then take (length bytes) buf @ replicate (length buf - length bytes) 0 else buf)
      else None)"

definition fixed_default :: "nat \<Rightarrow> byte list" where
  "fixed_default n = replicate n 0"

lemma fixed_len_from_nonzero:
  "(\<And>i. len \<le> i \<Longrightarrow> i < n \<Longrightarrow> buf ! i \<noteq> 0) \<Longrightarrow> len \<le> n \<Longrightarrow> n \<le> length buf \<Longrightarrow>
    fixed_len_from buf len = fixed_len_from buf n"
proof (induction "n - len" arbitrary: len)
  case (Suc k)
  then have "len < n" by simp
  with Suc.prems have "fixed_len_from buf len = fixed_len_from buf (len + 1)"
    by (subst fixed_len_from.simps) auto
  also have "\<dots> = fixed_len_from buf n" using Suc by simp
  finally show ?case .
qed simp

lemma fixed_len_prefix:
  assumes "0 \<notin> set bytes"
  shows "fixed_len (bytes @ rest) = (if rest = [] then None else if hd rest = 0 then Some (length bytes)
    else fixed_len_from (bytes @ rest) (length bytes + 1))"
proof -
  have "fixed_len (bytes @ rest) = fixed_len_from (bytes @ rest) (length bytes)"
    unfolding fixed_len_def using assms by (intro fixed_len_from_nonzero) (auto simp: nth_append in_set_conv_nth)
  also have "\<dots> = (if rest = [] then None else if hd rest = 0 then Some (length bytes)
      else fixed_len_from (bytes @ rest) (length bytes + 1))"
    by (subst fixed_len_from.simps) (cases rest, auto simp: nth_append)
  finally show ?thesis .
qed

text \<open>C35: Copying a string without zeros into a fixed buffer and reading it back: a longer string than
  the buffer panics; a string two or more bytes shorter is read back; one that is one byte shorter
  is read back only if the last byte of the buffer was zero before, because that byte is not
  cleared, and otherwise reading panics; one that fills the buffer is stored, and reading it panics.\<close>

theorem fixed_string_copy_exact:
  assumes "0 \<notin> set bytes"
  shows "Option.bind (fixed_copy_from_str buf bytes) fixed_as_bytes =
    (if length bytes + 1 < length buf \<or> (length bytes + 1 = length buf \<and> last buf = 0) then Some bytes else None)"
proof -
  note pre = fixed_len_prefix[OF assms]
  consider "length buf < length bytes" | "length bytes + 1 < length buf" | "length bytes + 1 = length buf" | "length bytes = length buf"
    by linarith
  then show ?thesis
  proof cases
    case 2
    then have "replicate (length buf - length bytes) (0 :: byte) \<noteq> []" by simp
    then show ?thesis using 2 pre[of "replicate (length buf - length bytes) 0"]
      by (simp add: fixed_copy_from_str_def Let_def fixed_as_bytes_def)
  next
    case 3
    then have d: "drop (length bytes) buf = [last buf]"
    proof -
      have "buf \<noteq> []" using 3 by auto
      then have "buf = butlast buf @ [last buf]" by simp
      moreover have "length (butlast buf) = length bytes" using 3 by simp
      ultimately show ?thesis by (metis append_eq_conv_conj)
    qed
    have "fixed_len_from (bytes @ [last buf]) (length bytes + 1) = None" by (subst fixed_len_from.simps) simp
    then show ?thesis using 3 pre[of "[last buf]"] d
      by (simp add: fixed_copy_from_str_def Let_def fixed_as_bytes_def)
  next
    case 4
    then show ?thesis using pre[of "[]"] by (simp add: fixed_copy_from_str_def Let_def fixed_as_bytes_def)
  qed (simp add: fixed_copy_from_str_def)
qed

lemma fixed_string_copy_exact_witness:
  "Option.bind (fixed_copy_from_str [1, 2, 3] [7, 8]) fixed_as_bytes = None"
  using fixed_string_copy_exact[of "[7, 8]" "[1, 2, 3]"] by simp

end
