(* ===== verification/Api_Message.thy ===== *)
theory Api_Message
  imports Vpp_Vec Api_String "HOL-Library.Multiset"
begin

text \<open>
  API messages as owned memory, \<open>Message\<close>, \<open>Registration\<close> and \<open>Stream\<close> of \<open>vpp-plugin/src/vlibapi/mod.rs\<close>: a
  message is a block of the message allocator of VPP that Rust frees, or hands over to VPP by sending it.

  Values of the type of a message have an identity, so that dropping one twice can be told.
\<close>

section \<open>Memory of messages\<close>

record 'd msg_value =
  v_id :: nat
  v_data :: 'd

datatype 'd content = Uninit | Value "'d msg_value" | Bytes "nat list"

record 'd msg_block =
  bl_size :: nat
  bl_content :: "'d content"

text \<open>The type of a message: its size and alignment, and whether dropping a value does anything.\<close>

record msg_type =
  ty_size :: nat
  ty_align :: nat
  ty_needs_drop :: bool

text \<open>
  \<open>mh_live\<close> are the values that have not been dropped; the logs hold the addresses of blocks as they are
  allocated, freed and handed over.
\<close>

record 'd msg_heap =
  mh_blocks :: "nat \<rightharpoonup> 'd msg_block"
  mh_live :: "nat set"
  mh_allocated :: "nat list"
  mh_freed :: "nat list"
  mh_sent :: "(nat \<times> nat \<times> 'd msg_block) list"

text \<open>
  The allocator of VPP is a parameter: from the addresses in use and the number of bytes, an \<open>i32\<close>, it
  gives an address.  As documented it does not fail and the block is not in use.
\<close>

type_synonym 'd allocator = "(nat \<rightharpoonup> 'd msg_block) \<Rightarrow> int \<Rightarrow> nat"

definition alloc_laws :: "'d allocator \<Rightarrow> bool" where
  "alloc_laws A \<longleftrightarrow> (\<forall>m n. finite (dom m) \<longrightarrow> A m n \<notin> dom m)"

definition as_i32 :: "nat \<Rightarrow> int" where
  "as_i32 n = (let m = n mod 2 ^ 32 in if m < 2 ^ 31 then int m else int m - 2 ^ 32)"

definition msg_alloc :: "'d allocator \<Rightarrow> int \<Rightarrow> 'd msg_heap \<Rightarrow> nat \<times> 'd msg_heap" where
  "msg_alloc A n h =
     (let p = A (mh_blocks h) n in
      (p, h\<lparr>mh_blocks := (mh_blocks h)(p \<mapsto> \<lparr>bl_size = nat n, bl_content = Uninit\<rparr>),
            mh_allocated := mh_allocated h @ [p]\<rparr>))"

text \<open>Writing \<open>n\<close> bytes that leave \<open>c\<close> in a block.\<close>

definition msg_store :: "nat \<Rightarrow> nat \<Rightarrow> 'd content \<Rightarrow> 'd msg_heap \<Rightarrow> fault + 'd msg_heap" where
  "msg_store p n c h =
     (case mh_blocks h p of
        None \<Rightarrow> Inl Undefined_Behaviour
      | Some b \<Rightarrow> if bl_size b < n then Inl Undefined_Behaviour
                  else Inr (h\<lparr>mh_blocks := (mh_blocks h)(p \<mapsto> b\<lparr>bl_content := c\<rparr>)\<rparr>))"

definition msg_free :: "nat \<Rightarrow> 'd msg_heap \<Rightarrow> fault + 'd msg_heap" where
  "msg_free p h =
     (if p \<in> dom (mh_blocks h)
      then Inr (h\<lparr>mh_blocks := (mh_blocks h)(p := None), mh_freed := mh_freed h @ [p]\<rparr>)
      else Inl Undefined_Behaviour)"

text \<open>The end of a value: a value that is gone already is dropped a second time.\<close>

definition drop_value :: "msg_type \<Rightarrow> 'd msg_value \<Rightarrow> 'd msg_heap \<Rightarrow> fault + 'd msg_heap" where
  "drop_value T v h =
     (if \<not> ty_needs_drop T then Inr h
      else if v_id v \<in> mh_live h then Inr (h\<lparr>mh_live := mh_live h - {v_id v}\<rparr>)
      else Inl Undefined_Behaviour)"

section \<open>Messages\<close>

text \<open>
  \<open>new\<close> copies the bits of its argument into the block; the argument is a local variable that is still
  dropped when the function ends, or when it panics.
\<close>

definition msg_new :: "'d allocator \<Rightarrow> msg_type \<Rightarrow> 'd msg_value \<Rightarrow> 'd msg_heap \<Rightarrow> fault + nat \<times> 'd msg_heap" where
  "msg_new A T v h =
     (if ty_align T \<noteq> 1 then Inl Panic
      else
        let (p, h) = msg_alloc A (as_i32 (ty_size T)) h in
        try_bind (msg_store p (ty_size T) (Value v) h) (\<lambda>h.
        try_bind (drop_value T v h) (\<lambda>h. Inr (p, h))))"

definition message_new_uninit :: "'d allocator \<Rightarrow> msg_type \<Rightarrow> 'd msg_heap \<Rightarrow> fault + nat \<times> 'd msg_heap" where
  "message_new_uninit A T h =
     (if ty_align T \<noteq> 1 then Inl Panic else Inr (msg_alloc A (as_i32 (ty_size T)) h))"

definition message_new_bytes :: "'d allocator \<Rightarrow> nat \<Rightarrow> 'd msg_heap \<Rightarrow> fault + nat \<times> 'd msg_heap" where
  "message_new_bytes A nbytes h =
     (let (p, h) = msg_alloc A (as_i32 nbytes) h in
      try_bind (msg_store p nbytes (Bytes (replicate nbytes 0)) h) (\<lambda>h. Inr (p, h)))"

definition into_raw :: "nat \<Rightarrow> nat" where
  "into_raw m = m"

definition msg_assume_init :: "nat \<Rightarrow> nat" where
  "msg_assume_init m = into_raw m"

definition message_write :: "msg_type \<Rightarrow> nat \<Rightarrow> 'd msg_value \<Rightarrow> 'd msg_heap \<Rightarrow> fault + nat \<times> 'd msg_heap" where
  "message_write T m v h = try_bind (msg_store m (ty_size T) (Value v) h) (\<lambda>h. Inr (msg_assume_init m, h))"

definition message_deref :: "nat \<Rightarrow> 'd msg_heap \<Rightarrow> fault + 'd content" where
  "message_deref m h =
     (case mh_blocks h m of
        None \<Rightarrow> Inl Undefined_Behaviour
      | Some b \<Rightarrow> if bl_content b = Uninit then Inl Undefined_Behaviour else Inr (bl_content b))"

text \<open>\<open>Default\<close>: the default value is made after the block.\<close>

definition msg_default :: "'d allocator \<Rightarrow> msg_type \<Rightarrow> ('d msg_heap \<Rightarrow> fault + 'd msg_value \<times> 'd msg_heap) \<Rightarrow> 'd msg_heap \<Rightarrow>
    fault + nat \<times> 'd msg_heap" where
  "msg_default A T dflt h =
     try_bind (message_new_uninit A T h) (\<lambda>(m, h).
     try_bind (dflt h) (\<lambda>(v, h). message_write T m v h))"

text \<open>
  \<open>Drop\<close>: drops the value in the block and frees it.  Dropping bytes, or a \<open>MaybeUninit\<close>, does nothing;
  \<open>init\<close> says whether the message is of the type itself.
\<close>

definition message_drop :: "msg_type \<Rightarrow> bool \<Rightarrow> nat \<Rightarrow> 'd msg_heap \<Rightarrow> fault + 'd msg_heap" where
  "message_drop T init m h =
     try_bind (if init then
                 try_bind (message_deref m h) (\<lambda>c.
                 case c of Value v \<Rightarrow> drop_value T v h | _ \<Rightarrow> Inr h)
               else Inr h) (msg_free m)"

section \<open>Sending\<close>

text \<open>\<open>vl_api_helper_send_msg\<close> takes the block over, with what is in it.\<close>

definition send_msg :: "nat \<Rightarrow> nat \<Rightarrow> 'd msg_heap \<Rightarrow> fault + 'd msg_heap" where
  "send_msg reg p h =
     (case mh_blocks h p of
        None \<Rightarrow> Inl Undefined_Behaviour
      | Some b \<Rightarrow> Inr (h\<lparr>mh_blocks := (mh_blocks h)(p := None), mh_sent := mh_sent h @ [(reg, p, b)]\<rparr>))"

definition registration_send_message :: "nat \<Rightarrow> nat \<Rightarrow> 'd msg_heap \<Rightarrow> fault + 'd msg_heap" where
  "registration_send_message reg m h = send_msg reg (into_raw m) h"

definition stream_send_message_ne :: "nat \<Rightarrow> nat \<Rightarrow> 'd msg_heap \<Rightarrow> fault + 'd msg_heap" where
  "stream_send_message_ne reg m h = registration_send_message reg m h"

text \<open>\<open>swap\<close> is \<open>endian_swap\<close> of the type of the message.\<close>

definition msg_endian_swap :: "(bool \<Rightarrow> 'd \<Rightarrow> 'd) \<Rightarrow> bool \<Rightarrow> nat \<Rightarrow> 'd msg_heap \<Rightarrow> fault + 'd msg_heap" where
  "msg_endian_swap swap to_net m h =
     try_bind (message_deref m h) (\<lambda>c.
     case c of
       Value v \<Rightarrow> msg_store m 0 (Value (v\<lparr>v_data := swap to_net (v_data v)\<rparr>)) h
     | _ \<Rightarrow> Inl Undefined_Behaviour)"

definition stream_send_message :: "(bool \<Rightarrow> 'd \<Rightarrow> 'd) \<Rightarrow> nat \<Rightarrow> nat \<Rightarrow> 'd msg_heap \<Rightarrow> fault + 'd msg_heap" where
  "stream_send_message swap reg m h =
     try_bind (msg_endian_swap swap True m h) (\<lambda>h. stream_send_message_ne reg m h)"

text \<open>\<open>vl_api_helper_client_index_to_registration\<close> is a parameter that takes the index in network order.\<close>

definition from_client_index :: "(nat \<Rightarrow> nat option) \<Rightarrow> nat \<Rightarrow> nat option" where
  "from_client_index lookup client_index = lookup (to_be32 client_index)"


section \<open>A program that owns messages\<close>

text \<open>
  Rust code that uses messages: it makes values, moves them into messages, and drops or sends messages.
  \<open>cl_owned\<close> are the messages it owns with their static type, \<open>cl_values\<close> the values outside of messages.
\<close>

datatype msg_kind = Is_Init | Is_Uninit | Is_Bytes

record 'd msg_client =
  cl_heap :: "'d msg_heap"
  cl_owned :: "nat \<rightharpoonup> msg_kind"
  cl_values :: "'d msg_value set"
  cl_used :: "nat set"

datatype 'd msg_op =
    Make_Value "'d msg_value"
  | Drop_Value "'d msg_value"
  | New "'d msg_value"
  | New_Uninit
  | New_Bytes nat
  | Write_Message nat "'d msg_value"
  | Drop_Message nat
  | Send_Ne nat nat
  | Stream_Send nat nat

definition own :: "nat \<Rightarrow> msg_kind option \<Rightarrow> 'd msg_heap \<Rightarrow> 'd msg_client \<Rightarrow> 'd msg_client" where
  "own p k h s = s\<lparr>cl_heap := h, cl_owned := (cl_owned s)(p := k)\<rparr>"

fun run_op :: "'d allocator \<Rightarrow> msg_type \<Rightarrow> (bool \<Rightarrow> 'd \<Rightarrow> 'd) \<Rightarrow> 'd msg_op \<Rightarrow> 'd msg_client \<Rightarrow> fault + 'd msg_client" where
  "run_op A T swap (Make_Value v) s =
     Inr (s\<lparr>cl_heap := (cl_heap s)\<lparr>mh_live := insert (v_id v) (mh_live (cl_heap s))\<rparr>,
            cl_values := insert v (cl_values s), cl_used := insert (v_id v) (cl_used s)\<rparr>)"
| "run_op A T swap (Drop_Value v) s =
     try_bind (drop_value T v (cl_heap s)) (\<lambda>h. Inr (s\<lparr>cl_heap := h, cl_values := cl_values s - {v}\<rparr>))"
| "run_op A T swap (New v) s =
     try_bind (msg_new A T v (cl_heap s)) (\<lambda>(p, h).
       Inr ((own p (Some Is_Init) h s)\<lparr>cl_values := cl_values s - {v}\<rparr>))"
| "run_op A T swap New_Uninit s =
     try_bind (message_new_uninit A T (cl_heap s)) (\<lambda>(p, h). Inr (own p (Some Is_Uninit) h s))"
| "run_op A T swap (New_Bytes n) s =
     try_bind (message_new_bytes A n (cl_heap s)) (\<lambda>(p, h). Inr (own p (Some Is_Bytes) h s))"
| "run_op A T swap (Write_Message m v) s =
     try_bind (message_write T m v (cl_heap s)) (\<lambda>(p, h).
       Inr ((own p (Some Is_Init) h s)\<lparr>cl_values := cl_values s - {v}\<rparr>))"
| "run_op A T swap (Drop_Message m) s =
     try_bind (message_drop T (cl_owned s m = Some Is_Init) m (cl_heap s)) (\<lambda>h. Inr (own m None h s))"
| "run_op A T swap (Send_Ne r m) s =
     try_bind (stream_send_message_ne r m (cl_heap s)) (\<lambda>h. Inr (own m None h s))"
| "run_op A T swap (Stream_Send r m) s =
     try_bind (stream_send_message swap r m (cl_heap s)) (\<lambda>h. Inr (own m None h s))"

text \<open>
  What the compiler accepts: a moved value or message is not used again, the methods of a message depend
  on its type.  \<open>careful\<close> adds what it does not check: \<open>new\<close> is used only for types whose values need no
  drop, and byte messages are shorter than 2 GiB.
\<close>

fun typed :: "'d msg_op \<Rightarrow> 'd msg_client \<Rightarrow> bool" where
  "typed (Make_Value v) s \<longleftrightarrow> v_id v \<notin> cl_used s"
| "typed (Drop_Value v) s \<longleftrightarrow> v \<in> cl_values s"
| "typed (New v) s \<longleftrightarrow> v \<in> cl_values s"
| "typed New_Uninit s \<longleftrightarrow> True"
| "typed (New_Bytes n) s \<longleftrightarrow> n < 2 ^ 32"
| "typed (Write_Message m v) s \<longleftrightarrow> cl_owned s m = Some Is_Uninit \<and> v \<in> cl_values s"
| "typed (Drop_Message m) s \<longleftrightarrow> cl_owned s m \<noteq> None"
| "typed (Send_Ne r m) s \<longleftrightarrow> cl_owned s m \<noteq> None"
| "typed (Stream_Send r m) s \<longleftrightarrow> cl_owned s m = Some Is_Init"

fun careful :: "msg_type \<Rightarrow> 'd msg_op \<Rightarrow> bool" where
  "careful T (New v) \<longleftrightarrow> \<not> ty_needs_drop T"
| "careful T (New_Bytes n) \<longleftrightarrow> n < 2 ^ 31"
| "careful T _ \<longleftrightarrow> True"

fun run_ops :: "'d allocator \<Rightarrow> msg_type \<Rightarrow> (bool \<Rightarrow> 'd \<Rightarrow> 'd) \<Rightarrow> 'd msg_op list \<Rightarrow> 'd msg_client \<Rightarrow> fault + 'd msg_client" where
  "run_ops A T swap [] s = Inr s"
| "run_ops A T swap (op # ops) s = try_bind (run_op A T swap op s) (run_ops A T swap ops)"

fun typed_ops :: "'d allocator \<Rightarrow> msg_type \<Rightarrow> (bool \<Rightarrow> 'd \<Rightarrow> 'd) \<Rightarrow> 'd msg_op list \<Rightarrow> 'd msg_client \<Rightarrow> bool" where
  "typed_ops A T swap [] s \<longleftrightarrow> True"
| "typed_ops A T swap (op # ops) s \<longleftrightarrow>
     typed op s \<and> (case run_op A T swap op s of Inr s \<Rightarrow> typed_ops A T swap ops s | Inl _ \<Rightarrow> True)"

definition msg_start :: "'d msg_client" where
  "msg_start = \<lparr>cl_heap = \<lparr>mh_blocks = Map.empty, mh_live = {}, mh_allocated = [], mh_freed = [], mh_sent = []\<rparr>,
     cl_owned = Map.empty, cl_values = {}, cl_used = {}\<rparr>"

section \<open>The invariant\<close>

text \<open>The values in the initialised messages.\<close>

definition held :: "'d msg_client \<Rightarrow> nat \<Rightarrow> 'd msg_value option" where
  "held s p =
     (if cl_owned s p = Some Is_Init
      then (case mh_blocks (cl_heap s) p of Some b \<Rightarrow> (case bl_content b of Value v \<Rightarrow> Some v | _ \<Rightarrow> None) | None \<Rightarrow> None)
      else None)"

definition block_ok :: "msg_type \<Rightarrow> msg_kind \<Rightarrow> 'd msg_block \<Rightarrow> bool" where
  "block_ok T k b \<longleftrightarrow>
     (case k of
        Is_Init \<Rightarrow> (case bl_content b of Value v \<Rightarrow> True | _ \<Rightarrow> False)
      | Is_Uninit \<Rightarrow> ty_size T \<le> bl_size b
      | Is_Bytes \<Rightarrow> (case bl_content b of Bytes bs \<Rightarrow> True | _ \<Rightarrow> False))"

definition blocks_inv :: "msg_type \<Rightarrow> 'd msg_client \<Rightarrow> bool" where
  "blocks_inv T s \<longleftrightarrow> finite (dom (cl_owned s)) \<and> dom (mh_blocks (cl_heap s)) = dom (cl_owned s) \<and>
     (\<forall>p k b. cl_owned s p = Some k \<longrightarrow> mh_blocks (cl_heap s) p = Some b \<longrightarrow> block_ok T k b)"

definition log_inv :: "'d msg_client \<Rightarrow> bool" where
  "log_inv s \<longleftrightarrow> mset (mh_allocated (cl_heap s)) =
     mset_set (dom (cl_owned s)) + mset (mh_freed (cl_heap s)) + mset (map (fst \<circ> snd) (mh_sent (cl_heap s)))"

definition values_inv :: "'d msg_client \<Rightarrow> bool" where
  "values_inv s \<longleftrightarrow> mh_live (cl_heap s) \<subseteq> cl_used s \<and> v_id ` cl_values s \<subseteq> mh_live (cl_heap s) \<and> inj_on v_id (cl_values s) \<and>
     (\<forall>p v. held s p = Some v \<longrightarrow> v_id v \<in> mh_live (cl_heap s) \<and> v_id v \<notin> v_id ` cl_values s) \<and>
     (\<forall>p q v w. held s p = Some v \<longrightarrow> held s q = Some w \<longrightarrow> v_id v = v_id w \<longrightarrow> p = q)"

lemma values_invI:
  assumes "mh_live (cl_heap s) \<subseteq> cl_used s" "v_id ` cl_values s \<subseteq> mh_live (cl_heap s)" "inj_on v_id (cl_values s)"
    and "\<And>p v. held s p = Some v \<Longrightarrow> v_id v \<in> mh_live (cl_heap s)"
    and "\<And>p v x. held s p = Some v \<Longrightarrow> x \<in> cl_values s \<Longrightarrow> v_id v \<noteq> v_id x"
    and "\<And>p q v w. held s p = Some v \<Longrightarrow> held s q = Some w \<Longrightarrow> v_id v = v_id w \<Longrightarrow> p = q"
  shows "values_inv s"
  unfolding values_inv_def using assms by (intro conjI allI impI) auto

lemma values_invD:
  assumes "values_inv s"
  shows "mh_live (cl_heap s) \<subseteq> cl_used s" "v_id ` cl_values s \<subseteq> mh_live (cl_heap s)" "inj_on v_id (cl_values s)"
    and "held s p = Some v \<Longrightarrow> v_id v \<in> mh_live (cl_heap s)"
    and "held s p = Some v \<Longrightarrow> x \<in> cl_values s \<Longrightarrow> v_id v \<noteq> v_id x"
    and "held s p = Some v \<Longrightarrow> held s q = Some w \<Longrightarrow> v_id v = v_id w \<Longrightarrow> p = q"
  using assms by (simp_all add: values_inv_def image_iff)

definition client_inv :: "msg_type \<Rightarrow> 'd msg_client \<Rightarrow> bool" where
  "client_inv T s \<longleftrightarrow> blocks_inv T s \<and> log_inv s \<and> values_inv s"


lemma client_invI: "blocks_inv T s \<Longrightarrow> log_inv s \<Longrightarrow> values_inv s \<Longrightarrow> client_inv T s"
  by (simp add: client_inv_def)

lemma client_invD: "client_inv T s \<Longrightarrow> blocks_inv T s" "client_inv T s \<Longrightarrow> log_inv s" "client_inv T s \<Longrightarrow> values_inv s"
  by (simp_all add: client_inv_def)

lemma owned_block:
  "client_inv T s \<Longrightarrow> cl_owned s p = Some k \<Longrightarrow> \<exists>b. mh_blocks (cl_heap s) p = Some b \<and> block_ok T k b"
proof -
  assume i: "client_inv T s" and o: "cl_owned s p = Some k"
  from i have d: "dom (mh_blocks (cl_heap s)) = dom (cl_owned s)" by (simp add: client_inv_def blocks_inv_def)
  have "p \<in> dom (mh_blocks (cl_heap s))" using o unfolding d by auto
  then obtain b where "mh_blocks (cl_heap s) p = Some b" by auto
  then show ?thesis using i o unfolding client_inv_def blocks_inv_def by blast
qed

text \<open>A message comes, with a new block, and takes the values \<open>V\<close> in.\<close>

definition gain :: "nat \<Rightarrow> msg_kind \<Rightarrow> 'd msg_block \<Rightarrow> 'd msg_value set \<Rightarrow> 'd msg_client \<Rightarrow> 'd msg_client" where
  "gain p k b V s =
     (own p (Some k) ((cl_heap s)\<lparr>mh_blocks := (mh_blocks (cl_heap s))(p \<mapsto> b),
        mh_allocated := mh_allocated (cl_heap s) @ [p]\<rparr>) s)\<lparr>cl_values := cl_values s - V\<rparr>"

lemma gain_inv:
  assumes i: "client_inv T s" and p: "p \<notin> dom (cl_owned s)" and b: "block_ok T k b"
    and V: "if k = Is_Init then bl_content b = Value v \<and> V = {v} \<and> v \<in> cl_values s else V = {}"
  shows "client_inv T (gain p k b V s)"
proof (rule client_invI)
  show "blocks_inv T (gain p k b V s)"
    using client_invD(1) [OF i] b by (auto simp: blocks_inv_def gain_def own_def)
  show "log_inv (gain p k b V s)"
    using client_invD(1,2) [OF i] p by (simp add: log_inv_def gain_def own_def blocks_inv_def)
  have h: "held (gain p k b V s) = (if k = Is_Init then (held s)(p \<mapsto> v) else (held s)(p := None))"
    using V p by (auto simp: fun_eq_iff held_def gain_def own_def)
  have none: "held s p = None" using p by (auto simp: held_def domIff)
  note I = values_invD [OF client_invD(3) [OF i]]
  show "values_inv (gain p k b V s)"
  proof (cases "k = Is_Init")
    case True
    with V have v: "v \<in> cl_values s" "V = {v}" by auto
    have new: "v_id v \<noteq> v_id x" if "x \<in> cl_values s - {v}" for x
      using that v(1) I(3) by (auto simp: inj_on_def)
    have f: "cl_values (gain p k b V s) = cl_values s - {v}" "mh_live (cl_heap (gain p k b V s)) = mh_live (cl_heap s)"
      "cl_used (gain p k b V s) = cl_used s"
      by (simp_all add: gain_def own_def v)
    show ?thesis
    proof (rule values_invI, unfold f h if_P [OF True])
      show "mh_live (cl_heap s) \<subseteq> cl_used s" by (rule I(1))
      show "v_id ` (cl_values s - {v}) \<subseteq> mh_live (cl_heap s)" using I(2) by auto
      show "inj_on v_id (cl_values s - {v})" using I(3) by (rule inj_on_diff)
      show "v_id w \<in> mh_live (cl_heap s)" if "((held s)(p \<mapsto> v)) q = Some w" for q w
        using that I(2,4) v(1) by (auto split: if_splits)
      show "v_id w \<noteq> v_id x" if "((held s)(p \<mapsto> v)) q = Some w" "x \<in> cl_values s - {v}" for q w x
        using that I(5) [of q w x] new [of x] by (auto split: if_splits)
      show "q = r" if "((held s)(p \<mapsto> v)) q = Some w" "((held s)(p \<mapsto> v)) r = Some x" "v_id w = v_id x" for q r w x
        using that I(5) [OF _ v(1)] I(6) [of q w r x] by (fastforce split: if_splits)
    qed
  next
    case False
    have f: "cl_values (gain p k b V s) = cl_values s" "mh_live (cl_heap (gain p k b V s)) = mh_live (cl_heap s)"
      "cl_used (gain p k b V s) = cl_used s"
      using V False by (simp_all add: gain_def own_def)
    show ?thesis
      by (rule values_invI, unfold f h if_not_P [OF False]) (use I in \<open>auto split: if_splits\<close>)
  qed
qed

text \<open>A message goes; \<open>h\<close> is the heap without its block, in which the values \<open>D\<close> have been dropped.\<close>

lemma lose_inv:
  assumes i: "client_inv T s" and p: "cl_owned s p = Some k"
    and m: "mh_blocks h = (mh_blocks (cl_heap s))(p := None)" "mh_allocated h = mh_allocated (cl_heap s)"
    and l: "mset (mh_freed h) + mset (map (fst \<circ> snd) (mh_sent h)) =
      add_mset p (mset (mh_freed (cl_heap s)) + mset (map (fst \<circ> snd) (mh_sent (cl_heap s))))"
    and v: "mh_live h = mh_live (cl_heap s) - D" "D \<subseteq> v_id ` set_option (held s p)"
  shows "client_inv T (own p None h s)"
proof (rule client_invI)
  have fin: "finite (dom (cl_owned s))" using client_invD(1) [OF i] by (simp add: blocks_inv_def)
  show "blocks_inv T (own p None h s)"
    using client_invD(1) [OF i] m by (auto simp: blocks_inv_def own_def split: if_splits)
  have "mset_set (dom (cl_owned s)) = add_mset p (mset_set (dom (cl_owned s) - {p}))"
    using fin p by (simp add: mset_set.remove domI)
  then show "log_inv (own p None h s)"
    using client_invD(2) [OF i] m(2) l by (simp add: log_inv_def own_def add.assoc)
  have h: "held (own p None h s) = (held s)(p := None)"
    using m(1) by (auto simp: fun_eq_iff held_def own_def)
  note I = values_invD [OF client_invD(3) [OF i]]
  have D: "v_id w \<notin> D" if "held s q = Some w" "q \<noteq> p" for q w
  proof
    assume "v_id w \<in> D"
    then obtain v where "held s p = Some v" "v_id v = v_id w" using v(2) by (cases "held s p") auto
    then show False using I(6) [of p v q w] that by simp
  qed
  have D': "v_id x \<notin> D" if "x \<in> cl_values s" for x
  proof
    assume "v_id x \<in> D"
    then obtain v where "held s p = Some v" "v_id v = v_id x" using v(2) by (cases "held s p") auto
    then show False using I(5) [of p v x] that by simp
  qed
  have f: "cl_values (own p None h s) = cl_values s" "mh_live (cl_heap (own p None h s)) = mh_live (cl_heap s) - D"
    "cl_used (own p None h s) = cl_used s"
    by (simp_all add: own_def v)
  show "values_inv (own p None h s)"
  proof (rule values_invI, unfold f h)
    show "mh_live (cl_heap s) - D \<subseteq> cl_used s" using I(1) by auto
    show "v_id ` cl_values s \<subseteq> mh_live (cl_heap s) - D" using I(2) D' by auto
    show "inj_on v_id (cl_values s)" by (rule I(3))
    show "v_id w \<in> mh_live (cl_heap s) - D" if "((held s)(p := None)) q = Some w" for q w
      using that I(4) [of q w] D [of q w] by (auto split: if_splits)
    show "v_id w \<noteq> v_id x" if "((held s)(p := None)) q = Some w" "x \<in> cl_values s" for q w x
      using that I(5) [of q w x] by (auto split: if_splits)
    show "q = r" if "((held s)(p := None)) q = Some w" "((held s)(p := None)) r = Some x" "v_id w = v_id x" for q r w x
      using that I(6) [of q w r x] by (auto split: if_splits)
  qed
qed

lemma dom_owned: "client_inv T s \<Longrightarrow> dom (mh_blocks (cl_heap s)) = dom (cl_owned s) \<and> finite (dom (cl_owned s))"
  by (simp add: client_inv_def blocks_inv_def)

lemma alloc_fresh: "alloc_laws A \<Longrightarrow> client_inv T s \<Longrightarrow> A (mh_blocks (cl_heap s)) n \<notin> dom (cl_owned s)"
  using dom_owned [of T s] unfolding alloc_laws_def by metis

lemma as_i32_small: "n < 2 ^ 31 \<Longrightarrow> nat (as_i32 n) = n"
  by (simp add: as_i32_def Let_def)


subsection \<open>Every operation keeps it\<close>

lemma values_inv_cong:
  "held s = held t \<Longrightarrow> mh_live (cl_heap s) = mh_live (cl_heap t) \<Longrightarrow> cl_values s = cl_values t \<Longrightarrow> cl_used s = cl_used t \<Longrightarrow>
   values_inv s = values_inv t"
  by (simp add: values_inv_def)

lemma op_Make_Value: "client_inv T s \<Longrightarrow> v_id v \<notin> cl_used s \<Longrightarrow> \<exists>t. run_op A T swap (Make_Value v) s = Inr t \<and> client_inv T t"
proof -
  assume i: "client_inv T s" and v: "v_id v \<notin> cl_used s"
  let ?t = "s\<lparr>cl_heap := (cl_heap s)\<lparr>mh_live := insert (v_id v) (mh_live (cl_heap s))\<rparr>,
    cl_values := insert v (cl_values s), cl_used := insert (v_id v) (cl_used s)\<rparr>"
  note I = values_invD [OF client_invD(3) [OF i]]
  have h: "held ?t = held s" by (simp add: fun_eq_iff held_def)
  have "values_inv ?t"
  proof (rule values_invI, unfold h)
    show "v_id w \<noteq> v_id x" if "held s p = Some w" "x \<in> cl_values ?t" for p w x
      using that I(1) I(4) [of p w] I(5) [of p w] v by auto
    have "v_id v \<notin> v_id ` cl_values s" using I(1,2) v by blast
    then show "inj_on v_id (cl_values ?t)" using I(3) by auto
  qed (use I v in auto)
  moreover have "blocks_inv T ?t" "log_inv ?t"
    using client_invD(1,2) [OF i] by (simp_all add: blocks_inv_def log_inv_def)
  ultimately show ?thesis by (simp add: client_inv_def)
qed

lemma op_Drop_Value: "client_inv T s \<Longrightarrow> v \<in> cl_values s \<Longrightarrow> \<exists>t. run_op A T swap (Drop_Value v) s = Inr t \<and> client_inv T t"
proof -
  assume i: "client_inv T s" and v: "v \<in> cl_values s"
  note I = values_invD [OF client_invD(3) [OF i]]
  define D where "D = (if ty_needs_drop T then {v_id v} else {})"
  let ?h = "(cl_heap s)\<lparr>mh_live := mh_live (cl_heap s) - D\<rparr>"
  let ?t = "s\<lparr>cl_heap := ?h, cl_values := cl_values s - {v}\<rparr>"
  have d: "drop_value T v (cl_heap s) = Inr ?h" using I(2) v by (auto simp: drop_value_def D_def)
  have h: "held ?t = held s" by (simp add: fun_eq_iff held_def)
  have "values_inv ?t"
  proof (rule values_invI, unfold h)
    show "v_id w \<in> mh_live (cl_heap ?t)" if "held s p = Some w" for p w
      using that I(4) [of p w] I(5) [of p w v] v by (auto simp: D_def)
    show "v_id w \<noteq> v_id x" if "held s p = Some w" "x \<in> cl_values ?t" for p w x
      using that I(5) [of p w x] by auto
    show "v_id ` cl_values ?t \<subseteq> mh_live (cl_heap ?t)" using I(2,3) v by (auto simp: D_def inj_on_def)
    show "inj_on v_id (cl_values ?t)" using I(3) by (auto intro: inj_on_diff)
  qed (use I in auto)
  moreover have "blocks_inv T ?t" "log_inv ?t"
    using client_invD(1,2) [OF i] by (simp_all add: blocks_inv_def log_inv_def)
  ultimately show ?thesis using d by (simp add: client_inv_def)
qed

lemma op_New:
  assumes A: "alloc_laws A" and T: "ty_align T = 1" "ty_size T < 2 ^ 31" and i: "client_inv T s" and v: "v \<in> cl_values s" and d: "\<not> ty_needs_drop T"
  shows "\<exists>t. run_op A T swap (New v) s = Inr t \<and> client_inv T t"
proof -
  let ?p = "A (mh_blocks (cl_heap s)) (as_i32 (ty_size T))"
  have "run_op A T swap (New v) s = Inr (gain ?p Is_Init \<lparr>bl_size = ty_size T, bl_content = Value v\<rparr> {v} s)"
    using T d by (simp add: msg_new_def msg_alloc_def msg_store_def drop_value_def as_i32_small gain_def own_def Let_def)
  then show ?thesis
    using gain_inv [OF i alloc_fresh [OF A i], where k = Is_Init and b = "\<lparr>bl_size = ty_size T, bl_content = Value v\<rparr>" and V = "{v}" and v = v] v
    by (auto simp: block_ok_def)
qed

lemma op_New_Uninit:
  assumes A: "alloc_laws A" and T: "ty_align T = 1" "ty_size T < 2 ^ 31" and i: "client_inv T s"
  shows "\<exists>t. run_op A T swap New_Uninit s = Inr t \<and> client_inv T t"
proof -
  let ?p = "A (mh_blocks (cl_heap s)) (as_i32 (ty_size T))"
  have "run_op A T swap New_Uninit s = Inr (gain ?p Is_Uninit \<lparr>bl_size = ty_size T, bl_content = Uninit\<rparr> {} s)"
    using T by (simp add: message_new_uninit_def msg_alloc_def as_i32_small gain_def own_def Let_def)
  then show ?thesis
    using gain_inv [OF i alloc_fresh [OF A i], where k = Is_Uninit and b = "\<lparr>bl_size = ty_size T, bl_content = Uninit\<rparr>" and V = "{}"]
    by (auto simp: block_ok_def)
qed

lemma op_New_Bytes:
  assumes A: "alloc_laws A" and i: "client_inv T s" and n: "n < 2 ^ 31"
  shows "\<exists>t. run_op A T swap (New_Bytes n) s = Inr t \<and> client_inv T t"
proof -
  let ?p = "A (mh_blocks (cl_heap s)) (as_i32 n)"
  have "run_op A T swap (New_Bytes n) s =
      Inr (gain ?p Is_Bytes \<lparr>bl_size = n, bl_content = Bytes (replicate n 0)\<rparr> {} s)"
    using n by (simp add: message_new_bytes_def msg_alloc_def msg_store_def as_i32_small gain_def own_def Let_def)
  then show ?thesis
    using gain_inv [OF i alloc_fresh [OF A i], where k = Is_Bytes and b = "\<lparr>bl_size = n, bl_content = Bytes (replicate n 0)\<rparr>" and V = "{}"]
    by (auto simp: block_ok_def)
qed

lemma op_Write_Message:
  assumes i: "client_inv T s" and m: "cl_owned s m = Some Is_Uninit" and v: "v \<in> cl_values s"
  shows "\<exists>t. run_op A T swap (Write_Message m v) s = Inr t \<and> client_inv T t"
proof -
  obtain b where b: "mh_blocks (cl_heap s) m = Some b" "ty_size T \<le> bl_size b"
    using owned_block [OF i m] by (auto simp: block_ok_def)
  let ?b = "b\<lparr>bl_content := Value v\<rparr>"
  let ?h = "(cl_heap s)\<lparr>mh_blocks := (mh_blocks (cl_heap s))(m \<mapsto> ?b)\<rparr>"
  let ?t = "(own m (Some Is_Init) ?h s)\<lparr>cl_values := cl_values s - {v}\<rparr>"
  have r: "run_op A T swap (Write_Message m v) s = Inr ?t"
    using b by (simp add: message_write_def msg_store_def msg_assume_init_def into_raw_def)
  let ?g = "(cl_heap s)\<lparr>mh_blocks := (mh_blocks (cl_heap s))(m := None), mh_freed := mh_freed (cl_heap s) @ [m]\<rparr>"
  have l: "client_inv T (own m None ?g s)"
    by (rule lose_inv [OF i m, where D = "{}"]) simp_all
  have "client_inv T (gain m Is_Init ?b {v} (own m None ?g s))"
    by (rule gain_inv [OF l, where v = v]) (use v in \<open>simp_all add: own_def block_ok_def\<close>)
  moreover have "held (gain m Is_Init ?b {v} (own m None ?g s)) = held ?t"
    by (auto simp: fun_eq_iff held_def gain_def own_def)
  ultimately have "values_inv ?t"
    using values_inv_cong [of ?t "gain m Is_Init ?b {v} (own m None ?g s)"]
    by (simp add: client_inv_def gain_def own_def)
  moreover have "blocks_inv T ?t"
    using client_invD(1) [OF i] by (auto simp: blocks_inv_def own_def block_ok_def)
  moreover have "log_inv ?t"
    using client_invD(2) [OF i] m by (simp add: log_inv_def own_def insert_absorb domI)
  ultimately show ?thesis using r by (simp add: client_inv_def)
qed

lemma op_Drop_Message:
  assumes i: "client_inv T s" and m: "cl_owned s m = Some k"
  shows "\<exists>t. run_op A T swap (Drop_Message m) s = Inr t \<and> client_inv T t"
proof -
  obtain b where b: "mh_blocks (cl_heap s) m = Some b" "block_ok T k b"
    using owned_block [OF i m] by blast
  define D where "D = (if k = Is_Init \<and> ty_needs_drop T then v_id ` set_option (held s m) else {})"
  let ?h = "(cl_heap s)\<lparr>mh_live := mh_live (cl_heap s) - D, mh_blocks := (mh_blocks (cl_heap s))(m := None),
    mh_freed := mh_freed (cl_heap s) @ [m]\<rparr>"
  have "run_op A T swap (Drop_Message m) s = Inr (own m None ?h s)"
  proof (cases k)
    case Is_Init
    then obtain v where v: "bl_content b = Value v" using b(2) by (auto simp: block_ok_def split: content.splits)
    then have h: "held s m = Some v" using b m Is_Init by (simp add: held_def)
    then have "v_id v \<in> mh_live (cl_heap s)" by (rule values_invD(4) [OF client_invD(3) [OF i]])
    then show ?thesis
      using b v h m Is_Init by (auto simp: message_drop_def message_deref_def drop_value_def msg_free_def D_def domI)
  qed (use b m in \<open>auto simp: message_drop_def msg_free_def D_def\<close>)
  moreover have "client_inv T (own m None ?h s)"
    by (rule lose_inv [OF i m, where D = D]) (auto simp: D_def)
  ultimately show ?thesis by blast
qed

lemma op_Send_Ne:
  assumes i: "client_inv T s" and m: "cl_owned s m = Some k"
  shows "\<exists>t. run_op A T swap (Send_Ne r m) s = Inr t \<and> client_inv T t"
proof -
  obtain b where b: "mh_blocks (cl_heap s) m = Some b" using owned_block [OF i m] by blast
  let ?h = "(cl_heap s)\<lparr>mh_blocks := (mh_blocks (cl_heap s))(m := None), mh_sent := mh_sent (cl_heap s) @ [(r, m, b)]\<rparr>"
  have "run_op A T swap (Send_Ne r m) s = Inr (own m None ?h s)"
    using b by (simp add: stream_send_message_ne_def registration_send_message_def into_raw_def send_msg_def)
  moreover have "client_inv T (own m None ?h s)"
    by (rule lose_inv [OF i m, where D = "{}"]) simp_all
  ultimately show ?thesis by blast
qed

lemma op_Stream_Send:
  assumes i: "client_inv T s" and m: "cl_owned s m = Some Is_Init"
  shows "\<exists>t b v. run_op A T swap (Stream_Send r m) s = Inr t \<and> client_inv T t \<and>
    mh_blocks (cl_heap s) m = Some b \<and> bl_content b = Value v \<and>
    mh_sent (cl_heap t) = mh_sent (cl_heap s) @ [(r, m, b\<lparr>bl_content := Value (v\<lparr>v_data := swap True (v_data v)\<rparr>)\<rparr>)]"
proof -
  obtain b where b0: "mh_blocks (cl_heap s) m = Some b" "block_ok T Is_Init b" using owned_block [OF i m] by blast
  then obtain v where b: "mh_blocks (cl_heap s) m = Some b" "bl_content b = Value v"
    by (cases "bl_content b") (auto simp: block_ok_def)
  let ?b = "b\<lparr>bl_content := Value (v\<lparr>v_data := swap True (v_data v)\<rparr>)\<rparr>"
  let ?h = "(cl_heap s)\<lparr>mh_blocks := (mh_blocks (cl_heap s))(m := None), mh_sent := mh_sent (cl_heap s) @ [(r, m, ?b)]\<rparr>"
  have "run_op A T swap (Stream_Send r m) s = Inr (own m None ?h s)"
    using b by (simp add: stream_send_message_def msg_endian_swap_def message_deref_def msg_store_def
        stream_send_message_ne_def registration_send_message_def into_raw_def send_msg_def)
  moreover have "client_inv T (own m None ?h s)"
    by (rule lose_inv [OF i m, where D = "{}"]) simp_all
  ultimately show ?thesis using b by (auto simp: own_def)
qed


section \<open>Ownership\<close>

lemma op_keeps:
  assumes A: "alloc_laws A" and T: "ty_align T = 1" "ty_size T < 2 ^ 31"
    and i: "client_inv T s" and op: "typed op s" "careful T op"
  shows "\<exists>t. run_op A T swap op s = Inr t \<and> client_inv T t"
proof (cases op)
  case (Make_Value v)
  then show ?thesis using op op_Make_Value [OF i] by simp
next
  case (Drop_Value v)
  then show ?thesis using op op_Drop_Value [OF i] by simp
next
  case (New v)
  then show ?thesis using op op_New [OF A T i] by simp
next
  case New_Uninit
  then show ?thesis using op_New_Uninit [OF A T i] by simp
next
  case (New_Bytes n)
  then show ?thesis using op op_New_Bytes [OF A i] by simp
next
  case (Write_Message m v)
  then show ?thesis using op op_Write_Message [OF i] by simp
next
  case (Drop_Message m)
  then show ?thesis using op op_Drop_Message [OF i] by (cases "cl_owned s m") auto
next
  case (Send_Ne r m)
  then show ?thesis using op op_Send_Ne [OF i] by (cases "cl_owned s m") auto
next
  case (Stream_Send r m)
  then show ?thesis using op op_Stream_Send [OF i, where m = m and swap = swap and A = A and r = r] by auto
qed

lemma ops_keep:
  "alloc_laws A \<Longrightarrow> ty_align T = 1 \<Longrightarrow> ty_size T < 2 ^ 31 \<Longrightarrow> client_inv T s \<Longrightarrow> typed_ops A T swap ops s \<Longrightarrow>
   list_all (careful T) ops \<Longrightarrow> \<exists>t. run_ops A T swap ops s = Inr t \<and> client_inv T t"
proof (induction ops arbitrary: s)
  case (Cons op ops)
  obtain t where t: "run_op A T swap op s = Inr t" "client_inv T t"
    using op_keeps [OF Cons.prems(1-4)] Cons.prems(5,6) by auto
  then show ?case
    using Cons.IH [OF Cons.prems(1-3) t(2)] Cons.prems(5,6) by (simp add: try_bind_def)
qed simp

lemma msg_start_inv: "client_inv T msg_start"
  by (auto simp: client_inv_def blocks_inv_def log_inv_def values_inv_def msg_start_def held_def)

text \<open>C25: A program that the compiler accepts, with messages of a type of alignment one and less than 2 GiB, that uses \<open>new\<close> only for types
  whose values need no drop and byte messages below 2 GiB, never touches memory it does not own and never
  drops a value twice.  Every block that was allocated is, as often as it was allocated, owned by exactly
  one message, freed once or handed over to VPP once; what is owned is what is allocated.\<close>

theorem message_ownership:
  assumes "alloc_laws A" "ty_align T = 1" "ty_size T < 2 ^ 31"
    and "typed_ops A T swap ops msg_start" "list_all (careful T) ops"
  shows "\<exists>s. run_ops A T swap ops msg_start = Inr s \<and> dom (mh_blocks (cl_heap s)) = dom (cl_owned s) \<and>
    mset (mh_allocated (cl_heap s)) =
      mset_set (dom (cl_owned s)) + mset (mh_freed (cl_heap s)) + mset (map (fst \<circ> snd) (mh_sent (cl_heap s))) \<and>
    v_id ` cl_values s \<subseteq> mh_live (cl_heap s)"
  using ops_keep [OF assms(1-3) msg_start_inv assms(4,5)]
  by (auto simp: client_inv_def blocks_inv_def log_inv_def values_inv_def)

text \<open>The lowest address that is not in use.\<close>

definition first_free :: "'d allocator" where
  "first_free m n = (if dom m = {} then 1 else Suc (Max (dom m)))"

lemma first_free_laws: "alloc_laws first_free"
  unfolding alloc_laws_def
proof (intro allI impI)
  fix m :: "nat \<rightharpoonup> 'd msg_block" and n
  assume f: "finite (dom m)"
  show "first_free m n \<notin> dom m"
  proof
    assume "first_free m n \<in> dom m"
    moreover from this have "dom m \<noteq> {}" by auto
    ultimately have "Suc (Max (dom m)) \<le> Max (dom m)" using f by (simp add: first_free_def)
    then show False by simp
  qed
qed

definition sample_type :: msg_type where
  "sample_type = \<lparr>ty_size = 26, ty_align = 1, ty_needs_drop = True\<rparr>"

definition sample_value :: "nat \<Rightarrow> nat msg_value" where
  "sample_value d = \<lparr>v_id = 5, v_data = d\<rparr>"

definition sample_ops :: "nat msg_op list" where
  "sample_ops = [Make_Value (sample_value 3), New_Uninit, Write_Message 1 (sample_value 3), New_Bytes 4, Stream_Send 9 1,
     Drop_Message 2]"

lemma sample_run:
  "typed_ops first_free sample_type (\<lambda>to_net d. d * 256) sample_ops msg_start"
  "map_sum (\<lambda>_. ()) (\<lambda>s. (mh_sent (cl_heap s), mh_freed (cl_heap s), mh_allocated (cl_heap s)))
     (run_ops first_free sample_type (\<lambda>to_net d. d * 256) sample_ops msg_start) =
   Inr ([(9, 1, \<lparr>bl_size = 26, bl_content = Value (sample_value 768)\<rparr>)], [2], [1, 2])"
  by (simp_all add: sample_ops_def sample_type_def sample_value_def msg_start_def message_new_uninit_def message_new_bytes_def
      msg_alloc_def first_free_def msg_store_def message_write_def msg_assume_init_def into_raw_def own_def as_i32_def
      stream_send_message_def msg_endian_swap_def message_deref_def stream_send_message_ne_def
      registration_send_message_def send_msg_def message_drop_def msg_free_def try_bind_def)

lemma message_ownership_witness:
  "\<exists>s. run_ops first_free sample_type (\<lambda>to_net d. d * 256) sample_ops msg_start = Inr s \<and>
     dom (mh_blocks (cl_heap s)) = dom (cl_owned s) \<and> mh_freed (cl_heap s) = [2]"
  using message_ownership [OF first_free_laws, of sample_type "\<lambda>to_net d. d * 256" sample_ops] sample_run
  by (auto simp: sample_type_def sample_ops_def)

text \<open>\<open>Message::new\<close> of a value that needs a drop leaves the message with a value that is gone: dropping the message
  drops it a second time, which is undefined behaviour, although the compiler accepts the program.  With
  \<open>new_uninit\<close> and \<open>write\<close> the same program is well behaved.\<close>

theorem new_drops_twice:
  assumes "alloc_laws A" "ty_align T = 1" "ty_size T < 2 ^ 31" "ty_needs_drop T"
  shows "typed_ops A T swap [Make_Value v, New v, Drop_Message (A Map.empty (as_i32 (ty_size T)))] msg_start \<and>
    run_ops A T swap [Make_Value v, New v, Drop_Message (A Map.empty (as_i32 (ty_size T)))] msg_start = Inl Undefined_Behaviour \<and>
    (\<exists>s. run_ops A T swap [Make_Value v, New_Uninit, Write_Message (A Map.empty (as_i32 (ty_size T))) v,
        Drop_Message (A Map.empty (as_i32 (ty_size T)))] msg_start = Inr s \<and>
      mh_live (cl_heap s) = {} \<and> mh_freed (cl_heap s) = [A Map.empty (as_i32 (ty_size T))])"
  using assms
  by (auto simp: msg_start_def msg_new_def message_new_uninit_def msg_alloc_def msg_store_def message_write_def
      msg_assume_init_def into_raw_def own_def as_i32_small message_deref_def message_drop_def msg_free_def drop_value_def
      try_bind_def Let_def)

lemma new_drops_twice_witness:
  "run_ops first_free sample_type (\<lambda>_ d. d) [Make_Value (sample_value 3), New (sample_value 3), Drop_Message 1] msg_start =
     Inl Undefined_Behaviour"
  using new_drops_twice [OF first_free_laws, of sample_type "\<lambda>_ d. d" "sample_value 3"]
  by (simp add: sample_type_def first_free_def)

text \<open>\<open>new_bytes\<close> casts the number of bytes to \<open>i32\<close>: below 2 GiB it returns a zeroed block of that size; from
  there on the allocator is asked for a negative number, and the zeros are written past what it gives.\<close>

theorem new_bytes_bound:
  assumes "n < 2 ^ 32"
  shows "if n < 2 ^ 31
     then \<exists>p h'. message_new_bytes A n h = Inr (p, h') \<and>
       mh_blocks h' p = Some \<lparr>bl_size = n, bl_content = Bytes (replicate n 0)\<rparr>
     else as_i32 n < 0 \<and> message_new_bytes A n h = Inl Undefined_Behaviour"
proof (cases "n < 2 ^ 31")
  case True
  then show ?thesis by (simp add: message_new_bytes_def msg_alloc_def msg_store_def as_i32_small Let_def)
next
  case False
  then have neg: "as_i32 n < 0" using assms by (simp add: as_i32_def Let_def)
  moreover have "message_new_bytes A n h = Inl Undefined_Behaviour"
    using neg False by (simp add: message_new_bytes_def msg_alloc_def msg_store_def Let_def)
  ultimately show ?thesis using False by simp
qed

lemma new_bytes_bound_witness:
  "message_new_bytes first_free (2 ^ 31) (cl_heap (msg_start :: nat msg_client)) = Inl Undefined_Behaviour"
  using new_bytes_bound [of "2 ^ 31" first_free "cl_heap (msg_start :: nat msg_client)"] by simp

end
