(* ===== verification/Buffer.thy ===== *)
theory Buffer
  imports Vpp_Vec
begin

text \<open>
  Packet buffers, \<open>vpp-plugin/src/vlib/buffer.rs\<close>: the position and length of the data in a buffer,
  and \<open>get_buffers\<close>, which turns buffer indices into pointers eight at a time.  Integers are numbers
  with their width written out; \<open>dbg\<close> is the build profile.
\<close>

section \<open>Data of a buffer\<close>

record vlib_buffer =
  current_data :: int
  current_length :: nat
  next_present :: bool
  total_length_valid :: bool
  total_length_not_including_first :: nat

definition VLIB_BUFFER_PRE_DATA_SIZE :: int where
  "VLIB_BUFFER_PRE_DATA_SIZE = 128"

definition VLIB_BUFFER_MIN_CHAIN_SEG_SIZE :: nat where
  "VLIB_BUFFER_MIN_CHAIN_SEG_SIZE = 128"

definition U16_MAX :: nat where
  "U16_MAX = 65535"

text \<open>An \<open>i16\<close> result: out of range it panics with overflow checks and wraps without.\<close>

definition to_i16 :: "bool \<Rightarrow> int \<Rightarrow> fault + int" where
  "to_i16 dbg x = (if -32768 \<le> x \<and> x \<le> 32767 then Inr x else if dbg then Inl Panic
     else Inr ((x + 32768) mod 65536 - 32768))"

definition i16_as_u16 :: "int \<Rightarrow> nat" where
  "i16_as_u16 x = nat (x mod 65536)"

definition has_space :: "vlib_buffer \<Rightarrow> int \<Rightarrow> bool" where
  "has_space b l \<longleftrightarrow> i16_as_u16 l \<le> current_length b"

definition advance_asserts :: "bool \<Rightarrow> vlib_buffer \<Rightarrow> int \<Rightarrow> fault + unit" where
  "advance_asserts dbg b l =
     (if \<not> dbg then Inr ()
      else if 0 \<le> l then debug_assert dbg (i16_as_u16 l \<le> current_length b)
      else try_bind (to_i16 dbg (current_data b + VLIB_BUFFER_PRE_DATA_SIZE)) (\<lambda>room.
           try_bind (to_i16 dbg (- l)) (\<lambda>back. debug_assert dbg (back \<le> room))))"

definition advance :: "bool \<Rightarrow> vlib_buffer \<Rightarrow> int \<Rightarrow> fault + vlib_buffer" where
  "advance dbg b l =
     try_bind (advance_asserts dbg b l) (\<lambda>_.
     try_bind (to_i16 dbg (current_data b + l)) (\<lambda>data.
     try_bind (if 0 \<le> l then arith_sub dbg U16_MAX (current_length b) (i16_as_u16 l)
               else try_bind (to_i16 dbg (- l)) (\<lambda>back. arith_add dbg U16_MAX (current_length b) (i16_as_u16 back))) (\<lambda>len.
     try_bind (debug_assert dbg (\<not> next_present b \<or> VLIB_BUFFER_MIN_CHAIN_SEG_SIZE \<le> len)) (\<lambda>_.
       Inr (b\<lparr>current_data := data, current_length := len\<rparr>)))))"

text \<open>The offset of the new data.\<close>

definition put_uninit :: "bool \<Rightarrow> vlib_buffer \<Rightarrow> nat \<Rightarrow> fault + int \<times> vlib_buffer" where
  "put_uninit dbg b sz =
     try_bind (debug_assert dbg (- VLIB_BUFFER_PRE_DATA_SIZE \<le> current_data b)) (\<lambda>_.
     try_bind (arith_add dbg U16_MAX (current_length b) sz) (\<lambda>len.
       Inr (current_data b + int (current_length b), b\<lparr>current_length := len\<rparr>)))"

text \<open>\<open>slow_path\<close> is the C function that walks the chain.\<close>

definition length_in_chain :: "(vlib_buffer \<Rightarrow> nat) \<Rightarrow> vlib_buffer \<Rightarrow> nat" where
  "length_in_chain slow_path b =
     (if \<not> next_present b then current_length b
      else if total_length_valid b then current_length b + total_length_not_including_first b
      else slow_path b)"

text \<open>The data starts in the headroom or later and ends in a data area of at most 32639 bytes, above which
  the addition of the headroom in the assertion overflows.\<close>

definition buffer_ok :: "vlib_buffer \<Rightarrow> bool" where
  "buffer_ok b \<longleftrightarrow> -128 \<le> current_data b \<and> current_data b + int (current_length b) \<le> 32639 \<and> current_length b \<le> U16_MAX"

text \<open>On a buffer whose data lies in its memory, advancing with debug assertions succeeds exactly
  when the step stays inside the data or the headroom and the rest of a chained buffer is not too
  short; it then moves the start of the data by the step and leaves its end, so that the buffer is
  well formed again.  Without assertions the same steps give the same result.\<close>

theorem advance_exact:
  assumes "buffer_ok b" "-32768 \<le> l" "l \<le> 32767"
  defines "fits \<equiv> - 128 \<le> current_data b + l \<and> l \<le> int (current_length b) \<and>
    (next_present b \<longrightarrow> l + 128 \<le> int (current_length b))"
  shows "(if fits
     then \<exists>b'. advance True b l = Inr b' \<and> advance False b l = Inr b' \<and> buffer_ok b' \<and>
       current_data b' = current_data b + l \<and>
       current_data b' + int (current_length b') = current_data b + int (current_length b)
     else advance True b l = Inl Panic)"
proof -
  note defs = advance_def advance_asserts_def to_i16_def i16_as_u16_def arith_add_def arith_sub_def debug_assert_def
    U16_MAX_def VLIB_BUFFER_PRE_DATA_SIZE_def VLIB_BUFFER_MIN_CHAIN_SEG_SIZE_def
  have m: "nat (l mod 65536) = nat l" if "0 \<le> l" using that assms(3) by (simp add: mod_pos_pos_trivial)
  have m': "nat ((- l) mod 65536) = nat (- l)" if "l < 0" using that assms(2) by (simp add: mod_pos_pos_trivial)
  show ?thesis
  proof (cases "0 \<le> l")
    case True
    then show ?thesis using assms(1-3) m unfolding fits_def
      by (auto simp: defs buffer_ok_def)
  next
    case False
    then show ?thesis using assms(1-3) m' unfolding fits_def
      by (auto simp: defs buffer_ok_def)
  qed
qed

lemma advance_exact_witness:
  "\<exists>b'. advance True \<lparr>current_data = 0, current_length = 60, next_present = False, total_length_valid = False,
      total_length_not_including_first = 0\<rparr> 14 = Inr b' \<and> current_data b' = 14"
  using advance_exact[of "\<lparr>current_data = 0, current_length = 60, next_present = False, total_length_valid = False,
      total_length_not_including_first = 0\<rparr>" 14]
  by (auto simp: buffer_ok_def U16_MAX_def)

section \<open>Pointers from indices\<close>

text \<open>
  The memory of the indices may be longer than the slice; the array of pointers has \<open>N\<close> cells.  An
  access outside them is undefined behaviour.
\<close>

definition CLIB_LOG2_CACHE_LINE_BYTES :: nat where
  "CLIB_LOG2_CACHE_LINE_BYTES = 6"

text \<open>For a power of two the mask of the source clears the remainder.\<close>

definition next_multiple_of_pow2 :: "nat \<Rightarrow> nat \<Rightarrow> nat" where
  "next_multiple_of_pow2 val pow2 = (val + pow2 - 1) div pow2 * pow2"

definition from_u32_ptr :: "nat list \<Rightarrow> nat \<Rightarrow> fault + nat list" where
  "from_u32_ptr mem i = (if i + 8 \<le> length mem then Inr (take 8 (drop i mem)) else Inl Undefined_Behaviour)"

definition shift_elements_left :: "nat \<Rightarrow> nat list \<Rightarrow> nat list" where
  "shift_elements_left offset xs = map (\<lambda>a. a * 2 ^ offset mod 2 ^ 64) xs"

fun add_u64 :: "bool \<Rightarrow> nat \<Rightarrow> nat list \<Rightarrow> fault + nat list" where
  "add_u64 dbg v [] = Inr []"
| "add_u64 dbg v (x # xs) = try_bind (arith_add dbg (2 ^ 64 - 1) x v) (\<lambda>y. try_bind (add_u64 dbg v xs) (\<lambda>ys. Inr (y # ys)))"

definition store :: "nat list \<Rightarrow> nat option list \<Rightarrow> nat \<Rightarrow> fault + nat option list" where
  "store xs cells i =
     (if i + length xs \<le> length cells then Inr (take i cells @ map Some xs @ drop (i + length xs) cells)
      else Inl Undefined_Behaviour)"

text \<open>\<open>k\<close> blocks of eight: all are loaded, shifted and added before the first is stored.\<close>

fun block_ptrs :: "bool \<Rightarrow> nat \<Rightarrow> nat list \<Rightarrow> nat \<Rightarrow> nat \<Rightarrow> fault + nat list list" where
  "block_ptrs dbg start mem i 0 = Inr []"
| "block_ptrs dbg start mem i (Suc k) =
     try_bind (from_u32_ptr mem i) (\<lambda>x8.
     try_bind (add_u64 dbg start (shift_elements_left CLIB_LOG2_CACHE_LINE_BYTES x8)) (\<lambda>ptrs.
     try_bind (block_ptrs dbg start mem (i + 8) k) (\<lambda>rest. Inr (ptrs # rest))))"

fun store_blocks :: "nat list list \<Rightarrow> nat option list \<Rightarrow> nat \<Rightarrow> fault + nat option list" where
  "store_blocks [] cells i = Inr cells"
| "store_blocks (b # bs) cells i = try_bind (store b cells i) (\<lambda>cells. store_blocks bs cells (i + 8))"

definition move_blocks :: "bool \<Rightarrow> nat \<Rightarrow> nat list \<Rightarrow> nat \<Rightarrow> nat \<Rightarrow> nat option list \<Rightarrow> fault + nat option list" where
  "move_blocks dbg start mem k i cells = try_bind (block_ptrs dbg start mem i k) (\<lambda>bs. store_blocks bs cells i)"

definition move_tail :: "bool \<Rightarrow> nat \<Rightarrow> nat list \<Rightarrow> nat \<Rightarrow> nat \<Rightarrow> nat option list \<Rightarrow> fault + nat option list" where
  "move_tail dbg start mem i len cells =
     try_bind (if 32 \<le> len then move_blocks dbg start mem 4 i cells else Inr cells) (\<lambda>cells.
     let (i, len) = (if 32 \<le> len then (i + 32, len - 32) else (i, len)) in
     try_bind (if 16 \<le> len then move_blocks dbg start mem 2 i cells else Inr cells) (\<lambda>cells.
     let (i, len) = (if 16 \<le> len then (i + 16, len - 16) else (i, len)) in
     if 0 < len then move_blocks dbg start mem 1 i cells else Inr cells))"

function move_loop :: "bool \<Rightarrow> nat \<Rightarrow> nat list \<Rightarrow> nat \<Rightarrow> nat \<Rightarrow> nat option list \<Rightarrow> fault + nat option list" where
  "move_loop dbg start mem i len cells =
     (if 64 \<le> len then
        try_bind (move_blocks dbg start mem 8 i cells) (\<lambda>cells. move_loop dbg start mem (i + 64) (len - 64) cells)
      else move_tail dbg start mem i len cells)"
  by auto
termination by (relation "measure (\<lambda>(dbg, start, mem, i, len, cells). len)") auto

declare move_loop.simps [simp del]

text \<open>The generic path: \<open>u32\<close> shifts, and \<open>push\<close> behind what the array holds already.\<close>

definition generic_ptr :: "nat \<Rightarrow> nat \<Rightarrow> nat" where
  "generic_ptr start x = start + x * 2 ^ CLIB_LOG2_CACHE_LINE_BYTES mod 2 ^ 32"

definition index_assert :: "bool \<Rightarrow> nat \<Rightarrow> nat \<Rightarrow> bool" where
  "index_assert dbg mem_size x \<longleftrightarrow> dbg \<longrightarrow> x * 2 ^ CLIB_LOG2_CACHE_LINE_BYTES mod 2 ^ 32 < mem_size"

text \<open>
  \<open>from\<close> is the slice of \<open>n\<close> indices at the front of \<open>mem\<close>; \<open>held\<close> is what the array of capacity \<open>N\<close>
  holds before.  The result is what it holds after.
\<close>

definition get_buffers ::
  "bool \<Rightarrow> nat \<Rightarrow> nat \<Rightarrow> nat list \<Rightarrow> nat \<Rightarrow> nat \<Rightarrow> nat list \<Rightarrow> fault + nat option list" where
  "get_buffers dbg start mem_size mem n N held =
     try_bind (debug_assert dbg (n \<le> N)) (\<lambda>_.
     if N < n then Inl Undefined_Behaviour
     else try_bind (debug_assert dbg (list_all (index_assert dbg mem_size) (take n mem))) (\<lambda>_.
     if N mod 8 \<noteq> 0 then
       (if N < length held + n then Inl Undefined_Behaviour
        else Inr (map Some (held @ map (generic_ptr start) (take n mem))))
     else
       try_bind (move_loop dbg start mem 0 (next_multiple_of_pow2 n 8)
          (map Some held @ replicate (N - length held) None)) (\<lambda>cells. Inr (take n cells))))"

section \<open>The block moves\<close>

definition ptr :: "nat \<Rightarrow> nat \<Rightarrow> nat" where
  "ptr start x = start + x * 64"

definition moved :: "nat \<Rightarrow> nat list \<Rightarrow> nat \<Rightarrow> nat \<Rightarrow> nat option list \<Rightarrow> nat option list" where
  "moved start mem i m cells = take i cells @ map (\<lambda>x. Some (ptr start x)) (take m (drop i mem)) @ drop (i + m) cells"

definition ptrs_fit :: "nat \<Rightarrow> nat list \<Rightarrow> bool" where
  "ptrs_fit start mem \<longleftrightarrow> start + 2 ^ 38 \<le> 2 ^ 64 \<and> list_all (\<lambda>x. x < 2 ^ 32) mem"

lemma add_u64_ok: "list_all (\<lambda>x. x + v < 2 ^ 64) xs \<Longrightarrow> add_u64 dbg v xs = Inr (map (\<lambda>x. x + v) xs)"
  by (induction xs) (auto simp: arith_add_def)

lemma shifted_ptrs:
  assumes "ptrs_fit start xs"
  shows "add_u64 dbg start (shift_elements_left CLIB_LOG2_CACHE_LINE_BYTES xs) = Inr (map (ptr start) xs)"
proof -
  have s: "shift_elements_left CLIB_LOG2_CACHE_LINE_BYTES xs = map (\<lambda>x. x * 64) xs"
    using assms by (auto simp: shift_elements_left_def CLIB_LOG2_CACHE_LINE_BYTES_def ptrs_fit_def list_all_iff)
  show ?thesis
    unfolding s using assms
    by (subst add_u64_ok) (auto simp: ptrs_fit_def list_all_iff ptr_def)
qed

lemma ptrs_fit_part: "ptrs_fit start mem \<Longrightarrow> ptrs_fit start (take m (drop i mem))"
  by (auto simp: ptrs_fit_def list_all_iff dest: in_set_takeD in_set_dropD)

lemma block_ptrs_ok:
  assumes "ptrs_fit start mem"
  shows "i + 8 * k \<le> length mem \<Longrightarrow>
    \<exists>bs. block_ptrs dbg start mem i k = Inr bs \<and> list_all (\<lambda>b. length b = 8) bs \<and> length bs = k \<and>
      concat bs = map (ptr start) (take (8 * k) (drop i mem))"
proof (induction k arbitrary: i)
  case (Suc k)
  then have "(i + 8) + 8 * k \<le> length mem" by simp
  from Suc.IH[OF this] obtain bs where bs: "block_ptrs dbg start mem (i + 8) k = Inr bs" "list_all (\<lambda>b. length b = 8) bs"
    "length bs = k" "concat bs = map (ptr start) (take (8 * k) (drop (i + 8) mem))" by blast
  have split: "take (8 * Suc k) (drop i mem) = take 8 (drop i mem) @ take (8 * k) (drop (i + 8) mem)"
    using take_add[of 8 "8 * k" "drop i mem"] by (simp add: add.commute)
  from Suc.prems have "i + 8 \<le> length mem" by simp
  then show ?case
    using bs shifted_ptrs[OF ptrs_fit_part[OF assms, of 8 i]] unfolding split
    by (simp add: from_u32_ptr_def)
qed simp

lemma store_blocks_ok:
  "list_all (\<lambda>b. length b = 8) bs \<Longrightarrow> i + 8 * length bs \<le> length cells \<Longrightarrow>
    store_blocks bs cells i = Inr (take i cells @ map Some (concat bs) @ drop (i + 8 * length bs) cells)"
proof (induction bs arbitrary: cells i)
  case (Cons b bs)
  have e: "drop (8 * length bs + (i + 8)) cells = drop (i + (8 + 8 * length bs)) cells" by (simp add: ac_simps)
  from Cons show ?case by (simp add: store_def add.assoc e)
qed simp

lemma move_blocks_ok:
  assumes "ptrs_fit start mem" "i + 8 * k \<le> length mem" "i + 8 * k \<le> length cells"
  shows "move_blocks dbg start mem k i cells = Inr (moved start mem i (8 * k) cells)"
proof -
  from block_ptrs_ok[OF assms(1,2)] obtain bs where "block_ptrs dbg start mem i k = Inr bs" "list_all (\<lambda>b. length b = 8) bs"
    "length bs = k" "concat bs = map (ptr start) (take (8 * k) (drop i mem))" by blast
  with assms(3) show ?thesis by (simp add: move_blocks_def store_blocks_ok moved_def)
qed

lemma moved_length: "i + m \<le> length mem \<Longrightarrow> i + m \<le> length cells \<Longrightarrow> length (moved start mem i m cells) = length cells"
  by (simp add: moved_def)

lemma moved_0 [simp]: "moved start mem i 0 cells = cells"
  by (simp add: moved_def)

lemma moved_moved:
  assumes "i + m + m' \<le> length mem" "i + m + m' \<le> length cells"
  shows "moved start mem (i + m) m' (moved start mem i m cells) = moved start mem i (m + m') cells"
  using assms by (simp add: moved_def take_add add.assoc add.commute[of m i] drop_drop ac_simps)

lemma moved_moved':
  assumes "i + m + m' \<le> length mem" "i + m + m' \<le> length cells"
  shows "moved start mem (m + i) m' (moved start mem i m cells) = moved start mem i (m + m') cells"
  unfolding add.commute[of m i] by (rule moved_moved[OF assms])

lemma move_tail_ok:
  assumes fit: "ptrs_fit start mem" and len: "len mod 8 = 0" "len < 64" "i + len \<le> length mem" "i + len \<le> length cells"
  shows "move_tail dbg start mem i len cells = Inr (moved start mem i len cells)"
proof -
  note ok = move_blocks_ok[OF fit] moved_moved moved_moved' moved_length
  have "len \<in> {0, 8, 16, 24, 32, 40, 48, 56}" using len(1,2) by (auto simp: mod_eq_0_iff_dvd dvd_def)
  then show ?thesis using len ok by (auto simp: move_tail_def)
qed

lemma move_loop_ok:
  assumes fit: "ptrs_fit start mem"
  shows "len mod 8 = 0 \<Longrightarrow> i + len \<le> length mem \<Longrightarrow> i + len \<le> length cells \<Longrightarrow>
    move_loop dbg start mem i len cells = Inr (moved start mem i len cells)"
  using fit
proof (induction dbg start mem i len cells rule: move_loop.induct)
  case (1 dbg start mem i len cells)
  show ?case
  proof (cases "64 \<le> len")
    case True
    then have first: "move_blocks dbg start mem 8 i cells = Inr (moved start mem i 64 cells)"
      using move_blocks_ok[OF "1.prems"(4), of i 8 cells] "1.prems"(2,3) by simp
    have len: "length (moved start mem i 64 cells) = length cells"
      using True "1.prems"(2,3) by (intro moved_length) auto
    have "(len - 64) mod 8 = 0" using True "1.prems"(1) by (simp add: mod_eq_0_iff_dvd dvd_diff_nat)
    with "1.IH"[OF True, of "moved start mem i 64 cells"] True "1.prems" len
    have "move_loop dbg start mem (i + 64) (len - 64) (moved start mem i 64 cells) =
        Inr (moved start mem (i + 64) (len - 64) (moved start mem i 64 cells))" by simp
    also have "moved start mem (i + 64) (len - 64) (moved start mem i 64 cells) = moved start mem i len cells"
      using True "1.prems"(2,3) moved_moved[of i 64 "len - 64" mem cells start] by simp
    finally show ?thesis using first True by (subst move_loop.simps) simp
  next
    case False
    then show ?thesis using "1.prems" by (subst move_loop.simps) (simp add: move_tail_ok)
  qed
qed

lemma next_multiple: "n \<le> next_multiple_of_pow2 n 8" "next_multiple_of_pow2 n 8 mod 8 = 0"
  "n \<le> m \<Longrightarrow> m mod 8 = 0 \<Longrightarrow> next_multiple_of_pow2 n 8 \<le> m"
proof -
  show "n \<le> next_multiple_of_pow2 n 8" "next_multiple_of_pow2 n 8 mod 8 = 0" unfolding next_multiple_of_pow2_def by presburger+
  show "n \<le> m \<Longrightarrow> m mod 8 = 0 \<Longrightarrow> next_multiple_of_pow2 n 8 \<le> m" unfolding next_multiple_of_pow2_def by presburger
qed

lemma get_buffers_blocks:
  assumes fit: "ptrs_fit start mem" and n: "n \<le> N" "N mod 8 = 0" "next_multiple_of_pow2 n 8 \<le> length mem" "length held \<le> N"
    and asserts: "list_all (index_assert dbg mem_size) (take n mem)"
  shows "get_buffers dbg start mem_size mem n N held = Inr (map (\<lambda>x. Some (ptr start x)) (take n mem))"
proof -
  let ?len = "next_multiple_of_pow2 n 8" and ?cells = "map Some held @ replicate (N - length held) None"
  have "?len \<le> length ?cells" using n next_multiple(3)[OF n(1,2)] by simp
  then have "move_loop dbg start mem 0 ?len ?cells = Inr (moved start mem 0 ?len ?cells)"
    using move_loop_ok[OF fit, of ?len 0 ?cells] next_multiple(2) n(3) by simp
  moreover have "take n (moved start mem 0 ?len ?cells) = map (\<lambda>x. Some (ptr start x)) (take n mem)"
    using next_multiple(1)[of n] n(3) by (simp add: moved_def take_map min_absorb1)
  ultimately show ?thesis using n asserts by (simp add: get_buffers_def)
qed

text \<open>C17: \<open>get_buffers\<close> into an array whose capacity is a multiple of eight writes the pointer of every
  index in order, reading no further than the next multiple of eight and writing inside the array.
  Into an array of another capacity it does the same only for indices below \<open>2^26\<close>: the plain path
  shifts 32-bit numbers and loses the upper bits of the offset.\<close>

theorem get_buffers_paths:
  assumes "ptrs_fit start mem" "n \<le> N" "N mod 8 = 0" "next_multiple_of_pow2 n 8 \<le> length mem" "length held \<le> N"
    and "list_all (index_assert dbg mem_size) (take n mem)" "n \<le> M" "M mod 8 \<noteq> 0"
  shows "get_buffers dbg start mem_size mem n N held = Inr (map (\<lambda>x. Some (start + x * 64)) (take n mem)) \<and>
    (get_buffers dbg start mem_size mem n M [] = get_buffers dbg start mem_size mem n N held \<longleftrightarrow>
       list_all (\<lambda>x. x < 2 ^ 26) (take n mem))"
proof -
  have "generic_ptr start x = ptr start x \<longleftrightarrow> x < 2 ^ 26" for x
  proof -
    have "x * 64 mod 2 ^ 32 = x * 64 \<longleftrightarrow> x * 64 < 2 ^ 32"
      by (metis mod_less mod_less_divisor zero_less_numeral zero_less_power)
    then show ?thesis by (simp add: generic_ptr_def ptr_def CLIB_LOG2_CACHE_LINE_BYTES_def)
  qed
  moreover have "get_buffers dbg start mem_size mem n M [] = Inr (map Some (map (generic_ptr start) (take n mem)))"
    using assms(6-8) by (simp add: get_buffers_def)
  ultimately show ?thesis
    using get_buffers_blocks[OF assms(1-6)] by (simp add: list_all_iff ptr_def)
qed

lemma get_buffers_paths_witness:
  "get_buffers False 4096 0 [67108864, 1, 0, 0, 0, 0, 0, 0] 2 8 [] = Inr [Some 4294971392, Some 4160] \<and>
   get_buffers False 4096 0 [67108864, 1, 0, 0, 0, 0, 0, 0] 2 2 [] \<noteq> Inr [Some 4294971392, Some 4160]"
proof -
  have "ptrs_fit 4096 [67108864, 1, 0, 0, 0, 0, 0, 0]" by (simp add: ptrs_fit_def)
  from get_buffers_paths[OF this, of 2 8 "[]" False 0 2] show ?thesis
    by (auto simp: next_multiple_of_pow2_def index_assert_def)
qed

end
