(* ===== verification/Mpsc.thy ===== *)
theory Mpsc
  imports Prelude
begin

text \<open>
  The channel for process events, \<open>vpp-plugin/src/vlib/process_node/mpsc.rs\<close>: a queue of the standard
  library with a waker beside it.  A sender may run on another thread, so a \<open>send\<close> takes two steps
  (put the value into the queue, wake the receiver) and a \<open>recv\<close> that finds the queue empty takes two
  (look into the queue, register the waker); steps of different threads interleave.
\<close>

section \<open>The channel\<close>

text \<open>
  \<open>AtomicWaker\<close> is a type of the \<open>futures\<close> crate: its operations are parameters.  \<open>wake\<close> takes the
  registered waker and wakes its task.
\<close>

record ('w, 'aw) waker_ops =
  aw_new :: 'aw
  aw_register :: "'w \<Rightarrow> 'aw \<Rightarrow> 'aw"
  aw_take :: "'aw \<Rightarrow> 'aw \<times> 'w option"

definition waker_laws :: "('w, 'aw) waker_ops \<Rightarrow> bool" where
  "waker_laws W \<longleftrightarrow> aw_take W (aw_new W) = (aw_new W, None) \<and>
     (\<forall>w a. aw_take W (aw_register W w a) = (aw_new W, Some w))"

text \<open>\<open>ch_woken\<close> collects the wakers that have been woken.\<close>

record ('a, 'w, 'aw) mpsc_channel =
  ch_queue :: "'a list"
  ch_senders :: nat
  ch_receiver :: bool
  ch_waker :: 'aw
  ch_woken :: "'w list"

datatype 'a poll = Ready "'a option" | Pending

datatype 'a try_recv_result = Value 'a | Disconnected | Empty

definition channel :: "('w, 'aw) waker_ops \<Rightarrow> ('a, 'w, 'aw) mpsc_channel" where
  "channel W = \<lparr>ch_queue = [], ch_senders = 1, ch_receiver = True, ch_waker = aw_new W, ch_woken = []\<rparr>"

definition inner_send :: "'a \<Rightarrow> ('a, 'w, 'aw) mpsc_channel \<Rightarrow> ('a + unit) \<times> ('a, 'w, 'aw) mpsc_channel" where
  "inner_send v c = (if ch_receiver c then (Inr (), c\<lparr>ch_queue := ch_queue c @ [v]\<rparr>) else (Inl v, c))"

definition wake :: "('w, 'aw) waker_ops \<Rightarrow> ('a, 'w, 'aw) mpsc_channel \<Rightarrow> ('a, 'w, 'aw) mpsc_channel" where
  "wake W c = (case aw_take W (ch_waker c) of
      (aw, None) \<Rightarrow> c\<lparr>ch_waker := aw\<rparr>
    | (aw, Some w) \<Rightarrow> c\<lparr>ch_waker := aw, ch_woken := ch_woken c @ [w]\<rparr>)"

definition send :: "('w, 'aw) waker_ops \<Rightarrow> 'a \<Rightarrow> ('a, 'w, 'aw) mpsc_channel \<Rightarrow> ('a + unit) \<times> ('a, 'w, 'aw) mpsc_channel" where
  "send W v c = (case inner_send v c of (Inl v, c) \<Rightarrow> (Inl v, c) | (Inr _, c) \<Rightarrow> (Inr (), wake W c))"

definition inner_try_recv :: "('a, 'w, 'aw) mpsc_channel \<Rightarrow> 'a try_recv_result \<times> ('a, 'w, 'aw) mpsc_channel" where
  "inner_try_recv c = (case ch_queue c of
      v # vs \<Rightarrow> (Value v, c\<lparr>ch_queue := vs\<rparr>)
    | [] \<Rightarrow> (if ch_senders c = 0 then Disconnected else Empty, c))"

definition try_recv :: "('a, 'w, 'aw) mpsc_channel \<Rightarrow> 'a option \<times> ('a, 'w, 'aw) mpsc_channel" where
  "try_recv c = (case inner_try_recv c of (Value v, c) \<Rightarrow> (Some v, c) | (_, c) \<Rightarrow> (None, c))"

definition register :: "('w, 'aw) waker_ops \<Rightarrow> 'w \<Rightarrow> ('a, 'w, 'aw) mpsc_channel \<Rightarrow> ('a, 'w, 'aw) mpsc_channel" where
  "register W w c = c\<lparr>ch_waker := aw_register W w (ch_waker c)\<rparr>"

definition poll_recv :: "('w, 'aw) waker_ops \<Rightarrow> 'w \<Rightarrow> ('a, 'w, 'aw) mpsc_channel \<Rightarrow> 'a poll \<times> ('a, 'w, 'aw) mpsc_channel" where
  "poll_recv W w c = (case inner_try_recv c of
      (Value v, c) \<Rightarrow> (Ready (Some v), c)
    | (Disconnected, c) \<Rightarrow> (Ready None, c)
    | (Empty, c) \<Rightarrow> (Pending, register W w c))"

definition sender_clone :: "('a, 'w, 'aw) mpsc_channel \<Rightarrow> ('a, 'w, 'aw) mpsc_channel" where
  "sender_clone c = c\<lparr>ch_senders := ch_senders c + 1\<rparr>"

text \<open>There is no \<open>Drop\<close> for \<open>Sender\<close>: only the standard library's sender inside it is dropped.\<close>

definition sender_drop :: "('a, 'w, 'aw) mpsc_channel \<Rightarrow> ('a, 'w, 'aw) mpsc_channel" where
  "sender_drop c = c\<lparr>ch_senders := ch_senders c - 1\<rparr>"

section \<open>Interleaved threads\<close>

text \<open>
  The task that receives: it polls, is between its two steps, is parked, or has returned from the
  last poll.  \<open>sy_wakes\<close> counts the sends between their two steps, \<open>sy_sent\<close> and \<open>sy_got\<close> list the
  values put into and taken out of the queue.
\<close>

datatype receiver_pc = Polling | Looked | Parked | Closed

record ('a, 'w, 'aw) mpsc_system =
  sy_chan :: "('a, 'w, 'aw) mpsc_channel"
  sy_pc :: receiver_pc
  sy_wakes :: nat
  sy_sent :: "'a list"
  sy_got :: "'a list"

definition initial_system :: "('w, 'aw) waker_ops \<Rightarrow> ('a, 'w, 'aw) mpsc_system" where
  "initial_system W = \<lparr>sy_chan = channel W, sy_pc = Polling, sy_wakes = 0, sy_sent = [], sy_got = []\<rparr>"

definition look_pc :: "'a try_recv_result \<Rightarrow> receiver_pc" where
  "look_pc r = (case r of Value v \<Rightarrow> Polling | Disconnected \<Rightarrow> Closed | Empty \<Rightarrow> Looked)"

inductive mpsc_step :: "('w, 'aw) waker_ops \<Rightarrow> 'w \<Rightarrow> ('a, 'w, 'aw) mpsc_system \<Rightarrow> ('a, 'w, 'aw) mpsc_system \<Rightarrow> bool"
  for W :: "('w, 'aw) waker_ops" and w :: 'w where
  Push: "sy_wakes s < ch_senders (sy_chan s) \<Longrightarrow> inner_send v (sy_chan s) = (Inr (), c) \<Longrightarrow>
    mpsc_step W w s (s\<lparr>sy_chan := c, sy_wakes := sy_wakes s + 1, sy_sent := sy_sent s @ [v]\<rparr>)"
| Wake: "0 < sy_wakes s \<Longrightarrow> mpsc_step W w s (s\<lparr>sy_chan := wake W (sy_chan s), sy_wakes := sy_wakes s - 1\<rparr>)"
| Clone: "0 < ch_senders (sy_chan s) \<Longrightarrow> mpsc_step W w s (s\<lparr>sy_chan := sender_clone (sy_chan s)\<rparr>)"
| Drop: "sy_wakes s < ch_senders (sy_chan s) \<Longrightarrow> mpsc_step W w s (s\<lparr>sy_chan := sender_drop (sy_chan s)\<rparr>)"
| Look: "sy_pc s = Polling \<Longrightarrow> inner_try_recv (sy_chan s) = (r, c) \<Longrightarrow>
    mpsc_step W w s (s\<lparr>sy_chan := c, sy_pc := look_pc r, sy_got := (case r of Value v \<Rightarrow> sy_got s @ [v] | _ \<Rightarrow> sy_got s)\<rparr>)"
| Register: "sy_pc s = Looked \<Longrightarrow> mpsc_step W w s (s\<lparr>sy_chan := register W w (sy_chan s), sy_pc := Parked\<rparr>)"
| Resume: "sy_pc s = Parked \<Longrightarrow> w \<in> set (ch_woken (sy_chan s)) \<Longrightarrow>
    mpsc_step W w s (s\<lparr>sy_chan := (sy_chan s)\<lparr>ch_woken := removeAll w (ch_woken (sy_chan s))\<rparr>, sy_pc := Polling\<rparr>)"

inductive_cases mpsc_stepE: "mpsc_step W w s s'"

definition mpsc_reachable :: "('w, 'aw) waker_ops \<Rightarrow> 'w \<Rightarrow> ('a, 'w, 'aw) mpsc_system \<Rightarrow> bool" where
  "mpsc_reachable W w s \<longleftrightarrow> (mpsc_step W w)\<^sup>*\<^sup>* (initial_system W) s"

text \<open>A parked receiver that nothing under way will wake.\<close>

definition asleep :: "'w \<Rightarrow> ('a, 'w, 'aw) mpsc_system \<Rightarrow> bool" where
  "asleep w s \<longleftrightarrow> sy_pc s = Parked \<and> w \<notin> set (ch_woken (sy_chan s)) \<and> sy_wakes s = 0"

text \<open>A run in which the receiver's two steps are not separated, as when all senders are on its thread.\<close>

definition atomic_step :: "('w, 'aw) waker_ops \<Rightarrow> 'w \<Rightarrow> ('a, 'w, 'aw) mpsc_system \<Rightarrow> ('a, 'w, 'aw) mpsc_system \<Rightarrow> bool" where
  "atomic_step W w s s' \<longleftrightarrow> mpsc_step W w s s' \<and> (sy_pc s = Looked \<longrightarrow> sy_pc s' = Parked)"

section \<open>Order\<close>

lemmas channel_ops = inner_send_def inner_try_recv_def register_def sender_clone_def sender_drop_def

lemma wake_keeps [simp]:
  "ch_queue (wake W c) = ch_queue c" "ch_senders (wake W c) = ch_senders c" "ch_receiver (wake W c) = ch_receiver c"
  by (auto simp: wake_def split: prod.split option.split)

definition fifo_inv :: "('a, 'w, 'aw) mpsc_system \<Rightarrow> bool" where
  "fifo_inv s \<longleftrightarrow> sy_got s @ ch_queue (sy_chan s) = sy_sent s \<and> sy_wakes s \<le> ch_senders (sy_chan s) \<and>
     (sy_pc s = Closed \<longrightarrow> ch_queue (sy_chan s) = [] \<and> ch_senders (sy_chan s) = 0)"

lemma look_pc_simps [simp]: "look_pc (Value v) = Polling" "look_pc Disconnected = Closed" "look_pc Empty = Looked"
  by (simp_all add: look_pc_def)

lemma fifo_inv_step: "mpsc_step W w s s' \<Longrightarrow> fifo_inv s \<Longrightarrow> fifo_inv s'"
  by (cases rule: mpsc_step.cases, assumption)
    (auto simp: fifo_inv_def channel_ops split: if_splits list.splits)

lemma reachable_fifo: "mpsc_reachable W w s \<Longrightarrow> fifo_inv s"
  unfolding mpsc_reachable_def
proof (induction rule: rtranclp_induct)
  case base
  show ?case by (simp add: initial_system_def channel_def fifo_inv_def)
qed (rule fifo_inv_step)

text \<open>In every interleaving of senders and receiver the received values followed by those in the
  queue are the sent ones in the order in which they entered the queue; and when the receiver is
  told that the channel is closed it has received all of them.\<close>

theorem mpsc_fifo:
  assumes "mpsc_reachable W w s"
  shows "sy_got s @ ch_queue (sy_chan s) = sy_sent s \<and> (if sy_pc s = Closed then sy_got s = sy_sent s else True)"
  using reachable_fifo[OF assms] by (auto simp: fifo_inv_def)

definition cell_waker :: "(nat, nat option) waker_ops" where
  "cell_waker = \<lparr>aw_new = None, aw_register = (\<lambda>w a. Some w), aw_take = (\<lambda>a. (None, a))\<rparr>"

lemma cell_waker_laws: "waker_laws cell_waker"
  by (simp add: waker_laws_def cell_waker_def)

lemma reachable_initial: "mpsc_reachable W w (initial_system W)"
  by (simp add: mpsc_reachable_def)

lemma reachable_step: "mpsc_reachable W w s \<Longrightarrow> mpsc_step W w s s' \<Longrightarrow> mpsc_reachable W w s'"
  by (simp add: mpsc_reachable_def)

lemma mpsc_fifo_witness:
  "\<exists>s. mpsc_reachable cell_waker 0 s \<and> sy_sent s = [5 :: nat] \<and> sy_got s @ ch_queue (sy_chan s) = sy_sent s"
proof -
  let ?s = "initial_system cell_waker :: (nat, nat, nat option) mpsc_system"
  have p: "mpsc_step cell_waker 0 ?s (?s\<lparr>sy_chan := (sy_chan ?s)\<lparr>ch_queue := [5]\<rparr>, sy_wakes := sy_wakes ?s + 1, sy_sent := sy_sent ?s @ [5]\<rparr>)"
    by (rule mpsc_step.Push) (simp_all add: initial_system_def channel_def inner_send_def)
  from reachable_step[OF reachable_initial p] mpsc_fifo[OF reachable_step[OF reachable_initial p]]
  show ?thesis by (intro exI[of _ "?s\<lparr>sy_chan := (sy_chan ?s)\<lparr>ch_queue := [5]\<rparr>, sy_wakes := sy_wakes ?s + 1, sy_sent := sy_sent ?s @ [5]\<rparr>"])
      (auto simp: initial_system_def)
qed

section \<open>Wake-ups\<close>

definition wake_inv :: "('w, 'aw) waker_ops \<Rightarrow> 'w \<Rightarrow> ('a, 'w, 'aw) mpsc_system \<Rightarrow> bool" where
  "wake_inv W w s \<longleftrightarrow> (sy_pc s = Looked \<longrightarrow> ch_queue (sy_chan s) = []) \<and>
     (sy_pc s = Parked \<longrightarrow> w \<in> set (ch_woken (sy_chan s)) \<or>
        ((\<exists>a. ch_waker (sy_chan s) = aw_register W w a) \<and> (ch_queue (sy_chan s) \<noteq> [] \<longrightarrow> 0 < sy_wakes s)))"

lemma wake_registered: "waker_laws W \<Longrightarrow> ch_waker c = aw_register W w a \<Longrightarrow> ch_woken (wake W c) = ch_woken c @ [w]"
  by (simp add: wake_def waker_laws_def)

lemma wake_woken: "x \<in> set (ch_woken c) \<Longrightarrow> x \<in> set (ch_woken (wake W c))"
  by (auto simp: wake_def split: prod.split option.split)

lemma wake_inv_step:
  assumes W: "waker_laws W" and step: "atomic_step W w s s'" and inv: "wake_inv W w s"
  shows "wake_inv W w s'"
proof -
  have step: "mpsc_step W w s s'" and atomic: "sy_pc s = Looked \<longrightarrow> sy_pc s' = Parked"
    using step by (simp_all add: atomic_step_def)
  show ?thesis
    using step
  proof cases
    case Wake
    then show ?thesis using inv atomic wake_registered[OF W] wake_woken
      by (fastforce simp: wake_inv_def)
  next
    case (Look r c)
    then show ?thesis using inv by (auto simp: wake_inv_def inner_try_recv_def split: list.splits if_splits)
  qed (use inv atomic in \<open>auto simp: wake_inv_def channel_ops split: if_splits\<close>)
qed

lemma atomic_reachable_wake_inv:
  assumes "waker_laws W" "(atomic_step W w)\<^sup>*\<^sup>* (initial_system W) s"
  shows "wake_inv W w s"
  using assms(2)
proof (induction rule: rtranclp_induct)
  case base
  show ?case by (simp add: initial_system_def channel_def wake_inv_def)
qed (rule wake_inv_step[OF assms(1)])

lemma look_empty_step:
  assumes "sy_pc s = Polling" "ch_queue (sy_chan s) = []" "0 < ch_senders (sy_chan s)"
  shows "mpsc_step W w s (s\<lparr>sy_pc := Looked\<rparr>)"
  using mpsc_step.Look[of s Empty "sy_chan s" W w] assms by (simp add: inner_try_recv_def)

text \<open>The receiver looks, the sender sends, the receiver registers and parks.\<close>

lemma lost_wakeup_run:
  assumes W: "waker_laws W"
  shows "\<exists>s :: ('a, 'w, 'aw) mpsc_system. mpsc_reachable W w s \<and> asleep w s \<and> ch_queue (sy_chan s) = [v]"
proof -
  define s0 where "s0 = (initial_system W :: ('a, 'w, 'aw) mpsc_system)"
  define s1 where "s1 = s0\<lparr>sy_pc := Looked\<rparr>"
  define s2 where "s2 = s1\<lparr>sy_chan := (sy_chan s1)\<lparr>ch_queue := ch_queue (sy_chan s1) @ [v]\<rparr>,
    sy_wakes := sy_wakes s1 + 1, sy_sent := sy_sent s1 @ [v]\<rparr>"
  define s3 where "s3 = s2\<lparr>sy_chan := wake W (sy_chan s2), sy_wakes := sy_wakes s2 - 1\<rparr>"
  define s4 where "s4 = s3\<lparr>sy_chan := register W w (sy_chan s3), sy_pc := Parked\<rparr>"
  note s = s0_def s1_def s2_def s3_def initial_system_def channel_def
  have "mpsc_step W w s0 s1" unfolding s1_def by (rule look_empty_step) (simp_all add: s)
  moreover have "mpsc_step W w s1 s2" unfolding s2_def by (rule mpsc_step.Push) (simp_all add: s inner_send_def)
  moreover have "mpsc_step W w s2 s3" unfolding s3_def by (rule mpsc_step.Wake) (simp add: s)
  moreover have "mpsc_step W w s3 s4" unfolding s4_def by (rule mpsc_step.Register) (simp add: s)
  ultimately have "mpsc_reachable W w s4" using reachable_initial s0_def by (metis reachable_step)
  moreover have "asleep w s4 \<and> ch_queue (sy_chan s4) = [v]"
    using W by (simp add: s4_def s asleep_def register_def wake_def waker_laws_def)
  ultimately show ?thesis by blast
qed

text \<open>The receiver parks, the last sender goes away.\<close>

lemma lost_close_run:
  "\<exists>s :: ('a, 'w, 'aw) mpsc_system. mpsc_reachable W w s \<and> asleep w s \<and> ch_senders (sy_chan s) = 0"
proof -
  define s0 where "s0 = (initial_system W :: ('a, 'w, 'aw) mpsc_system)"
  define s1 where "s1 = s0\<lparr>sy_pc := Looked\<rparr>"
  define s2 where "s2 = s1\<lparr>sy_chan := register W w (sy_chan s1), sy_pc := Parked\<rparr>"
  define s3 where "s3 = s2\<lparr>sy_chan := sender_drop (sy_chan s2)\<rparr>"
  note s = s0_def s1_def s2_def s3_def initial_system_def channel_def register_def
  have "mpsc_step W w s0 s1" unfolding s1_def by (rule look_empty_step) (simp_all add: s)
  moreover have "mpsc_step W w s1 s2" unfolding s2_def by (rule mpsc_step.Register) (simp add: s)
  moreover have "mpsc_step W w s2 s3" unfolding s3_def by (rule mpsc_step.Drop) (simp add: s)
  ultimately have "mpsc_reachable W w s3" using reachable_initial s0_def by (metis reachable_step)
  moreover have "asleep w s3 \<and> ch_senders (sy_chan s3) = 0" by (simp add: s asleep_def sender_drop_def)
  ultimately show ?thesis by blast
qed

lemma atomic_never_lost:
  "waker_laws W \<Longrightarrow> (atomic_step W w)\<^sup>*\<^sup>* (initial_system W) s \<Longrightarrow> asleep w s \<Longrightarrow> ch_queue (sy_chan s) = []"
  by (drule (1) atomic_reachable_wake_inv) (auto simp: wake_inv_def asleep_def)

text \<open>C16: A wake-up can be lost: a run ends with the receiver asleep, no send under way and a value in the
  queue, because the waker is registered after the look into the queue without looking again; and
  another ends with the receiver asleep and no sender left, because dropping the last sender does
  not wake it.  When the two steps of a poll are not separated a sleeping receiver has an empty queue.\<close>

theorem mpsc_lost_wakeup:
  assumes "waker_laws W"
  shows "(\<exists>s :: ('a, 'w, 'aw) mpsc_system. mpsc_reachable W w s \<and> asleep w s \<and> ch_queue (sy_chan s) = [v]) \<and>
    (\<exists>s :: ('a, 'w, 'aw) mpsc_system. mpsc_reachable W w s \<and> asleep w s \<and> ch_senders (sy_chan s) = 0) \<and>
    (\<forall>s :: ('a, 'w, 'aw) mpsc_system. (atomic_step W w)\<^sup>*\<^sup>* (initial_system W) s \<longrightarrow> asleep w s \<longrightarrow> ch_queue (sy_chan s) = [])"
  by (intro conjI allI impI lost_wakeup_run[OF assms] lost_close_run atomic_never_lost[OF assms])

lemma mpsc_lost_wakeup_witness:
  "\<exists>s. mpsc_reachable cell_waker 0 s \<and> asleep 0 s \<and> ch_queue (sy_chan s) = [7 :: nat]"
  by (rule mpsc_lost_wakeup[OF cell_waker_laws, THEN conjunct1])

end
