(* ===== verification/Barrier_Lock.thy ===== *)
theory Barrier_Lock
  imports Prelude
begin

text \<open>
  \<open>BarrierRwLock\<close> of \<open>vpp-plugin/src/vlib/main/sync.rs\<close>: readers on any thread, a writer on the main
  thread while VPP's barrier stops the workers.  Only guards of the main thread are counted.
\<close>

section \<open>The lock\<close>

record 'a barrier_rw_lock =
  rw_readers :: nat
  rw_writer :: bool
  rw_data :: 'a

record read_guard =
  rg_main_thread :: bool

definition lock_new :: "'a \<Rightarrow> 'a barrier_rw_lock" where
  "lock_new t = \<lparr>rw_readers = 0, rw_writer = False, rw_data = t\<rparr>"

definition read_guard_new :: "bool \<Rightarrow> 'a barrier_rw_lock \<Rightarrow> (read_guard \<times> 'a barrier_rw_lock) option" where
  "read_guard_new main_thread lk =
     (if main_thread \<and> rw_writer lk then None
      else if main_thread then do {
        n \<leftarrow> checked_add U32_MAX (rw_readers lk) 1;
        Some (\<lparr>rg_main_thread = main_thread\<rparr>, lk\<lparr>rw_readers := n\<rparr>)
      }
      else Some (\<lparr>rg_main_thread = main_thread\<rparr>, lk))"

definition lock_read :: "nat \<Rightarrow> 'a barrier_rw_lock \<Rightarrow> (read_guard \<times> 'a barrier_rw_lock) option" where
  "lock_read thread_index lk = read_guard_new (thread_index = 0) lk"

definition read_guard_drop :: "read_guard \<Rightarrow> 'a barrier_rw_lock \<Rightarrow> 'a barrier_rw_lock option" where
  "read_guard_drop g lk =
     (if rg_main_thread g then do { n \<leftarrow> checked_sub (rw_readers lk) 1; Some (lk\<lparr>rw_readers := n\<rparr>) } else Some lk)"

definition write_guard_new :: "'a barrier_rw_lock \<Rightarrow> 'a barrier_rw_lock option" where
  "write_guard_new lk =
     (if rw_readers lk \<noteq> 0 then None else if rw_writer lk then None else Some (lk\<lparr>rw_writer := True\<rparr>))"

text \<open>The assertion that the thread is the main thread is a debug assertion.\<close>

definition lock_write :: "bool \<Rightarrow> nat \<Rightarrow> 'a barrier_rw_lock \<Rightarrow> 'a barrier_rw_lock option" where
  "lock_write dbg thread_index lk = (if dbg \<and> thread_index \<noteq> 0 then None else write_guard_new lk)"

definition write_guard_drop :: "'a barrier_rw_lock \<Rightarrow> 'a barrier_rw_lock" where
  "write_guard_drop lk = lk\<lparr>rw_writer := False\<rparr>"

section \<open>Threads and the barrier\<close>

text \<open>
  The guards that are alive, and whether the barrier is held.  Workers take and drop guards while
  the barrier is not held; \<open>write\<close> needs a \<open>BarrierHeldMainRef\<close>, which exists while it is held.  With
  \<open>strict\<close> no worker keeps a guard when it stops at the barrier and the write guard is dropped
  before the barrier is released: nothing in the lock or in the types of the guards enforces that.
\<close>

record 'a lock_system =
  ls_lock :: "'a barrier_rw_lock"
  ls_main_reads :: nat
  ls_writes :: nat
  ls_worker_reads :: nat
  ls_barrier :: bool

definition system_new :: "'a \<Rightarrow> 'a lock_system" where
  "system_new t = \<lparr>ls_lock = lock_new t, ls_main_reads = 0, ls_writes = 0, ls_worker_reads = 0, ls_barrier = False\<rparr>"

inductive lock_step :: "bool \<Rightarrow> 'a lock_system \<Rightarrow> 'a lock_system \<Rightarrow> bool" for strict :: bool where
  Main_read: "lock_read 0 (ls_lock s) = Some (g, lk) \<Longrightarrow>
    lock_step strict s (s\<lparr>ls_lock := lk, ls_main_reads := ls_main_reads s + 1\<rparr>)"
| Main_read_drop: "0 < ls_main_reads s \<Longrightarrow> read_guard_drop \<lparr>rg_main_thread = True\<rparr> (ls_lock s) = Some lk \<Longrightarrow>
    lock_step strict s (s\<lparr>ls_lock := lk, ls_main_reads := ls_main_reads s - 1\<rparr>)"
| Main_write: "ls_barrier s \<Longrightarrow> lock_write dbg 0 (ls_lock s) = Some lk \<Longrightarrow>
    lock_step strict s (s\<lparr>ls_lock := lk, ls_writes := ls_writes s + 1\<rparr>)"
| Main_write_drop: "0 < ls_writes s \<Longrightarrow>
    lock_step strict s (s\<lparr>ls_lock := write_guard_drop (ls_lock s), ls_writes := ls_writes s - 1\<rparr>)"
| Worker_read: "\<not> ls_barrier s \<Longrightarrow> 0 < thread \<Longrightarrow> lock_read thread (ls_lock s) = Some (g, lk) \<Longrightarrow>
    lock_step strict s (s\<lparr>ls_lock := lk, ls_worker_reads := ls_worker_reads s + 1\<rparr>)"
| Worker_read_drop: "\<not> ls_barrier s \<Longrightarrow> 0 < ls_worker_reads s \<Longrightarrow>
    read_guard_drop \<lparr>rg_main_thread = False\<rparr> (ls_lock s) = Some lk \<Longrightarrow>
    lock_step strict s (s\<lparr>ls_lock := lk, ls_worker_reads := ls_worker_reads s - 1\<rparr>)"
| Barrier_sync: "strict \<longrightarrow> ls_worker_reads s = 0 \<Longrightarrow> lock_step strict s (s\<lparr>ls_barrier := True\<rparr>)"
| Barrier_release: "ls_barrier s \<Longrightarrow> strict \<longrightarrow> ls_writes s = 0 \<Longrightarrow> lock_step strict s (s\<lparr>ls_barrier := False\<rparr>)"

definition lock_reachable :: "bool \<Rightarrow> 'a \<Rightarrow> 'a lock_system \<Rightarrow> bool" where
  "lock_reachable strict t s \<longleftrightarrow> (lock_step strict)\<^sup>*\<^sup>* (system_new t) s"

text \<open>Shared or exclusive: at most one writer, and no reader beside it.\<close>

definition exclusive :: "'a lock_system \<Rightarrow> bool" where
  "exclusive s \<longleftrightarrow> ls_writes s = 0 \<or> (ls_writes s = 1 \<and> ls_main_reads s = 0 \<and> ls_worker_reads s = 0)"

section \<open>Invariants\<close>

text \<open>What the lock itself knows: its fields are the guards of the main thread.\<close>

definition lock_counts :: "'a lock_system \<Rightarrow> bool" where
  "lock_counts s \<longleftrightarrow> rw_readers (ls_lock s) = ls_main_reads s \<and> ls_writes s = (if rw_writer (ls_lock s) then 1 else 0) \<and>
     \<not> (rw_writer (ls_lock s) \<and> 0 < ls_main_reads s)"

definition barrier_inv :: "'a lock_system \<Rightarrow> bool" where
  "barrier_inv s \<longleftrightarrow> (ls_barrier s \<longrightarrow> ls_worker_reads s = 0) \<and> (\<not> ls_barrier s \<longrightarrow> ls_writes s = 0)"

lemmas lock_ops = lock_read_def read_guard_new_def read_guard_drop_def lock_write_def write_guard_new_def write_guard_drop_def

lemma lock_counts_step: "lock_step strict s s' \<Longrightarrow> lock_counts s \<Longrightarrow> lock_counts s'"
  by (cases rule: lock_step.cases, assumption)
    (auto simp: lock_counts_def lock_ops checked_simps split: if_splits)

lemma barrier_inv_step: "lock_step True s s' \<Longrightarrow> barrier_inv s \<Longrightarrow> barrier_inv s'"
  by (cases rule: lock_step.cases, assumption) (auto simp: barrier_inv_def)

lemma reachable_counts:
  assumes "lock_reachable strict t s" shows "lock_counts s"
  using assms unfolding lock_reachable_def
proof (induction rule: rtranclp_induct)
  case base
  show ?case by (simp add: lock_counts_def system_new_def lock_new_def)
qed (rule lock_counts_step)

lemma reachable_barrier:
  assumes "lock_reachable True t s" shows "barrier_inv s"
  using assms unfolding lock_reachable_def
proof (induction rule: rtranclp_induct)
  case base
  show ?case by (simp add: barrier_inv_def system_new_def)
qed (rule barrier_inv_step)

text \<open>A write guard kept over the release of the barrier meets a worker's read guard.\<close>

lemma kept_guard_run: "\<exists>s. lock_reachable False t s \<and> \<not> exclusive s"
proof -
  define s0 where "s0 = system_new t"
  define s1 where "s1 = s0\<lparr>ls_barrier := True\<rparr>"
  define s2 where "s2 = s1\<lparr>ls_lock := (ls_lock s1)\<lparr>rw_writer := True\<rparr>, ls_writes := ls_writes s1 + 1\<rparr>"
  define s3 where "s3 = s2\<lparr>ls_barrier := False\<rparr>"
  define s4 where "s4 = s3\<lparr>ls_lock := ls_lock s3, ls_worker_reads := ls_worker_reads s3 + 1\<rparr>"
  note s = s0_def s1_def s2_def s3_def system_new_def lock_new_def
  have "lock_step False s0 s1" unfolding s1_def by (rule Barrier_sync) simp
  moreover have "lock_step False s1 s2" unfolding s2_def by (rule Main_write[where dbg = True]) (simp_all add: s lock_ops)
  moreover have "lock_step False s2 s3" unfolding s3_def by (rule Barrier_release) (simp_all add: s)
  moreover have "lock_step False s3 s4" unfolding s4_def
    by (rule Worker_read[where thread = 1 and g = "\<lparr>rg_main_thread = False\<rparr>"]) (simp_all add: s lock_ops)
  ultimately have "lock_reachable False t s4"
    unfolding lock_reachable_def s0_def by (meson rtranclp.rtrancl_into_rtrancl rtranclp.rtrancl_refl)
  moreover have "\<not> exclusive s4" by (simp add: exclusive_def s4_def s)
  ultimately show ?thesis by blast
qed

text \<open>C14: When workers stop at the barrier without read guards and the write guard is dropped before the
  barrier is released, every reachable state has at most one write guard and no read guard beside
  it; a read on the main thread panics exactly when a write guard is alive, and a write exactly when
  a guard of the main thread is.  Without that discipline, which neither the lock nor the types of
  its guards enforce, a write guard and a worker's read guard can be alive together.\<close>

theorem barrier_exclusion:
  "(lock_reachable True t s \<longrightarrow> exclusive s) \<and>
   (lock_reachable strict t s \<longrightarrow> ls_main_reads s < U32_MAX \<longrightarrow>
      (lock_read 0 (ls_lock s) = None \<longleftrightarrow> 0 < ls_writes s) \<and>
      (lock_write dbg 0 (ls_lock s) = None \<longleftrightarrow> 0 < ls_writes s \<or> 0 < ls_main_reads s)) \<and>
   (\<exists>s. lock_reachable False t s \<and> \<not> exclusive s)"
proof (intro conjI impI kept_guard_run)
  assume "lock_reachable True t s"
  with reachable_counts[OF this] reachable_barrier[OF this] show "exclusive s"
    by (auto simp: exclusive_def lock_counts_def barrier_inv_def split: if_splits)
next
  assume "lock_reachable strict t s" "ls_main_reads s < U32_MAX"
  with reachable_counts[OF this(1)]
  show "lock_read 0 (ls_lock s) = None \<longleftrightarrow> 0 < ls_writes s"
    "lock_write dbg 0 (ls_lock s) = None \<longleftrightarrow> 0 < ls_writes s \<or> 0 < ls_main_reads s"
    by (auto simp: lock_counts_def lock_ops checked_simps split: if_splits)
qed

lemma barrier_exclusion_witness: "lock_read 0 (ls_lock (system_new (0 :: nat))) \<noteq> None \<and> exclusive (system_new (0 :: nat))"
  using barrier_exclusion[of "0 :: nat" "system_new 0" True True]
  by (auto simp: lock_reachable_def system_new_def U32_MAX_def)

end
