(* ===== verification/Feature_Node.thy ===== *)
theory Feature_Node
  imports Buffer
begin

text \<open>
  Packets in a feature arc: the network metadata of a buffer (\<open>vpp-plugin/src/vnet/buffer.rs\<close>), the
  walk along the configuration of an arc (\<open>vnet_feature_next\<close>), frames (\<open>vlib/node.rs\<close>) and the generic
  node functions of \<open>vlib/node_generic.rs\<close>, which handle one buffer or four buffers at a time.

  An access outside an array is undefined behaviour; \<open>dbg\<close> is the build profile.
\<close>

section \<open>Network metadata of a buffer\<close>

text \<open>\<open>packet_mem\<close> is the memory of the packet data, the headroom first.\<close>

record packet = vlib_buffer +
  buffer_flags :: nat
  feature_arc_index :: nat
  current_config_index :: nat
  sw_if_index :: "nat list"
  buffer_error :: nat
  packet_mem :: "nat list"

definition VLIB_RX :: nat where "VLIB_RX = 0"
definition VLIB_TX :: nat where "VLIB_TX = 1"

definition rx_sw_if_index :: "packet \<Rightarrow> nat" where
  "rx_sw_if_index b = sw_if_index b ! VLIB_RX"

definition set_rx_sw_if_index :: "nat \<Rightarrow> packet \<Rightarrow> packet" where
  "set_rx_sw_if_index i b = b\<lparr>sw_if_index := (sw_if_index b)[VLIB_TX := i]\<rparr>"

definition tx_sw_if_index :: "packet \<Rightarrow> nat option" where
  "tx_sw_if_index b = (let i = sw_if_index b ! VLIB_TX in if i = U32_MAX then None else Some i)"

definition set_tx_sw_if_index :: "nat option \<Rightarrow> packet \<Rightarrow> packet" where
  "set_tx_sw_if_index i b =
     b\<lparr>sw_if_index := (sw_if_index b)[VLIB_TX := (case i of None \<Rightarrow> U32_MAX | Some i \<Rightarrow> i)]\<rparr>"

definition VLIB_BUFFER_IS_TRACED :: nat where
  "VLIB_BUFFER_IS_TRACED = 1"

text \<open>\<open>contains\<close> for a flag of a single bit.\<close>

definition flags_contain :: "nat \<Rightarrow> nat \<Rightarrow> bool" where
  "flags_contain flags flag \<longleftrightarrow> odd (flags div flag)"

text \<open>The setter of the receive interface writes the slot of the transmit interface: the receive
  interface keeps its value, whatever was set, and the transmit interface is overwritten.  The setter
  of the transmit interface sets it and keeps the receive interface.\<close>

theorem rx_setter_overwrites_tx:
  assumes "length (sw_if_index b) = 2"
  shows "rx_sw_if_index (set_rx_sw_if_index i b) = rx_sw_if_index b \<and>
    tx_sw_if_index (set_rx_sw_if_index i b) = (if i = U32_MAX then None else Some i) \<and>
    rx_sw_if_index (set_tx_sw_if_index t b) = rx_sw_if_index b \<and>
    tx_sw_if_index (set_tx_sw_if_index t b) = (if t = Some U32_MAX then None else t)"
  using assms
  by (auto simp: rx_sw_if_index_def tx_sw_if_index_def set_rx_sw_if_index_def set_tx_sw_if_index_def
      VLIB_RX_def VLIB_TX_def split: option.splits)

lemma rx_setter_overwrites_tx_witness:
  "rx_sw_if_index (set_rx_sw_if_index 7 \<lparr>current_data = 0, current_length = 60, next_present = False,
     total_length_valid = False, total_length_not_including_first = 0, buffer_flags = 0, feature_arc_index = 0,
     current_config_index = 0, sw_if_index = [3, 4], buffer_error = 0, packet_mem = []\<rparr>) = 3"
  using rx_setter_overwrites_tx[of "\<lparr>current_data = 0, current_length = 60, next_present = False,
     total_length_valid = False, total_length_not_including_first = 0, buffer_flags = 0, feature_arc_index = 0,
     current_config_index = 0, sw_if_index = [3, 4], buffer_error = 0, packet_mem = []\<rparr>" 7 None]
  by (simp add: rx_sw_if_index_def VLIB_RX_def)

section \<open>The configuration of a feature arc\<close>

text \<open>
  The configuration strings of an arc are one heap of 32-bit words; an entry is the data of a feature,
  rounded up to words, and the next node.  \<open>ne_mains\<close> is \<open>feature_main.feature_config_mains\<close>: the heap
  of each arc.  \<open>ne_size\<close> is the size of the feature data of the node in bytes, \<open>ne_flags\<close> are the flags of
  the node runtime.
\<close>

record node_env =
  ne_dbg :: bool
  ne_mains :: "nat list list"
  ne_size :: nat
  ne_flags :: nat

definition config_words :: "nat \<Rightarrow> nat" where
  "config_words sz = (sz + 3) div 4"

definition vnet_get_config_data :: "bool \<Rightarrow> nat \<Rightarrow> nat list \<Rightarrow> nat \<Rightarrow> fault + (nat \<times> nat list) \<times> nat" where
  "vnet_get_config_data dbg sz heap index =
     (let n = config_words sz in
      case nth_opt heap (index + n) of
        None \<Rightarrow> Inl Undefined_Behaviour
      | Some next \<Rightarrow>
          try_bind (arith_add dbg U32_MAX index (n mod 2 ^ 32)) (\<lambda>i.
          try_bind (arith_add dbg U32_MAX i 1) (\<lambda>i. Inr ((next, take n (drop index heap)), i))))"

definition vnet_feature_next :: "node_env \<Rightarrow> packet \<Rightarrow> fault + (nat \<times> nat list) \<times> packet" where
  "vnet_feature_next E b =
     (case nth_opt (ne_mains E) (feature_arc_index b) of
        None \<Rightarrow> Inl Undefined_Behaviour
      | Some heap \<Rightarrow>
          try_bind (vnet_get_config_data (ne_dbg E) (ne_size E) heap (current_config_index b))
            (\<lambda>(nd, i). Inr (nd, b\<lparr>current_config_index := i\<rparr>)))"

text \<open>The next node as \<open>u16\<close>.\<close>

definition feature_next_u16 :: "node_env \<Rightarrow> packet \<Rightarrow> fault + nat \<times> packet" where
  "feature_next_u16 E b = try_bind (vnet_feature_next E b) (\<lambda>((next, _), b). Inr (next mod 2 ^ 16, b))"

section \<open>Node functions\<close>

datatype 'n feature_next_node = DefinedNode 'n | NextFeature

type_synonym 'a x4 = "'a \<times> 'a \<times> 'a \<times> 'a"

text \<open>
  What the user of the generic nodes provides: the methods of \<open>GenericFeatureNodeX1\<close> and
  \<open>GenericFeatureNodeX4\<close>, over a state \<open>'s\<close> of the thread (the main structure, the node runtime).
\<close>

record ('s, 'n) generic_node =
  map_buffer_to_next :: "packet \<Rightarrow> 's \<Rightarrow> fault + 'n feature_next_node \<times> packet \<times> 's"
  map_buffer_to_next_x4 :: "packet x4 \<Rightarrow> 's \<Rightarrow> fault + 'n feature_next_node x4 \<times> packet x4 \<times> 's"
  prefetch_buffer_x4 :: "packet x4 \<Rightarrow> 's \<Rightarrow> fault + packet x4 \<times> 's"
  trace_buffer :: "packet \<Rightarrow> 's \<Rightarrow> fault + packet \<times> 's"
  into_u16 :: "'n \<Rightarrow> nat"

definition VLIB_NODE_FLAG_TRACE :: nat where
  "VLIB_NODE_FLAG_TRACE = 32"

text \<open>The default of \<open>trace_buffer\<close>, and of \<open>prefetch_buffer_x4\<close>, which only gives hints to the processor.\<close>

definition default_trace_buffer :: "packet \<Rightarrow> 's \<Rightarrow> fault + packet \<times> 's" where
  "default_trace_buffer b s = Inr (b, s)"

definition default_prefetch_buffer_x4 :: "packet x4 \<Rightarrow> 's \<Rightarrow> fault + packet x4 \<times> 's" where
  "default_prefetch_buffer_x4 b s = Inr (b, s)"

text \<open>\<open>nexts\<close> is the array of next nodes, \<open>None\<close> while a cell is uninitialised.\<close>

definition write_next :: "nat option list \<Rightarrow> nat \<Rightarrow> nat \<Rightarrow> fault + nat option list" where
  "write_next nexts i next = (if i < length nexts then Inr (nexts[i := Some next]) else Inl Undefined_Behaviour)"

fun assume_init :: "nat option list \<Rightarrow> fault + nat list" where
  "assume_init [] = Inr []"
| "assume_init (None # xs) = Inl Undefined_Behaviour"
| "assume_init (Some x # xs) = try_bind (assume_init xs) (\<lambda>ys. Inr (x # ys))"

subsection \<open>One buffer at a time\<close>

definition x1_buffer :: "('s, 'n) generic_node \<Rightarrow> node_env \<Rightarrow> packet \<Rightarrow> 's \<Rightarrow> fault + nat \<times> packet \<times> 's" where
  "x1_buffer G E b0 s =
     try_bind (map_buffer_to_next G b0 s) (\<lambda>(next, b0, s).
       case next of
         NextFeature \<Rightarrow> try_bind (feature_next_u16 E b0) (\<lambda>(next, b0). Inr (next, b0, s))
       | DefinedNode n \<Rightarrow> Inr (into_u16 G n, b0, s))"

fun x1_loop :: "('s, 'n) generic_node \<Rightarrow> node_env \<Rightarrow> nat \<Rightarrow> packet list \<Rightarrow> nat option list \<Rightarrow> 's \<Rightarrow>
    fault + packet list \<times> nat option list \<times> 's" where
  "x1_loop G E i [] nexts s = Inr ([], nexts, s)"
| "x1_loop G E i (b0 # bs) nexts s =
     try_bind (x1_buffer G E b0 s) (\<lambda>(next, b0, s).
     try_bind (write_next nexts i next) (\<lambda>nexts.
     try_bind (x1_loop G E (i + 1) bs nexts s) (\<lambda>(bs, nexts, s). Inr (b0 # bs, nexts, s))))"

subsection \<open>Four buffers at a time\<close>

definition get_x4 :: "'a list \<Rightarrow> nat \<Rightarrow> fault + 'a x4" where
  "get_x4 xs i = (if i + 4 \<le> length xs then Inr (xs ! i, xs ! (i + 1), xs ! (i + 2), xs ! (i + 3))
     else Inl Undefined_Behaviour)"

definition put_x4 :: "'a list \<Rightarrow> nat \<Rightarrow> 'a x4 \<Rightarrow> 'a list" where
  "put_x4 xs i = (\<lambda>(a, b, c, d). xs[i := a, i + 1 := b, i + 2 := c, i + 3 := d])"

definition prefetch_next :: "('s, 'n) generic_node \<Rightarrow> nat \<Rightarrow> packet list \<Rightarrow> 's \<Rightarrow> fault + packet list \<times> 's" where
  "prefetch_next G i b s =
     (if i + 8 \<le> length b then
        try_bind (get_x4 b (i + 4)) (\<lambda>stride_b.
        try_bind (prefetch_buffer_x4 G stride_b s) (\<lambda>(stride_b, s). Inr (put_x4 b (i + 4) stride_b, s)))
      else Inr (b, s))"

definition feature_nexts_x4 :: "node_env \<Rightarrow> packet x4 \<Rightarrow> fault + nat x4 \<times> packet x4" where
  "feature_nexts_x4 E = (\<lambda>(b0, b1, b2, b3).
     if feature_arc_index b0 = feature_arc_index b1 \<and> feature_arc_index b0 = feature_arc_index b2 \<and>
        feature_arc_index b0 = feature_arc_index b3
     then try_bind (feature_next_u16 E b0) (\<lambda>(n, b0). Inr ((n, n, n, n), (b0, b1, b2, b3)))
     else
       try_bind (feature_next_u16 E b0) (\<lambda>(n0, b0).
       try_bind (feature_next_u16 E b1) (\<lambda>(n1, b1).
       try_bind (feature_next_u16 E b2) (\<lambda>(n2, b2).
       try_bind (feature_next_u16 E b3) (\<lambda>(n3, b3). Inr ((n0, n1, n2, n3), (b0, b1, b2, b3)))))))"

definition override_next :: "('s, 'n) generic_node \<Rightarrow> 'n feature_next_node \<Rightarrow> nat \<Rightarrow> nat" where
  "override_next G next already = (case next of NextFeature \<Rightarrow> already | DefinedNode n \<Rightarrow> into_u16 G n)"

definition x4_stride :: "('s, 'n) generic_node \<Rightarrow> node_env \<Rightarrow> packet x4 \<Rightarrow> 's \<Rightarrow> fault + nat x4 \<times> packet x4 \<times> 's" where
  "x4_stride G E b s =
     try_bind (feature_nexts_x4 E b) (\<lambda>((n0, n1, n2, n3), b).
     try_bind (map_buffer_to_next_x4 G b s) (\<lambda>((f0, f1, f2, f3), b, s).
       Inr ((override_next G f0 n0, override_next G f1 n1, override_next G f2 n2, override_next G f3 n3), b, s)))"

text \<open>\<open>k\<close> strides remain, the next starts at \<open>i\<close>.\<close>

fun x4_strides :: "('s, 'n) generic_node \<Rightarrow> node_env \<Rightarrow> nat \<Rightarrow> nat \<Rightarrow> packet list \<Rightarrow> nat option list \<Rightarrow> 's \<Rightarrow>
    fault + packet list \<times> nat option list \<times> 's" where
  "x4_strides G E 0 i b nexts s = Inr (b, nexts, s)"
| "x4_strides G E (Suc k) i b nexts s =
     try_bind (prefetch_next G i b s) (\<lambda>(b, s).
     try_bind (get_x4 b i) (\<lambda>stride_b.
     try_bind (get_x4 nexts i) (\<lambda>_.
     try_bind (x4_stride G E stride_b s) (\<lambda>((n0, n1, n2, n3), stride_b, s).
       x4_strides G E k (i + 4) (put_x4 b i stride_b)
         (put_x4 nexts i (Some n0, Some n1, Some n2, Some n3)) s))))"

definition x4_tail_buffer :: "('s, 'n) generic_node \<Rightarrow> node_env \<Rightarrow> packet \<Rightarrow> 's \<Rightarrow> fault + nat \<times> packet \<times> 's" where
  "x4_tail_buffer G E b0 s =
     try_bind (feature_next_u16 E b0) (\<lambda>(next_val, b0).
     try_bind (map_buffer_to_next G b0 s) (\<lambda>(next, b0, s). Inr (override_next G next next_val, b0, s)))"

text \<open>\<open>k\<close> buffers remain, the next is at \<open>i\<close>.\<close>

fun x4_tail :: "('s, 'n) generic_node \<Rightarrow> node_env \<Rightarrow> nat \<Rightarrow> nat \<Rightarrow> packet list \<Rightarrow> nat option list \<Rightarrow> 's \<Rightarrow>
    fault + packet list \<times> nat option list \<times> 's" where
  "x4_tail G E 0 i b nexts s = Inr (b, nexts, s)"
| "x4_tail G E (Suc k) i b nexts s =
     (case nth_opt b i of
        None \<Rightarrow> Inl Undefined_Behaviour
      | Some b0 \<Rightarrow>
          try_bind (x4_tail_buffer G E b0 s) (\<lambda>(next, b0, s).
          try_bind (write_next nexts i next) (\<lambda>nexts. x4_tail G E k (i + 1) (b[i := b0]) nexts s)))"

fun trace_loop :: "('s, 'n) generic_node \<Rightarrow> packet list \<Rightarrow> 's \<Rightarrow> fault + packet list \<times> 's" where
  "trace_loop G [] s = Inr ([], s)"
| "trace_loop G (b0 # bs) s =
     try_bind (if flags_contain (buffer_flags b0) VLIB_BUFFER_IS_TRACED then trace_buffer G b0 s else Inr (b0, s)) (\<lambda>(b0, s).
     try_bind (trace_loop G bs s) (\<lambda>(bs, s). Inr (b0 # bs, s)))"

definition trace_buffers :: "('s, 'n) generic_node \<Rightarrow> node_env \<Rightarrow> packet list \<Rightarrow> 's \<Rightarrow> fault + packet list \<times> 's" where
  "trace_buffers G E b s = (if flags_contain (ne_flags E) VLIB_NODE_FLAG_TRACE then trace_loop G b s else Inr (b, s))"

definition x4_loop :: "('s, 'n) generic_node \<Rightarrow> node_env \<Rightarrow> packet list \<Rightarrow> nat option list \<Rightarrow> 's \<Rightarrow>
    fault + packet list \<times> nat option list \<times> 's" where
  "x4_loop G E b nexts s =
     (let len = length b in
      try_bind (x4_strides G E (len div 4) 0 b nexts s) (\<lambda>(b, nexts, s).
      try_bind (x4_tail G E (len - len div 4 * 4) (len div 4 * 4) b nexts s) (\<lambda>(b, nexts, s).
      try_bind (trace_buffers G E b s) (\<lambda>(b, s). Inr (b, nexts, s)))))"

section \<open>Frames and the node functions\<close>

text \<open>
  A frame: the memory behind \<open>vector_offset\<close>, which may be longer than the vector, and the number of
  elements of the vector.  \<open>vm_packets\<close> is the memory of the buffers by address.
\<close>

definition FRAME_SIZE :: nat where
  "FRAME_SIZE = 256"

record frame =
  fr_indices :: "nat list"
  fr_n_vectors :: nat

definition frame_vector :: "frame \<Rightarrow> nat list" where
  "frame_vector fr = take (fr_n_vectors fr) (fr_indices fr)"

record vlib_main =
  vm_mem_start :: nat
  vm_mem_size :: nat
  vm_packets :: "nat \<rightharpoonup> packet"

definition frame_get_buffers :: "bool \<Rightarrow> vlib_main \<Rightarrow> frame \<Rightarrow> fault + nat option list" where
  "frame_get_buffers dbg vm fr =
     get_buffers dbg (vm_mem_start vm) (vm_mem_size vm) (fr_indices fr) (fr_n_vectors fr) FRAME_SIZE []"

fun load_packets :: "(nat \<rightharpoonup> packet) \<Rightarrow> nat option list \<Rightarrow> fault + packet list" where
  "load_packets m [] = Inr []"
| "load_packets m (p # ps) =
     (case Option.bind p m of
        None \<Rightarrow> Inl Undefined_Behaviour
      | Some b \<Rightarrow> try_bind (load_packets m ps) (\<lambda>bs. Inr (b # bs)))"

definition store_packets :: "(nat \<rightharpoonup> packet) \<Rightarrow> nat option list \<Rightarrow> packet list \<Rightarrow> (nat \<rightharpoonup> packet)" where
  "store_packets m ps bs = m ++ map_of (zip (map the ps) bs)"

text \<open>What a node function does: the arguments of the C function that enqueues, the memory, the count.\<close>

record 's node_result =
  nd_from :: "nat list"
  nd_nexts :: "nat list"
  nd_packets :: "nat \<rightharpoonup> packet"
  nd_state :: 's
  nd_count :: nat

definition buffer_enqueue_to_next :: "bool \<Rightarrow> nat list \<Rightarrow> nat list \<Rightarrow> fault + nat list \<times> nat list" where
  "buffer_enqueue_to_next dbg from nexts = try_bind (debug_assert dbg (length from = length nexts)) (\<lambda>_. Inr (from, nexts))"

text \<open>The frame of both functions around \<open>loop\<close>, which fills the array of next nodes.\<close>

definition node_function ::
  "(packet list \<Rightarrow> nat option list \<Rightarrow> 's \<Rightarrow> fault + packet list \<times> nat option list \<times> 's) \<Rightarrow>
   bool \<Rightarrow> vlib_main \<Rightarrow> frame \<Rightarrow> 's \<Rightarrow> fault + 's node_result" where
  "node_function loop dbg vm fr s =
     try_bind (frame_get_buffers dbg vm fr) (\<lambda>ptrs.
     try_bind (load_packets (vm_packets vm) ptrs) (\<lambda>b.
     try_bind (loop b (replicate FRAME_SIZE None) s) (\<lambda>(b, nexts, s).
     try_bind (assume_init (take (length b) nexts)) (\<lambda>initialized_nexts.
     try_bind (buffer_enqueue_to_next dbg (frame_vector fr) initialized_nexts) (\<lambda>(from, nexts).
       Inr \<lparr>nd_from = from, nd_nexts = nexts, nd_packets = store_packets (vm_packets vm) ptrs b, nd_state = s,
            nd_count = length (frame_vector fr) mod 2 ^ 16\<rparr>)))))"

definition generic_feature_node_x1 ::
  "('s, 'n) generic_node \<Rightarrow> node_env \<Rightarrow> vlib_main \<Rightarrow> frame \<Rightarrow> 's \<Rightarrow> fault + 's node_result" where
  "generic_feature_node_x1 G E = node_function (x1_loop G E 0) (ne_dbg E)"

definition generic_feature_node_x4 ::
  "('s, 'n) generic_node \<Rightarrow> node_env \<Rightarrow> vlib_main \<Rightarrow> frame \<Rightarrow> 's \<Rightarrow> fault + 's node_result" where
  "generic_feature_node_x4 G E = node_function (x4_loop G E) (ne_dbg E)"

section \<open>The step along the arc\<close>

text \<open>A packet whose configuration entry is in the heap of its arc, and what it reads there.\<close>

definition config_ok :: "node_env \<Rightarrow> packet \<Rightarrow> bool" where
  "config_ok E b \<longleftrightarrow> feature_arc_index b < length (ne_mains E) \<and>
     current_config_index b + config_words (ne_size E) < length (ne_mains E ! feature_arc_index b) \<and>
     current_config_index b + config_words (ne_size E) + 1 \<le> U32_MAX"

definition entry_next :: "node_env \<Rightarrow> packet \<Rightarrow> nat" where
  "entry_next E b = ne_mains E ! feature_arc_index b ! (current_config_index b + config_words (ne_size E))"

definition entry_data :: "node_env \<Rightarrow> packet \<Rightarrow> nat list" where
  "entry_data E b = take (config_words (ne_size E)) (drop (current_config_index b) (ne_mains E ! feature_arc_index b))"

definition entry_after :: "node_env \<Rightarrow> packet \<Rightarrow> nat" where
  "entry_after E b = current_config_index b + config_words (ne_size E) + 1"

lemma vnet_feature_next_ok:
  "config_ok E b \<Longrightarrow>
   vnet_feature_next E b = Inr ((entry_next E b, entry_data E b), b\<lparr>current_config_index := entry_after E b\<rparr>)"
  by (simp add: config_ok_def vnet_feature_next_def vnet_get_config_data_def entry_next_def entry_data_def
      entry_after_def U32_MAX_def Let_def)

lemma feature_next_u16_ok:
  "config_ok E b \<Longrightarrow>
   feature_next_u16 E b = Inr (entry_next E b mod 2 ^ 16, b\<lparr>current_config_index := entry_after E b\<rparr>)"
  by (simp add: feature_next_u16_def vnet_feature_next_ok)

lemma entry_same:
  assumes "feature_arc_index b = feature_arc_index c" "current_config_index b = current_config_index c"
  shows "config_ok E b = config_ok E c" "entry_next E b = entry_next E c" "entry_after E b = entry_after E c"
    "entry_data E b = entry_data E c"
  using assms by (simp_all add: config_ok_def entry_next_def entry_after_def entry_data_def)

section \<open>Implementations of a generic node\<close>

text \<open>
  The contract between the generic node functions and the methods they call: the method for four
  buffers handles them one after the other as the method for one buffer does, prefetching changes
  nothing, and handling a buffer neither reads nor changes its place in the arc.
\<close>

definition map_each_x4 :: "('s, 'n) generic_node \<Rightarrow> packet x4 \<Rightarrow> 's \<Rightarrow> fault + 'n feature_next_node x4 \<times> packet x4 \<times> 's" where
  "map_each_x4 G = (\<lambda>(b0, b1, b2, b3) s.
     try_bind (map_buffer_to_next G b0 s) (\<lambda>(f0, b0, s).
     try_bind (map_buffer_to_next G b1 s) (\<lambda>(f1, b1, s).
     try_bind (map_buffer_to_next G b2 s) (\<lambda>(f2, b2, s).
     try_bind (map_buffer_to_next G b3 s) (\<lambda>(f3, b3, s).
       Inr ((f0, f1, f2, f3), (b0, b1, b2, b3), s))))))"

definition at_config :: "nat \<Rightarrow> packet \<Rightarrow> packet" where
  "at_config i b = b\<lparr>current_config_index := i\<rparr>"

definition config_blind :: "(packet \<Rightarrow> 's \<Rightarrow> fault + 'a \<times> packet \<times> 's) \<Rightarrow> bool" where
  "config_blind f \<longleftrightarrow>
     (\<forall>b s i. f (at_config i b) s = map_sum id (\<lambda>(x, b, s). (x, at_config i b, s)) (f b s)) \<and>
     (\<forall>b s x b' s'. f b s = Inr (x, b', s') \<longrightarrow> feature_arc_index b' = feature_arc_index b)"

locale feature_node_impl =
  fixes G :: "('s, 'n) generic_node"
  assumes map_x4: "map_buffer_to_next_x4 G b4 s = map_each_x4 G b4 s"
    and prefetch: "prefetch_buffer_x4 G b4 s = Inr (b4, s)"
    and blind: "config_blind (map_buffer_to_next G)"

subsection \<open>What one buffer contributes\<close>

text \<open>Results without the place in the arc.\<close>

definition forget :: "fault + 'a \<times> packet \<times> 's \<Rightarrow> fault + 'a \<times> packet \<times> 's" where
  "forget r = map_sum id (\<lambda>(x, b, s). (x, at_config 0 b, s)) r"

definition forget_all :: "fault + 'a \<times> packet list \<times> 's \<Rightarrow> fault + 'a \<times> packet list \<times> 's" where
  "forget_all r = map_sum id (\<lambda>(x, bs, s). (x, map (at_config 0) bs, s)) r"

fun run_each :: "('e \<Rightarrow> 's \<Rightarrow> fault + 'a \<times> packet \<times> 's) \<Rightarrow> 'e list \<Rightarrow> 's \<Rightarrow> fault + 'a list \<times> packet list \<times> 's" where
  "run_each f [] s = Inr ([], [], s)"
| "run_each f (b # bs) s =
     try_bind (f b s) (\<lambda>(x, b, s). try_bind (run_each f bs s) (\<lambda>(xs, bs, s). Inr (x # xs, b # bs, s)))"

lemma at_config_simps [simp]:
  "at_config i (at_config j b) = at_config i b" "current_config_index (at_config i b) = i"
  "feature_arc_index (at_config i b) = feature_arc_index b" "at_config (current_config_index b) b = b"
  by (simp_all add: at_config_def)

lemma forget_Inr_eq:
  "forget r = forget q \<longleftrightarrow>
     (case (r, q) of (Inl e, Inl e') \<Rightarrow> e = e' | (Inr (x, b, s), Inr (x', b', s')) \<Rightarrow> x = x' \<and> at_config 0 b = at_config 0 b' \<and> s = s'
      | _ \<Rightarrow> False)"
  by (auto simp: forget_def split: sum.splits prod.splits)

lemma run_each_forget:
  "list_all2 (\<lambda>b c. \<forall>s. forget (f b s) = forget (g c s)) bs cs \<Longrightarrow>
   forget_all (run_each f bs s) = forget_all (run_each g cs s)"
proof (induction arbitrary: s rule: list_all2_induct)
  case (Cons b bs c cs)
  have bc: "forget (f b s) = forget (g c s)" using Cons.hyps by blast
  show ?case
  proof (cases "f b s")
    case (Inl e)
    then show ?thesis using bc by (auto simp: forget_Inr_eq forget_all_def split: sum.splits)
  next
    case (Inr r)
    then obtain x b' s' where r: "f b s = Inr (x, b', s')" by (cases r) auto
    with bc obtain c' where c: "g c s = Inr (x, c', s')" "at_config 0 b' = at_config 0 c'"
      by (auto simp: forget_Inr_eq split: sum.splits prod.splits)
    show ?thesis using Cons.IH[of s'] c unfolding forget_all_def
      by (simp add: r) (cases "run_each f bs s'"; cases "run_each g cs s'"; auto split: prod.splits)
  qed
qed (simp add: forget_all_def)

text \<open>A buffer whose next node in the arc has been found before: \<open>n\<close>.\<close>

definition follower :: "('s, 'n) generic_node \<Rightarrow> nat \<Rightarrow> packet \<Rightarrow> 's \<Rightarrow> fault + nat \<times> packet \<times> 's" where
  "follower G n b s = try_bind (map_buffer_to_next G b s) (\<lambda>(f, b, s). Inr (override_next G f n, b, s))"

context feature_node_impl begin

lemma blind_at: "map_buffer_to_next G (at_config i b) s = map_sum id (\<lambda>(x, b, s). (x, at_config i b, s)) (map_buffer_to_next G b s)"
  using blind by (simp add: config_blind_def)

lemma keeps:
  assumes "map_buffer_to_next G b s = Inr (x, b', s')"
  shows "feature_arc_index b' = feature_arc_index b" "current_config_index b' = current_config_index b"
proof -
  show "feature_arc_index b' = feature_arc_index b" using assms blind unfolding config_blind_def by blast
  from blind_at[of "current_config_index b" b s] assms have "b' = at_config (current_config_index b) b'" by simp
  then show "current_config_index b' = current_config_index b" by (metis at_config_simps(2))
qed

lemma follower_at: "forget (follower G n (at_config i b) s) = forget (follower G n b s)"
  by (cases "map_buffer_to_next G b s") (auto simp: forget_Inr_eq follower_def blind_at split: prod.splits)

lemma x1_follower:
  assumes "config_ok E b"
  shows "forget (x1_buffer G E b s) = forget (follower G (entry_next E b mod 2 ^ 16) b s)"
proof (cases "map_buffer_to_next G b s")
  case (Inr r)
  obtain f b' s' where r: "r = (f, b', s')" by (cases r)
  note same = keeps[OF Inr[unfolded r]]
  then have "config_ok E b'" "entry_next E b' = entry_next E b" using assms entry_same[of b' b E] by auto
  then show ?thesis
    using Inr r by (cases f) (auto simp: forget_Inr_eq x1_buffer_def follower_def override_next_def feature_next_u16_ok at_config_def)
qed (simp add: forget_Inr_eq x1_buffer_def follower_def)

lemma tail_follower:
  assumes "config_ok E b"
  shows "x4_tail_buffer G E b s = follower G (entry_next E b mod 2 ^ 16) (at_config (entry_after E b) b) s"
  using assms by (simp add: x4_tail_buffer_def follower_def feature_next_u16_ok at_config_def)

lemma tail_x1:
  assumes "config_ok E b"
  shows "forget (x4_tail_buffer G E b s) = forget (x1_buffer G E b s)"
  unfolding tail_follower[OF assms] follower_at x1_follower[OF assms] ..

lemma follower_x1:
  assumes "config_ok E b" "feature_arc_index c = feature_arc_index b"
  shows "forget (follower G (entry_next E b mod 2 ^ 16) c s) = forget (x1_buffer G E (at_config (current_config_index b) c) s)"
proof -
  have "config_ok E (at_config (current_config_index b) c)" "entry_next E (at_config (current_config_index b) c) = entry_next E b"
    using assms entry_same[of "at_config (current_config_index b) c" b E] by auto
  then show ?thesis using x1_follower[of E "at_config (current_config_index b) c" s] by (simp add: follower_at)
qed

end

subsection \<open>The loops as one pass\<close>

lemma run_each_append:
  "run_each f (xs @ ys) s = try_bind (run_each f xs s) (\<lambda>(as, bs, s).
     try_bind (run_each f ys s) (\<lambda>(as', bs', s). Inr (as @ as', bs @ bs', s)))"
proof (induction xs arbitrary: s)
  case (Cons x xs)
  then show ?case by (auto simp: try_bind_def split: sum.splits prod.splits)
qed (auto simp: try_bind_def split: sum.splits prod.splits)

lemma run_each_length: "run_each f xs s = Inr (as, bs, s') \<Longrightarrow> length as = length xs \<and> length bs = length xs"
  by (induction xs arbitrary: s as bs) (auto simp: try_bind_Inr)

lemma run_each_map: "run_each f (map g xs) s = run_each (\<lambda>x. f (g x)) xs s"
  by (induction xs arbitrary: s) auto

text \<open>
  The plan of a frame: for every buffer the next node written for it before the user's code runs, and
  the buffer with its place in the arc at that time.  Only the first buffer of a stride with one arc
  is moved along the arc.
\<close>

definition own_step :: "node_env \<Rightarrow> packet \<Rightarrow> nat \<times> packet" where
  "own_step E b = (entry_next E b mod 2 ^ 16, at_config (entry_after E b) b)"

definition one_arc :: "packet list \<Rightarrow> bool" where
  "one_arc bs \<longleftrightarrow> list_all (\<lambda>b. feature_arc_index b = feature_arc_index (hd bs)) bs"

definition stride_plan :: "node_env \<Rightarrow> packet list \<Rightarrow> (nat \<times> packet) list" where
  "stride_plan E bs =
     (if one_arc bs then own_step E (hd bs) # map (\<lambda>b. (fst (own_step E (hd bs)), b)) (tl bs) else map (own_step E) bs)"

fun strides_plan :: "node_env \<Rightarrow> nat \<Rightarrow> packet list \<Rightarrow> (nat \<times> packet) list" where
  "strides_plan E 0 bs = []"
| "strides_plan E (Suc k) bs = stride_plan E (take 4 bs) @ strides_plan E k (drop 4 bs)"

definition frame_plan :: "node_env \<Rightarrow> packet list \<Rightarrow> (nat \<times> packet) list" where
  "frame_plan E bs = (let k = length bs div 4 in strides_plan E k bs @ map (own_step E) (drop (k * 4) bs))"

lemma get_x4_at: "get_x4 (xs @ a # b # c # d # ys) (length xs) = Inr (a, b, c, d)"
  by (simp add: get_x4_def nth_append)

lemma put_x4_at: "put_x4 (xs @ a # b # c # d # ys) (length xs) (a', b', c', d') = xs @ a' # b' # c' # d' # ys"
  by (simp add: put_x4_def list_update_append)

lemma put_get_x4: "get_x4 xs i = Inr t \<Longrightarrow> put_x4 xs i t = xs"
  by (auto simp: get_x4_def put_x4_def split: if_splits)

lemma split_4:
  assumes "4 \<le> length xs"
  obtains a b c d ys where "xs = a # b # c # d # ys"
  using assms by (auto simp: numeral_eq_Suc Suc_le_length_iff)

context feature_node_impl begin

abbreviation step where "step \<equiv> \<lambda>(n, b) s. follower G n b s"

lemma stride_run:
  assumes "config_ok E b0" "config_ok E b1" "config_ok E b2" "config_ok E b3"
  shows "try_bind (x4_stride G E (b0, b1, b2, b3) s) (\<lambda>((n0, n1, n2, n3), (c0, c1, c2, c3), s).
      Inr ([n0, n1, n2, n3], [c0, c1, c2, c3], s)) = run_each step (stride_plan E [b0, b1, b2, b3]) s"
  using assms
  by (auto simp: x4_stride_def feature_nexts_x4_def feature_next_u16_ok map_x4 map_each_x4_def follower_def
      stride_plan_def one_arc_def own_step_def at_config_def try_bind_def split: sum.splits prod.splits)

end

lemma stride_result:
  assumes "try_bind r (\<lambda>((n0, n1, n2, n3), (c0, c1, c2, c3), s). Inr ([n0, n1, n2, n3], [c0, c1, c2, c3], s)) = q"
  shows "(case q of
      Inl e \<Rightarrow> r = Inl e
    | Inr (ns, cs, s) \<Rightarrow> \<exists>n0 n1 n2 n3 c0 c1 c2 c3. ns = [n0, n1, n2, n3] \<and> cs = [c0, c1, c2, c3] \<and>
        r = Inr ((n0, n1, n2, n3), (c0, c1, c2, c3), s))"
  using assms by (cases r) auto

context feature_node_impl begin

lemma strides_run:
  "list_all (config_ok E) bs \<Longrightarrow> 4 * k \<le> length bs \<Longrightarrow> length bs \<le> length us \<Longrightarrow> length ns = length as \<Longrightarrow>
   x4_strides G E k (length as) (as @ bs) (ns @ us) s =
     try_bind (run_each step (strides_plan E k bs) s) (\<lambda>(ns', as', s).
       Inr (as @ as' @ drop (4 * k) bs, ns @ map Some ns' @ drop (4 * k) us, s))"
proof (induction k arbitrary: as bs ns us s)
  case (Suc k)
  obtain b0 b1 b2 b3 bs' where bs: "bs = b0 # b1 # b2 # b3 # bs'" by (rule split_4[of bs]) (use Suc.prems(2) in auto)
  obtain u0 u1 u2 u3 us' where us: "us = u0 # u1 # u2 # u3 # us'" by (rule split_4[of us]) (use Suc.prems(2,3) in auto)
  have pre: "prefetch_next G (length as) (as @ bs) s = Inr (as @ bs, s)"
  proof (cases "length as + 8 \<le> length (as @ bs)")
    case True
    then obtain t where "get_x4 (as @ bs) (length as + 4) = Inr t" by (auto simp: get_x4_def)
    with True put_get_x4[OF this] show ?thesis by (simp add: prefetch_next_def prefetch)
  qed (simp add: prefetch_next_def)
  have get: "get_x4 (as @ bs) (length as) = Inr (b0, b1, b2, b3)" "get_x4 (ns @ us) (length as) = Inr (u0, u1, u2, u3)"
    using get_x4_at[of as] get_x4_at[of ns] Suc.prems(4) unfolding bs us by auto
  have put: "put_x4 (as @ bs) (length as) (c0, c1, c2, c3) = (as @ [c0, c1, c2, c3]) @ bs'"
    "put_x4 (ns @ us) (length as) (v0, v1, v2, v3) = (ns @ [v0, v1, v2, v3]) @ us'" for c0 c1 c2 c3 v0 v1 v2 v3
    using put_x4_at[of as] put_x4_at[of ns] Suc.prems(4) unfolding bs us by auto
  have stride: "try_bind (x4_stride G E (b0, b1, b2, b3) s) (\<lambda>((n0, n1, n2, n3), (c0, c1, c2, c3), s).
      Inr ([n0, n1, n2, n3], [c0, c1, c2, c3], s)) = run_each step (stride_plan E [b0, b1, b2, b3]) s"
    using Suc.prems(1) bs by (intro stride_run) auto
  have plan: "strides_plan E (Suc k) bs = stride_plan E [b0, b1, b2, b3] @ strides_plan E k bs'"
    by (simp add: bs)
  have len: "length (ns @ [v0, v1, v2, v3]) = length (as @ [c0, c1, c2, c3])" "length as + 4 = length (as @ [c0, c1, c2, c3])"
    for v0 v1 v2 v3 c0 c1 c2 c3 using Suc.prems(4) by auto
  have IH: "x4_strides G E k (length as + 4) ((as @ [c0, c1, c2, c3]) @ bs') ((ns @ [v0, v1, v2, v3]) @ us') t =
     try_bind (run_each step (strides_plan E k bs') t) (\<lambda>(ns', as', s).
       Inr ((as @ [c0, c1, c2, c3]) @ as' @ drop (4 * k) bs', (ns @ [v0, v1, v2, v3]) @ map Some ns' @ drop (4 * k) us', s))"
    for c0 c1 c2 c3 v0 v1 v2 v3 t
    unfolding len(2)[of c0 c1 c2 c3] using Suc.prems by (intro Suc.IH) (auto simp: bs us)
  have four: "4 * Suc k = Suc (Suc (Suc (Suc (4 * k))))" by simp
  have drops: "drop (4 * Suc k) bs = drop (4 * k) bs'" "drop (4 * Suc k) us = drop (4 * k) us'"
    unfolding bs us four by simp_all
  show ?case
  proof (cases "run_each step (stride_plan E [b0, b1, b2, b3]) s")
    case (Inl e)
    then have "x4_stride G E (b0, b1, b2, b3) s = Inl e" using stride_result[OF stride] by simp
    then show ?thesis unfolding plan run_each_append Inl by (simp add: pre get)
  next
    case (Inr r)
    obtain ns1 cs1 s1 where "r = (ns1, cs1, s1)" by (cases r)
    with Inr stride_result[OF stride] obtain n0 n1 n2 n3 c0 c1 c2 c3 where
      r: "r = ([n0, n1, n2, n3], [c0, c1, c2, c3], s1)"
      and x: "x4_stride G E (b0, b1, b2, b3) s = Inr ((n0, n1, n2, n3), (c0, c1, c2, c3), s1)" by auto
    show ?thesis unfolding plan run_each_append Inr r drops
      using IH[of c0 c1 c2 c3 "Some n0" "Some n1" "Some n2" "Some n3" s1]
      by (simp add: pre get x put) (cases "run_each step (strides_plan E k bs') s1"; auto)
  qed
qed simp

lemma tail_run:
  "list_all (config_ok E) bs \<Longrightarrow> length bs \<le> length us \<Longrightarrow> length ns = length as \<Longrightarrow>
   x4_tail G E (length bs) (length as) (as @ bs) (ns @ us) s =
     try_bind (run_each step (map (own_step E) bs) s) (\<lambda>(ns', as', s).
       Inr (as @ as', ns @ map Some ns' @ drop (length bs) us, s))"
proof (induction bs arbitrary: as ns us s)
  case (Cons b bs)
  obtain u us' where us: "us = u # us'" using Cons.prems(2) by (cases us) auto
  have step: "x4_tail_buffer G E b s = step (own_step E b) s"
    using Cons.prems(1) tail_follower[of E b s] by (simp add: own_step_def)
  have IH: "x4_tail G E (length bs) (Suc (length as)) (as @ c # bs) (ns @ v # us') t =
     try_bind (run_each step (map (own_step E) bs) t) (\<lambda>(ns', as', s).
       Inr ((as @ [c]) @ as', (ns @ [v]) @ map Some ns' @ drop (length bs) us', s))" for c v t
    using Cons.IH[of us' "ns @ [v]" "as @ [c]" t] Cons.prems by (simp add: us)
  show ?case
  proof (cases "step (own_step E b) s")
    case (Inr r)
    obtain n c s1 where "r = (n, c, s1)" by (cases r)
    with Inr step IH[of c "Some n" s1] Cons.prems(3) show ?thesis
      by (simp add: us write_next_def list_update_append)
        (cases "run_each step (map (own_step E) bs) s1"; auto)
  qed (use step in simp)
qed simp

lemma loop_run:
  assumes "list_all (config_ok E) bs" "length bs \<le> length us"
  shows "x4_loop G E bs us s = try_bind (run_each step (frame_plan E bs) s) (\<lambda>(ns, as, s).
     try_bind (trace_buffers G E as s) (\<lambda>(as, s). Inr (as, map Some ns @ drop (length bs) us, s)))"
proof -
  define k where "k = length bs div 4"
  have k: "4 * k \<le> length bs" "length bs - k * 4 = length (drop (4 * k) bs)" by (auto simp: k_def)
  have strides: "x4_strides G E k 0 bs us s = try_bind (run_each step (strides_plan E k bs) s) (\<lambda>(ns', as', s).
       Inr (as' @ drop (4 * k) bs, map Some ns' @ drop (4 * k) us, s))"
    using strides_run[OF assms(1) k(1) assms(2), of "[]" "[]" s] by simp
  have len: "length (strides_plan E k bs) = 4 * k" if "4 * k \<le> length bs" for k bs
    using that by (induction k arbitrary: bs) (auto simp: stride_plan_def)
  show ?thesis
  proof (cases "run_each step (strides_plan E k bs) s")
    case (Inl e)
    with strides show ?thesis by (simp add: x4_loop_def frame_plan_def run_each_append Let_def flip: k_def)
  next
    case (Inr r)
    obtain ns as s1 where r: "r = (ns, as, s1)" by (cases r)
    have l: "length as = 4 * k" "length (map Some ns) = length as"
      using run_each_length[OF Inr[unfolded r]] len[OF k(1)] by auto
    have ok: "list_all (config_ok E) (drop (4 * k) bs)" using assms(1) by (auto simp: list_all_iff dest: in_set_dropD)
    have len: "length (drop (4 * k) bs) = length bs - k * 4" "length as = k * 4" using k l by (auto simp: mult.commute)
    have "x4_tail G E (length (drop (4 * k) bs)) (length as) (as @ drop (4 * k) bs) (map Some ns @ drop (4 * k) us) s1 =
      try_bind (run_each step (map (own_step E) (drop (4 * k) bs)) s1) (\<lambda>(ns', as', s).
       Inr (as @ as', map Some ns @ map Some ns' @ drop (length (drop (4 * k) bs)) (drop (4 * k) us), s))"
      by (rule tail_run[OF ok]) (use assms(2) l(2) in auto)
    note tail = this[unfolded len]
    have rest: "drop (length bs - k * 4) (drop (4 * k) us) = drop (length bs) us" using k(1) by (simp add: mult.commute)
    have plan: "frame_plan E bs = strides_plan E k bs @ map (own_step E) (drop (4 * k) bs)"
      unfolding frame_plan_def Let_def k_def[symmetric] mult.commute[of k 4] ..
    have "x4_loop G E bs us s = try_bind (try_bind (run_each step (map (own_step E) (drop (4 * k) bs)) s1) (\<lambda>(ns', as', s).
       Inr (as @ as', map Some ns @ map Some ns' @ drop (length bs) us, s)))
       (\<lambda>(b, nexts, s). try_bind (trace_buffers G E b s) (\<lambda>(b, s). Inr (b, nexts, s)))"
      unfolding x4_loop_def Let_def k_def[symmetric] strides Inr r try_bind_simps prod.case tail rest ..
    then show ?thesis unfolding plan run_each_append Inr r try_bind_simps prod.case
      by (cases "run_each step (map (own_step E) (drop (4 * k) bs)) s1") auto
  qed
qed

end

subsection \<open>The frame as the function for one buffer sees it\<close>

text \<open>In a stride with one arc all buffers are taken to be where the first one is.\<close>

definition lead_stride :: "packet list \<Rightarrow> packet list" where
  "lead_stride bs = (if one_arc bs then hd bs # map (at_config (current_config_index (hd bs))) (tl bs) else bs)"

fun lead_strides :: "nat \<Rightarrow> packet list \<Rightarrow> packet list" where
  "lead_strides 0 bs = bs"
| "lead_strides (Suc k) bs = lead_stride (take 4 bs) @ lead_strides k (drop 4 bs)"

definition lead_frame :: "packet list \<Rightarrow> packet list" where
  "lead_frame bs = lead_strides (length bs div 4) bs"

lemma x1_run:
  "length bs \<le> length us \<Longrightarrow>
   x1_loop G E (length ns) bs (ns @ us) s = try_bind (run_each (x1_buffer G E) bs s) (\<lambda>(ns', as, s).
     Inr (as, ns @ map Some ns' @ drop (length bs) us, s))"
proof (induction bs arbitrary: ns us s)
  case (Cons b bs)
  obtain u us' where us: "us = u # us'" using Cons.prems by (cases us) auto
  show ?case
  proof (cases "x1_buffer G E b s")
    case (Inr r)
    obtain n c s1 where "r = (n, c, s1)" by (cases r)
    with Inr Cons.IH[of us' "ns @ [Some n]" s1] Cons.prems show ?thesis
      by (simp add: us write_next_def list_update_append) (cases "run_each (x1_buffer G E) bs s1"; auto)
  qed simp
qed simp

context feature_node_impl begin

lemma stride_lead:
  assumes "list_all (config_ok E) bs" "bs \<noteq> []"
  shows "list_all2 (\<lambda>p c. \<forall>s. forget (step p s) = forget (x1_buffer G E c s)) (stride_plan E bs) (lead_stride bs)"
proof -
  have own: "forget (step (own_step E b) s) = forget (x1_buffer G E b s)" if "config_ok E b" for b s
    using tail_x1[OF that] tail_follower[OF that] by (simp add: own_step_def)
  obtain b cs where bs: "bs = b # cs" using assms(2) by (cases bs) auto
  show ?thesis
  proof (cases "one_arc bs")
    case True
    have "forget (step (fst (own_step E b), c) s) = forget (x1_buffer G E (at_config (current_config_index b) c) s)"
      if "c \<in> set cs" for c s
    proof -
      have "config_ok E b" "feature_arc_index c = feature_arc_index b" using assms(1) True that by (auto simp: bs one_arc_def list_all_iff)
      from follower_x1[OF this] show ?thesis by (simp add: own_step_def)
    qed
    then show ?thesis using True own[of b] assms(1)
      by (simp add: bs stride_plan_def lead_stride_def list_all2_map1 list_all2_map2 list_all2_same)
  next
    case False
    then show ?thesis using own assms(1) by (auto simp: stride_plan_def lead_stride_def list_all2_conv_all_nth list_all_length)
  qed
qed

lemma frame_lead:
  assumes "list_all (config_ok E) bs"
  shows "list_all2 (\<lambda>p c. \<forall>s. forget (step p s) = forget (x1_buffer G E c s)) (frame_plan E bs) (lead_frame bs)"
proof -
  have "list_all2 (\<lambda>p c. \<forall>s. forget (step p s) = forget (x1_buffer G E c s))
      (strides_plan E k bs @ map (own_step E) (drop (k * 4) bs)) (lead_strides k bs)"
    if "k * 4 \<le> length bs" for k using that assms
  proof (induction k arbitrary: bs)
    case 0
    then show ?case using stride_lead[of E "[b]" for b]
      by (auto simp: list_all2_conv_all_nth list_all_length stride_plan_def lead_stride_def one_arc_def)
  next
    case (Suc k)
    have "list_all (config_ok E) (take 4 bs)" "list_all (config_ok E) (drop 4 bs)"
      using Suc.prems(2) by (auto simp: list_all_iff dest: in_set_takeD in_set_dropD)
    moreover have "take 4 bs \<noteq> []" "k * 4 \<le> length (drop 4 bs)" using Suc.prems(1) by auto
    moreover have "drop (Suc k * 4) bs = drop (k * 4) (drop 4 bs)" by (simp add: add.commute)
    ultimately show ?case using Suc.IH[of "drop 4 bs"] stride_lead[of E "take 4 bs"]
      by (auto intro!: list_all2_appendI)
  qed
  then show ?thesis by (simp add: frame_plan_def lead_frame_def Let_def)
qed

lemma loops_agree:
  assumes "list_all (config_ok E) bs"
  shows "forget_all (run_each step (frame_plan E bs) s) = forget_all (run_each (x1_buffer G E) (lead_frame bs) s)"
  using run_each_forget[OF frame_lead[OF assms]] .

end

section \<open>The node functions agree\<close>

text \<open>The result of a node function without the places of the packets in the arc.\<close>

definition forget_result :: "fault + 's node_result \<Rightarrow> fault + 's node_result" where
  "forget_result r = map_sum id (\<lambda>n. n\<lparr>nd_packets := map_option (at_config 0) \<circ> nd_packets n\<rparr>) r"

lemma assume_init_map: "assume_init (map Some xs) = Inr xs"
  by (induction xs) auto

lemma map_of_zip_values: "map_of (zip ks (map f vs)) x = map_option f (map_of (zip ks vs) x)"
proof (induction ks arbitrary: vs)
  case (Cons k ks)
  then show ?case by (cases vs) auto
qed simp

lemma store_forget:
  assumes "map (at_config 0) bs = map (at_config 0) cs"
  shows "map_option (at_config 0) \<circ> store_packets m ps bs = map_option (at_config 0) \<circ> store_packets m ps cs"
proof -
  have store: "map_option f \<circ> store_packets m ps bs = (map_option f \<circ> m) ++ map_of (zip (map the ps) (map f bs))" for f bs
    by (rule ext) (auto simp: store_packets_def map_add_def map_of_zip_values split: option.splits)
  show ?thesis unfolding store[of "at_config 0" bs] store[of "at_config 0" cs] assms ..
qed

lemma load_packets_length: "load_packets m ps = Inr bs \<Longrightarrow> length bs = length ps"
  by (induction ps arbitrary: bs) (auto simp: try_bind_Inr split: option.splits)

lemma frame_get_buffers_length:
  assumes "frame_get_buffers dbg vm fr = Inr ps"
  shows "length ps \<le> FRAME_SIZE"
  using assms unfolding frame_get_buffers_def get_buffers_def FRAME_SIZE_def
  by (auto simp: try_bind_Inr debug_assert_def split: if_splits)

text \<open>What both functions do with the results of their loop.\<close>

definition finish :: "bool \<Rightarrow> vlib_main \<Rightarrow> frame \<Rightarrow> nat option list \<Rightarrow> nat list \<times> packet list \<times> 's \<Rightarrow> fault + 's node_result" where
  "finish dbg vm fr ps = (\<lambda>(ns, bs, s).
     try_bind (buffer_enqueue_to_next dbg (frame_vector fr) ns) (\<lambda>(from, nexts).
       Inr \<lparr>nd_from = from, nd_nexts = nexts, nd_packets = store_packets (vm_packets vm) ps bs, nd_state = s,
            nd_count = length (frame_vector fr) mod 2 ^ 16\<rparr>))"

lemma node_function_finish:
  assumes "frame_get_buffers dbg vm fr = Inr ps" "load_packets (vm_packets vm) ps = Inr bs"
    and loop: "loop bs (replicate FRAME_SIZE None) s = try_bind r (\<lambda>(ns, as, s). Inr (as, map Some ns @ us, s))"
    and len: "\<forall>ns as s. r = Inr (ns, as, s) \<longrightarrow> length ns = length as"
  shows "node_function loop dbg vm fr s = try_bind r (finish dbg vm fr ps)"
  using assms(1,2) len
  by (cases r) (auto simp: node_function_def loop finish_def assume_init_map)

lemma finish_forget:
  assumes "forget_all r = forget_all q"
  shows "forget_result (try_bind r (finish dbg vm fr ps)) = forget_result (try_bind q (finish dbg vm fr ps))"
proof (cases r)
  case (Inl e)
  with assms show ?thesis by (cases q) (auto simp: forget_all_def)
next
  case (Inr x)
  obtain ns as t where x: "x = (ns, as, t)" by (cases x)
  with Inr assms obtain bs where q: "q = Inr (ns, bs, t)" "map (at_config 0) as = map (at_config 0) bs"
    by (cases q) (auto simp: forget_all_def split: prod.splits)
  show ?thesis
    by (auto simp: Inr x q finish_def forget_result_def buffer_enqueue_to_next_def debug_assert_def store_forget[OF q(2)])
qed

context feature_node_impl begin

lemma nodes_agree:
  assumes fr: "frame_get_buffers (ne_dbg E) vm fr = Inr ps" "load_packets (vm_packets vm) ps = Inr bs"
    and config: "list_all (config_ok E) bs"
    and untraced: "\<not> flags_contain (ne_flags E) VLIB_NODE_FLAG_TRACE"
    and uniform: "lead_frame bs = bs"
  shows "forget_result (generic_feature_node_x4 G E vm fr s) = forget_result (generic_feature_node_x1 G E vm fr s)"
proof -
  have len: "length bs \<le> length (replicate FRAME_SIZE (None :: nat option))"
    using frame_get_buffers_length[OF fr(1)] load_packets_length[OF fr(2)] by simp
  let ?us = "drop (length bs) (replicate FRAME_SIZE (None :: nat option))"
  have x4: "generic_feature_node_x4 G E vm fr s = try_bind (run_each step (frame_plan E bs) s) (finish (ne_dbg E) vm fr ps)"
    unfolding generic_feature_node_x4_def
  proof (rule node_function_finish[OF fr])
    show "x4_loop G E bs (replicate FRAME_SIZE None) s =
        try_bind (run_each step (frame_plan E bs) s) (\<lambda>(ns, as, s). Inr (as, map Some ns @ ?us, s))"
      unfolding loop_run[OF config len] using untraced by (simp add: trace_buffers_def)
  qed (auto dest: run_each_length)
  have x1: "generic_feature_node_x1 G E vm fr s = try_bind (run_each (x1_buffer G E) bs s) (finish (ne_dbg E) vm fr ps)"
    unfolding generic_feature_node_x1_def
  proof (rule node_function_finish[OF fr])
    show "x1_loop G E 0 bs (replicate FRAME_SIZE None) s =
        try_bind (run_each (x1_buffer G E) bs s) (\<lambda>(ns, as, s). Inr (as, map Some ns @ ?us, s))"
      using x1_run[OF len, of G E "[]" s] by simp
  qed (auto dest: run_each_length)
  show ?thesis unfolding x4 x1
    by (rule finish_forget) (use loops_agree[OF config, of s] uniform in simp)
qed

lemma stride_places:
  assumes config: "list_all (config_ok E) [b0, b1, b2, b3]" and arc: "one_arc [b0, b1, b2, b3]"
    and run: "x4_stride G E (b0, b1, b2, b3) s = Inr ((n0, n1, n2, n3), (c0, c1, c2, c3), s')"
  shows "current_config_index c0 = entry_after E b0"
    "map current_config_index [c1, c2, c3] = map current_config_index [b1, b2, b3]"
    "map feature_arc_index [c0, c1, c2, c3] = map feature_arc_index [b0, b1, b2, b3]"
proof -
  note stride_run[of E b0 b1 b2 b3 s, unfolded run try_bind_simps prod.case]
  with config have "run_each step (stride_plan E [b0, b1, b2, b3]) s = Inr ([n0, n1, n2, n3], [c0, c1, c2, c3], s')" by simp
  then show "current_config_index c0 = entry_after E b0"
    "map current_config_index [c1, c2, c3] = map current_config_index [b1, b2, b3]"
    "map feature_arc_index [c0, c1, c2, c3] = map feature_arc_index [b0, b1, b2, b3]"
    using arc by (auto simp: stride_plan_def own_step_def follower_def try_bind_Inr dest: keeps)
qed

end

text \<open>C2: For a node that is not traced and an implementation whose method for four buffers handles them
  one after the other with its method for one buffer, which neither uses nor changes the place in the
  arc and keeps the arc, and whose prefetch changes nothing: on a frame whose buffers have a valid place
  in their arcs and in whose strides of four a common arc means a common place in the arc, the node
  function for four buffers at a time does the same as the one for one buffer at a time, errors
  included: the same next node for every buffer, the same state, the same packets except for their
  place in the arc.\<close>

theorem x4_agrees_with_x1:
  assumes "feature_node_impl G" "\<not> flags_contain (ne_flags E) VLIB_NODE_FLAG_TRACE"
    and "frame_get_buffers (ne_dbg E) vm fr = Inr ps" "load_packets (vm_packets vm) ps = Inr bs"
    and "list_all (config_ok E) bs" "lead_frame bs = bs"
  shows "forget_result (generic_feature_node_x4 G E vm fr s) = forget_result (generic_feature_node_x1 G E vm fr s)"
  using feature_node_impl.nodes_agree[OF assms(1,3,4,5,2,6)] .

text \<open>C27: In a stride of four buffers of one arc only the first is moved along the arc.  The next feature
  of the arc finds its own entry for the first buffer, but for each of the others the entry, data and
  next node, that this feature has used.\<close>

theorem x4_followers_repeat_entry:
  assumes "feature_node_impl G" "list_all (config_ok E) [b0, b1, b2, b3]" "one_arc [b0, b1, b2, b3]"
    and "x4_stride G E (b0, b1, b2, b3) s = Inr ((n0, n1, n2, n3), (c0, c1, c2, c3), s')"
  shows "current_config_index c0 = current_config_index b0 + config_words (ne_size E) + 1 \<and>
    list_all (\<lambda>(b, c). map_sum id fst (vnet_feature_next E c) = Inr (entry_next E b, entry_data E b))
      [(b1, c1), (b2, c2), (b3, c3)]"
proof -
  note places = feature_node_impl.stride_places[OF assms]
  have "map_sum id fst (vnet_feature_next E c) = Inr (entry_next E b, entry_data E b)"
    if "config_ok E b" "feature_arc_index c = feature_arc_index b" "current_config_index c = current_config_index b" for b c
    using that entry_same[of c b E] vnet_feature_next_ok[of E c] by simp
  then show ?thesis using places assms(2) by (simp add: entry_after_def)
qed

section \<open>A node that forwards every packet\<close>

definition pass_node :: "(unit, unit) generic_node" where
  "pass_node = \<lparr>map_buffer_to_next = (\<lambda>b s. Inr (NextFeature, b, s)),
     map_buffer_to_next_x4 = (\<lambda>b s. Inr ((NextFeature, NextFeature, NextFeature, NextFeature), b, s)),
     prefetch_buffer_x4 = default_prefetch_buffer_x4, trace_buffer = default_trace_buffer, into_u16 = (\<lambda>_. 0)\<rparr>"

interpretation pass: feature_node_impl pass_node
  by unfold_locales (auto simp: pass_node_def map_each_x4_def default_prefetch_buffer_x4_def config_blind_def)

text \<open>An arc of two entries with one word of data each.\<close>

definition sample_env :: node_env where
  "sample_env = \<lparr>ne_dbg = True, ne_mains = [[10, 1, 20, 2]], ne_size = 4, ne_flags = 0\<rparr>"

definition sample_packet :: packet where
  "sample_packet = \<lparr>current_data = 0, current_length = 60, next_present = False, total_length_valid = False,
     total_length_not_including_first = 0, buffer_flags = 0, feature_arc_index = 0, current_config_index = 0,
     sw_if_index = [1, 2], buffer_error = 0, packet_mem = []\<rparr>"

definition sample_vm :: vlib_main where
  "sample_vm = \<lparr>vm_mem_start = 4096, vm_mem_size = 1024,
     vm_packets = [4096 \<mapsto> sample_packet, 4160 \<mapsto> sample_packet, 4224 \<mapsto> sample_packet, 4288 \<mapsto> sample_packet]\<rparr>"

definition sample_frame :: frame where
  "sample_frame = \<lparr>fr_indices = [0, 1, 2, 3, 0, 0, 0, 0], fr_n_vectors = 4\<rparr>"

lemmas sample_defs = sample_env_def sample_packet_def config_ok_def config_words_def U32_MAX_def

lemma sample_config: "config_ok sample_env sample_packet"
  by (simp add: sample_defs)

lemma sample_ptrs: "frame_get_buffers True sample_vm sample_frame = Inr [Some 4096, Some 4160, Some 4224, Some 4288]"
proof -
  have "ptrs_fit 4096 [0, 1, 2, 3, 0, 0, 0, 0]" by (simp add: ptrs_fit_def)
  from get_buffers_blocks[OF this, of 4 256 "[]" True 1024] show ?thesis
    by (simp add: frame_get_buffers_def sample_vm_def sample_frame_def FRAME_SIZE_def next_multiple_of_pow2_def
        index_assert_def CLIB_LOG2_CACHE_LINE_BYTES_def ptr_def)
qed

lemma sample_load: "load_packets (vm_packets sample_vm) [Some 4096, Some 4160, Some 4224, Some 4288] =
    Inr [sample_packet, sample_packet, sample_packet, sample_packet]"
  by (simp add: sample_vm_def)

lemma x4_agrees_with_x1_witness:
  "forget_result (generic_feature_node_x4 pass_node sample_env sample_vm sample_frame ()) =
     forget_result (generic_feature_node_x1 pass_node sample_env sample_vm sample_frame ())"
proof (rule x4_agrees_with_x1[OF pass.feature_node_impl_axioms, OF _ _ sample_load])
  show "\<not> flags_contain (ne_flags sample_env) VLIB_NODE_FLAG_TRACE"
    by (simp add: sample_env_def flags_contain_def VLIB_NODE_FLAG_TRACE_def)
  show "frame_get_buffers (ne_dbg sample_env) sample_vm sample_frame = Inr [Some 4096, Some 4160, Some 4224, Some 4288]"
    using sample_ptrs by (simp add: sample_env_def)
  show "list_all (config_ok sample_env) [sample_packet, sample_packet, sample_packet, sample_packet]"
    by (simp add: sample_config)
  show "lead_frame [sample_packet, sample_packet, sample_packet, sample_packet] =
      [sample_packet, sample_packet, sample_packet, sample_packet]"
    by (simp add: lead_frame_def lead_stride_def)
qed

lemma x4_followers_repeat_entry_witness:
  "\<exists>c0 c1 c2 c3. x4_stride pass_node sample_env (sample_packet, sample_packet, sample_packet, sample_packet) () =
       Inr ((1, 1, 1, 1), (c0, c1, c2, c3), ()) \<and>
     map_sum id fst (vnet_feature_next sample_env c0) = Inr (2, [20]) \<and>
     map_sum id fst (vnet_feature_next sample_env c1) = Inr (1, [10])"
proof -
  let ?c = "at_config 2 sample_packet"
  have run: "x4_stride pass_node sample_env (sample_packet, sample_packet, sample_packet, sample_packet) () =
      Inr ((1, 1, 1, 1), (?c, sample_packet, sample_packet, sample_packet), ())"
    using sample_config by (simp add: x4_stride_def feature_nexts_x4_def feature_next_u16_ok pass_node_def override_next_def
        at_config_def entry_next_def entry_after_def sample_defs)
  have "map_sum id fst (vnet_feature_next sample_env sample_packet) = Inr (1, [10])"
    using x4_followers_repeat_entry[OF pass.feature_node_impl_axioms _ _ run] sample_config
    by (simp add: one_arc_def entry_next_def entry_data_def sample_defs)
  moreover have "map_sum id fst (vnet_feature_next sample_env ?c) = Inr (2, [20])"
    by (subst vnet_feature_next_ok) (simp_all add: entry_next_def entry_data_def sample_defs at_config_def)
  ultimately show ?thesis using run by blast
qed

end
