(* ===== verification/Counter.thy ===== *)
theory Counter
  imports Vpp_Vec
begin

text \<open>
  Counters: the simple and combined per-thread counters of \<open>vpp-plugin/src/vlib/counter.rs\<close> and the
  error counters of nodes (\<open>vlib/node.rs\<close>).  A counter is a vector with a row of cells for every
  thread; a thread writes only its own row, so that an increment needs no atomic read-modify-write.
\<close>

section \<open>Rows of cells\<close>

text \<open>
  An access outside the rows is undefined behaviour; the null pointer of a new counter is no rows.
  The functions of the C library that lay out and clear the rows are parameters.
\<close>

record 'c counter_lib =
  lib_validate :: "'c list list \<Rightarrow> nat \<Rightarrow> 'c list list"
  lib_zero :: "'c list list \<Rightarrow> nat \<Rightarrow> 'c list list"

definition valid_cell :: "'c list list \<Rightarrow> nat \<Rightarrow> nat \<Rightarrow> bool" where
  "valid_cell m t i \<longleftrightarrow> t < length m \<and> i < length (m ! t)"

text \<open>
  As documented, for a counter with rows for at most \<open>threads\<close> threads: validating an index gives every
  thread a row that contains it and keeps the cells there are, and new ones are zero; zeroing sets the cell
  of every thread and keeps the other ones.
\<close>

definition counter_lib_laws :: "nat \<Rightarrow> 'c \<Rightarrow> 'c counter_lib \<Rightarrow> bool" where
  "counter_lib_laws threads z L \<longleftrightarrow>
     (\<forall>m i. length m \<le> threads \<longrightarrow>
        length (lib_validate L m i) = threads \<and> list_all (\<lambda>row. i < length row) (lib_validate L m i) \<and>
        (\<forall>t j. valid_cell m t j \<longrightarrow> valid_cell (lib_validate L m i) t j) \<and>
        (\<forall>t j. valid_cell (lib_validate L m i) t j \<longrightarrow>
           lib_validate L m i ! t ! j = (if valid_cell m t j then m ! t ! j else z))) \<and>
     (\<forall>m i. lib_zero L m i = map (\<lambda>row. row[i := z]) m)"

definition cell_update :: "('c \<Rightarrow> fault + 'c) \<Rightarrow> 'c list list \<Rightarrow> nat \<Rightarrow> nat \<Rightarrow> fault + 'c list list" where
  "cell_update f m thread_index index =
     (case nth_opt m thread_index of
        None \<Rightarrow> Inl Undefined_Behaviour
      | Some row \<Rightarrow> (case nth_opt row index of
            None \<Rightarrow> Inl Undefined_Behaviour
          | Some c \<Rightarrow> try_bind (f c) (\<lambda>c. Inr (m[thread_index := row[index := c]]))))"

fun sum_threads :: "('v \<Rightarrow> 'c \<Rightarrow> fault + 'v) \<Rightarrow> 'v \<Rightarrow> 'c list list \<Rightarrow> nat \<Rightarrow> fault + 'v" where
  "sum_threads f acc [] index = Inr acc"
| "sum_threads f acc (row # rows) index =
     (case nth_opt row index of
        None \<Rightarrow> Inl Undefined_Behaviour
      | Some c \<Rightarrow> try_bind (f acc c) (\<lambda>acc. sum_threads f acc rows index))"

section \<open>Simple counters\<close>

definition allocate_index :: "'c counter_lib \<Rightarrow> 'c list list \<Rightarrow> nat \<Rightarrow> 'c list list" where
  "allocate_index L m index = lib_zero L (lib_validate L m index) index"

definition simple_increment :: "bool \<Rightarrow> nat list list \<Rightarrow> nat \<Rightarrow> nat \<Rightarrow> nat \<Rightarrow> fault + nat list list" where
  "simple_increment dbg m thread_index index n = cell_update (\<lambda>c. arith_add dbg U64_MAX c n) m thread_index index"

definition simple_get :: "bool \<Rightarrow> nat list list \<Rightarrow> nat \<Rightarrow> fault + nat" where
  "simple_get dbg m index = sum_threads (arith_add dbg U64_MAX) 0 m index"

definition counter_zero :: "'c counter_lib \<Rightarrow> 'c list list \<Rightarrow> nat \<Rightarrow> 'c list list" where
  "counter_zero L m index = lib_zero L m index"

section \<open>Combined counters\<close>

record combined_count =
  packets :: nat
  bytes :: nat

definition combined_increment ::
  "bool \<Rightarrow> combined_count list list \<Rightarrow> nat \<Rightarrow> nat \<Rightarrow> nat \<Rightarrow> nat \<Rightarrow> fault + combined_count list list" where
  "combined_increment dbg m thread_index index p b =
     cell_update (\<lambda>c.
       try_bind (arith_add dbg U64_MAX (packets c) p) (\<lambda>new_packets.
       try_bind (arith_add dbg U64_MAX (bytes c) b) (\<lambda>new_bytes.
         Inr (c\<lparr>packets := new_packets, bytes := new_bytes\<rparr>)))) m thread_index index"

definition combined_add :: "bool \<Rightarrow> combined_count \<Rightarrow> combined_count \<Rightarrow> fault + combined_count" where
  "combined_add dbg acc c =
     try_bind (arith_add dbg U64_MAX (packets acc) (packets c)) (\<lambda>p.
     try_bind (arith_add dbg U64_MAX (bytes acc) (bytes c)) (\<lambda>b. Inr \<lparr>packets = p, bytes = b\<rparr>))"

definition combined_get :: "bool \<Rightarrow> combined_count list list \<Rightarrow> nat \<Rightarrow> fault + combined_count" where
  "combined_get dbg m index = sum_threads (combined_add dbg) \<lparr>packets = 0, bytes = 0\<rparr> m index"

section \<open>Error counters of a node\<close>

text \<open>
  The counters of a thread lie in one array, those of a node from \<open>error_heap_index\<close> on; \<open>counter\<close> is
  the error as a number.
\<close>

definition increment_error_counter :: "bool \<Rightarrow> nat list \<Rightarrow> nat \<Rightarrow> nat \<Rightarrow> nat \<Rightarrow> fault + nat list" where
  "increment_error_counter dbg counters error_heap_index counter increment =
     (let i = error_heap_index + counter in
      case nth_opt counters i of
        None \<Rightarrow> Inl Undefined_Behaviour
      | Some c \<Rightarrow> try_bind (arith_add dbg U64_MAX c increment) (\<lambda>c. Inr (counters[i := c])))"

section \<open>Totals\<close>

text \<open>
  The cells of an index over all threads, and what increments add to it.
\<close>

definition valid_index :: "'c list list \<Rightarrow> nat \<Rightarrow> bool" where
  "valid_index m i \<longleftrightarrow> list_all (\<lambda>row. i < length row) m"

definition total :: "nat list list \<Rightarrow> nat \<Rightarrow> nat" where
  "total m i = sum_list (map (\<lambda>row. row ! i) m)"

text \<open>A run of increments: thread, index and count of each, in the order in which they happen.\<close>

type_synonym inc = "nat \<times> nat \<times> nat"

fun run_incs :: "bool \<Rightarrow> nat list list \<Rightarrow> inc list \<Rightarrow> fault + nat list list" where
  "run_incs dbg m [] = Inr m"
| "run_incs dbg m ((t, i, n) # es) = try_bind (simple_increment dbg m t i n) (\<lambda>m. run_incs dbg m es)"

fun added :: "nat \<Rightarrow> inc list \<Rightarrow> nat" where
  "added i [] = 0"
| "added i ((t, j, n) # es) = (if j = i then n else 0) + added i es"

lemma total_update:
  "t < length m \<Longrightarrow> i < length (m ! t) \<Longrightarrow>
   total (m[t := (m ! t)[i := c]]) j + (if j = i then m ! t ! i else 0) = total m j + (if j = i then c else 0)"
proof (induction m arbitrary: t)
  case (Cons row m)
  show ?case
  proof (cases t)
    case 0
    then show ?thesis using Cons.prems by (cases "j = i") (auto simp: total_def)
  next
    case (Suc u)
    then show ?thesis using Cons.IH[of u] Cons.prems by (simp add: total_def split: if_splits)
  qed
qed simp

lemma valid_update [simp]:
  "valid_cell (m[t := (m ! t)[i := c]]) u j = valid_cell m u j" "valid_index (m[t := (m ! t)[i := c]]) j = valid_index m j"
proof -
  have "length (m[t := (m ! t)[i := c]] ! u) = length (m ! u)" if "u < length m" for u
    using that by (cases "u = t") auto
  then show "valid_cell (m[t := (m ! t)[i := c]]) u j = valid_cell m u j" "valid_index (m[t := (m ! t)[i := c]]) j = valid_index m j"
    by (auto simp: valid_cell_def valid_index_def list_all_length)
qed

lemma cell_update_valid:
  "valid_cell m t i \<Longrightarrow> cell_update f m t i = try_bind (f (m ! t ! i)) (\<lambda>c. Inr (m[t := (m ! t)[i := c]]))"
  by (simp add: valid_cell_def cell_update_def)

lemma cell_le_total: "valid_cell m t i \<Longrightarrow> m ! t ! i \<le> total m i"
  unfolding total_def valid_cell_def using elem_le_sum_list[of t "map (\<lambda>row. row ! i) m"] by simp

lemma simple_get_sum:
  assumes "valid_index m i" "total m i + s \<le> U64_MAX"
  shows "sum_threads (arith_add dbg U64_MAX) s m i = Inr (s + total m i)"
  using assms by (induction m arbitrary: s) (auto simp: valid_index_def total_def)

lemma arith_add_release: "arith_add False mx a b = Inr ((a + b) mod Suc mx)"
  by (auto simp: arith_add_def)

lemma simple_get_release:
  assumes "valid_index m i"
  shows "sum_threads (arith_add False mx) s m i = Inr (if m = [] then s else (s + total m i) mod Suc mx)"
  using assms
proof (induction m arbitrary: s)
  case (Cons row m)
  have tot: "total (row # m) i = row ! i + total m i" "total [] i = 0" by (simp_all add: total_def)
  have v: "valid_index m i" "i < length row" using Cons.prems by (simp_all add: valid_index_def)
  have run: "sum_threads (arith_add False mx) s (row # m) i = sum_threads (arith_add False mx) ((s + row ! i) mod Suc mx) m i"
    using v by (simp add: arith_add_release)
  have "((s + row ! i) mod Suc mx + total m i) mod Suc mx = (s + total (row # m) i) mod Suc mx"
    unfolding tot mod_add_left_eq by (simp only: add.assoc)
  moreover have "((s + row ! i) mod Suc mx) = (s + total [row] i) mod Suc mx" by (simp add: total_def)
  ultimately show ?case unfolding run Cons.IH[OF v(1)] by (cases "m = []") (simp_all only: if_True if_False refl list.distinct)
qed (simp add: total_def)

lemma Suc_U64_MAX: "Suc U64_MAX = 2 ^ 64"
  by (simp add: U64_MAX_def)

lemma mod_replace:
  assumes "(a :: nat) + x = b + (x + n) mod M"
  shows "a mod M = (b + n) mod M"
proof -
  have "int a = int b - int x + (int x + int n) mod int M"
    using arg_cong[OF assms, of int] by (simp add: of_nat_mod)
  then have "int a mod int M = (int b + int n) mod int M" by (simp add: mod_simps)
  then show ?thesis by (metis of_nat_add of_nat_eq_iff of_nat_mod)
qed

section \<open>No increment is lost\<close>

lemma run_incs_release:
  "list_all (\<lambda>(t, j, n). valid_cell m t j) es \<Longrightarrow>
   \<exists>m'. run_incs False m es = Inr m' \<and> length m' = length m \<and> (\<forall>j. valid_index m' j = valid_index m j) \<and>
     (\<forall>j. total m' j mod Suc U64_MAX = (total m j + added j es) mod Suc U64_MAX)"
proof (induction es arbitrary: m)
  case (Cons e es)
  obtain t i n where e: "e = (t, i, n)" by (cases e)
  have v: "valid_cell m t i" using Cons.prems by (simp add: e)
  define m1 where "m1 = m[t := (m ! t)[i := (m ! t ! i + n) mod Suc U64_MAX]]"
  have inc: "simple_increment False m t i n = Inr m1"
    using v by (simp add: simple_increment_def cell_update_valid arith_add_release m1_def)
  have "list_all (\<lambda>(t, j, n). valid_cell m1 t j) es" using Cons.prems by (simp add: m1_def)
  from Cons.IH[OF this] obtain m' where m': "run_incs False m1 es = Inr m'" "length m' = length m1"
    "\<forall>j. valid_index m' j = valid_index m1 j" "\<forall>j. total m' j mod Suc U64_MAX = (total m1 j + added j es) mod Suc U64_MAX" by blast
  have step: "total m1 j mod Suc U64_MAX = (total m j + (if i = j then n else 0)) mod Suc U64_MAX" for j
  proof (cases "i = j")
    case True
    have "total m1 i + m ! t ! i = total m i + (m ! t ! i + n) mod Suc U64_MAX"
      using total_update[of t m i "(m ! t ! i + n) mod Suc U64_MAX" i] v by (simp add: valid_cell_def m1_def)
    from mod_replace[OF this] True show ?thesis by simp
  next
    case False
    then show ?thesis using total_update[of t m i "(m ! t ! i + n) mod Suc U64_MAX" j] v by (simp add: valid_cell_def m1_def)
  qed
  have "total m' j mod Suc U64_MAX = (total m j + added j (e # es)) mod Suc U64_MAX" for j
    using m'(4)[rule_format, of j] mod_add_cong[OF step[of j] refl, of "added j es"] by (simp add: e add.assoc)
  then show ?case using m' inc by (auto simp: e m1_def)
qed simp

lemma run_incs_exact:
  "list_all (\<lambda>(t, j, n). valid_cell m t j) es \<Longrightarrow> list_all (\<lambda>(t, j, n). total m j + added j es \<le> U64_MAX) es \<Longrightarrow>
   \<exists>m'. run_incs True m es = Inr m' \<and> (\<forall>j. valid_index m' j = valid_index m j) \<and>
     (\<forall>j. total m' j = total m j + added j es)"
proof (induction es arbitrary: m)
  case (Cons e es)
  obtain t i n where e: "e = (t, i, n)" by (cases e)
  have v: "valid_cell m t i" using Cons.prems by (simp add: e)
  have fit: "total m i + n + added i es \<le> U64_MAX" using Cons.prems(2) by (simp add: e)
  define m1 where "m1 = m[t := (m ! t)[i := m ! t ! i + n]]"
  have inc: "simple_increment True m t i n = Inr m1"
    using v fit cell_le_total[OF v] by (simp add: simple_increment_def cell_update_valid m1_def)
  have tot: "total m1 j = total m j + (if i = j then n else 0)" for j
    using total_update[of t m i "m ! t ! i + n" j] v by (auto simp: valid_cell_def m1_def)
  have "list_all (\<lambda>(t, j, n). valid_cell m1 t j) es" using Cons.prems(1) by (simp add: m1_def)
  moreover have "list_all (\<lambda>(t, j, n). total m1 j + added j es \<le> U64_MAX) es"
    using Cons.prems(2) by (simp add: tot e ac_simps list_all_iff split: prod.splits)
  ultimately obtain m' where "run_incs True m1 es = Inr m'" "\<forall>j. valid_index m' j = valid_index m1 j"
    "\<forall>j. total m' j = total m1 j + added j es" using Cons.IH by blast
  moreover have "valid_index m1 j = valid_index m j" for j by (simp add: m1_def)
  ultimately show ?case using inc by (simp add: e tot ac_simps)
qed simp

lemma added_occurs: "added i es = 0 \<or> (\<exists>t n. (t, i, n) \<in> set es)"
proof (induction es)
  case (Cons e es)
  obtain t j n where "e = (t, j, n)" by (cases e)
  with Cons show ?case by (cases "j = i") auto
qed simp

lemma allocated:
  assumes "counter_lib_laws threads 0 L" "length m \<le> threads"
  shows "length (allocate_index L m i) = threads" "valid_index (allocate_index L m i) i" "total (allocate_index L m i) i = 0"
  using assms
  by (auto simp: counter_lib_laws_def allocate_index_def valid_index_def total_def list_all_iff sum_list_eq_0_iff o_def)

lemma allocated_other:
  assumes "counter_lib_laws threads 0 L" "length m = threads" "valid_index m j" "j \<noteq> i"
  shows "valid_index (allocate_index L m i) j" "total (allocate_index L m i) j = total m j"
proof -
  have v: "length (lib_validate L m i) = threads" "\<And>t j. valid_cell m t j \<Longrightarrow> valid_cell (lib_validate L m i) t j"
    "\<And>t j. valid_cell m t j \<Longrightarrow> lib_validate L m i ! t ! j = m ! t ! j"
    using assms(1,2) unfolding counter_lib_laws_def by (simp_all add: le_refl)
  have z: "allocate_index L m i = map (\<lambda>row. row[i := 0]) (lib_validate L m i)"
    using assms(1) by (simp add: counter_lib_laws_def allocate_index_def)
  have m: "valid_cell m t j" if "t < threads" for t using assms(2,3) that by (simp add: valid_index_def valid_cell_def list_all_length)
  show "valid_index (allocate_index L m i) j"
    using v(1,2) m by (auto simp: z valid_index_def list_all_length valid_cell_def)
  have "map (\<lambda>row. row ! j) (allocate_index L m i) = map (\<lambda>row. row ! j) m"
    by (rule nth_equalityI) (use v m assms(2,4) in \<open>simp_all add: z\<close>)
  then show "total (allocate_index L m i) j = total m j" by (simp add: total_def)
qed

lemma zeroed_sum:
  assumes "valid_index m i"
  shows "sum_threads (arith_add dbg U64_MAX) 0 (map (\<lambda>row. row[i := 0]) m) i = Inr 0"
proof -
  have "total (map (\<lambda>row. row[i := 0]) m) i = 0" using assms by (simp add: total_def valid_index_def list_all_iff sum_list_eq_0_iff)
  moreover have "valid_index (map (\<lambda>row. row[i := 0]) m) i" using assms by (simp add: valid_index_def list_all_iff)
  ultimately show ?thesis using simple_get_sum [of _ i 0 dbg] by simp
qed

lemma zeroed_other: "j \<noteq> i \<Longrightarrow> sum_threads f s (map (\<lambda>row. row[i := z]) m) j = sum_threads f s m j"
proof (induction m arbitrary: s)
  case (Cons row m)
  have "nth_opt (row[i := z]) j = nth_opt row j" using Cons.prems by (simp add: nth_opt_def)
  then show ?case using Cons.IH Cons.prems by (simp split: option.split)
qed simp

text \<open>Zeroing an index clears it, and no other one.\<close>

lemma counter_zero_exact:
  assumes "counter_lib_laws threads 0 L" "valid_index m i"
  shows "simple_get dbg (counter_zero L m i) j = (if j = i then Inr 0 else simple_get dbg m j)"
  using zeroed_sum [OF assms(2), of dbg] assms(1)
  by (simp add: simple_get_def counter_zero_def counter_lib_laws_def zeroed_other)

text \<open>C11: A counter counts exactly.  After an index is allocated in a simple counter, and after any increments by any
  threads, of this index or others, \<open>get\<close> returns for this index what was added to it, and for every
  other index that was allocated before what it had and what was added to it: as the number itself, and
  without a panic, while the sums fit into 64 bits, and modulo \<open>2^64\<close> in any case when overflow is not
  checked.  Zeroing the index then clears it and no other one.\<close>

theorem simple_counter_exact:
  assumes "counter_lib_laws threads 0 L" "0 < threads" "length m0 \<le> threads"
    and "list_all (\<lambda>(t, j, n). valid_cell (allocate_index L m0 i) t j) es"
  defines "before \<equiv> (\<lambda>j. if j = i then 0 else total m0 j)"
    and "counts \<equiv> (\<lambda>j. j = i \<or> length m0 = threads \<and> valid_index m0 j)"
  shows "(\<exists>m. run_incs False (allocate_index L m0 i) es = Inr m \<and>
      (\<forall>j. counts j \<longrightarrow> simple_get False m j = Inr ((before j + added j es) mod 2 ^ 64)) \<and>
      (\<forall>j. simple_get False (counter_zero L m i) j = (if j = i then Inr 0 else simple_get False m j))) \<and>
    (list_all (\<lambda>(t, j, n). total (allocate_index L m0 i) j + added j es \<le> U64_MAX) es \<longrightarrow>
      (\<exists>m. run_incs True (allocate_index L m0 i) es = Inr m \<and>
        (\<forall>j. counts j \<and> before j + added j es \<le> U64_MAX \<longrightarrow> simple_get True m j = Inr (before j + added j es)) \<and>
        simple_get True m i = Inr (added i es) \<and>
        (\<forall>j. simple_get True (counter_zero L m i) j = (if j = i then Inr 0 else simple_get True m j))))"
proof (intro conjI impI)
  note alloc = allocated[OF assms(1,3), of i]
  have start: "valid_index (allocate_index L m0 i) j" "total (allocate_index L m0 i) j = before j" if "counts j" for j
    using that alloc allocated_other[OF assms(1), of m0 j i] by (auto simp: before_def counts_def)
  note zero = counter_zero_exact[OF assms(1)]
  from run_incs_release[OF assms(4)] obtain m where m: "run_incs False (allocate_index L m0 i) es = Inr m"
    "length m = threads" "\<And>j. valid_index m j = valid_index (allocate_index L m0 i) j"
    "\<And>j. total m j mod 2 ^ 64 = (total (allocate_index L m0 i) j + added j es) mod 2 ^ 64"
    using alloc(1) unfolding Suc_U64_MAX by auto
  have "simple_get False m j = Inr ((before j + added j es) mod 2 ^ 64)" if "counts j" for j
    using simple_get_release[of m j U64_MAX 0] assms(2) m(2-4) start[OF that] by (auto simp: simple_get_def Suc_U64_MAX)
  then show "\<exists>m. run_incs False (allocate_index L m0 i) es = Inr m \<and>
      (\<forall>j. counts j \<longrightarrow> simple_get False m j = Inr ((before j + added j es) mod 2 ^ 64)) \<and>
      (\<forall>j. simple_get False (counter_zero L m i) j = (if j = i then Inr 0 else simple_get False m j))"
    using m(1,3) alloc(2) zero[of m i] by auto
  assume fit: "list_all (\<lambda>(t, j, n). total (allocate_index L m0 i) j + added j es \<le> U64_MAX) es"
  from run_incs_exact[OF assms(4) fit] obtain m where m: "run_incs True (allocate_index L m0 i) es = Inr m"
    "\<And>j. valid_index m j = valid_index (allocate_index L m0 i) j"
    "\<And>j. total m j = total (allocate_index L m0 i) j + added j es" by auto
  have get: "simple_get True m j = Inr (before j + added j es)" if "counts j" "before j + added j es \<le> U64_MAX" for j
    using simple_get_sum[of m j 0 True] m(2,3) start[OF that(1)] that(2) by (simp add: simple_get_def)
  have "added i es \<le> U64_MAX" using fit alloc(3) added_occurs[of i es] by (force simp: list_all_iff)
  then have "simple_get True m i = Inr (added i es)" using get[of i] by (simp add: before_def counts_def)
  then show "\<exists>m. run_incs True (allocate_index L m0 i) es = Inr m \<and>
      (\<forall>j. counts j \<and> before j + added j es \<le> U64_MAX \<longrightarrow> simple_get True m j = Inr (before j + added j es)) \<and>
      simple_get True m i = Inr (added i es) \<and>
      (\<forall>j. simple_get True (counter_zero L m i) j = (if j = i then Inr 0 else simple_get True m j))"
    using m(1,2) alloc(2) zero[of m i] get by auto
qed

text \<open>A layout of the rows, for an example.\<close>

definition sample_rows :: "'c \<Rightarrow> nat \<Rightarrow> 'c list list \<Rightarrow> nat \<Rightarrow> 'c list list" where
  "sample_rows z threads m i = map (\<lambda>row. row @ replicate (i + 1 - length row) z) (take threads (m @ replicate threads []))"

definition sample_lib :: "nat \<Rightarrow> nat counter_lib" where
  "sample_lib threads = \<lparr>lib_validate = sample_rows 0 threads, lib_zero = (\<lambda>m i. map (\<lambda>row. row[i := 0]) m)\<rparr>"

lemma sample_rows_nth:
  assumes "length m \<le> threads" "t < threads"
  shows "sample_rows z threads m i ! t = (let row = if t < length m then m ! t else [] in row @ replicate (i + 1 - length row) z)"
  using assms by (simp add: sample_rows_def nth_append Let_def)

lemma sample_rows_laws:
  assumes "length m \<le> threads"
  shows "length (sample_rows z threads m i) = threads" "list_all (\<lambda>row. i < length row) (sample_rows z threads m i)"
    "valid_cell m t j \<Longrightarrow> valid_cell (sample_rows z threads m i) t j"
    "valid_cell (sample_rows z threads m i) t j \<Longrightarrow>
       sample_rows z threads m i ! t ! j = (if valid_cell m t j then m ! t ! j else z)"
proof -
  show l: "length (sample_rows z threads m i) = threads" using assms by (simp add: sample_rows_def)
  show "list_all (\<lambda>row. i < length row) (sample_rows z threads m i)"
    by (auto simp: list_all_length l sample_rows_nth [OF assms] Let_def)
  show "valid_cell m t j \<Longrightarrow> valid_cell (sample_rows z threads m i) t j"
    using assms by (auto simp: valid_cell_def l sample_rows_nth [OF assms] Let_def)
  show "valid_cell (sample_rows z threads m i) t j \<Longrightarrow>
       sample_rows z threads m i ! t ! j = (if valid_cell m t j then m ! t ! j else z)"
    by (auto simp: valid_cell_def l sample_rows_nth [OF assms] Let_def nth_append simp del: replicate_Suc split: if_splits)
qed

lemma sample_lib_laws: "counter_lib_laws threads 0 (sample_lib threads)"
  unfolding counter_lib_laws_def sample_lib_def by (simp add: sample_rows_laws)

lemma simple_counter_exact_witness:
  "\<exists>m. run_incs True (allocate_index (sample_lib 2) [[3], [4]] 1) [(0, 1, 5), (1, 1, 7), (0, 0, 1)] = Inr m \<and>
    simple_get True m 1 = Inr 12 \<and> simple_get True m 0 = Inr 8 \<and>
    simple_get True (counter_zero (sample_lib 2) m 1) 1 = Inr 0 \<and> simple_get True (counter_zero (sample_lib 2) m 1) 0 = Inr 8"
proof -
  let ?m0 = "allocate_index (sample_lib 2) [[3], [4]] 1" and ?es = "[(0, 1, 5), (1, 1, 7), (0, 0, 1)] :: inc list"
  have start: "?m0 = [[3, 0], [4, 0]]" by (simp add: allocate_index_def sample_lib_def sample_rows_def numeral_2_eq_2)
  have fit: "list_all (\<lambda>(t, j, n). valid_cell ?m0 t j) ?es" "list_all (\<lambda>(t, j, n). total ?m0 j + added j ?es \<le> U64_MAX) ?es"
    unfolding start by (simp_all add: valid_cell_def total_def U64_MAX_def)
  obtain m where m: "run_incs True ?m0 ?es = Inr m" "simple_get True m 1 = Inr (added 1 ?es)"
    "\<And>j. simple_get True (counter_zero (sample_lib 2) m 1) j = (if j = 1 then Inr 0 else simple_get True m j)"
    "\<And>j. valid_index [[3], [4 :: nat]] j \<Longrightarrow> j \<noteq> 1 \<Longrightarrow> total [[3], [4]] j + added j ?es \<le> U64_MAX \<Longrightarrow>
      simple_get True m j = Inr (total [[3], [4]] j + added j ?es)"
    using simple_counter_exact[OF sample_lib_laws _ _ fit(1)] fit(2) by auto
  have "simple_get True m 0 = Inr 8" using m(4)[of 0] by (simp add: valid_index_def total_def U64_MAX_def)
  then show ?thesis using m(1-3) by (intro exI[of _ m]) simp
qed

section \<open>A combined counter is two simple counters\<close>

lemma combined_ext:
  fixes m m' :: "combined_count list list"
  assumes "map (map packets) m = map (map packets) m'" "map (map bytes) m = map (map bytes) m'"
  shows "m = m'"
proof -
  have row: "r = r'" if "map packets r = map packets r'" "map bytes r = map bytes r'" for r r' :: "combined_count list"
  proof (rule nth_equalityI)
    show "length r = length r'" using that(1) by (rule map_eq_imp_length_eq)
    show "r ! i = r' ! i" if "i < length r" for i
      using \<open>map packets r = map packets r'\<close> \<open>map bytes r = map bytes r'\<close> that \<open>length r = length r'\<close>
      by (metis (full_types) combined_count.equality nth_map unit.exhaust)
  qed
  show ?thesis
  proof (rule nth_equalityI)
    show len: "length m = length m'" using assms(1) by (rule map_eq_imp_length_eq)
    show "m ! i = m' ! i" if "i < length m" for i
      using assms that len by (intro row) (metis nth_map)+
  qed
qed

lemma nth_opt_map: "nth_opt (map f xs) i = map_option f (nth_opt xs i)"
  by (simp add: nth_opt_def)

lemma sum_combined:
  "sum_threads (combined_add dbg) \<lparr>packets = p, bytes = b\<rparr> m i = Inr \<lparr>packets = p', bytes = b'\<rparr> \<longleftrightarrow>
   sum_threads (arith_add dbg U64_MAX) p (map (map packets) m) i = Inr p' \<and>
   sum_threads (arith_add dbg U64_MAX) b (map (map bytes) m) i = Inr b'"
proof (induction m arbitrary: p b)
  case (Cons row m)
  then show ?case by (auto simp: nth_opt_map combined_add_def try_bind_Inr split: option.splits)
qed auto

text \<open>A combined counter behaves as two simple counters, of the packets and of the bytes: an increment, or
  \<open>get\<close>, succeeds exactly when it does on both, and has the result that both have.\<close>

theorem combined_is_two_simple:
  "(combined_increment dbg m t i p b = Inr m' \<longleftrightarrow>
      simple_increment dbg (map (map packets) m) t i p = Inr (map (map packets) m') \<and>
      simple_increment dbg (map (map bytes) m) t i b = Inr (map (map bytes) m')) \<and>
   (combined_get dbg m i = Inr \<lparr>packets = p', bytes = b'\<rparr> \<longleftrightarrow>
      simple_get dbg (map (map packets) m) i = Inr p' \<and> simple_get dbg (map (map bytes) m) i = Inr b')"
proof (intro conjI)
  show "combined_get dbg m i = Inr \<lparr>packets = p', bytes = b'\<rparr> \<longleftrightarrow>
      simple_get dbg (map (map packets) m) i = Inr p' \<and> simple_get dbg (map (map bytes) m) i = Inr b'"
    unfolding combined_get_def simple_get_def by (rule sum_combined)
  show "combined_increment dbg m t i p b = Inr m' \<longleftrightarrow>
      simple_increment dbg (map (map packets) m) t i p = Inr (map (map packets) m') \<and>
      simple_increment dbg (map (map bytes) m) t i b = Inr (map (map bytes) m')"
  proof (cases "valid_cell m t i")
    case True
    then have v: "valid_cell (map (map packets) m) t i" "valid_cell (map (map bytes) m) t i" by (auto simp: valid_cell_def)
    have upd: "map (map f) m' = (map (map f) m)[t := (map (map f) m ! t)[i := f c]]" if "m' = m[t := (m ! t)[i := c]]"
      for f :: "combined_count \<Rightarrow> nat" and c
      using True that by (simp add: valid_cell_def map_update)
    show ?thesis
      using True v upd
      by (auto simp: combined_increment_def simple_increment_def cell_update_valid try_bind_Inr valid_cell_def map_update
          intro!: combined_ext)
  next
    case False
    then have "combined_increment dbg m t i p b = Inl Undefined_Behaviour"
      "simple_increment dbg (map (map packets) m) t i p = Inl Undefined_Behaviour"
      by (auto simp: combined_increment_def simple_increment_def cell_update_def valid_cell_def nth_opt_def)
    then show ?thesis by simp
  qed
qed

section \<open>Reading while others count\<close>

text \<open>
  \<open>get\<close> reads the cells of an index one by one while the threads go on counting; an increment is a read
  of the thread's own cell and a later store of the new count.  \<open>cs_pending\<close> holds the new counts that
  are computed but not stored, with what they add; \<open>cs_added\<close> sums up the stored increments.
\<close>

record counter_sys =
  cs_cells :: "nat list"
  cs_pending :: "nat \<Rightarrow> (nat \<times> nat) option"
  cs_added :: nat
  cs_pos :: nat
  cs_sum :: nat

definition counter_start :: "nat list \<Rightarrow> (nat \<Rightarrow> (nat \<times> nat) option) \<Rightarrow> counter_sys" where
  "counter_start cells pending = \<lparr>cs_cells = cells, cs_pending = pending, cs_added = 0, cs_pos = 0, cs_sum = 0\<rparr>"

inductive counter_step :: "bool \<Rightarrow> counter_sys \<Rightarrow> counter_sys \<Rightarrow> bool" for dbg where
  Compute: "t < length (cs_cells s) \<Longrightarrow> cs_pending s t = None \<Longrightarrow>
    arith_add dbg U64_MAX (cs_cells s ! t) n = Inr new_count \<Longrightarrow>
    counter_step dbg s (s\<lparr>cs_pending := (cs_pending s)(t := Some (new_count, n))\<rparr>)"
| Store: "cs_pending s t = Some (new_count, n) \<Longrightarrow>
    counter_step dbg s (s\<lparr>cs_cells := (cs_cells s)[t := new_count], cs_pending := (cs_pending s)(t := None),
      cs_added := cs_added s + n\<rparr>)"
| Read: "cs_pos s < length (cs_cells s) \<Longrightarrow> arith_add dbg U64_MAX (cs_sum s) (cs_cells s ! cs_pos s) = Inr acc \<Longrightarrow>
    counter_step dbg s (s\<lparr>cs_pos := cs_pos s + 1, cs_sum := acc\<rparr>)"

text \<open>The two steps of an increment with nothing in between are \<open>simple_increment\<close> on the column of the index.\<close>

lemma increment_two_steps:
  assumes "simple_increment dbg m t i n = Inr m'" "valid_index m i"
  shows "(counter_step dbg OO counter_step dbg)
    (counter_start (map (\<lambda>row. row ! i) m) (\<lambda>_. None))
    ((counter_start (map (\<lambda>row. row ! i) m') (\<lambda>_. None))\<lparr>cs_added := n\<rparr>)"
proof -
  from assms obtain c where t: "t < length m" and c: "arith_add dbg U64_MAX (m ! t ! i) n = Inr c"
    and m': "m' = m[t := (m ! t)[i := c]]"
    by (auto simp: simple_increment_def cell_update_def try_bind_Inr nth_opt_def split: if_splits)
  let ?s = "counter_start (map (\<lambda>row. row ! i) m) (\<lambda>_. None)"
  have "counter_step dbg ?s (?s\<lparr>cs_pending := (cs_pending ?s)(t := Some (c, n))\<rparr>)"
    by (rule Compute) (use t c in \<open>auto simp: counter_start_def\<close>)
  moreover have "counter_step dbg (?s\<lparr>cs_pending := (cs_pending ?s)(t := Some (c, n))\<rparr>)
      ((counter_start (map (\<lambda>row. row ! i) m') (\<lambda>_. None))\<lparr>cs_added := n\<rparr>)"
  proof -
    have "i < length (m ! t)" using assms(2) t by (auto simp: valid_index_def list_all_length)
    then have col: "map (\<lambda>row. row ! i) m' = (map (\<lambda>row. row ! i) m)[t := c]" using t by (simp add: m' map_update)
    show ?thesis
      using Store[of "?s\<lparr>cs_pending := (cs_pending ?s)(t := Some (c, n))\<rparr>" t c n dbg]
      by (simp add: counter_start_def col)
  qed
  ultimately show ?thesis by blast
qed

text \<open>Every pending count is right for its cell; the cells hold what was there and what was added; the reader is
  between the cells as they were and as they are.\<close>

definition counter_inv :: "nat list \<Rightarrow> counter_sys \<Rightarrow> bool" where
  "counter_inv cells s \<longleftrightarrow>
     (\<forall>t new n. cs_pending s t = Some (new, n) \<longrightarrow> t < length cells \<and> new = cs_cells s ! t + n) \<and>
     length (cs_cells s) = length cells \<and> cs_pos s \<le> length cells \<and>
     sum_list (cs_cells s) = sum_list cells + cs_added s \<and>
     list_all2 (\<le>) cells (cs_cells s) \<and>
     sum_list (take (cs_pos s) cells) \<le> cs_sum s \<and> cs_sum s \<le> sum_list (take (cs_pos s) (cs_cells s))"

lemma arith_add_checked: "arith_add True mx a b = Inr c \<longleftrightarrow> c = a + b \<and> a + b \<le> mx"
  by (auto simp: arith_add_def)

lemma sum_list_mono2: "list_all2 (\<le>) xs ys \<Longrightarrow> sum_list xs \<le> sum_list (ys :: nat list)"
  by (induction rule: list_all2_induct) auto

lemma sum_list_bump:
  assumes "t < length cells"
  shows "sum_list (cells[t := cells ! t + n]) = sum_list cells + (n :: nat)"
proof -
  have "sum_list (cells[t := cells ! t + n]) + cells ! t = sum_list cells + (cells ! t + n)"
    using assms by (induction cells arbitrary: t) (auto split: nat.splits)
  then show ?thesis by simp
qed

lemma counter_invD:
  assumes "counter_inv cells s"
  shows "list_all2 (\<le>) cells (cs_cells s)" "sum_list (take (cs_pos s) cells) \<le> cs_sum s"
    "cs_sum s \<le> sum_list (take (cs_pos s) (cs_cells s))" "length (cs_cells s) = length cells"
  using assms by (simp_all add: counter_inv_def)

lemma counter_inv_step:
  assumes "counter_step True s s'" "counter_inv cells s"
  shows "counter_inv cells s'"
  using assms(1)
proof cases
  case (Compute t n new_count)
  with assms(2) show ?thesis by (auto simp: counter_inv_def arith_add_checked)
next
  case (Store t new_count n)
  with assms(2) have t: "t < length (cs_cells s)" "new_count = cs_cells s ! t + n" by (auto simp: counter_inv_def)
  have up: "list_all2 (\<le>) (cs_cells s) ((cs_cells s)[t := new_count])"
    by (auto simp: list_all2_conv_all_nth t nth_list_update)
  have le: "sum_list (take k (cs_cells s)) \<le> sum_list (take k ((cs_cells s)[t := new_count]))" for k
    using up by (intro sum_list_mono2 list_all2_takeI)
  have "list_all2 (\<le>) cells (cs_cells s)" using assms(2) by (simp add: counter_inv_def)
  from list_all2_trans[OF _ this up] have "list_all2 (\<le>) cells ((cs_cells s)[t := new_count])" by (meson order_trans)
  moreover have "cs_sum s \<le> sum_list (take (cs_pos s) ((cs_cells s)[t := new_count]))"
    using le[of "cs_pos s"] assms(2) by (simp add: counter_inv_def)
  moreover have "sum_list ((cs_cells s)[t := new_count]) = sum_list cells + (cs_added s + n)"
    using sum_list_bump[OF t(1), of n] assms(2) t(2) by (simp add: counter_inv_def)
  moreover have "\<forall>u new m. u \<noteq> t \<longrightarrow> cs_pending s u = Some (new, m) \<longrightarrow>
      u < length cells \<and> new = (cs_cells s)[t := new_count] ! u + m"
    using assms(2) by (simp add: counter_inv_def)
  ultimately show ?thesis using assms(2) unfolding Store(1) counter_inv_def by simp
next
  case (Read acc)
  with assms(2) have p: "cs_pos s < length cells" "cs_pos s < length (cs_cells s)" by (auto simp: counter_inv_def)
  have le: "cells ! cs_pos s \<le> cs_cells s ! cs_pos s" "sum_list (take (cs_pos s) cells) \<le> cs_sum s"
    "cs_sum s \<le> sum_list (take (cs_pos s) (cs_cells s))"
    using counter_invD[OF assms(2)] p(1) by (simp_all add: list_all2_nthD)
  have acc: "acc = cs_sum s + cs_cells s ! cs_pos s" using Read(3) by (simp add: arith_add_checked)
  have "sum_list (take (cs_pos s + 1) cells) \<le> acc" "acc \<le> sum_list (take (cs_pos s + 1) (cs_cells s))"
    using le p by (simp_all add: acc take_Suc_conv_app_nth)
  with p(1) assms(2) show ?thesis unfolding Read(1) counter_inv_def by simp
qed

text \<open>C26: While other threads go on counting, a \<open>get\<close> that reads one cell after the other returns a number between
  the total when it began and the total when it ends, however its reads and the two steps of their
  increments are interleaved, and no increment is lost: the total grows by exactly what was added.\<close>

theorem counter_get_between:
  assumes "(counter_step True)\<^sup>*\<^sup>* (counter_start cells (\<lambda>_. None)) s" "cs_pos s = length cells"
  shows "sum_list cells \<le> cs_sum s \<and> cs_sum s \<le> sum_list (cs_cells s) \<and>
    sum_list (cs_cells s) = sum_list cells + cs_added s"
proof -
  have "counter_inv cells (counter_start cells (\<lambda>_. None))"
    by (simp add: counter_inv_def counter_start_def list_all2_same)
  with assms(1) have "counter_inv cells s" by (induction rule: rtranclp_induct) (auto intro: counter_inv_step)
  then show ?thesis using assms(2) by (auto simp: counter_inv_def)
qed

lemma counter_get_between_witness:
  "\<exists>s. (counter_step True)\<^sup>*\<^sup>* (counter_start [4, 6] (\<lambda>_. None)) s \<and> cs_sum s = 12 \<and> sum_list (cs_cells s) = 13 \<and>
     sum_list [4, 6] \<le> cs_sum s \<and> cs_sum s \<le> sum_list (cs_cells s)"
proof -
  let ?s0 = "counter_start [4, 6] (\<lambda>_. None)"
  let ?s1 = "?s0\<lparr>cs_pos := 1, cs_sum := 4\<rparr>"
  let ?s2 = "?s1\<lparr>cs_pending := (\<lambda>_. None)(0 := Some (5, 1))\<rparr>"
  let ?s3 = "?s2\<lparr>cs_cells := [5, 6], cs_pending := (\<lambda>_. None), cs_added := 1\<rparr>"
  let ?s4 = "?s3\<lparr>cs_pending := (\<lambda>_. None)(1 := Some (8, 2))\<rparr>"
  let ?s5 = "?s4\<lparr>cs_cells := [5, 8], cs_pending := (\<lambda>_. None), cs_added := 1 + 2\<rparr>"
  let ?s6 = "?s5\<lparr>cs_pos := 2, cs_sum := 12\<rparr>"
  have s1: "counter_step True ?s0 ?s1" using Read[of ?s0 True 4] by (simp add: counter_start_def U64_MAX_def)
  have s2: "counter_step True ?s1 ?s2" using Compute[of 0 ?s1 True 1 5] by (simp add: counter_start_def U64_MAX_def)
  have s3: "counter_step True ?s2 ?s3" using Store[of ?s2 0 5 1] by (simp add: counter_start_def)
  have s4: "counter_step True ?s3 ?s4" using Compute[of 1 ?s3 True 2 8] by (simp add: counter_start_def U64_MAX_def)
  have s5: "counter_step True ?s4 ?s5" using Store[of ?s4 1 8 2] by (simp add: counter_start_def)
  have s6: "counter_step True ?s5 ?s6" using Read[of ?s5 True 12] by (simp add: counter_start_def U64_MAX_def numeral_2_eq_2)
  note r = rtranclp.rtrancl_into_rtrancl[of "counter_step True" ?s0]
  have "(counter_step True)\<^sup>*\<^sup>* ?s0 ?s6"
    by (rule r[OF r[OF r[OF r[OF r[OF r[OF rtranclp.rtrancl_refl[of "counter_step True" ?s0] s1] s2] s3] s4] s5] s6])
  with counter_get_between[OF this] show ?thesis by (intro exI[of _ ?s6]) (simp add: counter_start_def)
qed

end
