(* ===== verification/Registration.thy ===== *)
theory Registration
  imports Prelude
begin

text \<open>
  Registrations with VPP: nodes and node functions (\<open>vlib/node.rs\<close>), process nodes
  (\<open>vlib/process_node/core.rs\<close>), CLI commands (\<open>vlib/cli.rs\<close>), features (\<open>vnet/feature.rs\<close>) and init
  functions (\<open>vpp-plugin-macros/src/lib.rs\<close>).  Each is a static structure that a constructor function of
  the plugin links in front of a chain of the host, and a destructor function takes out again.
  Constructors run in an unspecified order.
\<close>

section \<open>Chains\<close>

text \<open>Structures are known by their address; the null pointer is \<open>None\<close>.\<close>

record reg_chain =
  ch_head :: "nat option"
  ch_next :: "nat \<Rightarrow> nat option"

definition link_front :: "nat \<Rightarrow> reg_chain \<Rightarrow> reg_chain" where
  "link_front r c = c\<lparr>ch_next := (ch_next c)(r := ch_head c), ch_head := Some r\<rparr>"

text \<open>
  The loop of the destructor of an init function: \<open>prev\<close> is in front of \<open>this\<close>.  On a chain that runs
  into itself it may not end, which is the result \<open>None\<close>.
\<close>

partial_function (option) unlink_loop :: "nat \<Rightarrow> nat \<Rightarrow> nat option \<Rightarrow> (nat \<Rightarrow> nat option) \<Rightarrow> (nat \<Rightarrow> nat option) option" where
  "unlink_loop r prev this next =
     (case this of
        None \<Rightarrow> Some next
      | Some t \<Rightarrow> if t = r then Some (next(prev := next t)) else unlink_loop r t (next t) next)"

definition unlink_elt :: "nat \<Rightarrow> reg_chain \<Rightarrow> reg_chain option" where
  "unlink_elt r c =
     (case ch_head c of
        None \<Rightarrow> Some c
      | Some this \<Rightarrow>
          if this = r then Some (c\<lparr>ch_head := ch_next c this\<rparr>)
          else map_option (\<lambda>next. c\<lparr>ch_next := next\<rparr>) (unlink_loop r this (ch_next c this) (ch_next c)))"

section \<open>What the host holds\<close>

text \<open>The functions of the registered nodes are a chain for each node.\<close>

record host =
  node_registrations :: reg_chain
  node_fn_registrations :: "nat \<Rightarrow> reg_chain"
  feature_registrations :: reg_chain
  cli_command_registrations :: reg_chain
  init_function_registrations :: reg_chain

definition node_register :: "nat \<Rightarrow> host \<Rightarrow> host" where
  "node_register reg h = h\<lparr>node_registrations := link_front reg (node_registrations h)\<rparr>"

definition process_node_register :: "nat \<Rightarrow> host \<Rightarrow> host" where
  "process_node_register reg h = h\<lparr>node_registrations := link_front reg (node_registrations h)\<rparr>"

definition register_node_fn :: "nat \<Rightarrow> nat \<Rightarrow> host \<Rightarrow> host" where
  "register_node_fn reg node_fn h =
     h\<lparr>node_fn_registrations := (node_fn_registrations h)(reg := link_front node_fn (node_fn_registrations h reg))\<rparr>"

definition feature_register :: "nat \<Rightarrow> host \<Rightarrow> host" where
  "feature_register r h = h\<lparr>feature_registrations := link_front r (feature_registrations h)\<rparr>"

definition command_register :: "nat \<Rightarrow> host \<Rightarrow> host" where
  "command_register reg h = h\<lparr>cli_command_registrations := link_front reg (cli_command_registrations h)\<rparr>"

definition init_function_ctor :: "nat \<Rightarrow> host \<Rightarrow> host" where
  "init_function_ctor r h = h\<lparr>init_function_registrations := link_front r (init_function_registrations h)\<rparr>"

definition init_function_dtor :: "nat \<Rightarrow> host \<Rightarrow> host option" where
  "init_function_dtor r h =
     map_option (\<lambda>c. h\<lparr>init_function_registrations := c\<rparr>) (unlink_elt r (init_function_registrations h))"

section \<open>Chains as lists\<close>

fun path :: "(nat \<Rightarrow> nat option) \<Rightarrow> nat option \<Rightarrow> nat list \<Rightarrow> bool" where
  "path next p [] \<longleftrightarrow> p = None"
| "path next p (x # xs) \<longleftrightarrow> p = Some x \<and> path next (next x) xs"

definition holds :: "reg_chain \<Rightarrow> nat list \<Rightarrow> bool" where
  "holds c xs \<longleftrightarrow> path (ch_next c) (ch_head c) xs \<and> distinct xs"

lemma path_upd [simp]: "x \<notin> set xs \<Longrightarrow> path (next(x := y)) p xs = path next p xs"
  by (induction xs arbitrary: p) auto

lemma path_unique: "path next p xs \<Longrightarrow> path next p ys \<Longrightarrow> xs = ys"
proof (induction xs arbitrary: p ys)
  case Nil
  then show ?case by (cases ys) auto
next
  case (Cons x xs)
  then show ?case by (cases ys) auto
qed

lemma holds_link_front: "holds c xs \<Longrightarrow> r \<notin> set xs \<Longrightarrow> holds (link_front r c) (r # xs)"
  by (auto simp: holds_def link_front_def)

lemma unlink_loop_path:
  "path next ptr xs \<Longrightarrow> distinct (prev # xs) \<Longrightarrow> next prev = ptr \<Longrightarrow> prev \<noteq> r \<Longrightarrow>
   \<exists>next'. unlink_loop r prev ptr next = Some next' \<and> path next' (next' prev) (remove1 r xs) \<and>
     (\<forall>x. x \<notin> set (prev # xs) \<longrightarrow> next' x = next x)"
proof (induction xs arbitrary: prev ptr)
  case Nil
  then show ?case by (subst unlink_loop.simps) auto
next
  case (Cons x xs)
  then have th: "ptr = Some x" "path next (next x) xs" by auto
  show ?case
  proof (cases "x = r")
    case True
    then show ?thesis using Cons.prems th by (subst unlink_loop.simps) auto
  next
    case False
    from Cons.IH[OF th(2), of x] Cons.prems(2) False obtain next' where
      n: "unlink_loop r x (next x) next = Some next'" "path next' (next' x) (remove1 r xs)"
      "\<forall>y. y \<notin> set (x # xs) \<longrightarrow> next' y = next y" by auto
    moreover have "next' prev = Some x" using n(3) Cons.prems(2,3) th(1) by auto
    ultimately show ?thesis using False th Cons.prems(2) by (subst unlink_loop.simps) auto
  qed
qed

lemma holds_unlink:
  assumes "holds c xs"
  shows "\<exists>c'. unlink_elt r c = Some c' \<and> holds c' (remove1 r xs)"
proof (cases xs)
  case Nil
  then show ?thesis using assms by (auto simp: unlink_elt_def holds_def)
next
  case (Cons x ys)
  with assms have x: "ch_head c = Some x" "path (ch_next c) (ch_next c x) ys" "distinct (x # ys)" by (auto simp: holds_def)
  show ?thesis
  proof (cases "x = r")
    case True
    then show ?thesis using x Cons by (auto simp: unlink_elt_def holds_def)
  next
    case False
    from unlink_loop_path[OF x(2,3) refl False] obtain next' where
      "unlink_loop r x (ch_next c x) (ch_next c) = Some next'" "path next' (next' x) (remove1 r ys)" by blast
    then show ?thesis using x False Cons by (auto simp: unlink_elt_def holds_def distinct_remove1 dest: in_set_remove1[THEN iffD1])
  qed
qed

section \<open>The contract of a registry\<close>

text \<open>What the constructors and destructors rely on: linking adds, unlinking takes out and returns.\<close>

locale registry =
  fixes link :: "'r \<Rightarrow> 'c \<Rightarrow> 'c"
    and unlk :: "'r \<Rightarrow> 'c \<Rightarrow> 'c option"
    and entries :: "'c \<Rightarrow> 'r list \<Rightarrow> bool"
  assumes link_entries: "entries c xs \<Longrightarrow> r \<notin> set xs \<Longrightarrow> entries (link r c) (r # xs)"
    and unlk_entries: "entries c xs \<Longrightarrow> \<exists>c'. unlk r c = Some c' \<and> entries c' (remove1 r xs)"
begin

lemma link_all: "entries c xs \<Longrightarrow> distinct rs \<Longrightarrow> set rs \<inter> set xs = {} \<Longrightarrow> entries (fold link rs c) (rev rs @ xs)"
  by (induction rs arbitrary: c xs) (auto dest: link_entries)

lemma unlink_all:
  "entries c xs \<Longrightarrow> \<exists>c'. fold (\<lambda>r c. Option.bind c (unlk r)) rs (Some c) = Some c' \<and>
     entries c' (fold remove1 rs xs)"
proof (induction rs arbitrary: c xs)
  case (Cons r rs)
  from unlk_entries[OF Cons.prems, of r] obtain c1 where "unlk r c = Some c1" "entries c1 (remove1 r xs)" by blast
  with Cons.IH[of c1 "remove1 r xs"] show ?case by simp
qed auto

end

interpretation init_list: registry link_front unlink_elt holds
  by unfold_locales (auto intro: holds_link_front holds_unlink)

section \<open>Loading and unloading a plugin\<close>

datatype ctor = Node_Ctor nat | Process_Node_Ctor nat | Node_Fn_Ctor nat nat | Feature_Ctor nat | Command_Ctor nat | Init_Ctor nat

fun run_ctor :: "ctor \<Rightarrow> host \<Rightarrow> host" where
  "run_ctor (Node_Ctor r) h = node_register r h"
| "run_ctor (Process_Node_Ctor r) h = process_node_register r h"
| "run_ctor (Node_Fn_Ctor r f) h = register_node_fn r f h"
| "run_ctor (Feature_Ctor r) h = feature_register r h"
| "run_ctor (Command_Ctor r) h = command_register r h"
| "run_ctor (Init_Ctor r) h = init_function_ctor r h"

fun node_of :: "ctor \<Rightarrow> nat option" where
  "node_of (Node_Ctor r) = Some r"
| "node_of (Process_Node_Ctor r) = Some r"
| "node_of _ = None"

fun node_fn_of :: "nat \<Rightarrow> ctor \<Rightarrow> nat option" where
  "node_fn_of reg (Node_Fn_Ctor r f) = (if r = reg then Some f else None)"
| "node_fn_of reg _ = None"

fun feature_of :: "ctor \<Rightarrow> nat option" where
  "feature_of (Feature_Ctor r) = Some r"
| "feature_of _ = None"

fun command_of :: "ctor \<Rightarrow> nat option" where
  "command_of (Command_Ctor r) = Some r"
| "command_of _ = None"

fun init_of :: "ctor \<Rightarrow> nat option" where
  "init_of (Init_Ctor r) = Some r"
| "init_of _ = None"

lemmas ctor_defs = node_register_def process_node_register_def register_node_fn_def feature_register_def
  command_register_def init_function_ctor_def

lemma run_ctors_chains:
  "node_registrations (fold run_ctor cs h) = fold link_front (List.map_filter node_of cs) (node_registrations h)"
  "node_fn_registrations (fold run_ctor cs h) reg = fold link_front (List.map_filter (node_fn_of reg) cs) (node_fn_registrations h reg)"
  "feature_registrations (fold run_ctor cs h) = fold link_front (List.map_filter feature_of cs) (feature_registrations h)"
  "cli_command_registrations (fold run_ctor cs h) = fold link_front (List.map_filter command_of cs) (cli_command_registrations h)"
  "init_function_registrations (fold run_ctor cs h) = fold link_front (List.map_filter init_of cs) (init_function_registrations h)"
proof (induction cs arbitrary: h)
  case (Cons c cs)
  { case 1 show ?case by (cases c) (simp_all add: Cons.IH map_filter_simps ctor_defs) }
  { case 2 show ?case by (cases c) (simp_all add: Cons.IH map_filter_simps ctor_defs) }
  { case 3 show ?case by (cases c) (simp_all add: Cons.IH map_filter_simps ctor_defs) }
  { case 4 show ?case by (cases c) (simp_all add: Cons.IH map_filter_simps ctor_defs) }
  { case 5 show ?case by (cases c) (simp_all add: Cons.IH map_filter_simps ctor_defs) }
qed (simp_all add: map_filter_simps)

text \<open>The addresses that \<open>f\<close> picks are new to a chain and occur once.\<close>

definition fresh :: "(ctor \<Rightarrow> nat option) \<Rightarrow> ctor list \<Rightarrow> nat list \<Rightarrow> bool" where
  "fresh f cs xs \<longleftrightarrow> distinct (List.map_filter f cs) \<and> set (List.map_filter f cs) \<inter> set xs = {}"

text \<open>C5: In whatever order the constructors of plugins run, with structures that are not linked yet, every
  chain of the host then holds exactly what it held and what was registered, the last in front: the nodes
  and process nodes, the functions of each node, whether its own constructor has run before or not, the
  features, the commands and the init functions.\<close>

theorem constructors_register_all:
  assumes "holds (node_registrations h) ns" "fresh node_of cs ns"
    and "holds (node_fn_registrations h reg) fs" "fresh (node_fn_of reg) cs fs"
    and "holds (feature_registrations h) fts" "fresh feature_of cs fts"
    and "holds (cli_command_registrations h) cms" "fresh command_of cs cms"
    and "holds (init_function_registrations h) is" "fresh init_of cs is"
  shows "holds (node_registrations (fold run_ctor cs h)) (rev (List.map_filter node_of cs) @ ns) \<and>
    holds (node_fn_registrations (fold run_ctor cs h) reg) (rev (List.map_filter (node_fn_of reg) cs) @ fs) \<and>
    holds (feature_registrations (fold run_ctor cs h)) (rev (List.map_filter feature_of cs) @ fts) \<and>
    holds (cli_command_registrations (fold run_ctor cs h)) (rev (List.map_filter command_of cs) @ cms) \<and>
    holds (init_function_registrations (fold run_ctor cs h)) (rev (List.map_filter init_of cs) @ is)"
  using assms unfolding run_ctors_chains fresh_def by (simp add: init_list.link_all)

lemma dtors_chain:
  "fold (\<lambda>r h. Option.bind h (init_function_dtor r)) rs (Some h) =
     map_option (\<lambda>c. h\<lparr>init_function_registrations := c\<rparr>)
       (fold (\<lambda>r c. Option.bind c (unlink_elt r)) rs (Some (init_function_registrations h)))"
proof (induction rs arbitrary: h)
  case (Cons r rs)
  have none: "fold (\<lambda>r h. Option.bind h (init_function_dtor r)) rs None = None"
    "fold (\<lambda>r c. Option.bind c (unlink_elt r)) rs None = None" by (induction rs) auto
  have head: "init_function_dtor r h =
      map_option (\<lambda>c. h\<lparr>init_function_registrations := c\<rparr>) (unlink_elt r (init_function_registrations h))"
    by (simp add: init_function_dtor_def)
  show ?case by (cases "unlink_elt r (init_function_registrations h)") (simp_all add: head none Cons.IH)
qed simp

text \<open>After the constructors of init functions have run in any order, their destructors return in any
  order, whichever of them run, and leave the other init functions in the chain in their order; when all
  have run the chain is as before the plugin was loaded.\<close>

theorem destructors_unregister:
  assumes "holds (init_function_registrations h) is" "fresh init_of cs is"
  shows "\<exists>h'. fold (\<lambda>r h. Option.bind h (init_function_dtor r)) rs (Some (fold run_ctor cs h)) = Some h' \<and>
    holds (init_function_registrations h') (fold remove1 rs (rev (List.map_filter init_of cs) @ is)) \<and>
    (mset rs = mset (List.map_filter init_of cs) \<longrightarrow> holds (init_function_registrations h') is)"
proof -
  have "holds (init_function_registrations (fold run_ctor cs h)) (rev (List.map_filter init_of cs) @ is)"
    using assms unfolding run_ctors_chains fresh_def by (simp add: init_list.link_all)
  from init_list.unlink_all[OF this, of rs] obtain c where c:
    "fold (\<lambda>r c. Option.bind c (unlink_elt r)) rs (Some (init_function_registrations (fold run_ctor cs h))) = Some c"
    "holds c (fold remove1 rs (rev (List.map_filter init_of cs) @ is))" by blast
  have removed: "fold remove1 rs (xs @ is) = is" if "mset rs = mset xs" "distinct xs" for rs xs
    using that
  proof (induction rs arbitrary: xs)
    case (Cons r rs)
    then have "r \<in> set xs" by (metis list.set_intros(1) set_mset_mset)
    moreover have "mset rs = mset (remove1 r xs)" using Cons.prems(1) by (simp flip: Cons.prems(1))
    ultimately show ?case using Cons.IH[of "remove1 r xs"] Cons.prems(2) by (simp add: remove1_append)
  qed simp
  have "distinct (rev (List.map_filter init_of cs))" using assms(2) by (simp add: fresh_def)
  from removed[OF _ this, of rs] c(2) have "mset rs = mset (List.map_filter init_of cs) \<longrightarrow> holds c is" by auto
  with c show ?thesis unfolding dtors_chain by auto
qed

text \<open>A structure linked twice makes the chain run into itself: looking for another one does not end.\<close>

lemma unlink_loop_self:
  "unlink_loop s prev ptr next = Some y \<Longrightarrow> r \<noteq> s \<longrightarrow> ptr = Some r \<longrightarrow> next r = Some r \<longrightarrow> False"
proof (induction s prev ptr "next" y rule: unlink_loop.raw_induct[rotated, consumes 1, case_names step])
  case (step f s prev ptr "next" y)
  then show ?case by (auto split: if_splits)
qed

lemma twice_diverges:
  assumes "r \<noteq> s"
  shows "unlink_elt s (link_front r (link_front r c)) = None"
proof -
  have "unlink_loop s r (Some r) ((ch_next c)(r := Some r)) = None"
    using unlink_loop_self[of s r "Some r" "(ch_next c)(r := Some r)" _ r] assms
    by (cases "unlink_loop s r (Some r) ((ch_next c)(r := Some r))") auto
  then show ?thesis using assms by (simp add: unlink_elt_def link_front_def)
qed

definition no_chain :: reg_chain where
  "no_chain = \<lparr>ch_head = None, ch_next = (\<lambda>_. None)\<rparr>"

definition sample_host :: host where
  "sample_host = \<lparr>node_registrations = no_chain, node_fn_registrations = (\<lambda>_. no_chain), feature_registrations = no_chain,
     cli_command_registrations = no_chain, init_function_registrations = no_chain\<rparr>"

lemma no_chain_holds: "holds no_chain []"
  by (simp add: holds_def no_chain_def)

lemma constructors_register_all_witness:
  "holds (node_registrations (fold run_ctor [Node_Fn_Ctor 1 10, Node_Ctor 1, Node_Fn_Ctor 1 11, Init_Ctor 5] sample_host)) [1] \<and>
   holds (node_fn_registrations (fold run_ctor [Node_Fn_Ctor 1 10, Node_Ctor 1, Node_Fn_Ctor 1 11, Init_Ctor 5] sample_host) 1) [11, 10]"
  using constructors_register_all[of sample_host "[]" "[Node_Fn_Ctor 1 10, Node_Ctor 1, Node_Fn_Ctor 1 11, Init_Ctor 5]" 1 "[]" "[]" "[]" "[]"]
  by (simp add: no_chain_holds sample_host_def fresh_def map_filter_simps)

lemma destructors_unregister_witness:
  "\<exists>h'. fold (\<lambda>r h. Option.bind h (init_function_dtor r)) [5, 6] (Some (fold run_ctor [Init_Ctor 5, Init_Ctor 6] sample_host)) =
     Some h' \<and> holds (init_function_registrations h') []"
  using destructors_unregister[of sample_host "[]" "[Init_Ctor 5, Init_Ctor 6]" "[5, 6]"]
  by (simp add: no_chain_holds sample_host_def fresh_def map_filter_simps)

end
