(* ===== verification/Plugin_Macros.thy ===== *)
theory Plugin_Macros
  imports Prelude
begin

text \<open>
  The procedural macros of \<open>vpp-plugin-macros/src/lib.rs\<close>: how they read their arguments, what they
  refuse, and the items they generate.

  The input of a macro is a list of tokens; the parsers of the \<open>syn\<close> crate that the macros use take one
  token (an identifier, a string, a number, a punctuation mark, a type) or one bracketed group.  A macro
  that fails either panics or becomes a compile error.  The generated code is a record of the items that
  the \<open>quote!\<close> blocks contain, with the identifiers and constants that are computed.
\<close>

section \<open>Tokens and their parsers\<close>

datatype token = Ident string | Str_Lit string | Int_Lit nat | Punct char | Type_Tok string | Bracketed "token list"

datatype macro_message =
    Duplicated_Key string
  | Unknown_Key string
  | Missing string
  | Expected string
  | Too_Long
  | Unsupported string

datatype macro_error = Panicked macro_message | Compile_Error macro_message

definition m_bind :: "macro_error + 'a \<Rightarrow> ('a \<Rightarrow> macro_error + 'b) \<Rightarrow> macro_error + 'b" where
  "m_bind m f = (case m of Inl e \<Rightarrow> Inl e | Inr x \<Rightarrow> f x)"

lemma m_bind_simps [simp]: "m_bind (Inl e) f = Inl e" "m_bind (Inr x) f = f x"
  by (simp_all add: m_bind_def)

lemma m_bind_Inr: "m_bind m f = Inr y \<longleftrightarrow> (\<exists>x. m = Inr x \<and> f x = Inr y)"
  by (cases m) auto

fun parse_ident :: "token list \<Rightarrow> macro_error + string \<times> token list" where
  "parse_ident (Ident s # ts) = Inr (s, ts)"
| "parse_ident _ = Inl (Compile_Error (Expected ''identifier''))"

fun parse_str :: "token list \<Rightarrow> macro_error + string \<times> token list" where
  "parse_str (Str_Lit s # ts) = Inr (s, ts)"
| "parse_str _ = Inl (Compile_Error (Expected ''string literal''))"

fun parse_int :: "token list \<Rightarrow> macro_error + nat \<times> token list" where
  "parse_int (Int_Lit n # ts) = Inr (n, ts)"
| "parse_int _ = Inl (Compile_Error (Expected ''integer literal''))"

fun parse_type :: "token list \<Rightarrow> macro_error + string \<times> token list" where
  "parse_type (Type_Tok s # ts) = Inr (s, ts)"
| "parse_type _ = Inl (Compile_Error (Expected ''type''))"

fun parse_punct :: "char \<Rightarrow> token list \<Rightarrow> macro_error + token list" where
  "parse_punct c (Punct d # ts) = (if c = d then Inr ts else Inl (Compile_Error (Expected [c])))"
| "parse_punct c _ = Inl (Compile_Error (Expected [c]))"

text \<open>Strings separated by commas, a trailing comma allowed, up to the end of the group.\<close>

fun parse_terminated :: "token list \<Rightarrow> macro_error + string list" where
  "parse_terminated [] = Inr []"
| "parse_terminated [Str_Lit s] = Inr [s]"
| "parse_terminated (Str_Lit s # Punct c # ts) =
     (if c = CHR '','' then m_bind (parse_terminated ts) (\<lambda>ss. Inr (s # ss)) else Inl (Compile_Error (Expected '','')))"
| "parse_terminated _ = Inl (Compile_Error (Expected ''string literal''))"

fun parse_str_array :: "token list \<Rightarrow> macro_error + string list \<times> token list" where
  "parse_str_array (Bracketed ts # rest) = m_bind (parse_terminated ts) (\<lambda>ss. Inr (ss, rest))"
| "parse_str_array _ = Inl (Compile_Error (Expected ''square brackets''))"

section \<open>Blocks of keys\<close>

text \<open>
  \<open>key: value,\<close> repeated to the end of the input.  \<open>value\<close> reads the value of a key into what has been
  read; \<open>n\<close> bounds the keys that can follow, of at least one token each.
\<close>

fun keys_loop :: "(string \<Rightarrow> 'i \<Rightarrow> token list \<Rightarrow> macro_error + 'i \<times> token list) \<Rightarrow> nat \<Rightarrow> string set \<Rightarrow> 'i \<Rightarrow> token list \<Rightarrow>
    macro_error + 'i" where
  "keys_loop value n seen info [] = Inr info"
| "keys_loop value 0 seen info ts = Inl (Compile_Error (Expected ''end of input''))"
| "keys_loop value (Suc n) seen info ts =
     m_bind (parse_ident ts) (\<lambda>(key, ts).
     if key \<in> seen then Inl (Panicked (Duplicated_Key key))
     else
       m_bind (parse_punct (CHR '':'') ts) (\<lambda>ts.
       m_bind (value key info ts) (\<lambda>(info, ts).
       m_bind (parse_punct (CHR '','') ts) (\<lambda>ts. keys_loop value n (insert key seen) info ts))))"

definition parse_keys :: "(string \<Rightarrow> 'i \<Rightarrow> token list \<Rightarrow> macro_error + 'i \<times> token list) \<Rightarrow> 'i \<Rightarrow> token list \<Rightarrow> macro_error + 'i" where
  "parse_keys value info ts = keys_loop value (length ts) {} info ts"

subsection \<open>Registration of the plugin\<close>

record plugin_register =
  pr_version :: "string option"
  pr_description :: "string option"

definition plugin_register_value ::
  "string \<Rightarrow> plugin_register \<Rightarrow> token list \<Rightarrow> macro_error + plugin_register \<times> token list" where
  "plugin_register_value key info ts =
     (if key = ''version'' then m_bind (parse_str ts) (\<lambda>(s, ts). Inr (info\<lparr>pr_version := Some s\<rparr>, ts))
      else if key = ''description'' then m_bind (parse_str ts) (\<lambda>(s, ts). Inr (info\<lparr>pr_description := Some s\<rparr>, ts))
      else Inl (Compile_Error (Unknown_Key key)))"

definition plugin_register_parse :: "token list \<Rightarrow> macro_error + plugin_register" where
  "plugin_register_parse ts = parse_keys plugin_register_value \<lparr>pr_version = None, pr_description = None\<rparr> ts"

definition NUL :: char where
  "NUL = CHR 0x00"

text \<open>\<open>format!("{}\0", s)\<close>\<close>

definition c_str :: "string \<Rightarrow> string" where
  "c_str s = s @ [NUL]"

record plugin_registration =
  reg_version :: string
  reg_description :: "string option"

definition vlib_plugin_register :: "token list \<Rightarrow> macro_error + plugin_registration" where
  "vlib_plugin_register ts =
     m_bind (plugin_register_parse ts) (\<lambda>info.
     case pr_version info of
       None \<Rightarrow> Inl (Panicked (Missing ''version''))
     | Some version_elems \<Rightarrow>
         if 63 < length version_elems then Inl (Panicked Too_Long)
         else Inr \<lparr>reg_version = version_elems @ replicate (length [length version_elems ..< 64]) NUL,
                   reg_description = map_option c_str (pr_description info)\<rparr>)"

subsection \<open>Registration of a feature\<close>

record feature_init =
  fi_identifier :: "string option"
  fi_arc_name :: "string option"
  fi_node :: "string option"
  fi_runs_before :: "string list"
  fi_runs_after :: "string list"
  fi_feature_data_type :: "string option"

definition feature_init_value :: "string \<Rightarrow> feature_init \<Rightarrow> token list \<Rightarrow> macro_error + feature_init \<times> token list" where
  "feature_init_value key info ts =
     (if key = ''identifier'' then m_bind (parse_ident ts) (\<lambda>(s, ts). Inr (info\<lparr>fi_identifier := Some s\<rparr>, ts))
      else if key = ''arc_name'' then m_bind (parse_str ts) (\<lambda>(s, ts). Inr (info\<lparr>fi_arc_name := Some s\<rparr>, ts))
      else if key = ''node'' then m_bind (parse_ident ts) (\<lambda>(s, ts). Inr (info\<lparr>fi_node := Some s\<rparr>, ts))
      else if key = ''runs_before'' then m_bind (parse_str_array ts) (\<lambda>(ss, ts). Inr (info\<lparr>fi_runs_before := ss\<rparr>, ts))
      else if key = ''runs_after'' then m_bind (parse_str_array ts) (\<lambda>(ss, ts). Inr (info\<lparr>fi_runs_after := ss\<rparr>, ts))
      else if key = ''feature_data_type'' then m_bind (parse_type ts) (\<lambda>(s, ts). Inr (info\<lparr>fi_feature_data_type := Some s\<rparr>, ts))
      else Inl (Compile_Error (Unknown_Key key)))"

definition no_feature :: feature_init where
  "no_feature = \<lparr>fi_identifier = None, fi_arc_name = None, fi_node = None, fi_runs_before = [], fi_runs_after = [],
     fi_feature_data_type = None\<rparr>"

definition feature_init_parse :: "token list \<Rightarrow> macro_error + feature_init" where
  "feature_init_parse ts = parse_keys feature_init_value no_feature ts"

definition required :: "string \<Rightarrow> 'a option \<Rightarrow> macro_error + 'a" where
  "required what v = (case v of None \<Rightarrow> Inl (Panicked (Missing what)) | Some x \<Rightarrow> Inr x)"

text \<open>An array of C strings ended by a null pointer, or a null pointer for no strings.\<close>

definition c_str_array :: "string list \<Rightarrow> string option list option" where
  "c_str_array ss = (if ss = [] then None else Some (map (\<lambda>s. Some (c_str s)) ss @ [None]))"

record feature_items =
  ft_ident :: string
  ft_ctor_fn :: string
  ft_dtor_fn :: string
  ft_data_type :: string
  ft_arc_name :: string
  ft_runs_before :: "string option list option"
  ft_runs_after :: "string option list option"
  ft_node_registration :: string

definition vnet_feature_init :: "token list \<Rightarrow> macro_error + feature_items" where
  "vnet_feature_init ts =
     m_bind (feature_init_parse ts) (\<lambda>info.
     m_bind (required ''identifier'' (fi_identifier info)) (\<lambda>ident.
     m_bind (required ''arc_name'' (fi_arc_name info)) (\<lambda>arc_name.
     m_bind (required ''node'' (fi_node info)) (\<lambda>node.
       Inr \<lparr>ft_ident = ident,
            ft_ctor_fn = ''__vnet_add_feature_registration_'' @ ident,
            ft_dtor_fn = ''__vnet_rm_feature_registration_'' @ ident,
            ft_data_type = (case fi_feature_data_type info of Some t \<Rightarrow> t | None \<Rightarrow> ''()''),
            ft_arc_name = c_str arc_name,
            ft_runs_before = c_str_array (fi_runs_before info),
            ft_runs_after = c_str_array (fi_runs_after info),
            ft_node_registration = node @ ''_NODE_REGISTRATION''\<rparr>))))"

section \<open>Derived tables\<close>

datatype fields = Unit | Unnamed | Named

datatype attr_expr = Lit_Str string | Lit_Other | Expr_Other

datatype attr_meta = Meta_Path | Meta_List "token list" | Meta_Name_Value attr_expr

record attribute =
  attr_path :: string
  attr_meta :: attr_meta

record syn_variant =
  ev_ident :: string
  ev_attrs :: "attribute list"
  ev_fields :: fields
  ev_discriminant :: bool

datatype input_data = Enum "syn_variant list" | Struct | Union

record derive_input =
  di_ident :: string
  di_data :: input_data

text \<open>What both derive macros refuse before they look at the attribute of a variant.\<close>

definition check_variant :: "syn_variant \<Rightarrow> macro_error + unit" where
  "check_variant v =
     (if ev_discriminant v then Inl (Compile_Error (Unsupported ''explicit discriminants''))
      else if ev_fields v \<noteq> Unit then Inl (Compile_Error (Unsupported ''fields''))
      else Inr ())"

definition find_attr :: "string \<Rightarrow> syn_variant \<Rightarrow> macro_error + attr_meta" where
  "find_attr name v =
     (case find (\<lambda>a. attr_path a = name) (ev_attrs v) of
        None \<Rightarrow> Inl (Panicked (Missing name))
      | Some a \<Rightarrow> Inr (attr_meta a))"

definition next_node_name :: "syn_variant \<Rightarrow> macro_error + string" where
  "next_node_name v =
     m_bind (check_variant v) (\<lambda>_.
     m_bind (find_attr ''next_node'' v) (\<lambda>meta.
     case meta of
       Meta_Name_Value (Lit_Str s) \<Rightarrow> Inr (c_str s)
     | _ \<Rightarrow> Inl (Compile_Error (Unsupported ''next_node''))))"

fun for_variants :: "(syn_variant \<Rightarrow> macro_error + 'a) \<Rightarrow> syn_variant list \<Rightarrow> macro_error + 'a list" where
  "for_variants f [] = Inr []"
| "for_variants f (v # vs) = m_bind (f v) (\<lambda>x. m_bind (for_variants f vs) (\<lambda>xs. Inr (x # xs)))"

text \<open>The generated \<open>into_u16\<close>: the discriminant, which is the position of the variant, cast.\<close>

definition into_u16_cast :: "nat \<Rightarrow> nat" where
  "into_u16_cast discriminant = discriminant mod 2 ^ 16"

record 'a table_impl =
  ti_ident :: string
  ti_len :: nat
  ti_table :: "'a list"

definition derive_next_nodes :: "derive_input \<Rightarrow> macro_error + string table_impl" where
  "derive_next_nodes input =
     (case di_data input of
        Enum variants \<Rightarrow>
          m_bind (for_variants next_node_name variants) (\<lambda>next_nodes.
            Inr \<lparr>ti_ident = di_ident input, ti_len = length variants, ti_table = next_nodes\<rparr>)
      | _ \<Rightarrow> Inl (Panicked (Unsupported ''enums'')))"

record error_counter_attribute =
  ec_name :: "string option"
  ec_description :: string
  ec_severity :: string

definition VALID_SEVERITIES :: "string list" where
  "VALID_SEVERITIES = [''INFO'', ''WARNING'', ''ERROR'', ''CRITICAL'']"

definition parse_error_counter :: "token list \<Rightarrow> macro_error + error_counter_attribute \<times> token list" where
  "parse_error_counter ts =
     m_bind (parse_ident ts) (\<lambda>(name_or_description_kw, ts).
     m_bind (if name_or_description_kw = ''name''
             then
               m_bind (parse_punct (CHR ''='') ts) (\<lambda>ts.
               m_bind (parse_str ts) (\<lambda>(name, ts).
               m_bind (parse_punct (CHR '','') ts) (\<lambda>ts.
               m_bind (parse_ident ts) (\<lambda>(kw, ts). Inr (Some name, kw, ts)))))
             else Inr (None, name_or_description_kw, ts)) (\<lambda>(name, kw, ts).
     if kw \<noteq> ''description'' then Inl (Compile_Error (Expected ''description'')) else
     m_bind (parse_punct (CHR ''='') ts) (\<lambda>ts.
     m_bind (parse_str ts) (\<lambda>(description, ts).
     m_bind (parse_punct (CHR '','') ts) (\<lambda>ts.
     m_bind (parse_ident ts) (\<lambda>(severity_kw, ts).
     if severity_kw \<noteq> ''severity'' then Inl (Compile_Error (Expected ''severity'')) else
     m_bind (parse_punct (CHR ''='') ts) (\<lambda>ts.
     m_bind (parse_ident ts) (\<lambda>(severity, ts).
     if severity \<notin> set VALID_SEVERITIES then Inl (Compile_Error (Unsupported severity))
     else Inr (\<lparr>ec_name = name, ec_description = description, ec_severity = severity\<rparr>, ts)))))))))"

text \<open>\<open>parse2\<close> requires the input to end.\<close>

definition parse2 :: "(token list \<Rightarrow> macro_error + 'a \<times> token list) \<Rightarrow> token list \<Rightarrow> macro_error + 'a" where
  "parse2 p ts = m_bind (p ts) (\<lambda>(x, rest). if rest = [] then Inr x else Inl (Compile_Error (Expected ''end of input'')))"

record error_desc =
  ed_name :: string
  ed_desc :: string
  ed_severity :: string

definition error_counter_desc :: "syn_variant \<Rightarrow> macro_error + error_desc" where
  "error_counter_desc v =
     m_bind (check_variant v) (\<lambda>_.
     m_bind (find_attr ''error_counter'' v) (\<lambda>meta.
     case meta of
       Meta_List tokens \<Rightarrow>
         m_bind (parse2 parse_error_counter tokens) (\<lambda>a.
           Inr \<lparr>ed_name = c_str (case ec_name a of Some n \<Rightarrow> n | None \<Rightarrow> ev_ident v),
                ed_desc = c_str (ec_description a),
                ed_severity = ''vl_counter_severity_e_VL_COUNTER_SEVERITY_'' @ ec_severity a\<rparr>)
     | _ \<Rightarrow> Inl (Compile_Error (Unsupported ''error_counter''))))"

definition derive_error_counters :: "derive_input \<Rightarrow> macro_error + error_desc table_impl" where
  "derive_error_counters input =
     (case di_data input of
        Enum variants \<Rightarrow>
          m_bind (for_variants error_counter_desc variants) (\<lambda>descs.
            Inr \<lparr>ti_ident = di_ident input, ti_len = length variants, ti_table = descs\<rparr>)
      | _ \<Rightarrow> Inl (Panicked (Unsupported ''enums'')))"

text \<open>The severity constants of the bindings, \<open>vpp-plugin/src/bindings/x86_64-unknown-linux-gnu.rs\<close>.\<close>

definition severity_constants :: "string list" where
  "severity_constants =
     [''vl_counter_severity_e_VL_COUNTER_SEVERITY_ERROR'', ''vl_counter_severity_e_VL_COUNTER_SEVERITY_WARN'',
      ''vl_counter_severity_e_VL_COUNTER_SEVERITY_INFO'']"

section \<open>Attributes of the other macros\<close>

text \<open>
  \<open>key = value\<close> separated by commas, a trailing comma allowed (\<open>syn::meta::parser\<close>).  A key may come twice,
  the last one counts.
\<close>

fun attrs_loop :: "(string \<Rightarrow> 'i \<Rightarrow> token list \<Rightarrow> macro_error + 'i \<times> token list) \<Rightarrow> nat \<Rightarrow> 'i \<Rightarrow> token list \<Rightarrow> macro_error + 'i" where
  "attrs_loop value n info [] = Inr info"
| "attrs_loop value 0 info ts = Inl (Compile_Error (Expected ''end of input''))"
| "attrs_loop value (Suc n) info ts =
     m_bind (parse_ident ts) (\<lambda>(key, ts).
     m_bind (value key info ts) (\<lambda>(info, ts).
     if ts = [] then Inr info
     else m_bind (parse_punct (CHR '','') ts) (\<lambda>ts. attrs_loop value n info ts)))"

definition parse_attrs :: "(string \<Rightarrow> 'i \<Rightarrow> token list \<Rightarrow> macro_error + 'i \<times> token list) \<Rightarrow> 'i \<Rightarrow> token list \<Rightarrow> macro_error + 'i" where
  "parse_attrs value info ts = attrs_loop value (length ts) info ts"

text \<open>\<open>meta.value()?.parse()?\<close>\<close>

definition attr_value :: "(token list \<Rightarrow> macro_error + 'a \<times> token list) \<Rightarrow> token list \<Rightarrow> macro_error + 'a \<times> token list" where
  "attr_value p ts = m_bind (parse_punct (CHR ''='') ts) p"

section \<open>Items\<close>

datatype item = Item_Fn string bool | Item_Struct string | Item_Other

text \<open>A function item comes with whether it has a visibility modifier.\<close>

subsection \<open>Init functions and commands\<close>

record init_items =
  in_init_fn :: string
  in_ctor_fn :: string
  in_dtor_fn :: string
  in_list_elt :: string
  in_name :: string

definition vlib_init_function :: "item \<Rightarrow> macro_error + init_items" where
  "vlib_init_function it =
     (case it of
        Item_Fn ident vis \<Rightarrow>
          if vis then Inl (Panicked (Unsupported ''visibility''))
          else Inr \<lparr>in_init_fn = ''__'' @ ident,
                    in_ctor_fn = ''__vlib_add_init_function_init_'' @ ident,
                    in_dtor_fn = ''__vlib_rm_init_function_'' @ ident,
                    in_list_elt = ''_VLIB_INIT_FUNCTION_INIT_'' @ ident,
                    in_name = c_str ident\<rparr>
      | _ \<Rightarrow> Inl (Panicked (Unsupported ''function'')))"

record command_attrs =
  ca_path :: "string option"
  ca_short_help :: "string option"

definition command_value :: "string \<Rightarrow> command_attrs \<Rightarrow> token list \<Rightarrow> macro_error + command_attrs \<times> token list" where
  "command_value key info ts =
     (if key = ''path'' then m_bind (attr_value parse_str ts) (\<lambda>(s, ts). Inr (info\<lparr>ca_path := Some s\<rparr>, ts))
      else if key = ''short_help'' then m_bind (attr_value parse_str ts) (\<lambda>(s, ts). Inr (info\<lparr>ca_short_help := Some s\<rparr>, ts))
      else Inl (Compile_Error (Unknown_Key key)))"

record command_items =
  co_raw_fn :: string
  co_ctor_fn :: string
  co_dtor_fn :: string
  co_command :: string
  co_path :: string
  co_short_help :: "string option"

definition vlib_cli_command :: "token list \<Rightarrow> item \<Rightarrow> macro_error + command_items" where
  "vlib_cli_command attributes it =
     m_bind (parse_attrs command_value \<lparr>ca_path = None, ca_short_help = None\<rparr> attributes) (\<lambda>a.
     case it of
       Item_Fn ident vis \<Rightarrow>
         m_bind (required ''path'' (ca_path a)) (\<lambda>path.
           Inr \<lparr>co_raw_fn = ''__'' @ ident,
                co_ctor_fn = ''__vlib_cli_command_registration_'' @ ident,
                co_dtor_fn = ''__vlib_cli_command_unregistration_'' @ ident,
                co_command = ''_VLIB_CLI_COMMAND_'' @ ident,
                co_path = c_str path,
                co_short_help = map_option c_str (ca_short_help a)\<rparr>)
     | _ \<Rightarrow> Inl (Panicked (Unsupported ''function'')))"

subsection \<open>Nodes\<close>

record node_attrs =
  na_name :: "string option"
  na_instance :: "string option"
  na_runtime_data_default :: "string option"
  na_format_trace :: "string option"

definition node_value :: "string \<Rightarrow> node_attrs \<Rightarrow> token list \<Rightarrow> macro_error + node_attrs \<times> token list" where
  "node_value key info ts =
     (if key = ''name'' then m_bind (attr_value parse_str ts) (\<lambda>(s, ts). Inr (info\<lparr>na_name := Some s\<rparr>, ts))
      else if key = ''instance'' then m_bind (attr_value parse_ident ts) (\<lambda>(s, ts). Inr (info\<lparr>na_instance := Some s\<rparr>, ts))
      else if key = ''runtime_data_default''
      then m_bind (attr_value parse_ident ts) (\<lambda>(s, ts). Inr (info\<lparr>na_runtime_data_default := Some s\<rparr>, ts))
      else if key = ''format_trace'' then m_bind (attr_value parse_ident ts) (\<lambda>(s, ts). Inr (info\<lparr>na_format_trace := Some s\<rparr>, ts))
      else Inl (Compile_Error (Unknown_Key key)))"

text \<open>The table of processor variants: name, architecture, enabled target features.\<close>

definition CPU_MARCH_TO_CPU_AND_TARGET_FEATURE :: "(string \<times> string option \<times> string option) list" where
  "CPU_MARCH_TO_CPU_AND_TARGET_FEATURE =
     [(''scalar'', Some ''x86_64'', None),
      (''hsw'', Some ''x86_64'', Some ''avx2''),
      (''skx'', Some ''x86_64'', Some ''avx512f''),
      (''icl'', Some ''x86_64'', Some ''avx512bitalg''),
      (''octeontx2'', Some ''aarch64'', Some ''crc,lse,rdm,pan,lor,vh,ras,dpb,sha2,aes''),
      (''thunderx2t99'', Some ''aarch64'', Some ''crc,lse,rdm,pan,lor,vh,sha2,aes''),
      (''cortexa72'', Some ''aarch64'', Some ''crc,sha2,aes''),
      (''neoversen1'', Some ''aarch64'', Some ''crc,lse,rdm,pan,lor,vh,ras,dpb,sha2,aes''),
      (''neoversen2'', Some ''aarch64'',
       Some ''crc,lse,rdm,pan,lor,vh,ras,dpb,rcpc,paca,pacg,jsconv,dotprod,dit,flagm,ssbs,sb,dpb2,bti,sve2'')]"

record march_items =
  mi_target_arch :: "string option"
  mi_target_feature :: "string option"
  mi_raw_node_fn :: string
  mi_registration :: string
  mi_reg_fn :: string
  mi_march_variant :: string

definition march_item :: "string \<Rightarrow> string \<times> string option \<times> string option \<Rightarrow> march_items" where
  "march_item ident = (\<lambda>(cpu_march, cpu, target_feature).
     \<lparr>mi_target_arch = cpu, mi_target_feature = target_feature,
      mi_raw_node_fn = ''__'' @ ident @ ''_'' @ cpu_march,
      mi_registration = ident @ ''_FN_REGISTRATION_'' @ cpu_march,
      mi_reg_fn = ident @ ''_multiarch_register_'' @ cpu_march,
      mi_march_variant = ''clib_march_variant_type_t_CLIB_MARCH_VARIANT_TYPE_'' @ cpu_march\<rparr>)"

text \<open>Sizes and alignments of the types of a node, and the lengths of its tables.\<close>

record node_types =
  nt_runtime_data :: "nat \<times> nat"
  nt_vector :: "nat \<times> nat"
  nt_aux :: "nat \<times> nat"
  nt_scalar :: "nat \<times> nat"
  nt_n_errors :: nat
  nt_n_next_nodes :: nat

definition RUNTIME_DATA_ALIGN :: nat where "RUNTIME_DATA_ALIGN = 8"
definition FRAME_DATA_ALIGN :: nat where "FRAME_DATA_ALIGN = 16"

text \<open>\<open>const_assert!\<close> of a size and an alignment, then the size cast to \<open>bits\<close> bits.\<close>

definition const_size :: "nat \<Rightarrow> nat \<Rightarrow> nat \<times> nat \<Rightarrow> macro_error + nat" where
  "const_size bits max_align = (\<lambda>(sz, al).
     if sz \<le> 2 ^ bits - 1 \<and> al \<le> max_align then Inr (sz mod 2 ^ bits) else Inl (Compile_Error (Unsupported ''size'')))"

text \<open>The default runtime data, or a null pointer, for which the data must be of size zero.\<close>

definition runtime_data_ptr :: "string option \<Rightarrow> nat \<times> nat \<Rightarrow> macro_error + string option" where
  "runtime_data_ptr dflt T =
     (case dflt of
        Some d \<Rightarrow> Inr (Some d)
      | None \<Rightarrow> if fst T = 0 then Inr None else Inl (Compile_Error (Unsupported ''runtime data'')))"

record node_items =
  no_registration :: string
  no_add_node_fn :: string
  no_rm_node_fn :: string
  no_instance :: string
  no_function :: "string option"
  no_name :: string
  no_format_trace :: "string option"
  no_runtime_data :: "string option"
  no_runtime_data_bytes :: nat
  no_vector_size :: nat
  no_aux_size :: nat
  no_scalar_size :: nat
  no_n_errors :: nat
  no_n_next_nodes :: nat
  no_march :: "march_items list"

definition vlib_node :: "node_types \<Rightarrow> token list \<Rightarrow> item \<Rightarrow> macro_error + node_items" where
  "vlib_node T attributes it =
     m_bind (parse_attrs node_value
         \<lparr>na_name = None, na_instance = None, na_runtime_data_default = None, na_format_trace = None\<rparr> attributes) (\<lambda>a.
     case it of
       Item_Struct ident \<Rightarrow>
         m_bind (required ''name'' (na_name a)) (\<lambda>name.
         m_bind (required ''instance'' (na_instance a)) (\<lambda>inst.
         m_bind (runtime_data_ptr (na_runtime_data_default a) (nt_runtime_data T)) (\<lambda>runtime_data.
         m_bind (const_size 8 RUNTIME_DATA_ALIGN (nt_runtime_data T)) (\<lambda>runtime_data_bytes.
         m_bind (const_size 8 FRAME_DATA_ALIGN (nt_vector T)) (\<lambda>vector_size.
         m_bind (const_size 8 FRAME_DATA_ALIGN (nt_aux T)) (\<lambda>aux_size.
         m_bind (const_size 16 FRAME_DATA_ALIGN (nt_scalar T)) (\<lambda>scalar_size.
           Inr \<lparr>no_registration = ident @ ''_NODE_REGISTRATION'',
                no_add_node_fn = ''__vlib_add_node_registration_'' @ ident,
                no_rm_node_fn = ''__vlib_rm_node_registration_'' @ ident,
                no_instance = inst,
                no_function = None,
                no_name = c_str name,
                no_format_trace = map_option ((@) ''__'') (na_format_trace a),
                no_runtime_data = runtime_data,
                no_runtime_data_bytes = runtime_data_bytes,
                no_vector_size = vector_size,
                no_aux_size = aux_size,
                no_scalar_size = scalar_size,
                no_n_errors = nt_n_errors T mod 2 ^ 16,
                no_n_next_nodes = nt_n_next_nodes T mod 2 ^ 16,
                no_march = map (march_item ident) CPU_MARCH_TO_CPU_AND_TARGET_FEATURE\<rparr>)))))))
     | _ \<Rightarrow> Inl (Panicked (Unsupported ''struct'')))"

subsection \<open>Process nodes\<close>

record process_node_attrs =
  pa_name :: "string option"
  pa_instance :: "string option"
  pa_runtime_data_default :: "string option"
  pa_log2_stack_bytes :: "nat option"

definition process_node_value :: "string \<Rightarrow> process_node_attrs \<Rightarrow> token list \<Rightarrow> macro_error + process_node_attrs \<times> token list" where
  "process_node_value key info ts =
     (if key = ''name'' then m_bind (attr_value parse_str ts) (\<lambda>(s, ts). Inr (info\<lparr>pa_name := Some s\<rparr>, ts))
      else if key = ''log2_stack_bytes'' then
        m_bind (attr_value parse_int ts) (\<lambda>(n, ts).
          if n < 2 ^ 16 then Inr (info\<lparr>pa_log2_stack_bytes := Some n\<rparr>, ts) else Inl (Compile_Error (Expected ''u16'')))
      else if key = ''instance'' then m_bind (attr_value parse_ident ts) (\<lambda>(s, ts). Inr (info\<lparr>pa_instance := Some s\<rparr>, ts))
      else if key = ''runtime_data_default''
      then m_bind (attr_value parse_ident ts) (\<lambda>(s, ts). Inr (info\<lparr>pa_runtime_data_default := Some s\<rparr>, ts))
      else Inl (Compile_Error (Unknown_Key key)))"

record process_node_items =
  po_registration :: string
  po_add_node_fn :: string
  po_rm_node_fn :: string
  po_instance :: string
  po_function :: "string option"
  po_name :: string
  po_runtime_data :: "string option"
  po_runtime_data_bytes :: nat
  po_n_errors :: nat
  po_n_next_nodes :: nat
  po_log2_stack_bytes :: nat

definition vlib_process_node :: "node_types \<Rightarrow> token list \<Rightarrow> item \<Rightarrow> macro_error + process_node_items" where
  "vlib_process_node T attributes it =
     m_bind (parse_attrs process_node_value
         \<lparr>pa_name = None, pa_instance = None, pa_runtime_data_default = None, pa_log2_stack_bytes = None\<rparr> attributes) (\<lambda>a.
     case it of
       Item_Struct ident \<Rightarrow>
         m_bind (required ''name'' (pa_name a)) (\<lambda>name.
         m_bind (required ''instance'' (pa_instance a)) (\<lambda>inst.
         m_bind (runtime_data_ptr (pa_runtime_data_default a) (nt_runtime_data T)) (\<lambda>runtime_data.
         m_bind (const_size 8 RUNTIME_DATA_ALIGN (nt_runtime_data T)) (\<lambda>runtime_data_bytes.
           Inr \<lparr>po_registration = ident @ ''_NODE_REGISTRATION'',
                po_add_node_fn = ''__vlib_add_node_registration_'' @ ident,
                po_rm_node_fn = ''__vlib_rm_node_registration_'' @ ident,
                po_instance = inst,
                po_function = Some (''__fn_'' @ ident),
                po_name = c_str name,
                po_runtime_data = runtime_data,
                po_runtime_data_bytes = runtime_data_bytes,
                po_n_errors = nt_n_errors T mod 2 ^ 16,
                po_n_next_nodes = nt_n_next_nodes T mod 2 ^ 16,
                po_log2_stack_bytes = (case pa_log2_stack_bytes a of Some n \<Rightarrow> n | None \<Rightarrow> 0)\<rparr>))))
     | _ \<Rightarrow> Inl (Panicked (Unsupported ''struct'')))"


section \<open>The values of a key block\<close>

datatype key_value = V_Ident string | V_Str string | V_Type string | V_Strs "string list" bool

text \<open>How a list of strings is written, with or without a comma at its end.\<close>

fun strs_tokens :: "string list \<Rightarrow> bool \<Rightarrow> token list" where
  "strs_tokens [] trailing = []"
| "strs_tokens [s] trailing = (if trailing then [Str_Lit s, Punct (CHR '','')] else [Str_Lit s])"
| "strs_tokens (s # ss) trailing = Str_Lit s # Punct (CHR '','') # strs_tokens ss trailing"

fun value_tokens :: "key_value \<Rightarrow> token list" where
  "value_tokens (V_Ident s) = [Ident s]"
| "value_tokens (V_Str s) = [Str_Lit s]"
| "value_tokens (V_Type s) = [Type_Tok s]"
| "value_tokens (V_Strs ss trailing) = [Bracketed (strs_tokens ss trailing)]"

definition entry_tokens :: "string \<times> key_value \<Rightarrow> token list" where
  "entry_tokens e = Ident (fst e) # Punct (CHR '':'') # value_tokens (snd e) @ [Punct (CHR '','')]"

definition block_tokens :: "(string \<times> key_value) list \<Rightarrow> token list" where
  "block_tokens es = concat (map entry_tokens es)"

lemma block_tokens_simps [simp]:
  "block_tokens [] = []" "block_tokens (e # es) = entry_tokens e @ block_tokens es"
  by (simp_all add: block_tokens_def)

lemma parse_terminated_tokens: "parse_terminated (strs_tokens ss trailing) = Inr ss"
proof (induction ss trailing rule: strs_tokens.induct)
  case (3 s s' ss trailing)
  then show ?case by (cases "strs_tokens (s' # ss) trailing") simp_all
qed simp_all

lemma strs_tokens_Cons: "ss \<noteq> [] \<Longrightarrow> strs_tokens (s # ss) trailing = Str_Lit s # Punct (CHR '','') # strs_tokens ss trailing"
  by (cases ss) simp_all

lemma parse_terminated_sound: "parse_terminated ts = Inr ss \<Longrightarrow> \<exists>trailing. ts = strs_tokens ss trailing"
proof (induction ts arbitrary: ss rule: parse_terminated.induct)
  case 1
  then show ?case by simp
next
  case (2 s)
  then have "[Str_Lit s] = strs_tokens ss False" by auto
  then show ?case by blast
next
  case (3 s c ts)
  then obtain ss' where c: "c = CHR '',''" and r: "parse_terminated ts = Inr ss'" and ss: "ss = s # ss'"
    by (auto simp: m_bind_Inr split: if_splits)
  obtain trailing where t: "ts = strs_tokens ss' trailing"
    using "3.IH" [OF c r] by blast
  show ?case
  proof (cases "ss' = []")
    case True
    then have "Str_Lit s # Punct c # ts = strs_tokens ss True"
      using c ss t by simp
    then show ?thesis by blast
  next
    case False
    then show ?thesis
      using c ss t by (auto simp: strs_tokens_Cons)
  qed
qed simp_all

subsection \<open>What a block parser promises\<close>

text \<open>
  The laws of the parser of one value: it reads the tokens of a value that suits the key, whatever follows,
  and it reads nothing else.
\<close>

locale key_block =
  fixes read_value :: "string \<Rightarrow> 'i \<Rightarrow> token list \<Rightarrow> macro_error + 'i \<times> token list"
    and suits :: "string \<times> key_value \<Rightarrow> bool"
    and store :: "string \<times> key_value \<Rightarrow> 'i \<Rightarrow> 'i"
  assumes complete: "suits (k, v) \<Longrightarrow> read_value k i (value_tokens v @ ts) = Inr (store (k, v) i, ts)"
    and sound: "read_value k i ts = Inr (i', ts') \<Longrightarrow> \<exists>v. suits (k, v) \<and> ts = value_tokens v @ ts' \<and> i' = store (k, v) i"
begin

lemma loop_complete:
  "list_all suits es \<Longrightarrow> distinct (map fst es) \<Longrightarrow> seen \<inter> fst ` set es = {} \<Longrightarrow> length (block_tokens es) \<le> n \<Longrightarrow>
   keys_loop read_value n seen i (block_tokens es) = Inr (fold store es i)"
proof (induction es arbitrary: n seen i)
  case Nil
  then show ?case by simp
next
  case (Cons e es)
  obtain k v where e: "e = (k, v)" by (cases e)
  obtain m where n: "n = Suc m" and m: "length (block_tokens es) \<le> m"
    using Cons.prems(4) by (cases n) (auto simp: entry_tokens_def)
  have "keys_loop read_value m (insert k seen) (store e i) (block_tokens es) = Inr (fold store es (store e i))"
    using Cons.prems m by (intro Cons.IH) (auto simp: e)
  then show ?case
    using Cons.prems by (auto simp: e n entry_tokens_def complete)
qed

lemma loop_sound:
  "keys_loop read_value n seen i ts = Inr i' \<Longrightarrow>
   \<exists>es. ts = block_tokens es \<and> list_all suits es \<and> distinct (map fst es) \<and> seen \<inter> fst ` set es = {} \<and> i' = fold store es i"
proof (induction n arbitrary: seen i ts)
  case 0
  then show ?case by (cases ts) (auto intro: exI [of _ "[]"])
next
  case (Suc n)
  show ?case
  proof (cases ts)
    case Nil
    then show ?thesis using Suc.prems by (auto intro: exI [of _ "[]"])
  next
    case (Cons t ts1)
    then obtain k ts2 where k: "parse_ident ts = Inr (k, ts2)"
      using Suc.prems by (auto simp: m_bind_Inr)
    then have ts: "ts = Ident k # ts2" by (auto simp: Cons elim!: parse_ident.elims)
    have fresh: "k \<notin> seen" using Suc.prems by (auto simp: ts split: if_splits)
    obtain ts3 i1 ts4 ts5 where p: "parse_punct (CHR '':'') ts2 = Inr ts3" "read_value k i ts3 = Inr (i1, ts4)"
        "parse_punct (CHR '','') ts4 = Inr ts5" "keys_loop read_value n (insert k seen) i1 ts5 = Inr i'"
      using Suc.prems fresh by (auto simp: ts m_bind_Inr)
    obtain v where v: "suits (k, v)" "ts3 = value_tokens v @ ts4" "i1 = store (k, v) i"
      using sound [OF p(2)] by blast
    obtain es where es: "ts5 = block_tokens es" "list_all suits es" "distinct (map fst es)"
        "insert k seen \<inter> fst ` set es = {}" "i' = fold store es i1"
      using Suc.IH [OF p(4)] by blast
    have "ts2 = Punct (CHR '':'') # ts3" "ts4 = Punct (CHR '','') # ts5"
      using p(1,3) by (auto elim!: parse_punct.elims split: if_splits)
    then have "ts = block_tokens ((k, v) # es)"
      using v es(1) by (simp add: ts entry_tokens_def)
    then show ?thesis
      using es v fresh by (intro exI [of _ "(k, v) # es"]) auto
  qed
qed

theorem parse_keys_iff:
  "parse_keys read_value i ts = Inr i' \<longleftrightarrow>
   (\<exists>es. ts = block_tokens es \<and> list_all suits es \<and> distinct (map fst es) \<and> i' = fold store es i)"
proof
  assume "parse_keys read_value i ts = Inr i'"
  then show "\<exists>es. ts = block_tokens es \<and> list_all suits es \<and> distinct (map fst es) \<and> i' = fold store es i"
    using loop_sound unfolding parse_keys_def by blast
qed (auto simp: parse_keys_def loop_complete)

end


subsection \<open>The two block parsers keep it\<close>

fun plugin_suits :: "string \<times> key_value \<Rightarrow> bool" where
  "plugin_suits (k, V_Str s) = (k = ''version'' \<or> k = ''description'')"
| "plugin_suits (k, _) = False"

fun plugin_store :: "string \<times> key_value \<Rightarrow> plugin_register \<Rightarrow> plugin_register" where
  "plugin_store (k, V_Str s) i = (if k = ''version'' then i\<lparr>pr_version := Some s\<rparr> else i\<lparr>pr_description := Some s\<rparr>)"
| "plugin_store (k, _) i = i"

interpretation plugin_block: key_block plugin_register_value plugin_suits plugin_store
proof
  show "plugin_suits (k, v) \<Longrightarrow> plugin_register_value k i (value_tokens v @ ts) = Inr (plugin_store (k, v) i, ts)" for k v i ts
    by (cases v) (auto simp: plugin_register_value_def)
next
  fix k i ts i' ts'
  assume "plugin_register_value k i ts = Inr (i', ts')"
  then obtain s where "k = ''version'' \<or> k = ''description''" "parse_str ts = Inr (s, ts')" "i' = plugin_store (k, V_Str s) i"
    by (auto simp: plugin_register_value_def m_bind_Inr split: if_splits)
  then have "plugin_suits (k, V_Str s) \<and> ts = value_tokens (V_Str s) @ ts' \<and> i' = plugin_store (k, V_Str s) i"
    by (auto elim!: parse_str.elims)
  then show "\<exists>v. plugin_suits (k, v) \<and> ts = value_tokens v @ ts' \<and> i' = plugin_store (k, v) i" ..
qed

fun feature_suits :: "string \<times> key_value \<Rightarrow> bool" where
  "feature_suits (k, V_Ident s) = (k = ''identifier'' \<or> k = ''node'')"
| "feature_suits (k, V_Str s) = (k = ''arc_name'')"
| "feature_suits (k, V_Strs ss trailing) = (k = ''runs_before'' \<or> k = ''runs_after'')"
| "feature_suits (k, V_Type s) = (k = ''feature_data_type'')"

fun feature_store :: "string \<times> key_value \<Rightarrow> feature_init \<Rightarrow> feature_init" where
  "feature_store (k, V_Ident s) i = (if k = ''identifier'' then i\<lparr>fi_identifier := Some s\<rparr> else i\<lparr>fi_node := Some s\<rparr>)"
| "feature_store (k, V_Str s) i = i\<lparr>fi_arc_name := Some s\<rparr>"
| "feature_store (k, V_Strs ss trailing) i =
     (if k = ''runs_before'' then i\<lparr>fi_runs_before := ss\<rparr> else i\<lparr>fi_runs_after := ss\<rparr>)"
| "feature_store (k, V_Type s) i = i\<lparr>fi_feature_data_type := Some s\<rparr>"

lemma parse_str_array_sound:
  "parse_str_array ts = Inr (ss, ts') \<Longrightarrow> \<exists>trailing. ts = Bracketed (strs_tokens ss trailing) # ts'"
proof (induction ts rule: parse_str_array.induct)
  case (1 ts rest)
  then show ?case by (auto simp: m_bind_Inr intro: parse_terminated_sound)
qed simp_all

lemma feature_value_sound:
  assumes "feature_init_value k i ts = Inr (i', ts')"
  shows "\<exists>v. feature_suits (k, v) \<and> ts = value_tokens v @ ts' \<and> i' = feature_store (k, v) i"
proof -
  consider (ident) s where "k = ''identifier'' \<or> k = ''node''" "parse_ident ts = Inr (s, ts')" "i' = feature_store (k, V_Ident s) i"
    | (str) s where "k = ''arc_name''" "parse_str ts = Inr (s, ts')" "i' = feature_store (k, V_Str s) i"
    | (strs) ss where "k = ''runs_before'' \<or> k = ''runs_after''" "parse_str_array ts = Inr (ss, ts')"
        "i' = feature_store (k, V_Strs ss False) i"
    | (type) s where "k = ''feature_data_type''" "parse_type ts = Inr (s, ts')" "i' = feature_store (k, V_Type s) i"
    using assms by (auto simp: feature_init_value_def m_bind_Inr split: if_splits)
  then show ?thesis
  proof cases
    case ident
    then show ?thesis by (intro exI [of _ "V_Ident s"]) (auto elim!: parse_ident.elims)
  next
    case str
    then show ?thesis by (intro exI [of _ "V_Str s"]) (auto elim!: parse_str.elims)
  next
    case strs
    obtain trailing where "ts = Bracketed (strs_tokens ss trailing) # ts'"
      using parse_str_array_sound [OF strs(2)] by blast
    then show ?thesis using strs by (intro exI [of _ "V_Strs ss trailing"]) auto
  next
    case type
    then show ?thesis by (intro exI [of _ "V_Type s"]) (auto elim!: parse_type.elims)
  qed
qed

interpretation feature_block: key_block feature_init_value feature_suits feature_store
proof
  show "feature_suits (k, v) \<Longrightarrow> feature_init_value k i (value_tokens v @ ts) = Inr (feature_store (k, v) i, ts)" for k v i ts
    by (cases v) (auto simp: feature_init_value_def parse_terminated_tokens)
qed (rule feature_value_sound)

text \<open>The string, strings or type that a block gives for a key.\<close>

definition key_str :: "(string \<times> key_value) list \<Rightarrow> string \<Rightarrow> string option" where
  "key_str es k =
     (case map_of es k of Some (V_Str s) \<Rightarrow> Some s | Some (V_Ident s) \<Rightarrow> Some s | Some (V_Type s) \<Rightarrow> Some s | _ \<Rightarrow> None)"

definition key_strs :: "(string \<times> key_value) list \<Rightarrow> string \<Rightarrow> string list" where
  "key_strs es k = (case map_of es k of Some (V_Strs ss trailing) \<Rightarrow> ss | _ \<Rightarrow> [])"

definition or_else :: "'a option \<Rightarrow> 'a option \<Rightarrow> 'a option" where
  "or_else a b = (case a of Some x \<Rightarrow> Some x | None \<Rightarrow> b)"

lemma or_else_simps [simp]: "or_else None b = b" "or_else (Some x) b = Some x" "or_else a None = a"
  by (auto simp: or_else_def split: option.splits)

lemma map_of_fresh: "k \<notin> fst ` set es \<Longrightarrow> map_of es k = None"
  by (simp add: map_of_eq_None_iff)

lemma plugin_store_fold:
  "list_all plugin_suits es \<Longrightarrow> distinct (map fst es) \<Longrightarrow>
   fold plugin_store es i =
     \<lparr>pr_version = or_else (key_str es ''version'') (pr_version i),
      pr_description = or_else (key_str es ''description'') (pr_description i)\<rparr>"
proof (induction es arbitrary: i)
  case (Cons e es)
  obtain k v where e: "e = (k, v)" by (cases e)
  with Cons.prems obtain s where v: "v = V_Str s" and k: "k = ''version'' \<or> k = ''description''"
    by (cases v) auto
  have "map_of es k = None" using Cons.prems by (auto simp: e intro: map_of_fresh)
  then show ?case
    using k Cons.prems by (auto simp: Cons.IH e v key_str_def)
qed (simp add: key_str_def)

lemma feature_store_fold:
  "list_all feature_suits es \<Longrightarrow> distinct (map fst es) \<Longrightarrow>
   fold feature_store es i =
     \<lparr>fi_identifier = or_else (key_str es ''identifier'') (fi_identifier i),
      fi_arc_name = or_else (key_str es ''arc_name'') (fi_arc_name i),
      fi_node = or_else (key_str es ''node'') (fi_node i),
      fi_runs_before = (if ''runs_before'' \<in> fst ` set es then key_strs es ''runs_before'' else fi_runs_before i),
      fi_runs_after = (if ''runs_after'' \<in> fst ` set es then key_strs es ''runs_after'' else fi_runs_after i),
      fi_feature_data_type = or_else (key_str es ''feature_data_type'') (fi_feature_data_type i)\<rparr>"
proof (induction es arbitrary: i)
  case (Cons e es)
  obtain k v where e: "e = (k, v)" by (cases e)
  have "map_of es k = None" "k \<notin> fst ` set es" using Cons.prems by (auto simp: e intro: map_of_fresh)
  then show ?case
    using Cons.prems by (cases v) (auto simp: Cons.IH e key_str_def key_strs_def)
qed (simp add: key_str_def)


section \<open>What the macros accept and generate\<close>

lemma required_Inr [simp]: "required what v = Inr x \<longleftrightarrow> v = Some x"
  by (auto simp: required_def split: option.splits)

lemma runs_absent: "k \<notin> fst ` set es \<Longrightarrow> key_strs es k = []"
  by (simp add: key_strs_def map_of_fresh)

lemma plugin_register_parse_iff:
  "plugin_register_parse ts = Inr i \<longleftrightarrow>
   (\<exists>es. ts = block_tokens es \<and> list_all plugin_suits es \<and> distinct (map fst es) \<and>
         i = \<lparr>pr_version = key_str es ''version'', pr_description = key_str es ''description''\<rparr>)"
  unfolding plugin_register_parse_def plugin_block.parse_keys_iff by (auto simp: plugin_store_fold)

text \<open>
  C19: \<open>vlib_plugin_register!\<close> accepts exactly the blocks of distinct keys \<open>version\<close> and \<open>description\<close>, in any
  order, whose version is given and is at most 63 bytes long.  The registration it generates then holds the
  version in a field of 64 bytes, padded with zeroes so that at least one ends it, and the description as a
  C string when there is one.
\<close>

theorem plugin_register_exact:
  "vlib_plugin_register ts = Inr reg \<longleftrightarrow>
   (\<exists>es version. ts = block_tokens es \<and> list_all plugin_suits es \<and> distinct (map fst es) \<and>
      key_str es ''version'' = Some version \<and> length version \<le> 63 \<and>
      reg = \<lparr>reg_version = version @ replicate (64 - length version) NUL,
             reg_description = map_option c_str (key_str es ''description'')\<rparr>)"
proof -
  have "vlib_plugin_register ts = Inr reg \<longleftrightarrow>
     (\<exists>i version. plugin_register_parse ts = Inr i \<and> pr_version i = Some version \<and> length version \<le> 63 \<and>
        reg = \<lparr>reg_version = version @ replicate (64 - length version) NUL,
               reg_description = map_option c_str (pr_description i)\<rparr>)"
    by (auto simp: vlib_plugin_register_def m_bind_Inr split: option.splits if_splits)
  then show ?thesis
    unfolding plugin_register_parse_iff by auto
qed

lemma feature_init_parse_iff:
  "feature_init_parse ts = Inr i \<longleftrightarrow>
   (\<exists>es. ts = block_tokens es \<and> list_all feature_suits es \<and> distinct (map fst es) \<and>
         i = \<lparr>fi_identifier = key_str es ''identifier'', fi_arc_name = key_str es ''arc_name'', fi_node = key_str es ''node'',
              fi_runs_before = key_strs es ''runs_before'', fi_runs_after = key_strs es ''runs_after'',
              fi_feature_data_type = key_str es ''feature_data_type''\<rparr>)"
  unfolding feature_init_parse_def feature_block.parse_keys_iff
  by (rule ex_cong1) (auto simp: feature_store_fold no_feature_def runs_absent)

text \<open>
  \<open>vnet_feature_init!\<close> accepts exactly the blocks of distinct known keys, each with a value of its kind, in
  which \<open>identifier\<close>, \<open>arc_name\<close> and \<open>node\<close> are given.  The registration it generates belongs to that
  identifier, node and arc; its orderings are null when there are none, and end in a null pointer otherwise.
\<close>

theorem feature_init_exact:
  "vnet_feature_init ts = Inr items \<longleftrightarrow>
   (\<exists>es ident arc node. ts = block_tokens es \<and> list_all feature_suits es \<and> distinct (map fst es) \<and>
      key_str es ''identifier'' = Some ident \<and> key_str es ''arc_name'' = Some arc \<and> key_str es ''node'' = Some node \<and>
      items = \<lparr>ft_ident = ident,
               ft_ctor_fn = ''__vnet_add_feature_registration_'' @ ident,
               ft_dtor_fn = ''__vnet_rm_feature_registration_'' @ ident,
               ft_data_type = (case key_str es ''feature_data_type'' of Some t \<Rightarrow> t | None \<Rightarrow> ''()''),
               ft_arc_name = c_str arc,
               ft_runs_before = c_str_array (key_strs es ''runs_before''),
               ft_runs_after = c_str_array (key_strs es ''runs_after''),
               ft_node_registration = node @ ''_NODE_REGISTRATION''\<rparr>)"
proof -
  have "vnet_feature_init ts = Inr items \<longleftrightarrow>
     (\<exists>i ident arc node. feature_init_parse ts = Inr i \<and>
        fi_identifier i = Some ident \<and> fi_arc_name i = Some arc \<and> fi_node i = Some node \<and>
        items = \<lparr>ft_ident = ident,
               ft_ctor_fn = ''__vnet_add_feature_registration_'' @ ident,
               ft_dtor_fn = ''__vnet_rm_feature_registration_'' @ ident,
               ft_data_type = (case fi_feature_data_type i of Some t \<Rightarrow> t | None \<Rightarrow> ''()''),
               ft_arc_name = c_str arc,
               ft_runs_before = c_str_array (fi_runs_before i),
               ft_runs_after = c_str_array (fi_runs_after i),
               ft_node_registration = node @ ''_NODE_REGISTRATION''\<rparr>)"
    by (auto simp: vnet_feature_init_def m_bind_Inr)
  then show ?thesis
    unfolding feature_init_parse_iff by auto
qed

subsection \<open>Tables\<close>

text \<open>The C string that starts at a pointer.\<close>

definition c_read :: "string \<Rightarrow> string" where
  "c_read s = takeWhile (\<lambda>c. c \<noteq> NUL) s"

lemma c_read_c_str: "NUL \<notin> set s \<Longrightarrow> c_read (c_str s) = s"
  by (induction s) (auto simp: c_read_def c_str_def)

lemma for_variants_Inr: "for_variants f vs = Inr xs \<longleftrightarrow> list_all2 (\<lambda>v x. f v = Inr x) vs xs"
proof (induction vs arbitrary: xs)
  case (Cons v vs)
  then show ?case by (cases xs) (auto simp: m_bind_Inr)
qed auto

definition variants :: "derive_input \<Rightarrow> syn_variant list" where
  "variants input = (case di_data input of Enum vs \<Rightarrow> vs | _ \<Rightarrow> [])"

text \<open>The attribute \<open>#[next_node = "name"]\<close> of a variant.\<close>

definition next_node_attr :: "syn_variant \<Rightarrow> string option" where
  "next_node_attr v =
     (case find (\<lambda>a. attr_path a = ''next_node'') (ev_attrs v) of
        Some a \<Rightarrow> (case attr_meta a of Meta_Name_Value (Lit_Str s) \<Rightarrow> Some s | _ \<Rightarrow> None)
      | None \<Rightarrow> None)"

lemma next_node_name_Inr:
  "next_node_name v = Inr s \<longleftrightarrow>
   \<not> ev_discriminant v \<and> ev_fields v = Unit \<and> (\<exists>name. next_node_attr v = Some name \<and> s = c_str name)"
  by (auto simp: next_node_name_def check_variant_def find_attr_def next_node_attr_def m_bind_Inr
      split: option.splits attr_meta.splits attr_expr.splits)

lemma derive_next_nodes_Inr:
  "derive_next_nodes input = Inr t \<Longrightarrow>
   ti_len t = length (variants input) \<and> list_all2 (\<lambda>v s. next_node_name v = Inr s) (variants input) (ti_table t)"
  by (auto simp: derive_next_nodes_def variants_def m_bind_Inr for_variants_Inr split: input_data.splits)

lemma into_u16_cast_id: "i < n \<Longrightarrow> n \<le> 2 ^ 16 \<Longrightarrow> into_u16_cast i = i"
  by (simp add: into_u16_cast_def)

text \<open>
  the table that \<open>derive(NextNodes)\<close> generates has an entry for every variant, and the number that a variant
  is converted to selects, in the table handed to VPP, the C string of the node that the variant names.
\<close>

theorem next_nodes_dispatch:
  assumes "derive_next_nodes input = Inr t" "i < length (variants input)" "length (variants input) \<le> 2 ^ 16"
    and "list_all (\<lambda>v. NUL \<notin> set (case next_node_attr v of Some s \<Rightarrow> s | None \<Rightarrow> [])) (variants input)"
  shows "ti_len t = length (ti_table t) \<and> into_u16_cast i < ti_len t \<and>
    next_node_attr (variants input ! i) = Some (c_read (ti_table t ! into_u16_cast i))"
proof -
  have l: "ti_len t = length (variants input)"
    and t: "list_all2 (\<lambda>v s. next_node_name v = Inr s) (variants input) (ti_table t)"
    using derive_next_nodes_Inr [OF assms(1)] by auto
  from t assms(2) have "next_node_name (variants input ! i) = Inr (ti_table t ! i)"
    by (rule list_all2_nthD)
  then obtain name where "next_node_attr (variants input ! i) = Some name" "ti_table t ! i = c_str name"
    by (auto simp: next_node_name_Inr)
  moreover from this have "NUL \<notin> set name"
    using assms(2,4) by (auto simp: list_all_length)
  ultimately show ?thesis
    using l list_all2_lengthD [OF t] assms(2,3) by (simp add: into_u16_cast_id c_read_c_str)
qed

text \<open>An enum of two next nodes.\<close>

definition example_next_nodes :: derive_input where
  "example_next_nodes =
     \<lparr>di_ident = ''Next'',
      di_data = Enum
        [\<lparr>ev_ident = ''Drop'', ev_attrs = [\<lparr>attr_path = ''next_node'', attr_meta = Meta_Name_Value (Lit_Str ''drop'')\<rparr>],
          ev_fields = Unit, ev_discriminant = False\<rparr>,
         \<lparr>ev_ident = ''Lookup'', ev_attrs = [\<lparr>attr_path = ''doc'', attr_meta = Meta_Name_Value Lit_Other\<rparr>,
             \<lparr>attr_path = ''next_node'', attr_meta = Meta_Name_Value (Lit_Str ''ip4-lookup'')\<rparr>],
          ev_fields = Unit, ev_discriminant = False\<rparr>]\<rparr>"

lemma next_nodes_dispatch_witness:
  "next_node_attr (variants example_next_nodes ! 1) =
     Some (c_read ([c_str ''drop'', c_str ''ip4-lookup''] ! into_u16_cast 1))"
proof -
  let ?t = "\<lparr>ti_ident = ''Next'', ti_len = 2, ti_table = [c_str ''drop'', c_str ''ip4-lookup'']\<rparr>"
  have "derive_next_nodes example_next_nodes = Inr ?t" by code_simp
  moreover have "1 < length (variants example_next_nodes)" "length (variants example_next_nodes) \<le> 2 ^ 16"
    by (simp_all add: example_next_nodes_def variants_def)
  moreover have "list_all (\<lambda>v. NUL \<notin> set (case next_node_attr v of Some s \<Rightarrow> s | None \<Rightarrow> [])) (variants example_next_nodes)"
    by code_simp
  ultimately show ?thesis
    using next_nodes_dispatch [of example_next_nodes ?t 1] by simp
qed


subsection \<open>Error counters\<close>

text \<open>How the attribute of an error counter is written.\<close>

definition counter_tokens :: "error_counter_attribute \<Rightarrow> token list" where
  "counter_tokens a =
     (case ec_name a of Some n \<Rightarrow> [Ident ''name'', Punct (CHR ''=''), Str_Lit n, Punct (CHR '','')] | None \<Rightarrow> []) @
     [Ident ''description'', Punct (CHR ''=''), Str_Lit (ec_description a), Punct (CHR '',''),
      Ident ''severity'', Punct (CHR ''=''), Ident (ec_severity a)]"

lemma parse_ident_Inr: "parse_ident ts = Inr (s, ts') \<longleftrightarrow> ts = Ident s # ts'"
  by (cases ts rule: parse_ident.cases) auto

lemma parse_str_Inr: "parse_str ts = Inr (s, ts') \<longleftrightarrow> ts = Str_Lit s # ts'"
  by (cases ts rule: parse_str.cases) auto

lemma parse_punct_Inr: "parse_punct c ts = Inr ts' \<longleftrightarrow> ts = Punct c # ts'"
proof (cases ts)
  case (Cons t us)
  then show ?thesis by (cases t) auto
qed simp

lemma parse_error_counter_complete:
  "ec_severity a \<in> set VALID_SEVERITIES \<Longrightarrow> parse_error_counter (counter_tokens a @ ts) = Inr (a, ts)"
  by (cases "ec_name a") (simp_all add: parse_error_counter_def counter_tokens_def)

lemma parse_error_counter_sound:
  assumes "parse_error_counter ts = Inr (a, ts')"
  shows "ts = counter_tokens a @ ts' \<and> ec_severity a \<in> set VALID_SEVERITIES"
proof -
  obtain kw ts1 name kw2 ts2 where head: "parse_ident ts = Inr (kw, ts1)"
      "(if kw = ''name''
        then m_bind (parse_punct (CHR ''='') ts1) (\<lambda>ts.
             m_bind (parse_str ts) (\<lambda>(name, ts).
             m_bind (parse_punct (CHR '','') ts) (\<lambda>ts.
             m_bind (parse_ident ts) (\<lambda>(kw, ts). Inr (Some name, kw, ts)))))
        else Inr (None, kw, ts1)) = Inr (name, kw2, ts2)"
    and rest: "kw2 = ''description''"
      "m_bind (parse_punct (CHR ''='') ts2) (\<lambda>ts.
       m_bind (parse_str ts) (\<lambda>(description, ts).
       m_bind (parse_punct (CHR '','') ts) (\<lambda>ts.
       m_bind (parse_ident ts) (\<lambda>(severity_kw, ts).
       if severity_kw \<noteq> ''severity'' then Inl (Compile_Error (Expected ''severity'')) else
       m_bind (parse_punct (CHR ''='') ts) (\<lambda>ts.
       m_bind (parse_ident ts) (\<lambda>(severity, ts).
       if severity \<notin> set VALID_SEVERITIES then Inl (Compile_Error (Unsupported severity))
       else Inr (\<lparr>ec_name = name, ec_description = description, ec_severity = severity\<rparr>, ts))))))) = Inr (a, ts')"
    using assms unfolding parse_error_counter_def by (auto simp: m_bind_Inr split: if_splits)
  have "ts = (case name of Some n \<Rightarrow> [Ident ''name'', Punct (CHR ''=''), Str_Lit n, Punct (CHR '','')] | None \<Rightarrow> []) @
      Ident kw2 # ts2"
    using head by (auto simp: m_bind_Inr parse_ident_Inr parse_str_Inr parse_punct_Inr split: if_splits)
  moreover have "ts2 = Punct (CHR ''='') # Str_Lit (ec_description a) # Punct (CHR '','') # Ident ''severity'' #
      Punct (CHR ''='') # Ident (ec_severity a) # ts' \<and> ec_name a = name \<and> ec_severity a \<in> set VALID_SEVERITIES"
    using rest(2) by (auto simp: m_bind_Inr parse_ident_Inr parse_str_Inr parse_punct_Inr split: if_splits)
  ultimately show ?thesis
    using rest(1) by (auto simp: counter_tokens_def)
qed

lemma parse2_error_counter:
  "parse2 parse_error_counter ts = Inr a \<longleftrightarrow> ts = counter_tokens a \<and> ec_severity a \<in> set VALID_SEVERITIES"
  using parse_error_counter_complete [of a "[]"] parse_error_counter_sound
  by (fastforce simp: parse2_def m_bind_Inr split: if_splits)

definition error_counter_attr :: "syn_variant \<Rightarrow> token list option" where
  "error_counter_attr v =
     (case find (\<lambda>a. attr_path a = ''error_counter'') (ev_attrs v) of
        Some a \<Rightarrow> (case attr_meta a of Meta_List ts \<Rightarrow> Some ts | _ \<Rightarrow> None)
      | None \<Rightarrow> None)"

definition counter_desc :: "syn_variant \<Rightarrow> error_counter_attribute \<Rightarrow> error_desc" where
  "counter_desc v a =
     \<lparr>ed_name = c_str (case ec_name a of Some n \<Rightarrow> n | None \<Rightarrow> ev_ident v),
      ed_desc = c_str (ec_description a),
      ed_severity = ''vl_counter_severity_e_VL_COUNTER_SEVERITY_'' @ ec_severity a\<rparr>"

text \<open>A unit variant without a discriminant whose attribute is \<open>a\<close>.\<close>

definition declares :: "syn_variant \<Rightarrow> error_counter_attribute \<Rightarrow> bool" where
  "declares v a \<longleftrightarrow> \<not> ev_discriminant v \<and> ev_fields v = Unit \<and> error_counter_attr v = Some (counter_tokens a) \<and>
     ec_severity a \<in> set VALID_SEVERITIES"

lemma error_counter_desc_Inr: "error_counter_desc v = Inr d \<longleftrightarrow> (\<exists>a. declares v a \<and> d = counter_desc v a)"
  by (auto simp: error_counter_desc_def check_variant_def find_attr_def error_counter_attr_def declares_def counter_desc_def
      m_bind_Inr parse2_error_counter split: option.splits attr_meta.splits)

lemma list_all2_counter:
  "list_all2 (\<lambda>v d. \<exists>a. declares v a \<and> d = counter_desc v a) vs ds \<longleftrightarrow>
   (\<exists>as. list_all2 declares vs as \<and> ds = map2 counter_desc vs as)"
proof
  show "list_all2 (\<lambda>v d. \<exists>a. declares v a \<and> d = counter_desc v a) vs ds \<Longrightarrow>
      \<exists>as. list_all2 declares vs as \<and> ds = map2 counter_desc vs as"
  proof (induction rule: list_all2_induct)
    case (Cons v vs d ds)
    then obtain a as where "declares v a" "d = counter_desc v a" "list_all2 declares vs as" "ds = map2 counter_desc vs as"
      by blast
    then show ?case by (intro exI [of _ "a # as"]) simp
  qed simp
next
  assume "\<exists>as. list_all2 declares vs as \<and> ds = map2 counter_desc vs as"
  then obtain as where a: "list_all2 declares vs as" and ds: "ds = map2 counter_desc vs as" by blast
  from a show "list_all2 (\<lambda>v d. \<exists>a. declares v a \<and> d = counter_desc v a) vs ds"
    unfolding ds by (induction rule: list_all2_induct) auto
qed

text \<open>
  \<open>derive(ErrorCounters)\<close> accepts exactly the enums of unit variants without discriminants that each carry
  \<open>#[error_counter(name = ..., description = ..., severity = ...)]\<close>, in this order, \<open>name\<close> left out or not, with a
  severity among the four it documents; the table has one entry for each variant in order, named after the
  variant when the attribute gives no name.
\<close>

theorem error_counters_exact:
  "derive_error_counters input = Inr t \<longleftrightarrow>
   (\<exists>vs as. di_data input = Enum vs \<and> list_all2 declares vs as \<and>
      t = \<lparr>ti_ident = di_ident input, ti_len = length vs, ti_table = map2 counter_desc vs as\<rparr>)"
  by (auto simp: derive_error_counters_def m_bind_Inr for_variants_Inr error_counter_desc_Inr list_all2_counter
      split: input_data.splits)

text \<open>
  of the severities that \<open>derive(ErrorCounters)\<close> documents and accepts, only \<open>INFO\<close> and \<open>ERROR\<close> are expanded to a
  constant that the bindings have; for \<open>WARNING\<close> and \<open>CRITICAL\<close> the generated code does not compile.
\<close>

theorem severity_gap:
  "error_counter_desc v = Inr d \<Longrightarrow>
   (\<exists>a. declares v a \<and> d = counter_desc v a \<and>
     (ed_severity d \<in> set severity_constants \<longleftrightarrow> ec_severity a = ''INFO'' \<or> ec_severity a = ''ERROR''))"
  by (auto simp: error_counter_desc_Inr declares_def VALID_SEVERITIES_def counter_desc_def severity_constants_def)

lemma severity_gap_witness:
  "\<exists>a. ec_severity a = ''CRITICAL'' \<and>
     ed_severity (counter_desc \<lparr>ev_ident = ''Drop'',
       ev_attrs = [\<lparr>attr_path = ''error_counter'', attr_meta = Meta_List (counter_tokens a)\<rparr>],
       ev_fields = Unit, ev_discriminant = False\<rparr> a) \<notin> set severity_constants"
proof -
  let ?a = "\<lparr>ec_name = None, ec_description = ''Drops'', ec_severity = ''CRITICAL''\<rparr>"
  let ?v = "\<lparr>ev_ident = ''Drop'', ev_attrs = [\<lparr>attr_path = ''error_counter'', attr_meta = Meta_List (counter_tokens ?a)\<rparr>],
    ev_fields = Unit, ev_discriminant = False\<rparr>"
  have d: "error_counter_desc ?v = Inr (counter_desc ?v ?a)"
    unfolding error_counter_desc_Inr by (intro exI [of _ ?a]) (simp add: declares_def error_counter_attr_def VALID_SEVERITIES_def)
  obtain a where a: "declares ?v a" "counter_desc ?v ?a = counter_desc ?v a"
      "ed_severity (counter_desc ?v ?a) \<in> set severity_constants \<longleftrightarrow> ec_severity a = ''INFO'' \<or> ec_severity a = ''ERROR''"
    using severity_gap [OF d] by blast
  have "ec_severity a = ''CRITICAL''"
    using a(2) by (simp add: counter_desc_def)
  then have "ed_severity (counter_desc ?v ?a) \<notin> set severity_constants"
    using a(3) by simp
  then show ?thesis by (intro exI [of _ ?a]) simp
qed


subsection \<open>Nodes\<close>

lemma const_size_Inr: "const_size bits max_align t = Inr n \<longleftrightarrow> fst t \<le> 2 ^ bits - 1 \<and> snd t \<le> max_align \<and> n = fst t mod 2 ^ bits"
  by (auto simp: const_size_def split: prod.splits)

lemma const_size_exact: "const_size bits max_align t = Inr n \<Longrightarrow> n = fst t \<and> snd t \<le> max_align"
proof -
  assume "const_size bits max_align t = Inr n"
  then have "fst t \<le> 2 ^ bits - 1" "snd t \<le> max_align" "n = fst t mod 2 ^ bits"
    by (simp_all add: const_size_Inr)
  moreover from this have "fst t < 2 ^ bits"
    by (metis One_nat_def Suc_pred less_Suc_eq_le zero_less_numeral zero_less_power)
  ultimately show ?thesis by simp
qed

lemma runtime_data_ptr_Inr: "runtime_data_ptr d t = Inr p \<longleftrightarrow> p = d \<and> (d = None \<longrightarrow> fst t = 0)"
  by (auto simp: runtime_data_ptr_def split: option.splits)

lemma vlib_node_Inr:
  "vlib_node T attributes it = Inr items \<Longrightarrow>
   \<exists>a ident. it = Item_Struct ident \<and>
     parse_attrs node_value \<lparr>na_name = None, na_instance = None, na_runtime_data_default = None, na_format_trace = None\<rparr>
       attributes = Inr a \<and>
     na_name a = Some (butlast (no_name items)) \<and> na_instance a = Some (no_instance items) \<and>
     no_runtime_data items = na_runtime_data_default a \<and> (na_runtime_data_default a = None \<longrightarrow> fst (nt_runtime_data T) = 0) \<and>
     const_size 8 RUNTIME_DATA_ALIGN (nt_runtime_data T) = Inr (no_runtime_data_bytes items) \<and>
     const_size 8 FRAME_DATA_ALIGN (nt_vector T) = Inr (no_vector_size items) \<and>
     const_size 8 FRAME_DATA_ALIGN (nt_aux T) = Inr (no_aux_size items) \<and>
     const_size 16 FRAME_DATA_ALIGN (nt_scalar T) = Inr (no_scalar_size items) \<and>
     no_function items = None \<and> no_march items = map (march_item ident) CPU_MARCH_TO_CPU_AND_TARGET_FEATURE"
  by (cases it) (auto simp: vlib_node_def m_bind_Inr runtime_data_ptr_Inr c_str_def)

text \<open>
  C36: when \<open>#[vlib_node]\<close> compiles, the sizes of the registration are those of the types of the node, not cut off by
  their casts to 8 and 16 bits, their alignments are within what VPP gives, and the runtime data is a null
  pointer only for a type without data.
\<close>

theorem node_sizes_exact:
  assumes "vlib_node T attributes it = Inr items"
  shows "no_runtime_data_bytes items = fst (nt_runtime_data T) \<and> snd (nt_runtime_data T) \<le> RUNTIME_DATA_ALIGN \<and>
    no_vector_size items = fst (nt_vector T) \<and> snd (nt_vector T) \<le> FRAME_DATA_ALIGN \<and>
    no_aux_size items = fst (nt_aux T) \<and> snd (nt_aux T) \<le> FRAME_DATA_ALIGN \<and>
    no_scalar_size items = fst (nt_scalar T) \<and> snd (nt_scalar T) \<le> FRAME_DATA_ALIGN \<and>
    (if no_runtime_data items = None then no_runtime_data_bytes items = 0 else True)"
  using vlib_node_Inr [OF assms] by (auto dest!: const_size_exact)

definition example_types :: node_types where
  "example_types = \<lparr>nt_runtime_data = (16, 8), nt_vector = (4, 4), nt_aux = (0, 1), nt_scalar = (0, 1), nt_n_errors = 1,
     nt_n_next_nodes = 2\<rparr>"

definition example_attrs :: "token list" where
  "example_attrs =
     [Ident ''name'', Punct (CHR ''=''), Str_Lit ''example'', Punct (CHR '',''),
      Ident ''instance'', Punct (CHR ''=''), Ident ''EXAMPLE_NODE'', Punct (CHR '',''),
      Ident ''runtime_data_default'', Punct (CHR ''=''), Ident ''DATA'', Punct (CHR '','')]"

lemma example_node_ok: "\<exists>items. vlib_node example_types example_attrs (Item_Struct ''ExampleNode'') = Inr items"
  by (simp add: vlib_node_def example_attrs_def example_types_def parse_attrs_def node_value_def attr_value_def required_def
      runtime_data_ptr_def const_size_def RUNTIME_DATA_ALIGN_def FRAME_DATA_ALIGN_def)

lemma node_sizes_exact_witness:
  "\<exists>items. vlib_node example_types example_attrs (Item_Struct ''ExampleNode'') = Inr items \<and>
     no_runtime_data_bytes items = 16 \<and> no_vector_size items = 4"
proof -
  obtain items where i: "vlib_node example_types example_attrs (Item_Struct ''ExampleNode'') = Inr items"
    using example_node_ok by blast
  show ?thesis
    using i node_sizes_exact [OF i] by (simp add: example_types_def)
qed

text \<open>The node functions compiled for an architecture that need no target feature.\<close>

definition baselines :: "string \<Rightarrow> node_items \<Rightarrow> march_items list" where
  "baselines arch items = filter (\<lambda>m. mi_target_arch m = Some arch \<and> mi_target_feature m = None) (no_march items)"

text \<open>
  a node registers no function of its own, only the processor variants.  On \<open>x86_64\<close> exactly one of them, the
  scalar one, runs on every processor; on any other architecture, \<open>aarch64\<close> included, none does, so a processor
  without the listed features has no function for the node.
\<close>

theorem node_baseline_function:
  assumes "vlib_node T attributes it = Inr items"
  shows "no_function items = None \<and> length (baselines arch items) = (if arch = ''x86_64'' then 1 else 0)"
proof -
  obtain ident where f: "no_function items = None"
    and m: "no_march items = map (march_item ident) CPU_MARCH_TO_CPU_AND_TARGET_FEATURE"
    using vlib_node_Inr [OF assms] by blast
  show ?thesis
    unfolding baselines_def m by (auto simp: f march_item_def CPU_MARCH_TO_CPU_AND_TARGET_FEATURE_def)
qed

lemma node_baseline_function_witness:
  "\<exists>items. vlib_node example_types example_attrs (Item_Struct ''ExampleNode'') = Inr items \<and>
     no_function items = None \<and> baselines ''aarch64'' items = []"
proof -
  obtain items where i: "vlib_node example_types example_attrs (Item_Struct ''ExampleNode'') = Inr items"
    using example_node_ok by blast
  show ?thesis
    using i node_baseline_function [OF i, of "''aarch64''"] by simp
qed

end
