(* ===== verification/Vpp_Error.thy ===== *)
theory Vpp_Error
  imports Vpp_Vec Rust_Str
begin

text \<open>
  Errors as a stack of messages (\<open>vpp-plugin/src/vppinfra/error.rs\<close>), network errors
  (\<open>vnet/error.rs\<close>) and the lines of CLI input (\<open>vppinfra/unformat.rs\<close>).  Texts are lists of bytes.
  The functions of the C library that format an error are parameters with their documented behaviour.
\<close>

section \<open>UTF-8\<close>

definition byte_in :: "nat \<Rightarrow> nat \<Rightarrow> string \<Rightarrow> nat \<Rightarrow> bool" where
  "byte_in lo hi cs i \<longleftrightarrow> i < length cs \<and> lo \<le> (of_char (cs ! i) :: nat) \<and> of_char (cs ! i) \<le> hi"

text \<open>How many bytes a character has by its first byte, and what its second byte may be.\<close>

definition utf8_width :: "nat \<Rightarrow> nat" where
  "utf8_width b = (if b < 128 then 1 else if 194 \<le> b \<and> b \<le> 223 then 2 else if 224 \<le> b \<and> b \<le> 239 then 3
     else if 240 \<le> b \<and> b \<le> 244 then 4 else 0)"

definition utf8_second :: "nat \<Rightarrow> nat \<times> nat" where
  "utf8_second b = (if b = 224 then (160, 191) else if b = 237 then (128, 159)
     else if b = 240 then (144, 191) else if b = 244 then (128, 143) else (128, 191))"

text \<open>Whether a list that is not empty starts with a character, and the length of it or of the invalid part.\<close>

definition utf8_step :: "string \<Rightarrow> bool \<times> nat" where
  "utf8_step cs =
     (let b = of_char (hd cs); w = utf8_width b; (lo, hi) = utf8_second b in
      if w = 1 then (True, 1)
      else if w = 0 \<or> \<not> byte_in lo hi cs 1 then (False, 1)
      else if w = 2 then (True, 2)
      else if \<not> byte_in 128 191 cs 2 then (False, 2)
      else if w = 3 then (True, 3)
      else if \<not> byte_in 128 191 cs 3 then (False, 3)
      else (True, 4))"

lemma utf8_step_pos: "0 < snd (utf8_step cs)"
  by (simp add: utf8_step_def Let_def split: prod.split)

function utf8_valid :: "string \<Rightarrow> bool" where
  "utf8_valid [] = True"
| "utf8_valid (c # cs) = (fst (utf8_step (c # cs)) \<and> utf8_valid (drop (snd (utf8_step (c # cs))) (c # cs)))"
  by pat_completeness auto
termination by (relation "measure length") (use utf8_step_pos in auto)

text \<open>The replacement character.\<close>

definition REPLACEMENT :: string where
  "REPLACEMENT = [char_of (239 :: nat), char_of (191 :: nat), char_of (189 :: nat)]"

function from_utf8_lossy :: "string \<Rightarrow> string" where
  "from_utf8_lossy [] = []"
| "from_utf8_lossy (c # cs) =
     (let (ok, n) = utf8_step (c # cs) in
      (if ok then take n (c # cs) else REPLACEMENT) @ from_utf8_lossy (drop n (c # cs)))"
  by pat_completeness auto
termination
proof (relation "measure length")
  show "((drop n (c # cs), c # cs) :: string \<times> string) \<in> measure length" if "p = utf8_step (c # cs)" "(ok, n) = p" for c cs p ok n
    using utf8_step_pos [of "c # cs"] that by (metis in_measure length_drop diff_less length_greater_0_conv list.discI snd_conv)
qed simp

section \<open>Errors\<close>

definition CLIB_ERROR_ERRNO_VALID :: nat where
  "CLIB_ERROR_ERRNO_VALID = 65536"

record clib_error =
  er_what :: "nat option"
  er_where :: "string option"
  er_code :: int
  er_flags :: nat

text \<open>The memory of the vectors: those of bytes and those of errors, by address.\<close>

record err_heap =
  eh_bytes :: "nat \<rightharpoonup> string"
  eh_stacks :: "nat \<rightharpoonup> clib_error list"

text \<open>
  The C library: \<open>_clib_error_return\<close> with the stack to extend, code, flags, place and a format without
  further arguments; \<open>vnet_error\<close> with a code, a format and its arguments.
\<close>

record error_lib =
  clib_error_return :: "nat option \<Rightarrow> int \<Rightarrow> nat \<Rightarrow> string option \<Rightarrow> string \<Rightarrow> err_heap \<Rightarrow> fault + nat \<times> err_heap"
  vnet_error :: "int \<Rightarrow> string \<Rightarrow> string list \<Rightarrow> err_heap \<Rightarrow> fault + nat \<times> err_heap"
  vnet_error_text :: "int \<Rightarrow> string \<Rightarrow> string"

definition error_fmt :: "err_heap \<Rightarrow> clib_error \<Rightarrow> fault + string" where
  "error_fmt h e =
     (case er_what e of
        None \<Rightarrow> Inr ''<none>''
      | Some p \<Rightarrow>
          (case eh_bytes h p of
             None \<Rightarrow> Inl Undefined_Behaviour
           | Some v \<Rightarrow> Inr ((case er_where e of None \<Rightarrow> [] | Some w \<Rightarrow> from_utf8_lossy w @ '': '') @
               (if utf8_valid v then v else ''<invalid>''))))"

text \<open>An \<open>ErrorStack\<close> is the address of its vector.\<close>

definition stack_errors :: "nat \<Rightarrow> err_heap \<Rightarrow> fault + clib_error list" where
  "stack_errors s h = (case eh_stacks h s of None \<Rightarrow> Inl Undefined_Behaviour | Some es \<Rightarrow> Inr es)"

definition new_internal :: "error_lib \<Rightarrow> nat option \<Rightarrow> string \<Rightarrow> int option \<Rightarrow> err_heap \<Rightarrow> fault + nat \<times> err_heap" where
  "new_internal L errors what code h =
     (if CHR 0x00 \<in> set what then Inl Panic
      else clib_error_return L errors (case code of None \<Rightarrow> 0 | Some c \<Rightarrow> c)
        (if code \<noteq> None then CLIB_ERROR_ERRNO_VALID else 0) None what h)"

definition stack_msg :: "error_lib \<Rightarrow> string \<Rightarrow> err_heap \<Rightarrow> fault + nat \<times> err_heap" where
  "stack_msg L msg h = new_internal L None msg None h"

text \<open>\<open>new\<close> takes the text of an error of Rust.\<close>

definition stack_new :: "error_lib \<Rightarrow> string \<Rightarrow> err_heap \<Rightarrow> fault + nat \<times> err_heap" where
  "stack_new L e h = new_internal L None e None h"

definition stack_context :: "error_lib \<Rightarrow> nat \<Rightarrow> string \<Rightarrow> err_heap \<Rightarrow> fault + nat \<times> err_heap" where
  "stack_context L s ctxt h = new_internal L (Some s) ctxt None h"

definition free_bytes :: "nat \<Rightarrow> err_heap \<Rightarrow> fault + err_heap" where
  "free_bytes p h = (if p \<in> dom (eh_bytes h) then Inr (h\<lparr>eh_bytes := (eh_bytes h)(p := None)\<rparr>) else Inl Undefined_Behaviour)"

fun free_whats :: "clib_error list \<Rightarrow> err_heap \<Rightarrow> fault + err_heap" where
  "free_whats [] h = Inr h"
| "free_whats (e # es) h =
     (case er_what e of
        None \<Rightarrow> free_whats es h
      | Some p \<Rightarrow> try_bind (free_bytes p h) (free_whats es))"

text \<open>Dropping the stack also drops the vector.\<close>

definition stack_drop :: "nat \<Rightarrow> err_heap \<Rightarrow> fault + err_heap" where
  "stack_drop s h =
     try_bind (stack_errors s h) (\<lambda>es.
     try_bind (free_whats es h) (\<lambda>h. Inr (h\<lparr>eh_stacks := (eh_stacks h)(s := None)\<rparr>)))"

definition indented :: "string \<Rightarrow> string" where
  "indented t = ''\<newline>'' @ ''    '' @ t"

fun fmt_causes :: "err_heap \<Rightarrow> clib_error list \<Rightarrow> fault + string" where
  "fmt_causes h [] = Inr []"
| "fmt_causes h (e # es) =
     try_bind (error_fmt h e) (\<lambda>t. try_bind (fmt_causes h es) (\<lambda>ts. Inr (indented t @ ts)))"

definition stack_fmt :: "nat \<Rightarrow> err_heap \<Rightarrow> fault + string" where
  "stack_fmt s h =
     try_bind (stack_errors s h) (\<lambda>errs.
     if errs = [] then Inr ''Empty VPP error''
     else
       try_bind (error_fmt h (last errs)) (\<lambda>t.
       if 1 < length errs then
         try_bind (fmt_causes h (rev (butlast errs))) (\<lambda>ts. Inr (t @ ''\<newline>\<newline>Caused by:'' @ ts))
       else Inr t))"

text \<open>A \<open>VnetError\<close> is its code.\<close>

definition VNET_ERR_INVALID_ARGUMENT :: int where
  "VNET_ERR_INVALID_ARGUMENT = -73"

definition vnet_error_context :: "error_lib \<Rightarrow> int \<Rightarrow> string \<Rightarrow> err_heap \<Rightarrow> fault + nat \<times> err_heap" where
  "vnet_error_context L code msg h = (if CHR 0x00 \<in> set msg then Inl Panic else vnet_error L code ''%s'' [msg] h)"

section \<open>What the C library promises\<close>

text \<open>A format that reads an argument: the first conversion that is not \<open>%%\<close> is a known one.\<close>

fun reads_argument :: "string \<Rightarrow> bool" where
  "reads_argument (c # d # cs) =
     (if c = CHR ''%'' then (if d = CHR ''%'' then reads_argument cs else d \<in> set ''cdefgsuvwxUX'') else reads_argument (d # cs))"
| "reads_argument _ = False"

text \<open>
  The error with text \<open>txt\<close> has been added to the stack \<open>old\<close>, which may have moved to \<open>q\<close>.  Formatting a text
  allocates a vector \<open>a\<close> for it, but none for an empty one: its vector is the null pointer.
\<close>

definition error_added ::
  "nat option \<Rightarrow> err_heap \<Rightarrow> nat \<Rightarrow> err_heap \<Rightarrow> string \<Rightarrow> int \<Rightarrow> nat \<Rightarrow> string option \<Rightarrow> bool" where
  "error_added old h q h' txt code fl wh \<longleftrightarrow>
     (let m = (case old of None \<Rightarrow> eh_stacks h | Some s \<Rightarrow> (eh_stacks h)(s := None));
          es = (case old of None \<Rightarrow> [] | Some s \<Rightarrow> the (eh_stacks h s)) in
      \<exists>a. a \<notin> dom (eh_bytes h) \<and> q \<notin> dom m \<and>
        h' = \<lparr>eh_bytes = (if txt = [] then eh_bytes h else (eh_bytes h)(a \<mapsto> txt)),
              eh_stacks = m(q \<mapsto> es @ [\<lparr>er_what = (if txt = [] then None else Some a), er_where = wh,
                er_code = code, er_flags = fl\<rparr>])\<rparr>)"

definition heap_finite :: "err_heap \<Rightarrow> bool" where
  "heap_finite h \<longleftrightarrow> finite (dom (eh_bytes h)) \<and> finite (dom (eh_stacks h))"

text \<open>Without the flag for \<open>errno\<close> nothing is appended to the text.\<close>

definition error_lib_laws :: "error_lib \<Rightarrow> bool" where
  "error_lib_laws L \<longleftrightarrow>
     (\<forall>old code wh fmt h. heap_finite h \<longrightarrow> CHR 0x00 \<notin> set fmt \<longrightarrow>
        (case old of None \<Rightarrow> True | Some s \<Rightarrow> s \<in> dom (eh_stacks h)) \<longrightarrow>
        (if CHR ''%'' \<notin> set fmt
         then \<exists>q h'. clib_error_return L old code 0 wh fmt h = Inr (q, h') \<and> error_added old h q h' fmt code 0 wh
         else if reads_argument fmt then clib_error_return L old code 0 wh fmt h = Inl Undefined_Behaviour else True)) \<and>
     (\<forall>code msg h. heap_finite h \<longrightarrow> CHR 0x00 \<notin> set msg \<longrightarrow>
        (\<exists>q h' code' fl wh. vnet_error L code ''%s'' [msg] h = Inr (q, h') \<and>
          error_added None h q h' (vnet_error_text L code msg) code' fl wh))"

section \<open>Life of a stack\<close>

fun add_contexts :: "error_lib \<Rightarrow> nat \<Rightarrow> string list \<Rightarrow> err_heap \<Rightarrow> fault + nat \<times> err_heap" where
  "add_contexts L s [] h = Inr (s, h)"
| "add_contexts L s (c # cs) h = try_bind (stack_context L s c h) (\<lambda>(s, h). add_contexts L s cs h)"

definition plain_text :: "string \<Rightarrow> bool" where
  "plain_text m \<longleftrightarrow> CHR 0x00 \<notin> set m \<and> CHR ''%'' \<notin> set m \<and> utf8_valid m"

text \<open>
  Stack \<open>q\<close> holds the messages of the cells \<open>cs\<close>, beside what was in \<open>h0\<close>.  A cell is a message with
  the address of its vector; an empty message has no vector.
\<close>

definition plain_error :: "nat \<times> string \<Rightarrow> clib_error" where
  "plain_error c = \<lparr>er_what = (if snd c = [] then None else Some (fst c)), er_where = None, er_code = 0, er_flags = 0\<rparr>"

lemma plain_error_what [simp]: "er_what (plain_error c) = (if snd c = [] then None else Some (fst c))" "er_where (plain_error c) = None"
  by (simp_all add: plain_error_def)

definition owned :: "(nat \<times> string) list \<Rightarrow> (nat \<times> string) list" where
  "owned cs = filter (\<lambda>c. snd c \<noteq> []) cs"

lemma owned_simps [simp]: "owned [] = []" "owned (c # cs) = (if snd c = [] then owned cs else c # owned cs)"
  "owned (cs @ ds) = owned cs @ owned ds"
  by (simp_all add: owned_def)

definition stack_holds :: "err_heap \<Rightarrow> nat \<Rightarrow> err_heap \<Rightarrow> (nat \<times> string) list \<Rightarrow> bool" where
  "stack_holds h0 q h cs \<longleftrightarrow> distinct (map fst (owned cs)) \<and> fst ` set (owned cs) \<inter> dom (eh_bytes h0) = {} \<and>
     q \<notin> dom (eh_stacks h0) \<and>
     h = \<lparr>eh_bytes = eh_bytes h0 ++ map_of (owned cs), eh_stacks = (eh_stacks h0)(q \<mapsto> map plain_error cs)\<rparr>"

text \<open>An error without a text is shown as \<open><none>\<close>.\<close>

definition shown :: "string \<Rightarrow> string" where
  "shown m = (if m = [] then ''<none>'' else m)"

definition stack_text :: "string list \<Rightarrow> string" where
  "stack_text ms = shown (last ms) @ (if 1 < length ms
     then ''\<newline>\<newline>Caused by:'' @ concat (map (\<lambda>m. indented (shown m)) (rev (butlast ms))) else [])"

lemma map_of_snoc: "a \<notin> fst ` set xs \<Longrightarrow> map_of (xs @ [(a, m)]) = (map_of xs)(a \<mapsto> m)"
  using map_of_eq_None_iff [of xs a] by (auto simp: fun_eq_iff map_add_def split: option.splits)

lemma holds_finite: "stack_holds h0 q h cs \<Longrightarrow> heap_finite h0 \<Longrightarrow> heap_finite h"
  by (auto simp: stack_holds_def heap_finite_def finite_dom_map_of)

lemma holds_context:
  assumes L: "error_lib_laws L" and h: "stack_holds h0 q h cs" "heap_finite h0" and m: "plain_text m"
  shows "\<exists>q' h' a. stack_context L q m h = Inr (q', h') \<and> stack_holds h0 q' h' (cs @ [(a, m)])"
proof -
  have q: "q \<in> dom (eh_stacks h)" using h(1) by (simp add: stack_holds_def)
  then obtain q' h' where r: "clib_error_return L (Some q) 0 0 None m h = Inr (q', h')" "error_added (Some q) h q' h' m 0 0 None"
    using L m holds_finite [OF h] unfolding error_lib_laws_def plain_text_def by (metis option.simps(5))
  then obtain a where a: "a \<notin> dom (eh_bytes h)" "q' \<notin> dom ((eh_stacks h)(q := None))"
    "h' = \<lparr>eh_bytes = (if m = [] then eh_bytes h else (eh_bytes h)(a \<mapsto> m)),
       eh_stacks = ((eh_stacks h)(q := None))(q' \<mapsto> the (eh_stacks h q) @ [plain_error (a, m)])\<rparr>"
    by (simp only: error_added_def Let_def plain_error_def option.case fst_conv snd_conv) blast
  have n: "a \<notin> fst ` set (owned cs)" "a \<notin> dom (eh_bytes h0)" using a(1) h(1) by (auto simp: stack_holds_def dom_map_of_conv_image_fst)
  moreover have "(eh_stacks h)(q := None) = eh_stacks h0" using h(1) by (auto simp: stack_holds_def fun_eq_iff)
  ultimately have "stack_holds h0 q' h' (cs @ [(a, m)])"
    using h(1) a(2,3) by (auto simp: stack_holds_def map_of_snoc [OF n(1)] simp del: map_of_append)
  then show ?thesis using r(1) m by (auto simp: stack_context_def new_internal_def plain_text_def)
qed

lemma holds_contexts:
  assumes L: "error_lib_laws L"
  shows "stack_holds h0 q h cs \<Longrightarrow> heap_finite h0 \<Longrightarrow> list_all plain_text ms \<Longrightarrow>
    \<exists>q' h' ds. add_contexts L q ms h = Inr (q', h') \<and> stack_holds h0 q' h' (cs @ ds) \<and> map snd ds = ms"
proof (induction ms arbitrary: q h cs)
  case (Cons m ms)
  obtain q' h' a where s: "stack_context L q m h = Inr (q', h')" "stack_holds h0 q' h' (cs @ [(a, m)])"
    using holds_context [OF L Cons.prems(1,2), of m] Cons.prems(3) by auto
  from Cons.IH [OF s(2) Cons.prems(2)] Cons.prems(3) obtain q2 h2 ds where
    "add_contexts L q' ms h' = Inr (q2, h2)" "stack_holds h0 q2 h2 (cs @ (a, m) # ds)" "map snd ds = ms" by auto
  then show ?case by (intro exI [of _ q2] exI [of _ h2] exI [of _ "(a, m) # ds"]) (simp add: s(1))
next
  case Nil
  then show ?case by (auto intro!: exI [where x = "[]"])
qed

lemma free_whats_plain:
  "distinct (map fst (owned cs)) \<Longrightarrow> fst ` set (owned cs) \<subseteq> dom (eh_bytes h) \<Longrightarrow>
   free_whats (map plain_error cs) h = Inr (h\<lparr>eh_bytes := (eh_bytes h) |` (- fst ` set (owned cs))\<rparr>)"
proof (induction cs arbitrary: h)
  case (Cons c cs)
  obtain a m where c: "c = (a, m)" by (cases c)
  show ?case
  proof (cases "m = []")
    case True
    then show ?thesis using Cons by (simp add: c)
  next
    case False
    let ?h = "h\<lparr>eh_bytes := (eh_bytes h)(a := None)\<rparr>"
    have "free_bytes a h = Inr ?h" using Cons.prems False by (auto simp: free_bytes_def c)
    moreover have "free_whats (map plain_error cs) ?h = Inr (?h\<lparr>eh_bytes := (eh_bytes ?h) |` (- fst ` set (owned cs))\<rparr>)"
    proof (rule Cons.IH)
      have "a \<notin> fst ` set (owned cs)" "fst ` set (owned cs) \<subseteq> dom (eh_bytes h)" using Cons.prems False by (simp_all add: c)
      then show "fst ` set (owned cs) \<subseteq> dom (eh_bytes ?h)" by auto
    qed (use Cons.prems False c in simp)
    moreover have "(eh_bytes h)(a := None) |` (- fst ` set (owned cs)) = eh_bytes h |` (- fst ` set (owned (c # cs)))"
      using False by (auto simp: fun_eq_iff restrict_map_def c)
    ultimately show ?thesis using False by (simp add: c)
  qed
qed (simp add: restrict_map_def)

lemma holds_drop:
  assumes "stack_holds h0 q h cs"
  shows "stack_drop q h = Inr h0"
proof -
  note s = assms [unfolded stack_holds_def]
  have d: "fst ` set (owned cs) \<subseteq> dom (eh_bytes h)" using s by (auto simp: dom_map_of_conv_image_fst)
  have f: "free_whats (map plain_error cs) h = Inr (h\<lparr>eh_bytes := eh_bytes h |` (- fst ` set (owned cs))\<rparr>)"
    using s by (intro free_whats_plain d) simp
  have "eh_bytes h |` (- fst ` set (owned cs)) = eh_bytes h0"
  proof
    fix x
    have "x \<in> fst ` set (owned cs) \<Longrightarrow> eh_bytes h0 x = None" using s by blast
    moreover have "x \<notin> fst ` set (owned cs) \<Longrightarrow> map_of (owned cs) x = None" by (simp add: map_of_eq_None_iff)
    ultimately show "(eh_bytes h |` (- fst ` set (owned cs))) x = eh_bytes h0 x"
      using s by (cases "x \<in> fst ` set (owned cs)") (simp_all add: restrict_map_def map_add_def)
  qed
  moreover have "(eh_stacks h)(q := None) = eh_stacks h0" using s by auto
  moreover have "stack_errors q h = Inr (map plain_error cs)" using s by (simp add: stack_errors_def)
  ultimately show ?thesis using f by (simp add: stack_drop_def)
qed

lemma fmt_causes_texts:
  "list_all2 (\<lambda>e m. error_fmt h e = Inr (shown m)) es ms \<Longrightarrow> fmt_causes h es = Inr (concat (map (\<lambda>m. indented (shown m)) ms))"
  by (induction rule: list_all2_induct) simp_all

lemma holds_fmt:
  assumes h: "stack_holds h0 q h cs" and ms: "cs \<noteq> []" "list_all plain_text (map snd cs)"
  shows "stack_fmt q h = Inr (stack_text (map snd cs))"
proof -
  note s = h [unfolded stack_holds_def]
  have t: "error_fmt h (plain_error c) = Inr (shown (snd c))" if c: "c \<in> set cs" for c
  proof (cases "snd c = []")
    case False
    then have "map_of (owned cs) (fst c) = Some (snd c)" using s c by (intro map_of_is_SomeI) (auto simp: owned_def)
    moreover have "eh_bytes h = eh_bytes h0 ++ map_of (owned cs)" using s by simp
    ultimately have "eh_bytes h (fst c) = Some (snd c)" by (simp only: map_add_find_right)
    moreover have "utf8_valid (snd c)" using ms(2) c by (auto simp: list_all_iff plain_text_def)
    ultimately show ?thesis using False by (simp add: error_fmt_def plain_error_def shown_def)
  qed (simp add: error_fmt_def plain_error_def shown_def)
  have e: "stack_errors q h = Inr (map plain_error cs)" using s by (simp add: stack_errors_def)
  have "error_fmt h (last (map plain_error cs)) = Inr (shown (last (map snd cs)))"
    using t [of "last cs"] ms(1) by (simp add: last_map)
  moreover have "fmt_causes h (rev (butlast (map plain_error cs))) =
      Inr (concat (map (\<lambda>m. indented (shown m)) (rev (butlast (map snd cs)))))"
  proof (rule fmt_causes_texts)
    have "list_all2 (\<lambda>e m. error_fmt h e = Inr (shown m)) (butlast (map plain_error cs)) (butlast (map snd cs))"
      using t by (simp add: list_all2_conv_all_nth nth_butlast)
    then show "list_all2 (\<lambda>e m. error_fmt h e = Inr (shown m)) (rev (butlast (map plain_error cs))) (rev (butlast (map snd cs)))" by simp
  qed
  ultimately show ?thesis
    using e ms(1) by (simp add: stack_fmt_def stack_text_def)
qed

lemma first_error:
  assumes "error_added None h q h' m 0 0 None"
  shows "\<exists>a. stack_holds h q h' [(a, m)]"
  using assms by (auto simp: error_added_def stack_holds_def plain_error_def Let_def split: if_splits)

lemma stack_built:
  assumes "error_lib_laws L" "heap_finite h" "list_all plain_text (m # cs)"
  shows "\<exists>q h'. try_bind (stack_msg L m h) (\<lambda>(q, h). add_contexts L q cs h) = Inr (q, h') \<and>
    stack_fmt q h' = Inr (stack_text (m # cs)) \<and> stack_drop q h' = Inr h"
proof -
  have "CHR 0x00 \<notin> set m" "CHR ''%'' \<notin> set m" using assms(3) by (auto simp: plain_text_def)
  then obtain q h1 where r: "clib_error_return L None 0 0 None m h = Inr (q, h1)" "error_added None h q h1 m 0 0 None"
    using assms(1,2) unfolding error_lib_laws_def by (metis option.simps(4))
  then obtain a where "stack_holds h q h1 [(a, m)]" using first_error by blast
  from holds_contexts [OF assms(1) this assms(2), of cs] assms(3)
  obtain q' h' ds where c: "add_contexts L q cs h1 = Inr (q', h')" "stack_holds h q' h' ((a, m) # ds)" "map snd ds = cs" by auto
  have "stack_msg L m h = Inr (q, h1)"
    using r(1) \<open>CHR 0x00 \<notin> set m\<close> by (simp add: stack_msg_def new_internal_def)
  then show ?thesis using c(1,3) holds_fmt [OF c(2)] assms(3) holds_drop [OF c(2)] by auto
qed

text \<open>C7: An error stack built from a message and any number of contexts, all of them UTF-8 without zero bytes or percent
  signs, shows the last context first and then the others back to the message, an empty one as \<open><none>\<close>;
  dropping it frees exactly the memory that building it allocated, the texts and the stack.\<close>

theorem error_stack_lifecycle:
  assumes "error_lib_laws L" "heap_finite h" "list_all plain_text (m # cs)"
  shows "\<exists>q h'. try_bind (stack_msg L m h) (\<lambda>(q, h). add_contexts L q cs h) = Inr (q, h') \<and>
    stack_fmt q h' = Inr (stack_text (m # cs)) \<and> stack_drop q h' = Inr h"
  using stack_built [OF assms] .

text \<open>The lowest address above those in use, for a vector of bytes and for a stack.\<close>

definition above :: "(nat \<rightharpoonup> 'x) \<Rightarrow> nat" where
  "above m = (if dom m = {} then 1 else Suc (Max (dom m)))"

lemma above_fresh: "finite (dom m) \<Longrightarrow> above m \<notin> dom m"
proof
  assume f: "finite (dom m)" and m: "above m \<in> dom m"
  then have "dom m \<noteq> {}" by blast
  then have "Suc (Max (dom m)) \<le> Max (dom m)" using Max_ge [OF f m] by (simp add: above_def)
  then show False by simp
qed

definition sample_added :: "nat option \<Rightarrow> int \<Rightarrow> nat \<Rightarrow> string option \<Rightarrow> string \<Rightarrow> err_heap \<Rightarrow> nat \<times> err_heap" where
  "sample_added old code fl wh txt h =
     (let a = above (eh_bytes h); q = (case old of None \<Rightarrow> above (eh_stacks h) | Some s \<Rightarrow> s);
          es = (case old of None \<Rightarrow> [] | Some s \<Rightarrow> the (eh_stacks h s)) in
      (q, \<lparr>eh_bytes = (if txt = [] then eh_bytes h else (eh_bytes h)(a \<mapsto> txt)),
           eh_stacks = (eh_stacks h)(q \<mapsto> es @ [\<lparr>er_what = (if txt = [] then None else Some a), er_where = wh,
             er_code = code, er_flags = fl\<rparr>])\<rparr>))"

definition sample_error_lib :: error_lib where
  "sample_error_lib =
     \<lparr>clib_error_return = (\<lambda>old code fl wh fmt h.
        if CHR ''%'' \<notin> set fmt then Inr (sample_added old code fl wh fmt h) else Inl Undefined_Behaviour),
      vnet_error = (\<lambda>code fmt args h. Inr (sample_added None code 0 None (concat args) h)),
      vnet_error_text = (\<lambda>code msg. msg)\<rparr>"

lemma sample_added_ok:
  assumes "heap_finite h" "case old of None \<Rightarrow> True | Some s \<Rightarrow> s \<in> dom (eh_stacks h)"
  shows "error_added old h (fst (sample_added old code fl wh txt h)) (snd (sample_added old code fl wh txt h)) txt code fl wh"
  using assms above_fresh [of "eh_bytes h"] above_fresh [of "eh_stacks h"]
  by (auto simp: error_added_def sample_added_def heap_finite_def Let_def split: option.splits)

lemma sample_error_lib_laws: "error_lib_laws sample_error_lib"
  using sample_added_ok
  by (auto simp: error_lib_laws_def sample_error_lib_def) (metis prod.collapse option.simps(4))+

definition no_errors :: err_heap where
  "no_errors = \<lparr>eh_bytes = Map.empty, eh_stacks = Map.empty\<rparr>"

lemma error_stack_lifecycle_witness:
  "\<exists>q h'. try_bind (stack_msg sample_error_lib ''no route'' no_errors) (\<lambda>(q, h). add_contexts sample_error_lib q [[], ''failed''] h) = Inr (q, h') \<and>
     stack_fmt q h' = Inr ''failed\<newline>\<newline>Caused by:\<newline>    <none>\<newline>    no route'' \<and> stack_drop q h' = Inr no_errors"
proof -
  have "list_all plain_text [''no route'', [], ''failed'']" by code_simp
  moreover have "stack_text [''no route'', [], ''failed''] = ''failed\<newline>\<newline>Caused by:\<newline>    <none>\<newline>    no route''"
    by (simp add: stack_text_def indented_def shown_def)
  moreover have "heap_finite no_errors" by (simp add: heap_finite_def no_errors_def)
  ultimately show ?thesis
    using error_stack_lifecycle [OF sample_error_lib_laws, of no_errors "''no route''" "[[], ''failed'']"] by simp
qed

lemma vnet_context_built:
  assumes "error_lib_laws L" "heap_finite h" "CHR 0x00 \<notin> set m"
  shows "\<exists>q h'. vnet_error_context L code m h = Inr (q, h') \<and> stack_drop q h' = Inr h"
proof -
  have "\<exists>q h' code' fl wh. vnet_error L code ''%s'' [m] h = Inr (q, h') \<and>
      error_added None h q h' (vnet_error_text L code m) code' fl wh"
    using assms unfolding error_lib_laws_def by blast
  then obtain q h' code' fl wh where v: "vnet_error L code ''%s'' [m] h = Inr (q, h')"
    "error_added None h q h' (vnet_error_text L code m) code' fl wh" by blast
  have "stack_drop q h' = Inr h"
    using v(2) by (auto simp: error_added_def Let_def stack_drop_def stack_errors_def free_bytes_def domIff fun_upd_idem_iff split: if_splits)
  then show ?thesis using v(1) assms(3) by (simp add: vnet_error_context_def)
qed

lemma format_without_argument:
  assumes "error_lib_laws L" "heap_finite h" "CHR 0x00 \<notin> set m" "reads_argument m" "old = None \<or> (\<exists>s. old = Some s \<and> s \<in> dom (eh_stacks h))"
  shows "new_internal L old m None h = Inl Undefined_Behaviour"
proof -
  have p: "CHR ''%'' \<in> set m" using assms(4) by (induction m rule: reads_argument.induct) (auto split: if_splits)
  have "clib_error_return L old 0 0 None m h = Inl Undefined_Behaviour"
    using assms p unfolding error_lib_laws_def by (metis (no_types, lifting) option.simps(4,5))
  then show ?thesis using assms(3) by (simp add: new_internal_def)
qed

lemma reads_argument_prefix: "CHR ''%'' \<notin> set p \<Longrightarrow> reads_argument m \<Longrightarrow> reads_argument (p @ m)"
proof (induction p)
  case (Cons c p)
  then have "reads_argument (p @ m)" "c \<noteq> CHR ''%''" by auto
  then show ?case by (cases "p @ m") auto
qed simp

text \<open>The message of \<open>msg\<close> and of \<open>context\<close> is the format of the C function: a percent sign before a conversion letter
  makes it read an argument that is not there.  A zero byte panics.  The \<open>context\<close> of a network error
  passes its message as an argument and takes any text without zero bytes.\<close>

theorem percent_is_format:
  assumes "error_lib_laws L" "heap_finite h" "s \<in> dom (eh_stacks h)" "CHR 0x00 \<notin> set m" "reads_argument m"
  shows "stack_msg L m h = Inl Undefined_Behaviour \<and> stack_context L s m h = Inl Undefined_Behaviour \<and>
    (\<exists>q h'. vnet_error_context L code m h = Inr (q, h') \<and> stack_drop q h' = Inr h) \<and>
    stack_msg L (m @ [CHR 0x00]) h = Inl Panic \<and> vnet_error_context L code (m @ [CHR 0x00]) h = Inl Panic"
  using format_without_argument [OF assms(1,2,4,5)] vnet_context_built [OF assms(1,2,4)] assms(3)
  by (simp add: stack_msg_def stack_context_def) (simp add: new_internal_def vnet_error_context_def)

lemma percent_is_format_witness:
  "stack_msg sample_error_lib ''100%d'' (no_errors\<lparr>eh_stacks := [1 \<mapsto> []]\<rparr>) = Inl Undefined_Behaviour"
  using percent_is_format [OF sample_error_lib_laws, of "no_errors\<lparr>eh_stacks := [1 \<mapsto> []]\<rparr>" 1 "''100%d''"]
  by (simp add: heap_finite_def no_errors_def)

section \<open>Lines of input\<close>

text \<open>\<open>unformat_get_input\<close> is a parameter: it gives the next byte and the input after it, or the largest \<open>uword\<close>.\<close>

definition UNFORMAT_END_OF_INPUT :: nat where
  "UNFORMAT_END_OF_INPUT = U64_MAX"

partial_function (option) unformat_line :: "('i \<Rightarrow> nat \<times> 'i) \<Rightarrow> string \<Rightarrow> 'i \<Rightarrow> (string \<times> 'i) option" where
  "unformat_line get_input line i =
     (let (b, i) = get_input i in
      if b = 10 \<or> b = UNFORMAT_END_OF_INPUT then Some (line, i)
      else unformat_line get_input (line @ [char_of b]) i)"

definition raw_unformat_line_input_to_string :: "('i \<Rightarrow> nat \<times> 'i) \<Rightarrow> 'i \<Rightarrow> (string \<times> 'i) option" where
  "raw_unformat_line_input_to_string get_input i =
     (case unformat_line get_input [] i of None \<Rightarrow> None | Some (line, i) \<Rightarrow> Some (from_utf8_lossy line, i))"

text \<open>An input function that reads the bytes of \<open>view\<close>.\<close>

definition input_laws :: "('i \<Rightarrow> nat \<times> 'i) \<Rightarrow> ('i \<Rightarrow> string) \<Rightarrow> bool" where
  "input_laws get_input view \<longleftrightarrow>
     (\<forall>i. case view i of
        [] \<Rightarrow> fst (get_input i) = UNFORMAT_END_OF_INPUT \<and> view (snd (get_input i)) = []
      | b # bs \<Rightarrow> fst (get_input i) = of_char b \<and> view (snd (get_input i)) = bs)"

lemma utf8_step_take:
  "cs \<noteq> [] \<Longrightarrow> utf8_step cs = (True, n) \<Longrightarrow> n \<le> length cs \<and> utf8_step (take n cs @ ys) = (True, n)"
proof -
  assume c: "cs \<noteq> []" and s: "utf8_step cs = (True, n)"
  from c obtain d ds where d: "cs = d # ds" by (cases cs) auto
  have l: "n \<le> length cs"
    using s by (auto simp: d utf8_step_def Let_def byte_in_def Suc_le_eq split: prod.splits if_splits)
  have "byte_in lo hi (take n cs @ ys) i = byte_in lo hi cs i" if "i < n" for lo hi i
    using l that by (simp add: byte_in_def nth_append)
  moreover have "0 < n" using utf8_step_pos [of cs] s by simp
  moreover have "hd (take n cs @ ys) = hd cs" using \<open>0 < n\<close> l by (cases n) (simp_all add: d)
  ultimately show ?thesis
    using s l by (auto simp: utf8_step_def Let_def split: prod.splits if_splits)
qed

lemma utf8_valid_append: "utf8_valid cs \<Longrightarrow> utf8_valid ys \<Longrightarrow> utf8_valid (cs @ ys)"
proof (induction cs rule: utf8_valid.induct)
  case (2 c cs)
  let ?n = "snd (utf8_step (c # cs))"
  have s: "utf8_step (c # cs) = (True, ?n)" using "2.prems"(1) by (simp add: prod_eq_iff)
  then have n: "?n \<le> length (c # cs)" "utf8_step ((c # cs) @ ys) = (True, ?n)"
    using utf8_step_take [OF _ s, of ys] utf8_step_take [OF _ s, of "drop ?n (c # cs) @ ys"] by (simp_all only: append_assoc [symmetric] append_take_drop_id list.simps simp_thms)
  have "utf8_valid (drop ?n (c # cs) @ ys)" using "2.IH" "2.prems" by simp
  moreover have "drop ?n (c # cs @ ys) = drop ?n (c # cs) @ ys"
    using n(1) drop_append [of ?n "c # cs" ys] by simp
  ultimately show ?case using n(2) by simp
qed simp

lemma utf8_valid_REPLACEMENT: "utf8_valid REPLACEMENT"
  by code_simp

lemma lossy_valid: "utf8_valid (from_utf8_lossy cs)"
proof (induction cs rule: from_utf8_lossy.induct)
  case (2 c cs)
  obtain ok n where s: "utf8_step (c # cs) = (ok, n)" by fastforce
  have ih: "utf8_valid (from_utf8_lossy (drop n (c # cs)))" using "2.IH" s by simp
  show ?case
  proof (cases ok)
    case False
    then show ?thesis using ih utf8_valid_append [OF utf8_valid_REPLACEMENT] by (simp add: s)
  next
    case True
    have t: "n \<le> length (c # cs)" "utf8_step (take n (c # cs)) = (True, n)"
      using utf8_step_take [of "c # cs" n "[]"] s True by simp_all
    obtain d ds where d: "take n (c # cs) = d # ds" using utf8_step_pos [of "c # cs"] s by (cases n) simp_all
    have "length (d # ds) = n" using t(1) arg_cong [OF d, of length] by simp
    then have "utf8_valid (take n (c # cs))" using t(2) by (simp add: d)
    then show ?thesis using ih utf8_valid_append True by (simp add: s)
  qed
qed simp

lemma lossy_id: "utf8_valid cs \<Longrightarrow> from_utf8_lossy cs = cs"
proof (induction cs rule: utf8_valid.induct)
  case (2 c cs)
  obtain n where n: "utf8_step (c # cs) = (True, n)" using 2 by (cases "utf8_step (c # cs)") auto
  then have "from_utf8_lossy (drop n (c # cs)) = drop n (c # cs)" using 2 by simp
  then show ?case by (simp add: n)
qed simp

lemma unformat_line_reads:
  "input_laws g view \<Longrightarrow> CHR ''\<newline>'' \<notin> set cs \<Longrightarrow> view i = cs @ ys \<Longrightarrow>
   (case ys of [] \<Rightarrow> True | y # _ \<Rightarrow> y = CHR ''\<newline>'') \<Longrightarrow>
   \<exists>i'. unformat_line g line i = Some (line @ cs, i') \<and> view i' = drop 1 ys"
proof (induction cs arbitrary: i line)
  case Nil
  obtain b i' where g: "g i = (b, i')" by fastforce
  have "b = 10 \<or> b = UNFORMAT_END_OF_INPUT" "view i' = drop 1 ys"
    using Nil g spec [OF Nil.prems(1) [unfolded input_laws_def], of i] by (auto split: list.splits)
  then show ?case by (auto simp: unformat_line.simps [of g line i] g)
next
  case (Cons c cs)
  obtain b i' where g: "g i = (b, i')" by fastforce
  have b: "b = of_char c" "view i' = cs @ ys"
    using Cons.prems(3) g spec [OF Cons.prems(1) [unfolded input_laws_def], of i] by auto
  have "b \<noteq> 10"
  proof
    assume "b = 10"
    moreover have "char_of (10 :: nat) = CHR ''\<newline>''" by code_simp
    ultimately have "char_of b = CHR ''\<newline>''" by simp
    then show False using b(1) Cons.prems(2) by simp
  qed
  moreover have "b \<noteq> UNFORMAT_END_OF_INPUT"
  proof -
    have "b < 256" unfolding b(1) by (rule nat_of_char_less_256)
    then show ?thesis by (simp add: UNFORMAT_END_OF_INPUT_def U64_MAX_def)
  qed
  ultimately show ?case
    using Cons.IH [OF Cons.prems(1) _ b(2) Cons.prems(4), of "line @ [c]"] Cons.prems(2) b(1)
    by (simp add: unformat_line.simps [of g line i] g)
qed

text \<open>C39: Reading a line of CLI input returns, takes the bytes up to the next newline or the end and the newline with
  them, and leaves everything after it; its result is always UTF-8, and is the line itself when that is.
  The next command of a script therefore sees its own line.\<close>

theorem input_line_exact:
  assumes "input_laws g view" "CHR ''\<newline>'' \<notin> set line" "view i = line @ rest"
    and "case rest of [] \<Rightarrow> True | c # _ \<Rightarrow> c = CHR ''\<newline>''"
  shows "\<exists>s i'. raw_unformat_line_input_to_string g i = Some (s, i') \<and> view i' = drop 1 rest \<and> utf8_valid s \<and>
    (if utf8_valid line then s = line else s = from_utf8_lossy line)"
proof -
  obtain i' where "unformat_line g [] i = Some (line, i')" "view i' = drop 1 rest"
    using unformat_line_reads [OF assms, of "[]"] by auto
  then show ?thesis using lossy_valid lossy_id by (simp add: raw_unformat_line_input_to_string_def)
qed

definition list_input :: "string \<Rightarrow> nat \<times> string" where
  "list_input i = (case i of [] \<Rightarrow> (UNFORMAT_END_OF_INPUT, []) | b # bs \<Rightarrow> (of_char b, bs))"

lemma list_input_laws: "input_laws list_input id"
  by (auto simp: input_laws_def list_input_def split: list.splits)

lemma input_line_exact_witness:
  "raw_unformat_line_input_to_string list_input ''host0 disable\<newline>show errors'' = Some (''host0 disable'', ''show errors'')"
proof -
  have "utf8_valid ''host0 disable''" by code_simp
  then show ?thesis
    using input_line_exact [OF list_input_laws, of "''host0 disable''" "''host0 disable\<newline>show errors''" "''\<newline>show errors''"] by auto
qed

end
