(* ===== verification/Plugin_Nodes.thy ===== *)
theory Plugin_Nodes
  imports Feature_Node Counter Barrier_Lock
begin

text \<open>
  The nodes of the test plugin (\<open>vpp-test-plugin/src/lib.rs\<close>) and of the example plugin
  (\<open>vpp-example-plugin/src/lib.rs\<close>) as users of the generic feature nodes, of the counters and of the
  barrier lock.
\<close>

section \<open>Packets and node runtimes\<close>

text \<open>\<open>n\<close> bytes from offset \<open>off\<close> of the current data, which must lie in the memory of the buffer.\<close>

definition read_bytes :: "bool \<Rightarrow> packet \<Rightarrow> nat \<Rightarrow> nat \<Rightarrow> fault + nat list" where
  "read_bytes dbg b off n =
     try_bind (debug_assert dbg (- VLIB_BUFFER_PRE_DATA_SIZE \<le> current_data b)) (\<lambda>_.
       let at = VLIB_BUFFER_PRE_DATA_SIZE + current_data b + int off in
       if 0 \<le> at \<and> nat at + n \<le> length (packet_mem b) then Inr (take n (drop (nat at) (packet_mem b)))
       else Inl Undefined_Behaviour)"

text \<open>A \<open>u16\<close> in network order, and the sizes and offsets of the headers.\<close>

definition be16 :: "nat list \<Rightarrow> nat" where
  "be16 bs = bs ! 0 * 256 + bs ! 1"

definition read_be16 :: "bool \<Rightarrow> packet \<Rightarrow> nat \<Rightarrow> fault + nat" where
  "read_be16 dbg b off = try_bind (read_bytes dbg b off 2) (\<lambda>bs. Inr (be16 bs))"

definition IP_UDP_HEADER_SIZE :: nat where "IP_UDP_HEADER_SIZE = 28"
definition UDP_SRC_PORT :: nat where "UDP_SRC_PORT = 20"
definition UDP_DST_PORT :: nat where "UDP_DST_PORT = 22"
definition IP_PROTOCOL :: nat where "IP_PROTOCOL = 9"
definition IP4_HEADER_SIZE :: nat where "IP4_HEADER_SIZE = 20"
definition IP_PROTOCOL_ICMP :: nat where "IP_PROTOCOL_ICMP = 1"

text \<open>The error values of the node runtime; \<open>set_error\<close> stores the one of an error in the buffer.\<close>

definition set_error :: "nat list \<Rightarrow> nat \<Rightarrow> packet \<Rightarrow> fault + packet" where
  "set_error errors e b =
     (case nth_opt errors e of None \<Rightarrow> Inl Undefined_Behaviour | Some v \<Rightarrow> Inr (b\<lparr>buffer_error := v\<rparr>))"

definition or_panic :: "'a option \<Rightarrow> fault + 'a" where
  "or_panic r = (case r of None \<Rightarrow> Inl Panic | Some x \<Rightarrow> Inr x)"

datatype test_next_node = Drop

definition TEST_ERROR_DROP :: nat where "TEST_ERROR_DROP = 0"

text \<open>
  What is fixed while a node runs: the build profile, the error values, the first counter of the node
  in the error heap, and the C function that measures a chain.
\<close>

record test_runtime =
  tr_dbg :: bool
  tr_errors :: "nat list"
  tr_error_base :: nat
  tr_slow_path :: "vlib_buffer \<Rightarrow> nat"

text \<open>
  What it changes: the error counters of the thread, the pointer cached in the runtime data (as an
  index of the error heap), the counters of the plugin, the lock with the denied source port, and the
  traces.
\<close>

record test_state =
  ts_thread :: nat
  ts_counters :: "nat list"
  ts_cached :: "nat option"
  ts_simple :: "nat list list"
  ts_combined :: "combined_count list list"
  ts_policy :: "nat option barrier_rw_lock"
  ts_traces :: "nat list list"

section \<open>The test node\<close>

definition increment_drop_counter_cached :: "test_runtime \<Rightarrow> nat \<Rightarrow> test_state \<Rightarrow> fault + test_state" where
  "increment_drop_counter_cached R increment s =
     (let ptr = (case ts_cached s of Some p \<Rightarrow> p | None \<Rightarrow> tr_error_base R + TEST_ERROR_DROP) in
      case nth_opt (ts_counters s) ptr of
        None \<Rightarrow> Inl Undefined_Behaviour
      | Some c \<Rightarrow> try_bind (arith_add (tr_dbg R) U64_MAX c increment) (\<lambda>c.
          Inr (s\<lparr>ts_cached := Some ptr, ts_counters := (ts_counters s)[ptr := c]\<rparr>)))"

definition drop_with_error :: "test_runtime \<Rightarrow> packet \<Rightarrow> test_state \<Rightarrow> fault + test_next_node feature_next_node \<times> packet \<times> test_state" where
  "drop_with_error R b s = try_bind (set_error (tr_errors R) TEST_ERROR_DROP b) (\<lambda>b. Inr (DefinedNode Drop, b, s))"

text \<open>Port 7: the guard of the lock lives to the end of the \<open>if let\<close>.\<close>

definition deny_policy :: "test_runtime \<Rightarrow> packet \<Rightarrow> test_state \<Rightarrow> fault + test_next_node feature_next_node \<times> packet \<times> test_state" where
  "deny_policy R b s =
     try_bind (or_panic (lock_read (ts_thread s) (ts_policy s))) (\<lambda>(guard, lk).
     try_bind (case rw_data lk of
                 Some src_port \<Rightarrow>
                   try_bind (read_be16 (tr_dbg R) b UDP_SRC_PORT) (\<lambda>p.
                     if p = src_port then drop_with_error R b (s\<lparr>ts_policy := lk\<rparr>)
                     else Inr (NextFeature, b, s\<lparr>ts_policy := lk\<rparr>))
               | None \<Rightarrow> Inr (NextFeature, b, s\<lparr>ts_policy := lk\<rparr>)) (\<lambda>(next, b, s).
     try_bind (or_panic (read_guard_drop guard (ts_policy s))) (\<lambda>lk. Inr (next, b, s\<lparr>ts_policy := lk\<rparr>))))"

definition test_dispatch :: "test_runtime \<Rightarrow> nat \<Rightarrow> packet \<Rightarrow> test_state \<Rightarrow> fault + test_next_node feature_next_node \<times> packet \<times> test_state" where
  "test_dispatch R dst_port b s =
     (if dst_port = 2 then Inr (NextFeature, b, s)
      else if dst_port = 3 then
        try_bind (increment_error_counter (tr_dbg R) (ts_counters s) (tr_error_base R) TEST_ERROR_DROP 1) (\<lambda>cs.
          Inr (DefinedNode Drop, b, s\<lparr>ts_counters := cs\<rparr>))
      else if dst_port = 4 then
        try_bind (increment_drop_counter_cached R 1 s) (\<lambda>s. Inr (DefinedNode Drop, b, s))
      else if dst_port = 5 then
        try_bind (simple_increment (tr_dbg R) (ts_simple s) (ts_thread s) 0 1) (\<lambda>m. Inr (NextFeature, b, s\<lparr>ts_simple := m\<rparr>))
      else if dst_port = 6 then
        try_bind (combined_increment (tr_dbg R) (ts_combined s) (ts_thread s) 0 1
            (length_in_chain (tr_slow_path R) (vlib_buffer.truncate b))) (\<lambda>m. Inr (NextFeature, b, s\<lparr>ts_combined := m\<rparr>))
      else if dst_port = 7 then deny_policy R b s
      else drop_with_error R b s)"

definition add_trace :: "bool \<Rightarrow> packet \<Rightarrow> test_state \<Rightarrow> fault + test_state" where
  "add_trace dbg b s =
     try_bind (read_bytes dbg b 0 IP_UDP_HEADER_SIZE) (\<lambda>header. Inr (s\<lparr>ts_traces := ts_traces s @ [header]\<rparr>))"

definition test_map_buffer_to_next ::
  "test_runtime \<Rightarrow> packet \<Rightarrow> test_state \<Rightarrow> fault + test_next_node feature_next_node \<times> packet \<times> test_state" where
  "test_map_buffer_to_next R b s =
     (if current_length b < IP_UDP_HEADER_SIZE then drop_with_error R b s
      else
        try_bind (read_be16 (tr_dbg R) b UDP_DST_PORT) (\<lambda>dst_port.
        try_bind (test_dispatch R dst_port b s) (\<lambda>(next, b, s).
        try_bind (if flags_contain (buffer_flags b) VLIB_BUFFER_IS_TRACED then add_trace (tr_dbg R) b s else Inr s) (\<lambda>s.
          Inr (next, b, s)))))"

text \<open>The node handles one buffer at a time: it has no method for four, and none is called.\<close>

definition test_node :: "test_runtime \<Rightarrow> (test_state, test_next_node) generic_node" where
  "test_node R = \<lparr>map_buffer_to_next = test_map_buffer_to_next R, map_buffer_to_next_x4 = (\<lambda>_ _. Inl Undefined_Behaviour),
     prefetch_buffer_x4 = default_prefetch_buffer_x4, trace_buffer = default_trace_buffer, into_u16 = (\<lambda>_. 0)\<rparr>"

section \<open>The test node for four buffers\<close>

definition testx4_map_buffer_to_next ::
  "test_runtime \<Rightarrow> packet \<Rightarrow> test_state \<Rightarrow> fault + test_next_node feature_next_node \<times> packet \<times> test_state" where
  "testx4_map_buffer_to_next R b s =
     (if current_length b < IP_UDP_HEADER_SIZE then drop_with_error R b s
      else
        try_bind (read_be16 (tr_dbg R) b UDP_DST_PORT) (\<lambda>dst_port.
          if dst_port = 1 then drop_with_error R b s else Inr (NextFeature, b, s)))"

definition testx4_map_buffer_to_next_x4 ::
  "test_runtime \<Rightarrow> packet x4 \<Rightarrow> test_state \<Rightarrow> fault + test_next_node feature_next_node x4 \<times> packet x4 \<times> test_state" where
  "testx4_map_buffer_to_next_x4 R = (\<lambda>(b0, b1, b2, b3) s.
     try_bind (testx4_map_buffer_to_next R b0 s) (\<lambda>(f0, b0, s).
     try_bind (testx4_map_buffer_to_next R b1 s) (\<lambda>(f1, b1, s).
     try_bind (testx4_map_buffer_to_next R b2 s) (\<lambda>(f2, b2, s).
     try_bind (testx4_map_buffer_to_next R b3 s) (\<lambda>(f3, b3, s). Inr ((f0, f1, f2, f3), (b0, b1, b2, b3), s))))))"

text \<open>Prefetching gives hints to the processor.\<close>

definition testx4_prefetch_buffer_x4 :: "packet x4 \<Rightarrow> 's \<Rightarrow> fault + packet x4 \<times> 's" where
  "testx4_prefetch_buffer_x4 b s = Inr (b, s)"

definition testx4_trace_buffer :: "test_runtime \<Rightarrow> packet \<Rightarrow> test_state \<Rightarrow> fault + packet \<times> test_state" where
  "testx4_trace_buffer R b s =
     try_bind (debug_assert (tr_dbg R) (- VLIB_BUFFER_PRE_DATA_SIZE \<le> current_data b)) (\<lambda>_.
     if IP_UDP_HEADER_SIZE \<le> current_length b then try_bind (add_trace (tr_dbg R) b s) (\<lambda>s. Inr (b, s)) else Inr (b, s))"

definition testx4_node :: "test_runtime \<Rightarrow> (test_state, test_next_node) generic_node" where
  "testx4_node R = \<lparr>map_buffer_to_next = testx4_map_buffer_to_next R, map_buffer_to_next_x4 = testx4_map_buffer_to_next_x4 R,
     prefetch_buffer_x4 = testx4_prefetch_buffer_x4, trace_buffer = testx4_trace_buffer R, into_u16 = (\<lambda>_. 0)\<rparr>"

lemma read_be16_blind [simp]: "read_be16 dbg (at_config i b) off = read_be16 dbg b off"
  by (simp add: read_be16_def read_bytes_def at_config_def Let_def)

lemma drop_with_error_blind: "drop_with_error R (at_config i b) s = map_sum id (\<lambda>(x, b, s). (x, at_config i b, s)) (drop_with_error R b s)"
  by (simp add: drop_with_error_def set_error_def at_config_def split: option.splits)

lemma testx4_blind: "config_blind (testx4_map_buffer_to_next R)"
  unfolding config_blind_def
proof (intro conjI allI impI)
  fix b s i
  show "testx4_map_buffer_to_next R (at_config i b) s =
      map_sum id (\<lambda>(x, b, s). (x, at_config i b, s)) (testx4_map_buffer_to_next R b s)"
    by (cases "read_be16 (tr_dbg R) b UDP_DST_PORT")
      (simp_all add: testx4_map_buffer_to_next_def drop_with_error_blind, simp_all add: at_config_def)
next
  fix b s x b' s'
  assume "testx4_map_buffer_to_next R b s = Inr (x, b', s')"
  then show "feature_arc_index b' = feature_arc_index b"
    by (auto simp: testx4_map_buffer_to_next_def drop_with_error_def set_error_def try_bind_Inr split: if_splits option.splits)
qed

interpretation testx4: feature_node_impl "testx4_node R"
  by unfold_locales
    (auto simp: testx4_node_def map_each_x4_def testx4_map_buffer_to_next_x4_def testx4_prefetch_buffer_x4_def testx4_blind)

section \<open>The example node\<close>

text \<open>The reference to the header covers 20 bytes; its state is the list of traces.\<close>

definition example_map_buffer_to_next ::
  "bool \<Rightarrow> nat list \<Rightarrow> packet \<Rightarrow> nat list list \<Rightarrow> fault + test_next_node feature_next_node \<times> packet \<times> nat list list" where
  "example_map_buffer_to_next dbg errors b s =
     try_bind (read_bytes dbg b 0 IP4_HEADER_SIZE) (\<lambda>ip.
     if ip ! IP_PROTOCOL = IP_PROTOCOL_ICMP then
       try_bind (set_error errors TEST_ERROR_DROP b) (\<lambda>b.
         Inr (DefinedNode Drop, b, if flags_contain (buffer_flags b) VLIB_BUFFER_IS_TRACED then s @ [ip] else s))
     else Inr (NextFeature, b, s))"

definition example_node :: "bool \<Rightarrow> nat list \<Rightarrow> (nat list list, test_next_node) generic_node" where
  "example_node dbg errors = \<lparr>map_buffer_to_next = example_map_buffer_to_next dbg errors,
     map_buffer_to_next_x4 = (\<lambda>_ _. Inl Undefined_Behaviour), prefetch_buffer_x4 = default_prefetch_buffer_x4,
     trace_buffer = default_trace_buffer, into_u16 = (\<lambda>_. 0)\<rparr>"

section \<open>What the test node does to a frame\<close>

definition packet_port :: "packet \<Rightarrow> nat \<Rightarrow> nat" where
  "packet_port b off = be16 (take 2 (drop (nat (VLIB_BUFFER_PRE_DATA_SIZE + current_data b + int off)) (packet_mem b)))"

definition packet_header :: "packet \<Rightarrow> nat list" where
  "packet_header b = take IP_UDP_HEADER_SIZE (drop (nat (VLIB_BUFFER_PRE_DATA_SIZE + current_data b)) (packet_mem b))"

text \<open>The data starts in the headroom or later and ends in the memory of the buffer.\<close>

definition packet_ok :: "packet \<Rightarrow> bool" where
  "packet_ok b \<longleftrightarrow> 0 \<le> VLIB_BUFFER_PRE_DATA_SIZE + current_data b \<and>
     nat (VLIB_BUFFER_PRE_DATA_SIZE + current_data b) + current_length b \<le> length (packet_mem b)"

definition has_header :: "packet \<Rightarrow> bool" where
  "has_header b \<longleftrightarrow> IP_UDP_HEADER_SIZE \<le> current_length b"

definition to_port :: "nat \<Rightarrow> packet \<Rightarrow> bool" where
  "to_port p b \<longleftrightarrow> has_header b \<and> packet_port b UDP_DST_PORT = p"

definition chain_length :: "test_runtime \<Rightarrow> packet \<Rightarrow> nat" where
  "chain_length R b = length_in_chain (tr_slow_path R) (vlib_buffer.truncate b)"

text \<open>Which packets are dropped, with the denied source port \<open>pol\<close>.\<close>

definition test_drops :: "nat option \<Rightarrow> packet \<Rightarrow> bool" where
  "test_drops pol b \<longleftrightarrow> \<not> (to_port 2 b \<or> to_port 5 b \<or> to_port 6 b \<or>
     (to_port 7 b \<and> pol \<noteq> Some (packet_port b UDP_SRC_PORT)))"

definition add_cell :: "('c \<Rightarrow> 'c) \<Rightarrow> 'c list list \<Rightarrow> nat \<Rightarrow> nat \<Rightarrow> 'c list list" where
  "add_cell f m t i = m[t := (m ! t)[i := f (m ! t ! i)]]"

definition add_packets :: "nat \<Rightarrow> nat \<Rightarrow> combined_count \<Rightarrow> combined_count" where
  "add_packets p b c = c\<lparr>packets := packets c + p, bytes := bytes c + b\<rparr>"

text \<open>What is added for one packet, and for the packets of a frame.\<close>

definition account :: "test_runtime \<Rightarrow> packet \<Rightarrow> test_state \<Rightarrow> test_state" where
  "account R b s = s\<lparr>
     ts_counters := (if to_port 3 b \<or> to_port 4 b then (ts_counters s)[tr_error_base R := ts_counters s ! tr_error_base R + 1] else ts_counters s),
     ts_cached := (if to_port 4 b then Some (tr_error_base R) else ts_cached s),
     ts_simple := (if to_port 5 b then add_cell (\<lambda>c. c + 1) (ts_simple s) (ts_thread s) 0 else ts_simple s),
     ts_combined := (if to_port 6 b then add_cell (add_packets 1 (chain_length R b)) (ts_combined s) (ts_thread s) 0 else ts_combined s),
     ts_traces := (if has_header b \<and> flags_contain (buffer_flags b) VLIB_BUFFER_IS_TRACED
       then ts_traces s @ [packet_header b] else ts_traces s)\<rparr>"

definition lock_readable :: "nat \<Rightarrow> 'a barrier_rw_lock \<Rightarrow> bool" where
  "lock_readable t lk \<longleftrightarrow> t \<noteq> 0 \<or> (\<not> rw_writer lk \<and> rw_readers lk < U32_MAX)"

definition test_ok :: "test_runtime \<Rightarrow> test_state \<Rightarrow> bool" where
  "test_ok R s \<longleftrightarrow> tr_errors R \<noteq> [] \<and> tr_error_base R < length (ts_counters s) \<and>
     ts_cached s \<in> {None, Some (tr_error_base R)} \<and>
     valid_cell (ts_simple s) (ts_thread s) 0 \<and> valid_cell (ts_combined s) (ts_thread s) 0 \<and>
     lock_readable (ts_thread s) (ts_policy s)"

text \<open>Room in the counters for \<open>k\<close> packets with \<open>l\<close> bytes.\<close>

definition room :: "test_runtime \<Rightarrow> test_state \<Rightarrow> nat \<Rightarrow> nat \<Rightarrow> bool" where
  "room R s k l \<longleftrightarrow> ts_counters s ! tr_error_base R + k \<le> U64_MAX \<and> ts_simple s ! ts_thread s ! 0 + k \<le> U64_MAX \<and>
     packets (ts_combined s ! ts_thread s ! 0) + k \<le> U64_MAX \<and> bytes (ts_combined s ! ts_thread s ! 0) + l \<le> U64_MAX"

lemma read_bytes_ok:
  assumes "packet_ok b" "off + n \<le> current_length b"
  shows "read_bytes dbg b off n = Inr (take n (drop (nat (VLIB_BUFFER_PRE_DATA_SIZE + current_data b + int off)) (packet_mem b)))"
  using assms by (auto simp: read_bytes_def packet_ok_def debug_assert_def Let_def)

lemma read_port_ok:
  assumes "packet_ok b" "has_header b" "off \<le> 26"
  shows "read_be16 dbg b off = Inr (packet_port b off)"
  using assms by (simp add: read_be16_def read_bytes_ok packet_port_def has_header_def IP_UDP_HEADER_SIZE_def)

lemma trace_ok:
  assumes "packet_ok b" "has_header b"
  shows "add_trace dbg b s = Inr (s\<lparr>ts_traces := ts_traces s @ [packet_header b]\<rparr>)"
  using assms by (simp add: add_trace_def read_bytes_ok packet_header_def has_header_def)

lemma drop_with_error_ok: "tr_errors R \<noteq> [] \<Longrightarrow> drop_with_error R b s = Inr (DefinedNode Drop, b\<lparr>buffer_error := hd (tr_errors R)\<rparr>, s)"
  by (cases "tr_errors R") (simp_all add: drop_with_error_def set_error_def TEST_ERROR_DROP_def nth_opt_def)

lemma deny_policy_ok:
  assumes "test_ok R s" "packet_ok b" "has_header b"
  shows "deny_policy R b s =
    (if rw_data (ts_policy s) = Some (packet_port b UDP_SRC_PORT)
     then Inr (DefinedNode Drop, b\<lparr>buffer_error := hd (tr_errors R)\<rparr>, s) else Inr (NextFeature, b, s))"
  using assms
  by (auto simp: deny_policy_def lock_read_def read_guard_new_def read_guard_drop_def or_panic_def checked_add_def checked_sub_def
      test_ok_def lock_readable_def drop_with_error_ok read_port_ok UDP_SRC_PORT_def U32_MAX_def split: option.splits)

lemma dispatch_ok:
  assumes ok: "test_ok R s" "packet_ok b" and h: "has_header b" and r: "room R s (Suc k) (chain_length R b + l)"
  shows "\<exists>b' s'. test_dispatch R (packet_port b UDP_DST_PORT) b s =
      Inr (if test_drops (rw_data (ts_policy s)) b then DefinedNode Drop else NextFeature, b', s') \<and>
    (b' = b \<or> b' = b\<lparr>buffer_error := hd (tr_errors R)\<rparr>) \<and>
    s' = (account R b s)\<lparr>ts_traces := ts_traces s\<rparr>"
proof -
  note p = to_port_def h test_drops_def account_def
  consider "packet_port b UDP_DST_PORT = 2" | "packet_port b UDP_DST_PORT = 3" | "packet_port b UDP_DST_PORT = 4"
    | "packet_port b UDP_DST_PORT = 5" | "packet_port b UDP_DST_PORT = 6" | "packet_port b UDP_DST_PORT = 7"
    | "packet_port b UDP_DST_PORT \<notin> {2, 3, 4, 5, 6, 7}" by auto
  then show ?thesis
  proof cases
    case 1
    then show ?thesis by (simp add: test_dispatch_def p)
  next
    case 2
    then show ?thesis using ok r
      by (simp add: test_dispatch_def p increment_error_counter_def TEST_ERROR_DROP_def test_ok_def room_def arith_add_def nth_opt_def Let_def)
  next
    case 3
    then show ?thesis using ok r
      by (auto simp: test_dispatch_def p increment_drop_counter_cached_def TEST_ERROR_DROP_def test_ok_def room_def arith_add_def nth_opt_def Let_def)
  next
    case 4
    then show ?thesis using ok r
      by (simp add: test_dispatch_def p simple_increment_def cell_update_valid test_ok_def room_def arith_add_def add_cell_def)
  next
    case 5
    then show ?thesis using ok r
      by (simp add: test_dispatch_def p combined_increment_def cell_update_valid test_ok_def room_def arith_add_def add_cell_def
          add_packets_def chain_length_def)
  next
    case 6
    then show ?thesis using ok h by (auto simp: test_dispatch_def p deny_policy_ok)
  next
    case 7
    then show ?thesis using ok by (simp add: test_dispatch_def p drop_with_error_ok test_ok_def)
  qed
qed

lemma map_ok:
  assumes ok: "test_ok R s" "packet_ok b" and r: "room R s (Suc k) (chain_length R b + l)"
  shows "\<exists>b'. test_map_buffer_to_next R b s =
      Inr (if test_drops (rw_data (ts_policy s)) b then DefinedNode Drop else NextFeature, b', account R b s) \<and>
    (b' = b \<or> b' = b\<lparr>buffer_error := hd (tr_errors R)\<rparr>)"
proof (cases "has_header b")
  case False
  then show ?thesis using ok
    by (simp add: test_map_buffer_to_next_def has_header_def drop_with_error_ok test_ok_def test_drops_def to_port_def account_def)
next
  case True
  obtain b' s' where d: "test_dispatch R (packet_port b UDP_DST_PORT) b s =
      Inr (if test_drops (rw_data (ts_policy s)) b then DefinedNode Drop else NextFeature, b', s')"
    "b' = b \<or> b' = b\<lparr>buffer_error := hd (tr_errors R)\<rparr>" "s' = (account R b s)\<lparr>ts_traces := ts_traces s\<rparr>"
    using dispatch_ok [OF ok True r] by blast
  have b': "packet_ok b'" "has_header b'" "packet_header b' = packet_header b" "buffer_flags b' = buffer_flags b"
    using d(2) ok(2) True by (auto simp: packet_ok_def has_header_def packet_header_def)
  have "(if flags_contain (buffer_flags b') VLIB_BUFFER_IS_TRACED then add_trace (tr_dbg R) b' s' else Inr s') = Inr (account R b s)"
    using trace_ok [OF b'(1,2)] b'(3,4) d(3) True by (simp add: account_def)
  then show ?thesis
    using True d(1,2) read_port_ok [OF ok(2) True, of UDP_DST_PORT]
    by (auto simp: test_map_buffer_to_next_def has_header_def UDP_DST_PORT_def)
qed

lemma add_cell_valid [simp]: "valid_cell (add_cell f m t i) u j = valid_cell m u j"
  by (auto simp: valid_cell_def add_cell_def nth_list_update_if split: if_splits)

lemma add_cell_at: "valid_cell m t i \<Longrightarrow> add_cell f m t i ! t ! i = f (m ! t ! i)"
  by (simp add: valid_cell_def add_cell_def)

lemma account_keeps:
  assumes "test_ok R s" "room R s (Suc k) (chain_length R b + l)"
  shows "test_ok R (account R b s)" "room R (account R b s) k l"
    "ts_policy (account R b s) = ts_policy s" "ts_thread (account R b s) = ts_thread s"
  using assms by (auto simp: account_def test_ok_def room_def add_cell_at add_packets_def)

definition test_verdict :: "node_env \<Rightarrow> nat option \<Rightarrow> packet \<Rightarrow> nat" where
  "test_verdict E pol b = (if test_drops pol b then 0 else entry_next E b mod 2 ^ 16)"

lemma x1_buffer_ok:
  assumes "test_ok R s" "packet_ok b" "config_ok E b" "room R s (Suc k) (chain_length R b + l)"
  shows "\<exists>b'. x1_buffer (test_node R) E b s = Inr (test_verdict E (rw_data (ts_policy s)) b, b', account R b s)"
proof -
  obtain b' where m: "test_map_buffer_to_next R b s =
      Inr (if test_drops (rw_data (ts_policy s)) b then DefinedNode Drop else NextFeature, b', account R b s)"
    "b' = b \<or> b' = b\<lparr>buffer_error := hd (tr_errors R)\<rparr>"
    using map_ok [OF assms(1,2,4)] by blast
  have "config_ok E b'" "entry_next E b' = entry_next E b" using m(2) assms(3) entry_same [of b' b E] by auto
  then show ?thesis using m(1) by (simp add: x1_buffer_def test_node_def test_verdict_def feature_next_u16_ok)
qed

lemma run_frame:
  "test_ok R s \<Longrightarrow> list_all packet_ok bs \<Longrightarrow> list_all (config_ok E) bs \<Longrightarrow>
   room R s (length bs) (sum_list (map (chain_length R) bs)) \<Longrightarrow>
   \<exists>bs'. run_each (x1_buffer (test_node R) E) bs s =
     Inr (map (test_verdict E (rw_data (ts_policy s))) bs, bs', fold (account R) bs s)"
proof (induction bs arbitrary: s)
  case (Cons b bs)
  have r: "room R s (Suc (length bs)) (chain_length R b + sum_list (map (chain_length R) bs))" using Cons.prems(4) by simp
  obtain b' where b: "x1_buffer (test_node R) E b s = Inr (test_verdict E (rw_data (ts_policy s)) b, b', account R b s)"
    using x1_buffer_ok [OF Cons.prems(1) _ _ r] Cons.prems(2,3) by auto
  obtain bs' where "run_each (x1_buffer (test_node R) E) bs (account R b s) =
      Inr (map (test_verdict E (rw_data (ts_policy s))) bs, bs', fold (account R) bs (account R b s))"
    using Cons.IH [OF account_keeps(1) [OF Cons.prems(1) r] _ _ account_keeps(2) [OF Cons.prems(1) r]] Cons.prems(2,3)
      account_keeps(3) [OF Cons.prems(1) r] by auto
  then show ?case by (simp add: b)
qed simp

abbreviation number_of :: "('a \<Rightarrow> bool) \<Rightarrow> 'a list \<Rightarrow> nat" where
  "number_of P xs \<equiv> length (filter P xs)"

lemma add_cell_add_cell:
  "valid_cell m t i \<Longrightarrow> add_cell f (add_cell g m t i) t i = add_cell (f \<circ> g) m t i"
  by (simp add: add_cell_def valid_cell_def)

lemma add_cell_id: "(\<And>c. f c = c) \<Longrightarrow> add_cell f m t i = m"
  by (simp add: add_cell_def)

lemma fold_account:
  assumes "tr_error_base R < length (ts_counters s)" "valid_cell (ts_simple s) (ts_thread s) 0" "valid_cell (ts_combined s) (ts_thread s) 0"
  shows "ts_counters (fold (account R) bs s) = (ts_counters s)[tr_error_base R :=
      ts_counters s ! tr_error_base R + number_of (\<lambda>b. to_port 3 b \<or> to_port 4 b) bs] \<and>
    ts_simple (fold (account R) bs s) = add_cell (\<lambda>c. c + number_of (to_port 5) bs) (ts_simple s) (ts_thread s) 0 \<and>
    ts_combined (fold (account R) bs s) = add_cell (add_packets (number_of (to_port 6) bs)
      (sum_list (map (chain_length R) (filter (to_port 6) bs)))) (ts_combined s) (ts_thread s) 0 \<and>
    ts_traces (fold (account R) bs s) = ts_traces s @ map packet_header
      (filter (\<lambda>b. has_header b \<and> flags_contain (buffer_flags b) VLIB_BUFFER_IS_TRACED) bs) \<and>
    ts_policy (fold (account R) bs s) = ts_policy s \<and> ts_thread (fold (account R) bs s) = ts_thread s"
  using assms
proof (induction bs arbitrary: s)
  case Nil
  then show ?case by (simp add: add_cell_id add_packets_def)
next
  case (Cons b bs)
  have "add_packets p l \<circ> add_packets q k = add_packets (p + q) (l + k)" for p q l k
    by (simp add: fun_eq_iff add_packets_def)
  moreover have "tr_error_base R < length (ts_counters (account R b s))" "valid_cell (ts_simple (account R b s)) (ts_thread (account R b s)) 0"
    "valid_cell (ts_combined (account R b s)) (ts_thread (account R b s)) 0" using Cons.prems by (auto simp: account_def)
  note Cons.IH [OF this]
  ultimately show ?case using Cons.prems
    by (auto simp: account_def add_cell_add_cell comp_def add_ac)
qed

text \<open>C6: On a frame of packets the test node sends on exactly the packets to port 2, 5, 6, and those to port 7 whose source
  port the policy does not deny, to the next feature of their arc, and drops the others, also those without
  headers.  The drop counter grows by the number of packets to port 3 and to port 4, whichever way it is
  reached, the plugin's counters by those to port 5 and by those to port 6 and their length, every traced
  packet with headers leaves a trace, in order, and the lock is as it was.\<close>

theorem test_node_accounts:
  assumes "frame_get_buffers (ne_dbg E) vm fr = Inr ps" "load_packets (vm_packets vm) ps = Inr bs"
    and "length (frame_vector fr) = length bs" "list_all (config_ok E) bs" "list_all packet_ok bs"
    and "test_ok R s" "room R s (length bs) (sum_list (map (chain_length R) bs))"
  shows "\<exists>r. generic_feature_node_x1 (test_node R) E vm fr s = Inr r \<and>
    nd_from r = frame_vector fr \<and> nd_nexts r = map (test_verdict E (rw_data (ts_policy s))) bs \<and>
    ts_counters (nd_state r) = (ts_counters s)[tr_error_base R :=
      ts_counters s ! tr_error_base R + number_of (\<lambda>b. to_port 3 b \<or> to_port 4 b) bs] \<and>
    ts_simple (nd_state r) = add_cell (\<lambda>c. c + number_of (to_port 5) bs) (ts_simple s) (ts_thread s) 0 \<and>
    ts_combined (nd_state r) = add_cell (add_packets (number_of (to_port 6) bs)
      (sum_list (map (chain_length R) (filter (to_port 6) bs)))) (ts_combined s) (ts_thread s) 0 \<and>
    ts_traces (nd_state r) = ts_traces s @ map packet_header
      (filter (\<lambda>b. has_header b \<and> flags_contain (buffer_flags b) VLIB_BUFFER_IS_TRACED) bs) \<and>
    ts_policy (nd_state r) = ts_policy s"
proof -
  have len: "length bs \<le> length (replicate FRAME_SIZE (None :: nat option))"
    using frame_get_buffers_length [OF assms(1)] load_packets_length [OF assms(2)] by simp
  obtain bs' where run: "run_each (x1_buffer (test_node R) E) bs s =
      Inr (map (test_verdict E (rw_data (ts_policy s))) bs, bs', fold (account R) bs s)"
    using run_frame [OF assms(6,5,4,7)] by blast
  have "generic_feature_node_x1 (test_node R) E vm fr s = try_bind (run_each (x1_buffer (test_node R) E) bs s) (finish (ne_dbg E) vm fr ps)"
    unfolding generic_feature_node_x1_def
  proof (rule node_function_finish [OF assms(1,2)])
    show "x1_loop (test_node R) E 0 bs (replicate FRAME_SIZE None) s =
        try_bind (run_each (x1_buffer (test_node R) E) bs s) (\<lambda>(ns, as, s). Inr (as, map Some ns @ drop (length bs) (replicate FRAME_SIZE None), s))"
      using x1_run [OF len, of "test_node R" E "[]" s] by simp
  qed (auto dest: run_each_length)
  moreover have "tr_error_base R < length (ts_counters s)" "valid_cell (ts_simple s) (ts_thread s) 0" "valid_cell (ts_combined s) (ts_thread s) 0"
    using assms(6) by (simp_all add: test_ok_def)
  note fold_account [OF this, of bs]
  ultimately show ?thesis using assms(3)
    by (simp add: run finish_def buffer_enqueue_to_next_def debug_assert_def)
qed

text \<open>A packet to port \<open>dst\<close> from port \<open>src\<close>, with headers and no data behind them.\<close>

definition port_packet :: "nat \<Rightarrow> nat \<Rightarrow> packet" where
  "port_packet src dst = sample_packet\<lparr>current_length := 28,
     packet_mem := replicate 148 0 @ [src div 256, src mod 256, dst div 256, dst mod 256] @ replicate 4 0\<rparr>"

definition port_vm :: vlib_main where
  "port_vm = \<lparr>vm_mem_start = 4096, vm_mem_size = 1024,
     vm_packets = [4096 \<mapsto> port_packet 8 3, 4160 \<mapsto> port_packet 8 4, 4224 \<mapsto> port_packet 7 7, 4288 \<mapsto> port_packet 9 7]\<rparr>"

definition sample_runtime :: test_runtime where
  "sample_runtime = \<lparr>tr_dbg = True, tr_errors = [5], tr_error_base = 1, tr_slow_path = (\<lambda>_. 0)\<rparr>"

definition sample_test_state :: test_state where
  "sample_test_state = \<lparr>ts_thread = 1, ts_counters = [0, 0], ts_cached = None, ts_simple = [[0], [0]],
     ts_combined = [[\<lparr>packets = 0, bytes = 0\<rparr>], [\<lparr>packets = 0, bytes = 0\<rparr>]], ts_policy = lock_new (Some 7), ts_traces = []\<rparr>"

lemma port_packet_port [simp]:
  "packet_port (port_packet src dst) UDP_DST_PORT = dst div 256 * 256 + dst mod 256"
  "packet_port (port_packet src dst) UDP_SRC_PORT = src div 256 * 256 + src mod 256"
  "has_header (port_packet src dst)" "packet_ok (port_packet src dst)"
  by (simp_all add: packet_port_def port_packet_def sample_packet_def UDP_DST_PORT_def UDP_SRC_PORT_def VLIB_BUFFER_PRE_DATA_SIZE_def
      be16_def has_header_def IP_UDP_HEADER_SIZE_def packet_ok_def)

lemma test_node_accounts_witness:
  "\<exists>r. generic_feature_node_x1 (test_node sample_runtime) sample_env port_vm sample_frame sample_test_state = Inr r \<and>
     nd_nexts r = [0, 0, 0, 1] \<and> ts_counters (nd_state r) = [0, 2]"
proof -
  let ?bs = "[port_packet 8 3, port_packet 8 4, port_packet 7 7, port_packet 9 7]"
  have "frame_get_buffers (ne_dbg sample_env) port_vm sample_frame = Inr [Some 4096, Some 4160, Some 4224, Some 4288]"
    using sample_ptrs by (simp add: sample_env_def frame_get_buffers_def port_vm_def sample_vm_def)
  moreover have "load_packets (vm_packets port_vm) [Some 4096, Some 4160, Some 4224, Some 4288] = Inr ?bs"
    by (simp add: port_vm_def)
  moreover have "length (frame_vector sample_frame) = length ?bs" by (simp add: frame_vector_def sample_frame_def)
  moreover have "list_all (config_ok sample_env) ?bs" by (simp add: port_packet_def sample_defs)
  moreover have "list_all packet_ok ?bs" by simp
  moreover have "test_ok sample_runtime sample_test_state"
    by (simp add: test_ok_def sample_runtime_def sample_test_state_def valid_cell_def lock_readable_def)
  moreover have "room sample_runtime sample_test_state (length ?bs) (sum_list (map (chain_length sample_runtime) ?bs))"
    by (simp add: room_def sample_runtime_def sample_test_state_def U64_MAX_def chain_length_def length_in_chain_def
        port_packet_def sample_packet_def vlib_buffer.truncate_def)
  ultimately obtain r where r: "generic_feature_node_x1 (test_node sample_runtime) sample_env port_vm sample_frame sample_test_state = Inr r"
    "nd_nexts r = map (test_verdict sample_env (rw_data (ts_policy sample_test_state))) ?bs"
    "ts_counters (nd_state r) = (ts_counters sample_test_state)[tr_error_base sample_runtime :=
      ts_counters sample_test_state ! tr_error_base sample_runtime + number_of (\<lambda>b. to_port 3 b \<or> to_port 4 b) ?bs]"
    using test_node_accounts [of sample_env port_vm sample_frame _ ?bs sample_runtime sample_test_state] by blast
  have "map (test_verdict sample_env (rw_data (ts_policy sample_test_state))) ?bs = [0, 0, 0, 1]"
    by (simp add: test_verdict_def test_drops_def to_port_def sample_test_state_def lock_new_def)
      (simp add: entry_next_def port_packet_def sample_packet_def sample_env_def config_words_def)
  moreover have "ts_counters (nd_state r) = [0, 2]"
    using r(3) by (simp add: to_port_def sample_runtime_def sample_test_state_def)
  ultimately show ?thesis using r(1,2) by simp
qed

end
