(* ===== verification/Plugin_Process.thy ===== *)
theory Plugin_Process
  imports Plugin_Nodes
begin

text \<open>
  Owned packet buffers (\<open>vpp-plugin/src/vlib/buffer.rs\<close>) and the process node of the test plugin
  (\<open>vpp-test-plugin/src/lib.rs\<close>): the messages it receives and the packets it allocates and sends.  When it sends them
  is the subject of \<open>Plugin_Pace\<close>.
\<close>

section \<open>Owned buffers\<close>

text \<open>
  The pool of buffers: their memory, the indices that are allocated, and what was freed and enqueued.
  The allocator of VPP is a parameter: the index of a buffer and the buffer as it is then.
\<close>

record buffer_pool =
  bp_main :: vlib_main
  bp_owned :: "nat set"
  bp_freed :: "nat list"
  bp_enqueued :: "(nat \<times> nat) list"
  bp_errors :: nat

type_synonym buffer_alloc = "buffer_pool \<Rightarrow> (nat \<times> packet) option"

text \<open>The address of a buffer in memory.\<close>

definition buffer_address :: "buffer_pool \<Rightarrow> nat \<Rightarrow> nat" where
  "buffer_address P i = vm_mem_start (bp_main P) + i * 64"

definition set_packet :: "nat \<Rightarrow> packet \<Rightarrow> buffer_pool \<Rightarrow> buffer_pool" where
  "set_packet a b P = P\<lparr>bp_main := (bp_main P)\<lparr>vm_packets := (vm_packets (bp_main P))(a \<mapsto> b)\<rparr>\<rparr>"

definition alloc_buffer :: "buffer_alloc \<Rightarrow> buffer_pool \<Rightarrow> (nat \<times> buffer_pool) option" where
  "alloc_buffer A P =
     (case A P of
        None \<Rightarrow> None
      | Some (i, b) \<Rightarrow> Some (i, (set_packet (buffer_address P i) b P)\<lparr>bp_owned := insert i (bp_owned P)\<rparr>))"

text \<open>Dropping a \<open>BufferWithContext\<close> frees the buffer; \<open>into_parts\<close> gives it up.\<close>

definition buffer_drop :: "nat \<Rightarrow> buffer_pool \<Rightarrow> fault + buffer_pool" where
  "buffer_drop i P =
     (if i \<in> bp_owned P then Inr (P\<lparr>bp_owned := bp_owned P - {i}, bp_freed := bp_freed P @ [i]\<rparr>) else Inl Undefined_Behaviour)"

definition into_parts :: "nat \<Rightarrow> nat" where
  "into_parts i = i"

definition as_buffer_ref :: "bool \<Rightarrow> nat \<Rightarrow> buffer_pool \<Rightarrow> fault + nat" where
  "as_buffer_ref dbg i P =
     try_bind (get_buffers dbg (vm_mem_start (bp_main P)) (vm_mem_size (bp_main P)) [i] 1 1 []) (\<lambda>ps.
     case ps of Some p # _ \<Rightarrow> Inr p | _ \<Rightarrow> Inl Undefined_Behaviour)"

text \<open>The node that a buffer is enqueued to takes it over.\<close>

definition enqueue_one :: "bool \<Rightarrow> nat \<Rightarrow> nat \<Rightarrow> buffer_pool \<Rightarrow> fault + buffer_pool" where
  "enqueue_one dbg i next P =
     try_bind (buffer_enqueue_to_next dbg [i] [next]) (\<lambda>(from, nexts).
     if i \<in> bp_owned P then Inr (P\<lparr>bp_owned := bp_owned P - {i}, bp_enqueued := bp_enqueued P @ zip from nexts\<rparr>)
     else Inl Undefined_Behaviour)"

section \<open>The packet of the process node\<close>

definition LOCAL0 :: nat where "LOCAL0 = 0"
definition VNET_BUFFER_F_LOCALLY_ORIGINATED :: nat where "VNET_BUFFER_F_LOCALLY_ORIGINATED = 2 ^ 25"
definition IP_PROTOCOL_UDP :: nat where "IP_PROTOCOL_UDP = 17"
definition UDP_HEADER_SIZE :: nat where "UDP_HEADER_SIZE = 8"
definition NEXT_IP4_LOOKUP :: nat where "NEXT_IP4_LOOKUP = 0"

definition set_flag :: "nat \<Rightarrow> nat \<Rightarrow> nat" where
  "set_flag flags flag = (if flags_contain flags flag then flags else flags + flag)"

definition be16_bytes :: "nat \<Rightarrow> nat list" where
  "be16_bytes x = [x div 256 mod 256, x mod 256]"

text \<open>The IP header with the checksum field \<open>ck\<close>, as its two bytes in memory, and the UDP header behind it.\<close>

definition ip_header :: "nat list \<Rightarrow> nat list \<Rightarrow> nat list" where
  "ip_header dest ck = [69, 0] @ be16_bytes UDP_HEADER_SIZE @ [0, 0, 0, 0, 128, IP_PROTOCOL_UDP] @ ck @ [0, 0, 0, 0] @ dest"

definition udp_header :: "nat list" where
  "udp_header = be16_bytes 8 @ be16_bytes 8 @ be16_bytes 0 @ [0, 0]"

definition write_mem :: "nat list \<Rightarrow> nat \<Rightarrow> nat list \<Rightarrow> fault + nat list" where
  "write_mem mem at bs =
     (if at + length bs \<le> length mem then Inr (take at mem @ bs @ drop (at + length bs) mem) else Inl Undefined_Behaviour)"

definition assert_that :: "bool \<Rightarrow> fault + unit" where
  "assert_that c = (if c then Inr () else Inl Panic)"

text \<open>
  Filling in the buffer.  \<open>checksum\<close> is the C function that computes the checksum of a header, given
  as its bytes in memory; \<open>data_size\<close> is the default size of the data of a buffer.
\<close>

definition fill_packet :: "bool \<Rightarrow> (nat list \<Rightarrow> nat list) \<Rightarrow> nat \<Rightarrow> nat list \<Rightarrow> packet \<Rightarrow> fault + packet" where
  "fill_packet dbg checksum data_size dest b =
     (let b = set_rx_sw_if_index LOCAL0 b in
      try_bind (assert_that (rx_sw_if_index b = LOCAL0)) (\<lambda>_.
      let b = set_tx_sw_if_index None b in
      try_bind (assert_that (tx_sw_if_index b = None)) (\<lambda>_.
      let b = b\<lparr>buffer_flags := set_flag (buffer_flags b) VNET_BUFFER_F_LOCALLY_ORIGINATED\<rparr> in
      try_bind (assert_that (IP_UDP_HEADER_SIZE \<le> data_size)) (\<lambda>_.
      try_bind (put_uninit dbg (vlib_buffer.truncate b) IP_UDP_HEADER_SIZE) (\<lambda>(at, vb).
      let header = ip_header dest (checksum (ip_header dest [0, 0])) @ udp_header in
      if at < - VLIB_BUFFER_PRE_DATA_SIZE then Inl Undefined_Behaviour
      else try_bind (write_mem (packet_mem b) (nat (VLIB_BUFFER_PRE_DATA_SIZE + at)) header) (\<lambda>mem.
        Inr (b\<lparr>current_length := current_length vb, packet_mem := mem\<rparr>)))))))"

definition send_packet ::
  "buffer_alloc \<Rightarrow> bool \<Rightarrow> (nat list \<Rightarrow> nat list) \<Rightarrow> nat \<Rightarrow> nat list \<Rightarrow> buffer_pool \<Rightarrow> fault + buffer_pool" where
  "send_packet A dbg checksum data_size dest P =
     (case alloc_buffer A P of
        None \<Rightarrow> Inr (P\<lparr>bp_errors := bp_errors P + 1\<rparr>)
      | Some (i, P) \<Rightarrow>
          try_bind (buffer_drop i P) (\<lambda>P.
          case alloc_buffer A P of
            None \<Rightarrow> Inr (P\<lparr>bp_errors := bp_errors P + 1\<rparr>)
          | Some (i, P) \<Rightarrow>
              try_bind (as_buffer_ref dbg i P) (\<lambda>p.
              case vm_packets (bp_main P) p of
                None \<Rightarrow> Inl Undefined_Behaviour
              | Some b \<Rightarrow>
                  try_bind (fill_packet dbg checksum data_size dest b) (\<lambda>b.
                    enqueue_one dbg (into_parts i) NEXT_IP4_LOOKUP (set_packet p b P)))))"

lemma as_buffer_ref_exact:
  assumes "i < 2 ^ 26" "i * 64 < vm_mem_size (bp_main P)"
  shows "as_buffer_ref dbg i P = Inr (buffer_address P i)"
proof -
  have "i * 2 ^ CLIB_LOG2_CACHE_LINE_BYTES mod 2 ^ 32 = i * 64"
    using assms(1) by (simp add: CLIB_LOG2_CACHE_LINE_BYTES_def)
  then show ?thesis using assms(2)
    by (simp add: as_buffer_ref_def get_buffers_def debug_assert_def generic_ptr_def index_assert_def buffer_address_def)
qed

lemma write_read_mem: "write_mem mem at bs = Inr mem' \<Longrightarrow> take (length bs) (drop at mem') = bs \<and> length mem' = length mem"
  by (auto simp: write_mem_def split: if_splits)

text \<open>A buffer with room for the headers behind its data.\<close>

definition fillable :: "packet \<Rightarrow> bool" where
  "fillable b \<longleftrightarrow> length (sw_if_index b) = 2 \<and> - VLIB_BUFFER_PRE_DATA_SIZE \<le> current_data b \<and>
     current_length b + IP_UDP_HEADER_SIZE \<le> U16_MAX \<and>
     nat (VLIB_BUFFER_PRE_DATA_SIZE + current_data b) + current_length b + IP_UDP_HEADER_SIZE \<le> length (packet_mem b)"

lemma fill_packet_exact:
  assumes "fillable b" "IP_UDP_HEADER_SIZE \<le> data_size" "length (checksum (ip_header dest [0, 0])) = 2" "length dest = 4"
  defines "at \<equiv> nat (VLIB_BUFFER_PRE_DATA_SIZE + current_data b) + current_length b"
    and "header \<equiv> ip_header dest (checksum (ip_header dest [0, 0])) @ udp_header"
  shows "if rx_sw_if_index b \<noteq> LOCAL0 then fill_packet dbg checksum data_size dest b = Inl Panic
    else \<exists>b'. fill_packet dbg checksum data_size dest b = Inr b' \<and> current_length b' = current_length b + IP_UDP_HEADER_SIZE \<and>
      current_data b' = current_data b \<and> take IP_UDP_HEADER_SIZE (drop at (packet_mem b')) = header \<and>
      rx_sw_if_index b' = LOCAL0 \<and> tx_sw_if_index b' = None"
proof -
  have len: "length header = IP_UDP_HEADER_SIZE"
    using assms(3,4) by (simp add: header_def ip_header_def udp_header_def be16_bytes_def IP_UDP_HEADER_SIZE_def)
  have w: "\<exists>mem. write_mem (packet_mem b) at header = Inr mem \<and> take IP_UDP_HEADER_SIZE (drop at mem) = header"
    using assms(1) len by (auto simp: write_mem_def fillable_def at_def)
  then obtain mem where mem: "write_mem (packet_mem b) at header = Inr mem" "take IP_UDP_HEADER_SIZE (drop at mem) = header" by blast
  have at: "nat (VLIB_BUFFER_PRE_DATA_SIZE + (current_data b + int (current_length b))) = at"
    using assms(1) nat_add_distrib [of "VLIB_BUFFER_PRE_DATA_SIZE + current_data b" "int (current_length b)"]
    by (simp add: at_def fillable_def add.assoc)
  obtain x y where sw: "sw_if_index b = [x, y]"
    using assms(1) by (auto simp: fillable_def length_Suc_conv numeral_2_eq_2)
  have put: "put_uninit dbg (vlib_buffer.truncate b) IP_UDP_HEADER_SIZE =
      Inr (current_data b + int (current_length b), (vlib_buffer.truncate b)\<lparr>current_length := current_length b + IP_UDP_HEADER_SIZE\<rparr>)"
    using assms(1) by (simp add: put_uninit_def debug_assert_def arith_add_def fillable_def vlib_buffer.truncate_def)
  show ?thesis
  proof (cases "x = LOCAL0")
    case False
    then show ?thesis
      by (simp add: fill_packet_def assert_that_def sw set_rx_sw_if_index_def rx_sw_if_index_def VLIB_RX_def VLIB_TX_def Let_def)
  next
    case True
    have "\<not> current_data b + int (current_length b) < - VLIB_BUFFER_PRE_DATA_SIZE" using assms(1) by (simp add: fillable_def)
    then show ?thesis
      using mem at put True assms(2) unfolding header_def
      by (simp add: fill_packet_def assert_that_def sw set_rx_sw_if_index_def rx_sw_if_index_def set_tx_sw_if_index_def tx_sw_if_index_def
          VLIB_RX_def VLIB_TX_def Let_def vlib_buffer.truncate_def)
  qed
qed

lemma packet_after_first:
  assumes "A P = Some (i, b)" "i \<notin> bp_owned P"
  defines "P1 \<equiv> (set_packet (buffer_address P i) b P)\<lparr>bp_freed := bp_freed P @ [i]\<rparr>"
  assumes "case A P1 of None \<Rightarrow> True | Some (j, c) \<Rightarrow>
      j \<notin> bp_owned P \<and> j < 2 ^ 26 \<and> j * 64 < vm_mem_size (bp_main P) \<and> fillable c"
    and "IP_UDP_HEADER_SIZE \<le> data_size" "length (checksum (ip_header dest [0, 0])) = 2" "length dest = 4"
  shows "case A P1 of
      None \<Rightarrow> send_packet A dbg checksum data_size dest P = Inr (P1\<lparr>bp_errors := bp_errors P1 + 1\<rparr>)
    | Some (j, c) \<Rightarrow>
        if rx_sw_if_index c \<noteq> LOCAL0 then send_packet A dbg checksum data_size dest P = Inl Panic
        else \<exists>P' c'. send_packet A dbg checksum data_size dest P = Inr P' \<and> bp_owned P' = bp_owned P \<and>
          bp_freed P' = bp_freed P @ [i] \<and> bp_enqueued P' = bp_enqueued P @ [(j, NEXT_IP4_LOOKUP)] \<and> bp_errors P' = bp_errors P \<and>
          vm_packets (bp_main P') (buffer_address P j) = Some c' \<and> current_length c' = current_length c + IP_UDP_HEADER_SIZE \<and>
          be16 (take 2 (drop (nat (VLIB_BUFFER_PRE_DATA_SIZE + current_data c) + current_length c + 2) (packet_mem c'))) = 8"
proof -
  let ?a = "(set_packet (buffer_address P i) b P)\<lparr>bp_owned := insert i (bp_owned P)\<rparr>"
  have a1: "alloc_buffer A P = Some (i, ?a)" using assms(1) by (simp add: alloc_buffer_def)
  have d: "buffer_drop i ?a = Inr P1"
    using assms(2) by (simp add: buffer_drop_def P1_def set_packet_def)
  have P1: "bp_owned P1 = bp_owned P" "bp_enqueued P1 = bp_enqueued P" "bp_errors P1 = bp_errors P" "bp_freed P1 = bp_freed P @ [i]"
    "buffer_address P1 j = buffer_address P j" "vm_mem_size (bp_main P1) = vm_mem_size (bp_main P)"
    "vm_mem_start (bp_main P1) = vm_mem_start (bp_main P)" for j
    by (simp_all add: P1_def set_packet_def buffer_address_def)
  show ?thesis
  proof (cases "A P1")
    case None
    then show ?thesis using a1 d P1 by (simp add: send_packet_def alloc_buffer_def [of A P1])
  next
    case (Some jc)
    obtain j c where jc: "jc = (j, c)" by (cases jc)
    let ?b = "(set_packet (buffer_address P1 j) c P1)\<lparr>bp_owned := insert j (bp_owned P1)\<rparr>"
    have c: "j \<notin> bp_owned P" "j < 2 ^ 26" "j * 64 < vm_mem_size (bp_main P)" "fillable c" using assms(4) Some jc by auto
    have a2: "alloc_buffer A P1 = Some (j, ?b)" using Some jc by (simp add: alloc_buffer_def)
    have r: "as_buffer_ref dbg j ?b = Inr (buffer_address P j)"
      using as_buffer_ref_exact [of j ?b dbg] c by (simp add: P1 set_packet_def buffer_address_def)
    have v: "vm_packets (bp_main ?b) (buffer_address P j) = Some c" by (simp add: set_packet_def P1)
    have s: "send_packet A dbg checksum data_size dest P = try_bind (fill_packet dbg checksum data_size dest c) (\<lambda>c.
        enqueue_one dbg (into_parts j) NEXT_IP4_LOOKUP (set_packet (buffer_address P j) c ?b))"
      using a1 d a2 r v by (simp add: send_packet_def)
    note f = fill_packet_exact [where dbg = dbg and checksum = checksum, OF c(4) assms(5-7)]
    show ?thesis
    proof (cases "rx_sw_if_index c = LOCAL0")
      case False
      then show ?thesis using f s Some jc by simp
    next
      case True
      then obtain c' where c': "fill_packet dbg checksum data_size dest c = Inr c'" "current_length c' = current_length c + IP_UDP_HEADER_SIZE"
        "take IP_UDP_HEADER_SIZE (drop (nat (VLIB_BUFFER_PRE_DATA_SIZE + current_data c) + current_length c) (packet_mem c')) =
          ip_header dest (checksum (ip_header dest [0, 0])) @ udp_header" using f by auto
      have "take 2 (drop 2 (take IP_UDP_HEADER_SIZE (drop n m))) = take 2 (drop (n + 2) m)" for n m
        by (simp add: drop_take IP_UDP_HEADER_SIZE_def add.commute)
      from this [of "nat (VLIB_BUFFER_PRE_DATA_SIZE + current_data c) + current_length c" "packet_mem c'"] c'(3)
      have "take 2 (drop (nat (VLIB_BUFFER_PRE_DATA_SIZE + current_data c) + current_length c + 2) (packet_mem c')) = [0, 8]"
        by (simp add: ip_header_def be16_bytes_def UDP_HEADER_SIZE_def)
      then have "be16 (take 2 (drop (nat (VLIB_BUFFER_PRE_DATA_SIZE + current_data c) + current_length c + 2) (packet_mem c'))) = 8"
        by (simp only: be16_def) simp
      then show ?thesis using s c'(1,2) Some jc True c(1)
        by (simp add: enqueue_one_def buffer_enqueue_to_next_def debug_assert_def into_parts_def set_packet_def P1)
    qed
  qed
qed

text \<open>C38: The process node allocates a buffer, frees it, allocates another one and enqueues that to
  \<open>ip4-lookup\<close> with a packet of 28 bytes appended, and no buffer is left allocated.  When the first or the second
  allocation fails it counts an error, and enqueues nothing.  The IP header says that the packet is 8
  bytes long, less than the header itself.  As the setter of the receive interface does not set it, the
  assertion behind it panics exactly when the second buffer has another receive interface than
  \<open>local0\<close>.\<close>

theorem process_packet_sent:
  defines "first \<equiv> (\<lambda>A P. case A P of None \<Rightarrow> P
      | Some (i, b) \<Rightarrow> (set_packet (buffer_address P i) b P)\<lparr>bp_freed := bp_freed P @ [i]\<rparr>)"
  assumes "case A P of None \<Rightarrow> True | Some (i, b) \<Rightarrow> i \<notin> bp_owned P \<and>
      (case A (first A P) of None \<Rightarrow> True | Some (j, c) \<Rightarrow>
        j \<notin> bp_owned P \<and> j < 2 ^ 26 \<and> j * 64 < vm_mem_size (bp_main P) \<and> fillable c)"
    and "IP_UDP_HEADER_SIZE \<le> data_size" "length (checksum (ip_header dest [0, 0])) = 2" "length dest = 4"
  shows "case A P of
      None \<Rightarrow> send_packet A dbg checksum data_size dest P = Inr (P\<lparr>bp_errors := bp_errors P + 1\<rparr>)
    | Some (i, b) \<Rightarrow>
       (case A (first A P) of
          None \<Rightarrow> send_packet A dbg checksum data_size dest P =
            Inr ((first A P)\<lparr>bp_errors := bp_errors P + 1\<rparr>)
        | Some (j, c) \<Rightarrow>
            if rx_sw_if_index c \<noteq> LOCAL0 then send_packet A dbg checksum data_size dest P = Inl Panic
            else \<exists>P' c'. send_packet A dbg checksum data_size dest P = Inr P' \<and> bp_owned P' = bp_owned P \<and>
              bp_freed P' = bp_freed P @ [i] \<and> bp_enqueued P' = bp_enqueued P @ [(j, NEXT_IP4_LOOKUP)] \<and> bp_errors P' = bp_errors P \<and>
              vm_packets (bp_main P') (buffer_address P j) = Some c' \<and> current_length c' = current_length c + IP_UDP_HEADER_SIZE \<and>
              be16 (take 2 (drop (nat (VLIB_BUFFER_PRE_DATA_SIZE + current_data c) + current_length c + 2) (packet_mem c'))) = 8)"
proof (cases "A P")
  case None
  then show ?thesis by (simp add: send_packet_def alloc_buffer_def)
next
  case (Some ib)
  obtain i b where ib: "A P = Some (i, b)" using Some by (cases ib) auto
  have first: "first A P = (set_packet (buffer_address P i) b P)\<lparr>bp_freed := bp_freed P @ [i]\<rparr>"
    "bp_errors (first A P) = bp_errors P" by (simp_all add: first_def ib set_packet_def)
  have i: "i \<notin> bp_owned P" "case A (first A P) of None \<Rightarrow> True | Some (j, c) \<Rightarrow>
      j \<notin> bp_owned P \<and> j < 2 ^ 26 \<and> j * 64 < vm_mem_size (bp_main P) \<and> fillable c"
    using assms(2) by (simp_all add: ib)
  note r = packet_after_first [where dbg = dbg and checksum = checksum and data_size = data_size and dest = dest,
      OF ib i(1) i(2) [unfolded first(1)] assms(3-5), folded first(1), unfolded first(2)]
  show ?thesis unfolding ib option.case prod.case using r .
qed

text \<open>An allocator that gives the lowest of two buffers that is free.\<close>

definition two_buffers :: "nat \<Rightarrow> buffer_alloc" where
  "two_buffers rx P = (if 0 \<notin> bp_owned P then Some (0, (port_packet 0 0)\<lparr>current_length := 0, sw_if_index := [rx, 0]\<rparr>)
     else if 1 \<notin> bp_owned P then Some (1, (port_packet 0 0)\<lparr>current_length := 0, sw_if_index := [rx, 0]\<rparr>) else None)"

definition empty_pool :: buffer_pool where
  "empty_pool = \<lparr>bp_main = \<lparr>vm_mem_start = 4096, vm_mem_size = 1024, vm_packets = Map.empty\<rparr>, bp_owned = {}, bp_freed = [],
     bp_enqueued = [], bp_errors = 0\<rparr>"

lemma process_packet_sent_witness:
  "(\<exists>P'. send_packet (two_buffers 0) True (\<lambda>_. [1, 2]) 2048 [10, 0, 0, 1] empty_pool = Inr P' \<and>
     bp_freed P' = [0] \<and> bp_enqueued P' = [(0, 0)] \<and> bp_owned P' = {}) \<and>
   send_packet (\<lambda>_. None) True (\<lambda>_. [1, 2]) 2048 [10, 0, 0, 1] empty_pool = Inr (empty_pool\<lparr>bp_errors := 1\<rparr>) \<and>
   send_packet (two_buffers 3) True (\<lambda>_. [1, 2]) 2048 [10, 0, 0, 1] empty_pool = Inl Panic"
proof -
  have f: "fillable ((port_packet 0 0)\<lparr>current_length := 0, sw_if_index := [rx, 0]\<rparr>)" for rx
    by (simp add: fillable_def port_packet_def sample_packet_def VLIB_BUFFER_PRE_DATA_SIZE_def IP_UDP_HEADER_SIZE_def U16_MAX_def)
  have l: "(2048 :: nat) \<ge> IP_UDP_HEADER_SIZE" "length [1, 2 :: nat] = 2" "length [10, 0, 0, 1 :: nat] = 4"
    by (simp_all add: IP_UDP_HEADER_SIZE_def)
  note r = process_packet_sent [where P = empty_pool and dbg = True and checksum = "\<lambda>_. [1, 2]", OF _ l]
  show ?thesis
    using r [of "two_buffers 0"] r [of "two_buffers 3"] r [of "\<lambda>_. None"] f
    by (auto simp: two_buffers_def empty_pool_def set_packet_def rx_sw_if_index_def VLIB_RX_def LOCAL0_def NEXT_IP4_LOOKUP_def)
qed

section \<open>The messages for the process node\<close>

datatype process_message = Enable nat | Disable

text \<open>The destination after messages.\<close>

fun last_destination :: "nat option \<Rightarrow> process_message list \<Rightarrow> nat option" where
  "last_destination d [] = d"
| "last_destination d (Enable e # ms) = last_destination (Some e) ms"
| "last_destination d (Disable # ms) = last_destination None ms"

definition has_enable :: "process_message list \<Rightarrow> bool" where
  "has_enable ms \<longleftrightarrow> list_ex (\<lambda>m. m \<noteq> Disable) ms"

text \<open>How many messages enable the node.\<close>

definition enables :: "process_message list \<Rightarrow> nat" where
  "enables ms = length (filter (\<lambda>m. m \<noteq> Disable) ms)"

lemma enables_simps [simp]: "enables [] = 0" "enables (Enable d # ms) = enables ms + 1" "enables (Disable # ms) = enables ms"
  by (simp_all add: enables_def)

lemma has_enable_simps [simp]: "\<not> has_enable []" "has_enable (Enable d # ms)" "has_enable (Disable # ms) = has_enable ms"
  by (simp_all add: has_enable_def)

lemma last_destination_kept: "\<not> has_enable ms \<Longrightarrow> last_destination d ms = Some e \<Longrightarrow> d = Some e"
  by (induction d ms rule: last_destination.induct) (auto simp: has_enable_def)

lemma last_destination_append: "last_destination d (ms @ ns) = last_destination (last_destination d ms) ns"
  by (induction d ms rule: last_destination.induct) auto

end
