(* ===== verification/Timer_Near.thy ===== *)
theory Timer_Near
  imports Tw_Timer_Props
begin

text \<open>
  Timers that are less than \<open>NUM_SLOTS\<close> ticks away: they wait in level 0 of the wheel
  (\<open>vppinfra/tw_timer.rs\<close>), in the slot of their expire time, and fire at that tick and no other,
  whatever other timers are started and stopped meanwhile.
\<close>

definition near :: "wheel_dims \<Rightarrow> 'c timer_wheel \<Rightarrow> nat \<times> nat \<times> 'c \<Rightarrow> bool" where
  "near d w x \<longleftrightarrow> (\<exists>S. wheel_rel d w [] S \<and> in_sync d S \<and> sw_time S \<le> U64_MAX \<and> sw_time S < fst (snd x) \<and>
     fst (snd x) - sw_time S < num_slots d \<and> x \<in> set (sw_slots S 0 ((fst (snd x) - 1) mod num_slots d)))"

lemma near_dims: "near d w x \<Longrightarrow> dims_ok d"
  by (auto simp: near_def wheel_rel_def)

lemma near_time: "near d w x \<Longrightarrow> current_time w < fst (snd x)"
  using wheel_rel_now by (fastforce simp: near_def)

lemma near_live:
  assumes "near d w x"
  shows "x \<in> live w"
proof -
  obtain S where S: "wheel_rel d w [] S" "x \<in> set (sw_slots S 0 ((fst (snd x) - 1) mod num_slots d))"
    using assms by (auto simp: near_def)
  have "0 < num_levels d" "0 < num_slots d" using near_dims[OF assms] by (simp_all add: dims_ok_def)
  then have "x \<in># pending d S" using S(2) unfolding in_pending by (meson mod_less_divisor)
  then show ?thesis using live_pending[OF S(1)] by simp
qed

lemma near_start:
  assumes reach: "wheel_reach P d w" and k: "vacant_key w k" and e: "current_time w < e" "e < current_time w + num_slots d"
    and run: "start_timer_absolute d k e c w = Some (r, w')"
  shows "near d w' (k, e, c)"
proof -
  obtain S where S: "wheel_rel d w [] S" "slot_inv P d S" using wheel_reach_inv[OF reach] by blast
  have t: "sw_time S = current_time w" using wheel_rel_now[OF S(1)] by simp
  have d: "dims_ok d" using S(1) by (simp add: wheel_rel_def)
  then have L: "0 < num_levels d" by (simp add: dims_ok_def)
  have kk: "k \<notin> dom (timers w)" "k < EMPTY_INDEX" using k by (auto simp: vacant_key_def)
  have w': "wheel_rel d w' [] (sw_add d (k, e, c) S)"
    using start_timer_absolute_refines[OF S(1) kk, of e c] run e t by auto
  have sync: "in_sync d S" "sw_time S \<le> U64_MAX" using S(2) by (simp_all add: slot_inv_def)
  have "sw_pos S 0 = sw_time S mod num_slots d" using sync(1) L by (simp add: in_sync_def in_step_def steps_at_def)
  then have "(sw_pos S 0 + (e - sw_time S) div num_slots d ^ 0 - 1) mod num_slots d = (e - 1) mod num_slots d"
    using e t by (metis (no_types, lifting) Nat.add_diff_assoc add_diff_inverse_nat div_by_1 less_imp_not_less mod_add_left_eq power_0
        Suc_leI One_nat_def zero_less_diff)
  moreover have "place d (sw_pos S) (e - sw_time S) = (0, (sw_pos S 0 + (e - sw_time S) div num_slots d ^ 0 - 1) mod num_slots d)"
    by (rule place_near) (use L e t in auto)
  ultimately have "(k, e, c) \<in> set (sw_slots (sw_add d (k, e, c) S) 0 ((e - 1) mod num_slots d))"
    by (simp add: sw_add_slots)
  then show ?thesis unfolding near_def
    using w' in_sync_frame(1)[OF sync(1)] sync(2) e t by (intro exI[of _ "sw_add d (k, e, c) S"]) simp
qed

lemma near_start_other:
  assumes n: "near d w x" and k: "vacant_key w k" and run: "start_timer_absolute d k e c w = Some (r, w')"
  shows "near d w' x"
proof -
  obtain S where S: "wheel_rel d w [] S" "in_sync d S" "sw_time S \<le> U64_MAX" "sw_time S < fst (snd x)"
    "fst (snd x) - sw_time S < num_slots d" "x \<in> set (sw_slots S 0 ((fst (snd x) - 1) mod num_slots d))"
    using n by (auto simp: near_def)
  have kk: "k \<notin> dom (timers w)" "k < EMPTY_INDEX" using k by (auto simp: vacant_key_def)
  show ?thesis
  proof (cases "e \<le> sw_time S")
    case True
    then have "w' = w" using start_timer_absolute_refines[OF S(1) kk, of e c] run by simp
    with n show ?thesis by simp
  next
    case False
    then have "wheel_rel d w' [] (sw_add d (k, e, c) S)"
      using start_timer_absolute_refines[OF S(1) kk, of e c] run by auto
    then show ?thesis unfolding near_def
      using in_sync_frame(1)[OF S(2)] S(3-6) by (intro exI[of _ "sw_add d (k, e, c) S"]) (simp add: sw_add_slots)
  qed
qed

lemma near_stop:
  assumes n: "near d w x" and run: "stop_timer h w = Some (r, w')" and h: "h \<noteq> fst x"
  shows "near d w' x"
proof -
  obtain S where S: "wheel_rel d w [] S" "in_sync d S" "sw_time S \<le> U64_MAX" "sw_time S < fst (snd x)"
    "fst (snd x) - sw_time S < num_slots d" "x \<in> set (sw_slots S 0 ((fst (snd x) - 1) mod num_slots d))"
    using n by (auto simp: near_def)
  show ?thesis
  proof (cases "\<exists>e c. sw_holds d S (h, e, c)")
    case True
    then obtain e c where "sw_holds d S (h, e, c)" by blast
    from stop_timer_refines[OF S(1) this] run have "wheel_rel d w' [] (sw_remove h S)" by auto
    then show ?thesis unfolding near_def
      using in_sync_frame(2)[OF S(2)] S(3-6) h by (intro exI[of _ "sw_remove h S"]) (simp add: sw_remove_def)
  next
    case False
    then have "w' = w" using stop_timer_absent[OF S(1)] run by auto
    with n show ?thesis by simp
  qed
qed

text \<open>A timer that is not due is drained from its slot only at its own tick.\<close>

lemma not_drained_before:
  assumes "t0 < t" "t < e" "e - t0 < num_slots d"
  shows "\<not> drained_at d t 0 ((e - 1) mod num_slots d)"
proof
  assume "drained_at d t 0 ((e - 1) mod num_slots d)"
  then have "(e - 1) mod num_slots d = (t - 1) mod num_slots d" by (simp add: drained_at_def)
  moreover have "t - 1 \<le> e - 1" using assms(2) by simp
  ultimately have "num_slots d dvd (e - 1) - (t - 1)" by (metis mod_eq_dvd_iff_nat)
  moreover have "0 < (e - 1) - (t - 1)" "(e - 1) - (t - 1) < num_slots d" using assms by linarith+
  ultimately show False using nat_dvd_not_less by blast
qed

lemma near_waits:
  assumes n: "near d w x" and t: "current_time w + n < fst (snd x)" "current_time w + n \<le> U64_MAX"
  shows "\<exists>ex w'. expire_timers d n w = Some (ex, w') \<and> near d w' x \<and> current_time w' = current_time w + n"
proof -
  obtain S where S: "wheel_rel d w [] S" "in_sync d S" "sw_time S \<le> U64_MAX" "sw_time S < fst (snd x)"
    "fst (snd x) - sw_time S < num_slots d" "x \<in> set (sw_slots S 0 ((fst (snd x) - 1) mod num_slots d))"
    using n by (auto simp: near_def)
  have now: "current_time w = sw_time S" using wheel_rel_now[OF S(1)] .
  have d: "0 < num_levels d" "(fst (snd x) - 1) mod num_slots d < num_slots d" using near_dims[OF n] by (simp_all add: dims_ok_def)
  have nd: "\<not> drained_at d u 0 ((fst (snd x) - 1) mod num_slots d)" if "sw_time S < u" "u \<le> sw_time S + n" for u
    using not_drained_before[OF that(1) _ S(5)] that(2) t(1) now by simp
  have "sw_time S + n \<le> U64_MAX" using t(2) now by simp
  from ticks_keep[OF S(1,2) this d S(6) nd] obtain ex w' S' where
    r: "expire_timers d n w = Some (ex, w')" "wheel_rel d w' [] S'" "in_sync d S'" "sw_time S' = sw_time S + n"
      "x \<in> set (sw_slots S' 0 ((fst (snd x) - 1) mod num_slots d))" by blast
  have "near d w' x" unfolding near_def using r t S(5) now by (intro exI[of _ S']) simp
  then show ?thesis using r wheel_rel_now[OF r(2)] now by auto
qed

lemma near_fires:
  assumes n: "near d w x" and t: "fst (snd x) \<le> current_time w + n" "current_time w + n \<le> U64_MAX"
  shows "\<exists>ex w'. expire_timers d n w = Some (ex, w') \<and> x \<notin> live w'"
proof -
  let ?e = "fst (snd x)"
  define m where "m = ?e - 1 - current_time w"
  have now: "current_time w < ?e" using near_time[OF n] .
  define r where "r = n - m - 1"
  have m: "current_time w + m = ?e - 1" "m + Suc r = n" using t(1) now by (simp_all add: m_def r_def)
  have "current_time w + m < ?e" "current_time w + m \<le> U64_MAX" using m(1) now t by linarith+
  from near_waits[OF n this] obtain e1 w1 where
    1: "expire_timers d m w = Some (e1, w1)" "near d w1 x" "current_time w1 = ?e - 1" using m(1) by auto
  obtain S where S: "wheel_rel d w1 [] S" "in_sync d S" "sw_time S \<le> U64_MAX"
    "x \<in> set (sw_slots S 0 ((?e - 1) mod num_slots d))" using 1(2) by (auto simp: near_def)
  let ?S1 = "snd (sw_tick d S)"
  have d: "dims_ok d" using near_dims[OF n] .
  then have L: "0 < num_levels d" "(?e - 1) mod num_slots d < num_slots d" by (simp_all add: dims_ok_def)
  have s: "sw_time S = ?e - 1" using wheel_rel_now[OF S(1)] 1(3) by simp
  have "sw_time S < U64_MAX" using s t now by linarith
  from tick_refines[OF S(1) this] obtain w2 where
    2: "tick d w1 = Some (fst (sw_tick d S), w2)" "wheel_rel d w2 [] ?S1" by blast
  obtain X where X: "pending d S = pending d ?S1 + mset X"
    "\<And>l s y. l < num_levels d \<Longrightarrow> s < num_slots d \<Longrightarrow> y \<in> set (sw_slots S l s) \<Longrightarrow>
       (if drained_at d (sw_time S + 1) l s then is_due (sw_time S + 1) y \<longrightarrow> y \<in> set X else y \<in> set (sw_slots ?S1 l s))"
    using tick_drains[OF d S(2)] by blast
  have "drained_at d (sw_time S + 1) 0 ((?e - 1) mod num_slots d)" using s now by (simp add: drained_at_def)
  then have x: "x \<in> set X" using X(2)[OF L S(4)] s by (simp add: is_due_def)
  have "x \<notin># pending d ?S1"
    using in_turn_once[OF S(1) X(1) x] .
  then have dead: "x \<notin> live w2" using live_pending[OF 2(2)] by simp
  have c2: "current_time w2 = ?e" using wheel_rel_now[OF 2(2)] s now by simp
  have "sw_time ?S1 \<le> U64_MAX" using s t now by simp
  then have ok2: "wheel_ok d w2" using 2(2) by (auto simp: wheel_ok_def)
  have "current_time w2 + r \<le> U64_MAX" using c2 m t(2) now by linarith
  with wheel.expire_contexts[OF ok2] obtain e3 w3 where 3: "expire_timers d r w2 = Some (e3, w3)" "live w3 \<subseteq> live w2" by metis
  have "expire_timers d (m + Suc r) w = Some (e1 @ fst (sw_tick d S) @ e3, w3)"
    unfolding expire_timers_add using 1(1) 2(1) 3(1) by simp
  with 3(2) dead show ?thesis unfolding m(2) by blast
qed

end
