(* ===== verification/Plugin_Pace.thy ===== *)
theory Plugin_Pace
  imports Plugin_Process Process_Timer Timer_Near
begin

text \<open>
  The function of the process node of the test plugin (\<open>vpp-test-plugin/src/lib.rs\<close>), polled by
  \<open>vpp_plugin_rs_poll_async_coroutine\<close> (\<open>Process_Timer\<close>) and with its sleeps in the timer wheel of the
  node: when it sends packets, and where to.
\<close>

section \<open>The function of the node\<close>

text \<open>
  What the platform decides: the latest \<open>Instant\<close>, the time that the \<open>n\<close>-th call of \<open>Instant::now\<close>
  returns, and the keys that the two slabs give to a new timer.
\<close>

record process_env =
  pe_instant_max :: nat
  pe_clock :: "nat \<Rightarrow> nat"
  pe_fresh :: "process_wheel \<Rightarrow> nat \<times> nat"

text \<open>
  The variables of the function: the destination and the handle of \<open>packet_send_timer\<close>, which is missing
  before the first poll.  For the statements, also how many times the clock was read and the function
  polled, and the packets that were sent: in which poll, after how many readings of the clock, where to.
\<close>

record process_state =
  pr_destination :: "nat option"
  pr_timer :: "nat option"
  pr_clock :: nat
  pr_polls :: nat
  pr_sent :: "(nat \<times> nat \<times> nat) list"

definition process_start :: process_state where
  "process_start = \<lparr>pr_destination = None, pr_timer = None, pr_clock = 0, pr_polls = 0, pr_sent = []\<rparr>"

definition SEND_INTERVAL :: nat where
  "SEND_INTERVAL = 100000000"

definition start_sleep ::
  "process_env \<Rightarrow> nat \<Rightarrow> process_state \<Rightarrow> async_shared \<Rightarrow> (nat \<times> process_state \<times> async_shared) option" where
  "start_sleep E duration s ctx =
     (case pe_fresh E (timer_wheel ctx) of
        (key, wkey) \<Rightarrow>
          map_option (\<lambda>(h, ctx). (h, s\<lparr>pr_clock := pr_clock s + 1\<rparr>, ctx))
            (sleep (pe_instant_max E) key wkey (pe_clock E (pr_clock s)) duration (Some ctx)))"

text \<open>\<open>packet_send_timer.set(sleep(...))\<close>: the new sleep is made before the old one is dropped.\<close>

definition set_timer :: "process_env \<Rightarrow> process_state \<Rightarrow> async_shared \<Rightarrow> (process_state \<times> async_shared) option" where
  "set_timer E s ctx = do {
     (h, s, ctx) \<leftarrow> start_sleep E SEND_INTERVAL s ctx;
     old \<leftarrow> pr_timer s;
     pw \<leftarrow> timer_drop old (timer_wheel ctx);
     Some (s\<lparr>pr_timer := Some h\<rparr>, ctx\<lparr>timer_wheel := pw\<rparr>)
   }"

definition process_receive ::
  "process_env \<Rightarrow> process_message \<Rightarrow> process_state \<Rightarrow> async_shared \<Rightarrow> (process_state \<times> async_shared) option" where
  "process_receive E message s ctx =
     (case message of
        Enable new_dest \<Rightarrow> set_timer E (s\<lparr>pr_destination := Some new_dest\<rparr>) ctx
      | Disable \<Rightarrow> Some (s\<lparr>pr_destination := None\<rparr>, ctx))"

text \<open>
  Iterations of the loop until it waits.  The channel holds \<open>queue\<close> and its sender is never dropped.
  \<open>select\<close> polls the channel first and the timer only when there is no message.
\<close>

partial_function (option) process_loop ::
  "process_env \<Rightarrow> process_message list \<Rightarrow> process_state \<Rightarrow> async_shared \<Rightarrow> (process_state \<times> async_shared) option" where
  "process_loop E queue s ctx =
     (case queue of
        message # queue \<Rightarrow> Option.bind (process_receive E message s ctx) (\<lambda>(s, ctx). process_loop E queue s ctx)
      | [] \<Rightarrow>
          (case pr_destination s of
             None \<Rightarrow> Some (s, ctx)
           | Some destination \<Rightarrow>
               Option.bind (pr_timer s) (\<lambda>h.
               Option.bind (timer_poll (timer_wheel ctx) h) (\<lambda>p.
               case p of
                 Pending \<Rightarrow> Some (s, ctx)
               | Ready _ \<Rightarrow>
                   Option.bind (set_timer E (s\<lparr>pr_sent := pr_sent s @ [(pr_polls s, pr_clock s, destination)]\<rparr>) ctx)
                     (\<lambda>(s, ctx). process_loop E [] s ctx)))))"

text \<open>The first poll makes the timer, for a time that never comes.\<close>

definition process_begin :: "process_env \<Rightarrow> process_state \<Rightarrow> async_shared \<Rightarrow> (process_state \<times> async_shared) option" where
  "process_begin E s ctx =
     (case pr_timer s of
        Some _ \<Rightarrow> Some (s, ctx)
      | None \<Rightarrow> do {
          (h, s, ctx) \<leftarrow> start_sleep E (U64_MAX * 1000000000) s ctx;
          Some (s\<lparr>pr_timer := Some h\<rparr>, ctx)
        })"

text \<open>The future of the function; it never completes.\<close>

definition process_poll ::
  "process_env \<Rightarrow> process_message list \<Rightarrow> process_state \<Rightarrow> async_shared option \<Rightarrow>
    (unit poll \<times> process_state \<times> async_shared) option" where
  "process_poll E queue s async_context =
     with_current_async_context async_context (\<lambda>ctx. do {
       (s, ctx) \<leftarrow> process_begin E (s\<lparr>pr_clock := pr_clock s + 1, pr_polls := pr_polls s + 1\<rparr>) ctx;
       (s, ctx) \<leftarrow> process_loop E queue s ctx;
       Some (Pending, s, ctx)
     })"

text \<open>Polls of the coroutine, with the messages that are in the channel at each; every poll reads the clock first.\<close>

fun process_polls ::
  "process_env \<Rightarrow> process_message list list \<Rightarrow> process_state async_ctx \<Rightarrow> process_state async_ctx option" where
  "process_polls E [] c = Some c"
| "process_polls E (queue # queues) c = do {
     s \<leftarrow> future c;
     c \<leftarrow> poll_async_coroutine (process_poll E queue) (pe_clock E (pr_clock s)) c;
     process_polls E queues c
   }"

section \<open>Timers that are near\<close>

lemma pw_near_start:
  assumes reach: "pw_reach pw" and k: "vacant_key (wheel pw) wkey"
    and e: "previous_ticks pw < e" "e < previous_ticks pw + 2048"
    and run: "pw_start_timer key wkey e pw = Some (h, pw')"
  shows "near process_dims (wheel pw') (wkey, e, key)"
proof -
  have w: "wheel_reach (\<lambda>_ _. True) process_dims (wheel pw)" "previous_ticks pw = current_time (wheel pw)"
    using pw_reach_inv[OF reach] by (simp_all add: pw_inv_def)
  obtain r where "start_timer_absolute process_dims wkey e key (wheel pw) = Some (r, wheel pw')"
    using run by (auto simp: pw_start_timer_def Let_def split: bind_splits)
  from near_start[OF w(1) k _ _ this] e w(2) show ?thesis by (simp add: process_dims_def)
qed

lemma pw_near_stop:
  assumes inv: "pw_inv pw" and near: "near process_dims (wheel pw) (wh, e, key)" and old: "old \<noteq> key"
    and run: "pw_stop_timer old pw = Some pw'"
  shows "near process_dims (wheel pw') (wh, e, key)"
proof -
  obtain st where st: "entries pw old = Some st" using run by (auto simp: pw_stop_timer_def split: bind_splits)
  show ?thesis
  proof (cases "wheel_handle st")
    case None
    then have "wheel pw' = wheel pw" using run st by (auto simp: pw_stop_timer_def)
    with near show ?thesis by simp
  next
    case (Some wh')
    then obtain r where r: "stop_timer wh' (wheel pw) = Some (r, wheel pw')"
      using run st by (auto simp: pw_stop_timer_def split: bind_splits)
    obtain e' where "(wh', e', old) \<in> live (wheel pw)" using pw_inv_waiting[OF inv st Some] .
    then have "wh' \<noteq> wh" using near_live[OF near] live_handle_unique[of wh' e' old "wheel pw" e key] old by auto
    then show ?thesis using near_stop[OF near r] by simp
  qed
qed

lemma pw_near_pending:
  assumes "pw_inv pw" "near process_dims (wheel pw) (wh, e, key)"
  shows "timer_poll pw key = Some Pending" "key \<in> dom (entries pw)"
  using pw_inv_entry[OF assms(1) near_live[OF assms(2)]] by (auto simp: timer_poll_def timer_is_ready_def pw_state_def)

lemma pw_near_expire:
  assumes inv: "pw_inv pw" and near: "near process_dims (wheel pw) (wh, e, key)"
    and now: "previous_ticks pw \<le> now" "now \<le> U64_MAX" and run: "pw_expire_timers now pw = Some pw'"
  shows "if now < e then near process_dims (wheel pw') (wh, e, key) else timer_poll pw' key = Some (Ready ())"
proof -
  let ?n = "now - previous_ticks pw"
  have t: "current_time (wheel pw) + ?n = now" using inv now(1) by (simp add: pw_inv_def)
  obtain hs where hs: "expire_timers process_dims ?n (wheel pw) = Some (hs, wheel pw')"
    using run by (auto simp: pw_expire_timers_def saturating_sub_def Let_def split: bind_splits)
  show ?thesis
  proof (cases "now < e")
    case True
    with near_waits[OF near, of ?n] t now(2) hs show ?thesis by simp
  next
    case False
    with near_fires[OF near, of ?n] t now(2) hs have "(wh, e, key) \<in> live (wheel pw) - live (wheel pw')"
      using near_live[OF near] by simp
    then have "key \<in> context_of ` (live (wheel pw) - live (wheel pw'))" by (force simp: context_of_def)
    then have "entries pw' key = Some \<lparr>is_ready = True, wheel_handle = None\<rparr>"
      using expire_inv[OF inv now] run by auto
    with False show ?thesis by (simp add: timer_poll_def timer_is_ready_def pw_state_def)
  qed
qed

section \<open>Time\<close>

text \<open>The clock is monotonic and stays in the range of the platform's instants and of the ticks.\<close>

definition clock_ok :: "process_env \<Rightarrow> nat \<Rightarrow> bool" where
  "clock_ok E epoch \<longleftrightarrow> mono (pe_clock E) \<and> epoch \<le> pe_clock E 0 \<and>
     (\<forall>n. pe_clock E n + SEND_INTERVAL \<le> min (pe_instant_max E) (epoch + U64_MAX * 1000000))"

text \<open>The tick of the \<open>n\<close>-th reading, and the tick for which a sleep that starts at this reading waits.\<close>

definition tick_of :: "process_env \<Rightarrow> nat \<Rightarrow> nat \<Rightarrow> nat" where
  "tick_of E epoch n = (pe_clock E n - epoch) div 1000000"

definition due :: "process_env \<Rightarrow> nat \<Rightarrow> nat \<Rightarrow> nat" where
  "due E epoch n = (pe_clock E n + SEND_INTERVAL - epoch) div 1000000"

lemma clock_range:
  assumes "clock_ok E epoch"
  shows "epoch \<le> pe_clock E n" "pe_clock E n + SEND_INTERVAL \<le> pe_instant_max E"
    "pe_clock E n + SEND_INTERVAL - epoch \<le> U64_MAX * 1000000"
proof -
  have "pe_clock E 0 \<le> pe_clock E n" "epoch \<le> pe_clock E 0" using assms by (simp_all add: clock_ok_def mono_def)
  then show "epoch \<le> pe_clock E n" by (rule order.trans[rotated])
  have "pe_clock E n + SEND_INTERVAL \<le> min (pe_instant_max E) (epoch + U64_MAX * 1000000)"
    using assms unfolding clock_ok_def by blast
  then show "pe_clock E n + SEND_INTERVAL \<le> pe_instant_max E" "pe_clock E n + SEND_INTERVAL - epoch \<le> U64_MAX * 1000000"
    by linarith+
qed

lemma ticks_in_range:
  assumes "clock_ok E (start_time ctx)"
  shows "instant_to_ticks ctx (pe_clock E n) = tick_of E (start_time ctx) n"
    "instant_to_ticks ctx (sleep_deadline (pe_instant_max E) (pe_clock E n) SEND_INTERVAL) = due E (start_time ctx) n"
    "due E (start_time ctx) n \<le> U64_MAX"
proof -
  note r = clock_range[OF assms, of n]
  have "due E (start_time ctx) n \<le> U64_MAX * 1000000 div 1000000" unfolding due_def by (rule div_le_mono[OF r(3)])
  then show d: "due E (start_time ctx) n \<le> U64_MAX" by simp
  have "tick_of E (start_time ctx) n \<le> due E (start_time ctx) n" unfolding tick_of_def due_def by (intro div_le_mono) simp
  then show "instant_to_ticks ctx (pe_clock E n) = tick_of E (start_time ctx) n"
    using d by (simp add: instant_to_ticks_eq tick_of_def)
  show "instant_to_ticks ctx (sleep_deadline (pe_instant_max E) (pe_clock E n) SEND_INTERVAL) = due E (start_time ctx) n"
    using d r(2) by (simp add: instant_to_ticks_eq due_def sleep_deadline_def)
qed

lemma tick_mono: "clock_ok E epoch \<Longrightarrow> m \<le> n \<Longrightarrow> tick_of E epoch m \<le> tick_of E epoch n"
  unfolding tick_of_def by (intro div_le_mono diff_le_mono) (simp add: clock_ok_def mono_def)

lemma due_later:
  assumes "clock_ok E epoch" "m \<le> n"
  shows "tick_of E epoch m < due E epoch n"
proof -
  have "pe_clock E m \<le> pe_clock E n" using assms by (simp add: clock_ok_def mono_def)
  then have "(pe_clock E m - epoch) + 1000000 \<le> pe_clock E n + SEND_INTERVAL - epoch"
    using clock_range(1)[OF assms(1), of m] by (simp add: SEND_INTERVAL_def)
  from div_le_mono[OF this, of 1000000] show ?thesis by (simp add: tick_of_def due_def)
qed

lemma due_near: "pe_clock E n < pe_clock E m + 1900000000 \<Longrightarrow> epoch \<le> pe_clock E m \<Longrightarrow> due E epoch n < tick_of E epoch m + 2048"
  unfolding due_def tick_of_def SEND_INTERVAL_def by linarith

lemma due_reached:
  assumes "due E epoch n \<le> tick_of E epoch m" "epoch \<le> pe_clock E n" "epoch \<le> pe_clock E m"
  shows "pe_clock E n + SEND_INTERVAL < pe_clock E m + 1000000"
  using assms unfolding due_def tick_of_def by linarith

section \<open>The timers of the node\<close>

text \<open>The slabs give vacant keys while there is room for another timer.\<close>

definition fresh_ok :: "process_env \<Rightarrow> bool" where
  "fresh_ok E \<longleftrightarrow> (\<forall>pw. pw_reach pw \<longrightarrow> finite (dom (entries pw)) \<longrightarrow> card (dom (entries pw)) + 6144 < EMPTY_INDEX \<longrightarrow>
     entries pw (fst (pe_fresh E pw)) = None \<and> vacant_key (wheel pw) (snd (pe_fresh E pw)))"

text \<open>Beside the timer of the function the node has at most \<open>K\<close> timers.\<close>

definition node_timers :: "nat \<Rightarrow> process_state \<Rightarrow> async_shared \<Rightarrow> bool" where
  "node_timers K s ctx \<longleftrightarrow> pw_reach (timer_wheel ctx) \<and> finite (dom (entries (timer_wheel ctx))) \<and>
     card (dom (entries (timer_wheel ctx))) \<le> K + (if pr_timer s = None then 0 else 1) \<and>
     (\<forall>h. pr_timer s = Some h \<longrightarrow> h \<in> dom (entries (timer_wheel ctx)))"

text \<open>Timer \<open>h\<close> waits for the tick \<open>e\<close>, and is ready only after that.\<close>

definition waits :: "process_wheel \<Rightarrow> nat \<Rightarrow> nat \<Rightarrow> bool" where
  "waits pw h e \<longleftrightarrow> (\<exists>st. entries pw h = Some st \<and> (is_ready st \<longrightarrow> e \<le> previous_ticks pw)) \<and>
     (\<forall>wh e'. (wh, e', h) \<in> live (wheel pw) \<longrightarrow> e' = e)"

text \<open>The timer of the function has just been started, by the last reading of the clock, in a poll of tick \<open>t\<close>.\<close>

definition just_set :: "process_env \<Rightarrow> process_state \<Rightarrow> async_shared \<Rightarrow> bool" where
  "just_set E s ctx \<longleftrightarrow> 0 < pr_clock s \<and>
     (let e = due E (start_time ctx) (pr_clock s - 1); pw = timer_wheel ctx in
      \<exists>h. pr_timer s = Some h \<and> waits pw h e \<and> timer_poll pw h = Some Pending \<and>
        (e < previous_ticks pw + 2048 \<longrightarrow> (\<exists>wh. near process_dims (wheel pw) (wh, e, h))))"

lemma waits_poll:
  assumes "waits pw h e"
  shows "timer_poll pw h = Some Pending \<or> timer_poll pw h = Some (Ready ()) \<and> e \<le> previous_ticks pw"
proof -
  obtain st where "entries pw h = Some st" "is_ready st \<longrightarrow> e \<le> previous_ticks pw" using assms unfolding waits_def by blast
  then show ?thesis by (cases "is_ready st") (simp_all add: timer_poll_def timer_is_ready_def pw_state_def)
qed

lemma start_sleep_eq:
  assumes "pw_start_timer (fst (pe_fresh E (timer_wheel ctx))) (snd (pe_fresh E (timer_wheel ctx)))
      (instant_to_ticks ctx (sleep_deadline (pe_instant_max E) (pe_clock E (pr_clock s)) duration)) (timer_wheel ctx) = Some (h, pw)"
  shows "start_sleep E duration s ctx = Some (h, s\<lparr>pr_clock := pr_clock s + 1\<rparr>, ctx\<lparr>timer_wheel := pw\<rparr>)"
  using assms
  by (simp add: start_sleep_def sleep_def sleep_new_timeout_def with_current_async_context_def split_beta)

lemma set_timer_ok:
  assumes E: "clock_ok E (start_time ctx)" "fresh_ok E" "K + 6145 < EMPTY_INDEX"
    and n: "node_timers K s ctx" "pr_timer s = Some old"
    and prev: "previous_ticks (timer_wheel ctx) < due E (start_time ctx) (pr_clock s)"
  shows "\<exists>h ctx'. set_timer E s ctx = Some (s\<lparr>pr_timer := Some h, pr_clock := pr_clock s + 1\<rparr>, ctx') \<and>
    start_time ctx' = start_time ctx \<and> previous_ticks (timer_wheel ctx') = previous_ticks (timer_wheel ctx) \<and>
    node_timers K (s\<lparr>pr_timer := Some h, pr_clock := pr_clock s + 1\<rparr>) ctx' \<and>
    just_set E (s\<lparr>pr_timer := Some h, pr_clock := pr_clock s + 1\<rparr>) ctx'"
proof -
  let ?pw = "timer_wheel ctx" and ?e = "due E (start_time ctx) (pr_clock s)"
  define key wkey where k: "key = fst (pe_fresh E ?pw)" "wkey = snd (pe_fresh E ?pw)"
  have pw: "pw_reach ?pw" "finite (dom (entries ?pw))" "card (dom (entries ?pw)) \<le> K + 1" "old \<in> dom (entries ?pw)"
    using n by (simp_all add: node_timers_def)
  have fresh: "entries ?pw key = None" "vacant_key (wheel ?pw) wkey"
    using E(2,3) pw(1-3) unfolding fresh_ok_def k by auto
  have inv: "pw_inv ?pw" using pw_reach_inv[OF pw(1)] ..
  from start_inv[OF inv fresh, of ?e] prev obtain pw1 where
    1: "pw_start_timer key wkey ?e ?pw = Some (key, pw1)" "pw_inv pw1" "previous_ticks pw1 = previous_ticks ?pw"
      "\<forall>h. h \<noteq> key \<longrightarrow> entries pw1 h = entries ?pw h" "live (wheel pw1) = insert (wkey, ?e, key) (live (wheel ?pw))"
      "entries pw1 key = Some \<lparr>is_ready = False, wheel_handle = Some wkey\<rparr>" by auto
  have r1: "pw_reach pw1" by (rule pw_reach_start[OF pw(1) fresh 1(1)])
  have d1: "dom (entries pw1) = insert key (dom (entries ?pw))" using 1(4,6) by (auto simp: dom_def)
  have kd: "key \<in> dom (entries pw1)" using 1(6) by blast
  have old: "old \<noteq> key" "old \<in> dom (entries pw1)" using fresh(1) pw(4) d1 by auto
  then obtain st where "entries pw1 old = Some st" by blast
  from stop_inv[OF 1(2) this] obtain pw2 where
    2: "pw_stop_timer old pw1 = Some pw2" "pw_inv pw2" "entries pw2 = (entries pw1)(old := None)"
      "previous_ticks pw2 = previous_ticks pw1" "live (wheel pw2) = {x \<in> live (wheel pw1). context_of x \<noteq> old}" by blast
  have r2: "pw_reach pw2" by (rule pw_reach_stop[OF r1 2(1)])
  let ?s = "s\<lparr>pr_timer := Some key, pr_clock := pr_clock s + 1\<rparr>" and ?ctx = "ctx\<lparr>timer_wheel := pw2\<rparr>"
  have "set_timer E s ctx = Some (?s, ?ctx)"
    using start_sleep_eq[of E ctx s SEND_INTERVAL key pw1] 1(1) 2(1) n(2) ticks_in_range(2)[OF E(1)]
    by (simp add: set_timer_def timer_drop_def k)
  moreover have "dom (entries pw2) = insert key (dom (entries ?pw) - {old})" using d1 old by (auto simp: 2(3))
  then have "finite (dom (entries pw2))" "card (dom (entries pw2)) \<le> K + 1"
    using pw(2-4) fresh(1) by (auto simp: card_insert_if card_Diff_singleton_if)
  then have "node_timers K ?s ?ctx" using r2 old kd by (simp add: node_timers_def 2(3))
  moreover have "just_set E ?s ?ctx"
  proof -
    have e: "entries pw2 key = Some \<lparr>is_ready = False, wheel_handle = Some wkey\<rparr>" using 1(6) old by (simp add: 2(3))
    have "e' = ?e" if "(wh, e', key) \<in> live (wheel pw2)" for wh e'
      using that 1(5) 2(5) pw_inv_entry[OF inv, of wh e' key] fresh(1) by auto
    with e have w: "waits pw2 key ?e" by (simp add: waits_def)
    have "near process_dims (wheel pw2) (wkey, ?e, key)" if "?e < previous_ticks pw2 + 2048"
      using pw_near_stop[OF 1(2) pw_near_start[OF pw(1) fresh(2) prev _ 1(1)] old(1) 2(1)] that 1(3) 2(4) by simp
    with w e show ?thesis
      by (auto simp: just_set_def Let_def timer_poll_def timer_is_ready_def pw_state_def)
  qed
  ultimately show ?thesis using 1(3) 2(4) by (intro exI[of _ key] exI[of _ ?ctx]) simp
qed

text \<open>What a poll does with the messages before it waits or looks at the timer.\<close>

lemma loop_receives:
  assumes E: "clock_ok E (start_time ctx)" "fresh_ok E" "K + 6145 < EMPTY_INDEX"
    and n: "node_timers K s ctx" "pr_timer s \<noteq> None"
    and prev: "previous_ticks (timer_wheel ctx) = tick_of E (start_time ctx) m" "m < pr_clock s"
  shows "\<exists>s' ctx'. process_loop E queue s ctx = process_loop E [] s' ctx' \<and> start_time ctx' = start_time ctx \<and>
    previous_ticks (timer_wheel ctx') = previous_ticks (timer_wheel ctx) \<and> node_timers K s' ctx' \<and> pr_timer s' \<noteq> None \<and>
    pr_clock s' = pr_clock s + enables queue \<and> pr_sent s' = pr_sent s \<and> pr_polls s' = pr_polls s \<and>
    pr_destination s' = last_destination (pr_destination s) queue \<and>
    (if has_enable queue then just_set E s' ctx' else pr_timer s' = pr_timer s \<and> pr_clock s' = pr_clock s \<and> ctx' = ctx)"
  using assms
proof (induction queue arbitrary: s ctx)
  case Nil
  then show ?case by (intro exI[of _ s] exI[of _ ctx]) (simp add: has_enable_def)
next
  case (Cons message queue)
  show ?case
  proof (cases message)
    case Disable
    let ?s = "s\<lparr>pr_destination := None\<rparr>"
    have "process_loop E (message # queue) s ctx = process_loop E queue ?s ctx"
      by (subst process_loop.simps) (simp add: process_receive_def Disable)
    moreover have "node_timers K ?s ctx" using Cons.prems(4) by (simp add: node_timers_def)
    moreover have "pr_timer ?s \<noteq> None" "m < pr_clock ?s" using Cons.prems(5,7) by simp_all
    ultimately show ?thesis using Cons.IH[of ctx ?s] Cons.prems by (simp add: Disable del: if_split cong: if_cong)
  next
    case (Enable d)
    let ?s = "s\<lparr>pr_destination := Some d\<rparr>"
    obtain old where old: "pr_timer ?s = Some old" using Cons.prems(5) by auto
    have n1: "node_timers K ?s ctx" using Cons.prems(4) by (simp add: node_timers_def)
    have "previous_ticks (timer_wheel ctx) < due E (start_time ctx) (pr_clock ?s)"
      using due_later[OF Cons.prems(1), of m "pr_clock s"] Cons.prems(6,7) by simp
    from set_timer_ok[OF Cons.prems(1-3) n1 old this] obtain h ctx1 where
      1: "set_timer E ?s ctx = Some (?s\<lparr>pr_timer := Some h, pr_clock := pr_clock ?s + 1\<rparr>, ctx1)" "start_time ctx1 = start_time ctx"
        "previous_ticks (timer_wheel ctx1) = previous_ticks (timer_wheel ctx)"
        "node_timers K (?s\<lparr>pr_timer := Some h, pr_clock := pr_clock ?s + 1\<rparr>) ctx1"
        "just_set E (?s\<lparr>pr_timer := Some h, pr_clock := pr_clock ?s + 1\<rparr>) ctx1" by blast
    define s1 where "s1 = ?s\<lparr>pr_timer := Some h, pr_clock := pr_clock ?s + 1\<rparr>"
    have s1: "pr_timer s1 = Some h" "pr_clock s1 = pr_clock s + 1" "pr_destination s1 = Some d" "pr_sent s1 = pr_sent s"
      "pr_polls s1 = pr_polls s" by (simp_all add: s1_def)
    have loop: "process_loop E (message # queue) s ctx = process_loop E queue s1 ctx1"
      using 1(1) by (subst process_loop.simps) (simp add: process_receive_def Enable s1_def)
    have "m < pr_clock s1" using Cons.prems(7) s1(2) by simp
    from Cons.IH[of ctx1 s1, unfolded 1(2,3), OF Cons.prems(1-3) 1(4)[folded s1_def] _ Cons.prems(6) this] s1(1) obtain s2 ctx2 where
      2: "process_loop E queue s1 ctx1 = process_loop E [] s2 ctx2" "start_time ctx2 = start_time ctx"
        "previous_ticks (timer_wheel ctx2) = previous_ticks (timer_wheel ctx)" "node_timers K s2 ctx2" "pr_timer s2 \<noteq> None"
        "pr_clock s2 = pr_clock s1 + enables queue" "pr_sent s2 = pr_sent s1" "pr_polls s2 = pr_polls s1"
        "pr_destination s2 = last_destination (pr_destination s1) queue"
        "if has_enable queue then just_set E s2 ctx2
         else pr_timer s2 = pr_timer s1 \<and> pr_clock s2 = pr_clock s1 \<and> ctx2 = ctx1" by auto
    have "just_set E s2 ctx2"
      using 2(10) 1(5)[folded s1_def] by (cases "has_enable queue") (simp_all add: just_set_def)
    then show ?thesis using loop 2 s1 by (intro exI[of _ s2] exI[of _ ctx2]) (simp add: Enable)
  qed
qed

text \<open>When the channel is empty: the node waits, or sends one packet and then waits.\<close>

lemma loop_rest:
  assumes E: "clock_ok E (start_time ctx)" "fresh_ok E" "K + 6145 < EMPTY_INDEX"
    and n: "node_timers K s ctx" "pr_timer s = Some h"
    and prev: "previous_ticks (timer_wheel ctx) = tick_of E (start_time ctx) m" "m < pr_clock s"
  shows "(pr_destination s = None \<or> timer_poll (timer_wheel ctx) h = Some Pending) \<and> process_loop E [] s ctx = Some (s, ctx) \<or>
    (\<exists>d h' s' ctx'. pr_destination s = Some d \<and> timer_poll (timer_wheel ctx) h = Some (Ready ()) \<and>
      process_loop E [] s ctx = Some (s', ctx') \<and>
      s' = s\<lparr>pr_sent := pr_sent s @ [(pr_polls s, pr_clock s, d)], pr_timer := Some h', pr_clock := pr_clock s + 1\<rparr> \<and>
      start_time ctx' = start_time ctx \<and> previous_ticks (timer_wheel ctx') = previous_ticks (timer_wheel ctx) \<and>
      node_timers K s' ctx' \<and> just_set E s' ctx')"
proof (cases "pr_destination s")
  case None
  then show ?thesis by (simp add: process_loop.simps[of E "[]"])
next
  case (Some d)
  have "h \<in> dom (entries (timer_wheel ctx))" using n by (simp add: node_timers_def)
  then obtain p where p: "timer_poll (timer_wheel ctx) h = Some p"
    by (auto simp: timer_poll_def timer_is_ready_def pw_state_def)
  show ?thesis
  proof (cases p)
    case Pending
    with Some n(2) p show ?thesis by (simp add: process_loop.simps[of E "[]"])
  next
    case (Ready u)
    let ?s = "s\<lparr>pr_sent := pr_sent s @ [(pr_polls s, pr_clock s, d)]\<rparr>"
    have n1: "node_timers K ?s ctx" "pr_timer ?s = Some h" using n by (simp_all add: node_timers_def)
    have "previous_ticks (timer_wheel ctx) < due E (start_time ctx) (pr_clock ?s)"
      using due_later[OF E(1), of m "pr_clock s"] prev by simp
    from set_timer_ok[OF E n1 this] obtain h' ctx' where
      1: "set_timer E ?s ctx = Some (?s\<lparr>pr_timer := Some h', pr_clock := pr_clock ?s + 1\<rparr>, ctx')" "start_time ctx' = start_time ctx"
        "previous_ticks (timer_wheel ctx') = previous_ticks (timer_wheel ctx)"
        "node_timers K (?s\<lparr>pr_timer := Some h', pr_clock := pr_clock ?s + 1\<rparr>) ctx'"
        "just_set E (?s\<lparr>pr_timer := Some h', pr_clock := pr_clock ?s + 1\<rparr>) ctx'" by blast
    define s' where "s' = ?s\<lparr>pr_timer := Some h', pr_clock := pr_clock ?s + 1\<rparr>"
    have "timer_poll (timer_wheel ctx') h' = Some Pending" using 1(5) by (simp add: just_set_def Let_def)
    then have rest: "process_loop E [] s' ctx' = Some (s', ctx')"
      by (simp add: process_loop.simps[of E "[]"] s'_def Some)
    have "process_loop E [] s ctx = process_loop E [] s' ctx'"
      using Some n(2) p Ready 1(1) by (subst process_loop.simps) (simp add: s'_def)
    with rest show ?thesis using Some p Ready 1 by (intro disjI2 exI[of _ d] exI[of _ h'] exI[of _ s'] exI[of _ ctx']) (simp add: s'_def)
  qed
qed

section \<open>One poll\<close>

text \<open>Expiring the timers at the start of a poll, at the next reading of the clock.\<close>

lemma expire_step:
  assumes E: "clock_ok E (start_time ctx)" and n: "node_timers K s ctx"
    and prev: "previous_ticks (timer_wheel ctx) \<le> tick_of E (start_time ctx) (pr_clock s)"
  obtains pw where "pw_expire_timers (instant_to_ticks ctx (pe_clock E (pr_clock s))) (timer_wheel ctx) = Some pw"
    "previous_ticks pw = tick_of E (start_time ctx) (pr_clock s)" "node_timers K s (ctx\<lparr>timer_wheel := pw\<rparr>)"
    "\<And>h e. waits (timer_wheel ctx) h e \<Longrightarrow> waits pw h e"
    "\<And>wh e h. near process_dims (wheel (timer_wheel ctx)) (wh, e, h) \<Longrightarrow>
       if previous_ticks pw < e then near process_dims (wheel pw) (wh, e, h) else timer_poll pw h = Some (Ready ())"
proof -
  let ?pw = "timer_wheel ctx" and ?t = "tick_of E (start_time ctx) (pr_clock s)"
  note t = ticks_in_range(1)[OF E, of "pr_clock s"]
  have max: "?t \<le> U64_MAX" using due_later[OF E order.refl, of "pr_clock s"] ticks_in_range(3)[OF E, of "pr_clock s"] by simp
  have inv: "pw_inv ?pw" "pw_reach ?pw" using n pw_reach_inv by (auto simp: node_timers_def)
  from expire_inv[OF inv(1) prev max] obtain pw where
    e: "pw_expire_timers ?t ?pw = Some pw" "previous_ticks pw = ?t" "live (wheel pw) \<subseteq> live (wheel ?pw)"
      "\<forall>x\<in>live (wheel ?pw) - live (wheel pw). is_due ?t x"
      "entries pw = (\<lambda>h. if h \<in> context_of ` (live (wheel ?pw) - live (wheel pw))
       then Some \<lparr>is_ready = True, wheel_handle = None\<rparr> else entries ?pw h)" by blast
  have dom: "dom (entries pw) = dom (entries ?pw)"
  proof -
    have "context_of ` (live (wheel ?pw) - live (wheel pw)) \<subseteq> dom (entries ?pw)"
      using pw_inv_entry[OF inv(1)] by (auto simp: context_of_def)
    moreover have "dom (entries pw) = context_of ` (live (wheel ?pw) - live (wheel pw)) \<union> dom (entries ?pw)"
      unfolding e(5) by (auto simp: dom_def)
    ultimately show ?thesis by blast
  qed
  have r: "pw_reach pw" by (rule pw_reach_expire[OF inv(2) prev max e(1)])
  have "waits pw h d" if w: "waits ?pw h d" for h d
  proof -
    obtain st where st: "entries ?pw h = Some st" "is_ready st \<longrightarrow> d \<le> previous_ticks ?pw"
      "\<And>wh e'. (wh, e', h) \<in> live (wheel ?pw) \<Longrightarrow> e' = d" using w unfolding waits_def by blast
    show ?thesis
    proof (cases "h \<in> context_of ` (live (wheel ?pw) - live (wheel pw))")
      case True
      then obtain wh e' where x: "(wh, e', h) \<in> live (wheel ?pw) - live (wheel pw)" by (auto simp: context_of_def)
      then have "is_due ?t (wh, e', h)" using e(4) by blast
      then have "e' \<le> ?t" by (simp add: is_due_def)
      with x st(3) have "d \<le> previous_ticks pw" by (auto simp: e(2))
      moreover have "entries pw h = Some \<lparr>is_ready = True, wheel_handle = None\<rparr>" using True by (simp add: e(5))
      ultimately show ?thesis using st(3) e(3) unfolding waits_def by (metis subsetD)
    next
      case False
      then have "entries pw h = Some st" using st(1) by (simp add: e(5))
      moreover have "is_ready st \<longrightarrow> d \<le> previous_ticks pw" using st(2) prev e(2) by linarith
      ultimately show ?thesis using st(3) e(3) unfolding waits_def by (metis subsetD)
    qed
  qed
  moreover have "node_timers K s (ctx\<lparr>timer_wheel := pw\<rparr>)" using n r by (simp add: node_timers_def dom)
  moreover note pw_near_expire[OF inv(1) _ prev max e(1)]
  ultimately show thesis using that[of pw] e(1,2) t by simp
qed

lemma poll_eq:
  assumes "future c = Some s" "pw_expire_timers (instant_to_ticks (shared c) (pe_clock E (pr_clock s))) (timer_wheel (shared c)) = Some pw"
    and "process_begin E (s\<lparr>pr_clock := pr_clock s + 1, pr_polls := pr_polls s + 1\<rparr>) ((shared c)\<lparr>timer_wheel := pw\<rparr>) = Some (s1, ctx1)"
    and "process_loop E queue s1 ctx1 = Some (s2, ctx2)"
  shows "poll_async_coroutine (process_poll E queue) (pe_clock E (pr_clock s)) c = Some (c\<lparr>future := Some s2, shared := ctx2\<rparr>)"
  using assms
  by (simp add: poll_async_coroutine_def Let_def process_poll_def with_current_async_context_def)

lemma begin_ok:
  assumes E: "clock_ok E (start_time ctx)" "fresh_ok E" "K + 6145 < EMPTY_INDEX" and n: "node_timers K s ctx"
  shows "\<exists>s' ctx'. process_begin E s ctx = Some (s', ctx') \<and> start_time ctx' = start_time ctx \<and>
    previous_ticks (timer_wheel ctx') = previous_ticks (timer_wheel ctx) \<and> node_timers K s' ctx' \<and> pr_timer s' \<noteq> None \<and>
    pr_clock s' = pr_clock s + (if pr_timer s = None then 1 else 0) \<and> pr_sent s' = pr_sent s \<and> pr_polls s' = pr_polls s \<and>
    pr_destination s' = pr_destination s \<and>
    (pr_timer s \<noteq> None \<longrightarrow> s' = s \<and> ctx' = ctx)"
proof (cases "pr_timer s")
  case (Some h)
  with n show ?thesis by (intro exI[of _ s] exI[of _ ctx]) (simp add: process_begin_def)
next
  case None
  let ?pw = "timer_wheel ctx"
  define key wkey where k: "key = fst (pe_fresh E ?pw)" "wkey = snd (pe_fresh E ?pw)"
  define e where "e = instant_to_ticks ctx (sleep_deadline (pe_instant_max E) (pe_clock E (pr_clock s)) (U64_MAX * 1000000000))"
  have pw: "pw_reach ?pw" "finite (dom (entries ?pw))" "card (dom (entries ?pw)) \<le> K"
    using n None by (simp_all add: node_timers_def)
  have fresh: "entries ?pw key = None" "vacant_key (wheel ?pw) wkey"
    using E(2,3) pw(1-3) unfolding fresh_ok_def k by auto
  have inv: "pw_inv ?pw" using pw_reach_inv[OF pw(1)] ..
  from start_inv[OF inv fresh, of e] obtain pw1 where
    1: "pw_start_timer key wkey e ?pw = Some (key, pw1)" "previous_ticks pw1 = previous_ticks ?pw"
      "\<forall>h. h \<noteq> key \<longrightarrow> entries pw1 h = entries ?pw h" "key \<in> dom (entries pw1)" by (fastforce split: if_splits)
  have r1: "pw_reach pw1" by (rule pw_reach_start[OF pw(1) fresh 1(1)])
  have d1: "dom (entries pw1) = insert key (dom (entries ?pw))" using 1(3,4) by (auto simp: dom_def)
  let ?s = "s\<lparr>pr_clock := pr_clock s + 1, pr_timer := Some key\<rparr>" and ?ctx = "ctx\<lparr>timer_wheel := pw1\<rparr>"
  have "process_begin E s ctx = Some (?s, ?ctx)"
    using start_sleep_eq[of E ctx s "U64_MAX * 1000000000" key pw1] 1(1) None by (simp add: process_begin_def k e_def)
  moreover have "card (dom (entries pw1)) \<le> K + 1" using pw(2,3) by (simp add: d1 card_insert_if)
  then have "node_timers K ?s ?ctx" using r1 pw(2) by (simp add: node_timers_def d1)
  ultimately show ?thesis using 1(2) None by (intro exI[of _ ?s] exI[of _ ?ctx]) simp
qed

text \<open>
  The packets are sent in different polls, and more than the interval less a millisecond apart.  The packet
  \<open>(i, k, d)\<close> is sent before the \<open>k\<close>-th reading of the clock and after the one before it.
\<close>

definition paced :: "process_env \<Rightarrow> (nat \<times> nat \<times> nat) list \<Rightarrow> bool" where
  "paced E log \<longleftrightarrow> sorted_wrt (\<lambda>(i, k, d) (i', k', d'). i < i' \<and> pe_clock E k + SEND_INTERVAL < pe_clock E (k' - 1) + 1000000) log"

definition node_state :: "process_env \<Rightarrow> nat \<Rightarrow> process_state \<Rightarrow> async_shared \<Rightarrow> bool" where
  "node_state E K s ctx \<longleftrightarrow> node_timers K s ctx \<and> previous_ticks (timer_wheel ctx) \<le> tick_of E (start_time ctx) (pr_clock s) \<and>
     paced E (pr_sent s) \<and> list_all (\<lambda>(i, k, d). i \<le> pr_polls s \<and> k < pr_clock s) (pr_sent s) \<and>
     (pr_destination s \<noteq> None \<longrightarrow> (\<exists>h n. pr_timer s = Some h \<and> n < pr_clock s \<and>
        waits (timer_wheel ctx) h (due E (start_time ctx) n) \<and> list_all (\<lambda>(i, k, d). k \<le> n) (pr_sent s)))"

text \<open>A poll up to the point where the channel is empty.\<close>

lemma poll_receives:
  assumes E: "clock_ok E (start_time (shared c))" "fresh_ok E" "K + 6145 < EMPTY_INDEX"
    and c: "future c = Some s" "node_timers K s (shared c)"
      "previous_ticks (timer_wheel (shared c)) \<le> tick_of E (start_time (shared c)) (pr_clock s)"
  obtains s2 ctx2 h where "start_time ctx2 = start_time (shared c)"
    "previous_ticks (timer_wheel ctx2) = tick_of E (start_time (shared c)) (pr_clock s)" "node_timers K s2 ctx2"
    "pr_timer s2 = Some h" "pr_clock s2 = pr_clock s + 1 + (if pr_timer s = None then 1 else 0) + enables queue" "pr_sent s2 = pr_sent s" "pr_polls s2 = pr_polls s + 1"
    "pr_destination s2 = last_destination (pr_destination s) queue"
    "has_enable queue \<longrightarrow> just_set E s2 ctx2"
    "\<forall>h'. \<not> has_enable queue \<longrightarrow> pr_timer s = Some h' \<longrightarrow> h' = h \<and> pr_clock s2 = pr_clock s + 1 \<and>
       (\<forall>e. waits (timer_wheel (shared c)) h e \<longrightarrow> waits (timer_wheel ctx2) h e) \<and>
       (\<forall>wh e. near process_dims (wheel (timer_wheel (shared c))) (wh, e, h) \<longrightarrow>
          (if tick_of E (start_time (shared c)) (pr_clock s) < e then near process_dims (wheel (timer_wheel ctx2)) (wh, e, h)
           else timer_poll (timer_wheel ctx2) h = Some (Ready ())))"
    "\<forall>s3 ctx3. process_loop E [] s2 ctx2 = Some (s3, ctx3) \<longrightarrow>
       poll_async_coroutine (process_poll E queue) (pe_clock E (pr_clock s)) c = Some (c\<lparr>future := Some s3, shared := ctx3\<rparr>)"
proof -
  let ?ctx = "shared c" and ?t = "tick_of E (start_time (shared c)) (pr_clock s)"
  obtain pw where pw: "pw_expire_timers (instant_to_ticks ?ctx (pe_clock E (pr_clock s))) (timer_wheel ?ctx) = Some pw"
    "previous_ticks pw = ?t" "node_timers K s (?ctx\<lparr>timer_wheel := pw\<rparr>)"
    "\<And>h e. waits (timer_wheel ?ctx) h e \<Longrightarrow> waits pw h e"
    "\<And>wh e h. near process_dims (wheel (timer_wheel ?ctx)) (wh, e, h) \<Longrightarrow>
       if previous_ticks pw < e then near process_dims (wheel pw) (wh, e, h) else timer_poll pw h = Some (Ready ())"
    using expire_step[OF E(1) c(2,3)] by blast
  let ?first = "s\<lparr>pr_clock := pr_clock s + 1, pr_polls := pr_polls s + 1\<rparr>" and ?pwctx = "?ctx\<lparr>timer_wheel := pw\<rparr>"
  have n0: "node_timers K ?first ?pwctx" using pw(3) by (simp add: node_timers_def)
  have E0: "clock_ok E (start_time ?pwctx)" using E(1) by simp
  obtain s1 ctx1 where b: "process_begin E ?first ?pwctx = Some (s1, ctx1)" "start_time ctx1 = start_time ?ctx"
    "previous_ticks (timer_wheel ctx1) = ?t" "node_timers K s1 ctx1" "pr_timer s1 \<noteq> None"
    "pr_clock s1 = pr_clock s + 1 + (if pr_timer s = None then 1 else 0)"
    "pr_sent s1 = pr_sent s" "pr_polls s1 = pr_polls s + 1" "pr_destination s1 = pr_destination s"
    "pr_timer s \<noteq> None \<Longrightarrow> s1 = ?first \<and> ctx1 = ?pwctx"
    using begin_ok[OF E0 E(2,3) n0] pw(2) by auto
  have E1: "clock_ok E (start_time ctx1)" using E(1) b(2) by simp
  obtain s2 ctx2 where r: "process_loop E queue s1 ctx1 = process_loop E [] s2 ctx2" "start_time ctx2 = start_time ?ctx"
    "previous_ticks (timer_wheel ctx2) = ?t" "node_timers K s2 ctx2" "pr_timer s2 \<noteq> None"
    "pr_clock s2 = pr_clock s1 + enables queue" "pr_sent s2 = pr_sent s1" "pr_polls s2 = pr_polls s1" "pr_destination s2 = last_destination (pr_destination s1) queue"
    "if has_enable queue then just_set E s2 ctx2
     else pr_timer s2 = pr_timer s1 \<and> pr_clock s2 = pr_clock s1 \<and> ctx2 = ctx1"
    using loop_receives[OF E1 E(2,3) b(4,5), of "pr_clock s" queue] b(2,3,6) by auto
  obtain h where h: "pr_timer s2 = Some h" using r(5) by auto
  show thesis
  proof (rule that[of ctx2 s2 h])
    show "\<forall>h'. \<not> has_enable queue \<longrightarrow> pr_timer s = Some h' \<longrightarrow> h' = h \<and> pr_clock s2 = pr_clock s + 1 \<and>
       (\<forall>e. waits (timer_wheel ?ctx) h e \<longrightarrow> waits (timer_wheel ctx2) h e) \<and>
       (\<forall>wh e. near process_dims (wheel (timer_wheel ?ctx)) (wh, e, h) \<longrightarrow>
          (if ?t < e then near process_dims (wheel (timer_wheel ctx2)) (wh, e, h)
           else timer_poll (timer_wheel ctx2) h = Some (Ready ())))"
    proof (intro allI impI)
      fix h' assume q: "\<not> has_enable queue" "pr_timer s = Some h'"
      have "s1 = ?first" "ctx1 = ?pwctx" using b(10) q(2) by simp_all
      moreover have "pr_timer s2 = pr_timer s1" "pr_clock s2 = pr_clock s1" "ctx2 = ctx1" using r(10) q(1) by simp_all
      ultimately have s2: "h' = h" "pr_clock s2 = pr_clock s + 1" "timer_wheel ctx2 = pw" using q(2) h by simp_all
      show "h' = h \<and> pr_clock s2 = pr_clock s + 1 \<and>
       (\<forall>e. waits (timer_wheel ?ctx) h e \<longrightarrow> waits (timer_wheel ctx2) h e) \<and>
       (\<forall>wh e. near process_dims (wheel (timer_wheel ?ctx)) (wh, e, h) \<longrightarrow>
          (if ?t < e then near process_dims (wheel (timer_wheel ctx2)) (wh, e, h)
           else timer_poll (timer_wheel ctx2) h = Some (Ready ())))"
        unfolding s2(3) using s2(1,2) pw(4) pw(5) pw(2) by metis
    qed
    show "\<forall>s3 ctx3. process_loop E [] s2 ctx2 = Some (s3, ctx3) \<longrightarrow>
       poll_async_coroutine (process_poll E queue) (pe_clock E (pr_clock s)) c = Some (c\<lparr>future := Some s3, shared := ctx3\<rparr>)"
      using poll_eq[OF c(1) pw(1) b(1)] r(1) by simp
  qed (use r b(6-9) h in auto)
qed

lemma node_poll:
  assumes E: "clock_ok E (start_time (shared c))" "fresh_ok E" "K + 6145 < EMPTY_INDEX"
    and c: "future c = Some s" "node_state E K s (shared c)"
  shows "\<exists>c' s'. poll_async_coroutine (process_poll E queue) (pe_clock E (pr_clock s)) c = Some c' \<and> future c' = Some s' \<and>
    start_time (shared c') = start_time (shared c) \<and> node_state E K s' (shared c') \<and> pr_polls s' = pr_polls s + 1 \<and>
    pr_destination s' = last_destination (pr_destination s) queue \<and>
    (pr_sent s' = pr_sent s \<or>
     (\<exists>k d. pr_sent s' = pr_sent s @ [(pr_polls s + 1, k, d)] \<and> last_destination (pr_destination s) queue = Some d))"
proof -
  let ?st = "start_time (shared c)"
  have n: "node_timers K s (shared c)" "previous_ticks (timer_wheel (shared c)) \<le> tick_of E ?st (pr_clock s)"
    and p: "paced E (pr_sent s)" "list_all (\<lambda>(i, k, d). i \<le> pr_polls s \<and> k < pr_clock s) (pr_sent s)"
    using c(2) by (simp_all add: node_state_def)
  obtain s2 ctx2 h where r: "start_time ctx2 = ?st" "previous_ticks (timer_wheel ctx2) = tick_of E ?st (pr_clock s)"
    "node_timers K s2 ctx2" "pr_timer s2 = Some h" "pr_clock s2 = pr_clock s + 1 + (if pr_timer s = None then 1 else 0) + enables queue" "pr_sent s2 = pr_sent s" "pr_polls s2 = pr_polls s + 1"
    "pr_destination s2 = last_destination (pr_destination s) queue" "has_enable queue \<longrightarrow> just_set E s2 ctx2"
    "\<forall>h'. \<not> has_enable queue \<longrightarrow> pr_timer s = Some h' \<longrightarrow> h' = h \<and> pr_clock s2 = pr_clock s + 1 \<and>
       (\<forall>e. waits (timer_wheel (shared c)) h e \<longrightarrow> waits (timer_wheel ctx2) h e) \<and>
       (\<forall>wh e. near process_dims (wheel (timer_wheel (shared c))) (wh, e, h) \<longrightarrow>
          (if tick_of E (start_time (shared c)) (pr_clock s) < e then near process_dims (wheel (timer_wheel ctx2)) (wh, e, h)
           else timer_poll (timer_wheel ctx2) h = Some (Ready ())))"
    "\<forall>s3 ctx3. process_loop E [] s2 ctx2 = Some (s3, ctx3) \<longrightarrow>
       poll_async_coroutine (process_poll E queue) (pe_clock E (pr_clock s)) c = Some (c\<lparr>future := Some s3, shared := ctx3\<rparr>)"
    by (rule poll_receives[OF E c(1) n, of queue])
  have later: "pr_clock s < pr_clock s2" using r(5) by simp
  have E2: "clock_ok E (start_time ctx2)" using E(1) r(1) by simp
  have prev: "previous_ticks (timer_wheel ctx2) = tick_of E (start_time ctx2) (pr_clock s)" using r(1,2) by simp
  have le: "tick_of E ?st (pr_clock s) \<le> tick_of E ?st k" if "pr_clock s \<le> k" for k using tick_mono[OF E(1) that] .
  have kept: "\<exists>n. n < pr_clock s \<and> waits (timer_wheel ctx2) h (due E ?st n) \<and> list_all (\<lambda>(i, k, d). k \<le> n) (pr_sent s)"
    if q: "\<not> has_enable queue" "pr_destination s2 \<noteq> None"
  proof -
    obtain d where "pr_destination s2 = Some d" using q(2) by blast
    then have "pr_destination s = Some d" using r(8) last_destination_kept[OF q(1), of "pr_destination s" d] by simp
    then have "pr_destination s \<noteq> None" by simp
    then obtain h' n where "pr_timer s = Some h'" "n < pr_clock s" "waits (timer_wheel (shared c)) h' (due E ?st n)"
      "list_all (\<lambda>(i, k, d). k \<le> n) (pr_sent s)" using c(2) unfolding node_state_def by blast
    with r(10) q(1) show ?thesis by blast
  qed
  have older: "list_all (\<lambda>(i, k, d). i \<le> pr_polls s + 1 \<and> k < pr_clock s2) (pr_sent s)"
    using p(2) later by (auto simp: list_all_iff)
  have waiting: ?thesis if w: "process_loop E [] s2 ctx2 = Some (s2, ctx2)"
  proof -
    have "\<exists>n. n < pr_clock s2 \<and> waits (timer_wheel ctx2) h (due E ?st n) \<and> list_all (\<lambda>(i, k, d). k \<le> n) (pr_sent s)"
      if enabled: "pr_destination s2 \<noteq> None"
    proof (cases "has_enable queue")
      case True
      have "waits (timer_wheel ctx2) h (due E ?st (pr_clock s2 - 1))" using r(1,4,9) True by (simp add: just_set_def Let_def)
      moreover have "list_all (\<lambda>(i, k, d). k \<le> pr_clock s2 - 1) (pr_sent s)" using older by (auto simp: list_all_iff)
      ultimately show ?thesis using later by (intro exI[of _ "pr_clock s2 - 1"]) simp
    next
      case False
      from kept[OF this enabled] later show ?thesis by (meson less_trans)
    qed
    then have "node_state E K s2 ctx2"
      unfolding node_state_def using r(1-4,6-8) later p(1) older le[of "pr_clock s2"] by simp
    then show ?thesis using r(11) w r(1,6-8) by (intro exI[of _ "c\<lparr>future := Some s2, shared := ctx2\<rparr>"] exI[of _ s2]) simp
  qed
  from loop_rest[OF E2 E(2,3) r(3,4) prev later] show ?thesis
  proof (elim disjE conjE exE)
    fix d h' s3 ctx3
    assume d: "pr_destination s2 = Some d" and ready: "timer_poll (timer_wheel ctx2) h = Some (Ready ())"
      and w: "process_loop E [] s2 ctx2 = Some (s3, ctx3)"
      and s3: "s3 = s2\<lparr>pr_sent := pr_sent s2 @ [(pr_polls s2, pr_clock s2, d)], pr_timer := Some h', pr_clock := pr_clock s2 + 1\<rparr>"
      and ctx3: "start_time ctx3 = start_time ctx2" "previous_ticks (timer_wheel ctx3) = previous_ticks (timer_wheel ctx2)"
        "node_timers K s3 ctx3" "just_set E s3 ctx3"
    have "\<not> has_enable queue" using r(9) ready r(4) by (auto simp: just_set_def Let_def)
    from kept[OF this] d obtain n where n: "n < pr_clock s" "waits (timer_wheel ctx2) h (due E ?st n)"
      "list_all (\<lambda>(i, k, d). k \<le> n) (pr_sent s)" by auto
    have "due E ?st n \<le> tick_of E ?st (pr_clock s)" using waits_poll[OF n(2)] ready r(2) by auto
    from due_reached[OF this clock_range(1)[OF E(1)] clock_range(1)[OF E(1)]]
    have gap: "pe_clock E n + SEND_INTERVAL < pe_clock E (pr_clock s) + 1000000" .
    have mono: "a \<le> b \<Longrightarrow> pe_clock E a \<le> pe_clock E b" for a b using E(1) by (simp add: clock_ok_def mono_def)
    have "pe_clock E k + SEND_INTERVAL < pe_clock E (pr_clock s2 - 1) + 1000000" if "k \<le> n" for k
      using gap mono[OF that] mono[of "pr_clock s" "pr_clock s2 - 1"] later by linarith
    then have "paced E (pr_sent s3)"
      using p n(3) unfolding paced_def by (auto simp: s3 r(6,7) sorted_wrt_append list_all_iff)
    moreover have "waits (timer_wheel ctx3) h' (due E ?st (pr_clock s2))"
      using ctx3(1,4) r(1) by (simp add: just_set_def Let_def s3)
    moreover have "list_all (\<lambda>(i, k, d). k \<le> pr_clock s2) (pr_sent s3)"
      using older by (auto simp: s3 r(6) list_all_iff)
    moreover have "list_all (\<lambda>(i, k, d). i \<le> pr_polls s3 \<and> k < pr_clock s3) (pr_sent s3)"
      using older by (auto simp: s3 r(6,7) list_all_iff)
    ultimately have "node_state E K s3 ctx3"
      unfolding node_state_def using ctx3(1-3) r(1,2) later le[of "pr_clock s3"]
      by (auto simp: s3 intro!: exI[of _ "pr_clock s2"])
    then show ?thesis using r(11) w ctx3(1) r(1,6-8) d
      by (intro exI[of _ "c\<lparr>future := Some s3, shared := ctx3\<rparr>"] exI[of _ s3]) (simp add: s3)
  qed (erule waiting)+
qed

section \<open>Many polls\<close>

text \<open>
  The node before its first poll: beside that, any timers of its own in any reachable state of the wheel,
  as long as there is room for one more in the pool of the wheel.
\<close>

definition node_begins :: "process_env \<Rightarrow> process_state async_ctx \<Rightarrow> bool" where
  "node_begins E c \<longleftrightarrow> future c = Some process_start \<and> clock_ok E (start_time (shared c)) \<and> fresh_ok E \<and>
     pw_reach (timer_wheel (shared c)) \<and> finite (dom (entries (timer_wheel (shared c)))) \<and>
     card (dom (entries (timer_wheel (shared c)))) + 6145 < EMPTY_INDEX \<and>
     previous_ticks (timer_wheel (shared c)) \<le> tick_of E (start_time (shared c)) 0"

lemma begins_state:
  assumes "node_begins E c"
  shows "node_state E (card (dom (entries (timer_wheel (shared c))))) process_start (shared c)"
  using assms by (simp add: node_begins_def node_state_def node_timers_def process_start_def paced_def)

text \<open>The packet was sent in a poll after the first \<open>n\<close>, to the destination of the messages up to that poll.\<close>

definition sent_as_told :: "nat \<Rightarrow> nat option \<Rightarrow> process_message list list \<Rightarrow> nat \<times> nat \<times> nat \<Rightarrow> bool" where
  "sent_as_told n d0 queues = (\<lambda>(i, k, d). n < i \<and> i \<le> n + length queues \<and>
     last_destination d0 (concat (take (i - n) queues)) = Some d)"

lemma sent_as_told_Cons: "sent_as_told (Suc n) (last_destination d0 q) queues x \<Longrightarrow> sent_as_told n d0 (q # queues) x"
  by (cases x) (auto simp: sent_as_told_def last_destination_append take_Cons' Suc_diff_le split: if_splits)

lemma polls_run:
  assumes E: "fresh_ok E" "K + 6145 < EMPTY_INDEX"
  shows "clock_ok E (start_time (shared c)) \<Longrightarrow> future c = Some s \<Longrightarrow> node_state E K s (shared c) \<Longrightarrow>
    \<exists>c' s' log. process_polls E queues c = Some c' \<and> future c' = Some s' \<and> start_time (shared c') = start_time (shared c) \<and>
      node_state E K s' (shared c') \<and> pr_sent s' = pr_sent s @ log \<and>
      list_all (sent_as_told (pr_polls s) (pr_destination s) queues) log"
proof (induction queues arbitrary: c s)
  case Nil
  then show ?case by simp
next
  case (Cons q queues)
  obtain c1 s1 where 1: "poll_async_coroutine (process_poll E q) (pe_clock E (pr_clock s)) c = Some c1" "future c1 = Some s1"
    "start_time (shared c1) = start_time (shared c)" "node_state E K s1 (shared c1)" "pr_polls s1 = pr_polls s + 1"
    "pr_destination s1 = last_destination (pr_destination s) q"
    "pr_sent s1 = pr_sent s \<or>
     (\<exists>k d. pr_sent s1 = pr_sent s @ [(pr_polls s + 1, k, d)] \<and> last_destination (pr_destination s) q = Some d)"
    using node_poll[OF Cons.prems(1) E Cons.prems(2,3)] by blast
  have "clock_ok E (start_time (shared c1))" using Cons.prems(1) 1(3) by simp
  from Cons.IH[OF this 1(2,4)] obtain c2 s2 log where
    2: "process_polls E queues c1 = Some c2" "future c2 = Some s2" "start_time (shared c2) = start_time (shared c)"
      "node_state E K s2 (shared c2)" "pr_sent s2 = pr_sent s1 @ log"
      "list_all (sent_as_told (pr_polls s1) (pr_destination s1) queues) log" using 1(3) by auto
  have later: "list_all (sent_as_told (pr_polls s) (pr_destination s) (q # queues)) log"
    using 2(6) sent_as_told_Cons[of "pr_polls s" "pr_destination s" q queues] by (simp add: 1(5,6) list_all_iff)
  have run: "process_polls E (q # queues) c = Some c2" using Cons.prems(2) 1(1) 2(1) by simp
  show ?case
    using 1(7)
  proof (elim disjE exE conjE)
    assume "pr_sent s1 = pr_sent s"
    with run 2 later show ?thesis by auto
  next
    fix k d assume s1: "pr_sent s1 = pr_sent s @ [(pr_polls s + 1, k, d)]" "last_destination (pr_destination s) q = Some d"
    have "sent_as_told (pr_polls s) (pr_destination s) (q # queues) (pr_polls s + 1, k, d)"
      using s1(2) by (simp add: sent_as_told_def)
    with run 2 later s1(1) show ?thesis
      by (intro exI[of _ c2] exI[of _ s2] exI[of _ "(pr_polls s + 1, k, d) # log"]) simp
  qed
qed

text \<open>A poll without messages, while the timer of an enabled node is near.\<close>

lemma near_poll:
  assumes E: "clock_ok E (start_time (shared c))" "fresh_ok E" "K + 6145 < EMPTY_INDEX"
    and c: "future c = Some s" "node_state E K s (shared c)"
    and d: "pr_destination s = Some d" and h: "pr_timer s = Some h" "near process_dims (wheel (timer_wheel (shared c))) (wh, e, h)"
  shows "\<exists>c' s'. poll_async_coroutine (process_poll E []) (pe_clock E (pr_clock s)) c = Some c' \<and> future c' = Some s' \<and>
    start_time (shared c') = start_time (shared c) \<and> node_state E K s' (shared c') \<and>
    pr_polls s' = pr_polls s + 1 \<and> pr_destination s' = Some d \<and>
    (if tick_of E (start_time (shared c)) (pr_clock s) < e
     then pr_sent s' = pr_sent s \<and> pr_clock s' = pr_clock s + 1 \<and> pr_timer s' = Some h \<and>
       near process_dims (wheel (timer_wheel (shared c'))) (wh, e, h)
     else pr_sent s' = pr_sent s @ [(pr_polls s + 1, pr_clock s + 1, d)])"
proof -
  let ?st = "start_time (shared c)"
  have n: "node_timers K s (shared c)" "previous_ticks (timer_wheel (shared c)) \<le> tick_of E ?st (pr_clock s)"
    using c(2) by (simp_all add: node_state_def)
  obtain c' s' where ok: "poll_async_coroutine (process_poll E []) (pe_clock E (pr_clock s)) c = Some c'" "future c' = Some s'"
    "start_time (shared c') = ?st" "node_state E K s' (shared c')" "pr_polls s' = pr_polls s + 1" "pr_destination s' = Some d"
    using node_poll[OF E c, of "[]"] d by auto
  obtain s2 ctx2 h2 where r: "start_time ctx2 = ?st" "previous_ticks (timer_wheel ctx2) = tick_of E ?st (pr_clock s)"
    "node_timers K s2 ctx2" "pr_timer s2 = Some h2" "pr_clock s2 = pr_clock s + 1 + (if pr_timer s = None then 1 else 0) + enables []"
    "pr_sent s2 = pr_sent s" "pr_polls s2 = pr_polls s + 1"
    "pr_destination s2 = last_destination (pr_destination s) []" "has_enable [] \<longrightarrow> just_set E s2 ctx2"
    "\<forall>h'. \<not> has_enable [] \<longrightarrow> pr_timer s = Some h' \<longrightarrow> h' = h2 \<and> pr_clock s2 = pr_clock s + 1 \<and>
       (\<forall>e. waits (timer_wheel (shared c)) h2 e \<longrightarrow> waits (timer_wheel ctx2) h2 e) \<and>
       (\<forall>wh e. near process_dims (wheel (timer_wheel (shared c))) (wh, e, h2) \<longrightarrow>
          (if tick_of E ?st (pr_clock s) < e then near process_dims (wheel (timer_wheel ctx2)) (wh, e, h2)
           else timer_poll (timer_wheel ctx2) h2 = Some (Ready ())))"
    "\<forall>s3 ctx3. process_loop E [] s2 ctx2 = Some (s3, ctx3) \<longrightarrow>
       poll_async_coroutine (process_poll E []) (pe_clock E (pr_clock s)) c = Some (c\<lparr>future := Some s3, shared := ctx3\<rparr>)"
    by (rule poll_receives[OF E c(1) n, of "[]"])
  have h2: "h2 = h" "pr_clock s2 = pr_clock s + 1"
    "if tick_of E ?st (pr_clock s) < e then near process_dims (wheel (timer_wheel ctx2)) (wh, e, h)
     else timer_poll (timer_wheel ctx2) h = Some (Ready ())"
    using r(10) h by auto
  have E2: "clock_ok E (start_time ctx2)" using E(1) r(1) by simp
  have prev: "previous_ticks (timer_wheel ctx2) = tick_of E (start_time ctx2) (pr_clock s)" "pr_clock s < pr_clock s2" using r(1,2) h2(2) by simp_all
  note rest = loop_rest[OF E2 E(2,3) r(3,4) prev]
  have inv2: "pw_inv (timer_wheel ctx2)" using r(3) pw_reach_inv by (simp add: node_timers_def)
  show ?thesis
  proof (cases "tick_of E ?st (pr_clock s) < e")
    case True
    then have near: "near process_dims (wheel (timer_wheel ctx2)) (wh, e, h)" using h2(3) by simp
    then have "timer_poll (timer_wheel ctx2) h2 = Some Pending" using pw_near_pending(1)[OF inv2] h2(1) by simp
    then have "process_loop E [] s2 ctx2 = Some (s2, ctx2)" using rest by auto
    with r(11) ok(1) have "c' = c\<lparr>future := Some s2, shared := ctx2\<rparr>" by simp
    then have "s' = s2" "shared c' = ctx2" using ok(2) by simp_all
    then show ?thesis using ok True near r(4,6) h2(1,2) by auto
  next
    case False
    then have "timer_poll (timer_wheel ctx2) h2 = Some (Ready ())" using h2 by simp
    then obtain s3 ctx3 h' where s3: "process_loop E [] s2 ctx2 = Some (s3, ctx3)"
      "s3 = s2\<lparr>pr_sent := pr_sent s2 @ [(pr_polls s2, pr_clock s2, d)], pr_timer := Some h', pr_clock := pr_clock s2 + 1\<rparr>"
      using rest r(8) d by auto
    with r(11) ok(1) have "c' = c\<lparr>future := Some s3, shared := ctx3\<rparr>" by simp
    then have "s' = s3" using ok(2) by simp
    then show ?thesis using ok False s3(2) r(6,7) h2(2) by auto
  qed
qed

lemma near_polls:
  assumes E: "fresh_ok E" "K + 6145 < EMPTY_INDEX"
  shows "clock_ok E (start_time (shared c)) \<Longrightarrow> future c = Some s \<Longrightarrow> node_state E K s (shared c) \<Longrightarrow>
    pr_destination s = Some d \<Longrightarrow> pr_timer s = Some h \<Longrightarrow> near process_dims (wheel (timer_wheel (shared c))) (wh, e, h) \<Longrightarrow>
    \<forall>j<m. tick_of E (start_time (shared c)) (pr_clock s + j) < e \<Longrightarrow>
    \<exists>c' s'. process_polls E (replicate (m + 1) []) c = Some c' \<and> future c' = Some s' \<and>
      pr_sent s' = pr_sent s @ (if tick_of E (start_time (shared c)) (pr_clock s + m) < e then []
        else [(pr_polls s + m + 1, pr_clock s + m + 1, d)])"
proof (induction m arbitrary: c s)
  case 0
  from near_poll[OF 0(1) E 0(2-6)] 0(2) show ?case by (auto split: if_splits)
next
  case (Suc m)
  obtain c1 s1 where 1: "poll_async_coroutine (process_poll E []) (pe_clock E (pr_clock s)) c = Some c1" "future c1 = Some s1"
    "start_time (shared c1) = start_time (shared c)" "node_state E K s1 (shared c1)" "pr_polls s1 = pr_polls s + 1"
    "pr_destination s1 = Some d" "pr_sent s1 = pr_sent s" "pr_clock s1 = pr_clock s + 1" "pr_timer s1 = Some h"
    "near process_dims (wheel (timer_wheel (shared c1))) (wh, e, h)"
    using near_poll[OF Suc.prems(1) E Suc.prems(2-6)] spec[OF Suc.prems(7), of 0] by (auto split: if_splits)
  have clk: "clock_ok E (start_time (shared c1))" using Suc.prems(1) 1(3) by simp
  have early: "\<forall>j<m. tick_of E (start_time (shared c1)) (pr_clock s1 + j) < e"
  proof (intro allI impI)
    fix j assume "j < m"
    then show "tick_of E (start_time (shared c1)) (pr_clock s1 + j) < e" using spec[OF Suc.prems(7), of "Suc j"] 1(3,8) by simp
  qed
  from Suc.IH[OF clk 1(2,4,6,9,10) early] obtain c2 s2 where
    "process_polls E (replicate (m + 1) []) c1 = Some c2" "future c2 = Some s2"
    "pr_sent s2 = pr_sent s @ (if tick_of E (start_time (shared c)) (pr_clock s + Suc m) < e then []
        else [(pr_polls s + Suc m + 1, pr_clock s + Suc m + 1, d)])" using 1(3,5,7,8) by auto
  then show ?case using Suc.prems(2) 1(1) by simp
qed

text \<open>The poll in which a message enables the node.\<close>

lemma enabling_poll:
  assumes E: "clock_ok E (start_time (shared c))" "fresh_ok E" "K + 6145 < EMPTY_INDEX"
    and c: "future c = Some s" "node_state E K s (shared c)"
  shows "\<exists>c1 s1 h. process_polls E [ms @ [Enable d]] c = Some c1 \<and> future c1 = Some s1 \<and> start_time (shared c1) = start_time (shared c) \<and>
    node_state E K s1 (shared c1) \<and> pr_polls s1 = pr_polls s + 1 \<and> pr_destination s1 = Some d \<and> pr_sent s1 = pr_sent s \<and>
    pr_clock s1 = pr_clock s + 1 + (if pr_timer s = None then 1 else 0) + enables (ms @ [Enable d]) \<and> pr_timer s1 = Some h \<and>
    (due E (start_time (shared c)) (pr_clock s1 - 1) < tick_of E (start_time (shared c)) (pr_clock s) + 2048 \<longrightarrow>
      (\<exists>wh. near process_dims (wheel (timer_wheel (shared c1))) (wh, due E (start_time (shared c)) (pr_clock s1 - 1), h)))"
proof -
  let ?st = "start_time (shared c)" and ?q = "ms @ [Enable d]"
  have n: "node_timers K s (shared c)" "previous_ticks (timer_wheel (shared c)) \<le> tick_of E ?st (pr_clock s)"
    using c(2) by (simp_all add: node_state_def)
  have q: "has_enable ?q" "last_destination (pr_destination s) ?q = Some d" by (simp_all add: has_enable_def last_destination_append)
  obtain c' s' where ok: "poll_async_coroutine (process_poll E ?q) (pe_clock E (pr_clock s)) c = Some c'" "future c' = Some s'"
    "start_time (shared c') = ?st" "node_state E K s' (shared c')" "pr_polls s' = pr_polls s + 1" "pr_destination s' = Some d"
    using node_poll[OF E c, of ?q] q(2) by auto
  obtain s2 ctx2 h where r: "start_time ctx2 = ?st" "previous_ticks (timer_wheel ctx2) = tick_of E ?st (pr_clock s)"
    "node_timers K s2 ctx2" "pr_timer s2 = Some h" "pr_clock s2 = pr_clock s + 1 + (if pr_timer s = None then 1 else 0) + enables ?q"
    "pr_sent s2 = pr_sent s" "pr_polls s2 = pr_polls s + 1"
    "pr_destination s2 = last_destination (pr_destination s) ?q" "has_enable ?q \<longrightarrow> just_set E s2 ctx2"
    "\<forall>h'. \<not> has_enable ?q \<longrightarrow> pr_timer s = Some h' \<longrightarrow> h' = h \<and> pr_clock s2 = pr_clock s + 1 \<and>
       (\<forall>e. waits (timer_wheel (shared c)) h e \<longrightarrow> waits (timer_wheel ctx2) h e) \<and>
       (\<forall>wh e. near process_dims (wheel (timer_wheel (shared c))) (wh, e, h) \<longrightarrow>
          (if tick_of E ?st (pr_clock s) < e then near process_dims (wheel (timer_wheel ctx2)) (wh, e, h)
           else timer_poll (timer_wheel ctx2) h = Some (Ready ())))"
    "\<forall>s3 ctx3. process_loop E [] s2 ctx2 = Some (s3, ctx3) \<longrightarrow>
       poll_async_coroutine (process_poll E ?q) (pe_clock E (pr_clock s)) c = Some (c\<lparr>future := Some s3, shared := ctx3\<rparr>)"
    by (rule poll_receives[OF E c(1) n, of ?q])
  have E2: "clock_ok E (start_time ctx2)" using E(1) r(1) by simp
  have prev: "previous_ticks (timer_wheel ctx2) = tick_of E (start_time ctx2) (pr_clock s)" "pr_clock s < pr_clock s2" using r(1,2,5) by simp_all
  have set: "just_set E s2 ctx2" using r(9) q(1) by simp
  then have "timer_poll (timer_wheel ctx2) h = Some Pending" using r(4) by (simp add: just_set_def Let_def)
  then have "process_loop E [] s2 ctx2 = Some (s2, ctx2)" using loop_rest[OF E2 E(2,3) r(3,4) prev] by auto
  with r(11) ok(1) have "c' = c\<lparr>future := Some s2, shared := ctx2\<rparr>" by simp
  then have c': "s' = s2" "shared c' = ctx2" using ok(2) by simp_all
  have "\<exists>wh. near process_dims (wheel (timer_wheel ctx2)) (wh, due E ?st (pr_clock s2 - 1), h)"
    if "due E ?st (pr_clock s2 - 1) < tick_of E ?st (pr_clock s) + 2048"
    using set that r(1,2,4) by (simp add: just_set_def Let_def)
  then show ?thesis using ok r(4-6) c' c(1) by (intro exI[of _ c'] exI[of _ s'] exI[of _ h]) (simp del: One_nat_def)
qed

section \<open>Properties\<close>


text \<open>The lowest key that is not in use, of both slabs.\<close>

definition lowest_free :: "(nat \<rightharpoonup> 'a) \<Rightarrow> nat" where
  "lowest_free m = (case find (\<lambda>k. m k = None) [0..<EMPTY_INDEX] of Some k \<Rightarrow> k | None \<Rightarrow> EMPTY_INDEX)"

definition sample_process_env :: process_env where
  "sample_process_env = \<lparr>pe_instant_max = 2 ^ 60, pe_clock = (\<lambda>n. min n 100 * 110000000),
     pe_fresh = (\<lambda>pw. (lowest_free (entries pw), lowest_free (timers (wheel pw))))\<rparr>"

definition sample_node :: "process_state async_ctx" where
  "sample_node = \<lparr>future = Some process_start, shared = ctx_0\<rparr>"

lemma lowest_free_vacant: "k < EMPTY_INDEX \<Longrightarrow> m k = None \<Longrightarrow> m (lowest_free m) = None \<and> lowest_free m < EMPTY_INDEX"
proof (cases "find (\<lambda>k. m k = None) [0..<EMPTY_INDEX]")
  case None
  assume "k < EMPTY_INDEX" "m k = None"
  with None show ?thesis by (auto simp: find_None_iff)
next
  case (Some i)
  then have "m i = None" "i < EMPTY_INDEX" by (auto simp: find_Some_iff)
  with Some show ?thesis by (simp add: lowest_free_def)
qed

lemma lowest_free_entries:
  assumes "finite (dom m)" "card (dom m) < EMPTY_INDEX"
  shows "m (lowest_free m) = None"
proof -
  have "\<not> {..<EMPTY_INDEX} \<subseteq> dom m"
    using card_mono[OF assms(1), of "{..<EMPTY_INDEX}"] assms(2) by auto
  then obtain k where "k < EMPTY_INDEX" "m k = None" by auto
  with lowest_free_vacant[of k m] show ?thesis by blast
qed

lemma live_card:
  assumes "pw_inv pw" "finite (dom (entries pw))"
  shows "card (live (wheel pw)) \<le> card (dom (entries pw))"
proof (rule card_inj_on_le)
  show "inj_on context_of (live (wheel pw))" using pw_live_context[OF assms(1)] by (fastforce intro!: inj_onI simp: context_of_def)
  show "context_of ` live (wheel pw) \<subseteq> dom (entries pw)" using pw_inv_entry[OF assms(1)] by (auto simp: context_of_def)
qed (rule assms(2))

lemma sample_fresh_ok: "fresh_ok sample_process_env"
  unfolding fresh_ok_def
proof (intro allI impI conjI)
  fix pw assume pw: "pw_reach pw" "finite (dom (entries pw))" "card (dom (entries pw)) + 6144 < EMPTY_INDEX"
  show "entries pw (fst (pe_fresh sample_process_env pw)) = None"
    using lowest_free_entries[of "entries pw"] pw(2,3) by (simp add: sample_process_env_def)
  have "card (live (wheel pw)) + num_levels process_dims * num_slots process_dims < EMPTY_INDEX"
    using live_card[of pw] pw_reach_inv[OF pw(1)] pw(2,3) by (simp add: process_dims_def)
  then obtain k where "vacant_key (wheel pw) k" using vacant_exists pw_reach_inv[OF pw(1)] by blast
  then show "vacant_key (wheel pw) (snd (pe_fresh sample_process_env pw))"
    using lowest_free_vacant[of k "timers (wheel pw)"] by (simp add: vacant_key_def sample_process_env_def)
qed

lemma sample_begins: "node_begins sample_process_env sample_node"
proof -
  have "clock_ok sample_process_env 0"
    by (auto simp: clock_ok_def sample_process_env_def SEND_INTERVAL_def U64_MAX_def mono_def)
  moreover have "dom (entries process_wheel_0) = {}" using process_wheel_0_state(1) by auto
  ultimately show ?thesis
    using sample_fresh_ok process_wheel_0_reach
    by (simp add: node_begins_def sample_node_def ctx_0_def process_wheel_0_state EMPTY_INDEX_def U32_MAX_def)
qed




end
