(* ===== verification/Plugin_Cli.thy ===== *)
theory Plugin_Cli
  imports Vpp_Error Api_Message Barrier_Lock Counter Mpsc
begin

text \<open>
  The control plane of a plugin: interfaces (\<open>vpp-plugin/src/vnet/types.rs\<close>), enabling a feature
  (\<open>vnet/feature.rs\<close>), what the macros generate around CLI commands, and the commands and API handlers
  of the test plugin and of the example plugin.
\<close>

section \<open>Interfaces and features\<close>

text \<open>
  The host: \<open>vnet_feature_enable_disable\<close> with arc, node, interface and whether to enable, over a state
  \<open>'h\<close>, and \<open>unformat_vnet_sw_interface\<close> on the text of an interface name, which returns whether it matched
  (as a number) and the index.
\<close>

record 'h cli_host =
  feature_enable_disable :: "string \<Rightarrow> string \<Rightarrow> nat \<Rightarrow> bool \<Rightarrow> 'h \<Rightarrow> int \<times> 'h"
  unformat_sw_interface :: "string \<Rightarrow> nat \<times> nat"

definition sw_from_str :: "'h cli_host \<Rightarrow> string \<Rightarrow> nat option" where
  "sw_from_str H s = (let (ret, sw_if_index) = unformat_sw_interface H s in if 0 < ret then Some sw_if_index else None)"

record feature_registration =
  arc_name :: string
  node_name :: string

definition feature_enable :: "'h cli_host \<Rightarrow> feature_registration \<Rightarrow> nat \<Rightarrow> 'h \<Rightarrow> (int + unit) \<times> 'h" where
  "feature_enable H F sw h =
     (let (ret, h) = feature_enable_disable H (arc_name F) (node_name F) sw True h in (if ret = 0 then Inr () else Inl ret, h))"

definition feature_disable :: "'h cli_host \<Rightarrow> feature_registration \<Rightarrow> nat \<Rightarrow> 'h \<Rightarrow> (int + unit) \<times> 'h" where
  "feature_disable H F sw h =
     (let (ret, h) = feature_enable_disable H (arc_name F) (node_name F) sw False h in (if ret = 0 then Inr () else Inl ret, h))"

section \<open>Commands\<close>

text \<open>
  A command returns the stack of its error, if any.  The glue that the macro generates reads one line
  of input and passes the stack to VPP; it does not return when the input does not end.
\<close>

type_synonym 'h command_result = "fault + nat option \<times> err_heap \<times> 'h"

definition err_stack :: "fault + nat \<times> err_heap \<Rightarrow> 'h \<Rightarrow> 'h command_result" where
  "err_stack r h = try_bind r (\<lambda>(q, e). Inr (Some q, e, h))"

definition run_cli_command :: "('i \<Rightarrow> nat \<times> 'i) \<Rightarrow> (string \<Rightarrow> 'h command_result) \<Rightarrow> 'i \<Rightarrow> ('h command_result \<times> 'i) option" where
  "run_cli_command get_input command i =
     map_option (\<lambda>(s, i). (command s, i)) (raw_unformat_line_input_to_string get_input i)"

text \<open>The command of both plugins; \<open>plugin\<close> is the word for the plugin in the messages.\<close>

definition enable_disable_command ::
  "error_lib \<Rightarrow> 'h cli_host \<Rightarrow> feature_registration \<Rightarrow> string \<Rightarrow> string \<Rightarrow> err_heap \<Rightarrow> 'h \<Rightarrow> 'h command_result" where
  "enable_disable_command L H F plugin input e h =
     (let args = split_on CHR '' '' input in
      if args = [] then err_stack (stack_msg L ''Missing interface name'' e) h
      else case sw_from_str H (args ! 0) of
        None \<Rightarrow> err_stack (stack_msg L (''Invalid interface name '' @ args ! 0) e) h
      | Some sw_if_index \<Rightarrow>
          if 2 \<le> length args \<and> args ! 1 \<noteq> ''disable''
          then err_stack (stack_msg L (''Unrecognised option '' @ args ! 1) e) h
          else if \<not> 2 \<le> length args then
            (case feature_enable H F sw_if_index h of
               (Inr _, h) \<Rightarrow> Inr (None, e, h)
             | (Inl ret, h) \<Rightarrow> err_stack (vnet_error_context L ret (''Failed to enable '' @ plugin @ '' feature'') e) h)
          else
            (case feature_disable H F sw_if_index h of
               (Inr _, h) \<Rightarrow> Inr (None, e, h)
             | (Inl ret, h) \<Rightarrow> err_stack (vnet_error_context L ret (''Failed to disable '' @ plugin @ '' feature'') e) h))"

definition VNET_API_ERROR_INVALID_VALUE :: int where
  "VNET_API_ERROR_INVALID_VALUE = -7"

definition negative_test_command :: "error_lib \<Rightarrow> string \<Rightarrow> err_heap \<Rightarrow> 'h \<Rightarrow> 'h command_result" where
  "negative_test_command L input e h =
     (if input = ''vnet-error'' then err_stack (vnet_error_context L VNET_API_ERROR_INVALID_VALUE ''Test'' e) h
      else err_stack (stack_msg L (''Unrecognised input '' @ input) e) h)"

text \<open>
  The counters of the command: the vectors of a new simple and of a new combined counter, empty, and
  the functions of the C library on them; \<open>t\<close> is the thread.
\<close>

definition counter_test_command ::
  "bool \<Rightarrow> error_lib \<Rightarrow> nat counter_lib \<Rightarrow> combined_count counter_lib \<Rightarrow> nat \<Rightarrow> string \<Rightarrow> err_heap \<Rightarrow> 'h \<Rightarrow> 'h command_result" where
  "counter_test_command dbg L S C t input e h =
     (if input = ''simple'' then
        try_bind (simple_increment dbg (allocate_index S [] 0) t 0 1) (\<lambda>m.
        try_bind (simple_get dbg m 0) (\<lambda>v.
        if v \<noteq> 1 then err_stack (stack_msg L (''Expected counter value to be 1 instead of '' @ show_nat v) e) h
        else
          let m = counter_zero S m 0 in
          try_bind (simple_get dbg m 0) (\<lambda>v.
          if v \<noteq> 0 then err_stack (stack_msg L (''Expected counter value to be 0 instead of '' @ show_nat v) e) h
          else Inr (None, e, h))))
      else if input = ''combined'' then
        try_bind (combined_increment dbg (allocate_index C [] 0) t 0 1 64) (\<lambda>m.
        try_bind (combined_get dbg m 0) (\<lambda>v.
        if packets v \<noteq> 1 \<or> bytes v \<noteq> 64
        then err_stack (stack_msg L (''Expected counter value to be (1, 64) instead of ('' @ show_nat (packets v) @ '', '' @
          show_nat (bytes v) @ '')'') e) h
        else
          let m = counter_zero C m 0 in
          try_bind (combined_get dbg m 0) (\<lambda>v.
          if packets v \<noteq> 0 \<or> bytes v \<noteq> 0
          then err_stack (stack_msg L (''Expected counter value to be (0, 0) instead of ('' @ show_nat (packets v) @ '', '' @
            show_nat (bytes v) @ '')'') e) h
          else Inr (None, e, h))))
      else err_stack (stack_msg L (''Unrecognised input '' @ input) e) h)"

section \<open>What the commands do\<close>

lemma split_on_nonempty [simp]: "split_on d s \<noteq> []"
  by (cases s) (auto split: list.splits)

text \<open>The command fails with an error that shows the text \<open>t\<close> and that can be dropped without a leak.\<close>

definition fails_with :: "string \<Rightarrow> 'h command_result \<Rightarrow> err_heap \<Rightarrow> 'h \<Rightarrow> bool" where
  "fails_with t r e h \<longleftrightarrow> (\<exists>q e'. r = Inr (Some q, e', h) \<and> stack_fmt q e' = Inr t \<and> stack_drop q e' = Inr e)"

lemma msg_fails:
  assumes "error_lib_laws L" "heap_finite e" "plain_text m" "m \<noteq> []"
  shows "fails_with m (err_stack (stack_msg L m e) h) e h"
  using stack_built [OF assms(1,2), of m "[]"] assms(3,4)
  by (auto simp: fails_with_def err_stack_def try_bind_Inr stack_text_def shown_def)

lemma enable_disable_split:
  assumes "sw_from_str H (hd (split_on CHR '' '' input)) = Some i"
    and "\<not> (2 \<le> length (split_on CHR '' '' input) \<and> split_on CHR '' '' input ! 1 \<noteq> ''disable'')"
  shows "enable_disable_command L H F plugin input e h =
    (let on = length (split_on CHR '' '' input) < 2; (ret, h') = feature_enable_disable H (arc_name F) (node_name F) i on h in
     if ret = 0 then Inr (None, e, h')
     else err_stack (vnet_error_context L ret ((if on then ''Failed to enable '' else ''Failed to disable '') @ plugin @ '' feature'') e) h')"
  using assms
  by (cases "2 \<le> length (split_on CHR '' '' input)")
    (simp_all add: enable_disable_command_def hd_conv_nth feature_enable_def feature_disable_def Let_def split: prod.splits)

text \<open>C23: What the enable/disable command of both plugins does with a line: an unknown interface and an option other than
  \<open>disable\<close> fail with their message and without touching the host; otherwise the host is called once, to
  enable the feature exactly when there is one word, and the command fails exactly when the host does.
  Words after the second are ignored, and the message for a missing interface is never given: an empty
  line names the interface with the empty name.\<close>

theorem enable_disable_exact:
  assumes "error_lib_laws L" "heap_finite e" "CHR 0x00 \<notin> set plugin"
    and "list_all (\<lambda>w. plain_text (''Invalid interface name '' @ w) \<and> plain_text (''Unrecognised option '' @ w)) (split_on CHR '' '' input)"
  defines "words \<equiv> split_on CHR '' '' input"
  shows "case sw_from_str H (hd words) of
      None \<Rightarrow> fails_with (''Invalid interface name '' @ hd words) (enable_disable_command L H F plugin input e h) e h
    | Some i \<Rightarrow>
        if 2 \<le> length words \<and> words ! 1 \<noteq> ''disable''
        then fails_with (''Unrecognised option '' @ words ! 1) (enable_disable_command L H F plugin input e h) e h
        else (let (ret, h') = feature_enable_disable H (arc_name F) (node_name F) i (length words < 2) h in
          if ret = 0 then enable_disable_command L H F plugin input e h = Inr (None, e, h')
          else \<exists>q e'. enable_disable_command L H F plugin input e h = Inr (Some q, e', h') \<and> stack_drop q e' = Inr e)"
proof (cases "sw_from_str H (hd words)")
  case None
  have "plain_text (''Invalid interface name '' @ hd words)" using assms(4) by (cases words) (auto simp: words_def)
  from msg_fails [OF assms(1,2) this _, of h] None show ?thesis
    by (simp add: enable_disable_command_def words_def hd_conv_nth Let_def)
next
  case (Some i)
  show ?thesis
  proof (cases "2 \<le> length words \<and> words ! 1 \<noteq> ''disable''")
    case True
    then have "plain_text (''Unrecognised option '' @ words ! 1)" using assms(4) by (auto simp: words_def list_all_length)
    from msg_fails [OF assms(1,2) this _, of h] True Some show ?thesis
      by (simp add: enable_disable_command_def words_def hd_conv_nth Let_def)
  next
    case False
    have "CHR 0x00 \<notin> set ((if on then ''Failed to enable '' else ''Failed to disable '') @ plugin @ '' feature'')" for on
      using assms(3) by simp
    note built = vnet_context_built [OF assms(1,2) this]
    note split = enable_disable_split [OF Some [unfolded words_def] False [unfolded words_def], folded words_def]
    obtain ret h' where r: "feature_enable_disable H (arc_name F) (node_name F) i (length words < 2) h = (ret, h')" by fastforce
    obtain q e' where "vnet_error_context L ret ((if length words < 2 then ''Failed to enable '' else ''Failed to disable '') @ plugin @ '' feature'') e
        = Inr (q, e')" "stack_drop q e' = Inr e" using built by blast
    then show ?thesis
      unfolding Some option.case if_not_P [OF False] split r Let_def prod.case
      by (cases "ret = 0") (simp_all add: err_stack_def del: append.simps)
  qed
qed

text \<open>A host that knows one interface, accepts everything and keeps the calls.\<close>

definition sample_host :: "(string \<times> nat \<times> bool) list cli_host" where
  "sample_host = \<lparr>feature_enable_disable = (\<lambda>arc node sw on h. (0, h @ [(node, sw, on)])),
     unformat_sw_interface = (\<lambda>s. if s = ''host0'' then (1, 5) else (0, 0))\<rparr>"

definition test_feature :: feature_registration where
  "test_feature = \<lparr>arc_name = ''ip4-unicast'', node_name = ''test''\<rparr>"

lemma no_errors_finite: "heap_finite no_errors"
  by (simp add: heap_finite_def no_errors_def)

lemma enable_disable_exact_witness:
  "enable_disable_command sample_error_lib sample_host test_feature ''test'' ''host0 disable now'' no_errors [] =
     Inr (None, no_errors, [(''test'', 5, False)]) \<and>
   fails_with ''Invalid interface name '' (enable_disable_command sample_error_lib sample_host test_feature ''test'' [] no_errors []) no_errors []"
proof -
  have "list_all (\<lambda>w. plain_text (''Invalid interface name '' @ w) \<and> plain_text (''Unrecognised option '' @ w))
      (split_on CHR '' '' ''host0 disable now'')"
    "list_all (\<lambda>w. plain_text (''Invalid interface name '' @ w) \<and> plain_text (''Unrecognised option '' @ w)) (split_on CHR '' '' [])"
    by code_simp+
  note r = this [THEN enable_disable_exact [where H = sample_host and F = test_feature and plugin = "''test''" and h = "[]",
        OF sample_error_lib_laws no_errors_finite, rotated]]
  show ?thesis
    using r by (simp add: sw_from_str_def sample_host_def test_feature_def Let_def)
qed

text \<open>C40: The words of a command line become part of a format: a first word that is no interface and has a percent sign
  before a conversion letter, or such an option behind an interface, makes the command read an argument
  that is not there.\<close>

theorem cli_word_is_format:
  assumes "error_lib_laws L" "heap_finite e" "list_all (\<lambda>w. CHR 0x00 \<notin> set w) (split_on CHR '' '' input)"
  defines "words \<equiv> split_on CHR '' '' input"
  assumes "if sw_from_str H (hd words) = None then reads_argument (hd words) else 2 \<le> length words \<and> reads_argument (words ! 1)"
  shows "enable_disable_command L H F plugin input e h = Inl Undefined_Behaviour"
proof -
  have f: "stack_msg L (p @ w) e = Inl Undefined_Behaviour"
    if "CHR ''%'' \<notin> set p" "CHR 0x00 \<notin> set p" "reads_argument w" "w \<in> set words" for p w
    using format_without_argument [OF assms(1,2) _ reads_argument_prefix [OF that(1,3)], of None] that assms(3)
    by (simp add: stack_msg_def list_all_iff words_def)
  have in_words: "words ! 0 \<in> set words" by (simp add: words_def)
  show ?thesis
  proof (cases "sw_from_str H (hd words)")
    case None
    then have "stack_msg L (''Invalid interface name '' @ words ! 0) e = Inl Undefined_Behaviour"
      using f [of "''Invalid interface name ''" "words ! 0"] assms(5) in_words by (simp add: hd_conv_nth words_def)
    then show ?thesis using None
      by (simp add: enable_disable_command_def words_def hd_conv_nth Let_def err_stack_def del: append.simps)
  next
    case (Some i)
    then have w: "2 \<le> length words" "reads_argument (words ! 1)" using assms(5) by auto
    then have "stack_msg L (''Unrecognised option '' @ words ! 1) e = Inl Undefined_Behaviour"
      by (intro f) simp_all
    moreover have "words ! 1 \<noteq> ''disable''" using w(2) by auto
    ultimately show ?thesis using Some w(1)
      by (simp add: enable_disable_command_def words_def hd_conv_nth Let_def err_stack_def del: append.simps)
  qed
qed

lemma cli_word_is_format_witness:
  "enable_disable_command sample_error_lib sample_host test_feature ''test'' ''%s'' no_errors [] = Inl Undefined_Behaviour"
  by (rule cli_word_is_format [OF sample_error_lib_laws no_errors_finite])
    (simp_all add: sw_from_str_def sample_host_def)

section \<open>The command that tests counters\<close>

lemma bumped_sum:
  assumes "t < length m" "valid_index m 0" "total m 0 = 0" "n \<le> U64_MAX"
  shows "sum_threads (arith_add dbg U64_MAX) 0 (m[t := (m ! t)[0 := n]]) 0 = Inr n"
proof -
  have c: "0 < length (m ! t)" using assms(1,2) by (simp add: valid_index_def list_all_length)
  have "m ! t ! 0 \<le> total m 0" using cell_le_total [of m t 0] assms(1) c by (simp add: valid_cell_def)
  then have "total (m[t := (m ! t)[0 := n]]) 0 = n"
    using total_update [OF assms(1) c, of n 0] assms(3) by simp
  moreover have "valid_index (m[t := (m ! t)[0 := n]]) 0"
    using assms(2) c by (simp add: valid_index_def list_all_length nth_list_update_if)
  ultimately show ?thesis using simple_get_sum [of _ 0 0 dbg] assms(4) by simp
qed

lemma fresh_cells:
  assumes "counter_lib_laws threads z L"
  shows "length (allocate_index L [] i) = threads" "list_all (\<lambda>row. i < length row \<and> row ! i = z) (allocate_index L [] i)"
    "lib_zero L m' i = map (\<lambda>row. row[i := z]) m'"
proof -
  have v: "length (lib_validate L [] i) = threads" "list_all (\<lambda>row. i < length row) (lib_validate L [] i)"
    using assms unfolding counter_lib_laws_def by (metis le0 list.size(3))+
  show z: "lib_zero L m' i = map (\<lambda>row. row[i := z]) m'" for m' using assms by (simp add: counter_lib_laws_def)
  show "length (allocate_index L [] i) = threads" "list_all (\<lambda>row. i < length row \<and> row ! i = z) (allocate_index L [] i)"
    using v by (auto simp: allocate_index_def z list_all_iff)
qed

text \<open>The packets, or the bytes, of combined counters as simple counters.\<close>

lemma part_cells:
  assumes "list_all (\<lambda>row. 0 < length row \<and> row ! 0 = z) m" "f z = 0"
  shows "valid_index (map (map f) m) 0" "total (map (map f) m) 0 = 0"
  using assms by (auto simp: valid_index_def list_all_iff total_def sum_list_eq_0_iff comp_def)

text \<open>The command that tests counters passes on every machine and in every build: on any thread it reads back the packet
  and the bytes it counted, and zero after clearing, for a simple and for a combined counter; any other
  word fails with its message.\<close>

theorem counter_command_passes:
  assumes "counter_lib_laws threads 0 S" "counter_lib_laws threads \<lparr>packets = 0, bytes = 0\<rparr> C" "t < threads"
    and "error_lib_laws L" "heap_finite e" "plain_text (''Unrecognised input '' @ input)"
  shows "if input \<in> {''simple'', ''combined''} then counter_test_command dbg L S C t input e h = Inr (None, e, h)
    else fails_with (''Unrecognised input '' @ input) (counter_test_command dbg L S C t input e h) e h"
proof -
  define m where "m = allocate_index S [] 0"
  define c where "c = allocate_index C [] 0"
  have cells: "length m = threads" "list_all (\<lambda>row. 0 < length row \<and> row ! 0 = 0) m"
    "length c = threads" "list_all (\<lambda>row. 0 < length row \<and> row ! 0 = \<lparr>packets = 0, bytes = 0\<rparr>) c"
    unfolding m_def c_def
    by (rule fresh_cells(1,2) [OF assms(1)] fresh_cells(1,2) [OF assms(2)])+
  have here: "valid_cell m t 0" "m ! t ! 0 = 0" "valid_cell c t 0" "c ! t ! 0 = \<lparr>packets = 0, bytes = 0\<rparr>"
    using cells assms(3) by (simp_all add: valid_cell_def list_all_length)
  have simple: "simple_increment dbg m t 0 1 = Inr (m[t := (m ! t)[0 := 1]])"
    using here by (simp add: simple_increment_def cell_update_valid arith_add_def U64_MAX_def)
  have combined: "combined_increment dbg c t 0 1 64 = Inr (c[t := (c ! t)[0 := \<lparr>packets = 1, bytes = 64\<rparr>]])"
    using here by (simp add: combined_increment_def cell_update_valid arith_add_def U64_MAX_def)
  have mv: "valid_index m 0" "total m 0 = 0" using part_cells [OF cells(2), of id] by simp_all
  note cp = part_cells [OF cells(4), of packets] part_cells [OF cells(4), of bytes]
  have get1: "simple_get dbg (m[t := (m ! t)[0 := 1]]) 0 = Inr 1"
    using bumped_sum [of t m 1 dbg] assms(3) cells(1) mv by (simp add: simple_get_def U64_MAX_def)
  have vi: "valid_index (m[t := (m ! t)[0 := 1]]) 0" "valid_index (c[t := (c ! t)[0 := \<lparr>packets = 1, bytes = 64\<rparr>]]) 0"
    using cells by (simp_all add: valid_index_def list_all_length nth_list_update_if)
  have get0: "simple_get dbg (counter_zero S (m[t := (m ! t)[0 := 1]]) 0) 0 = Inr 0"
    using zeroed_sum [OF vi(1)] fresh_cells(3) [OF assms(1)] by (simp add: simple_get_def counter_zero_def)
  have cget1: "combined_get dbg (c[t := (c ! t)[0 := \<lparr>packets = 1, bytes = 64\<rparr>]]) 0 = Inr \<lparr>packets = 1, bytes = 64\<rparr>"
    using bumped_sum [of t "map (map packets) c" 1 dbg] bumped_sum [of t "map (map bytes) c" 64 dbg] assms(3) cells(3) cp
    by (simp add: combined_get_def sum_combined map_update U64_MAX_def)
  have "combined_get dbg (map (\<lambda>row. row[0 := \<lparr>packets = 0, bytes = 0\<rparr>]) k) 0 = Inr \<lparr>packets = 0, bytes = 0\<rparr>"
    if "valid_index k 0" for k
  proof -
    have "valid_index (map (map packets) k) 0" "valid_index (map (map bytes) k) 0"
      using that by (simp_all add: valid_index_def list_all_iff)
    from this [THEN zeroed_sum, of dbg] show ?thesis by (simp add: combined_get_def sum_combined comp_def map_update)
  qed
  from this [OF vi(2)] have cget0: "combined_get dbg (counter_zero C (c[t := (c ! t)[0 := \<lparr>packets = 1, bytes = 64\<rparr>]]) 0) 0 =
      Inr \<lparr>packets = 0, bytes = 0\<rparr>"
    using fresh_cells(3) [OF assms(2)] by (simp add: counter_zero_def)
  show ?thesis
    unfolding counter_test_command_def m_def [symmetric] c_def [symmetric]
    by (simp add: msg_fails [OF assms(4-6)] simple get1 get0 combined cget1 cget0 Let_def del: append.simps One_nat_def)
qed

text \<open>The same layout of the rows for combined counters.\<close>

definition sample_combined_lib :: "nat \<Rightarrow> combined_count counter_lib" where
  "sample_combined_lib threads = \<lparr>
     lib_validate = sample_rows \<lparr>packets = 0, bytes = 0\<rparr> threads,
     lib_zero = (\<lambda>m i. map (\<lambda>row. row[i := \<lparr>packets = 0, bytes = 0\<rparr>]) m)\<rparr>"

lemma counter_command_passes_witness:
  "counter_test_command False sample_error_lib (sample_lib 2) (sample_combined_lib 2) 1 ''combined'' no_errors [] = Inr (None, no_errors, [])"
proof -
  have laws: "counter_lib_laws 2 \<lparr>packets = 0, bytes = 0\<rparr> (sample_combined_lib 2)"
    unfolding counter_lib_laws_def sample_combined_lib_def by (simp add: sample_rows_laws)
  have plain: "plain_text (''Unrecognised input '' @ ''combined'')" by code_simp
  show ?thesis
    using counter_command_passes [OF sample_lib_laws laws _ sample_error_lib_laws no_errors_finite plain, of 1 False "[]"] by simp
qed

end
