(* ===== verification/Plugin_Api.thy ===== *)
theory Plugin_Api
  imports Plugin_Cli Plugin_Process Unaligned
begin

text \<open>
  The API of the plugins: the handlers of the test plugin (\<open>vpp-test-plugin/src/lib.rs\<close>, messages in
  \<open>test.api\<close>) and of the example plugin, and what the generated code does around a handler
  (\<open>vpp-plugin-api-gen/src/lib.rs\<close>): look up the client, answer an error, copy the context, change the
  byte order and send.
\<close>

section \<open>Messages of the API\<close>

text \<open>
  What follows the header of a reply: nothing, a \<open>u8\<close>, a \<open>u16\<close>, the bits of an \<open>f64\<close>, an array with its count
  (an \<open>i32\<close>, as its bits), or a string in a fixed buffer and one with a length.
\<close>

datatype reply_body =
    No_Body
  | Byte nat
  | Half nat
  | Double nat
  | Words nat "nat list"
  | Texts "byte list" api_string

record api_message =
  am_id :: nat
  am_client_index :: "nat option"
  am_context :: nat
  am_retval :: "int option"
  am_body :: reply_body

definition to_be16 :: "nat \<Rightarrow> nat" where
  "to_be16 n = n mod 256 * 256 + n div 256 mod 256"

text \<open>The generated \<open>EndianSwap\<close>: the count of an array is in network order when the array is looked at.\<close>

definition words_endian :: "bool \<Rightarrow> nat \<Rightarrow> nat list \<Rightarrow> reply_body" where
  "words_endian to_net c vs =
     (let field = to_be32 c;
          n = (if to_net then to_be32 field else field)
      in Words field (map to_be32 (take n vs) @ drop n vs))"

definition body_endian :: "bool \<Rightarrow> reply_body \<Rightarrow> reply_body" where
  "body_endian to_net b =
     (case b of
        Half v \<Rightarrow> Half (to_be16 v)
      | Words c vs \<Rightarrow> words_endian to_net c vs
      | Texts buf s \<Rightarrow> Texts buf (Api_String.endian_swap s)
      | _ \<Rightarrow> b)"

definition message_endian :: "bool \<Rightarrow> api_message \<Rightarrow> api_message" where
  "message_endian to_net m = \<lparr>
     am_id = to_be16 (am_id m), am_client_index = map_option to_be32 (am_client_index m), am_context = to_be32 (am_context m),
     am_retval = map_option (prim_to_be True I32) (am_retval m), am_body = body_endian to_net (am_body m)\<rparr>"

section \<open>The plugin and its surroundings\<close>

text \<open>
  Parameters: the allocator of messages, the host, the registrations of clients, the numbers of the
  messages and the wakers.  The state: messages, host, the lock and the channel of the plugin.
\<close>

record ('h, 'w, 'aw) api_env =
  en_alloc :: "api_message allocator"
  en_host :: "'h cli_host"
  en_lookup :: "nat \<Rightarrow> nat option"
  en_ids :: "string \<Rightarrow> nat"
  en_waker :: "('w, 'aw) waker_ops"
  en_dbg :: bool

record ('h, 'w, 'aw) api_state =
  ap_heap :: "api_message msg_heap"
  ap_host :: 'h
  ap_policy :: "nat option barrier_rw_lock"
  ap_channel :: "(process_message, 'w, 'aw) mpsc_channel"

text \<open>A handler returns \<open>Err\<close> with the code or \<open>Ok\<close> with the reply, as the address of its block.\<close>

type_synonym ('h, 'w, 'aw) handler_result = "fault + (int + nat) \<times> ('h, 'w, 'aw) api_state"

definition packed_type :: "nat \<Rightarrow> msg_type" where
  "packed_type n = \<lparr>ty_size = n, ty_align = 1, ty_needs_drop = False\<rparr>"

definition default_reply :: "('h, 'w, 'aw) api_env \<Rightarrow> string \<Rightarrow> api_message" where
  "default_reply E name = \<lparr>am_id = en_ids E name, am_client_index = None, am_context = 0, am_retval = Some 0, am_body = No_Body\<rparr>"

definition in_message :: "api_message \<Rightarrow> api_message msg_value" where
  "in_message d = \<lparr>v_id = 0, v_data = d\<rparr>"

definition invalid_argument :: "('h, 'w, 'aw) api_state \<Rightarrow> ('h, 'w, 'aw) handler_result" where
  "invalid_argument s = Inr (Inl VNET_ERR_INVALID_ARGUMENT, s)"

text \<open>\<open>Ok(Default::default())\<close>: the default reply is a header of ten bytes.\<close>

definition ok_default :: "('h, 'w, 'aw) api_env \<Rightarrow> string \<Rightarrow> ('h, 'w, 'aw) api_state \<Rightarrow> ('h, 'w, 'aw) handler_result" where
  "ok_default E name s =
     try_bind (msg_default (en_alloc E) (packed_type 10) (\<lambda>h. Inr (in_message (default_reply E name), h)) (ap_heap s))
       (\<lambda>(m, h). Inr (Inr m, s\<lparr>ap_heap := h\<rparr>))"

definition check_then_default :: "('h, 'w, 'aw) api_env \<Rightarrow> string \<Rightarrow> bool \<Rightarrow> ('h, 'w, 'aw) api_state \<Rightarrow> ('h, 'w, 'aw) handler_result" where
  "check_then_default E name c s = (if c then ok_default E name s else invalid_argument s)"

text \<open>A message made from a value of \<open>n\<close> bytes with \<open>into\<close>.\<close>

definition message_from :: "('h, 'w, 'aw) api_env \<Rightarrow> nat \<Rightarrow> api_message \<Rightarrow> ('h, 'w, 'aw) api_state \<Rightarrow> fault + nat \<times> ('h, 'w, 'aw) api_state" where
  "message_from E n d s =
     try_bind (msg_new (en_alloc E) (packed_type n) (in_message d) (ap_heap s)) (\<lambda>(m, h). Inr (m, s\<lparr>ap_heap := h\<rparr>))"

text \<open>\<open>new_message\<close> of a message with a variable part: zeroed bytes, and then the fields of the value.\<close>

definition sized_message :: "('h, 'w, 'aw) api_env \<Rightarrow> nat \<Rightarrow> api_message \<Rightarrow> ('h, 'w, 'aw) api_state \<Rightarrow> fault + nat \<times> ('h, 'w, 'aw) api_state" where
  "sized_message E n d s =
     try_bind (message_new_bytes (en_alloc E) n (ap_heap s)) (\<lambda>(m, h).
     try_bind (msg_store m n (Api_Message.Value (in_message d)) h) (\<lambda>h. Inr (m, s\<lparr>ap_heap := h\<rparr>)))"

text \<open>The elements of an array with a count, in a message that has \<open>mem\<close> behind its last field.\<close>

definition vla_values :: "int \<Rightarrow> 'a list \<Rightarrow> fault + 'a list" where
  "vla_values n mem = (if 0 \<le> n \<and> nat n \<le> length mem then Inr (take (nat n) mem) else Inl Undefined_Behaviour)"

section \<open>The handlers of the test plugin\<close>

definition TEST_FEAT :: feature_registration where
  "TEST_FEAT = \<lparr>arc_name = ''ip4-unicast'', node_name = ''test''\<rparr>"

definition TESTX4_FEAT :: feature_registration where
  "TESTX4_FEAT = \<lparr>arc_name = ''ip4-unicast'', node_name = ''testx4''\<rparr>"

definition TEST_NODE_TYPE_X1 :: nat where "TEST_NODE_TYPE_X1 = 0"
definition TEST_NODE_TYPE_X4 :: nat where "TEST_NODE_TYPE_X4 = 1"
definition TEST_ADDRESS_IP4 :: nat where "TEST_ADDRESS_IP4 = 0"
definition TEST_ADDRESS_IP6 :: nat where "TEST_ADDRESS_IP6 = 1"
definition TEST_DIR_RX :: nat where "TEST_DIR_RX = 1"
definition TEST_DIR_TX :: nat where "TEST_DIR_TX = 2"

definition switch_feature ::
  "('h, 'w, 'aw) api_env \<Rightarrow> feature_registration \<Rightarrow> bool \<Rightarrow> nat \<Rightarrow> string \<Rightarrow> ('h, 'w, 'aw) api_state \<Rightarrow> ('h, 'w, 'aw) handler_result" where
  "switch_feature E F enable sw name s =
     (let (ret, h) = (if enable then feature_enable else feature_disable) (en_host E) F sw (ap_host s);
          s = s\<lparr>ap_host := h\<rparr>
      in case ret of Inl e \<Rightarrow> Inr (Inl e, s) | Inr _ \<Rightarrow> ok_default E name s)"

definition test_enable_disable ::
  "('h, 'w, 'aw) api_env \<Rightarrow> bool \<Rightarrow> nat \<Rightarrow> nat \<Rightarrow> ('h, 'w, 'aw) api_state \<Rightarrow> ('h, 'w, 'aw) handler_result" where
  "test_enable_disable E enable sw node_type s =
     (if node_type = TEST_NODE_TYPE_X1 then switch_feature E TEST_FEAT enable sw ''test_enable_disable_reply'' s
      else if node_type = TEST_NODE_TYPE_X4 then switch_feature E TESTX4_FEAT enable sw ''test_enable_disable_reply'' s
      else invalid_argument s)"

definition test_type_in_message :: "('h, 'w, 'aw) api_env \<Rightarrow> nat \<Rightarrow> ('h, 'w, 'aw) api_state \<Rightarrow> ('h, 'w, 'aw) handler_result" where
  "test_type_in_message E field1 s = check_then_default E ''test_type_in_message_reply'' (field1 = 42) s"

text \<open>Comparing the bits of an \<open>f64\<close> with zero, which has two signs, and with 42.\<close>

definition f64_is_zero :: "nat \<Rightarrow> bool" where
  "f64_is_zero b \<longleftrightarrow> b = 0 \<or> b = 2 ^ 63"

definition F64_42 :: nat where
  "F64_42 = 0x4045000000000000"

definition test_array ::
  "('h, 'w, 'aw) api_env \<Rightarrow> nat list \<Rightarrow> nat list \<Rightarrow> nat list \<Rightarrow> nat \<times> nat \<Rightarrow> ('h, 'w, 'aw) api_state \<Rightarrow> ('h, 'w, 'aw) handler_result" where
  "test_array E array1 array2 array3 array4 s =
     (if array1 \<noteq> [42, 0xdeadbeef, 0, 0xffffffff] then invalid_argument s
      else if array2 \<noteq> [42, 0xffff] then invalid_argument s
      else if array3 \<noteq> [TEST_NODE_TYPE_X1, TEST_NODE_TYPE_X4] then invalid_argument s
      else if \<not> f64_is_zero (fst array4) \<or> snd array4 \<noteq> F64_42 then invalid_argument s
      else ok_default E ''test_array_reply'' s)"

text \<open>A reply with a value is a header and the value: two bytes more, or a header without code and eight bytes more.\<close>

definition test_response :: "('h, 'w, 'aw) api_env \<Rightarrow> nat \<Rightarrow> ('h, 'w, 'aw) api_state \<Rightarrow> ('h, 'w, 'aw) handler_result" where
  "test_response E v s =
     try_bind (message_from E 12 ((default_reply E ''test_response_reply'')\<lparr>am_body := Half v\<rparr>) s) (\<lambda>(m, s). Inr (Inr m, s))"

definition test_response_no_retval ::
  "('h, 'w, 'aw) api_env \<Rightarrow> nat \<Rightarrow> ('h, 'w, 'aw) api_state \<Rightarrow> fault + nat \<times> ('h, 'w, 'aw) api_state" where
  "test_response_no_retval E v s =
     message_from E 14 ((default_reply E ''test_response_no_retval_reply'')\<lparr>am_retval := None, am_body := Double v\<rparr>) s"

text \<open>The details of a stream: eleven bytes, with a client index that stays zero.\<close>

definition send_details ::
  "('h, 'w, 'aw) api_env \<Rightarrow> string \<Rightarrow> nat \<Rightarrow> nat \<Rightarrow> nat \<Rightarrow> ('h, 'w, 'aw) api_state \<Rightarrow> fault + ('h, 'w, 'aw) api_state" where
  "send_details E name reg cxt v s =
     try_bind (message_from E 11 \<lparr>am_id = en_ids E name, am_client_index = Some 0, am_context = cxt, am_retval = None, am_body = Byte v\<rparr> s)
       (\<lambda>(m, s). try_bind (stream_send_message message_endian reg m (ap_heap s)) (\<lambda>h. Inr (s\<lparr>ap_heap := h\<rparr>)))"

definition test_dump :: "('h, 'w, 'aw) api_env \<Rightarrow> nat \<Rightarrow> nat \<Rightarrow> ('h, 'w, 'aw) api_state \<Rightarrow> fault + ('h, 'w, 'aw) api_state" where
  "test_dump E reg cxt s =
     try_bind (send_details E ''test_details'' reg cxt 1 s) (send_details E ''test_details'' reg cxt 2)"

definition test_stream_get ::
  "('h, 'w, 'aw) api_env \<Rightarrow> nat \<Rightarrow> nat \<Rightarrow> ('h, 'w, 'aw) api_state \<Rightarrow> ('h, 'w, 'aw) handler_result" where
  "test_stream_get E reg cxt s =
     try_bind (send_details E ''test_stream_details'' reg cxt 1 s) (\<lambda>s.
     try_bind (send_details E ''test_stream_details'' reg cxt 2 s) (ok_default E ''test_stream_get_reply''))"

definition test_typedef :: "('h, 'w, 'aw) api_env \<Rightarrow> nat list \<Rightarrow> ('h, 'w, 'aw) api_state \<Rightarrow> ('h, 'w, 'aw) handler_result" where
  "test_typedef E addr s = check_then_default E ''test_typedef_reply'' (addr = [1, 2, 3, 4]) s"

text \<open>A union is its sixteen bytes; the IPv4 address is the first four.\<close>

definition test_union :: "('h, 'w, 'aw) api_env \<Rightarrow> nat \<Rightarrow> nat list \<Rightarrow> ('h, 'w, 'aw) api_state \<Rightarrow> ('h, 'w, 'aw) handler_result" where
  "test_union E af un s =
     (if af = TEST_ADDRESS_IP4 then
        if take 4 un \<noteq> [1, 2, 3, 4] then invalid_argument s else ok_default E ''test_union_reply'' s
      else if af = TEST_ADDRESS_IP6 then
        if un \<noteq> [1, 2, 3, 4, 5, 6, 7, 8, 9, 0xa, 0xb, 0xc, 0xd, 0xe, 0xf, 0] then invalid_argument s
        else ok_default E ''test_union_reply'' s
      else invalid_argument s)"

definition arith_mul :: "bool \<Rightarrow> nat \<Rightarrow> nat \<Rightarrow> nat \<Rightarrow> fault + nat" where
  "arith_mul dbg m a b = (if a * b \<le> m then Inr (a * b) else if dbg then Inl Panic else Inr (a * b mod (m + 1)))"

text \<open>The copied elements are zipped with those of the new message, which are zero before.\<close>

definition test_variable_array_u32 ::
  "('h, 'w, 'aw) api_env \<Rightarrow> nat \<Rightarrow> nat list \<Rightarrow> ('h, 'w, 'aw) api_state \<Rightarrow> ('h, 'w, 'aw) handler_result" where
  "test_variable_array_u32 E nitems mem s =
     try_bind (vla_values (int nitems) mem) (\<lambda>vs.
     if vs \<noteq> [42, 0xdeadbeef, 0, 0xffffffff] then invalid_argument s
     else
       try_bind (arith_mul (en_dbg E) U32_MAX nitems 4) (\<lambda>extra.
       try_bind (arith_add (en_dbg E) U32_MAX 14 extra) (\<lambda>n.
       try_bind (vla_values (int nitems) (replicate (extra div 4) 0)) (\<lambda>zeros.
       let dest = map fst (zip vs zeros) @ drop (length vs) zeros in
       try_bind (sized_message E n ((default_reply E ''test_variable_array_u32_reply'')\<lparr>am_body := Words nitems dest\<rparr>) s)
         (\<lambda>(m, s). Inr (Inr m, s))))))"

definition test_variable_array_u8 ::
  "('h, 'w, 'aw) api_env \<Rightarrow> nat \<Rightarrow> nat list \<Rightarrow> ('h, 'w, 'aw) api_state \<Rightarrow> ('h, 'w, 'aw) handler_result" where
  "test_variable_array_u8 E nitems mem s =
     try_bind (vla_values (int nitems) mem) (\<lambda>vs. check_then_default E ''test_variable_array_u8_reply'' (vs = [42, 0, 0xff]) s)"

definition test_variable_array_f64 ::
  "('h, 'w, 'aw) api_env \<Rightarrow> nat \<Rightarrow> nat list \<Rightarrow> ('h, 'w, 'aw) api_state \<Rightarrow> ('h, 'w, 'aw) handler_result" where
  "test_variable_array_f64 E nitems mem s =
     try_bind (vla_values (int nitems) mem) (\<lambda>vs.
       check_then_default E ''test_variable_array_f64_reply'' (length vs = 2 \<and> f64_is_zero (vs ! 0) \<and> vs ! 1 = F64_42) s)"

definition test_variable_array_custom ::
  "('h, 'w, 'aw) api_env \<Rightarrow> nat \<Rightarrow> nat list \<Rightarrow> ('h, 'w, 'aw) api_state \<Rightarrow> ('h, 'w, 'aw) handler_result" where
  "test_variable_array_custom E nitems mem s =
     try_bind (vla_values (int nitems) mem) (\<lambda>vs.
       check_then_default E ''test_variable_array_custom_reply'' (vs = [TEST_NODE_TYPE_X1, TEST_NODE_TYPE_X4]) s)"

definition test_variable_array_in_type ::
  "('h, 'w, 'aw) api_env \<Rightarrow> int \<Rightarrow> nat list \<Rightarrow> ('h, 'w, 'aw) api_state \<Rightarrow> ('h, 'w, 'aw) handler_result" where
  "test_variable_array_in_type E nitems mem s =
     try_bind (vla_values nitems mem) (\<lambda>vs.
       check_then_default E ''test_variable_array_in_type_reply'' (vs = [42, 0xdead, 0, 0xffff]) s)"

text \<open>Strings of a message as bytes, and \<open>{:<n}\<close>.\<close>

definition chars :: "byte list \<Rightarrow> string" where
  "chars bs = map (\<lambda>b. char_of (unat b)) bs"

definition str_bytes :: "string \<Rightarrow> byte list" where
  "str_bytes t = map (\<lambda>c. of_nat (of_char c)) t"

definition pad_right :: "nat \<Rightarrow> string \<Rightarrow> string" where
  "pad_right n t = t @ replicate (n - length t) (CHR '' '')"

text \<open>
  The derived \<open>Debug\<close> of a packed struct prints copies of its fields.  The copy of an \<open>ApiString\<close> is its
  header: no bytes of the string follow it.
\<close>

definition debug_test_string :: "byte list \<Rightarrow> api_string \<Rightarrow> fault + string" where
  "debug_test_string fixed variable =
     try_bind (or_panic (fixed_as_bytes fixed)) (\<lambda>f.
     try_bind (as_bytes (variable\<lparr>as_mem := []\<rparr>)) (\<lambda>v.
       Inr (from_utf8_lossy (chars f) @ from_utf8_lossy (chars v))))"

definition test_string ::
  "('h, 'w, 'aw) api_env \<Rightarrow> byte list \<Rightarrow> api_string \<Rightarrow> ('h, 'w, 'aw) api_state \<Rightarrow> ('h, 'w, 'aw) handler_result" where
  "test_string E fixed variable s =
     try_bind (debug_test_string fixed variable) (\<lambda>_.
     try_bind (or_panic (fixed_as_bytes fixed)) (\<lambda>f.
     if from_utf8_lossy (chars f) \<noteq> pad_right 63 ''Hello World!'' then invalid_argument s else
     try_bind (as_bytes variable) (\<lambda>v.
     if from_utf8_lossy (chars v) \<noteq> ''Hello World!'' then invalid_argument s
     else if \<not> utf8_valid (chars v) then invalid_argument s
     else if chars v \<noteq> ''Hello World!'' then invalid_argument s
     else if as_length variable = 0 then invalid_argument s
     else
       let reply_str = ''Goodbye World!''; len = length reply_str in
       try_bind (arith_add (en_dbg E) U32_MAX 78 len) (\<lambda>n.
       try_bind (or_panic (fixed_copy_from_str (fixed_default 64) (str_bytes (pad_right 64 reply_str)))) (\<lambda>buf.
       try_bind (Api_String.copy_from_str (set_len \<lparr>as_length = 0, as_mem = replicate (n - 78) 0\<rparr> len) (str_bytes reply_str)) (\<lambda>text.
       try_bind (sized_message E n ((default_reply E ''test_string_reply'')\<lparr>am_body := Texts buf text\<rparr>) s) (\<lambda>(m, s).
         Inr (Inr m, s))))))))"

definition test_enumflag :: "('h, 'w, 'aw) api_env \<Rightarrow> nat \<Rightarrow> nat \<Rightarrow> ('h, 'w, 'aw) api_state \<Rightarrow> ('h, 'w, 'aw) handler_result" where
  "test_enumflag E flags flags2 s =
     (if flags \<noteq> TEST_DIR_RX + TEST_DIR_TX then invalid_argument s
      else if flags2 \<noteq> TEST_DIR_RX + TEST_DIR_TX then invalid_argument s
      else ok_default E ''test_enumflag_reply'' s)"

text \<open>The write guard lives to the end of the assignment; the handler runs on the main thread.\<close>

definition test_barrier_rw_lock :: "('h, 'w, 'aw) api_env \<Rightarrow> bool \<Rightarrow> ('h, 'w, 'aw) api_state \<Rightarrow> ('h, 'w, 'aw) handler_result" where
  "test_barrier_rw_lock E enable s =
     try_bind (or_panic (lock_write (en_dbg E) 0 (ap_policy s))) (\<lambda>lk.
       ok_default E ''test_barrier_rw_lock_reply''
         (s\<lparr>ap_policy := write_guard_drop (lk\<lparr>rw_data := if enable then Some 7 else None\<rparr>)\<rparr>))"

text \<open>The sender is cloned for the call.\<close>

definition test_process_node :: "('h, 'w, 'aw) api_env \<Rightarrow> bool \<Rightarrow> nat \<Rightarrow> ('h, 'w, 'aw) api_state \<Rightarrow> ('h, 'w, 'aw) handler_result" where
  "test_process_node E enable dest s =
     (let (r, c) = send (en_waker E) (if enable then Enable dest else Disable) (sender_clone (ap_channel s));
          s = s\<lparr>ap_channel := sender_drop c\<rparr>
      in case r of Inl _ \<Rightarrow> invalid_argument s | Inr _ \<Rightarrow> ok_default E ''test_process_node_reply'' s)"

section \<open>Around a handler\<close>

text \<open>The requests, with the fields that a handler reads; an array or string with what follows it in memory.\<close>

datatype test_request =
    Test_Enable_Disable bool nat nat
  | Test_Type_In_Message nat
  | Test_Array "nat list" "nat list" "nat list" "nat \<times> nat"
  | Test_Response nat
  | Test_Response_No_Retval nat
  | Test_Dump
  | Test_Stream_Get
  | Test_Typedef "nat list"
  | Test_Union nat "nat list"
  | Test_Variable_Array_U32 nat "nat list"
  | Test_Variable_Array_U8 nat "nat list"
  | Test_Variable_Array_F64 nat "nat list"
  | Test_Variable_Array_Custom nat "nat list"
  | Test_Variable_Array_In_Type int "nat list"
  | Test_String "byte list" api_string
  | Test_Enumflag nat nat
  | Test_Barrier_Rw_Lock bool
  | Test_Process_Node bool nat

text \<open>\<open>reply.context = mp.context\<close>, the byte order, and sending.\<close>

definition set_context :: "nat \<Rightarrow> nat \<Rightarrow> api_message msg_heap \<Rightarrow> fault + api_message msg_heap" where
  "set_context cxt m h =
     try_bind (message_deref m h) (\<lambda>c.
     case c of
       Api_Message.Value v \<Rightarrow> msg_store m 0 (Api_Message.Value (v\<lparr>v_data := (v_data v)\<lparr>am_context := cxt\<rparr>\<rparr>)) h
     | _ \<Rightarrow> Inl Undefined_Behaviour)"

definition send_reply :: "nat \<Rightarrow> nat \<Rightarrow> nat \<Rightarrow> ('h, 'w, 'aw) api_state \<Rightarrow> fault + ('h, 'w, 'aw) api_state" where
  "send_reply reg cxt m s =
     try_bind (set_context cxt m (ap_heap s)) (\<lambda>h.
     try_bind (msg_endian_swap message_endian True m h) (\<lambda>h.
     try_bind (registration_send_message reg m h) (\<lambda>h. Inr (s\<lparr>ap_heap := h\<rparr>))))"

text \<open>A service whose reply has a \<open>retval\<close>: an error becomes the default reply \<open>d\<close>, of \<open>n\<close> bytes, with the code.\<close>

definition reply_or_retval ::
  "('h, 'w, 'aw) api_env \<Rightarrow> api_message \<Rightarrow> nat \<Rightarrow> (int + nat) \<times> ('h, 'w, 'aw) api_state \<Rightarrow> fault + nat \<times> ('h, 'w, 'aw) api_state" where
  "reply_or_retval E d n = (\<lambda>(r, s).
     case r of Inr m \<Rightarrow> Inr (m, s) | Inl retval \<Rightarrow> message_from E n (d\<lparr>am_retval := Some retval\<rparr>) s)"

definition serve ::
  "('h, 'w, 'aw) api_env \<Rightarrow> api_message \<Rightarrow> nat \<Rightarrow> nat \<Rightarrow> nat \<Rightarrow> (nat \<Rightarrow> ('h, 'w, 'aw) api_state \<Rightarrow> ('h, 'w, 'aw) handler_result) \<Rightarrow>
    ('h, 'w, 'aw) api_state \<Rightarrow> fault + ('h, 'w, 'aw) api_state" where
  "serve E d n client_index cxt handler s =
     (case from_client_index (en_lookup E) client_index of
        None \<Rightarrow> Inr s
      | Some reg \<Rightarrow>
          try_bind (handler reg s) (\<lambda>r.
          try_bind (reply_or_retval E d n r) (\<lambda>(m, s). send_reply reg cxt m s)))"

definition serve_no_retval ::
  "('h, 'w, 'aw) api_env \<Rightarrow> nat \<Rightarrow> nat \<Rightarrow> (('h, 'w, 'aw) api_state \<Rightarrow> fault + nat \<times> ('h, 'w, 'aw) api_state) \<Rightarrow>
    ('h, 'w, 'aw) api_state \<Rightarrow> fault + ('h, 'w, 'aw) api_state" where
  "serve_no_retval E client_index cxt handler s =
     (case from_client_index (en_lookup E) client_index of
        None \<Rightarrow> Inr s
      | Some reg \<Rightarrow> try_bind (handler s) (\<lambda>(m, s). send_reply reg cxt m s))"

definition serve_stream ::
  "('h, 'w, 'aw) api_env \<Rightarrow> nat \<Rightarrow> (nat \<Rightarrow> ('h, 'w, 'aw) api_state \<Rightarrow> fault + ('h, 'w, 'aw) api_state) \<Rightarrow>
    ('h, 'w, 'aw) api_state \<Rightarrow> fault + ('h, 'w, 'aw) api_state" where
  "serve_stream E client_index handler s =
     (case from_client_index (en_lookup E) client_index of None \<Rightarrow> Inr s | Some reg \<Rightarrow> handler reg s)"

text \<open>The raw handler of each request of the test plugin.\<close>

fun test_handle ::
  "('h, 'w, 'aw) api_env \<Rightarrow> nat \<Rightarrow> nat \<Rightarrow> test_request \<Rightarrow> ('h, 'w, 'aw) api_state \<Rightarrow> fault + ('h, 'w, 'aw) api_state" where
  "test_handle E cl cxt (Test_Enable_Disable enable sw node_type) =
     serve E (default_reply E ''test_enable_disable_reply'') 10 cl cxt (\<lambda>reg. test_enable_disable E enable sw node_type)"
| "test_handle E cl cxt (Test_Type_In_Message field1) =
     serve E (default_reply E ''test_type_in_message_reply'') 10 cl cxt (\<lambda>reg. test_type_in_message E field1)"
| "test_handle E cl cxt (Test_Array array1 array2 array3 array4) =
     serve E (default_reply E ''test_array_reply'') 10 cl cxt (\<lambda>reg. test_array E array1 array2 array3 array4)"
| "test_handle E cl cxt (Test_Response v) =
     serve E ((default_reply E ''test_response_reply'')\<lparr>am_body := Half 0\<rparr>) 12 cl cxt (\<lambda>reg. test_response E v)"
| "test_handle E cl cxt (Test_Response_No_Retval v) = serve_no_retval E cl cxt (test_response_no_retval E v)"
| "test_handle E cl cxt Test_Dump = serve_stream E cl (\<lambda>reg. test_dump E reg cxt)"
| "test_handle E cl cxt Test_Stream_Get =
     serve E (default_reply E ''test_stream_get_reply'') 10 cl cxt (\<lambda>reg. test_stream_get E reg cxt)"
| "test_handle E cl cxt (Test_Typedef addr) =
     serve E (default_reply E ''test_typedef_reply'') 10 cl cxt (\<lambda>reg. test_typedef E addr)"
| "test_handle E cl cxt (Test_Union af un) =
     serve E (default_reply E ''test_union_reply'') 10 cl cxt (\<lambda>reg. test_union E af un)"
| "test_handle E cl cxt (Test_Variable_Array_U32 nitems mem) =
     serve E ((default_reply E ''test_variable_array_u32_reply'')\<lparr>am_body := Words 0 []\<rparr>) 14 cl cxt
       (\<lambda>reg. test_variable_array_u32 E nitems mem)"
| "test_handle E cl cxt (Test_Variable_Array_U8 nitems mem) =
     serve E (default_reply E ''test_variable_array_u8_reply'') 10 cl cxt (\<lambda>reg. test_variable_array_u8 E nitems mem)"
| "test_handle E cl cxt (Test_Variable_Array_F64 nitems mem) =
     serve E (default_reply E ''test_variable_array_f64_reply'') 10 cl cxt (\<lambda>reg. test_variable_array_f64 E nitems mem)"
| "test_handle E cl cxt (Test_Variable_Array_Custom nitems mem) =
     serve E (default_reply E ''test_variable_array_custom_reply'') 10 cl cxt (\<lambda>reg. test_variable_array_custom E nitems mem)"
| "test_handle E cl cxt (Test_Variable_Array_In_Type nitems mem) =
     serve E (default_reply E ''test_variable_array_in_type_reply'') 10 cl cxt (\<lambda>reg. test_variable_array_in_type E nitems mem)"
| "test_handle E cl cxt (Test_String fixed variable) =
     serve E ((default_reply E ''test_string_reply'')\<lparr>am_body := Texts (fixed_default 64) \<lparr>as_length = 0, as_mem = []\<rparr>\<rparr>) 78 cl cxt
       (\<lambda>reg. test_string E fixed variable)"
| "test_handle E cl cxt (Test_Enumflag flags flags2) =
     serve E (default_reply E ''test_enumflag_reply'') 10 cl cxt (\<lambda>reg. test_enumflag E flags flags2)"
| "test_handle E cl cxt (Test_Barrier_Rw_Lock enable) =
     serve E (default_reply E ''test_barrier_rw_lock_reply'') 10 cl cxt (\<lambda>reg. test_barrier_rw_lock E enable)"
| "test_handle E cl cxt (Test_Process_Node enable dest) =
     serve E (default_reply E ''test_process_node_reply'') 10 cl cxt (\<lambda>reg. test_process_node E enable dest)"

section \<open>The example plugin\<close>

definition EXAMPLE_FEAT :: feature_registration where
  "EXAMPLE_FEAT = \<lparr>arc_name = ''ip4-unicast'', node_name = ''example''\<rparr>"

definition example_enable_disable ::
  "('h, 'w, 'aw) api_env \<Rightarrow> bool \<Rightarrow> nat \<Rightarrow> ('h, 'w, 'aw) api_state \<Rightarrow> ('h, 'w, 'aw) handler_result" where
  "example_enable_disable E enable sw s = switch_feature E EXAMPLE_FEAT enable sw ''example_enable_disable_reply'' s"

datatype example_request = Example_Enable_Disable bool nat

fun example_handle ::
  "('h, 'w, 'aw) api_env \<Rightarrow> nat \<Rightarrow> nat \<Rightarrow> example_request \<Rightarrow> ('h, 'w, 'aw) api_state \<Rightarrow> fault + ('h, 'w, 'aw) api_state" where
  "example_handle E cl cxt (Example_Enable_Disable enable sw) =
     serve E (default_reply E ''example_enable_disable_reply'') 10 cl cxt (\<lambda>reg. example_enable_disable E enable sw)"

section \<open>Memory of a reply\<close>

definition heap_ok :: "('h, 'w, 'aw) api_env \<Rightarrow> api_message msg_heap \<Rightarrow> bool" where
  "heap_ok E h \<longleftrightarrow> alloc_laws (en_alloc E) \<and> finite (dom (mh_blocks h))"

text \<open>A new block with a message, and what is left when it has been sent.\<close>

definition with_reply :: "nat \<Rightarrow> nat \<Rightarrow> api_message \<Rightarrow> api_message msg_heap \<Rightarrow> api_message msg_heap" where
  "with_reply m n d h = h\<lparr>mh_blocks := (mh_blocks h)(m \<mapsto> \<lparr>bl_size = n, bl_content = Api_Message.Value (in_message d)\<rparr>),
     mh_allocated := mh_allocated h @ [m]\<rparr>"

definition made :: "nat \<Rightarrow> api_message \<Rightarrow> api_message msg_heap \<Rightarrow> nat \<Rightarrow> api_message msg_heap \<Rightarrow> bool" where
  "made n d h m h' \<longleftrightarrow> mh_blocks h m = None \<and> h' = with_reply m n d h"

lemma fresh_address: "heap_ok E h \<Longrightarrow> mh_blocks h (en_alloc E (mh_blocks h) n) = None"
  by (auto simp: heap_ok_def alloc_laws_def)

lemma message_from_made:
  assumes "heap_ok E (ap_heap s)" "n < 2 ^ 31"
  shows "\<exists>m h'. message_from E n d s = Inr (m, s\<lparr>ap_heap := h'\<rparr>) \<and> made n d (ap_heap s) m h'"
  using fresh_address [OF assms(1)] as_i32_small [OF assms(2)]
  by (simp add: message_from_def msg_new_def packed_type_def msg_alloc_def msg_store_def drop_value_def made_def with_reply_def Let_def)

lemma ok_default_made:
  assumes "heap_ok E (ap_heap s)"
  shows "\<exists>m h'. ok_default E name s = Inr (Inr m, s\<lparr>ap_heap := h'\<rparr>) \<and> made 10 (default_reply E name) (ap_heap s) m h'"
  using fresh_address [OF assms] as_i32_small [of 10]
  by (simp add: ok_default_def msg_default_def message_new_uninit_def message_write_def msg_assume_init_def into_raw_def
      packed_type_def msg_alloc_def msg_store_def made_def with_reply_def Let_def)

lemma sized_message_made:
  assumes "heap_ok E (ap_heap s)" "n < 2 ^ 31"
  shows "\<exists>m h'. sized_message E n d s = Inr (m, s\<lparr>ap_heap := h'\<rparr>) \<and> made n d (ap_heap s) m h'"
  using fresh_address [OF assms(1)] as_i32_small [OF assms(2)]
  by (simp add: sized_message_def message_new_bytes_def msg_alloc_def msg_store_def made_def with_reply_def Let_def)

section \<open>Delivering messages\<close>

lemma same_but_heap [simp]: "s\<lparr>ap_heap := a\<rparr> = s\<lparr>ap_heap := b\<rparr> \<longleftrightarrow> a = b"
  by (metis api_state.select_convs(1) api_state.surjective api_state.update_convs(1))

definition sent_messages :: "api_message msg_heap \<Rightarrow> (nat \<times> api_message content) list" where
  "sent_messages h = map (\<lambda>(reg, p, b). (reg, bl_content b)) (mh_sent h)"

definition in_network_order :: "api_message \<Rightarrow> api_message content" where
  "in_network_order d = Api_Message.Value (in_message (message_endian True d))"

text \<open>The messages \<open>ds\<close> have been sent to \<open>reg\<close>, and no block is left, lost or freed.\<close>

definition delivered :: "nat \<Rightarrow> api_message list \<Rightarrow> api_message msg_heap \<Rightarrow> api_message msg_heap \<Rightarrow> bool" where
  "delivered reg ds h h' \<longleftrightarrow> mh_blocks h' = mh_blocks h \<and> mh_freed h' = mh_freed h \<and>
     sent_messages h' = sent_messages h @ map (\<lambda>d. (reg, in_network_order d)) ds"

lemma delivered_none [simp]: "delivered reg [] h h"
  by (simp add: delivered_def)

lemma delivered_trans: "delivered reg ds h h' \<Longrightarrow> delivered reg es h' h'' \<Longrightarrow> delivered reg (ds @ es) h h''"
  by (simp add: delivered_def)

lemma delivered_ok: "delivered reg ds h h' \<Longrightarrow> heap_ok E h \<Longrightarrow> heap_ok E h'"
  by (simp add: delivered_def heap_ok_def)

lemmas message_steps = message_deref_def msg_store_def msg_endian_swap_def registration_send_message_def send_msg_def into_raw_def
  stream_send_message_def stream_send_message_ne_def in_message_def with_reply_def

lemma send_reply_delivered:
  assumes "made n d h m (ap_heap s)"
  shows "\<exists>h'. send_reply reg cxt m s = Inr (s\<lparr>ap_heap := h'\<rparr>) \<and> delivered reg [d\<lparr>am_context := cxt\<rparr>] h h'"
  using assms
  by (auto simp: made_def send_reply_def set_context_def message_steps delivered_def sent_messages_def in_network_order_def fun_upd_idem)

definition details_message :: "('h, 'w, 'aw) api_env \<Rightarrow> string \<Rightarrow> nat \<Rightarrow> nat \<Rightarrow> api_message" where
  "details_message E name cxt v =
     \<lparr>am_id = en_ids E name, am_client_index = Some 0, am_context = cxt, am_retval = None, am_body = Byte v\<rparr>"

lemma send_details_delivered:
  assumes "heap_ok E (ap_heap s)"
  shows "\<exists>h'. send_details E name reg cxt v s = Inr (s\<lparr>ap_heap := h'\<rparr>) \<and> delivered reg [details_message E name cxt v] (ap_heap s) h'"
proof -
  obtain m h where "message_from E 11 (details_message E name cxt v) s = Inr (m, s\<lparr>ap_heap := h\<rparr>)"
    "made 11 (details_message E name cxt v) (ap_heap s) m h"
    using message_from_made [OF assms, of 11 "details_message E name cxt v"] by auto
  then show ?thesis
    by (auto simp: send_details_def details_message_def [symmetric] made_def message_steps delivered_def sent_messages_def
        in_network_order_def fun_upd_idem)
qed

lemma two_details_delivered:
  assumes "heap_ok E (ap_heap s)"
  shows "\<exists>h'. try_bind (send_details E name reg cxt 1 s) (send_details E name reg cxt 2) = Inr (s\<lparr>ap_heap := h'\<rparr>) \<and>
    delivered reg [details_message E name cxt 1, details_message E name cxt 2] (ap_heap s) h'"
proof -
  obtain h1 where h1: "send_details E name reg cxt 1 s = Inr (s\<lparr>ap_heap := h1\<rparr>)" "delivered reg [details_message E name cxt 1] (ap_heap s) h1"
    using send_details_delivered [OF assms] by blast
  obtain h2 where h2: "send_details E name reg cxt 2 (s\<lparr>ap_heap := h1\<rparr>) = Inr (s\<lparr>ap_heap := h2\<rparr>)"
    "delivered reg [details_message E name cxt 2] h1 h2"
    using send_details_delivered [of E "s\<lparr>ap_heap := h1\<rparr>" name reg cxt 2] delivered_ok [OF h1(2) assms] by auto
  show ?thesis using h1(1) h2 delivered_trans [OF h1(2) h2(2)] by simp
qed

text \<open>
  What a handler does: it sends \<open>ds\<close>, leaves the state \<open>t\<close> and returns a code, or a reply that it made.
\<close>

definition handler_gives ::
  "nat \<Rightarrow> api_message list \<Rightarrow> int + api_message \<Rightarrow> ('h, 'w, 'aw) api_state \<Rightarrow> ('h, 'w, 'aw) api_state \<Rightarrow> ('h, 'w, 'aw) handler_result \<Rightarrow> bool" where
  "handler_gives reg ds r s t out \<longleftrightarrow>
     (\<exists>h1. delivered reg ds (ap_heap s) h1 \<and>
       (case r of
          Inl e \<Rightarrow> out = Inr (Inl e, t\<lparr>ap_heap := h1\<rparr>)
        | Inr d \<Rightarrow> (\<exists>n m h2. made n d h1 m h2 \<and> out = Inr (Inr m, t\<lparr>ap_heap := h2\<rparr>))))"

definition reply_of :: "api_message \<Rightarrow> nat \<Rightarrow> int + api_message \<Rightarrow> api_message" where
  "reply_of d cxt r = (case r of Inl e \<Rightarrow> d\<lparr>am_retval := Some e\<rparr> | Inr d' \<Rightarrow> d')\<lparr>am_context := cxt\<rparr>"

lemma serve_delivers:
  assumes "heap_ok E (ap_heap s)" "n < 2 ^ 31" "handler_gives reg ds r s t (handler reg s)"
    and "from_client_index (en_lookup E) cl = Some reg"
  shows "\<exists>h'. serve E d n cl cxt handler s = Inr (t\<lparr>ap_heap := h'\<rparr>) \<and> delivered reg (ds @ [reply_of d cxt r]) (ap_heap s) h'"
proof -
  from assms(3) obtain h1 where h1: "delivered reg ds (ap_heap s) h1"
    and out: "case r of Inl e \<Rightarrow> handler reg s = Inr (Inl e, t\<lparr>ap_heap := h1\<rparr>)
        | Inr d \<Rightarrow> (\<exists>n m h2. made n d h1 m h2 \<and> handler reg s = Inr (Inr m, t\<lparr>ap_heap := h2\<rparr>))"
    by (auto simp: handler_gives_def)
  define d' where "d' = (case r of Inl e \<Rightarrow> d\<lparr>am_retval := Some e\<rparr> | Inr d' \<Rightarrow> d')"
  have "\<exists>m h2 k. try_bind (handler reg s) (reply_or_retval E d n) = Inr (m, t\<lparr>ap_heap := h2\<rparr>) \<and> made k d' h1 m h2"
  proof (cases r)
    case (Inl e)
    then show ?thesis
      using out message_from_made [of E "t\<lparr>ap_heap := h1\<rparr>" n "d\<lparr>am_retval := Some e\<rparr>"] delivered_ok [OF h1 assms(1)] assms(2)
      by (auto simp: reply_or_retval_def d'_def)
  next
    case (Inr d0)
    then show ?thesis using out by (auto simp: reply_or_retval_def d'_def)
  qed
  then obtain m h2 k where m: "try_bind (handler reg s) (reply_or_retval E d n) = Inr (m, t\<lparr>ap_heap := h2\<rparr>)" "made k d' h1 m h2"
    by blast
  obtain h3 where h3: "send_reply reg cxt m (t\<lparr>ap_heap := h2\<rparr>) = Inr (t\<lparr>ap_heap := h3\<rparr>)" "delivered reg [d'\<lparr>am_context := cxt\<rparr>] h1 h3"
    using send_reply_delivered [of k d' h1 m "t\<lparr>ap_heap := h2\<rparr>" reg cxt] m(2) by auto
  have "serve E d n cl cxt handler s = Inr (t\<lparr>ap_heap := h3\<rparr>)"
    using m(1) h3(1) assms(4) by (auto simp: serve_def try_bind_Inr)
  moreover have "delivered reg (ds @ [reply_of d cxt r]) (ap_heap s) h3"
    using delivered_trans [OF h1 h3(2)] by (simp add: reply_of_def d'_def)
  ultimately show ?thesis by blast
qed

section \<open>What the test plugin answers\<close>

text \<open>A request whose arrays lie in the message and whose strings can be printed.\<close>

fun test_request_ok :: "test_request \<Rightarrow> bool" where
  "test_request_ok (Test_Variable_Array_U32 n mem) \<longleftrightarrow> n \<le> length mem"
| "test_request_ok (Test_Variable_Array_U8 n mem) \<longleftrightarrow> n \<le> length mem"
| "test_request_ok (Test_Variable_Array_F64 n mem) \<longleftrightarrow> n \<le> length mem"
| "test_request_ok (Test_Variable_Array_Custom n mem) \<longleftrightarrow> n \<le> length mem"
| "test_request_ok (Test_Variable_Array_In_Type n mem) \<longleftrightarrow> 0 \<le> n \<and> nat n \<le> length mem"
| "test_request_ok (Test_String fixed variable) \<longleftrightarrow> 0 \<in> set fixed \<and> as_length variable = 0"
| "test_request_ok _ \<longleftrightarrow> True"

definition result_if :: "('h, 'w, 'aw) api_env \<Rightarrow> string \<Rightarrow> bool \<Rightarrow> int + api_message" where
  "result_if E name c = (if c then Inr (default_reply E name) else Inl VNET_ERR_INVALID_ARGUMENT)"

definition feature_result ::
  "('h, 'w, 'aw) api_env \<Rightarrow> string \<Rightarrow> bool \<Rightarrow> nat \<Rightarrow> string \<Rightarrow> ('h, 'w, 'aw) api_state \<Rightarrow> int + api_message" where
  "feature_result E node on sw name s =
     (let ret = fst (feature_enable_disable (en_host E) ''ip4-unicast'' node sw on (ap_host s))
      in if ret = 0 then Inr (default_reply E name) else Inl ret)"

definition feature_effect ::
  "('h, 'w, 'aw) api_env \<Rightarrow> string \<Rightarrow> bool \<Rightarrow> nat \<Rightarrow> ('h, 'w, 'aw) api_state \<Rightarrow> ('h, 'w, 'aw) api_state" where
  "feature_effect E node on sw s = s\<lparr>ap_host := snd (feature_enable_disable (en_host E) ''ip4-unicast'' node sw on (ap_host s))\<rparr>"

fun test_result :: "('h, 'w, 'aw) api_env \<Rightarrow> test_request \<Rightarrow> ('h, 'w, 'aw) api_state \<Rightarrow> int + api_message" where
  "test_result E (Test_Enable_Disable on sw t) s =
     (if t \<le> 1 then feature_result E (if t = 0 then ''test'' else ''testx4'') on sw ''test_enable_disable_reply'' s
      else Inl VNET_ERR_INVALID_ARGUMENT)"
| "test_result E (Test_Type_In_Message v) s = result_if E ''test_type_in_message_reply'' (v = 42)"
| "test_result E (Test_Array a1 a2 a3 a4) s = result_if E ''test_array_reply''
     (a1 = [42, 0xdeadbeef, 0, 0xffffffff] \<and> a2 = [42, 0xffff] \<and> a3 = [0, 1] \<and> f64_is_zero (fst a4) \<and> snd a4 = F64_42)"
| "test_result E (Test_Response v) s = Inr ((default_reply E ''test_response_reply'')\<lparr>am_body := Half v\<rparr>)"
| "test_result E (Test_Typedef addr) s = result_if E ''test_typedef_reply'' (addr = [1, 2, 3, 4])"
| "test_result E (Test_Union af un) s = result_if E ''test_union_reply''
     (af = 0 \<and> take 4 un = [1, 2, 3, 4] \<or> af = 1 \<and> un = [1, 2, 3, 4, 5, 6, 7, 8, 9, 10, 11, 12, 13, 14, 15, 0])"
| "test_result E (Test_Variable_Array_U32 n mem) s =
     (if take n mem = [42, 0xdeadbeef, 0, 0xffffffff]
      then Inr ((default_reply E ''test_variable_array_u32_reply'')\<lparr>am_body := Words 4 [42, 0xdeadbeef, 0, 0xffffffff]\<rparr>)
      else Inl VNET_ERR_INVALID_ARGUMENT)"
| "test_result E (Test_Variable_Array_U8 n mem) s = result_if E ''test_variable_array_u8_reply'' (take n mem = [42, 0, 255])"
| "test_result E (Test_Variable_Array_F64 n mem) s = result_if E ''test_variable_array_f64_reply''
     (n = 2 \<and> f64_is_zero (mem ! 0) \<and> mem ! 1 = F64_42)"
| "test_result E (Test_Variable_Array_Custom n mem) s = result_if E ''test_variable_array_custom_reply'' (take n mem = [0, 1])"
| "test_result E (Test_Variable_Array_In_Type n mem) s = result_if E ''test_variable_array_in_type_reply''
     (take (nat n) mem = [42, 0xdead, 0, 0xffff])"
| "test_result E (Test_String fixed variable) s = Inl VNET_ERR_INVALID_ARGUMENT"
| "test_result E (Test_Enumflag flags flags2) s = result_if E ''test_enumflag_reply'' (flags = 3 \<and> flags2 = 3)"
| "test_result E (Test_Barrier_Rw_Lock on) s = Inr (default_reply E ''test_barrier_rw_lock_reply'')"
| "test_result E (Test_Process_Node on dest) s = result_if E ''test_process_node_reply'' (ch_receiver (ap_channel s))"
| "test_result E Test_Stream_Get s = Inr (default_reply E ''test_stream_get_reply'')"
| "test_result E _ s = Inl 0"

fun test_effect :: "('h, 'w, 'aw) api_env \<Rightarrow> test_request \<Rightarrow> ('h, 'w, 'aw) api_state \<Rightarrow> ('h, 'w, 'aw) api_state" where
  "test_effect E (Test_Enable_Disable on sw t) s =
     (if t \<le> 1 then feature_effect E (if t = 0 then ''test'' else ''testx4'') on sw s else s)"
| "test_effect E (Test_Barrier_Rw_Lock on) s = s\<lparr>ap_policy := (ap_policy s)\<lparr>rw_data := if on then Some 7 else None\<rparr>\<rparr>"
| "test_effect E (Test_Process_Node on dest) s =
     (if ch_receiver (ap_channel s)
      then s\<lparr>ap_channel := wake (en_waker E) ((ap_channel s)\<lparr>ch_queue := ch_queue (ap_channel s) @ [if on then Enable dest else Disable]\<rparr>)\<rparr>
      else s)"
| "test_effect E _ s = s"

definition policy_free :: "('h, 'w, 'aw) api_state \<Rightarrow> bool" where
  "policy_free s \<longleftrightarrow> rw_readers (ap_policy s) = 0 \<and> \<not> rw_writer (ap_policy s)"

lemma gives_default:
  assumes "heap_ok E (ap_heap s)" "ap_heap t = ap_heap s"
  shows "handler_gives reg [] (Inr (default_reply E name)) s t (ok_default E name t)"
  using ok_default_made [of E t name] assms by (auto simp: handler_gives_def intro!: exI [of _ "ap_heap s"])

lemma gives_invalid: "handler_gives reg [] (Inl VNET_ERR_INVALID_ARGUMENT) s s (invalid_argument s)"
  by (auto simp: handler_gives_def invalid_argument_def intro!: exI [of _ "ap_heap s"])

lemma gives_if:
  assumes "heap_ok E (ap_heap s)"
  shows "handler_gives reg [] (result_if E name c) s s (if c then ok_default E name s else invalid_argument s)"
  by (simp add: result_if_def gives_default [OF assms] gives_invalid)

lemma gives_check: "heap_ok E (ap_heap s) \<Longrightarrow> handler_gives reg [] (result_if E name c) s s (check_then_default E name c s)"
  unfolding check_then_default_def by (rule gives_if)

lemma gives_feature:
  assumes "heap_ok E (ap_heap s)"
  shows "handler_gives reg [] (feature_result E node on sw name s) s (feature_effect E node on sw s)
    (switch_feature E \<lparr>arc_name = ''ip4-unicast'', node_name = node\<rparr> on sw name s)"
proof -
  obtain ret h where r: "feature_enable_disable (en_host E) ''ip4-unicast'' node sw on (ap_host s) = (ret, h)" by fastforce
  have out: "switch_feature E \<lparr>arc_name = ''ip4-unicast'', node_name = node\<rparr> on sw name s =
      (if ret = 0 then ok_default E name (s\<lparr>ap_host := h\<rparr>) else Inr (Inl ret, s\<lparr>ap_host := h\<rparr>))"
    using r by (cases on) (simp_all add: switch_feature_def feature_enable_def feature_disable_def)
  show ?thesis
    using gives_default [OF assms, of "s\<lparr>ap_host := h\<rparr>" reg name]
    by (auto simp: out feature_result_def feature_effect_def r handler_gives_def intro!: exI [of _ "ap_heap s"])
qed

text \<open>Every handler.\<close>

lemma gives_enable_disable:
  assumes "heap_ok E (ap_heap s)"
  shows "handler_gives reg [] (test_result E (Test_Enable_Disable on sw t) s) s (test_effect E (Test_Enable_Disable on sw t) s)
    (test_enable_disable E on sw t s)"
  using gives_feature [OF assms, of reg "''test''" on sw "''test_enable_disable_reply''"]
    gives_feature [OF assms, of reg "''testx4''" on sw "''test_enable_disable_reply''"] gives_invalid [of reg s]
  by (simp add: test_enable_disable_def TEST_NODE_TYPE_X1_def TEST_NODE_TYPE_X4_def TEST_FEAT_def TESTX4_FEAT_def le_Suc_eq)

lemma test_array_if:
  "test_array E a1 a2 a3 a4 s =
     (if a1 = [42, 0xdeadbeef, 0, 0xffffffff] \<and> a2 = [42, 0xffff] \<and> a3 = [0, 1] \<and> f64_is_zero (fst a4) \<and> snd a4 = F64_42
      then ok_default E ''test_array_reply'' s else invalid_argument s)"
  by (simp add: test_array_def TEST_NODE_TYPE_X1_def TEST_NODE_TYPE_X4_def)

lemma test_union_if:
  "test_union E af un s =
     (if af = 0 \<and> take 4 un = [1, 2, 3, 4] \<or> af = 1 \<and> un = [1, 2, 3, 4, 5, 6, 7, 8, 9, 10, 11, 12, 13, 14, 15, 0]
      then ok_default E ''test_union_reply'' s else invalid_argument s)"
  by (simp add: test_union_def TEST_ADDRESS_IP4_def TEST_ADDRESS_IP6_def)

lemma test_enumflag_if:
  "test_enumflag E flags flags2 s = (if flags = 3 \<and> flags2 = 3 then ok_default E ''test_enumflag_reply'' s else invalid_argument s)"
  by (simp add: test_enumflag_def TEST_DIR_RX_def TEST_DIR_TX_def)

lemma vla_inside: "0 \<le> n \<Longrightarrow> nat n \<le> length mem \<Longrightarrow> vla_values n mem = Inr (take (nat n) mem)"
  by (simp add: vla_values_def)

lemma gives_response:
  assumes "heap_ok E (ap_heap s)"
  shows "handler_gives reg [] (Inr ((default_reply E ''test_response_reply'')\<lparr>am_body := Half v\<rparr>)) s s (test_response E v s)"
  using message_from_made [OF assms, of 12 "(default_reply E ''test_response_reply'')\<lparr>am_body := Half v\<rparr>"]
  by (auto simp: test_response_def handler_gives_def intro!: exI [of _ "ap_heap s"])

lemma gives_array_u32:
  assumes "heap_ok E (ap_heap s)" "n \<le> length mem"
  shows "handler_gives reg [] (test_result E (Test_Variable_Array_U32 n mem) s) s s (test_variable_array_u32 E n mem s)"
proof (cases "take n mem = [42, 0xdeadbeef, 0, 0xffffffff]")
  case True
  have "length (take n mem) = 4" unfolding True by simp
  then have n: "n = 4" using assms(2) by simp
  have zeros: "replicate 4 (0 :: nat) = [0, 0, 0, 0]" by (simp add: numeral_eq_Suc)
  define d where "d = (default_reply E ''test_variable_array_u32_reply'')\<lparr>am_body := Words 4 [42, 0xdeadbeef, 0, 0xffffffff]\<rparr>"
  have "vla_values (int n) mem = Inr [42, 0xdeadbeef, 0, 0xffffffff]" using True assms(2) vla_inside [of "int n" mem] by simp
  moreover have "vla_values (int n) [0, 0, 0, 0 :: nat] = Inr [0, 0, 0, 0]" by (simp add: n vla_values_def)
  ultimately have "test_variable_array_u32 E n mem s = try_bind (sized_message E 30 d s) (\<lambda>(m, s). Inr (Inr m, s))"
    by (simp add: test_variable_array_u32_def zeros n arith_mul_def arith_add_def U32_MAX_def d_def Let_def)
  then show ?thesis
    using True sized_message_made [OF assms(1), of 30 d]
    by (auto simp: d_def [symmetric] handler_gives_def intro!: exI [of _ "ap_heap s"])
next
  case False
  then show ?thesis using assms(2) gives_invalid [of reg s] by (simp add: test_variable_array_u32_def vla_inside)
qed

lemma fixed_terminated: "0 \<in> set buf \<Longrightarrow> \<exists>f. fixed_as_bytes buf = Some f"
  by (auto simp: fixed_as_bytes_def fixed_len_prefix dest!: split_list_first)

lemma gives_string:
  assumes "0 \<in> set fixed" "as_length variable = 0"
  shows "handler_gives reg [] (Inl VNET_ERR_INVALID_ARGUMENT) s s (test_string E fixed variable s)"
proof -
  obtain f where f: "fixed_as_bytes fixed = Some f" using fixed_terminated [OF assms(1)] by blast
  have "test_string E fixed variable s = invalid_argument s"
    using assms(2) by (simp add: test_string_def debug_test_string_def f or_panic_def as_bytes_def chars_def)
  then show ?thesis using gives_invalid [of reg s] by simp
qed

lemma gives_barrier:
  assumes "heap_ok E (ap_heap s)" "policy_free s"
  shows "handler_gives reg [] (test_result E (Test_Barrier_Rw_Lock on) s) s (test_effect E (Test_Barrier_Rw_Lock on) s)
    (test_barrier_rw_lock E on s)"
proof -
  have "test_barrier_rw_lock E on s = ok_default E ''test_barrier_rw_lock_reply'' (test_effect E (Test_Barrier_Rw_Lock on) s)"
    using assms(2) by (cases "ap_policy s") (simp add: test_barrier_rw_lock_def lock_write_def write_guard_new_def write_guard_drop_def or_panic_def policy_free_def)
  then show ?thesis using gives_default [OF assms(1), of "test_effect E (Test_Barrier_Rw_Lock on) s" reg "''test_barrier_rw_lock_reply''"] by simp
qed

lemma wake_clone_drop: "sender_drop (wake W ((sender_clone c)\<lparr>ch_queue := q\<rparr>)) = wake W (c\<lparr>ch_queue := q\<rparr>)"
  by (auto simp: wake_def sender_clone_def sender_drop_def split: prod.splits option.splits)

lemma gives_process_node:
  assumes "heap_ok E (ap_heap s)"
  shows "handler_gives reg [] (test_result E (Test_Process_Node on dest) s) s (test_effect E (Test_Process_Node on dest) s)
    (test_process_node E on dest s)"
proof (cases "ch_receiver (ap_channel s)")
  case True
  then have "test_process_node E on dest s = ok_default E ''test_process_node_reply'' (test_effect E (Test_Process_Node on dest) s)"
    using wake_clone_drop [where W = "en_waker E" and c = "ap_channel s"]
    by (simp add: test_process_node_def send_def inner_send_def Let_def sender_clone_def)
  then show ?thesis
    using True gives_default [OF assms, of "test_effect E (Test_Process_Node on dest) s" reg "''test_process_node_reply''"]
    by (simp add: result_if_def)
next
  case False
  then have "test_process_node E on dest s = invalid_argument s"
    by (simp add: test_process_node_def send_def inner_send_def sender_clone_def sender_drop_def)
  then show ?thesis using False gives_invalid [of reg s] by (simp add: result_if_def)
qed

lemma gives_stream_get:
  assumes "heap_ok E (ap_heap s)"
  shows "handler_gives reg [details_message E ''test_stream_details'' cxt 1, details_message E ''test_stream_details'' cxt 2]
    (test_result E Test_Stream_Get s) s s (test_stream_get E reg cxt s)"
proof -
  obtain h where h: "try_bind (send_details E ''test_stream_details'' reg cxt 1 s) (send_details E ''test_stream_details'' reg cxt 2) = Inr (s\<lparr>ap_heap := h\<rparr>)"
    "delivered reg [details_message E ''test_stream_details'' cxt 1, details_message E ''test_stream_details'' cxt 2] (ap_heap s) h"
    using two_details_delivered [OF assms] by blast
  then have "test_stream_get E reg cxt s = ok_default E ''test_stream_get_reply'' (s\<lparr>ap_heap := h\<rparr>)"
    by (auto simp: test_stream_get_def try_bind_Inr)
  then show ?thesis
    using ok_default_made [of E "s\<lparr>ap_heap := h\<rparr>" "''test_stream_get_reply''"] delivered_ok [OF h(2) assms] h(2)
    by (auto simp: handler_gives_def intro!: exI [of _ h])
qed

section \<open>Sessions with clients\<close>

fun run_session ::
  "('e \<Rightarrow> nat \<Rightarrow> nat \<Rightarrow> 'r \<Rightarrow> 's \<Rightarrow> fault + 's) \<Rightarrow> 'e \<Rightarrow> (nat \<times> nat \<times> 'r) list \<Rightarrow> 's \<Rightarrow> fault + 's" where
  "run_session handle E [] s = Inr s"
| "run_session handle E ((cl, cxt, r) # rs) s = try_bind (handle E cl cxt r s) (run_session handle E rs)"

text \<open>What a session should do: a request of a client that is not registered has no effect and no answer.\<close>

fun session_effect ::
  "(('h, 'w, 'aw) api_env \<Rightarrow> 'r \<Rightarrow> ('h, 'w, 'aw) api_state \<Rightarrow> ('h, 'w, 'aw) api_state) \<Rightarrow> ('h, 'w, 'aw) api_env \<Rightarrow>
    (nat \<times> nat \<times> 'r) list \<Rightarrow> ('h, 'w, 'aw) api_state \<Rightarrow> ('h, 'w, 'aw) api_state" where
  "session_effect effect E [] s = s"
| "session_effect effect E ((cl, cxt, r) # rs) s =
     session_effect effect E rs (if en_lookup E (to_be32 cl) = None then s else effect E r s)"

fun session_answers ::
  "(('h, 'w, 'aw) api_env \<Rightarrow> 'r \<Rightarrow> ('h, 'w, 'aw) api_state \<Rightarrow> ('h, 'w, 'aw) api_state) \<Rightarrow>
    (('h, 'w, 'aw) api_env \<Rightarrow> nat \<Rightarrow> 'r \<Rightarrow> ('h, 'w, 'aw) api_state \<Rightarrow> api_message list) \<Rightarrow> ('h, 'w, 'aw) api_env \<Rightarrow>
    (nat \<times> nat \<times> 'r) list \<Rightarrow> ('h, 'w, 'aw) api_state \<Rightarrow> (nat \<times> api_message) list" where
  "session_answers effect answers E [] s = []"
| "session_answers effect answers E ((cl, cxt, r) # rs) s =
     (case en_lookup E (to_be32 cl) of
        None \<Rightarrow> session_answers effect answers E rs s
      | Some reg \<Rightarrow> map (Pair reg) (answers E cxt r s) @ session_answers effect answers E rs (effect E r s))"

definition all_delivered :: "(nat \<times> api_message) list \<Rightarrow> api_message msg_heap \<Rightarrow> api_message msg_heap \<Rightarrow> bool" where
  "all_delivered ps h h' \<longleftrightarrow> mh_blocks h' = mh_blocks h \<and> mh_freed h' = mh_freed h \<and>
     sent_messages h' = sent_messages h @ map (\<lambda>(reg, d). (reg, in_network_order d)) ps"

lemma delivered_all: "delivered reg ds h h' \<Longrightarrow> all_delivered (map (Pair reg) ds) h h'"
  by (simp add: delivered_def all_delivered_def comp_def)

lemma all_delivered_trans: "all_delivered ps h h' \<Longrightarrow> all_delivered qs h' h'' \<Longrightarrow> all_delivered (ps @ qs) h h''"
  by (simp add: all_delivered_def)

text \<open>What a plugin promises of its raw handlers.\<close>

locale api_service =
  fixes handle :: "('h, 'w, 'aw) api_env \<Rightarrow> nat \<Rightarrow> nat \<Rightarrow> 'r \<Rightarrow> ('h, 'w, 'aw) api_state \<Rightarrow> fault + ('h, 'w, 'aw) api_state"
    and effect :: "('h, 'w, 'aw) api_env \<Rightarrow> 'r \<Rightarrow> ('h, 'w, 'aw) api_state \<Rightarrow> ('h, 'w, 'aw) api_state"
    and answers :: "('h, 'w, 'aw) api_env \<Rightarrow> nat \<Rightarrow> 'r \<Rightarrow> ('h, 'w, 'aw) api_state \<Rightarrow> api_message list"
    and ok :: "'r \<Rightarrow> bool" and inv :: "('h, 'w, 'aw) api_state \<Rightarrow> bool"
  assumes stranger: "from_client_index (en_lookup E) cl = None \<Longrightarrow> handle E cl cxt r s = Inr s"
    and answered: "from_client_index (en_lookup E) cl = Some reg \<Longrightarrow> heap_ok E (ap_heap s) \<Longrightarrow> inv s \<Longrightarrow> ok r \<Longrightarrow>
      \<exists>h. handle E cl cxt r s = Inr ((effect E r s)\<lparr>ap_heap := h\<rparr>) \<and> delivered reg (answers E cxt r s) (ap_heap s) h"
    and kept: "inv s \<Longrightarrow> inv (effect E r s)"
    and heap_blind: "inv (s\<lparr>ap_heap := h\<rparr>) \<longleftrightarrow> inv s" "effect E r (s\<lparr>ap_heap := h\<rparr>) = (effect E r s)\<lparr>ap_heap := h\<rparr>"
      "answers E cxt r (s\<lparr>ap_heap := h\<rparr>) = answers E cxt r s"
begin

lemma session_blind:
  "session_effect effect E rs (s\<lparr>ap_heap := h\<rparr>) = (session_effect effect E rs s)\<lparr>ap_heap := h\<rparr>"
  "session_answers effect answers E rs (s\<lparr>ap_heap := h\<rparr>) = session_answers effect answers E rs s"
  by (induction rs arbitrary: s) (auto simp: heap_blind split: option.splits)

lemma session_served:
  assumes "heap_ok E (ap_heap s)" "inv s" "list_all (\<lambda>(cl, cxt, r). ok r) rs"
  shows "\<exists>h. run_session handle E rs s = Inr ((session_effect effect E rs s)\<lparr>ap_heap := h\<rparr>) \<and>
    all_delivered (session_answers effect answers E rs s) (ap_heap s) h"
  using assms
proof (induction rs arbitrary: s)
  case Nil
  show ?case by (auto simp: all_delivered_def intro!: exI [of _ "ap_heap s"])
next
  case (Cons q rs)
  obtain cl cxt r where q: "q = (cl, cxt, r)" by (cases q)
  show ?case
  proof (cases "en_lookup E (to_be32 cl)")
    case None
    then show ?thesis using Cons stranger [of E cl cxt r s] by (simp add: q from_client_index_def)
  next
    case (Some reg)
    then obtain h where h: "handle E cl cxt r s = Inr ((effect E r s)\<lparr>ap_heap := h\<rparr>)" "delivered reg (answers E cxt r s) (ap_heap s) h"
      using answered [of E cl reg s r cxt] Cons.prems by (auto simp: q from_client_index_def)
    obtain h' where h': "run_session handle E rs ((effect E r s)\<lparr>ap_heap := h\<rparr>) =
        Inr ((session_effect effect E rs (effect E r s))\<lparr>ap_heap := h'\<rparr>)"
      "all_delivered (session_answers effect answers E rs (effect E r s)) h h'"
      using Cons.IH [of "(effect E r s)\<lparr>ap_heap := h\<rparr>"] delivered_ok [OF h(2) Cons.prems(1)] kept Cons.prems(2,3)
      by (auto simp: q session_blind heap_blind)
    show ?thesis
      using h(1) h'(1) all_delivered_trans [OF delivered_all [OF h(2)] h'(2)] by (auto simp: q Some)
  qed
qed

end

text \<open>The answers of the test plugin.\<close>

fun reply_name :: "test_request \<Rightarrow> string" where
  "reply_name (Test_Enable_Disable _ _ _) = ''test_enable_disable_reply''"
| "reply_name (Test_Type_In_Message _) = ''test_type_in_message_reply''"
| "reply_name (Test_Array _ _ _ _) = ''test_array_reply''"
| "reply_name (Test_Response _) = ''test_response_reply''"
| "reply_name (Test_Response_No_Retval _) = ''test_response_no_retval_reply''"
| "reply_name Test_Dump = ''test_details''"
| "reply_name Test_Stream_Get = ''test_stream_get_reply''"
| "reply_name (Test_Typedef _) = ''test_typedef_reply''"
| "reply_name (Test_Union _ _) = ''test_union_reply''"
| "reply_name (Test_Variable_Array_U32 _ _) = ''test_variable_array_u32_reply''"
| "reply_name (Test_Variable_Array_U8 _ _) = ''test_variable_array_u8_reply''"
| "reply_name (Test_Variable_Array_F64 _ _) = ''test_variable_array_f64_reply''"
| "reply_name (Test_Variable_Array_Custom _ _) = ''test_variable_array_custom_reply''"
| "reply_name (Test_Variable_Array_In_Type _ _) = ''test_variable_array_in_type_reply''"
| "reply_name (Test_String _ _) = ''test_string_reply''"
| "reply_name (Test_Enumflag _ _) = ''test_enumflag_reply''"
| "reply_name (Test_Barrier_Rw_Lock _) = ''test_barrier_rw_lock_reply''"
| "reply_name (Test_Process_Node _ _) = ''test_process_node_reply''"

definition test_default :: "('h, 'w, 'aw) api_env \<Rightarrow> test_request \<Rightarrow> api_message" where
  "test_default E r = (default_reply E (reply_name r))\<lparr>am_body :=
     (case r of
        Test_Response _ \<Rightarrow> Half 0
      | Test_Variable_Array_U32 _ _ \<Rightarrow> Words 0 []
      | Test_String _ _ \<Rightarrow> Texts (replicate 64 0) \<lparr>as_length = 0, as_mem = []\<rparr>
      | _ \<Rightarrow> No_Body)\<rparr>"

definition test_answers ::
  "('h, 'w, 'aw) api_env \<Rightarrow> nat \<Rightarrow> test_request \<Rightarrow> ('h, 'w, 'aw) api_state \<Rightarrow> api_message list" where
  "test_answers E cxt r s =
     (case r of
        Test_Dump \<Rightarrow> [details_message E ''test_details'' cxt 1, details_message E ''test_details'' cxt 2]
      | Test_Response_No_Retval v \<Rightarrow>
          [(default_reply E (reply_name r))\<lparr>am_retval := None, am_body := Double v, am_context := cxt\<rparr>]
      | Test_Stream_Get \<Rightarrow>
          [details_message E ''test_stream_details'' cxt 1, details_message E ''test_stream_details'' cxt 2,
           (default_reply E (reply_name r))\<lparr>am_context := cxt\<rparr>]
      | _ \<Rightarrow> [reply_of (test_default E r) cxt (test_result E r s)])"

lemma serve_stranger:
  assumes "from_client_index (en_lookup E) cl = None"
  shows "serve E d n cl cxt handler s = Inr s" "serve_no_retval E cl cxt h' s = Inr s" "serve_stream E cl h'' s = Inr s"
  using assms by (simp_all add: serve_def serve_no_retval_def serve_stream_def)

lemma default_body_default: "(default_reply E name)\<lparr>am_body := No_Body\<rparr> = default_reply E name"
  by (simp add: default_reply_def)

lemma served_plain:
  assumes "heap_ok E (ap_heap s)" "from_client_index (en_lookup E) cl = Some reg"
    and "handler_gives reg [] r s t (handler reg s)" "n < 2 ^ 31" "as = [reply_of d cxt r]"
  shows "\<exists>h. serve E d n cl cxt handler s = Inr (t\<lparr>ap_heap := h\<rparr>) \<and> delivered reg as (ap_heap s) h"
  using serve_delivers [where handler = handler, OF assms(1,4,3,2), of d cxt] assms(5) by simp

lemmas test_clauses = test_result.simps test_effect.simps

lemma gives_checks:
  assumes "heap_ok E (ap_heap s)"
  shows "handler_gives reg [] (test_result E (Test_Type_In_Message v) s) s (test_effect E (Test_Type_In_Message v) s) (test_type_in_message E v s)"
    "handler_gives reg [] (test_result E (Test_Array a1 a2 a3 a4) s) s (test_effect E (Test_Array a1 a2 a3 a4) s) (test_array E a1 a2 a3 a4 s)"
    "handler_gives reg [] (test_result E (Test_Typedef addr) s) s (test_effect E (Test_Typedef addr) s) (test_typedef E addr s)"
    "handler_gives reg [] (test_result E (Test_Union af un) s) s (test_effect E (Test_Union af un) s) (test_union E af un s)"
    "handler_gives reg [] (test_result E (Test_Enumflag f f2) s) s (test_effect E (Test_Enumflag f f2) s) (test_enumflag E f f2 s)"
  unfolding test_clauses test_type_in_message_def test_typedef_def test_array_if test_union_if test_enumflag_if
  by (rule gives_check [OF assms] gives_if [OF assms])+

lemma gives_arrays:
  assumes "heap_ok E (ap_heap s)"
  shows "n \<le> length mem \<Longrightarrow> handler_gives reg [] (test_result E (Test_Variable_Array_U8 n mem) s) s
      (test_effect E (Test_Variable_Array_U8 n mem) s) (test_variable_array_u8 E n mem s)"
    "n \<le> length mem \<Longrightarrow> handler_gives reg [] (test_result E (Test_Variable_Array_F64 n mem) s) s
      (test_effect E (Test_Variable_Array_F64 n mem) s) (test_variable_array_f64 E n mem s)"
    "n \<le> length mem \<Longrightarrow> handler_gives reg [] (test_result E (Test_Variable_Array_Custom n mem) s) s
      (test_effect E (Test_Variable_Array_Custom n mem) s) (test_variable_array_custom E n mem s)"
    "0 \<le> i \<Longrightarrow> nat i \<le> length mem \<Longrightarrow> handler_gives reg [] (test_result E (Test_Variable_Array_In_Type i mem) s) s
      (test_effect E (Test_Variable_Array_In_Type i mem) s) (test_variable_array_in_type E i mem s)"
proof -
  assume n: "n \<le> length mem"
  have f64: "length (take n mem) = 2 \<and> f64_is_zero (take n mem ! 0) \<and> take n mem ! 1 = F64_42 \<longleftrightarrow>
      n = 2 \<and> f64_is_zero (mem ! 0) \<and> mem ! 1 = F64_42"
    using n by auto
  have vs: "vla_values (int n) mem = Inr (take n mem)" using vla_inside [of "int n" mem] n by simp
  show "handler_gives reg [] (test_result E (Test_Variable_Array_F64 n mem) s) s
      (test_effect E (Test_Variable_Array_F64 n mem) s) (test_variable_array_f64 E n mem s)"
    unfolding test_variable_array_f64_def vs try_bind_simps f64 test_clauses by (rule gives_check [OF assms])
qed (simp_all only: test_clauses test_variable_array_u8_def test_variable_array_custom_def test_variable_array_in_type_def
    vla_inside of_nat_0_le_iff nat_int try_bind_simps TEST_NODE_TYPE_X1_def TEST_NODE_TYPE_X4_def gives_check [OF assms])

lemma test_answered:
  assumes "from_client_index (en_lookup E) cl = Some reg" "heap_ok E (ap_heap s)" "policy_free s" "test_request_ok r"
  shows "\<exists>h. test_handle E cl cxt r s = Inr ((test_effect E r s)\<lparr>ap_heap := h\<rparr>) \<and> delivered reg (test_answers E cxt r s) (ap_heap s) h"
proof -
  note plain = served_plain [OF assms(2,1), where r = "test_result E r s"]
  note answer = test_answers_def test_default_def default_body_default
  note gives = gives_checks [OF assms(2)] gives_enable_disable [OF assms(2)] gives_barrier [OF assms(2,3)] gives_process_node [OF assms(2)]
  show ?thesis
  proof (cases r)
    case (Test_Response_No_Retval v)
    define d where "d = (default_reply E ''test_response_no_retval_reply'')\<lparr>am_retval := None, am_body := Double v\<rparr>"
    obtain m h where m: "message_from E 14 d s = Inr (m, s\<lparr>ap_heap := h\<rparr>)" "made 14 d (ap_heap s) m h"
      using message_from_made [OF assms(2), of 14 d] by auto
    then show ?thesis using send_reply_delivered [of 14 d "ap_heap s" m "s\<lparr>ap_heap := h\<rparr>" reg cxt] assms(1)
      by (auto simp: Test_Response_No_Retval serve_no_retval_def test_response_no_retval_def d_def [symmetric] test_answers_def)
  next
    case Test_Dump
    then show ?thesis using two_details_delivered [OF assms(2)] assms(1)
      by (simp add: serve_stream_def test_dump_def test_answers_def)
  next
    case Test_Stream_Get
    have "\<exists>h. serve E (default_reply E ''test_stream_get_reply'') 10 cl cxt (\<lambda>reg. test_stream_get E reg cxt) s = Inr (s\<lparr>ap_heap := h\<rparr>) \<and>
        delivered reg ([details_message E ''test_stream_details'' cxt 1, details_message E ''test_stream_details'' cxt 2] @
          [reply_of (default_reply E ''test_stream_get_reply'') cxt (test_result E Test_Stream_Get s)]) (ap_heap s) h"
      by (rule serve_delivers [OF assms(2) _ _ assms(1)]) (simp, rule gives_stream_get [OF assms(2)])
    then show ?thesis by (simp add: Test_Stream_Get test_answers_def reply_of_def)
  next
    case (Test_Response v)
    show ?thesis unfolding Test_Response test_handle.simps
      by (rule plain) (simp_all add: Test_Response answer gives_response [OF assms(2)])
  next
    case (Test_Variable_Array_U32 n mem)
    show ?thesis unfolding Test_Variable_Array_U32 test_handle.simps
      using gives_array_u32 [OF assms(2), of n mem] assms(4)
      by (intro plain) (simp_all add: Test_Variable_Array_U32 answer)
  next
    case (Test_String buf str)
    show ?thesis unfolding Test_String test_handle.simps
      using gives_string [of buf str] assms(4)
      by (intro plain) (simp_all add: Test_String answer fixed_default_def)
  qed (simp_all only: test_handle.simps, (rule plain; insert gives assms(4); simp add: answer gives_arrays [OF assms(2)] del: test_result.simps test_effect.simps)+)
qed

lemma test_effect_free: "policy_free s \<Longrightarrow> policy_free (test_effect E r s)"
  by (cases r) (simp_all add: policy_free_def feature_effect_def)

lemma test_blind:
  "policy_free (s\<lparr>ap_heap := h\<rparr>) \<longleftrightarrow> policy_free s"
  "test_effect E r (s\<lparr>ap_heap := h\<rparr>) = (test_effect E r s)\<lparr>ap_heap := h\<rparr>"
  "test_result E r (s\<lparr>ap_heap := h\<rparr>) = test_result E r s"
  by (simp add: policy_free_def, (cases r; simp add: feature_effect_def feature_result_def Let_def)+)

interpretation test_api: api_service test_handle test_effect test_answers test_request_ok policy_free
proof
  fix E :: "('a, 'b, 'c) api_env" and cl cxt r and s :: "('a, 'b, 'c) api_state"
  assume "from_client_index (en_lookup E) cl = None"
  then show "test_handle E cl cxt r s = Inr s" by (cases r) (simp_all add: serve_stranger)
next
  fix E :: "('a, 'b, 'c) api_env" and cxt r h and s :: "('a, 'b, 'c) api_state"
  show "test_answers E cxt r (s\<lparr>ap_heap := h\<rparr>) = test_answers E cxt r s" by (simp only: test_answers_def test_blind)
qed (rule test_answered test_effect_free test_blind; assumption?)+

text \<open>The answer of the example plugin.\<close>

fun example_effect :: "('h, 'w, 'aw) api_env \<Rightarrow> example_request \<Rightarrow> ('h, 'w, 'aw) api_state \<Rightarrow> ('h, 'w, 'aw) api_state" where
  "example_effect E (Example_Enable_Disable on sw) s = feature_effect E ''example'' on sw s"

fun example_answers ::
  "('h, 'w, 'aw) api_env \<Rightarrow> nat \<Rightarrow> example_request \<Rightarrow> ('h, 'w, 'aw) api_state \<Rightarrow> api_message list" where
  "example_answers E cxt (Example_Enable_Disable on sw) s =
     [reply_of (default_reply E ''example_enable_disable_reply'') cxt (feature_result E ''example'' on sw ''example_enable_disable_reply'' s)]"

lemma example_blind:
  "example_effect E r (s\<lparr>ap_heap := h\<rparr>) = (example_effect E r s)\<lparr>ap_heap := h\<rparr>"
  "example_answers E cxt r (s\<lparr>ap_heap := h\<rparr>) = example_answers E cxt r s"
  by (cases r; simp add: feature_effect_def feature_result_def Let_def)+

interpretation example_api: api_service example_handle example_effect example_answers "\<lambda>_. True" "\<lambda>_. True"
proof
  fix E :: "('a, 'b, 'c) api_env" and cl cxt r and s :: "('a, 'b, 'c) api_state"
  assume "from_client_index (en_lookup E) cl = None"
  then show "example_handle E cl cxt r s = Inr s" by (cases r) (simp add: serve_stranger)
next
  fix E :: "('a, 'b, 'c) api_env" and cl reg cxt r and s :: "('a, 'b, 'c) api_state"
  assume a: "from_client_index (en_lookup E) cl = Some reg" "heap_ok E (ap_heap s)"
  obtain on sw where r: "r = Example_Enable_Disable on sw" by (cases r)
  show "\<exists>h. example_handle E cl cxt r s = Inr ((example_effect E r s)\<lparr>ap_heap := h\<rparr>) \<and>
      delivered reg (example_answers E cxt r s) (ap_heap s) h"
    unfolding r example_handle.simps example_effect.simps example_answers.simps
    by (rule served_plain [OF a(2,1)]; simp add: example_enable_disable_def EXAMPLE_FEAT_def gives_feature [OF a(2)])
qed (simp_all only: example_blind)

section \<open>The sessions of the plugins\<close>

text \<open>C18: A session of clients with the example plugin is served, and so is one with the test plugin that
  starts with its lock free and whose requests have arrays that lie in the message, fixed strings that
  are terminated and no variable string that is not empty: whatever the order of the requests, each
  request of a registered client is answered with exactly the messages it should get, with its context,
  in network order, after those of the requests before it; requests of others are ignored; every block
  that was allocated has been handed over to VPP.\<close>

theorem session_answered:
  assumes "heap_ok E (ap_heap s)" "policy_free s" "list_all (\<lambda>(cl, cxt, r). test_request_ok r) rs"
  shows "(\<exists>h. run_session test_handle E rs s = Inr ((session_effect test_effect E rs s)\<lparr>ap_heap := h\<rparr>) \<and>
      all_delivered (session_answers test_effect test_answers E rs s) (ap_heap s) h) \<and>
    (\<exists>h. run_session example_handle E es s = Inr ((session_effect example_effect E es s)\<lparr>ap_heap := h\<rparr>) \<and>
      all_delivered (session_answers example_effect example_answers E es s) (ap_heap s) h)"
  using test_api.session_served [OF assms] example_api.session_served [OF assms(1), of es] by (simp add: list_all_iff)

text \<open>Surroundings for examples: the lowest free address, one client, and a host that accepts everything.\<close>

definition sample_env :: "((string \<times> nat \<times> bool) list, nat, nat option) api_env" where
  "sample_env = \<lparr>en_alloc = first_free, en_host = sample_host, en_lookup = (\<lambda>i. if i = to_be32 7 then Some 3 else None),
     en_ids = length, en_waker = cell_waker, en_dbg = True\<rparr>"

definition sample_api_state :: "((string \<times> nat \<times> bool) list, nat, nat option) api_state" where
  "sample_api_state = \<lparr>ap_heap = \<lparr>mh_blocks = Map.empty, mh_live = {}, mh_allocated = [], mh_freed = [], mh_sent = []\<rparr>,
     ap_host = [], ap_policy = lock_new None, ap_channel = channel cell_waker\<rparr>"

lemma sample_api_ok: "heap_ok sample_env (ap_heap sample_api_state)" "policy_free sample_api_state"
  by (simp_all add: heap_ok_def sample_env_def sample_api_state_def first_free_laws policy_free_def lock_new_def)

lemma session_answered_witness:
  "\<exists>s. run_session test_handle sample_env [(7, 9, Test_Response 5), (8, 1, Test_Dump), (7, 2, Test_Enumflag 1 3)] sample_api_state = Inr s \<and>
    map fst (sent_messages (ap_heap s)) = [3, 3] \<and> mh_blocks (ap_heap s) = Map.empty"
proof -
  have other: "to_be32 8 \<noteq> to_be32 7" by (simp add: to_be32_def)
  obtain h where h: "run_session test_handle sample_env [(7, 9, Test_Response 5), (8, 1, Test_Dump), (7, 2, Test_Enumflag 1 3)] sample_api_state =
      Inr (sample_api_state\<lparr>ap_heap := h\<rparr>)"
    "all_delivered [(3, reply_of (test_default sample_env (Test_Response 5)) 9 (test_result sample_env (Test_Response 5) sample_api_state)),
       (3, reply_of (test_default sample_env (Test_Enumflag 1 3)) 2 (test_result sample_env (Test_Enumflag 1 3) sample_api_state))]
       (ap_heap sample_api_state) h"
    using session_answered [OF sample_api_ok, of "[(7, 9, Test_Response 5), (8, 1, Test_Dump), (7, 2, Test_Enumflag 1 3)]"] other
    by (auto simp: sample_env_def test_answers_def)
  have start: "sent_messages (ap_heap sample_api_state) = []" "mh_blocks (ap_heap sample_api_state) = Map.empty"
    by (simp_all add: sent_messages_def sample_api_state_def)
  have "map fst (sent_messages h) = [3, 3]" "mh_blocks h = Map.empty"
    using h(2) start by (simp_all add: all_delivered_def)
  then show ?thesis using h(1) by (simp del: run_session.simps)
qed

text \<open>C22: A registered client can break the test plugin with a string request: a fixed string without a zero byte panics
  inside the C callback, and with any string that is not empty the \<open>Debug\<close> text of the message reads
  the bytes behind a copy of the string's header.\<close>

theorem string_request_breaks:
  assumes "from_client_index (en_lookup E) cl = Some reg" "0 \<notin> set txt" "as_length variable \<noteq> 0"
  shows "test_handle E cl cxt (Test_String txt variable) s = Inl Panic \<and>
    test_handle E cl cxt (Test_String (txt @ [0] @ rest) variable) s = Inl Undefined_Behaviour"
  using assms fixed_len_prefix [OF assms(2), of "[]"] fixed_len_prefix [OF assms(2), of "[0] @ rest"]
  by (simp add: serve_def test_string_def debug_test_string_def fixed_as_bytes_def or_panic_def as_bytes_def)

lemma string_request_breaks_witness:
  "test_handle sample_env 7 1 (Test_String [72, 105] \<lparr>as_length = 2, as_mem = [72, 105]\<rparr>) sample_api_state = Inl Panic \<and>
   test_handle sample_env 7 1 (Test_String [72, 105, 0, 0] \<lparr>as_length = 2, as_mem = [72, 105]\<rparr>) sample_api_state = Inl Undefined_Behaviour"
proof -
  have known: "from_client_index (en_lookup sample_env) 7 = Some 3" by (simp add: from_client_index_def sample_env_def)
  show ?thesis
    using string_request_breaks [OF known, of "[72, 105]" "\<lparr>as_length = 2, as_mem = [72, 105]\<rparr>" 1 sample_api_state "[0]"] by simp
qed

end
