(* ===== verification/Plugin_Message.thy ===== *)
theory Plugin_Message
  imports Plugin_Cli
begin

text \<open>
  The CLI command \<open>rust-test message\<close> of the test plugin (\<open>vpp-test-plugin/src/lib.rs\<close>), which goes through
  the operations of \<open>Message\<close> (\<open>vpp-plugin/src/vlibapi/mod.rs\<close>): values are the bytes of the message.
\<close>

section \<open>The command\<close>

definition bytes_type :: "nat \<Rightarrow> msg_type" where
  "bytes_type n = \<lparr>ty_size = n, ty_align = 1, ty_needs_drop = False\<rparr>"

definition bytes_value :: "nat list \<Rightarrow> nat list msg_value" where
  "bytes_value bs = \<lparr>v_id = 0, v_data = bs\<rparr>"

definition read_message :: "nat \<Rightarrow> nat list msg_heap \<Rightarrow> fault + nat list" where
  "read_message m h =
     try_bind (message_deref m h) (\<lambda>c. case c of Api_Message.Value v \<Rightarrow> Inr (v_data v) | _ \<Rightarrow> Inl Undefined_Behaviour)"

text \<open>\<open>*message = v\<close>, and writing every byte of a block through a pointer.\<close>

definition assign_message :: "nat \<Rightarrow> nat list \<Rightarrow> nat list msg_heap \<Rightarrow> fault + nat list msg_heap" where
  "assign_message m bs h = msg_store m (length bs) (Api_Message.Value (bytes_value bs)) h"

definition fill_message :: "nat \<Rightarrow> nat \<Rightarrow> nat \<Rightarrow> nat list msg_heap \<Rightarrow> fault + nat list msg_heap" where
  "fill_message m n b h = assign_message m (replicate n b) h"

text \<open>The local variables that hold messages are dropped when the command returns.\<close>

fun drop_messages :: "nat list \<Rightarrow> nat list msg_heap \<Rightarrow> fault + nat list msg_heap" where
  "drop_messages [] h = Inr h"
| "drop_messages (m # ms) h = try_bind (message_drop (bytes_type 1) True m h) (drop_messages ms)"

definition fail_dropping ::
  "error_lib \<Rightarrow> nat list \<Rightarrow> string \<Rightarrow> err_heap \<Rightarrow> nat list msg_heap \<Rightarrow> nat list msg_heap command_result" where
  "fail_dropping L ms t e h =
     try_bind (stack_msg L t e) (\<lambda>(q, e). try_bind (drop_messages ms h) (\<lambda>h. Inr (Some q, e, h)))"

definition debug_list :: "nat list \<Rightarrow> string" where
  "debug_list bs = ''['' @ join '', '' (map show_nat bs) @ '']''"

text \<open>A set of messages is the list of its messages; they are compared by what they hold.\<close>

fun set_contains :: "nat list \<Rightarrow> nat list \<Rightarrow> nat list msg_heap \<Rightarrow> fault + bool" where
  "set_contains [] x h = Inr False"
| "set_contains (m # ms) x h = try_bind (read_message m h) (\<lambda>y. if y = x then Inr True else set_contains ms x h)"

text \<open>The parts of the command: one message, comparing messages, a set, and uninitialised messages.\<close>

definition test_uninit ::
  "nat list allocator \<Rightarrow> error_lib \<Rightarrow> nat list \<Rightarrow> err_heap \<Rightarrow> nat list msg_heap \<Rightarrow> nat list msg_heap command_result" where
  "test_uninit A L ms e h =
     try_bind (message_new_uninit A (bytes_type 256) h) (\<lambda>(m, h).
     try_bind (fill_message m 256 0 h) (\<lambda>h.
     let m = msg_assume_init m in
     try_bind (read_message m h) (\<lambda>x.
     if x \<noteq> replicate 256 0
     then fail_dropping L (m # ms) (''Expected *message to be [0u8; 256], but is '' @ debug_list x) e h
     else
       try_bind (message_drop (bytes_type 256) True m h) (\<lambda>h.
       try_bind (message_new_uninit A (bytes_type 1) h) (\<lambda>(m, h).
       try_bind (message_write (bytes_type 1) m (bytes_value [0]) h) (\<lambda>(m, h).
       try_bind (read_message m h) (\<lambda>x.
       if x \<noteq> [0] then fail_dropping L (m # ms) (''Expected *message to be 0, but is '' @ show_nat (hd x)) e h
       else try_bind (drop_messages (m # ms) h) (\<lambda>h. Inr (None, e, h)))))))))"

definition test_set ::
  "nat list allocator \<Rightarrow> error_lib \<Rightarrow> nat \<Rightarrow> nat list \<Rightarrow> err_heap \<Rightarrow> nat list msg_heap \<Rightarrow> nat list msg_heap command_result" where
  "test_set A L moved ms e h =
     (let message_set = [moved] in
      try_bind (msg_new A (bytes_type 1) (bytes_value [1]) h) (\<lambda>(m, h).
      try_bind (read_message m h) (\<lambda>x.
      try_bind (set_contains message_set x h) (\<lambda>found.
      if \<not> found
      then try_bind (read_message moved h) (\<lambda>y. fail_dropping L (m # message_set @ ms)
        (''Expected message '' @ show_nat (hd x) @ '' to be in message_set {'' @ show_nat (hd y) @ ''}, but isn't'') e h)
      else test_uninit A L (m # message_set @ ms) e h))))"

definition message_test_command ::
  "nat list allocator \<Rightarrow> error_lib \<Rightarrow> err_heap \<Rightarrow> nat list msg_heap \<Rightarrow> nat list msg_heap command_result" where
  "message_test_command A L e h =
     try_bind (msg_new A (bytes_type 1) (bytes_value [0]) h) (\<lambda>(message, h).
     try_bind (read_message message h) (\<lambda>x.
     if x \<noteq> [0] then fail_dropping L [message] (''Expected *message to be 0, but is '' @ show_nat (hd x)) e h else
     try_bind (assign_message message [1] h) (\<lambda>h.
     try_bind (read_message message h) (\<lambda>x.
     if x \<noteq> [1] then fail_dropping L [message] (''Expected *message to be 1, but is '' @ show_nat (hd x)) e h else
     try_bind (msg_new A (bytes_type 1) (bytes_value [2]) h) (\<lambda>(message_greater, h).
     try_bind (read_message message_greater h) (\<lambda>y.
     if hd y \<le> hd x
     then fail_dropping L [message_greater, message]
       (''Expected message '' @ show_nat (hd x) @ '' to be > '' @ show_nat (hd y) @ '', but it wasn't'') e h else
     try_bind (msg_new A (bytes_type 1) (bytes_value [1]) h) (\<lambda>(message2, h).
     try_bind (read_message message2 h) (\<lambda>z.
     if z \<noteq> x
     then fail_dropping L [message2, message_greater, message]
       (''Expected message '' @ show_nat (hd x) @ '' to be == '' @ show_nat (hd z) @ '', but it wasn't'') e h
     else test_set A L message [message2, message_greater] e h))))))))"

section \<open>What it does\<close>

definition value_block :: "nat list \<Rightarrow> nat list msg_block" where
  "value_block bs = \<lparr>bl_size = length bs, bl_content = Api_Message.Value (bytes_value bs)\<rparr>"

text \<open>The messages \<open>ps\<close>, with what they hold, are the only change since the heap \<open>h\<close>.\<close>

definition only_new :: "(nat \<times> nat list) list \<Rightarrow> nat list msg_heap \<Rightarrow> nat list msg_heap \<Rightarrow> bool" where
  "only_new ps h h' \<longleftrightarrow> distinct (map fst ps) \<and> list_all (\<lambda>(m, bs). mh_blocks h m = None) ps \<and>
     mh_blocks h' = mh_blocks h ++ (map_option value_block \<circ> map_of ps) \<and> mh_sent h' = mh_sent h \<and>
     mset (mh_allocated h') + mset (mh_freed h) = mset (mh_allocated h) + mset (mh_freed h') + mset (map fst ps)"

lemma only_new_start: "only_new [] h h"
  by (simp add: only_new_def fun_eq_iff map_add_def)

lemma only_new_perm:
  assumes "mset ps = mset qs" "only_new ps h h'"
  shows "only_new qs h h'"
proof -
  have d: "distinct (map fst ps)" using assms(2) by (simp add: only_new_def)
  have k: "mset (map fst qs) = mset (map fst ps)" using assms(1) by (metis mset_map)
  then have "distinct (map fst qs)" using d by (metis mset_eq_imp_distinct_iff)
  moreover have "set qs = set ps" using assms(1) by (metis mset_eq_setD)
  moreover from calculation d have "map_of qs = map_of ps" by (intro iffD2 [OF map_of_inject_set]) auto
  ultimately show ?thesis using assms(2) k by (simp add: only_new_def list_all_iff del: mset_map)
qed

lemma only_new_block: "only_new ((m, bs) # ps) h h' \<Longrightarrow> mh_blocks h' m = Some (value_block bs)"
  by (simp add: only_new_def)

lemma only_new_finite:
  assumes "only_new ps h h'" "finite (dom (mh_blocks h))"
  shows "finite (dom (mh_blocks h'))"
proof -
  have "dom (map_option value_block \<circ> map_of ps) \<subseteq> fst ` set ps" by (auto simp: dom_def dest: map_of_SomeD intro: rev_image_eqI)
  then have "finite (dom (map_option value_block \<circ> map_of ps))" by (rule finite_subset) simp
  then show ?thesis using assms by (simp add: only_new_def)
qed

lemma only_new_cons:
  assumes "only_new ps h h'" "mh_blocks h' m = None"
    and "mh_blocks h'' = (mh_blocks h')(m \<mapsto> value_block bs)" "mh_allocated h'' = mh_allocated h' @ [m]"
    and "mh_freed h'' = mh_freed h'" "mh_sent h'' = mh_sent h'"
  shows "only_new ((m, bs) # ps) h h''"
proof -
  have "mh_blocks h m = None" "m \<notin> fst ` set ps"
    using assms(1,2) by (auto simp: only_new_def map_add_None map_of_eq_None_iff)
  then show ?thesis using assms by (auto simp: only_new_def map_add_def fun_eq_iff)
qed

lemma bytes_new:
  assumes "alloc_laws A" "finite (dom (mh_blocks h))" "only_new ps h h'" "length bs = n" "n < 2 ^ 31"
  shows "\<exists>m h''. msg_new A (bytes_type n) (bytes_value bs) h' = Inr (m, h'') \<and> only_new ((m, bs) # ps) h h''"
proof -
  note i = as_i32_small [OF assms(5)]
  have "mh_blocks h' (A (mh_blocks h') (as_i32 n)) = None"
    using assms(1) only_new_finite [OF assms(3,2)] by (auto simp: alloc_laws_def)
  then show ?thesis
    using only_new_cons [OF assms(3)] assms(4) i
    by (simp add: msg_new_def bytes_type_def msg_alloc_def msg_store_def drop_value_def value_block_def Let_def)
qed

lemma bytes_uninit:
  assumes "alloc_laws A" "finite (dom (mh_blocks h))" "only_new ps h h'" "length bs = n" "n < 2 ^ 31"
  shows "\<exists>m h1 h2. message_new_uninit A (bytes_type n) h' = Inr (m, h1) \<and> msg_store m n (Api_Message.Value (bytes_value bs)) h1 = Inr h2 \<and>
    only_new ((m, bs) # ps) h h2"
proof -
  note i = as_i32_small [OF assms(5)]
  have "mh_blocks h' (A (mh_blocks h') (as_i32 n)) = None"
    using assms(1) only_new_finite [OF assms(3,2)] by (auto simp: alloc_laws_def)
  then show ?thesis
    using only_new_cons [OF assms(3)] assms(4) i
    by (simp add: message_new_uninit_def bytes_type_def msg_alloc_def msg_store_def value_block_def Let_def)
qed

lemma bytes_read: "only_new ((m, bs) # ps) h h' \<Longrightarrow> read_message m h' = Inr bs"
  by (frule only_new_block) (simp add: read_message_def message_deref_def value_block_def bytes_value_def)

lemma bytes_assign:
  assumes "only_new ((m, bs) # ps) h h'" "length bs' = length bs"
  shows "\<exists>h''. assign_message m bs' h' = Inr h'' \<and> only_new ((m, bs') # ps) h h''"
  using assms only_new_block [OF assms(1)]
  by (simp add: assign_message_def msg_store_def value_block_def) (auto simp: only_new_def value_block_def map_add_def fun_eq_iff)

lemma bytes_drop:
  assumes "only_new ((m, bs) # ps) h h'"
  shows "\<exists>h''. message_drop (bytes_type n) True m h' = Inr h'' \<and> only_new ps h h''"
proof -
  have "mh_blocks h m = None" "map_of ps m = None" using assms by (auto simp: only_new_def map_of_eq_None_iff)
  then show ?thesis
    using assms only_new_block [OF assms]
    by (simp add: message_drop_def message_deref_def drop_value_def bytes_type_def msg_free_def value_block_def dom_def)
      (auto simp: only_new_def map_add_def fun_eq_iff)
qed

lemma bytes_drop_all:
  "only_new ps h h' \<Longrightarrow> ms = map fst ps \<Longrightarrow> \<exists>h''. drop_messages ms h' = Inr h'' \<and> only_new [] h h''"
proof (induction ps arbitrary: h' ms)
  case (Cons p ps)
  obtain m bs where "p = (m, bs)" by (cases p)
  then show ?case using bytes_drop [of m bs ps h h' 1] Cons by fastforce
qed simp

lemma uninit_passes:
  assumes "alloc_laws A" "finite (dom (mh_blocks h))" "only_new ps h h'" "ms = map fst ps"
  shows "\<exists>h''. test_uninit A L ms e h' = Inr (None, e, h'') \<and> only_new [] h h''"
proof -
  obtain m h1 h2 where u: "message_new_uninit A (bytes_type 256) h' = Inr (m, h1)"
    "msg_store m 256 (Api_Message.Value (bytes_value (replicate 256 0))) h1 = Inr h2" "only_new ((m, replicate 256 0) # ps) h h2"
    using bytes_uninit [OF assms(1-3), of "replicate 256 0" 256] by auto
  obtain h3 where d: "message_drop (bytes_type 256) True m h2 = Inr h3" "only_new ps h h3" using bytes_drop [OF u(3)] by blast
  obtain w h4 h5 where w: "message_new_uninit A (bytes_type 1) h3 = Inr (w, h4)"
    "msg_store w 1 (Api_Message.Value (bytes_value [0])) h4 = Inr h5" "only_new ((w, [0]) # ps) h h5"
    using bytes_uninit [OF assms(1,2) d(2), of "[0]" 1] by auto
  obtain h6 where e: "drop_messages (w # ms) h5 = Inr h6" "only_new [] h h6" using bytes_drop_all [OF w(3)] assms(4) by auto
  have fill: "fill_message m 256 0 h1 = Inr h2" using u(2) by (simp only: fill_message_def assign_message_def length_replicate)
  have wr: "message_write (bytes_type 1) w (bytes_value [0]) h4 = Inr (w, h5)"
    using w(2) by (simp add: message_write_def bytes_type_def msg_assume_init_def into_raw_def)
  have "test_uninit A L ms e h' = Inr (None, e, h6)"
    by (simp only: test_uninit_def u(1) fill msg_assume_init_def into_raw_def bytes_read [OF u(3)] bytes_read [OF w(3)] d(1) w(1) wr e(1)
        try_bind_simps Let_def prod.case simp_thms if_False)
  then show ?thesis using e(2) by blast
qed

text \<open>The command that tests messages passes with every allocator and in every state of the heap, and it is clean: it
  sends nothing, and when it returns the blocks are those from before it and each block it allocated
  has been freed once.\<close>

theorem message_command_passes:
  assumes "alloc_laws A" "finite (dom (mh_blocks h))"
  shows "\<exists>h'. message_test_command A L e h = Inr (None, e, h') \<and> mh_blocks h' = mh_blocks h \<and> mh_sent h' = mh_sent h \<and>
    mset (mh_allocated h') + mset (mh_freed h) = mset (mh_allocated h) + mset (mh_freed h')"
proof -
  obtain m h1 where m: "msg_new A (bytes_type 1) (bytes_value [0]) h = Inr (m, h1)" "only_new [(m, [0])] h h1"
    using bytes_new [OF assms only_new_start, of "[0]" 1] by auto
  obtain h2 where a: "assign_message m [1] h1 = Inr h2" "only_new [(m, [1])] h h2" using bytes_assign [OF m(2), of "[1]"] by auto
  obtain g h3 where g: "msg_new A (bytes_type 1) (bytes_value [2]) h2 = Inr (g, h3)" "only_new [(g, [2]), (m, [1])] h h3"
    using bytes_new [OF assms a(2), of "[2]" 1] by auto
  obtain k h4 where k: "msg_new A (bytes_type 1) (bytes_value [1]) h3 = Inr (k, h4)" "only_new [(k, [1]), (g, [2]), (m, [1])] h h4"
    using bytes_new [OF assms g(2), of "[1]" 1] by auto
  obtain n h5 where n: "msg_new A (bytes_type 1) (bytes_value [1]) h4 = Inr (n, h5)" "only_new [(n, [1]), (k, [1]), (g, [2]), (m, [1])] h h5"
    using bytes_new [OF assms k(2), of "[1]" 1] by auto
  have moved: "only_new [(m, [1]), (n, [1]), (k, [1]), (g, [2])] h h5" "only_new [(n, [1]), (m, [1]), (k, [1]), (g, [2])] h h5"
    by (rule only_new_perm [OF _ n(2)], simp)+
  obtain h6 where u: "test_uninit A L [n, m, k, g] e h5 = Inr (None, e, h6)" "only_new [] h h6"
    using uninit_passes [OF assms moved(2), of "[n, m, k, g]" L e] by auto
  have "set_contains [m] [1] h5 = Inr True" using bytes_read [OF moved(1)] by simp
  then have "test_set A L m [k, g] e h4 = Inr (None, e, h6)"
    using u(1) by (simp add: test_set_def n(1) [unfolded One_nat_def] bytes_read [OF n(2)])
  then have "message_test_command A L e h = Inr (None, e, h6)"
    using m(1) a(1) g(1) k(1) bytes_read [OF m(2)] bytes_read [OF a(2)] bytes_read [OF g(2)] bytes_read [OF k(2)]
    by (simp add: message_test_command_def)
  then show ?thesis using u(2) by (auto simp: only_new_def map_add_def fun_eq_iff comp_def)
qed

lemma message_command_passes_witness:
  "\<exists>h. message_test_command first_free sample_error_lib no_errors
     \<lparr>mh_blocks = Map.empty, mh_live = {}, mh_allocated = [], mh_freed = [], mh_sent = []\<rparr> = Inr (None, no_errors, h) \<and>
     mh_blocks h = Map.empty"
  using message_command_passes [OF first_free_laws, of "\<lparr>mh_blocks = Map.empty, mh_live = {}, mh_allocated = [], mh_freed = [], mh_sent = []\<rparr>"
      sample_error_lib no_errors] by auto

end
