(* ===== verification/Spec2Isabelle.thy ===== *)
theory Spec2Isabelle
  imports Prelude Tw_Timer_Props Process_Timer Process_Executor Api_Roundtrip Vpp_Vec_Props Api_Gen_Props Api_Json Api_Build
    Api_Wire Api_String Api_Message Unaligned Buffer Mpsc Barrier_Lock Feature_Node Counter Registration
    Plugin_Macros Vpp_Error Plugin_Nodes Plugin_Process Timer_Near Plugin_Pace Plugin_Cli Plugin_Api Plugin_Message
begin

text \<open>
  A model of vpp-plugin-rs, a framework for writing plugins of the packet processor VPP in Rust, with
  the theorems about it.  Paths are relative to \<open>src/\<close>.

  The program has two halves.  At build time \<open>vpp-plugin-api-gen\<close> reads a VPP \<open>.api\<close> file and the files
  it imports (\<open>parser.rs\<close>: a PEG grammar, then a semantic analysis that registers types, computes CRCs
  and completes the services) and writes the Rust code for its messages (\<open>lib.rs\<close>).  At run time
  \<open>vpp-plugin\<close> wraps the C library: vectors, packet buffers, API messages, a lock that uses VPP's thread
  barrier, and process nodes whose asynchronous code waits for timers (a hierarchical timer wheel)
  and for channels.

  \<^bold>\<open>Conventions.\<close>  \<open>Prelude\<close> holds the checked machine arithmetic and the result types.  A panic is the
  \<open>None\<close> of an option, or the \<open>Panic\<close> of \<open>fault\<close> where undefined behaviour has to be told from it
  (\<open>Vpp_Vec\<close>, \<open>Buffer\<close>, \<open>Api_String\<close>); an \<open>Err\<close> is \<open>Inl\<close>.  Integers are numbers with the bound of their
  width written out; arithmetic panics on overflow, and where a \<open>dbg\<close> argument is present it follows
  the build profile: checks and debug assertions, or wrapping.  The C library and third-party crates
  are arguments of the definitions (the allocator of vectors, the CRC hasher, the iteration order of
  a hash map, the waker of a channel) with their documented behaviour as hypotheses
  (\<open>hasher_laws\<close>, \<open>waker_laws\<close>).

  \<^bold>\<open>Timer wheel\<close> (\<open>vpp-plugin/src/vppinfra/tw_timer.rs\<close>).  \<open>Tw_Timer\<close> translates the wheel with its doubly
  linked lists in a slab; \<open>Slot_Wheel\<close> is the abstract wheel whose slots are lists, and
  \<open>Tw_Timer_Refine\<close> shows that every operation of the first implements that of the second, with the
  list invariant.  \<open>Slot_Timing\<close> and \<open>Slot_Liveness\<close> prove on the abstract wheel when a timer can fire;
  \<open>Timer_Service\<close> states the contract as a locale, interpreted on the model; \<open>Tw_Timer_Props\<close> has the
  theorems: no timer is lost, returned twice or early, in whatever order timers are started, stopped and
  expired every timer that is not stopped is returned at the latest one revolution late, and which timers
  are late.  \<open>Timer_Near\<close>: timers started less than \<open>NUM_SLOTS\<close> ticks ahead are returned in time.

  \<^bold>\<open>Process nodes\<close> (\<open>vlib/process_node/tw_timer.rs\<close>, \<open>core.rs\<close>, \<open>mpsc.rs\<close>).  \<open>Process_Timer\<close>: the wheel of a
  process node, \<open>Timer\<close>, \<open>sleep\<close> and \<open>timeout\<close>, their invariant over all reachable states and the
  panic in \<open>next_expiration\<close>.  \<open>Process_Executor\<close>: the waker and the loop that polls a coroutine, waits and
  drains events (\<open>core.rs\<close>, \<open>vlib_wrapper.c\<close>), as a step relation over every coroutine that keeps the contract of
  the locale \<open>timer_future\<close>; no wake-up is lost, but a late timer can leave the node stuck.
  \<open>Mpsc\<close>: the channel, as functions and as a step relation that interleaves senders and receiver; order of
  delivery and lost wake-ups.

  \<^bold>\<open>API files\<close> (\<open>vpp-plugin-api-gen/src/parser.rs\<close>).  \<open>Rust_Str\<close> and \<open>Api_Ast\<close>: strings and the syntax tree
  with its CRC texts.  \<open>Api_Grammar\<close>: the grammar, one function per rule, on lists of characters;
  \<open>Api_Rules\<close> shows that every repeated rule consumes input (locale \<open>consuming\<close>), so that the
  repetitions end.  \<open>Api_Print\<close> and \<open>Api_Roundtrip\<close>: a printer, and that parsing what it prints gives
  back the statements.  \<open>Api_Parser\<close>: the semantic analysis; following imports and nested types are
  partial functions, as nothing bounds them.  \<open>Api_Types\<close>, \<open>Api_Crc\<close>, \<open>Api_Props\<close>: an accepted file has
  a ranked type table, so that the searches in it end, valid layouts, CRCs of known texts, and
  complete services.

  \<^bold>\<open>Generated code\<close> (\<open>vpp-plugin-api-gen/src/lib.rs\<close>).  \<open>Api_Gen\<close>, \<open>Api_Gen_Message\<close>, \<open>Api_Gen_Register\<close>:
  the text of the Rust file, line by line.  \<open>Api_Gen_Braces\<close> and \<open>Api_Gen_Balance\<close> count its braces with
  one account per generator function; \<open>Api_Gen_Props\<close> has the theorems, among them that an accepted
  file makes the generator panic exactly when a stream message is undefined.  \<open>Api_Json\<close> is the JSON
  description of the API (\<open>json.rs\<close>): every registered type is in it once.

  \<^bold>\<open>Data of the C library.\<close>  \<open>Vpp_Vec\<close>, \<open>Vpp_Vec_Props\<close> (\<open>vppinfra/vec.rs\<close>): vectors with their header, as
  refinements of lists.  \<open>Buffer\<close> (\<open>vlib/buffer.rs\<close>): the data of a packet buffer, and the conversion of
  buffer indices to pointers in blocks of eight against the plain conversion.  \<open>Api_String\<close>
  (\<open>vlibapi/mod.rs\<close>): strings in messages.  \<open>Barrier_Lock\<close> (\<open>vlib/main/sync.rs\<close>): the lock and the
  threads that use it.

  \<^bold>\<open>Messages\<close> (\<open>vlibapi/mod.rs\<close>, \<open>vlibapi/num_unaligned.rs\<close>).  \<open>Api_Message\<close>: messages as blocks of an
  allocator, registrations and streams; every block is freed or sent exactly once.  \<open>Unaligned\<close>: the integer
  wrappers and their byte order.  \<open>Api_Wire\<close>: what the generated \<open>endian_swap\<close> does to a message of any accepted
  shape; it reads counts correctly, gives the bytes of the network, and the swap back restores the values.

  \<^bold>\<open>Packets and nodes\<close> (\<open>vnet/buffer.rs\<close>, \<open>vlib/node.rs\<close>, \<open>vlib/node_generic.rs\<close>, \<open>vlib/counter.rs\<close>).
  \<open>Feature_Node\<close>: the walk along the configuration of a feature arc, frames, and the generic functions for one
  buffer and for four at a time; the locale \<open>feature_node_impl\<close> states what they need of the node of a user, and
  they agree.  \<open>Counter\<close>: counters with a row for each thread; each increment is counted once and a concurrent
  reader gets a value between those before and after.

  \<^bold>\<open>Registration\<close> (\<open>vlib/node.rs\<close>, \<open>vlib/cli.rs\<close>, \<open>vnet/feature.rs\<close>, \<open>vpp-plugin-macros/src/lib.rs\<close>).
  \<open>Registration\<close>: the chains of the host into which constructors link static structures, in any order, as a
  refinement of lists (locale \<open>registry\<close>).  \<open>Plugin_Macros\<close>: the procedural macros over tokens, with the locale
  \<open>key_block\<close> for the loops that read \<open>key: value\<close> arguments.

  \<^bold>\<open>Errors\<close> (\<open>vppinfra/error.rs\<close>, \<open>vppinfra/unformat.rs\<close>, \<open>vnet/error.rs\<close>).  \<open>Vpp_Error\<close>: error stacks with the
  memory of their texts, as a refinement of lists of texts, and the lines of CLI input.

  \<^bold>\<open>Plugins\<close> (\<open>vpp-test-plugin/src/lib.rs\<close>, \<open>vpp-example-plugin/src/lib.rs\<close>).  These theories compose the
  components.  \<open>Plugin_Nodes\<close>: the packet nodes, instances of \<open>feature_node_impl\<close>, and their accounting of
  packets.  \<open>Plugin_Process\<close>: owned buffers and the packets of the process node.  \<open>Plugin_Pace\<close>: the function of
  the process node, polled with its sleeps in the wheel of \<open>Process_Timer\<close>: the pace of its packets.
  \<open>Plugin_Cli\<close>: commands, and enabling features.  \<open>Plugin_Api\<close>: all API
  handlers and the generated code around them; the locale \<open>api_service\<close> is interpreted on both plugins and
  gives the outcome of every session of suitable requests (\<open>string_request_breaks\<close> shows others).
  \<open>Plugin_Message\<close>: the command that goes through the operations of messages.

  \<^bold>\<open>Build\<close> (\<open>vpp-plugin-api-gen/src/lib.rs\<close>, \<open>Builder\<close>).  \<open>Api_Build\<close>: output files, directives for cargo and
  errors, with parser, generator and JSON composed.

  \<^bold>\<open>Bounds.\<close>  There is no fuel: recursion is structural or has a termination proof, and loops and
  searches that may not end are partial functions in the option type, whose result is proved to
  exist where the code returns (for instance \<open>vla_search_terminates\<close>) and not to exist where it does
  not (\<open>cyclic_imports_diverge\<close>).

  \<^bold>\<open>Not modelled.\<close>  The printing of the JSON value (a third-party crate); the arithmetic of the floating-point
  wrapper (its byte order is modelled); the switch between the C stacks of
  process nodes; the checks of sleeps at the start of the process node of the test plugin, before its loop (the
  node may have any timers when the loop begins); tracing texts and
  prefetching, which do not change packets; \<open>Debug\<close> and \<open>Display\<close> texts of C headers; creating and dropping counters and
  unregistering nodes, features and commands, which are single calls of the C library; the casts of C
  pointers in \<open>vlib/main\<close>; and the generated C bindings, more than a third of the lines of the repository.
\<close>

end
